(* ===== verification/Prelude.thy ===== *)
theory Prelude
  imports Main "HOL-Library.Word" "HOL-Library.Signed_Division" "HOL-Library.Sublist"
begin

text \<open>
  Shared vocabulary of the development: the fixed-width integers of the PIC32 firmware,
  the faults an operation of the code can run into (a NULL dereference, an access outside
  an array), the sequencing of operations that may fault, and the run of a polled state
  machine together with the locale that lifts one-step invariants to whole runs.
\<close>

section \<open>Machine integers and faults\<close>

type_synonym u8 = "8 word"
type_synonym u16 = "16 word"
type_synonym u32 = "32 word"

text \<open>
  A C expression with undefined behaviour does not produce a value. The model makes the
  kinds that matter in the firmware results of their own, so that their absence is a theorem;
  a loop that never ends is one of them (\<open>Diverges\<close>), and a DMA transfer that is started while
  another is under way (\<open>Dma_Busy\<close>).
\<close>

datatype fault = Null_Deref | Out_Of_Bounds | Bad_Free | Diverges | Dma_Busy

type_synonym 'a outcome = "fault + 'a"

definition seq :: "'a outcome \<Rightarrow> ('a \<Rightarrow> 'b outcome) \<Rightarrow> 'b outcome" where
  "seq m f = (case m of Inl e \<Rightarrow> Inl e | Inr a \<Rightarrow> f a)"

named_theorems model_defs "definitions of the model that a case analysis unfolds"

lemma seq_Inl [simp]: "seq (Inl e) f = Inl e"
  by (simp add: seq_def)

lemma seq_Inr [simp]: "seq (Inr a) f = f a"
  by (simp add: seq_def)

lemma seq_eq_Inr_iff: "seq m f = Inr b \<longleftrightarrow> (\<exists>a. m = Inr a \<and> f a = Inr b)"
  by (cases m) auto

lemma seq_cong [fundef_cong]:
  "m = m' \<Longrightarrow> (\<And>a. m' = Inr a \<Longrightarrow> f a = g a) \<Longrightarrow> seq m f = seq m' g"
  by (cases m') auto

lemma seq_assoc: "seq (seq m f) g = seq m (\<lambda>a. seq (f a) g)"
  by (cases m) auto

text \<open>Reading an array element: outside the array there is no value.\<close>

definition rd :: "'a list \<Rightarrow> nat \<Rightarrow> 'a outcome" where
  "rd xs i = (if i < length xs then Inr (xs ! i) else Inl Out_Of_Bounds)"

lemma rd_in [simp]: "i < length xs \<Longrightarrow> rd xs i = Inr (xs ! i)"
  by (simp add: rd_def)

lemma rd_out [simp]: "\<not> i < length xs \<Longrightarrow> rd xs i = Inl Out_Of_Bounds"
  by (simp add: rd_def)

lemma rd_Inr_iff: "rd xs i = Inr x \<longleftrightarrow> i < length xs \<and> x = xs ! i"
  by (auto simp: rd_def)

text \<open>
  A loop whose turn for \<open>i\<close> changes only what belongs to \<open>i\<close> acts on each view separately.
\<close>

lemma fold_views:
  assumes own: "\<And>i s. v i (f i s) = g i (v i s)" and other: "\<And>i j s. i \<noteq> j \<Longrightarrow> v j (f i s) = v j s"
    and "distinct xs"
  shows "v j (fold f xs s) = (if j \<in> set xs then g j (v j s) else v j s)"
  using assms(3)
proof (induction xs arbitrary: s)
  case (Cons i xs)
  then show ?case by (cases "j = i") (auto simp: own other [of i j])
qed simp

section \<open>Polled state machines\<close>

text \<open>
  Every module of the firmware is a task function called again and again by \<open>main\<close>, with
  interrupt handlers in between. \<open>run\<close> executes a list of such inputs and stops at the
  first fault.
\<close>

fun run :: "('i \<Rightarrow> 's \<Rightarrow> 's outcome) \<Rightarrow> 'i list \<Rightarrow> 's \<Rightarrow> 's outcome" where
  "run step [] s = Inr s"
| "run step (i # is) s = seq (step i s) (run step is)"

lemma run_append: "run step (is @ js) s = seq (run step is s) (run step js)"
proof (induction "is" arbitrary: s)
  case (Cons i "is")
  then have "run step (is @ js) = (\<lambda>s. seq (run step is s) (run step js))" by auto
  then show ?case by (simp add: seq_assoc)
qed simp

text \<open>
  The contract of a polled task: one step keeps the invariant. The conclusions hold for runs
  of any length, in any interleaving of task calls and interrupts.
\<close>

locale polled_task =
  fixes step :: "'i \<Rightarrow> 's \<Rightarrow> 's outcome"
    and inv :: "'s \<Rightarrow> bool"
  assumes step_inv: "inv s \<Longrightarrow> step i s = Inr t \<Longrightarrow> inv t"
begin

lemma run_inv: "inv s \<Longrightarrow> run step is s = Inr t \<Longrightarrow> inv t"
proof (induction "is" arbitrary: s)
  case Nil
  then show ?case by simp
next
  case (Cons i "is")
  from Cons.prems(2) obtain u where u: "step i s = Inr u" and r: "run step is u = Inr t"
    by (auto simp: seq_eq_Inr_iff)
  from Cons.prems(1) u have "inv u" by (rule step_inv)
  then show ?case using r by (rule Cons.IH)
qed

end

text \<open>A task that, under its invariant, never faults: then a run of any length returns.\<close>

locale safe_task = polled_task +
  assumes step_safe: "inv s \<Longrightarrow> \<exists>t. step i s = Inr t"
begin

lemma run_safe: "inv s \<Longrightarrow> \<exists>t. run step is s = Inr t \<and> inv t"
proof (induction "is" arbitrary: s)
  case Nil
  then show ?case by simp
next
  case (Cons i "is")
  then obtain u where u: "step i s = Inr u" using step_safe by blast
  with Cons.prems have "inv u" by (rule step_inv)
  then obtain t where "run step is u = Inr t \<and> inv t" using Cons.IH by blast
  with u show ?case by simp
qed

end

text \<open>
  A task that carries out a request in stages, polled with a flag that says whether the hardware
  is still busy: a poll that finds it ready completes a stage, a busy one may wait, and the last
  stage is at rest. Then every schedule with enough ready polls reaches the last stage.
\<close>

locale staged_task =
  fixes step :: "bool \<Rightarrow> 's \<Rightarrow> 's outcome"
    and stage :: "nat \<Rightarrow> 's \<Rightarrow> bool"
    and final :: nat
  assumes ready: "k < final \<Longrightarrow> stage k s \<Longrightarrow> \<exists>t. step False s = Inr t \<and> stage (Suc k) t"
    and busy: "k < final \<Longrightarrow> stage k s \<Longrightarrow> \<exists>t. step True s = Inr t \<and> (stage k t \<or> stage (Suc k) t)"
    and rest: "stage final s \<Longrightarrow> \<exists>t. step b s = Inr t \<and> stage final t"
begin

lemma completes:
  "stage k s \<Longrightarrow> k \<le> final \<Longrightarrow> final \<le> k + length (filter Not bs) \<Longrightarrow>
     \<exists>t. run step bs s = Inr t \<and> stage final t"
proof (induction bs arbitrary: k s)
  case Nil
  then show ?case by simp
next
  case (Cons b bs)
  show ?case
  proof (cases "k = final")
    case True
    with Cons.prems(1) rest [of s b] obtain t where "step b s = Inr t" "stage final t" by auto
    with Cons.IH [of final t] show ?thesis by simp
  next
    case False
    then have k: "k < final" using Cons.prems(2) by simp
    show ?thesis
    proof (cases b)
      case True
      with busy [OF k Cons.prems(1)] obtain t j where "step b s = Inr t" "stage j t" "j = k \<or> j = Suc k" by auto
      with Cons.IH [of j t] Cons.prems(3) True k show ?thesis by auto
    next
      case False
      with ready [OF k Cons.prems(1)] obtain t where "step b s = Inr t" "stage (Suc k) t" by auto
      with Cons.IH [of "Suc k" t] Cons.prems(3) False k show ?thesis by simp
    qed
  qed
qed

end

text \<open>
  A task that is safe as long as its inputs keep the rules of its interface, which may depend on
  the state; \<open>rel\<close> is what every step promises about the states before and after.
\<close>

fun ok_run :: "('i \<Rightarrow> 's \<Rightarrow> bool) \<Rightarrow> ('i \<Rightarrow> 's \<Rightarrow> 's outcome) \<Rightarrow> 'i list \<Rightarrow> 's \<Rightarrow> bool" where
  "ok_run ok step [] s \<longleftrightarrow> True"
| "ok_run ok step (i # is) s \<longleftrightarrow> ok i s \<and> (case step i s of Inl _ \<Rightarrow> True | Inr t \<Rightarrow> ok_run ok step is t)"

locale guarded_task =
  fixes step :: "'i \<Rightarrow> 's \<Rightarrow> 's outcome"
    and inv :: "'s \<Rightarrow> bool"
    and ok :: "'i \<Rightarrow> 's \<Rightarrow> bool"
    and rel :: "'s \<Rightarrow> 's \<Rightarrow> bool"
  assumes step_ok: "inv s \<Longrightarrow> ok i s \<Longrightarrow> \<exists>t. step i s = Inr t \<and> inv t \<and> rel s t"
    and rel_refl: "rel s s"
    and rel_trans: "rel s t \<Longrightarrow> rel t u \<Longrightarrow> rel s u"
begin

lemma run_ok: "inv s \<Longrightarrow> ok_run ok step is s \<Longrightarrow> \<exists>t. run step is s = Inr t \<and> inv t \<and> rel s t"
proof (induction "is" arbitrary: s)
  case Nil
  then show ?case by (simp add: rel_refl)
next
  case (Cons i "is")
  from Cons.prems have "inv s" "ok i s" by simp_all
  from step_ok [OF this] obtain t where t: "step i s = Inr t" "inv t" "rel s t" by blast
  with Cons.prems have "ok_run ok step is t" by simp
  from Cons.IH [OF t(2) this] obtain u where u: "run step is t = Inr u" "inv u" "rel t u" by blast
  from rel_trans [OF t(3) u(3)] have "rel s u" .
  with t(1) u(1,2) show ?case by simp
qed

end

end
