(* ===== verification/Usb_Driver.thy ===== *)
theory Usb_Driver
  imports Prelude
begin

text \<open>
  The USB client driver of the A7672E modem (\<open>usb_A7672E.c\<close>, \<open>usb_A7672E.h\<close>): the
  instance object with its four interfaces and eleven pipes, the callbacks that the host
  stack invokes (device assign and release, interface assign, device and interface events,
  device tasks), the eleven transfer functions and the bus enumeration task. The Harmony host
  stack is a parameter: a record of its answers. The calls the driver makes to it are logged
  in \<open>calls\<close>, so that the theorems can speak about them.
\<close>

section \<open>Types of the host stack interface\<close>

datatype USB_HOST_RESULT =
    USB_HOST_RESULT_REQUEST_BUSY | USB_HOST_RESULT_STRING_DESCRIPTOR_UNSUPPORTED
  | USB_HOST_RESULT_TRANSFER_ABORTED | USB_HOST_RESULT_REQUEST_STALLED
  | USB_HOST_RESULT_PIPE_HANDLE_INVALID | USB_HOST_RESULT_END_OF_DEVICE_LIST
  | USB_HOST_RESULT_INTERFACE_UNKNOWN | USB_HOST_RESULT_PARAMETER_INVALID
  | USB_HOST_RESULT_CONFIGURATION_UNKNOWN | USB_HOST_RESULT_BUS_NOT_ENABLED
  | USB_HOST_RESULT_BUS_UNKNOWN | USB_HOST_RESULT_DEVICE_UNKNOWN | USB_HOST_RESULT_FAILURE
  | USB_HOST_RESULT_FALSE | USB_HOST_RESULT_SUCCESS

text \<open>In the C enumeration \<open>USB_HOST_RESULT_TRUE\<close> and \<open>USB_HOST_RESULT_SUCCESS\<close> are one value.\<close>

abbreviation USB_HOST_RESULT_TRUE :: USB_HOST_RESULT where
  "USB_HOST_RESULT_TRUE \<equiv> USB_HOST_RESULT_SUCCESS"

text \<open>All handles are \<open>uintptr_t\<close>; the invalid handle of every kind is \<open>-1\<close>.\<close>

type_synonym handle = u32

abbreviation HANDLE_INVALID :: handle where "HANDLE_INVALID \<equiv> - 1"

datatype USB_TRANSFER_TYPE = USB_TRANSFER_TYPE_BULK | USB_TRANSFER_TYPE_INTERRUPT

datatype USB_DATA_DIRECTION = USB_DATA_DIRECTION_DEVICE_TO_HOST | USB_DATA_DIRECTION_HOST_TO_DEVICE

record USB_INTERFACE_DESCRIPTOR =
  bInterfaceNumber :: u8
  bInterfaceClass :: u8
  bInterfaceSubClass :: u8
  bInterfaceProtocol :: u8

datatype USB_HOST_DEVICE_EVENT =
    USB_HOST_DEVICE_EVENT_CONFIGURATION_SET USB_HOST_RESULT
  | USB_HOST_DEVICE_EVENT_CONFIGURATION_DESCRIPTOR_GET_COMPLETE

section \<open>Types of the driver\<close>

datatype USB_HOST_SIMCOM_RESULT =
    USB_HOST_SIMCOM_RESULT_FAILURE | USB_HOST_SIMCOM_RESULT_REQUEST_STALLED
  | USB_HOST_SIMCOM_RESULT_INVALID_PARAMETER | USB_HOST_SIMCOM_RESULT_BUSY
  | USB_HOST_SIMCOM_RESULT_ABORTED | USB_HOST_SIMCOM_RESULT_HANDLE_INVALID
  | USB_HOST_SIMCOM_RESULT_SUCCESS

datatype USB_HOST_STATE =
    USB_HOST_STATE_ERROR | USB_HOST_STATE_INIT | USB_HOST_STATE_ENABLING_BUS
  | USB_HOST_STATE_GETTING_DEVICES | USB_HOST_STATE_READY

datatype USB_HOST_SIMCOM_STATE =
    USB_HOST_SIMCOM_STATE_ERROR | USB_HOST_SIMCOM_STATE_NOT_READY
  | USB_HOST_SIMCOM_STATE_SET_CONFIGURATION | USB_HOST_SIMCOM_STATE_WAIT_FOR_CONFIGURATION_SET
  | USB_HOST_SIMCOM_STATE_WAIT_FOR_INTERFACES | USB_HOST_SIMCOM_STATE_READY

record USB_HOST_SIMCOM_TRANSFER_COMPLETE_DATA =
  transferHandle :: handle
  tc_result :: USB_HOST_RESULT
  tc_length :: u32

datatype USB_HOST_SIMCOM_EVENT =
    USB_HOST_SIMCOM_EVENT_AT_READ_COMPLETE
  | USB_HOST_SIMCOM_EVENT_AT_WRITE_COMPLETE
  | USB_HOST_SIMCOM_EVENT_AT_SERIAL_STATE_NOTIFICATION_RECEIVED
  | USB_HOST_SIMCOM_EVENT_RNDIS_READ_COMPLETE
  | USB_HOST_SIMCOM_EVENT_RNDIS_WRITE_COMPLETE
  | USB_HOST_SIMCOM_EVENT_RNDIS_SERIAL_STATE_NOTIFICATION_RECEIVED
  | USB_HOST_SIMCOM_EVENT_ECM_READ_COMPLETE
  | USB_HOST_SIMCOM_EVENT_ECM_WRITE_COMPLETE
  | USB_HOST_SIMCOM_EVENT_ECM_SERIAL_STATE_NOTIFICATION_RECEIVED
  | USB_HOST_SIMCOM_EVENT_DIAG_READ_COMPLETE
  | USB_HOST_SIMCOM_EVENT_DIAG_WRITE_COMPLETE
  | USB_HOST_SIMCOM_EVENT_DEVICE_DETACHED

datatype USB_HOST_DEVICE_INTERFACE_EVENT =
    USB_HOST_DEVICE_INTERFACE_EVENT_TRANSFER_COMPLETE USB_HOST_SIMCOM_TRANSFER_COMPLETE_DATA
  | USB_HOST_DEVICE_INTERFACE_EVENT_SET_INTERFACE_COMPLETE
  | USB_HOST_DEVICE_INTERFACE_EVENT_PIPE_HALT_CLEAR_COMPLETE

text \<open>
  A registered event handler: the event, the event data (a pointer that may be NULL), the
  client's context value and the client's state, which it updates.
\<close>

type_synonym 'a event_handler =
  "USB_HOST_SIMCOM_EVENT \<Rightarrow> USB_HOST_SIMCOM_TRANSFER_COMPLETE_DATA option \<Rightarrow> u32 \<Rightarrow> 'a \<Rightarrow> 'a outcome"

record SIMCOM_IAD_RNDIS =
  rndis_commInterfaceHandle :: handle
  rndis_dataInterfaceHandle :: handle
  rndis_interruptPipeHandle :: handle
  rndis_bulkInPipeHandle :: handle
  rndis_bulkOutPipeHandle :: handle
  rndis_commInterfaceNumber :: u8
  rndis_dataInterfaceNumber :: u8

record SIMCOM_INTERFACE_AT =
  at_interfaceHandle :: handle
  at_bulkInPipeHandle :: handle
  at_bulkOutPipeHandle :: handle
  at_interruptPipeHandle :: handle
  at_interfaceNumber :: u8

record SIMCOM_INTERFACE_DIAGNOSTICS =
  diag_interfaceHandle :: handle
  diag_bulkInPipeHandle :: handle
  diag_bulkOutPipeHandle :: handle
  diag_interfaceNumber :: u8

record SIMCOM_INTERFACE_ECM_MODEM =
  ecm_interfaceHandle :: handle
  ecm_bulkInPipeHandle :: handle
  ecm_bulkOutPipeHandle :: handle
  ecm_interruptPipeHandle :: handle
  ecm_interfaceNumber :: u8

record 'a USB_HOST_SIMCOM_INSTANCE_OBJ =
  deviceClientHandle :: handle
  deviceObjHandle :: handle
  RNDISInterface :: SIMCOM_IAD_RNDIS
  ATInterface :: SIMCOM_INTERFACE_AT
  diagInterface :: SIMCOM_INTERFACE_DIAGNOSTICS
  ECMInterface :: SIMCOM_INTERFACE_ECM_MODEM
  controlPipeHandle :: handle
  hostRequestDone :: bool
  hostRequestResult :: USB_HOST_RESULT
  handlerContext :: u32
  eventHandler :: "'a event_handler option"
  simcomState :: USB_HOST_SIMCOM_STATE

text \<open>The host stack: its answers to the calls of the driver.\<close>

record usb_host =
  device_pipe_open :: "handle \<Rightarrow> u8 \<Rightarrow> handle"
  device_control_pipe_open :: "handle \<Rightarrow> handle"
  endpoint_query :: "USB_INTERFACE_DESCRIPTOR \<Rightarrow> USB_TRANSFER_TYPE \<Rightarrow> USB_DATA_DIRECTION \<Rightarrow> u8 option"
  general_interface_query :: "nat \<Rightarrow> USB_INTERFACE_DESCRIPTOR option"
  device_configuration_set :: "handle \<Rightarrow> u8 \<Rightarrow> USB_HOST_RESULT"
  device_transfer :: "handle \<Rightarrow> string option \<Rightarrow> u32 \<Rightarrow> USB_HOST_SIMCOM_EVENT \<Rightarrow> USB_HOST_RESULT"

datatype host_call =
    DeviceRelease handle
  | DeviceControlPipeOpen handle
  | DevicePipeOpen handle u8
  | DevicePipeClose handle
  | DeviceInterfaceRelease handle
  | DeviceConfigurationSet handle u8
  | DeviceTransfer handle "string option" u32 USB_HOST_SIMCOM_EVENT

text \<open>The driver object, the calls made to the host stack and the client's state.\<close>

record 'a usb =
  obj :: "'a USB_HOST_SIMCOM_INSTANCE_OBJ"
  calls :: "host_call list"
  app :: 'a

definition log_call :: "host_call \<Rightarrow> 'a usb \<Rightarrow> 'a usb" where
  "log_call c u = u\<lparr>calls := calls u @ [c]\<rparr>"

definition upd_obj ::
  "('a USB_HOST_SIMCOM_INSTANCE_OBJ \<Rightarrow> 'a USB_HOST_SIMCOM_INSTANCE_OBJ) \<Rightarrow> 'a usb \<Rightarrow> 'a usb" where
  "upd_obj f u = u\<lparr>obj := f (obj u)\<rparr>"

definition upd_rndis :: "(SIMCOM_IAD_RNDIS \<Rightarrow> SIMCOM_IAD_RNDIS) \<Rightarrow> 'a usb \<Rightarrow> 'a usb" where
  "upd_rndis f u = upd_obj (RNDISInterface_update f) u"

definition upd_at :: "(SIMCOM_INTERFACE_AT \<Rightarrow> SIMCOM_INTERFACE_AT) \<Rightarrow> 'a usb \<Rightarrow> 'a usb" where
  "upd_at f u = upd_obj (ATInterface_update f) u"

definition upd_diag ::
  "(SIMCOM_INTERFACE_DIAGNOSTICS \<Rightarrow> SIMCOM_INTERFACE_DIAGNOSTICS) \<Rightarrow> 'a usb \<Rightarrow> 'a usb" where
  "upd_diag f u = upd_obj (diagInterface_update f) u"

definition upd_ecm ::
  "(SIMCOM_INTERFACE_ECM_MODEM \<Rightarrow> SIMCOM_INTERFACE_ECM_MODEM) \<Rightarrow> 'a usb \<Rightarrow> 'a usb" where
  "upd_ecm f u = upd_obj (ECMInterface_update f) u"

lemmas upd_defs [model_defs] =
  log_call_def upd_obj_def upd_rndis_def upd_at_def upd_diag_def upd_ecm_def

section \<open>Results and device callbacks\<close>

text \<open>\<open>F_USB_HOST_SIMCOM_HostResutlToSIMCOMResultMap\<close>\<close>

fun result_map :: "USB_HOST_RESULT \<Rightarrow> USB_HOST_SIMCOM_RESULT" where
  "result_map USB_HOST_RESULT_SUCCESS = USB_HOST_SIMCOM_RESULT_SUCCESS"
| "result_map USB_HOST_RESULT_FAILURE = USB_HOST_SIMCOM_RESULT_FAILURE"
| "result_map USB_HOST_RESULT_PARAMETER_INVALID = USB_HOST_SIMCOM_RESULT_FAILURE"
| "result_map USB_HOST_RESULT_PIPE_HANDLE_INVALID = USB_HOST_SIMCOM_RESULT_FAILURE"
| "result_map USB_HOST_RESULT_REQUEST_BUSY = USB_HOST_SIMCOM_RESULT_BUSY"
| "result_map USB_HOST_RESULT_REQUEST_STALLED = USB_HOST_SIMCOM_RESULT_REQUEST_STALLED"
| "result_map USB_HOST_RESULT_TRANSFER_ABORTED = USB_HOST_SIMCOM_RESULT_ABORTED"
| "result_map _ = USB_HOST_SIMCOM_RESULT_FAILURE"

text \<open>\<open>F_USB_HOST_SIMCOM_DeviceAssign\<close>; the descriptor is read for \<open>bNumConfigurations\<close> only.\<close>

definition DeviceAssign :: "usb_host \<Rightarrow> handle \<Rightarrow> handle \<Rightarrow> u8 \<Rightarrow> 'a usb \<Rightarrow> 'a usb" where
  "DeviceAssign h deviceHandle objHandle bNumConfigurations u =
    (let u = upd_obj (\<lambda>o'. o'\<lparr>deviceClientHandle := deviceHandle, deviceObjHandle := objHandle\<rparr>) u in
     if bNumConfigurations > 0 then
       let u = upd_obj (\<lambda>o'. o'\<lparr>simcomState := USB_HOST_SIMCOM_STATE_SET_CONFIGURATION\<rparr>) u;
           u = log_call (DeviceControlPipeOpen objHandle) u
       in upd_obj (\<lambda>o'. o'\<lparr>controlPipeHandle := device_control_pipe_open h objHandle\<rparr>) u
     else
       let u = upd_obj (\<lambda>o'. o'\<lparr>simcomState := USB_HOST_SIMCOM_STATE_ERROR\<rparr>) u
       in log_call (DeviceRelease deviceHandle) u)"

text \<open>
  One block of \<open>F_USB_HOST_SIMCOM_DeviceRelease\<close>: a pipe that is open is closed and its
  handle invalidated. The getter and the update select the pipe.
\<close>

definition release_pipe ::
  "('a usb \<Rightarrow> handle) \<Rightarrow> (handle \<Rightarrow> 'a usb \<Rightarrow> 'a usb) \<Rightarrow> 'a usb \<Rightarrow> 'a usb" where
  "release_pipe get put u =
     (if get u \<noteq> HANDLE_INVALID
      then put HANDLE_INVALID (log_call (DevicePipeClose (get u)) u)
      else u)"

definition release_rndis :: "'a usb \<Rightarrow> 'a usb" where
  "release_rndis u =
     release_pipe (\<lambda>u. rndis_interruptPipeHandle (RNDISInterface (obj u)))
       (\<lambda>p. upd_rndis (\<lambda>i. i\<lparr>rndis_interruptPipeHandle := p\<rparr>))
    (release_pipe (\<lambda>u. rndis_bulkOutPipeHandle (RNDISInterface (obj u)))
       (\<lambda>p. upd_rndis (\<lambda>i. i\<lparr>rndis_bulkOutPipeHandle := p\<rparr>))
    (release_pipe (\<lambda>u. rndis_bulkInPipeHandle (RNDISInterface (obj u)))
       (\<lambda>p. upd_rndis (\<lambda>i. i\<lparr>rndis_bulkInPipeHandle := p\<rparr>)) u))"

definition release_diag :: "'a usb \<Rightarrow> 'a usb" where
  "release_diag u =
     release_pipe (\<lambda>u. diag_bulkOutPipeHandle (diagInterface (obj u)))
       (\<lambda>p. upd_diag (\<lambda>i. i\<lparr>diag_bulkOutPipeHandle := p\<rparr>))
    (release_pipe (\<lambda>u. diag_bulkInPipeHandle (diagInterface (obj u)))
       (\<lambda>p. upd_diag (\<lambda>i. i\<lparr>diag_bulkInPipeHandle := p\<rparr>)) u)"

definition release_at :: "'a usb \<Rightarrow> 'a usb" where
  "release_at u =
     release_pipe (\<lambda>u. at_interruptPipeHandle (ATInterface (obj u)))
       (\<lambda>p. upd_at (\<lambda>i. i\<lparr>at_interruptPipeHandle := p\<rparr>))
    (release_pipe (\<lambda>u. at_bulkOutPipeHandle (ATInterface (obj u)))
       (\<lambda>p. upd_at (\<lambda>i. i\<lparr>at_bulkOutPipeHandle := p\<rparr>))
    (release_pipe (\<lambda>u. at_bulkInPipeHandle (ATInterface (obj u)))
       (\<lambda>p. upd_at (\<lambda>i. i\<lparr>at_bulkInPipeHandle := p\<rparr>)) u))"

definition release_ecm :: "'a usb \<Rightarrow> 'a usb" where
  "release_ecm u =
     release_pipe (\<lambda>u. ecm_interruptPipeHandle (ECMInterface (obj u)))
       (\<lambda>p. upd_ecm (\<lambda>i. i\<lparr>ecm_interruptPipeHandle := p\<rparr>))
    (release_pipe (\<lambda>u. ecm_bulkOutPipeHandle (ECMInterface (obj u)))
       (\<lambda>p. upd_ecm (\<lambda>i. i\<lparr>ecm_bulkOutPipeHandle := p\<rparr>))
    (release_pipe (\<lambda>u. ecm_bulkInPipeHandle (ECMInterface (obj u)))
       (\<lambda>p. upd_ecm (\<lambda>i. i\<lparr>ecm_bulkInPipeHandle := p\<rparr>)) u))"

text \<open>Calling the registered event handler, if there is one.\<close>

definition notify ::
  "USB_HOST_SIMCOM_EVENT \<Rightarrow> USB_HOST_SIMCOM_TRANSFER_COMPLETE_DATA option \<Rightarrow> 'a usb \<Rightarrow> 'a usb outcome" where
  "notify e d u =
     (case eventHandler (obj u) of
        None \<Rightarrow> Inr u
      | Some f \<Rightarrow> seq (f e d (handlerContext (obj u)) (app u)) (\<lambda>a. Inr (u\<lparr>app := a\<rparr>)))"

text \<open>\<open>F_USB_HOST_SIMCOM_DeviceRelease\<close>\<close>

definition DeviceRelease_cb :: "handle \<Rightarrow> 'a usb \<Rightarrow> 'a usb outcome" where
  "DeviceRelease_cb deviceHandle u =
     seq (notify USB_HOST_SIMCOM_EVENT_DEVICE_DETACHED None
            (release_ecm (release_at (release_diag (release_rndis u)))))
       (\<lambda>u. Inr (upd_obj (\<lambda>o'. o'\<lparr>eventHandler := None, deviceObjHandle := HANDLE_INVALID,
                                  deviceClientHandle := HANDLE_INVALID\<rparr>) u))"

section \<open>Interface assignment\<close>

text \<open>
  Every block of \<open>F_USB_HOST_SIMCOM_InterfaceAssign\<close> that fills a pipe handle: query the
  endpoint of the given type and direction, open a pipe to it, or store the invalid handle.
\<close>

definition open_pipe ::
  "usb_host \<Rightarrow> USB_INTERFACE_DESCRIPTOR \<Rightarrow> USB_TRANSFER_TYPE \<Rightarrow> USB_DATA_DIRECTION \<Rightarrow> handle
   \<Rightarrow> (handle \<Rightarrow> 'a usb \<Rightarrow> 'a usb) \<Rightarrow> 'a usb \<Rightarrow> 'a usb" where
  "open_pipe h d tt dir ifc put u =
     (case endpoint_query h d tt dir of
        Some ep \<Rightarrow> put (device_pipe_open h ifc ep) (log_call (DevicePipeOpen ifc ep) u)
      | None \<Rightarrow> put HANDLE_INVALID u)"

text \<open>Interface 2, diagnostics.\<close>

definition assign_diag :: "usb_host \<Rightarrow> handle \<Rightarrow> USB_INTERFACE_DESCRIPTOR \<Rightarrow> 'a usb \<Rightarrow> 'a usb" where
  "assign_diag h ifc d u =
     (let u = upd_diag (\<lambda>i. i\<lparr>diag_interfaceHandle := ifc,
                              diag_interfaceNumber := bInterfaceNumber d\<rparr>) u;
          u = open_pipe h d USB_TRANSFER_TYPE_BULK USB_DATA_DIRECTION_DEVICE_TO_HOST
                (diag_interfaceHandle (diagInterface (obj u)))
                (\<lambda>p. upd_diag (\<lambda>i. i\<lparr>diag_bulkInPipeHandle := p\<rparr>)) u
      in open_pipe h d USB_TRANSFER_TYPE_BULK USB_DATA_DIRECTION_HOST_TO_DEVICE
           (diag_interfaceHandle (diagInterface (obj u)))
           (\<lambda>p. upd_diag (\<lambda>i. i\<lparr>diag_bulkOutPipeHandle := p\<rparr>)) u)"

text \<open>Interface 4, AT commands.\<close>

definition assign_at :: "usb_host \<Rightarrow> handle \<Rightarrow> USB_INTERFACE_DESCRIPTOR \<Rightarrow> 'a usb \<Rightarrow> 'a usb" where
  "assign_at h ifc d u =
     (let u = upd_at (\<lambda>i. i\<lparr>at_interfaceHandle := ifc,
                            at_interfaceNumber := bInterfaceNumber d\<rparr>) u;
          u = open_pipe h d USB_TRANSFER_TYPE_INTERRUPT USB_DATA_DIRECTION_DEVICE_TO_HOST
                (at_interfaceHandle (ATInterface (obj u)))
                (\<lambda>p. upd_at (\<lambda>i. i\<lparr>at_interruptPipeHandle := p\<rparr>)) u;
          u = open_pipe h d USB_TRANSFER_TYPE_BULK USB_DATA_DIRECTION_DEVICE_TO_HOST
                (at_interfaceHandle (ATInterface (obj u)))
                (\<lambda>p. upd_at (\<lambda>i. i\<lparr>at_bulkInPipeHandle := p\<rparr>)) u
      in open_pipe h d USB_TRANSFER_TYPE_BULK USB_DATA_DIRECTION_HOST_TO_DEVICE
           (at_interfaceHandle (ATInterface (obj u)))
           (\<lambda>p. upd_at (\<lambda>i. i\<lparr>at_bulkOutPipeHandle := p\<rparr>)) u)"

text \<open>Interface 5, ECM modem.\<close>

definition assign_ecm :: "usb_host \<Rightarrow> handle \<Rightarrow> USB_INTERFACE_DESCRIPTOR \<Rightarrow> 'a usb \<Rightarrow> 'a usb" where
  "assign_ecm h ifc d u =
     (let u = upd_ecm (\<lambda>i. i\<lparr>ecm_interfaceHandle := ifc,
                             ecm_interfaceNumber := bInterfaceNumber d\<rparr>) u;
          u = open_pipe h d USB_TRANSFER_TYPE_INTERRUPT USB_DATA_DIRECTION_DEVICE_TO_HOST
                (ecm_interfaceHandle (ECMInterface (obj u)))
                (\<lambda>p. upd_ecm (\<lambda>i. i\<lparr>ecm_interruptPipeHandle := p\<rparr>)) u;
          u = open_pipe h d USB_TRANSFER_TYPE_BULK USB_DATA_DIRECTION_DEVICE_TO_HOST
                (ecm_interfaceHandle (ECMInterface (obj u)))
                (\<lambda>p. upd_ecm (\<lambda>i. i\<lparr>ecm_bulkInPipeHandle := p\<rparr>)) u
      in open_pipe h d USB_TRANSFER_TYPE_BULK USB_DATA_DIRECTION_HOST_TO_DEVICE
           (ecm_interfaceHandle (ECMInterface (obj u)))
           (\<lambda>p. upd_ecm (\<lambda>i. i\<lparr>ecm_bulkOutPipeHandle := p\<rparr>)) u)"

text \<open>
  The loop body over an interface association: a comm interface (RNDIS) gets its interrupt
  pipe, a data interface its two bulk pipes, another interface is left alone. \<open>k\<close> is the
  loop's iterator, which also indexes the array of interface handles.
\<close>

definition assign_rndis_at ::
  "usb_host \<Rightarrow> handle list \<Rightarrow> nat \<Rightarrow> 'a usb \<Rightarrow> 'a usb outcome" where
  "assign_rndis_at h interfaces k u =
     (case general_interface_query h k of
        None \<Rightarrow> Inr u
      | Some d \<Rightarrow>
          if bInterfaceClass d = 0xE0 \<and> bInterfaceSubClass d = 0x01 \<and> bInterfaceProtocol d = 0x03 then
            seq (rd interfaces k) (\<lambda>ifc.
              let u = upd_rndis (\<lambda>i. i\<lparr>rndis_commInterfaceNumber := bInterfaceNumber d,
                                       rndis_commInterfaceHandle := ifc\<rparr>) u
              in Inr (open_pipe h d USB_TRANSFER_TYPE_INTERRUPT USB_DATA_DIRECTION_DEVICE_TO_HOST
                        (rndis_commInterfaceHandle (RNDISInterface (obj u)))
                        (\<lambda>p. upd_rndis (\<lambda>i. i\<lparr>rndis_interruptPipeHandle := p\<rparr>)) u))
          else if bInterfaceClass d = 0x0A then
            seq (rd interfaces k) (\<lambda>ifc.
              let u = upd_rndis (\<lambda>i. i\<lparr>rndis_dataInterfaceNumber := bInterfaceNumber d,
                                       rndis_dataInterfaceHandle := ifc\<rparr>) u;
                  u = open_pipe h d USB_TRANSFER_TYPE_BULK USB_DATA_DIRECTION_DEVICE_TO_HOST
                        (rndis_dataInterfaceHandle (RNDISInterface (obj u)))
                        (\<lambda>p. upd_rndis (\<lambda>i. i\<lparr>rndis_bulkInPipeHandle := p\<rparr>)) u
              in Inr (open_pipe h d USB_TRANSFER_TYPE_BULK USB_DATA_DIRECTION_HOST_TO_DEVICE
                        (rndis_dataInterfaceHandle (RNDISInterface (obj u)))
                        (\<lambda>p. upd_rndis (\<lambda>i. i\<lparr>rndis_bulkOutPipeHandle := p\<rparr>)) u))
          else Inr u)"

text \<open>
  \<open>F_USB_HOST_SIMCOM_InterfaceAssign\<close>. \<open>d\<close> is what the descriptor pointer refers to when one
  interface is assigned; for an association the host's query enumerates its interfaces.
\<close>

definition InterfaceAssign ::
  "usb_host \<Rightarrow> handle list \<Rightarrow> nat \<Rightarrow> USB_INTERFACE_DESCRIPTOR \<Rightarrow> 'a usb \<Rightarrow> 'a usb outcome" where
  "InterfaceAssign h interfaces nInterfaces d u =
     (if nInterfaces = 1 then
        seq (rd interfaces 0) (\<lambda>ifc. Inr
          (if bInterfaceClass d = 0xFF then
             if bInterfaceNumber d = 0x02 then assign_diag h ifc d u
             else if bInterfaceNumber d = 0x04 then assign_at h ifc d u
             else if bInterfaceNumber d = 0x05 then assign_ecm h ifc d u
             else log_call (DeviceInterfaceRelease ifc) u
           else log_call (DeviceInterfaceRelease ifc) u))
      else if nInterfaces > 1 then
        seq (assign_rndis_at h interfaces 0 u) (\<lambda>u. assign_rndis_at h interfaces 1 u)
      else Inr u)"

section \<open>Events, registration, tasks\<close>

text \<open>\<open>F_USB_HOST_SIMCOM_DeviceEventHandler\<close>; its context is the address of the instance.\<close>

fun DeviceEventHandler :: "USB_HOST_DEVICE_EVENT \<Rightarrow> 'a usb \<Rightarrow> 'a usb" where
  "DeviceEventHandler (USB_HOST_DEVICE_EVENT_CONFIGURATION_SET r) u =
     upd_obj (\<lambda>o'. o'\<lparr>hostRequestResult := r, hostRequestDone := True\<rparr>) u"
| "DeviceEventHandler USB_HOST_DEVICE_EVENT_CONFIGURATION_DESCRIPTOR_GET_COMPLETE u = u"

text \<open>
  \<open>F_USB_HOST_SIMCOM_InterfaceEventHandler\<close>. The context of a transfer is the driver event it
  was started with.
\<close>

fun InterfaceEventHandler ::
  "USB_HOST_DEVICE_INTERFACE_EVENT \<Rightarrow> USB_HOST_SIMCOM_EVENT \<Rightarrow> 'a usb \<Rightarrow> 'a usb outcome" where
  "InterfaceEventHandler (USB_HOST_DEVICE_INTERFACE_EVENT_TRANSFER_COMPLETE d) e u =
     notify e (Some \<lparr>transferHandle = transferHandle d, tc_result = tc_result d,
                     tc_length = tc_length d\<rparr>) u"
| "InterfaceEventHandler _ e u = Inr u"

text \<open>\<open>USB_HOST_SIMCOM_EventHandlerSet\<close>\<close>

definition EventHandlerSet ::
  "'a event_handler option \<Rightarrow> u32 \<Rightarrow> 'a usb \<Rightarrow> USB_HOST_SIMCOM_RESULT \<times> 'a usb" where
  "EventHandlerSet f c u =
     (USB_HOST_SIMCOM_RESULT_SUCCESS,
      upd_obj (\<lambda>o'. o'\<lparr>eventHandler := f, handlerContext := c\<rparr>) u)"

text \<open>\<open>F_USB_HOST_SIMCOM_Initialize\<close>\<close>

definition Initialize :: "'a usb \<Rightarrow> 'a usb" where
  "Initialize u = upd_obj (\<lambda>o'. o'\<lparr>
     deviceClientHandle := HANDLE_INVALID, deviceObjHandle := HANDLE_INVALID,
     RNDISInterface := (RNDISInterface o')\<lparr>rndis_bulkInPipeHandle := HANDLE_INVALID,
       rndis_bulkOutPipeHandle := HANDLE_INVALID, rndis_interruptPipeHandle := HANDLE_INVALID\<rparr>,
     diagInterface := (diagInterface o')\<lparr>diag_bulkInPipeHandle := HANDLE_INVALID,
       diag_bulkOutPipeHandle := HANDLE_INVALID\<rparr>,
     ATInterface := (ATInterface o')\<lparr>at_bulkInPipeHandle := HANDLE_INVALID,
       at_bulkOutPipeHandle := HANDLE_INVALID, at_interruptPipeHandle := HANDLE_INVALID\<rparr>,
     ECMInterface := (ECMInterface o')\<lparr>ecm_bulkInPipeHandle := HANDLE_INVALID,
       ecm_bulkOutPipeHandle := HANDLE_INVALID, ecm_interruptPipeHandle := HANDLE_INVALID\<rparr>\<rparr>) u"

text \<open>The eleven pipe handles, in the order in which \<open>DeviceRelease\<close> closes them.\<close>

definition pipes :: "'a USB_HOST_SIMCOM_INSTANCE_OBJ \<Rightarrow> handle list" where
  "pipes o' =
     [rndis_bulkInPipeHandle (RNDISInterface o'), rndis_bulkOutPipeHandle (RNDISInterface o'),
      rndis_interruptPipeHandle (RNDISInterface o'),
      diag_bulkInPipeHandle (diagInterface o'), diag_bulkOutPipeHandle (diagInterface o'),
      at_bulkInPipeHandle (ATInterface o'), at_bulkOutPipeHandle (ATInterface o'),
      at_interruptPipeHandle (ATInterface o'),
      ecm_bulkInPipeHandle (ECMInterface o'), ecm_bulkOutPipeHandle (ECMInterface o'),
      ecm_interruptPipeHandle (ECMInterface o')]"

text \<open>\<open>F_USB_HOST_SIMCOM_DeviceTasks\<close>\<close>

definition DeviceTasks :: "usb_host \<Rightarrow> 'a usb \<Rightarrow> 'a usb" where
  "DeviceTasks h u =
     (case simcomState (obj u) of
        USB_HOST_SIMCOM_STATE_NOT_READY \<Rightarrow> u
      | USB_HOST_SIMCOM_STATE_SET_CONFIGURATION \<Rightarrow>
          let u = upd_obj (\<lambda>o'. o'\<lparr>hostRequestDone := False\<rparr>) u;
              r = device_configuration_set h (deviceClientHandle (obj u)) 0;
              u = log_call (DeviceConfigurationSet (deviceClientHandle (obj u)) 0) u
          in if r = USB_HOST_RESULT_SUCCESS then
               upd_obj (\<lambda>o'. o'\<lparr>simcomState := USB_HOST_SIMCOM_STATE_WAIT_FOR_CONFIGURATION_SET\<rparr>) u
             else u
      | USB_HOST_SIMCOM_STATE_WAIT_FOR_CONFIGURATION_SET \<Rightarrow>
          if hostRequestDone (obj u) then
            if hostRequestResult (obj u) = USB_HOST_RESULT_SUCCESS then
              upd_obj (\<lambda>o'. o'\<lparr>simcomState := USB_HOST_SIMCOM_STATE_WAIT_FOR_INTERFACES\<rparr>) u
            else upd_obj (\<lambda>o'. o'\<lparr>simcomState := USB_HOST_SIMCOM_STATE_ERROR\<rparr>) u
          else u
      | USB_HOST_SIMCOM_STATE_WAIT_FOR_INTERFACES \<Rightarrow>
          if rndis_interruptPipeHandle (RNDISInterface (obj u)) \<noteq> HANDLE_INVALID \<and>
             rndis_bulkInPipeHandle (RNDISInterface (obj u)) \<noteq> HANDLE_INVALID \<and>
             rndis_bulkOutPipeHandle (RNDISInterface (obj u)) \<noteq> HANDLE_INVALID \<and>
             at_interruptPipeHandle (ATInterface (obj u)) \<noteq> HANDLE_INVALID \<and>
             at_bulkInPipeHandle (ATInterface (obj u)) \<noteq> HANDLE_INVALID \<and>
             at_bulkOutPipeHandle (ATInterface (obj u)) \<noteq> HANDLE_INVALID \<and>
             diag_bulkInPipeHandle (diagInterface (obj u)) \<noteq> HANDLE_INVALID \<and>
             diag_bulkOutPipeHandle (diagInterface (obj u)) \<noteq> HANDLE_INVALID \<and>
             ecm_interruptPipeHandle (ECMInterface (obj u)) \<noteq> HANDLE_INVALID \<and>
             ecm_bulkInPipeHandle (ECMInterface (obj u)) \<noteq> HANDLE_INVALID \<and>
             ecm_bulkOutPipeHandle (ECMInterface (obj u)) \<noteq> HANDLE_INVALID
          then upd_obj (\<lambda>o'. o'\<lparr>simcomState := USB_HOST_SIMCOM_STATE_READY\<rparr>) u
          else u
      | USB_HOST_SIMCOM_STATE_READY \<Rightarrow> u
      | USB_HOST_SIMCOM_STATE_ERROR \<Rightarrow> u)"

definition IsInReadyState :: "'a usb \<Rightarrow> bool" where
  "IsInReadyState u \<longleftrightarrow> simcomState (obj u) = USB_HOST_SIMCOM_STATE_READY"

text \<open>\<open>F_USB_HOST_SIMCOMInit\<close>\<close>

definition SIMCOMInit :: "'a usb \<Rightarrow> 'a usb" where
  "SIMCOMInit u = upd_obj (\<lambda>o'. o'\<lparr>simcomState := USB_HOST_SIMCOM_STATE_NOT_READY\<rparr>) u"

section \<open>Transfer functions\<close>

text \<open>
  The eleven transfer functions have one body, with the pipe and the event of the transfer
  as their difference. A NULL handle pointer is replaced by a local one, so it never matters.
\<close>

definition transfer ::
  "usb_host \<Rightarrow> ('a USB_HOST_SIMCOM_INSTANCE_OBJ \<Rightarrow> handle) \<Rightarrow> USB_HOST_SIMCOM_EVENT
   \<Rightarrow> string option \<Rightarrow> u32 \<Rightarrow> 'a usb \<Rightarrow> USB_HOST_SIMCOM_RESULT \<times> 'a usb" where
  "transfer h pipe e data sz u =
     (if simcomState (obj u) \<noteq> USB_HOST_SIMCOM_STATE_READY then (USB_HOST_SIMCOM_RESULT_BUSY, u)
      else if sz \<noteq> 0 \<and> data = None then (USB_HOST_SIMCOM_RESULT_INVALID_PARAMETER, u)
      else (result_map (device_transfer h (pipe (obj u)) data sz e),
            log_call (DeviceTransfer (pipe (obj u)) data sz e) u))"

type_synonym 'a transfer_function =
  "usb_host \<Rightarrow> string option \<Rightarrow> u32 \<Rightarrow> 'a usb \<Rightarrow> USB_HOST_SIMCOM_RESULT \<times> 'a usb"

definition AT_Write :: "'a transfer_function" where
  "AT_Write h = transfer h (\<lambda>o'. at_bulkOutPipeHandle (ATInterface o'))
     USB_HOST_SIMCOM_EVENT_AT_WRITE_COMPLETE"

definition AT_Read :: "'a transfer_function" where
  "AT_Read h = transfer h (\<lambda>o'. at_bulkInPipeHandle (ATInterface o'))
     USB_HOST_SIMCOM_EVENT_AT_READ_COMPLETE"

definition AT_SerialStateNotificationGet :: "'a transfer_function" where
  "AT_SerialStateNotificationGet h = transfer h (\<lambda>o'. at_interruptPipeHandle (ATInterface o'))
     USB_HOST_SIMCOM_EVENT_AT_SERIAL_STATE_NOTIFICATION_RECEIVED"

definition RNDIS_Write :: "'a transfer_function" where
  "RNDIS_Write h = transfer h (\<lambda>o'. rndis_bulkOutPipeHandle (RNDISInterface o'))
     USB_HOST_SIMCOM_EVENT_RNDIS_WRITE_COMPLETE"

definition RNDIS_Read :: "'a transfer_function" where
  "RNDIS_Read h = transfer h (\<lambda>o'. rndis_bulkInPipeHandle (RNDISInterface o'))
     USB_HOST_SIMCOM_EVENT_RNDIS_READ_COMPLETE"

definition RNDIS_SerialStateNotificationGet :: "'a transfer_function" where
  "RNDIS_SerialStateNotificationGet h =
     transfer h (\<lambda>o'. rndis_interruptPipeHandle (RNDISInterface o'))
     USB_HOST_SIMCOM_EVENT_RNDIS_SERIAL_STATE_NOTIFICATION_RECEIVED"

definition ECM_Write :: "'a transfer_function" where
  "ECM_Write h = transfer h (\<lambda>o'. ecm_bulkOutPipeHandle (ECMInterface o'))
     USB_HOST_SIMCOM_EVENT_ECM_WRITE_COMPLETE"

definition ECM_Read :: "'a transfer_function" where
  "ECM_Read h = transfer h (\<lambda>o'. ecm_bulkInPipeHandle (ECMInterface o'))
     USB_HOST_SIMCOM_EVENT_ECM_READ_COMPLETE"

definition ECM_SerialStateNotificationGet :: "'a transfer_function" where
  "ECM_SerialStateNotificationGet h = transfer h (\<lambda>o'. ecm_interruptPipeHandle (ECMInterface o'))
     USB_HOST_SIMCOM_EVENT_ECM_SERIAL_STATE_NOTIFICATION_RECEIVED"

definition DIAG_Write :: "'a transfer_function" where
  "DIAG_Write h = transfer h (\<lambda>o'. diag_bulkOutPipeHandle (diagInterface o'))
     USB_HOST_SIMCOM_EVENT_DIAG_WRITE_COMPLETE"

definition DIAG_Read :: "'a transfer_function" where
  "DIAG_Read h = transfer h (\<lambda>o'. diag_bulkInPipeHandle (diagInterface o'))
     USB_HOST_SIMCOM_EVENT_DIAG_READ_COMPLETE"

section \<open>The bus task\<close>

record USB_HOST_DEVICE_INFO =
  info_deviceObjHandle :: handle
  info_deviceAddress :: u8
  info_bus :: u8

record USB_HOST_BUS_DATA =
  bus_info :: "USB_HOST_DEVICE_INFO list"
  bus_state :: USB_HOST_STATE
  n_devices :: u8

abbreviation (input) MAX_NUM_DEVICES :: nat where "MAX_NUM_DEVICES \<equiv> 5"

definition bus_zero :: USB_HOST_BUS_DATA where
  "bus_zero = \<lparr>bus_info = replicate MAX_NUM_DEVICES \<lparr>info_deviceObjHandle = 0,
     info_deviceAddress = 0, info_bus = 0\<rparr>, bus_state = USB_HOST_STATE_INIT, n_devices = 0\<rparr>"

text \<open>The answers of the host stack to one call of the bus task.\<close>

record bus_host =
  host_ready :: bool
  bus_enabled :: USB_HOST_RESULT
  device_get_first :: "USB_HOST_RESULT \<times> USB_HOST_DEVICE_INFO"
  device_get_next :: "nat \<Rightarrow> USB_HOST_DEVICE_INFO \<Rightarrow> USB_HOST_RESULT \<times> USB_HOST_DEVICE_INFO"

text \<open>\<open>F_USB_HOST_HostDataInit\<close>\<close>

definition HostDataInit :: "USB_HOST_BUS_DATA \<Rightarrow> USB_HOST_BUS_DATA" where
  "HostDataInit b = b\<lparr>bus_state := USB_HOST_STATE_INIT, n_devices := 0\<rparr>"

text \<open>
  The enumeration loop. \<open>USB_HOST_DeviceGetNext\<close> reads and writes the object it is given, and
  it is called before \<open>i < MAX_NUM_DEVICES\<close> is tested.
\<close>

function get_next_loop ::
  "(nat \<Rightarrow> USB_HOST_DEVICE_INFO \<Rightarrow> USB_HOST_RESULT \<times> USB_HOST_DEVICE_INFO) \<Rightarrow> nat
   \<Rightarrow> USB_HOST_BUS_DATA \<Rightarrow> USB_HOST_BUS_DATA outcome" where
  "get_next_loop next i b =
     (if i < length (bus_info b) then
        let (r, inf) = next i (bus_info b ! i);
            b = b\<lparr>bus_info := (bus_info b)[i := inf]\<rparr>
        in if r = USB_HOST_RESULT_SUCCESS \<and> i < MAX_NUM_DEVICES
           then get_next_loop next (i + 1) (b\<lparr>n_devices := n_devices b + 1\<rparr>)
           else Inr b
      else Inl Out_Of_Bounds)"
  by pat_completeness auto

termination get_next_loop
  by (relation "measure (\<lambda>(_, i, b). length (bus_info b) - i)") auto

declare get_next_loop.simps [simp del]

text \<open>\<open>usb_simcom_tasks\<close>\<close>

definition usb_simcom_tasks :: "bus_host \<Rightarrow> USB_HOST_BUS_DATA \<Rightarrow> USB_HOST_BUS_DATA outcome" where
  "usb_simcom_tasks h b =
     (case bus_state b of
        USB_HOST_STATE_INIT \<Rightarrow>
          Inr (if host_ready h then b\<lparr>bus_state := USB_HOST_STATE_ENABLING_BUS\<rparr> else b)
      | USB_HOST_STATE_ENABLING_BUS \<Rightarrow>
          Inr (if bus_enabled h = USB_HOST_RESULT_TRUE
               then b\<lparr>bus_state := USB_HOST_STATE_GETTING_DEVICES\<rparr> else b)
      | USB_HOST_STATE_GETTING_DEVICES \<Rightarrow>
          seq (rd (bus_info b) 0) (\<lambda>_.
          let b = b\<lparr>bus_info := (bus_info b)[0 := snd (device_get_first h)]\<rparr>
          in if fst (device_get_first h) = USB_HOST_RESULT_SUCCESS then
               seq (get_next_loop (device_get_next h) 1 (b\<lparr>n_devices := n_devices b + 1\<rparr>))
                 (\<lambda>b. Inr (b\<lparr>bus_state := USB_HOST_STATE_READY\<rparr>))
             else Inr (b\<lparr>bus_state := USB_HOST_STATE_ERROR\<rparr>))
      | USB_HOST_STATE_ERROR \<Rightarrow> Inr b
      | USB_HOST_STATE_READY \<Rightarrow> Inr b)"

text \<open>\<open>usb_simcom_init\<close>\<close>

definition usb_simcom_init :: "USB_HOST_BUS_DATA \<Rightarrow> 'a usb \<Rightarrow> USB_HOST_BUS_DATA \<times> 'a usb" where
  "usb_simcom_init b u = (HostDataInit b, SIMCOMInit u)"

section \<open>The driver as a machine driven by the host stack and the client\<close>

datatype usb_input =
    In_DeviceAssign handle handle u8
  | In_DeviceRelease handle
  | In_InterfaceAssign "handle list" nat USB_INTERFACE_DESCRIPTOR
  | In_DeviceEvent USB_HOST_DEVICE_EVENT
  | In_InterfaceEvent USB_HOST_DEVICE_INTERFACE_EVENT USB_HOST_SIMCOM_EVENT
  | In_DeviceTasks

fun usb_step :: "usb_host \<Rightarrow> usb_input \<Rightarrow> 'a usb \<Rightarrow> 'a usb outcome" where
  "usb_step h (In_DeviceAssign c ob n) u = Inr (DeviceAssign h c ob n u)"
| "usb_step h (In_DeviceRelease c) u = DeviceRelease_cb c u"
| "usb_step h (In_InterfaceAssign is n d) u = InterfaceAssign h is n d u"
| "usb_step h (In_DeviceEvent e) u = Inr (DeviceEventHandler e u)"
| "usb_step h (In_InterfaceEvent e c) u = InterfaceEventHandler e c u"
| "usb_step h In_DeviceTasks u = Inr (DeviceTasks h u)"

section \<open>Lemmas\<close>

lemma usb_upd_simps [simp]:
  "app (log_call c u) = app u" "obj (log_call c u) = obj u" "calls (log_call c u) = calls u @ [c]"
  "app (upd_obj f u) = app u" "obj (upd_obj f u) = f (obj u)" "calls (upd_obj f u) = calls u"
  by (simp_all add: log_call_def upd_obj_def)

lemma usb_upd_interface_simps [simp]:
  "obj (upd_rndis f1 u) = (obj u)\<lparr>RNDISInterface := f1 (RNDISInterface (obj u))\<rparr>"
  "obj (upd_at f2 u) = (obj u)\<lparr>ATInterface := f2 (ATInterface (obj u))\<rparr>"
  "obj (upd_diag f3 u) = (obj u)\<lparr>diagInterface := f3 (diagInterface (obj u))\<rparr>"
  "obj (upd_ecm f4 u) = (obj u)\<lparr>ECMInterface := f4 (ECMInterface (obj u))\<rparr>"
  "calls (upd_rndis f1 u) = calls u" "calls (upd_at f2 u) = calls u"
  "calls (upd_diag f3 u) = calls u" "calls (upd_ecm f4 u) = calls u"
  "app (upd_rndis f1 u) = app u" "app (upd_at f2 u) = app u"
  "app (upd_diag f3 u) = app u" "app (upd_ecm f4 u) = app u"
  by (simp_all add: upd_rndis_def upd_at_def upd_diag_def upd_ecm_def)

text \<open>What releasing the pipes of one interface does to the log and to the object.\<close>

definition closes :: "handle list \<Rightarrow> host_call list" where
  "closes ps = map DevicePipeClose (filter (\<lambda>p. p \<noteq> HANDLE_INVALID) ps)"

lemma closes_simps [simp]:
  "closes [] = []"
  "closes (p # ps) = (if p = HANDLE_INVALID then [] else [DevicePipeClose p]) @ closes ps"
  by (simp_all add: closes_def)

lemma closes_append: "closes (ps @ qs) = closes ps @ closes qs"
  by (simp add: closes_def)

lemma release_pipe_simps:
  "calls (release_pipe get put u) =
     (if get u = HANDLE_INVALID then calls u
      else calls (put HANDLE_INVALID (log_call (DevicePipeClose (get u)) u)))"
  "obj (release_pipe get put u) =
     (if get u = HANDLE_INVALID then obj u
      else obj (put HANDLE_INVALID (log_call (DevicePipeClose (get u)) u)))"
  "app (release_pipe get put u) =
     (if get u = HANDLE_INVALID then app u
      else app (put HANDLE_INVALID (log_call (DevicePipeClose (get u)) u)))"
  by (simp_all add: release_pipe_def)

lemma release_rndis_simps [simp]:
  "obj (release_rndis u) = (obj u)\<lparr>RNDISInterface := (RNDISInterface (obj u))
     \<lparr>rndis_bulkInPipeHandle := HANDLE_INVALID, rndis_bulkOutPipeHandle := HANDLE_INVALID,
      rndis_interruptPipeHandle := HANDLE_INVALID\<rparr>\<rparr>"
  "calls (release_rndis u) = calls u @ closes [rndis_bulkInPipeHandle (RNDISInterface (obj u)),
     rndis_bulkOutPipeHandle (RNDISInterface (obj u)),
     rndis_interruptPipeHandle (RNDISInterface (obj u))]"
  "app (release_rndis u) = app u"
  by (simp_all add: release_rndis_def release_pipe_simps)

lemma release_diag_simps [simp]:
  "obj (release_diag u) = (obj u)\<lparr>diagInterface := (diagInterface (obj u))
     \<lparr>diag_bulkInPipeHandle := HANDLE_INVALID, diag_bulkOutPipeHandle := HANDLE_INVALID\<rparr>\<rparr>"
  "calls (release_diag u) = calls u @ closes [diag_bulkInPipeHandle (diagInterface (obj u)),
     diag_bulkOutPipeHandle (diagInterface (obj u))]"
  "app (release_diag u) = app u"
  by (simp_all add: release_diag_def release_pipe_simps)

lemma release_at_simps [simp]:
  "obj (release_at u) = (obj u)\<lparr>ATInterface := (ATInterface (obj u))
     \<lparr>at_bulkInPipeHandle := HANDLE_INVALID, at_bulkOutPipeHandle := HANDLE_INVALID,
      at_interruptPipeHandle := HANDLE_INVALID\<rparr>\<rparr>"
  "calls (release_at u) = calls u @ closes [at_bulkInPipeHandle (ATInterface (obj u)),
     at_bulkOutPipeHandle (ATInterface (obj u)), at_interruptPipeHandle (ATInterface (obj u))]"
  "app (release_at u) = app u"
  by (simp_all add: release_at_def release_pipe_simps)

lemma release_ecm_simps [simp]:
  "obj (release_ecm u) = (obj u)\<lparr>ECMInterface := (ECMInterface (obj u))
     \<lparr>ecm_bulkInPipeHandle := HANDLE_INVALID, ecm_bulkOutPipeHandle := HANDLE_INVALID,
      ecm_interruptPipeHandle := HANDLE_INVALID\<rparr>\<rparr>"
  "calls (release_ecm u) = calls u @ closes [ecm_bulkInPipeHandle (ECMInterface (obj u)),
     ecm_bulkOutPipeHandle (ECMInterface (obj u)), ecm_interruptPipeHandle (ECMInterface (obj u))]"
  "app (release_ecm u) = app u"
  by (simp_all add: release_ecm_def release_pipe_simps)

lemma pipes_invalidated:
  "set (pipes (obj (release_ecm (release_at (release_diag (release_rndis u)))))) = {HANDLE_INVALID}"
  by (simp add: pipes_def)

lemma release_all_calls:
  "calls (release_ecm (release_at (release_diag (release_rndis u))))
     = calls u @ closes (pipes (obj u))"
  by (simp add: pipes_def)

lemma notify_simps:
  "eventHandler (obj u) = None \<Longrightarrow> notify e d u = Inr u"
  "eventHandler (obj u) = Some f \<Longrightarrow>
     notify e d u = seq (f e d (handlerContext (obj u)) (app u)) (\<lambda>a. Inr (u\<lparr>app := a\<rparr>))"
  by (simp_all add: notify_def)

lemma notify_keeps: "notify e d u = Inr v \<Longrightarrow> obj v = obj u \<and> calls v = calls u"
  by (auto simp: notify_def seq_eq_Inr_iff split: option.splits)

lemma pipes_clear_handles:
  "pipes (o'\<lparr>eventHandler := f, deviceObjHandle := a, deviceClientHandle := b\<rparr>) = pipes o'"
  by (simp add: pipes_def)

text \<open>
  Detaching the device closes every pipe that is open, once and in a fixed order, and
  leaves all eleven handles invalid and no handler registered.
\<close>

lemma DeviceRelease_closes_pipes:
  assumes "DeviceRelease_cb c u = Inr v"
  shows "calls v = calls u @ closes (pipes (obj u)) \<and> set (pipes (obj v)) = {HANDLE_INVALID}
    \<and> eventHandler (obj v) = None \<and> deviceClientHandle (obj v) = HANDLE_INVALID"
proof -
  let ?r = "release_ecm (release_at (release_diag (release_rndis u)))"
  obtain w where n: "notify USB_HOST_SIMCOM_EVENT_DEVICE_DETACHED None ?r = Inr w"
    and v: "v = upd_obj (\<lambda>o'. o'\<lparr>eventHandler := None, deviceObjHandle := HANDLE_INVALID,
                              deviceClientHandle := HANDLE_INVALID\<rparr>) w"
    using assms by (auto simp: DeviceRelease_cb_def seq_eq_Inr_iff)
  from notify_keeps [OF n] have "obj w = obj ?r" "calls w = calls ?r" by auto
  with v show ?thesis
    by (simp only: usb_upd_simps pipes_clear_handles pipes_invalidated release_all_calls) simp
qed

text \<open>
  The driver becomes ready exactly when it waits for the interfaces and all eleven pipes
  are open.
\<close>

lemma DeviceTasks_ready_iff:
  "IsInReadyState (DeviceTasks h u) \<longleftrightarrow>
     IsInReadyState u \<or>
     simcomState (obj u) = USB_HOST_SIMCOM_STATE_WAIT_FOR_INTERFACES
       \<and> HANDLE_INVALID \<notin> set (pipes (obj u))"
  by (cases "simcomState (obj u)") (auto simp: DeviceTasks_def IsInReadyState_def Let_def pipes_def)

text \<open>The eleven transfer functions with the pipe and the event of each.\<close>

definition channels ::
  "('a transfer_function \<times> nat \<times> USB_HOST_SIMCOM_EVENT) list" where
  "channels =
    [(RNDIS_Read, 0, USB_HOST_SIMCOM_EVENT_RNDIS_READ_COMPLETE),
     (RNDIS_Write, 1, USB_HOST_SIMCOM_EVENT_RNDIS_WRITE_COMPLETE),
     (RNDIS_SerialStateNotificationGet, 2,
        USB_HOST_SIMCOM_EVENT_RNDIS_SERIAL_STATE_NOTIFICATION_RECEIVED),
     (DIAG_Read, 3, USB_HOST_SIMCOM_EVENT_DIAG_READ_COMPLETE),
     (DIAG_Write, 4, USB_HOST_SIMCOM_EVENT_DIAG_WRITE_COMPLETE),
     (AT_Read, 5, USB_HOST_SIMCOM_EVENT_AT_READ_COMPLETE),
     (AT_Write, 6, USB_HOST_SIMCOM_EVENT_AT_WRITE_COMPLETE),
     (AT_SerialStateNotificationGet, 7,
        USB_HOST_SIMCOM_EVENT_AT_SERIAL_STATE_NOTIFICATION_RECEIVED),
     (ECM_Read, 8, USB_HOST_SIMCOM_EVENT_ECM_READ_COMPLETE),
     (ECM_Write, 9, USB_HOST_SIMCOM_EVENT_ECM_WRITE_COMPLETE),
     (ECM_SerialStateNotificationGet, 10,
        USB_HOST_SIMCOM_EVENT_ECM_SERIAL_STATE_NOTIFICATION_RECEIVED)]"

lemma transfer_defs:
  "AT_Write = (\<lambda>h. transfer h (\<lambda>o'. pipes o' ! 6) USB_HOST_SIMCOM_EVENT_AT_WRITE_COMPLETE)"
  "AT_Read = (\<lambda>h. transfer h (\<lambda>o'. pipes o' ! 5) USB_HOST_SIMCOM_EVENT_AT_READ_COMPLETE)"
  "AT_SerialStateNotificationGet = (\<lambda>h. transfer h (\<lambda>o'. pipes o' ! 7)
     USB_HOST_SIMCOM_EVENT_AT_SERIAL_STATE_NOTIFICATION_RECEIVED)"
  "RNDIS_Write = (\<lambda>h. transfer h (\<lambda>o'. pipes o' ! 1) USB_HOST_SIMCOM_EVENT_RNDIS_WRITE_COMPLETE)"
  "RNDIS_Read = (\<lambda>h. transfer h (\<lambda>o'. pipes o' ! 0) USB_HOST_SIMCOM_EVENT_RNDIS_READ_COMPLETE)"
  "RNDIS_SerialStateNotificationGet = (\<lambda>h. transfer h (\<lambda>o'. pipes o' ! 2)
     USB_HOST_SIMCOM_EVENT_RNDIS_SERIAL_STATE_NOTIFICATION_RECEIVED)"
  "ECM_Write = (\<lambda>h. transfer h (\<lambda>o'. pipes o' ! 9) USB_HOST_SIMCOM_EVENT_ECM_WRITE_COMPLETE)"
  "ECM_Read = (\<lambda>h. transfer h (\<lambda>o'. pipes o' ! 8) USB_HOST_SIMCOM_EVENT_ECM_READ_COMPLETE)"
  "ECM_SerialStateNotificationGet = (\<lambda>h. transfer h (\<lambda>o'. pipes o' ! 10)
     USB_HOST_SIMCOM_EVENT_ECM_SERIAL_STATE_NOTIFICATION_RECEIVED)"
  "DIAG_Write = (\<lambda>h. transfer h (\<lambda>o'. pipes o' ! 4) USB_HOST_SIMCOM_EVENT_DIAG_WRITE_COMPLETE)"
  "DIAG_Read = (\<lambda>h. transfer h (\<lambda>o'. pipes o' ! 3) USB_HOST_SIMCOM_EVENT_DIAG_READ_COMPLETE)"
  by (simp_all add: fun_eq_iff pipes_def AT_Write_def AT_Read_def RNDIS_Write_def RNDIS_Read_def
        AT_SerialStateNotificationGet_def RNDIS_SerialStateNotificationGet_def ECM_Write_def
        ECM_Read_def ECM_SerialStateNotificationGet_def DIAG_Write_def DIAG_Read_def)

lemma transfer_cases:
  "simcomState (obj u) \<noteq> USB_HOST_SIMCOM_STATE_READY \<Longrightarrow>
     transfer h p e d n u = (USB_HOST_SIMCOM_RESULT_BUSY, u)"
  "simcomState (obj u) = USB_HOST_SIMCOM_STATE_READY \<Longrightarrow> n \<noteq> 0 \<Longrightarrow>
     transfer h p e None n u = (USB_HOST_SIMCOM_RESULT_INVALID_PARAMETER, u)"
  "simcomState (obj u) = USB_HOST_SIMCOM_STATE_READY \<Longrightarrow> n = 0 \<or> d \<noteq> None \<Longrightarrow>
     transfer h p e d n u = (result_map (device_transfer h (p (obj u)) d n e),
       u\<lparr>calls := calls u @ [DeviceTransfer (p (obj u)) d n e]\<rparr>)"
  by (auto simp: transfer_def log_call_def)

lemma channels_transfer:
  "(f, i, e) \<in> set channels \<Longrightarrow> f = (\<lambda>h. transfer h (\<lambda>o'. pipes o' ! i) e)"
  by (simp add: channels_def) (elim disjE; simp add: transfer_defs)

text \<open>
  Each of the eleven transfer functions refuses with BUSY and without touching the host
  while the driver is not ready; once ready it starts exactly one transfer on its own pipe and
  with its own event as context, and answers the mapped result; no two of the functions share
  a pipe slot or an event.
\<close>

lemma transfer_functions_spec:
  "list_all (\<lambda>(f, i, e). \<forall>h d n (u :: 'a usb).
      f h d n u =
        (if \<not> IsInReadyState u then (USB_HOST_SIMCOM_RESULT_BUSY, u)
         else if n \<noteq> 0 \<and> d = None then (USB_HOST_SIMCOM_RESULT_INVALID_PARAMETER, u)
         else (result_map (device_transfer h (pipes (obj u) ! i) d n e),
               u\<lparr>calls := calls u @ [DeviceTransfer (pipes (obj u) ! i) d n e]\<rparr>))) channels
   \<and> distinct (map (\<lambda>(f, i, e). i) (channels :: ('a transfer_function \<times> _) list))
   \<and> distinct (map (\<lambda>(f, i, e). e) (channels :: ('a transfer_function \<times> _) list))"
proof (intro conjI)
  have "f h d n u =
        (if \<not> IsInReadyState u then (USB_HOST_SIMCOM_RESULT_BUSY, u)
         else if n \<noteq> 0 \<and> d = None then (USB_HOST_SIMCOM_RESULT_INVALID_PARAMETER, u)
         else (result_map (device_transfer h (pipes (obj u) ! i) d n e),
               u\<lparr>calls := calls u @ [DeviceTransfer (pipes (obj u) ! i) d n e]\<rparr>))"
    if "(f, i, e) \<in> set channels" for f :: "'a transfer_function" and i e h d n and u :: "'a usb"
    unfolding channels_transfer [OF that]
    by (simp add: IsInReadyState_def transfer_def log_call_def)
  then show "list_all (\<lambda>(f, i, e). \<forall>h d n (u :: 'a usb).
      f h d n u =
        (if \<not> IsInReadyState u then (USB_HOST_SIMCOM_RESULT_BUSY, u)
         else if n \<noteq> 0 \<and> d = None then (USB_HOST_SIMCOM_RESULT_INVALID_PARAMETER, u)
         else (result_map (device_transfer h (pipes (obj u) ! i) d n e),
               u\<lparr>calls := calls u @ [DeviceTransfer (pipes (obj u) ! i) d n e]\<rparr>))) channels"
    by (simp only: list_all_iff) blast
qed (simp_all add: channels_def)

section \<open>Attaching the device\<close>

text \<open>
  A host stack that has the modem attached: every endpoint the driver looks for is found,
  every pipe opens, and the association holds an RNDIS comm interface and a CDC data one.
\<close>

definition modem_host :: "usb_host \<Rightarrow> bool" where
  "modem_host h \<longleftrightarrow>
     (\<forall>d t r. endpoint_query h d t r \<noteq> None) \<and>
     (\<forall>i e. device_pipe_open h i e \<noteq> HANDLE_INVALID) \<and>
     (\<exists>d. general_interface_query h 0 = Some d \<and> bInterfaceClass d = 0xE0 \<and>
          bInterfaceSubClass d = 0x01 \<and> bInterfaceProtocol d = 0x03) \<and>
     (\<exists>d. general_interface_query h 1 = Some d \<and> bInterfaceClass d = 0x0A)"

lemma open_pipe_modem:
  assumes "modem_host h"
  shows "\<exists>p c. p \<noteq> HANDLE_INVALID \<and> open_pipe h d t r ifc put u = put p (log_call c u)"
proof -
  from assms obtain ep where "endpoint_query h d t r = Some ep"
    unfolding modem_host_def by blast
  moreover have "device_pipe_open h ifc ep \<noteq> HANDLE_INVALID"
    using assms unfolding modem_host_def by blast
  ultimately show ?thesis by (auto simp: open_pipe_def)
qed

text \<open>The pipe slots an assignment fills.\<close>

definition slots :: "nat \<Rightarrow> USB_INTERFACE_DESCRIPTOR \<Rightarrow> nat set" where
  "slots n d =
     (if n = 1 then
        if bInterfaceClass d = 0xFF then
          if bInterfaceNumber d = 0x02 then {3, 4}
          else if bInterfaceNumber d = 0x04 then {5, 6, 7}
          else if bInterfaceNumber d = 0x05 then {8, 9, 10} else {}
        else {}
      else if n > 1 then {0, 1, 2} else {})"

definition waits_with :: "nat set \<Rightarrow> 'a usb \<Rightarrow> bool" where
  "waits_with S u \<longleftrightarrow> simcomState (obj u) = USB_HOST_SIMCOM_STATE_WAIT_FOR_INTERFACES \<and>
     (\<forall>i \<in> S. i < 11 \<and> pipes (obj u) ! i \<noteq> HANDLE_INVALID)"

text \<open>Storing a handle changes one slot of the pipe list and no other part of the state.\<close>

definition puts_slot :: "nat \<Rightarrow> (handle \<Rightarrow> 'a usb \<Rightarrow> 'a usb) \<Rightarrow> bool" where
  "puts_slot i put \<longleftrightarrow> i < 11 \<and>
     (\<forall>p u. pipes (obj (put p u)) = (pipes (obj u))[i := p] \<and>
            simcomState (obj (put p u)) = simcomState (obj u))"

lemma puts_slot_simps [simp]:
  "puts_slot 0 (\<lambda>p. upd_rndis (\<lambda>i. i\<lparr>rndis_bulkInPipeHandle := p\<rparr>))"
  "puts_slot 1 (\<lambda>p. upd_rndis (\<lambda>i. i\<lparr>rndis_bulkOutPipeHandle := p\<rparr>))"
  "puts_slot 2 (\<lambda>p. upd_rndis (\<lambda>i. i\<lparr>rndis_interruptPipeHandle := p\<rparr>))"
  "puts_slot 3 (\<lambda>p. upd_diag (\<lambda>i. i\<lparr>diag_bulkInPipeHandle := p\<rparr>))"
  "puts_slot 4 (\<lambda>p. upd_diag (\<lambda>i. i\<lparr>diag_bulkOutPipeHandle := p\<rparr>))"
  "puts_slot 5 (\<lambda>p. upd_at (\<lambda>i. i\<lparr>at_bulkInPipeHandle := p\<rparr>))"
  "puts_slot 6 (\<lambda>p. upd_at (\<lambda>i. i\<lparr>at_bulkOutPipeHandle := p\<rparr>))"
  "puts_slot 7 (\<lambda>p. upd_at (\<lambda>i. i\<lparr>at_interruptPipeHandle := p\<rparr>))"
  "puts_slot 8 (\<lambda>p. upd_ecm (\<lambda>i. i\<lparr>ecm_bulkInPipeHandle := p\<rparr>))"
  "puts_slot 9 (\<lambda>p. upd_ecm (\<lambda>i. i\<lparr>ecm_bulkOutPipeHandle := p\<rparr>))"
  "puts_slot 10 (\<lambda>p. upd_ecm (\<lambda>i. i\<lparr>ecm_interruptPipeHandle := p\<rparr>))"
  by (simp_all add: puts_slot_def pipes_def)

lemma length_pipes [simp]: "length (pipes o') = 11"
  by (simp add: pipes_def)

lemma open_pipe_fills:
  assumes "modem_host h" "puts_slot i put" "waits_with S u"
  shows "waits_with (insert i S) (open_pipe h d t r ifc put u)"
proof -
  obtain p c where "p \<noteq> HANDLE_INVALID" "open_pipe h d t r ifc put u = put p (log_call c u)"
    using open_pipe_modem [OF assms(1)] by blast
  with assms(2,3) show ?thesis
    by (auto simp: waits_with_def puts_slot_def nth_list_update)
qed

text \<open>Writing the interface handle and number leaves the pipes alone.\<close>

lemma waits_with_interface [simp]:
  "waits_with S (upd_diag (\<lambda>i. i\<lparr>diag_interfaceHandle := a, diag_interfaceNumber := b\<rparr>) u) = waits_with S u"
  "waits_with S (upd_at (\<lambda>i. i\<lparr>at_interfaceHandle := a, at_interfaceNumber := b\<rparr>) u) = waits_with S u"
  "waits_with S (upd_ecm (\<lambda>i. i\<lparr>ecm_interfaceHandle := a, ecm_interfaceNumber := b\<rparr>) u) = waits_with S u"
  "waits_with S (upd_rndis (\<lambda>i. i\<lparr>rndis_commInterfaceNumber := b, rndis_commInterfaceHandle := a\<rparr>) u)
     = waits_with S u"
  "waits_with S (upd_rndis (\<lambda>i. i\<lparr>rndis_dataInterfaceNumber := b, rndis_dataInterfaceHandle := a\<rparr>) u)
     = waits_with S u"
  "waits_with S (log_call c u) = waits_with S u"
  by (simp_all add: waits_with_def pipes_def)

lemma waits_with_mono: "waits_with S u \<Longrightarrow> T \<subseteq> S \<Longrightarrow> waits_with T u"
  by (auto simp: waits_with_def)

lemma assign_fills:
  assumes "modem_host h" "waits_with S u"
  shows assign_diag_fills: "waits_with (insert 4 (insert 3 S)) (assign_diag h ifc d u)"
    and assign_at_fills: "waits_with (insert 6 (insert 5 (insert 7 S))) (assign_at h ifc d u)"
    and assign_ecm_fills: "waits_with (insert 9 (insert 8 (insert 10 S))) (assign_ecm h ifc d u)"
proof -
  note i = open_pipe_fills [OF assms(1)] puts_slot_simps
  show "waits_with (insert 4 (insert 3 S)) (assign_diag h ifc d u)"
    unfolding assign_diag_def Let_def by (intro i) (simp only: waits_with_interface assms)
  show "waits_with (insert 6 (insert 5 (insert 7 S))) (assign_at h ifc d u)"
    unfolding assign_at_def Let_def by (intro i) (simp only: waits_with_interface assms)
  show "waits_with (insert 9 (insert 8 (insert 10 S))) (assign_ecm h ifc d u)"
    unfolding assign_ecm_def Let_def by (intro i) (simp only: waits_with_interface assms)
qed

lemma rndis_fills:
  assumes "modem_host h" "waits_with S u" "1 < length ifs"
  shows rndis_comm_fills: "\<exists>v. assign_rndis_at h ifs 0 u = Inr v \<and> waits_with (insert 2 S) v"
    and rndis_data_fills:
      "\<exists>v. assign_rndis_at h ifs 1 u = Inr v \<and> waits_with (insert 1 (insert 0 S)) v"
proof -
  note i = open_pipe_fills [OF assms(1)] puts_slot_simps
  from assms(1) obtain c where c: "general_interface_query h 0 = Some c" "bInterfaceClass c = 0xE0"
    "bInterfaceSubClass c = 0x01" "bInterfaceProtocol c = 0x03"
    unfolding modem_host_def by blast
  from assms(1) obtain e where e: "general_interface_query h 1 = Some e" "bInterfaceClass e = 0x0A"
    unfolding modem_host_def by blast
  from assms(3) have l: "rd ifs 0 = Inr (ifs ! 0)" "rd ifs 1 = Inr (ifs ! 1)"
    by (auto simp: rd_def)
  show "\<exists>v. assign_rndis_at h ifs 0 u = Inr v \<and> waits_with (insert 2 S) v"
    unfolding assign_rndis_at_def Let_def c(1) option.case l
    by (simp only: c simp_thms if_True seq_Inr, rule exI, rule conjI, rule refl, intro i)
       (simp only: waits_with_interface assms)
  have "\<not> (bInterfaceClass e = 0xE0 \<and> bInterfaceSubClass e = 0x01 \<and> bInterfaceProtocol e = 0x03)"
    using e(2) by simp
  then show "\<exists>v. assign_rndis_at h ifs 1 u = Inr v \<and> waits_with (insert 1 (insert 0 S)) v"
    unfolding assign_rndis_at_def Let_def e(1) option.case l
    by (simp only: e(2) if_False if_True simp_thms seq_Inr, rule_tac exI, rule_tac conjI, rule_tac refl, intro i)
       (simp only: waits_with_interface assms)
qed

lemma InterfaceAssign_fills:
  assumes "modem_host h" "waits_with S u" "ifs \<noteq> []"
  shows "\<exists>v. InterfaceAssign h ifs (length ifs) d u = Inr v \<and> waits_with (slots (length ifs) d \<union> S) v"
proof (cases "length ifs = 1")
  case True
  then show ?thesis
    using assign_fills [OF assms(1,2), of "ifs ! 0" d] assms(2)
    by (auto simp: InterfaceAssign_def slots_def elim: waits_with_mono)
next
  case False
  with assms(3) have l: "1 < length ifs" by (cases ifs) auto
  obtain v where v: "assign_rndis_at h ifs 0 u = Inr v" "waits_with (insert 2 S) v"
    using rndis_comm_fills [OF assms(1,2) l] by blast
  obtain w where w: "assign_rndis_at h ifs 1 v = Inr w" "waits_with (insert 1 (insert 0 (insert 2 S))) w"
    using rndis_data_fills [OF assms(1) v(2) l] by blast
  from l v w show ?thesis
    by (auto simp: InterfaceAssign_def slots_def elim: waits_with_mono)
qed

text \<open>The slots filled by a list of assignments, and their run.\<close>

fun assigned :: "usb_input list \<Rightarrow> nat set" where
  "assigned [] = {}"
| "assigned (In_InterfaceAssign ifs n d # is) = slots n d \<union> assigned is"
| "assigned (_ # is) = assigned is"

fun is_assignment :: "usb_input \<Rightarrow> bool" where
  "is_assignment (In_InterfaceAssign ifs n d) \<longleftrightarrow> n = length ifs \<and> ifs \<noteq> []"
| "is_assignment _ \<longleftrightarrow> False"

lemma run_assignments:
  assumes "modem_host h"
  shows "list_all is_assignment is \<Longrightarrow> waits_with S u \<Longrightarrow>
    \<exists>v. run (usb_step h) is u = Inr v \<and> waits_with (assigned is \<union> S) v"
proof (induction "is" arbitrary: u S)
  case Nil
  then show ?case by simp
next
  case (Cons x xs)
  then obtain ifs d where x: "x = In_InterfaceAssign ifs (length ifs) d" "ifs \<noteq> []"
    by (cases x) auto
  obtain v where v: "InterfaceAssign h ifs (length ifs) d u = Inr v"
      "waits_with (slots (length ifs) d \<union> S) v"
    using InterfaceAssign_fills [OF assms Cons.prems(2) x(2)] by blast
  with Cons.IH [OF _ v(2)] Cons.prems(1) x show ?case
    by (auto elim: waits_with_mono)
qed

lemma assigned_subset: "x \<in> set is \<Longrightarrow> assigned [x] \<subseteq> assigned is"
proof (induction "is")
  case (Cons a "is")
  then show ?case by (cases a) auto
qed simp

lemma assigned_all:
  assumes "In_InterfaceAssign [a] 1 d2 \<in> set is" "In_InterfaceAssign [b] 1 d4 \<in> set is"
    "In_InterfaceAssign [c] 1 d5 \<in> set is" "In_InterfaceAssign [e, f] 2 d0 \<in> set is"
    "bInterfaceClass d2 = 0xFF" "bInterfaceNumber d2 = 2" "bInterfaceClass d4 = 0xFF"
    "bInterfaceNumber d4 = 4" "bInterfaceClass d5 = 0xFF" "bInterfaceNumber d5 = 5"
  shows "{0, 1, 2, 3, 4, 5, 6, 7, 8, 9, 10} \<subseteq> assigned is"
  using assigned_subset [OF assms(1)] assigned_subset [OF assms(2)]
    assigned_subset [OF assms(3)] assigned_subset [OF assms(4)] assms(5-10)
  by (simp add: slots_def)

lemma waits_with_all_ready:
  assumes "waits_with S u" "{0, 1, 2, 3, 4, 5, 6, 7, 8, 9, 10} \<subseteq> S"
  shows "IsInReadyState (DeviceTasks h u)"
proof -
  have "HANDLE_INVALID \<noteq> pipes (obj u) ! i" if "i < 11" for i
    using that waits_with_mono [OF assms] unfolding waits_with_def by (auto simp: less_Suc_eq numeral_eq_Suc)
  then have "HANDLE_INVALID \<notin> set (pipes (obj u))"
    by (metis in_set_conv_nth length_pipes)
  with assms(1) show ?thesis
    by (cases "simcomState (obj u)")
      (auto simp: waits_with_def DeviceTasks_def IsInReadyState_def pipes_def)
qed

text \<open>The configuration phase that precedes the interface assignments.\<close>

lemma configured_waits:
  assumes "device_configuration_set h cl 0 = USB_HOST_RESULT_SUCCESS" "0 < nconf"
  shows "\<exists>v. run (usb_step h)
      [In_DeviceAssign cl ob nconf, In_DeviceTasks,
       In_DeviceEvent (USB_HOST_DEVICE_EVENT_CONFIGURATION_SET USB_HOST_RESULT_SUCCESS),
       In_DeviceTasks] u = Inr v \<and> waits_with {} v"
  using assms by (simp add: DeviceAssign_def DeviceTasks_def Let_def waits_with_def)


text \<open>An attached modem and a driver object, to run the theorems on.\<close>

definition demo_interface :: "u8 \<Rightarrow> u8 \<Rightarrow> USB_INTERFACE_DESCRIPTOR" where
  "demo_interface n c = \<lparr>bInterfaceNumber = n, bInterfaceClass = c, bInterfaceSubClass = 1,
     bInterfaceProtocol = 3\<rparr>"

definition demo_host :: usb_host where
  "demo_host = \<lparr>device_pipe_open = (\<lambda>i e. 7), device_control_pipe_open = (\<lambda>_. 1),
     endpoint_query = (\<lambda>d t r. Some (bInterfaceNumber d)),
     general_interface_query = (\<lambda>k. Some (demo_interface (of_nat k) (if k = 0 then 0xE0 else 0x0A))),
     device_configuration_set = (\<lambda>_ _. USB_HOST_RESULT_SUCCESS),
     device_transfer = (\<lambda>_ _ _ _. USB_HOST_RESULT_SUCCESS)\<rparr>"

definition usb_zero :: "'a \<Rightarrow> 'a usb" where
  "usb_zero a = \<lparr>obj = \<lparr>deviceClientHandle = 0, deviceObjHandle = 0,
     RNDISInterface = \<lparr>rndis_commInterfaceHandle = 0, rndis_dataInterfaceHandle = 0,
       rndis_interruptPipeHandle = 0, rndis_bulkInPipeHandle = 0, rndis_bulkOutPipeHandle = 0,
       rndis_commInterfaceNumber = 0, rndis_dataInterfaceNumber = 0\<rparr>,
     ATInterface = \<lparr>at_interfaceHandle = 0, at_bulkInPipeHandle = 0, at_bulkOutPipeHandle = 0,
       at_interruptPipeHandle = 0, at_interfaceNumber = 0\<rparr>,
     diagInterface = \<lparr>diag_interfaceHandle = 0, diag_bulkInPipeHandle = 0,
       diag_bulkOutPipeHandle = 0, diag_interfaceNumber = 0\<rparr>,
     ECMInterface = \<lparr>ecm_interfaceHandle = 0, ecm_bulkInPipeHandle = 0, ecm_bulkOutPipeHandle = 0,
       ecm_interruptPipeHandle = 0, ecm_interfaceNumber = 0\<rparr>,
     controlPipeHandle = 0, hostRequestDone = False, hostRequestResult = USB_HOST_RESULT_FALSE,
     handlerContext = 0, eventHandler = None, simcomState = USB_HOST_SIMCOM_STATE_NOT_READY\<rparr>,
     calls = [], app = a\<rparr>"

definition demo_assignments :: "usb_input list" where
  "demo_assignments =
     [In_InterfaceAssign [10, 11] 2 (demo_interface 0 0xE0),
      In_InterfaceAssign [12] 1 (demo_interface 2 0xFF),
      In_InterfaceAssign [13] 1 (demo_interface 3 0xFF),
      In_InterfaceAssign [14] 1 (demo_interface 4 0xFF),
      In_InterfaceAssign [15] 1 (demo_interface 5 0xFF)]"

lemma modem_host_demo: "modem_host demo_host"
  by (simp add: modem_host_def demo_host_def demo_interface_def)


text \<open>
  A detach does not leave the ready state: after \<open>DeviceRelease\<close> of a ready driver
  \<open>IsInReadyState\<close> still answers true, and an AT command is handed to the host stack on the
  invalid pipe handle.
\<close>

lemma release_stays_ready:
  assumes "IsInReadyState u" "DeviceRelease_cb c u = Inr v"
  shows "IsInReadyState v \<and> AT_Write h (Some d) n v =
    (result_map (device_transfer h HANDLE_INVALID (Some d) n USB_HOST_SIMCOM_EVENT_AT_WRITE_COMPLETE),
     v\<lparr>calls := calls v @ [DeviceTransfer HANDLE_INVALID (Some d) n
                             USB_HOST_SIMCOM_EVENT_AT_WRITE_COMPLETE]\<rparr>)"
proof -
  have "simcomState (obj v) = simcomState (obj u) \<and> at_bulkOutPipeHandle (ATInterface (obj v)) = HANDLE_INVALID"
    using assms(2) by (auto simp: DeviceRelease_cb_def seq_eq_Inr_iff dest!: notify_keeps)
  with assms(1) show ?thesis
    by (simp add: IsInReadyState_def AT_Write_def transfer_def log_call_def)
qed

lemma release_stays_ready_witness:
  "\<exists>v. DeviceRelease_cb 3 (upd_obj (\<lambda>o'. o'\<lparr>simcomState := USB_HOST_SIMCOM_STATE_READY\<rparr>) (usb_zero ()))
         = Inr v \<and> IsInReadyState v"
proof -
  let ?u = "upd_obj (\<lambda>o'. o'\<lparr>simcomState := USB_HOST_SIMCOM_STATE_READY\<rparr>) (usb_zero ())"
  obtain v where "DeviceRelease_cb 3 ?u = Inr v"
    by (simp add: DeviceRelease_cb_def notify_def usb_zero_def)
  then show ?thesis
    using release_stays_ready [of ?u 3 v] by (auto simp: IsInReadyState_def)
qed

lemma DeviceRelease_closes_pipes_witness:
  "\<exists>v. DeviceRelease_cb 3 (usb_zero ()) = Inr v \<and> set (pipes (obj v)) = {HANDLE_INVALID}
     \<and> length (calls v) = 11"
proof -
  obtain v where "DeviceRelease_cb 3 (usb_zero ()) = Inr v"
    by (simp add: DeviceRelease_cb_def notify_def usb_zero_def)
  then show ?thesis
    using DeviceRelease_closes_pipes [of 3 "usb_zero ()" v] by (auto simp: usb_zero_def pipes_def)
qed

section \<open>The bus enumeration\<close>

definition bus_inv :: "USB_HOST_BUS_DATA \<Rightarrow> bool" where
  "bus_inv b \<longleftrightarrow> length (bus_info b) = MAX_NUM_DEVICES \<and> n_devices b \<le> 4 \<and>
     (bus_state b \<in> {USB_HOST_STATE_INIT, USB_HOST_STATE_ENABLING_BUS, USB_HOST_STATE_GETTING_DEVICES}
        \<longrightarrow> n_devices b = 0)"

lemma get_next_loop_ok:
  "get_next_loop next i b = Inr c \<Longrightarrow> length (bus_info b) = MAX_NUM_DEVICES \<Longrightarrow>
   n_devices b = of_nat i \<Longrightarrow> i < MAX_NUM_DEVICES \<Longrightarrow>
   length (bus_info c) = MAX_NUM_DEVICES \<and> n_devices c \<le> 4"
proof (induction "next" i b rule: get_next_loop.induct)
  case (1 "next" i b)
  obtain r inf where n: "next i (bus_info b ! i) = (r, inf)" by (cases "next i (bus_info b ! i)")
  show ?case
  proof (cases "r = USB_HOST_RESULT_SUCCESS")
    case True
    with 1(2-) n have r: "get_next_loop next (i + 1)
        (b\<lparr>bus_info := (bus_info b)[i := inf], n_devices := n_devices b + 1\<rparr>) = Inr c"
      by (subst (asm) get_next_loop.simps) simp
    have "i + 1 < MAX_NUM_DEVICES"
      using r 1(3,5) by (subst (asm) get_next_loop.simps) (simp split: if_splits)
    then show ?thesis
      using 1(1) [OF _ n [symmetric] refl] True r 1(3-5) by (simp add: add.commute)
  next
    case False
    with 1(2-) n have c: "c = b\<lparr>bus_info := (bus_info b)[i := inf]\<rparr>"
      by (subst (asm) get_next_loop.simps) simp
    have "i \<in> {0, 1, 2, 3, 4}" using 1(5) by auto
    then have "of_nat i \<le> (4 :: u8)" by auto
    with c 1(3,4) show ?thesis by simp
  qed
qed

lemma get_next_loop_overrun:
  "length (bus_info b) = MAX_NUM_DEVICES \<Longrightarrow> i \<le> MAX_NUM_DEVICES \<Longrightarrow>
   get_next_loop next i b = Inl Out_Of_Bounds \<longleftrightarrow>
     (\<forall>k. i \<le> k \<and> k < MAX_NUM_DEVICES \<longrightarrow> fst (next k (bus_info b ! k)) = USB_HOST_RESULT_SUCCESS)"
proof (induction "next" i b rule: get_next_loop.induct)
  case (1 "next" i b)
  obtain r inf where n: "next i (bus_info b ! i) = (r, inf)" by (cases "next i (bus_info b ! i)")
  show ?case
  proof (cases "i < MAX_NUM_DEVICES \<and> r = USB_HOST_RESULT_SUCCESS")
    case True
    let ?b = "b\<lparr>bus_info := (bus_info b)[i := inf], n_devices := n_devices b + 1\<rparr>"
    have "get_next_loop next i b = get_next_loop next (i + 1) ?b"
      using True n 1(2) by (subst get_next_loop.simps) simp
    also have "\<dots> = Inl Out_Of_Bounds \<longleftrightarrow> (\<forall>k. i + 1 \<le> k \<and> k < MAX_NUM_DEVICES \<longrightarrow>
        fst (next k (bus_info ?b ! k)) = USB_HOST_RESULT_SUCCESS)"
      using 1(1) [OF _ n [symmetric] refl] True 1(2) by simp
    also have "\<dots> \<longleftrightarrow> (\<forall>k. i \<le> k \<and> k < MAX_NUM_DEVICES \<longrightarrow>
        fst (next k (bus_info b ! k)) = USB_HOST_RESULT_SUCCESS)"
    proof -
      have "bus_info ?b ! k = bus_info b ! k" if "i < k" for k
        using that by simp
      moreover have "(i \<le> k) = (k = i \<or> i + 1 \<le> k)" for k by auto
      ultimately show ?thesis using True n by auto
    qed
    finally show ?thesis .
  next
    case False
    then show ?thesis
      using n 1(2,3) by (subst get_next_loop.simps) (auto simp: le_less)
  qed
qed

lemma usb_simcom_tasks_inv:
  assumes "bus_inv b" "usb_simcom_tasks h b = Inr c" shows "bus_inv c"
proof (cases "bus_state b")
  case USB_HOST_STATE_GETTING_DEVICES
  let ?b = "b\<lparr>bus_info := (bus_info b)[0 := snd (device_get_first h)], n_devices := n_devices b + 1\<rparr>"
  have l: "length (bus_info b) = MAX_NUM_DEVICES" "n_devices b = 0"
    using assms(1) USB_HOST_STATE_GETTING_DEVICES by (auto simp: bus_inv_def)
  show ?thesis
  proof (cases "fst (device_get_first h) = USB_HOST_RESULT_SUCCESS")
    case True
    then obtain d where d: "get_next_loop (device_get_next h) 1 ?b = Inr d"
      and c: "c = d\<lparr>bus_state := USB_HOST_STATE_READY\<rparr>"
      using assms(2) USB_HOST_STATE_GETTING_DEVICES l
      by (auto simp: usb_simcom_tasks_def seq_eq_Inr_iff)
    have "length (bus_info d) = MAX_NUM_DEVICES \<and> n_devices d \<le> 4"
      using get_next_loop_ok [OF d] l by simp
    with c show ?thesis by (simp add: bus_inv_def)
  next
    case False
    then show ?thesis
      using assms(2) USB_HOST_STATE_GETTING_DEVICES l
      by (auto simp: usb_simcom_tasks_def bus_inv_def)
  qed
qed (use assms in \<open>auto simp: usb_simcom_tasks_def bus_inv_def split: if_splits\<close>)

interpretation bus_task: polled_task usb_simcom_tasks bus_inv
  by unfold_locales (rule usb_simcom_tasks_inv)

text \<open>
  From initialisation on, after any number of calls of the bus task with any answers of
  the host stack that did not run past the table, the device table has its five entries and
  at most four devices are counted.
\<close>

lemma bus_task_device_count:
  assumes "length (bus_info b) = MAX_NUM_DEVICES"
    and "run usb_simcom_tasks hs (HostDataInit b) = Inr c"
  shows "length (bus_info c) = 5 \<and> n_devices c \<le> 4"
proof -
  have "bus_inv (HostDataInit b)" using assms(1) by (simp add: bus_inv_def HostDataInit_def)
  from bus_task.run_inv [OF this assms(2)] show ?thesis by (simp add: bus_inv_def)
qed

text \<open>
  The enumeration asks the host stack for a sixth device entry, one past the end of the
  table, exactly when the four calls for the entries 1 to 4 all succeed: the loop calls
  \<open>USB_HOST_DeviceGetNext\<close> on \<open>&info[i]\<close> before it compares \<open>i\<close> with the table's size.
\<close>

lemma bus_task_overrun_iff:
  assumes "bus_inv b" "bus_state b = USB_HOST_STATE_GETTING_DEVICES"
    and "fst (device_get_first h) = USB_HOST_RESULT_SUCCESS"
  shows "usb_simcom_tasks h b = Inl Out_Of_Bounds \<longleftrightarrow>
    (\<forall>k \<in> {1, 2, 3, 4}. fst (device_get_next h k (bus_info b ! k)) = USB_HOST_RESULT_SUCCESS)"
proof -
  let ?b = "b\<lparr>bus_info := (bus_info b)[0 := snd (device_get_first h)], n_devices := n_devices b + 1\<rparr>"
  let ?l = "get_next_loop (device_get_next h) 1 ?b"
  have l: "length (bus_info b) = MAX_NUM_DEVICES" using assms(1) by (simp add: bus_inv_def)
  have "usb_simcom_tasks h b = seq ?l (\<lambda>b. Inr (b\<lparr>bus_state := USB_HOST_STATE_READY\<rparr>))"
    using assms(2,3) l by (simp add: usb_simcom_tasks_def)
  also have "\<dots> = Inl Out_Of_Bounds \<longleftrightarrow> ?l = Inl Out_Of_Bounds"
    by (cases ?l) simp_all
  also have "\<dots> \<longleftrightarrow> (\<forall>k. 1 \<le> k \<and> k < 5 \<longrightarrow>
      fst (device_get_next h k (bus_info ?b ! k)) = USB_HOST_RESULT_SUCCESS)"
    using get_next_loop_overrun [of ?b 1 "device_get_next h"] l by simp
  also have "\<dots> \<longleftrightarrow> (\<forall>k \<in> {1, 2, 3, 4}.
      fst (device_get_next h k (bus_info b ! k)) = USB_HOST_RESULT_SUCCESS)"
  proof -
    have "(1 \<le> k \<and> k < 5) = (k \<in> {1, 2, 3, 4})" for k :: nat by auto
    then show ?thesis by (simp only: Ball_def [symmetric]) simp
  qed
  finally show ?thesis .
qed

definition demo_bus_host :: "USB_HOST_RESULT \<Rightarrow> bus_host" where
  "demo_bus_host r = \<lparr>host_ready = True, bus_enabled = USB_HOST_RESULT_TRUE,
     device_get_first = (USB_HOST_RESULT_SUCCESS,
       \<lparr>info_deviceObjHandle = 1, info_deviceAddress = 1, info_bus = 0\<rparr>),
     device_get_next = (\<lambda>k d. (r, d))\<rparr>"

lemma bus_task_overrun_iff_witness:
  "usb_simcom_tasks (demo_bus_host USB_HOST_RESULT_SUCCESS)
     (bus_zero\<lparr>bus_state := USB_HOST_STATE_GETTING_DEVICES\<rparr>) = Inl Out_Of_Bounds"
  by (subst bus_task_overrun_iff) (simp_all add: bus_inv_def bus_zero_def demo_bus_host_def)

lemma bus_task_device_count_witness:
  "\<exists>c. run usb_simcom_tasks (replicate 3 (demo_bus_host USB_HOST_RESULT_END_OF_DEVICE_LIST))
         (HostDataInit bus_zero) = Inr c \<and> n_devices c \<le> 4 \<and> bus_state c = USB_HOST_STATE_READY"
proof -
  obtain c where "run usb_simcom_tasks (replicate 3 (demo_bus_host USB_HOST_RESULT_END_OF_DEVICE_LIST))
      (HostDataInit bus_zero) = Inr c" "bus_state c = USB_HOST_STATE_READY"
    by (simp add: numeral_eq_Suc usb_simcom_tasks_def HostDataInit_def bus_zero_def demo_bus_host_def
          get_next_loop.simps)
  then show ?thesis using bus_task_device_count [of bus_zero _ c] by (auto simp: bus_zero_def)
qed

end
