(* ===== verification/C_String.thy ===== *)
theory C_String
  imports Prelude
begin

text \<open>
  The parts of the C string library the firmware uses. A C string is the list of its
  characters up to the terminating NUL; a character array is a list with its full length,
  and \<open>cstr\<close> reads the string it holds.
\<close>

abbreviation NUL :: char where "NUL \<equiv> CHR 0x00"
abbreviation TAB :: char where "TAB \<equiv> CHR 0x09"
abbreviation LF :: char where "LF \<equiv> CHR 0x0A"
abbreviation CR :: char where "CR \<equiv> CHR 0x0D"
abbreviation SP :: char where "SP \<equiv> CHR 0x20"
abbreviation DQUOTE :: char where "DQUOTE \<equiv> CHR 0x22"
abbreviation CRLF :: string where "CRLF \<equiv> [CR, LF]"

section \<open>Character arrays and the strings in them\<close>

definition cstr :: "string \<Rightarrow> string" where
  "cstr buf = takeWhile (\<lambda>c. c \<noteq> NUL) buf"

text \<open>\<open>memset (buff, 0, sizeof buff)\<close>.\<close>

definition zeros :: "nat \<Rightarrow> string" where
  "zeros n = replicate n NUL"

text \<open>Writing a string at an offset of an array; the array keeps its length.\<close>

definition poke :: "string \<Rightarrow> nat \<Rightarrow> string \<Rightarrow> string outcome" where
  "poke buf i s =
     (if i + length s \<le> length buf then Inr (take i buf @ s @ drop (i + length s) buf)
      else Inl Out_Of_Bounds)"

lemma cstr_zeros [simp]: "cstr (zeros n) = []"
  by (cases n) (simp_all add: cstr_def zeros_def)

lemma length_zeros [simp]: "length (zeros n) = n"
  by (simp add: zeros_def)

lemma length_cstr_le: "length (cstr buf) \<le> length buf"
  by (simp add: cstr_def length_takeWhile_le)

lemma cstr_append_NUL: "NUL \<notin> set s \<Longrightarrow> cstr (s @ NUL # rest) = s"
  by (induction s) (auto simp: cstr_def)

lemma cstr_append_zeros: "NUL \<notin> set s \<Longrightarrow> cstr (s @ zeros n) = s"
  by (induction s) (simp, auto simp: cstr_def)

lemma NUL_notin_cstr [simp]: "NUL \<notin> set (cstr s)"
  by (auto simp: cstr_def dest: set_takeWhileD)

lemma cstr_id: "NUL \<notin> set s \<Longrightarrow> cstr s = s"
  unfolding cstr_def by (rule takeWhile_eq_all_conv [THEN iffD2]) auto

lemma length_poke: "poke buf i s = Inr buf' \<Longrightarrow> length buf' = length buf"
  by (auto simp: poke_def split: if_splits)

section \<open>Digits\<close>

definition is_digit :: "char \<Rightarrow> bool" where
  "is_digit c \<longleftrightarrow> 48 \<le> (of_char c :: nat) \<and> (of_char c :: nat) \<le> 57"

definition digit_val :: "char \<Rightarrow> nat" where
  "digit_val c = of_char c - 48"

definition digit_chr :: "nat \<Rightarrow> char" where
  "digit_chr d = char_of (48 + d)"

lemma is_digit_digit_chr [simp]: "d < 10 \<Longrightarrow> is_digit (digit_chr d)"
  by (simp add: is_digit_def digit_chr_def)

lemma digit_chr_values [simp]:
  "digit_chr 0 = CHR ''0''" "digit_chr (Suc 0) = CHR ''1''" "digit_chr 2 = CHR ''2''"
  "digit_chr 3 = CHR ''3''" "digit_chr 4 = CHR ''4''" "digit_chr 5 = CHR ''5''"
  "digit_chr 6 = CHR ''6''" "digit_chr 7 = CHR ''7''" "digit_chr 8 = CHR ''8''"
  "digit_chr 9 = CHR ''9''"
  by code_simp+

lemma digit_val_digit_chr [simp]: "d < 10 \<Longrightarrow> digit_val (digit_chr d) = d"
  by (simp add: digit_val_def digit_chr_def)

lemma digit_chr_digit_val [simp]: "is_digit c \<Longrightarrow> digit_chr (digit_val c) = c"
  by (simp add: is_digit_def digit_val_def digit_chr_def)

lemma digit_val_less [simp]: "is_digit c \<Longrightarrow> digit_val c < 10"
  unfolding is_digit_def digit_val_def by linarith

lemma digit_val_le_9: "is_digit c \<Longrightarrow> digit_val c \<le> 9"
  unfolding is_digit_def digit_val_def by linarith

text \<open>The value of a run of digits, most significant first.\<close>

fun digits_val :: "nat \<Rightarrow> string \<Rightarrow> nat" where
  "digits_val acc [] = acc"
| "digits_val acc (c # cs) = digits_val (10 * acc + digit_val c) cs"

lemma digits_val_append: "digits_val a (xs @ ys) = digits_val (digits_val a xs) ys"
  by (induction xs arbitrary: a) auto

lemma digits_val_bound: "\<forall>c \<in> set ds. is_digit c \<Longrightarrow> digits_val a ds < (a + 1) * 10 ^ length ds"
proof (induction ds arbitrary: a)
  case Nil
  then show ?case by simp
next
  case (Cons d ds)
  then have "digits_val (10 * a + digit_val d) ds < (10 * a + digit_val d + 1) * 10 ^ length ds"
    by simp
  also have "\<dots> \<le> (10 * a + 10) * 10 ^ length ds"
    using Cons.prems digit_val_le_9 [of d] by (intro mult_right_mono) auto
  finally show ?case by (simp add: algebra_simps)
qed

text \<open>Decimal output of a natural number (the digits \<open>printf\<close> produces).\<close>

fun dec :: "nat \<Rightarrow> string" where
  "dec n = (if n < 10 then [digit_chr n] else dec (n div 10) @ [digit_chr (n mod 10)])"

declare dec.simps [simp del]

lemma dec_digit [simp]: "n < 10 \<Longrightarrow> dec n = [digit_chr n]"
  by (simp add: dec.simps)

lemma dec_numeral [simp]:
  "dec (numeral k) = (if (numeral k :: nat) < 10 then [digit_chr (numeral k)]
     else dec (numeral k div 10) @ [digit_chr (numeral k mod 10)])"
  by (rule dec.simps)

lemma dec_nonempty [simp]: "dec n \<noteq> []"
  by (subst dec.simps) simp

lemma dec_digits: "c \<in> set (dec n) \<Longrightarrow> is_digit c"
proof (induction n rule: dec.induct)
  case (1 n)
  then show ?case by (subst (asm) (2) dec.simps) (auto split: if_splits)
qed

lemma digits_val_dec [simp]: "digits_val 0 (dec n) = n"
proof (induction n rule: dec.induct)
  case (1 n)
  show ?case
  proof (cases "n < 10")
    case True
    then show ?thesis by (simp add: dec.simps [of n])
  next
    case False
    with 1 show ?thesis by (simp add: dec.simps [of n] digits_val_append)
  qed
qed

lemma length_dec_le: "n < 10 ^ k \<Longrightarrow> 0 < k \<Longrightarrow> length (dec n) \<le> k"
proof (induction n arbitrary: k rule: dec.induct)
  case (1 n)
  show ?case
  proof (cases "n < 10")
    case True
    with 1 show ?thesis by (simp add: dec.simps [of n])
  next
    case False
    with "1.prems" have "1 < k" by (metis less_one linorder_neqE_nat not_less_iff_gr_or_eq power_one_right)
    then obtain j where j: "k = Suc j" "0 < j" by (cases k) auto
    with "1.prems" have "n div 10 < 10 ^ j" by (simp add: less_mult_imp_div_less mult.commute)
    with False j have "length (dec (n div 10)) \<le> j" by (intro "1.IH") auto
    with False j show ?thesis by (simp add: dec.simps [of n])
  qed
qed

lemma length_dec_ge: "10 ^ k \<le> n \<Longrightarrow> k < length (dec n)"
proof (induction n arbitrary: k rule: dec.induct)
  case (1 n)
  show ?case
  proof (cases "n < 10")
    case True
    have "k = 0"
    proof (rule ccontr)
      assume "k \<noteq> 0"
      then have "(10 :: nat) ^ 1 \<le> 10 ^ k" by (intro power_increasing) simp_all
      with True "1.prems" show False by simp
    qed
    then show ?thesis by simp
  next
    case False
    then have d: "length (dec n) = Suc (length (dec (n div 10)))" by (simp add: dec.simps [of n])
    show ?thesis
    proof (cases k)
      case 0
      with d show ?thesis by simp
    next
      case (Suc j)
      with "1.prems" have "10 ^ j \<le> n div 10" by (simp add: less_eq_div_iff_mult_less_eq mult.commute)
      with "1.IH" False d Suc show ?thesis by simp
    qed
  qed
qed

lemma NUL_notin_dec [simp]: "NUL \<notin> set (dec n)"
  using dec_digits [of NUL n] by (auto simp: is_digit_def)

section \<open>Parsing and printing integers\<close>

definition is_space :: "char \<Rightarrow> bool" where
  "is_space c \<longleftrightarrow> c \<in> {SP, TAB, LF, CHR 0x0B, CHR 0x0C, CR}"

text \<open>\<open>atoi\<close>: white space, an optional sign, digits; the rest is ignored.\<close>

definition atoi :: "string \<Rightarrow> int" where
  "atoi s = (let s = dropWhile is_space s in
     case s of
       [] \<Rightarrow> 0
     | c # cs \<Rightarrow>
         if c = CHR ''-'' then - int (digits_val 0 (takeWhile is_digit cs))
         else if c = CHR ''+'' then int (digits_val 0 (takeWhile is_digit cs))
         else int (digits_val 0 (takeWhile is_digit s)))"

text \<open>\<open>%d\<close>, and \<open>%0wd\<close>: the minimal width \<open>w\<close> counts the sign.\<close>

definition fmt_d :: "int \<Rightarrow> string" where
  "fmt_d i = (if i < 0 then CHR ''-'' # dec (nat (- i)) else dec (nat i))"

definition fmt_0d :: "nat \<Rightarrow> int \<Rightarrow> string" where
  "fmt_0d w i =
     (if i < 0 then CHR ''-'' # replicate (w - 1 - length (dec (nat (- i)))) CHR ''0'' @ dec (nat (- i))
      else replicate (w - length (dec (nat i))) CHR ''0'' @ dec (nat i))"

text \<open>
  \<open>strtok\<close>: skip delimiters, take a token, and remember what follows the delimiter that
  ended it. No token is the NULL result.
\<close>

definition strtok :: "string \<Rightarrow> string \<Rightarrow> string option \<times> string" where
  "strtok delims s =
     (let t = dropWhile (\<lambda>c. c \<in> set delims) s in
      if t = [] then (None, [])
      else (Some (takeWhile (\<lambda>c. c \<notin> set delims) t),
            drop 1 (dropWhile (\<lambda>c. c \<notin> set delims) t)))"

text \<open>Using the result of \<open>strtok\<close>, which may be NULL, as a string.\<close>

definition deref :: "'a option \<Rightarrow> 'a outcome" where
  "deref p = (case p of None \<Rightarrow> Inl Null_Deref | Some a \<Rightarrow> Inr a)"

lemma deref_simps [simp]: "deref None = Inl Null_Deref" "deref (Some a) = Inr a"
  by (simp_all add: deref_def)

lemma is_digit_not_special:
  assumes "is_digit c"
  shows "\<not> is_space c" "c \<noteq> CHR ''-''" "c \<noteq> CHR ''+''" "c \<noteq> CHR '',''" "c \<noteq> CHR ''.''"
    "c \<noteq> CHR '':''" "c \<noteq> CR" "c \<noteq> LF" "c \<noteq> NUL" "c \<noteq> CHR ''/''"
  using assms by (auto simp: is_digit_def is_space_def)

lemma takeWhile_dec_append:
  "rest = [] \<or> \<not> is_digit (hd rest) \<Longrightarrow> takeWhile is_digit (dec n @ rest) = dec n"
  using dec_digits by (cases rest) (auto simp: takeWhile_append2)

lemma hd_dec_digit: "is_digit (hd (dec n))"
  by (rule dec_digits [OF hd_in_set [OF dec_nonempty]])

lemma atoi_dec_append:
  assumes "rest = [] \<or> \<not> is_digit (hd rest)"
  shows "atoi (dec n @ rest) = int n"
proof -
  obtain c cs where d: "dec n = c # cs" using dec_nonempty by (cases "dec n") auto
  with hd_dec_digit [of n] have "is_digit c" by simp
  then have "\<not> is_space c" "c \<noteq> CHR ''-''" "c \<noteq> CHR ''+''" by (rule is_digit_not_special)+
  then have "atoi (dec n @ rest) = int (digits_val 0 (takeWhile is_digit (dec n @ rest)))"
    by (simp add: atoi_def d)
  with takeWhile_dec_append [OF assms] show ?thesis by simp
qed

lemma atoi_dec [simp]: "atoi (dec n) = int n"
  using atoi_dec_append [of "[]"] by simp

lemma atoi_digits:
  assumes "ds \<noteq> []" "\<forall>c \<in> set ds. is_digit c"
  shows "atoi ds = int (digits_val 0 ds)"
proof -
  obtain c cs where d: "ds = c # cs" using assms(1) by (cases ds) auto
  then have "is_digit c" using assms(2) by simp
  then have "\<not> is_space c" "c \<noteq> CHR ''-''" "c \<noteq> CHR ''+''" by (rule is_digit_not_special)+
  moreover have "takeWhile is_digit ds = ds"
    using assms(2) by (simp add: takeWhile_eq_all_conv)
  ultimately show ?thesis by (simp add: atoi_def d)
qed

lemma dec_digits_not_in:
  "\<not> is_digit d \<Longrightarrow> d \<notin> set (dec n)"
  using dec_digits by blast

lemma not_digits [simp]:
  "\<not> is_digit CHR '',''" "\<not> is_digit CHR ''.''" "\<not> is_digit CHR '':''" "\<not> is_digit CR"
  "\<not> is_digit LF" "\<not> is_digit NUL" "\<not> is_digit CHR ''-''" "\<not> is_digit CHR ''/''"
  by (simp_all add: is_digit_def)

lemma dec_specials [simp]:
  "CHR '','' \<notin> set (dec n)" "CHR ''.'' \<notin> set (dec n)" "CHR '':'' \<notin> set (dec n)"
  "CR \<notin> set (dec n)" "LF \<notin> set (dec n)" "CHR ''-'' \<notin> set (dec n)" "CHR ''/'' \<notin> set (dec n)"
  by (simp_all add: dec_digits_not_in)

lemma fmt_d_nat [simp]: "fmt_d (int n) = dec n"
  by (simp add: fmt_d_def)

lemma NUL_notin_fmt_d [simp]: "NUL \<notin> set (fmt_d i)"
  by (simp add: fmt_d_def)

lemma NUL_notin_fmt_0d [simp]: "NUL \<notin> set (fmt_0d w i)"
  by (simp add: fmt_0d_def)

text \<open>A token that ends at a delimiter.\<close>

lemma strtok_token:
  assumes "t \<noteq> []" "\<forall>c \<in> set t. c \<notin> set ds" "d \<in> set ds"
  shows "strtok ds (t @ d # rest) = (Some t, rest)"
proof -
  from assms obtain c cs where t: "t = c # cs" by (cases t) auto
  have w: "takeWhile (\<lambda>c. c \<notin> set ds) (t @ d # rest) = t"
    "dropWhile (\<lambda>c. c \<notin> set ds) (t @ d # rest) = d # rest"
    using assms(2,3) by (auto simp: takeWhile_append2 dropWhile_append2)
  have "dropWhile (\<lambda>c. c \<in> set ds) (t @ d # rest) = t @ d # rest"
    using assms(2) t by simp
  with w show ?thesis using t by (simp add: strtok_def)
qed

lemma strtok_last:
  assumes "t \<noteq> []" "\<forall>c \<in> set t. c \<notin> set ds"
  shows "strtok ds t = (Some t, [])"
proof -
  from assms obtain c cs where t: "t = c # cs" by (cases t) auto
  have "takeWhile (\<lambda>c. c \<notin> set ds) t = t" "dropWhile (\<lambda>c. c \<notin> set ds) t = []"
    using assms(2) by (auto simp: takeWhile_eq_all_conv dropWhile_eq_Nil_conv)
  moreover have "dropWhile (\<lambda>c. c \<in> set ds) t = t" using assms(2) t by simp
  ultimately show ?thesis using t by (simp add: strtok_def)
qed

lemma strtok_shrinks: "length (snd (strtok ds s)) \<le> length s"
  by (auto simp: strtok_def Let_def intro: le_trans [OF diff_le_self]
      le_trans [OF length_dropWhile_le])

text \<open>C's division truncates; on non-negative operands it is the usual one.\<close>

lemma sdiv_nonneg: "0 \<le> a \<Longrightarrow> 0 < b \<Longrightarrow> (a :: int) sdiv b = a div b"
  by (simp add: signed_divide_int_def sgn_if pos_imp_zdiv_nonneg_iff)

lemma smod_nonneg: "0 \<le> a \<Longrightarrow> 0 < b \<Longrightarrow> (a :: int) smod b = a mod b"
  by (simp add: signed_modulo_int_def sgn_if pos_imp_zdiv_nonneg_iff minus_div_mult_eq_mod)

lemma sdiv_smod_split:
  assumes "n = d * k + m" "m < k" "K = int k"
  shows "int n sdiv K = int d" "int n smod K = int m"
proof -
  have "n div k = d" "n mod k = m" using assms by auto
  then have "int n div int k = int d" "int n mod int k = int m"
    by (simp_all only: zdiv_int [symmetric] zmod_int [symmetric])
  with assms(2,3) show "int n sdiv K = int d" "int n smod K = int m"
    by (simp_all only: sdiv_nonneg smod_nonneg)
qed

end
