(* ===== verification/Simcom.thy ===== *)
theory Simcom
  imports  Usb_Driver C_String
begin

text \<open>
  The application protocol of the A7672E modem (\<open>A7672E.c\<close>, \<open>A7672E.h\<close>): the AT command
  exchange that registers the modem in the network, opens an HTTP session and posts the
  position of the tracker every ten seconds. The task runs on top of the USB driver: its state
  is the client state \<open>app\<close> of the driver, and its transfers go through \<open>AT_Write\<close> and
  \<open>AT_Read\<close>. The environment delivers the modem's answer into the receive buffer before the
  read completion event.
\<close>

section \<open>Commands and types\<close>

definition AT_DISABLE_ECO :: string where "AT_DISABLE_ECO = ''ATE0'' @ [CR]"
definition AT_SET_FULL_FUNCTIONALITY :: string where "AT_SET_FULL_FUNCTIONALITY = ''AT+CFUN=1'' @ [CR]"
definition AT_SIM_PIN_STATUS :: string where "AT_SIM_PIN_STATUS = ''AT+CPIN?'' @ [CR]"
definition AT_MOBILE_NETWORK_STATUS :: string where "AT_MOBILE_NETWORK_STATUS = ''AT+CREG?'' @ [CR]"
definition AT_GPRS_NETWORK_STATUS :: string where "AT_GPRS_NETWORK_STATUS = ''AT+CGREG?'' @ [CR]"
definition AT_EPS_NETWORK_STATUS :: string where "AT_EPS_NETWORK_STATUS = ''AT+CEREG?'' @ [CR]"
definition AT_DEFINE_PDP_CONTEXT :: string where
  "AT_DEFINE_PDP_CONTEXT = ''AT+CGDCONT=1,'' @ [DQUOTE] @ ''IP'' @ [DQUOTE] @ '','' @ [DQUOTE]
     @ ''orangeworld'' @ [DQUOTE] @ [CR]"
definition AT_ACTIVATE_PDP_CONTEXT :: string where "AT_ACTIVATE_PDP_CONTEXT = ''AT+CGACT=1,1'' @ [CR]"
definition AT_VERIFY_PDP_ADDRESS :: string where "AT_VERIFY_PDP_ADDRESS = ''AT+CGPADDR=1'' @ [CR]"
definition AT_HTTPS_INIT :: string where "AT_HTTPS_INIT = ''AT+HTTPINIT'' @ [CR]"
definition AT_HTTPS_SET_URL :: string where
  "AT_HTTPS_SET_URL = ''AT+HTTPPARA='' @ [DQUOTE] @ ''URL'' @ [DQUOTE] @ '','' @ [DQUOTE]
     @ ''http://simcomtest.serveo.net/posicion'' @ [DQUOTE] @ [CR]"
definition AT_HTTP_SET_JSON_FORMAT :: string where
  "AT_HTTP_SET_JSON_FORMAT = ''AT+HTTPPARA='' @ [DQUOTE] @ ''CONTENT'' @ [DQUOTE] @ '','' @ [DQUOTE]
     @ ''application/json'' @ [DQUOTE] @ [CR]"
definition AT_HTTP_SEND_POST_REQUEST :: string where "AT_HTTP_SEND_POST_REQUEST = ''AT+HTTPACTION=1'' @ [CR]"
definition AT_HTTP_READ_HEADER :: string where "AT_HTTP_READ_HEADER = ''AT+HTTPHEAD'' @ [CR]"
definition AT_HTTP_READ_RESPONSE :: string where "AT_HTTP_READ_RESPONSE = ''AT+HTTPREAD=0,500'' @ [CR]"
definition AT_HTTP_INPUT_POST_DATA :: string where "AT_HTTP_INPUT_POST_DATA = ''AT+HTTPDATA=''"
definition AT_HTTP_STOP_SERVICE :: string where "AT_HTTP_STOP_SERVICE = ''AT+HTTPTERM'' @ [CR]"

text \<open>The two final answers of the modem.\<close>

definition msg_OK :: string where "msg_OK = CRLF @ ''OK'' @ CRLF"
definition msg_ERROR :: string where "msg_ERROR = CRLF @ ''ERROR'' @ CRLF"

datatype SIMCOM_STATE =
    SIMCOM_STATE_ERROR | SIMCOM_STATE_WAITING_DRIVER_READY | SIMCOM_STATE_NOT_READY
  | SIMCOM_STATE_DISABLING_ECO | SIMCOM_STATE_SETTING_FULL_FUNCTIONALITY
  | SIMCOM_STATE_GETTING_SIM_PIN_STATUS | SIMCOM_STATE_GETTING_MOBILE_NETWORK_STATUS
  | SIMCOM_STATE_GETTING_GPRS_NETWORK_STATUS | SIMCOM_STATE_GETTING_EPS_NETWORK_STATUS
  | SIMCOM_STATE_DEFINING_PDP_CONTEXT | SIMCOM_STATE_ACTIVATING_PDP_CONTEXT
  | SIMCOM_STATE_VERIFY_PDP_ADDRESS | SIMCOM_STATE_ENABLING_GNSS | SIMCOM_STATE_SET_GPS_MODE
  | SIMCOM_STATE_COLD_START_GPS | SIMCOM_STATE_START_GPS_TEST_MODE | SIMCOM_STATE_HTTPS_INIT
  | SIMCOM_STATE_HTTPS_SET_URL | SIMCOM_STATE_HTTPS_SET_JSON_FORMAT
  | SIMCOM_STATE_REQUEST_GPS_INFO | SIMCOM_STATE_HTTP_POST_DATA
  | SIMCOM_STATE_HTTP_SEND_GET_REQUEST | SIMCOM_STATE_HTTP_WAIT_GET_RESPONSE
  | SIMCOM_STATE_HTTP_SEND_POST_REQUEST | SIMCOM_STATE_HTTP_WAIT_POST_RESPONSE
  | SIMCOM_STATE_HTTP_READ_HEADER | SIMCOM_STATE_HTTP_READ_RESPONSE
  | SIMCOM_STATE_HTTP_STOP_SERVICE | SIMCOM_STATE_READY

text \<open>\<open>int32_t\<close> fields are kept as 32-bit words; \<open>sint\<close> reads them where they are printed.\<close>

record SIMCOM_LAST_GPS_POSSITION =
  gps_lat :: u32
  gps_lon :: u32
  gps_course :: u16
  gps_speed :: u8

record SIMCOM_TRANSFER_FLAGS =
  ATread :: bool
  ATwrite :: bool
  ATserial :: bool
  RNDISread :: bool
  RNDISwrite :: bool
  RNDISserial :: bool
  ECMread :: bool
  ECMwrite :: bool
  ECMserial :: bool
  DIAGread :: bool
  DIAGwrite :: bool

text \<open>
  \<open>simcomObj\<close> together with the file's other variables, among them the static buffers of
  \<open>simcom_tasks\<close>. \<open>timerStarted\<close> records that the periodic timer was started.
\<close>

record simcom =
  flags :: SIMCOM_TRANSFER_FLAGS
  GPSInfo :: SIMCOM_LAST_GPS_POSSITION
  assignedIP :: u32
  sim_state :: SIMCOM_STATE
  sim_timer :: u32
  timerStarted :: bool
  resendATCommand :: bool
  pendingATCommandParse :: bool
  pendingResponse :: bool
  buffRecv :: string
  postData :: string

definition SIMCOM_FLAGS_ALL :: SIMCOM_TRANSFER_FLAGS where
  "SIMCOM_FLAGS_ALL = \<lparr>ATread = True, ATwrite = True, ATserial = True, RNDISread = True,
     RNDISwrite = True, RNDISserial = True, ECMread = True, ECMwrite = True, ECMserial = True,
     DIAGread = True, DIAGwrite = True\<rparr>"

text \<open>The variables before \<open>simcom_init\<close>: static storage is zero.\<close>

definition simcom_zero :: simcom where
  "simcom_zero = \<lparr>flags = \<lparr>ATread = False, ATwrite = False, ATserial = False, RNDISread = False,
       RNDISwrite = False, RNDISserial = False, ECMread = False, ECMwrite = False,
       ECMserial = False, DIAGread = False, DIAGwrite = False\<rparr>,
     GPSInfo = \<lparr>gps_lat = 0, gps_lon = 0, gps_course = 0, gps_speed = 0\<rparr>,
     assignedIP = 0, sim_state = SIMCOM_STATE_WAITING_DRIVER_READY, sim_timer = 0,
     timerStarted = False, resendATCommand = False, pendingATCommandParse = False,
     pendingResponse = False, buffRecv = zeros 512, postData = zeros 64\<rparr>"

section \<open>Addresses and positions\<close>

text \<open>\<open>IPStringToInt\<close>; \<open>strtok\<close> is called with the four separators in turn.\<close>

definition IPStringToInt :: "string \<Rightarrow> u32 \<Rightarrow> u32 outcome" where
  "IPStringToInt ip sz =
     (if sz < 7 \<or> 15 < sz then Inr 0
      else
        let (n0, r0) = strtok ''.'' ip in
        seq (deref n0) (\<lambda>n0.
        let (n1, r1) = strtok ''.'' r0 in
        seq (deref n1) (\<lambda>n1.
        let (n2, r2) = strtok ''.'' r1 in
        seq (deref n2) (\<lambda>n2.
        let (n3, r3) = strtok [CR] r2 in
        seq (deref n3) (\<lambda>n3.
        let b0 = word_of_int (atoi n0) :: u8; b1 = word_of_int (atoi n1) :: u8;
            b2 = word_of_int (atoi n2) :: u8; b3 = word_of_int (atoi n3) :: u8
        in Inr (or (or (or (ucast b0) (ucast b1)) (ucast b2)) (ucast b3)))))))"

text \<open>\<open>IPIntToString\<close>\<close>

definition IPIntToString :: "u32 \<Rightarrow> string" where
  "IPIntToString ip =
     (let b0 = and (drop_bit 24 ip) 0xFF; b1 = and (drop_bit 16 ip) 0xFF;
          b2 = and (drop_bit 8 ip) 0xFF; b3 = and ip 0xFF
      in fmt_d (uint b0) @ ''.'' @ fmt_d (uint b1) @ ''.'' @ fmt_d (uint b2) @ ''.'' @ fmt_d (uint b3))"

text \<open>A token of the sentence, which the code uses without a NULL check.\<close>

definition next_tok :: "string \<Rightarrow> string \<Rightarrow> (string \<times> string) outcome" where
  "next_tok ds s = (case strtok ds s of (t, r) \<Rightarrow> seq (deref t) (\<lambda>t. Inr (t, r)))"

text \<open>
  \<open>updateGPSInfo\<close>. The results of the \<open>strtok\<close> calls whose token is never read may be NULL;
  \<open>tok[0]\<close> of an empty string cannot occur, as tokens are not empty.
\<close>

definition updateGPSInfo :: "string \<Rightarrow> SIMCOM_LAST_GPS_POSSITION \<Rightarrow> SIMCOM_LAST_GPS_POSSITION outcome" where
  "updateGPSInfo info g =
     (let (_, s) = strtok '':'' info in
      seq (next_tok ''.'' s) (\<lambda>(tok, s).
      let g = g\<lparr>gps_lat := word_of_int (atoi tok * 10000)\<rparr> in
      seq (next_tok '','' s) (\<lambda>(tok, s).
      let g = g\<lparr>gps_lat := gps_lat g + word_of_int (atoi tok sdiv 100)\<rparr> in
      seq (next_tok '','' s) (\<lambda>(tok, s).
      let g = (if hd tok = CHR ''S'' then g\<lparr>gps_lat := gps_lat g * (- 1)\<rparr> else g) in
      seq (next_tok ''.'' s) (\<lambda>(tok, s).
      let g = g\<lparr>gps_lon := word_of_int (atoi tok * 10000)\<rparr> in
      seq (next_tok '','' s) (\<lambda>(tok, s).
      let g = g\<lparr>gps_lon := gps_lon g + word_of_int (atoi tok sdiv 100)\<rparr> in
      seq (next_tok '','' s) (\<lambda>(tok, s).
      let g = (if hd tok = CHR ''W'' then g\<lparr>gps_lon := gps_lon g * (- 1)\<rparr> else g);
          (_, s) = strtok '','' s;
          (_, s) = strtok '','' s;
          (_, s) = strtok '','' s in
      seq (next_tok ''.'' s) (\<lambda>(tok, s).
      let g = g\<lparr>gps_speed := word_of_int (atoi tok * 10)\<rparr> in
      seq (next_tok '','' s) (\<lambda>(tok, s).
      let g = g\<lparr>gps_speed := gps_speed g + word_of_int (atoi tok)\<rparr> in
      seq (next_tok '','' s) (\<lambda>(tok, s).
      Inr (g\<lparr>gps_course := word_of_int (atoi tok)\<rparr>)))))))))))"

text \<open>\<open>GPSInfoToString\<close>: the text that \<open>sprintf\<close> writes, without its NUL.\<close>

definition GPSInfoToString :: "SIMCOM_LAST_GPS_POSSITION \<Rightarrow> string" where
  "GPSInfoToString g =
     ''{'' @ [DQUOTE] @ ''lat'' @ [DQUOTE] @ '':'' @ fmt_d (sint (gps_lat g) sdiv 1000000)
       @ ''.'' @ fmt_0d 4 (sint (gps_lat g) smod 1000000)
     @ '','' @ [DQUOTE] @ ''lon'' @ [DQUOTE] @ '':'' @ fmt_d (sint (gps_lon g) sdiv 1000000)
       @ ''.'' @ fmt_0d 4 (sint (gps_lon g) smod 1000000)
     @ '','' @ [DQUOTE] @ ''vel'' @ [DQUOTE] @ '':'' @ fmt_d (uint (gps_speed g) sdiv 10)
       @ ''.'' @ fmt_0d 1 (uint (gps_speed g) smod 10)
     @ '','' @ [DQUOTE] @ ''dir'' @ [DQUOTE] @ '':'' @ fmt_d (uint (gps_course g)) @ ''}''"

section \<open>Callbacks\<close>

definition upd_flags :: "(SIMCOM_TRANSFER_FLAGS \<Rightarrow> SIMCOM_TRANSFER_FLAGS) \<Rightarrow> simcom \<Rightarrow> simcom" where
  "upd_flags f s = s\<lparr>flags := f (flags s)\<rparr>"

text \<open>\<open>simcomEventHandler\<close>: the event data is dereferenced before the event is looked at.\<close>

definition simcomEventHandler :: "simcom event_handler" where
  "simcomEventHandler event eventData c s =
     seq (deref eventData) (\<lambda>_. Inr
      (case event of
        USB_HOST_SIMCOM_EVENT_AT_READ_COMPLETE \<Rightarrow>
          upd_flags (\<lambda>f. f\<lparr>ATread := True\<rparr>) (s\<lparr>pendingATCommandParse := True\<rparr>)
      | USB_HOST_SIMCOM_EVENT_AT_WRITE_COMPLETE \<Rightarrow>
          upd_flags (\<lambda>f. f\<lparr>ATwrite := True\<rparr>) (s\<lparr>pendingResponse := True\<rparr>)
      | USB_HOST_SIMCOM_EVENT_AT_SERIAL_STATE_NOTIFICATION_RECEIVED \<Rightarrow>
          upd_flags (\<lambda>f. f\<lparr>ATserial := True\<rparr>) s
      | USB_HOST_SIMCOM_EVENT_RNDIS_READ_COMPLETE \<Rightarrow> upd_flags (\<lambda>f. f\<lparr>RNDISread := True\<rparr>) s
      | USB_HOST_SIMCOM_EVENT_RNDIS_WRITE_COMPLETE \<Rightarrow> upd_flags (\<lambda>f. f\<lparr>RNDISwrite := True\<rparr>) s
      | USB_HOST_SIMCOM_EVENT_RNDIS_SERIAL_STATE_NOTIFICATION_RECEIVED \<Rightarrow>
          upd_flags (\<lambda>f. f\<lparr>RNDISserial := True\<rparr>) s
      | USB_HOST_SIMCOM_EVENT_ECM_READ_COMPLETE \<Rightarrow> upd_flags (\<lambda>f. f\<lparr>ECMread := True\<rparr>) s
      | USB_HOST_SIMCOM_EVENT_ECM_WRITE_COMPLETE \<Rightarrow> upd_flags (\<lambda>f. f\<lparr>ECMwrite := True\<rparr>) s
      | USB_HOST_SIMCOM_EVENT_ECM_SERIAL_STATE_NOTIFICATION_RECEIVED \<Rightarrow>
          upd_flags (\<lambda>f. f\<lparr>ECMserial := True\<rparr>) s
      | USB_HOST_SIMCOM_EVENT_DIAG_READ_COMPLETE \<Rightarrow> upd_flags (\<lambda>f. f\<lparr>DIAGread := True\<rparr>) s
      | USB_HOST_SIMCOM_EVENT_DIAG_WRITE_COMPLETE \<Rightarrow> upd_flags (\<lambda>f. f\<lparr>DIAGwrite := True\<rparr>) s
      | USB_HOST_SIMCOM_EVENT_DEVICE_DETACHED \<Rightarrow> s))"

text \<open>\<open>resendATCommandCB\<close>, called every millisecond once the timer is started.\<close>

definition resendATCommandCB :: "simcom \<Rightarrow> simcom" where
  "resendATCommandCB s = (if sim_timer s > 1 then s\<lparr>sim_timer := sim_timer s - 1\<rparr> else s)"

text \<open>
  \<open>ATCommandParse\<close>. The scan reads \<open>command[i]\<close> before it compares \<open>i\<close> with the size, and the
  four characters are compared left to right, so that a later index is only read when the
  earlier ones matched.
\<close>

function scan_end :: "string \<Rightarrow> nat \<Rightarrow> nat \<Rightarrow> nat outcome" where
  "scan_end command sz i =
     (if i < length command then
        if command ! i \<noteq> NUL \<and> i < sz then scan_end command sz (i + 1) else Inr i
      else Inl Out_Of_Bounds)"
  by pat_completeness auto

termination scan_end
  by (relation "measure (\<lambda>(command, _, i). length command - i)") auto

declare scan_end.simps [simp del]

definition ATCommandParse :: "string option \<Rightarrow> nat \<Rightarrow> bool outcome" where
  "ATCommandParse p sz =
     (case p of
        None \<Rightarrow> Inr False
      | Some command \<Rightarrow>
          seq (rd command 0) (\<lambda>c0.
          if c0 = NUL then Inr False
          else
            seq (scan_end command sz 0) (\<lambda>i.
            if c0 \<noteq> CR then Inr False
            else seq (rd command 1) (\<lambda>c1.
            if c1 \<noteq> LF then Inr False
            else seq (if i < 2 then Inl Out_Of_Bounds else rd command (i - 2)) (\<lambda>c2.
            if c2 \<noteq> CR then Inr False
            else seq (rd command (i - 1)) (\<lambda>c3.
            Inr (c3 = LF)))))))"

text \<open>\<open>simcom_init\<close>\<close>

definition simcom_init :: "simcom \<Rightarrow> simcom" where
  "simcom_init s = s\<lparr>resendATCommand := False, pendingATCommandParse := False,
     pendingResponse := False, flags := SIMCOM_FLAGS_ALL, assignedIP := 0,
     GPSInfo := \<lparr>gps_lat = 0, gps_lon = 0, gps_course = 0, gps_speed = 0\<rparr>,
     sim_state := SIMCOM_STATE_WAITING_DRIVER_READY\<rparr>"

section \<open>The blocks the states are built from\<close>

type_synonym sim = "simcom usb"

definition upd_sim :: "(simcom \<Rightarrow> simcom) \<Rightarrow> sim \<Rightarrow> sim" where
  "upd_sim f u = u\<lparr>app := f (app u)\<rparr>"

text \<open>A write that, when the driver accepts it, marks the channel busy.\<close>

definition send_AT :: "usb_host \<Rightarrow> string \<Rightarrow> sim \<Rightarrow> sim" where
  "send_AT h cmd u =
     (let (r, u) = AT_Write h (Some cmd) (of_nat (length cmd)) u in
      if r = USB_HOST_SIMCOM_RESULT_SUCCESS
      then upd_sim (upd_flags (\<lambda>f. f\<lparr>ATwrite := False\<rparr>)) u else u)"

text \<open>First block of a command state: send the command unless one is under way.\<close>

definition at_write :: "usb_host \<Rightarrow> string \<Rightarrow> sim \<Rightarrow> sim" where
  "at_write h cmd u =
     (if ATwrite (flags (app u)) \<and> \<not> pendingResponse (app u) then send_AT h cmd u else u)"

text \<open>Second block: keep a read of the whole receive buffer posted.\<close>

definition at_read :: "usb_host \<Rightarrow> sim \<Rightarrow> sim" where
  "at_read h u =
     (if ATread (flags (app u)) then
        let (r, u) = AT_Read h (Some (buffRecv (app u))) 512 u in
        if r = USB_HOST_SIMCOM_RESULT_SUCCESS
        then upd_sim (upd_flags (\<lambda>f. f\<lparr>ATread := False\<rparr>)) u else u
      else u)"

text \<open>Third block: when an answer is pending, act on it, then clear the buffer.\<close>

definition at_answer :: "(string \<Rightarrow> sim \<Rightarrow> sim outcome) \<Rightarrow> sim \<Rightarrow> sim outcome" where
  "at_answer act u =
     (if pendingATCommandParse (app u) then
        seq (ATCommandParse (Some (buffRecv (app u))) 512) (\<lambda>ok.
        seq (if ok then act (cstr (buffRecv (app u))) u else Inr u) (\<lambda>u.
        Inr (upd_sim (\<lambda>s. s\<lparr>buffRecv := zeros 512, pendingATCommandParse := False\<rparr>) u)))
      else Inr u)"

definition goto :: "SIMCOM_STATE \<Rightarrow> sim \<Rightarrow> sim" where
  "goto st u = upd_sim (\<lambda>s. s\<lparr>pendingResponse := False, sim_state := st\<rparr>) u"

text \<open>The reaction shared by most states: OK leads on, ERROR to the error state.\<close>

definition ok_or_error :: "string \<Rightarrow> SIMCOM_STATE \<Rightarrow> string \<Rightarrow> sim \<Rightarrow> sim outcome" where
  "ok_or_error expected next msg u =
     Inr (if msg = expected then goto next u
          else if msg = msg_ERROR then goto SIMCOM_STATE_ERROR u
          else u)"

definition command_state ::
  "usb_host \<Rightarrow> string \<Rightarrow> (string \<Rightarrow> sim \<Rightarrow> sim outcome) \<Rightarrow> sim \<Rightarrow> sim outcome" where
  "command_state h cmd act u = at_answer act (at_read h (at_write h cmd u))"

section \<open>The states of \<open>simcom_tasks\<close>\<close>

definition case_WAITING_DRIVER_READY :: "sim \<Rightarrow> sim outcome" where
  "case_WAITING_DRIVER_READY u =
     Inr (if IsInReadyState u then
            let (_, u) = EventHandlerSet (Some simcomEventHandler) 0 u
            in upd_sim (\<lambda>s. s\<lparr>timerStarted := True, buffRecv := zeros 512,
                              sim_state := SIMCOM_STATE_NOT_READY\<rparr>) u
          else u)"

definition case_NOT_READY :: "usb_host \<Rightarrow> sim \<Rightarrow> sim outcome" where
  "case_NOT_READY h u =
     seq (at_answer (\<lambda>msg u. Inr (if msg = CRLF @ ''*ATREADY: 1'' @ CRLF
                                   then upd_sim (\<lambda>s. s\<lparr>sim_timer := 15000\<rparr>) u else u))
            (at_read h u))
       (\<lambda>u. Inr (if sim_timer (app u) = 1
                 then upd_sim (\<lambda>s. s\<lparr>sim_state := SIMCOM_STATE_DISABLING_ECO\<rparr>) u else u))"

definition case_DISABLING_ECO :: "usb_host \<Rightarrow> sim \<Rightarrow> sim outcome" where
  "case_DISABLING_ECO h =
     command_state h AT_DISABLE_ECO (ok_or_error msg_OK SIMCOM_STATE_SETTING_FULL_FUNCTIONALITY)"

definition case_SETTING_FULL_FUNCTIONALITY :: "usb_host \<Rightarrow> sim \<Rightarrow> sim outcome" where
  "case_SETTING_FULL_FUNCTIONALITY h =
     command_state h AT_SET_FULL_FUNCTIONALITY
       (ok_or_error msg_OK SIMCOM_STATE_GETTING_SIM_PIN_STATUS)"

definition case_GETTING_SIM_PIN_STATUS :: "usb_host \<Rightarrow> sim \<Rightarrow> sim outcome" where
  "case_GETTING_SIM_PIN_STATUS h =
     command_state h AT_SIM_PIN_STATUS
       (ok_or_error msg_OK SIMCOM_STATE_GETTING_MOBILE_NETWORK_STATUS)"

definition case_GETTING_MOBILE_NETWORK_STATUS :: "usb_host \<Rightarrow> sim \<Rightarrow> sim outcome" where
  "case_GETTING_MOBILE_NETWORK_STATUS h =
     command_state h AT_MOBILE_NETWORK_STATUS
       (ok_or_error msg_OK SIMCOM_STATE_GETTING_GPRS_NETWORK_STATUS)"

definition case_GETTING_GPRS_NETWORK_STATUS :: "usb_host \<Rightarrow> sim \<Rightarrow> sim outcome" where
  "case_GETTING_GPRS_NETWORK_STATUS h =
     command_state h AT_GPRS_NETWORK_STATUS
       (ok_or_error msg_OK SIMCOM_STATE_GETTING_EPS_NETWORK_STATUS)"

definition eps_answer :: "string \<Rightarrow> sim \<Rightarrow> sim outcome" where
  "eps_answer msg u =
     Inr (if msg = msg_OK \<or> msg = msg_ERROR then goto SIMCOM_STATE_DEFINING_PDP_CONTEXT u else u)"

definition case_GETTING_EPS_NETWORK_STATUS :: "usb_host \<Rightarrow> sim \<Rightarrow> sim outcome" where
  "case_GETTING_EPS_NETWORK_STATUS h = command_state h AT_EPS_NETWORK_STATUS eps_answer"

definition case_DEFINING_PDP_CONTEXT :: "usb_host \<Rightarrow> sim \<Rightarrow> sim outcome" where
  "case_DEFINING_PDP_CONTEXT h =
     command_state h AT_DEFINE_PDP_CONTEXT
       (ok_or_error msg_OK SIMCOM_STATE_ACTIVATING_PDP_CONTEXT)"

definition case_ACTIVATING_PDP_CONTEXT :: "usb_host \<Rightarrow> sim \<Rightarrow> sim outcome" where
  "case_ACTIVATING_PDP_CONTEXT h =
     command_state h AT_ACTIVATE_PDP_CONTEXT (ok_or_error msg_OK SIMCOM_STATE_VERIFY_PDP_ADDRESS)"

text \<open>The address is the text after the first comma; \<open>strlen\<close> of a NULL token faults.\<close>

definition pdp_answer :: "string \<Rightarrow> sim \<Rightarrow> sim outcome" where
  "pdp_answer msg u =
     (if msg = msg_OK then Inr (goto SIMCOM_STATE_HTTPS_INIT u)
      else if take 11 msg = CRLF @ ''+CGPADDR:'' then
        let (_, r) = strtok '','' msg in
        seq (deref (fst (strtok '','' r))) (\<lambda>tok.
        seq (IPStringToInt tok (of_nat (length tok) - 2)) (\<lambda>ip.
        Inr (upd_sim (\<lambda>s. s\<lparr>assignedIP := ip\<rparr>) u)))
      else if msg = msg_ERROR then Inr (goto SIMCOM_STATE_ERROR u)
      else Inr u)"

definition case_VERIFY_PDP_ADDRESS :: "usb_host \<Rightarrow> sim \<Rightarrow> sim outcome" where
  "case_VERIFY_PDP_ADDRESS h = command_state h AT_VERIFY_PDP_ADDRESS pdp_answer"

definition case_HTTPS_INIT :: "usb_host \<Rightarrow> sim \<Rightarrow> sim outcome" where
  "case_HTTPS_INIT h =
     command_state h AT_HTTPS_INIT (ok_or_error msg_OK SIMCOM_STATE_HTTPS_SET_URL)"

definition case_HTTPS_SET_URL :: "usb_host \<Rightarrow> sim \<Rightarrow> sim outcome" where
  "case_HTTPS_SET_URL h =
     command_state h AT_HTTPS_SET_URL (ok_or_error msg_OK SIMCOM_STATE_HTTPS_SET_JSON_FORMAT)"

definition case_HTTPS_SET_JSON_FORMAT :: "usb_host \<Rightarrow> sim \<Rightarrow> sim outcome" where
  "case_HTTPS_SET_JSON_FORMAT h =
     command_state h AT_HTTP_SET_JSON_FORMAT (ok_or_error msg_OK SIMCOM_STATE_REQUEST_GPS_INFO)"

text \<open>
  The module has no GPS: the state makes up a sentence from four random numbers (the values
  of \<open>rand ()\<close>, a parameter) and treats it as an answer of the modem.
\<close>

definition gps_sentence :: "nat \<Rightarrow> nat \<Rightarrow> nat \<Rightarrow> nat \<Rightarrow> string" where
  "gps_sentence r1 r2 r3 r4 =
     CRLF @ ''+CGPSINFO:3113.'' @ fmt_d (int (r1 mod 10000)) @ ''86,N,12121.''
     @ fmt_d (int (r2 mod 10000)) @ ''64,E,250311,072809.3,44.1,'' @ fmt_d (int (r3 mod 20))
     @ ''.3,'' @ fmt_d (int (r4 mod 360)) @ CRLF"

definition case_REQUEST_GPS_INFO :: "nat \<times> nat \<times> nat \<times> nat \<Rightarrow> sim \<Rightarrow> sim outcome" where
  "case_REQUEST_GPS_INFO rands u =
     (case rands of (r1, r2, r3, r4) \<Rightarrow>
      let u = upd_sim (\<lambda>s. s\<lparr>postData := zeros 64\<rparr>) u in
      seq (poke (buffRecv (app u)) 0 (gps_sentence r1 r2 r3 r4 @ [NUL])) (\<lambda>b.
      let u = upd_sim (\<lambda>s. s\<lparr>buffRecv := b, pendingATCommandParse := True\<rparr>) u in
      at_answer (\<lambda>msg u.
        seq (updateGPSInfo msg (GPSInfo (app u))) (\<lambda>g.
        let u = upd_sim (\<lambda>s. s\<lparr>GPSInfo := g\<rparr>) u in
        seq (poke (postData (app u)) 0 (GPSInfoToString (GPSInfo (app u)) @ [NUL])) (\<lambda>p.
        Inr (upd_sim (\<lambda>s. s\<lparr>postData := p, sim_state := SIMCOM_STATE_HTTP_POST_DATA\<rparr>) u)))) u))"

text \<open>The command is formatted into a local array of twenty characters.\<close>

definition post_cmd :: "string \<Rightarrow> string" where
  "post_cmd p = AT_HTTP_INPUT_POST_DATA @ fmt_d (int (length (cstr p))) @ '',10'' @ [CR]"

definition post_answer :: "usb_host \<Rightarrow> string \<Rightarrow> sim \<Rightarrow> sim outcome" where
  "post_answer h msg u =
     Inr (if msg = CRLF @ ''DOWNLOAD'' @ CRLF then
            if ATwrite (flags (app u)) then send_AT h (cstr (postData (app u))) u else u
          else if msg = msg_OK then goto SIMCOM_STATE_HTTP_SEND_POST_REQUEST u
          else if msg = msg_ERROR then goto SIMCOM_STATE_ERROR u
          else u)"

definition case_HTTP_POST_DATA :: "usb_host \<Rightarrow> sim \<Rightarrow> sim outcome" where
  "case_HTTP_POST_DATA h u =
     seq (poke (zeros 20) 0 (post_cmd (postData (app u)) @ [NUL])) (\<lambda>postCmd.
     command_state h (cstr postCmd) (post_answer h) u)"

definition case_HTTP_SEND_POST_REQUEST :: "usb_host \<Rightarrow> sim \<Rightarrow> sim outcome" where
  "case_HTTP_SEND_POST_REQUEST h =
     command_state h AT_HTTP_SEND_POST_REQUEST
       (ok_or_error msg_OK SIMCOM_STATE_HTTP_WAIT_POST_RESPONSE)"

definition action_answer :: "string \<Rightarrow> sim \<Rightarrow> sim outcome" where
  "action_answer msg u =
     Inr (if take 16 msg = CRLF @ ''+HTTPACTION: 1'' then goto SIMCOM_STATE_HTTP_STOP_SERVICE u
          else if msg = msg_ERROR then goto SIMCOM_STATE_ERROR u else u)"

definition case_HTTP_WAIT_POST_RESPONSE :: "usb_host \<Rightarrow> sim \<Rightarrow> sim outcome" where
  "case_HTTP_WAIT_POST_RESPONSE h u = at_answer action_answer (at_read h u)"

definition case_HTTP_READ_HEADER :: "usb_host \<Rightarrow> sim \<Rightarrow> sim outcome" where
  "case_HTTP_READ_HEADER h =
     command_state h AT_HTTP_READ_HEADER (ok_or_error msg_OK SIMCOM_STATE_HTTP_READ_RESPONSE)"

definition case_HTTP_READ_RESPONSE :: "usb_host \<Rightarrow> sim \<Rightarrow> sim outcome" where
  "case_HTTP_READ_RESPONSE h =
     command_state h AT_HTTP_READ_RESPONSE
       (ok_or_error (CRLF @ ''+HTTPREAD: 0'' @ CRLF) SIMCOM_STATE_HTTP_STOP_SERVICE)"

definition stop_answer :: "string \<Rightarrow> sim \<Rightarrow> sim outcome" where
  "stop_answer msg u =
     Inr (if msg = msg_OK then goto SIMCOM_STATE_READY (upd_sim (\<lambda>s. s\<lparr>sim_timer := 10000\<rparr>) u)
          else if msg = msg_ERROR then goto SIMCOM_STATE_ERROR u else u)"

definition case_HTTP_STOP_SERVICE :: "usb_host \<Rightarrow> sim \<Rightarrow> sim outcome" where
  "case_HTTP_STOP_SERVICE h = command_state h AT_HTTP_STOP_SERVICE stop_answer"

definition case_READY :: "sim \<Rightarrow> sim outcome" where
  "case_READY u =
     Inr (if sim_timer (app u) = 1
          then upd_sim (\<lambda>s. s\<lparr>sim_state := SIMCOM_STATE_HTTPS_INIT\<rparr>) u else u)"

text \<open>\<open>simcom_tasks\<close>; the states without a case (GNSS, GET requests) do nothing.\<close>

definition simcom_tasks :: "usb_host \<Rightarrow> nat \<times> nat \<times> nat \<times> nat \<Rightarrow> sim \<Rightarrow> sim outcome" where
  "simcom_tasks h rands u =
     (case sim_state (app u) of
        SIMCOM_STATE_WAITING_DRIVER_READY \<Rightarrow> case_WAITING_DRIVER_READY u
      | SIMCOM_STATE_NOT_READY \<Rightarrow> case_NOT_READY h u
      | SIMCOM_STATE_DISABLING_ECO \<Rightarrow> case_DISABLING_ECO h u
      | SIMCOM_STATE_SETTING_FULL_FUNCTIONALITY \<Rightarrow> case_SETTING_FULL_FUNCTIONALITY h u
      | SIMCOM_STATE_GETTING_SIM_PIN_STATUS \<Rightarrow> case_GETTING_SIM_PIN_STATUS h u
      | SIMCOM_STATE_GETTING_MOBILE_NETWORK_STATUS \<Rightarrow> case_GETTING_MOBILE_NETWORK_STATUS h u
      | SIMCOM_STATE_GETTING_GPRS_NETWORK_STATUS \<Rightarrow> case_GETTING_GPRS_NETWORK_STATUS h u
      | SIMCOM_STATE_GETTING_EPS_NETWORK_STATUS \<Rightarrow> case_GETTING_EPS_NETWORK_STATUS h u
      | SIMCOM_STATE_DEFINING_PDP_CONTEXT \<Rightarrow> case_DEFINING_PDP_CONTEXT h u
      | SIMCOM_STATE_ACTIVATING_PDP_CONTEXT \<Rightarrow> case_ACTIVATING_PDP_CONTEXT h u
      | SIMCOM_STATE_VERIFY_PDP_ADDRESS \<Rightarrow> case_VERIFY_PDP_ADDRESS h u
      | SIMCOM_STATE_HTTPS_INIT \<Rightarrow> case_HTTPS_INIT h u
      | SIMCOM_STATE_HTTPS_SET_URL \<Rightarrow> case_HTTPS_SET_URL h u
      | SIMCOM_STATE_HTTPS_SET_JSON_FORMAT \<Rightarrow> case_HTTPS_SET_JSON_FORMAT h u
      | SIMCOM_STATE_REQUEST_GPS_INFO \<Rightarrow> case_REQUEST_GPS_INFO rands u
      | SIMCOM_STATE_HTTP_POST_DATA \<Rightarrow> case_HTTP_POST_DATA h u
      | SIMCOM_STATE_HTTP_SEND_POST_REQUEST \<Rightarrow> case_HTTP_SEND_POST_REQUEST h u
      | SIMCOM_STATE_HTTP_WAIT_POST_RESPONSE \<Rightarrow> case_HTTP_WAIT_POST_RESPONSE h u
      | SIMCOM_STATE_HTTP_READ_HEADER \<Rightarrow> case_HTTP_READ_HEADER h u
      | SIMCOM_STATE_HTTP_READ_RESPONSE \<Rightarrow> case_HTTP_READ_RESPONSE h u
      | SIMCOM_STATE_HTTP_STOP_SERVICE \<Rightarrow> case_HTTP_STOP_SERVICE h u
      | SIMCOM_STATE_READY \<Rightarrow> case_READY u
      | _ \<Rightarrow> Inr u)"

section \<open>Parsing an answer\<close>

lemma scan_end_NUL:
  assumes "NUL \<notin> set s" "length s < sz" "i \<le> length s"
  shows "scan_end (s @ NUL # rest) sz i = Inr (length s)"
  using assms(3)
proof (induction "length s - i" arbitrary: i)
  case 0
  then show ?case by (simp add: scan_end.simps nth_append)
next
  case (Suc n)
  then have i: "i < length s" by linarith
  then have "s ! i \<noteq> NUL" using assms(1) by (metis nth_mem)
  then have "scan_end (s @ NUL # rest) sz i = scan_end (s @ NUL # rest) sz (i + 1)"
    using i assms(2) by (subst scan_end.simps) (simp add: nth_append)
  then show ?case using Suc i by simp
qed

lemma scan_end_full:
  assumes "NUL \<notin> set s" "i \<le> length s"
  shows "scan_end s (length s) i = Inl Out_Of_Bounds"
  using assms(2)
proof (induction "length s - i" arbitrary: i)
  case 0
  then show ?case by (simp add: scan_end.simps)
next
  case (Suc n)
  then have i: "i < length s" by linarith
  then have "s ! i \<noteq> NUL" using assms(1) by (metis nth_mem)
  then have "scan_end s (length s) i = scan_end s (length s) (i + 1)"
    using i by (subst scan_end.simps) simp
  then show ?case using Suc i by simp
qed

text \<open>What the parser accepts, as a predicate on the string in the buffer.\<close>

definition framed :: "string \<Rightarrow> bool" where
  "framed s \<longleftrightarrow> s \<noteq> [] \<and> take 2 s = CRLF \<and> drop (length s - 2) s = CRLF"

lemma framed_msg: "framed (CRLF @ m @ CRLF)"
proof -
  have "drop (length (CRLF @ m @ CRLF) - 2) ((CRLF @ m) @ CRLF) = CRLF" by simp
  then show ?thesis by (simp add: framed_def)
qed

lemma ATCommandParse_framed:
  assumes "NUL \<notin> set s" "length s < sz"
  shows "ATCommandParse (Some (s @ NUL # rest)) sz = Inr (framed s)"
proof (cases s)
  case Nil
  then show ?thesis by (simp add: ATCommandParse_def framed_def)
next
  case (Cons c0 s1)
  note scan = scan_end_NUL [OF assms, of 0 rest]
  have c0: "c0 \<noteq> NUL" using assms(1) Cons by auto
  show ?thesis
  proof (cases s1)
    case Nil
    with Cons c0 scan show ?thesis by (simp add: ATCommandParse_def framed_def)
  next
    case (Cons c1 s2)
    let ?i = "length s"
    have s: "s = c0 # c1 # s2" using \<open>s = c0 # s1\<close> Cons by simp
    have l: "2 \<le> ?i" using s by simp
    have "drop (?i - 2) s = [s ! (?i - 2), s ! (?i - 1)]"
      using l by (simp add: Cons_nth_drop_Suc [symmetric] Suc_diff_Suc numeral_2_eq_2)
    moreover have "(s @ NUL # rest) ! (?i - 2) = s ! (?i - 2)" "(s @ NUL # rest) ! (?i - 1) = s ! (?i - 1)"
    proof -
      have "?i - 2 < ?i" "?i - 1 < ?i" using l by linarith+
      then show "(s @ NUL # rest) ! (?i - 2) = s ! (?i - 2)" "(s @ NUL # rest) ! (?i - 1) = s ! (?i - 1)"
        by (simp_all only: nth_append if_True)
    qed
    moreover have "rd (s @ NUL # rest) 0 = Inr c0" "rd (s @ NUL # rest) 1 = Inr c1"
      using s by simp_all
    moreover have "take 2 s = [c0, c1]" using s by simp
    ultimately show ?thesis
      using c0 scan l s unfolding ATCommandParse_def framed_def
      by (simp only: option.case seq_Inr if_False) (auto simp: not_less)
  qed
qed

lemma cstr_split:
  assumes "NUL \<in> set buf" obtains rest where "buf = cstr buf @ NUL # rest"
proof -
  from assms obtain xs ys where "buf = xs @ NUL # ys" "NUL \<notin> set xs"
    by (meson split_list_first)
  then show ?thesis using that cstr_append_NUL [of xs ys] by metis
qed

text \<open>
  C35: On a terminated answer the parser says whether the text starts and ends with CR LF; it
  never reads outside the buffer.
\<close>

theorem ATCommandParse_spec:
  assumes "NUL \<in> set buf" "length buf = sz"
  shows "ATCommandParse (Some buf) sz = Inr (framed (cstr buf))"
proof -
  obtain rest where b: "buf = cstr buf @ NUL # rest" using cstr_split [OF assms(1)] .
  then have "length (cstr buf) < sz" using assms(2) by (metis length_append length_Cons less_add_Suc1 add_Suc_right)
  from ATCommandParse_framed [OF NUL_notin_cstr this, of rest] show ?thesis using b by metis
qed

theorem ATCommandParse_spec_witness:
  "ATCommandParse (Some (msg_OK @ zeros 506)) 512 = Inr True"
proof -
  have "cstr (msg_OK @ zeros 506) = msg_OK"
    by (rule cstr_append_zeros) (simp add: msg_OK_def)
  then show ?thesis
    by (subst ATCommandParse_spec) (simp_all add: zeros_def framed_def msg_OK_def)
qed

text \<open>
  When the modem fills the whole buffer without a NUL, the parser reads one character past
  its end: \<open>command[i]\<close> is read before \<open>i < size\<close> is tested.
\<close>

lemma ATCommandParse_overrun:
  assumes "NUL \<notin> set buf" "buf \<noteq> []"
  shows "ATCommandParse (Some buf) (length buf) = Inl Out_Of_Bounds"
proof -
  have "buf ! 0 \<noteq> NUL" using assms by (metis length_greater_0_conv nth_mem)
  then show ?thesis
    using assms scan_end_full [OF assms(1), of 0] by (simp add: ATCommandParse_def)
qed

lemma ATCommandParse_overrun_witness:
  "ATCommandParse (Some (replicate 512 CHR ''A'')) 512 = Inl Out_Of_Bounds"
  using ATCommandParse_overrun [of "replicate 512 CHR ''A''"] by simp

section \<open>The position sentence\<close>

lemma gps_sentence_tokens:
  "gps_sentence r1 r2 r3 r4 =
     (CRLF @ ''+CGPSINFO'') @ CHR '':'' # ''3113'' @ CHR ''.'' # (dec (r1 mod 10000) @ ''86'') @ CHR '','' #
     ''N'' @ CHR '','' # ''12121'' @ CHR ''.'' # (dec (r2 mod 10000) @ ''64'') @ CHR '','' #
     ''E'' @ CHR '','' # ''250311'' @ CHR '','' # ''072809.3'' @ CHR '','' # ''44.1'' @ CHR '','' #
     dec (r3 mod 20) @ CHR ''.'' # ''3'' @ CHR '','' # dec (r4 mod 360) @ CRLF"
  by (simp only: gps_sentence_def fmt_d_nat) simp

lemma atoi_dec_pair:
  assumes "is_digit a" "is_digit b"
  shows "atoi (dec n @ [a, b]) = int n * 100 + int (digit_val a) * 10 + int (digit_val b)"
proof -
  have "atoi (dec n @ [a, b]) = int (digits_val 0 (dec n @ [a, b]))"
    using assms dec_digits by (intro atoi_digits) auto
  then show ?thesis by (simp add: digits_val_append)
qed

lemma next_tok_token:
  assumes "t \<noteq> []" "d \<notin> set t" shows "next_tok [d] (t @ d # rest) = Inr (t, rest)"
proof -
  have "strtok [d] (t @ d # rest) = (Some t, rest)" using assms by (intro strtok_token) auto
  then show ?thesis by (simp add: next_tok_def)
qed

lemma next_tok_last:
  assumes "t \<noteq> []" "d \<notin> set t" shows "next_tok [d] t = Inr (t, [])"
proof -
  have "strtok [d] t = (Some t, [])" using assms by (intro strtok_last) auto
  then show ?thesis by (simp add: next_tok_def)
qed

text \<open>
  Reading back the made-up sentence recovers the numbers it was built from: latitude and
  longitude in ten-thousandths of a minute (the two digits appended by the format string are
  cut off), speed in tenths, and the course.
\<close>

lemma updateGPSInfo_sentence:
  "updateGPSInfo (gps_sentence r1 r2 r3 r4) g =
     Inr (g\<lparr>gps_lat := word_of_nat (31130000 + r1 mod 10000),
            gps_lon := word_of_nat (121210000 + r2 mod 10000),
            gps_speed := word_of_nat ((r3 mod 20) * 10 + 3),
            gps_course := word_of_nat (r4 mod 360)\<rparr>)"
proof -
  have d: "is_digit CHR ''8''" "is_digit CHR ''6''" "is_digit CHR ''4''"
    "digit_val CHR ''8'' = 8" "digit_val CHR ''6'' = 6" "digit_val CHR ''4'' = 4"
    by (simp_all add: is_digit_def digit_val_def)
  have a: "atoi ''3113'' = 3113" "atoi ''12121'' = 12121" "atoi ''3'' = 3"
    by (simp_all add: atoi_digits is_digit_def digit_val_def)
  have a1: "atoi (dec n @ ''86'') sdiv 100 = int n" "atoi (dec n @ ''64'') sdiv 100 = int n" for n
    using d by (simp_all add: atoi_dec_pair sdiv_nonneg)
  have a2: "atoi (dec n @ CRLF) = int n" for n
    by (rule atoi_dec_append) simp
  have t0: "strtok '':'' ((CRLF @ ''+CGPSINFO'') @ CHR '':'' # r) = (Some (CRLF @ ''+CGPSINFO''), r)" for r
    by (rule strtok_token) simp_all
  have t1: "next_tok ''.'' (''3113'' @ CHR ''.'' # r) = Inr (''3113'', r)"
    "next_tok '','' (''N'' @ CHR '','' # r) = Inr (''N'', r)"
    "next_tok ''.'' (''12121'' @ CHR ''.'' # r) = Inr (''12121'', r)"
    "next_tok '','' (''E'' @ CHR '','' # r) = Inr (''E'', r)"
    "next_tok '','' (''3'' @ CHR '','' # r) = Inr (''3'', r)" for r
    by (rule next_tok_token; simp)+
  have t2: "strtok '','' (''250311'' @ CHR '','' # r) = (Some ''250311'', r)"
    "strtok '','' (''072809.3'' @ CHR '','' # r) = (Some ''072809.3'', r)"
    "strtok '','' (''44.1'' @ CHR '','' # r) = (Some ''44.1'', r)" for r
    by (rule strtok_token; simp)+
  have t3: "next_tok '','' ((dec n @ ''86'') @ CHR '','' # r) = Inr (dec n @ ''86'', r)"
    "next_tok '','' ((dec n @ ''64'') @ CHR '','' # r) = Inr (dec n @ ''64'', r)"
    "next_tok ''.'' (dec n @ CHR ''.'' # r) = Inr (dec n, r)" for n r
    by (rule next_tok_token; simp)+
  have t4: "next_tok '','' (dec n @ CRLF) = Inr (dec n @ CRLF, [])" for n
    by (rule next_tok_last; simp)
  have h: "hd ''N'' \<noteq> CHR ''S''" "hd ''E'' \<noteq> CHR ''W''" by simp_all
  have i: "word_of_int (3113 * 10000) + word_of_int (int a) = (word_of_nat (31130000 + a) :: u32)"
    "word_of_int (12121 * 10000) + word_of_int (int a) = (word_of_nat (121210000 + a) :: u32)"
    "word_of_int (int b * 10) + word_of_int 3 = (word_of_nat (b * 10 + 3) :: u8)" for a b
    by simp_all
  show ?thesis
    unfolding updateGPSInfo_def gps_sentence_tokens Let_def
    by (simp only: t0 t1 t2 t3 t4 prod.case seq_Inr a a1 a2 atoi_dec h if_False
          SIMCOM_LAST_GPS_POSSITION.simps i) simp
qed

lemma fmt_0d_wide: "0 \<le> m \<Longrightarrow> 10 ^ w \<le> 10 * m \<Longrightarrow> 0 < w \<Longrightarrow> fmt_0d w m = dec (nat m)"
proof -
  assume m: "0 \<le> m" "10 ^ w \<le> 10 * m" "0 < w"
  then obtain k where k: "w = Suc k" by (cases w) auto
  with m have "(10 :: int) ^ k \<le> m" by simp
  then have "10 ^ k \<le> nat m" using m(1) by (simp add: nat_le_iff le_nat_iff)
  from length_dec_ge [OF this] k have "w \<le> length (dec (nat m))" by simp
  with m(1) show ?thesis by (simp add: fmt_0d_def)
qed

lemma sint_word_of_nat_32: "n < 2 ^ 31 \<Longrightarrow> sint (word_of_nat n :: u32) = int n"
  by (simp add: signed_of_nat signed_take_bit_int_eq_self)

definition json_position :: "string \<Rightarrow> string \<Rightarrow> string \<Rightarrow> string \<Rightarrow> string" where
  "json_position la lo ve di =
     ''{'' @ [DQUOTE] @ ''lat'' @ [DQUOTE] @ '':'' @ la @ '','' @ [DQUOTE] @ ''lon'' @ [DQUOTE] @ '':'' @ lo
     @ '','' @ [DQUOTE] @ ''vel'' @ [DQUOTE] @ '':'' @ ve @ '','' @ [DQUOTE] @ ''dir'' @ [DQUOTE] @ '':'' @ di @ ''}''"

lemma dec_31: "dec 31 = ''31''" "dec 121 = ''121''"
  by simp_all

lemma GPSInfoToString_sentence:
  assumes "a < 10000" "b < 10000" "c < 20" "d < 360"
  shows "GPSInfoToString (g\<lparr>gps_lat := word_of_nat (31130000 + a), gps_lon := word_of_nat (121210000 + b),
            gps_speed := word_of_nat (c * 10 + 3), gps_course := word_of_nat d\<rparr>) =
     json_position (''31.'' @ dec (130000 + a)) (''121.'' @ dec (210000 + b)) (dec c @ ''.3'') (dec d)"
proof -
  have l: "sint (word_of_nat (31130000 + a) :: u32) = int (31130000 + a)"
    "sint (word_of_nat (121210000 + b) :: u32) = int (121210000 + b)"
    using assms by (intro sint_word_of_nat_32; simp)+
  have s: "uint (word_of_nat (c * 10 + 3) :: u8) = int (c * 10 + 3)" "uint (word_of_nat d :: u16) = int d"
    using assms by (simp_all only: unsigned_of_nat) (simp_all add: take_bit_eq_mod)
  have q1: "int (31130000 + a) sdiv 1000000 = int 31" "int (31130000 + a) smod 1000000 = int (130000 + a)"
    by (rule sdiv_smod_split [where d = 31 and k = 1000000 and m = "130000 + a"]; use assms in simp)+
  have q2: "int (121210000 + b) sdiv 1000000 = int 121" "int (121210000 + b) smod 1000000 = int (210000 + b)"
    by (rule sdiv_smod_split [where d = 121 and k = 1000000 and m = "210000 + b"]; use assms in simp)+
  have q3: "int (c * 10 + 3) sdiv 10 = int c" "int (c * 10 + 3) smod 10 = int 3"
    by (rule sdiv_smod_split [where d = c and k = 10 and m = 3]; simp)+
  have f: "fmt_0d 4 (int (130000 + a)) = dec (130000 + a)" "fmt_0d 4 (int (210000 + b)) = dec (210000 + b)"
    using fmt_0d_wide [of "int (130000 + a)" 4] fmt_0d_wide [of "int (210000 + b)" 4]
    by (simp_all only: nat_int) simp_all
  have f3: "fmt_0d 1 (int 3) = ''3''"
    by (simp add: fmt_0d_def)
  have r: "gps_lat (g\<lparr>gps_lat := x, gps_lon := y, gps_speed := z, gps_course := w\<rparr>) = x"
    "gps_lon (g\<lparr>gps_lat := x, gps_lon := y, gps_speed := z, gps_course := w\<rparr>) = y"
    "gps_speed (g\<lparr>gps_lat := x, gps_lon := y, gps_speed := z, gps_course := w\<rparr>) = z"
    "gps_course (g\<lparr>gps_lat := x, gps_lon := y, gps_speed := z, gps_course := w\<rparr>) = w"
    for x y z w by simp_all
  show ?thesis
    unfolding GPSInfoToString_def json_position_def r l s q1 q2 q3 f f3 fmt_d_nat dec_31
    by simp
qed

lemma length_json_position:
  "length (json_position la lo ve di) = 29 + length la + length lo + length ve + length di"
  by (simp add: json_position_def)

lemma length_sentence_json:
  assumes "a < 10000" "b < 10000" "c < 20" "d < 360"
  shows "length (json_position (''31.'' @ dec (130000 + a)) (''121.'' @ dec (210000 + b))
           (dec c @ ''.3'') (dec d)) \<le> 55"
proof -
  have "length (dec (130000 + a)) \<le> 6" "length (dec (210000 + b)) \<le> 6" "length (dec c) \<le> 2"
    "length (dec d) \<le> 3"
    using assms by (intro length_dec_le; simp)+
  then show ?thesis by (simp add: length_json_position)
qed

lemma gps_sentence_props:
  "NUL \<notin> set (gps_sentence r1 r2 r3 r4)" "length (gps_sentence r1 r2 r3 r4) < 100"
  "framed (gps_sentence r1 r2 r3 r4)"
proof -
  show "NUL \<notin> set (gps_sentence r1 r2 r3 r4)" by (simp add: gps_sentence_def)
  have "length (dec (r1 mod 10000)) \<le> 4" "length (dec (r2 mod 10000)) \<le> 4"
    "length (dec (r3 mod 20)) \<le> 2" "length (dec (r4 mod 360)) \<le> 3"
    by (intro length_dec_le; simp; linarith?)+
  then show "length (gps_sentence r1 r2 r3 r4) < 100"
    by (simp add: gps_sentence_tokens)
  have "gps_sentence r1 r2 r3 r4 = CRLF @ (''+CGPSINFO:3113.'' @ fmt_d (int (r1 mod 10000))
     @ ''86,N,12121.'' @ fmt_d (int (r2 mod 10000)) @ ''64,E,250311,072809.3,44.1,''
     @ fmt_d (int (r3 mod 20)) @ ''.3,'' @ fmt_d (int (r4 mod 360))) @ CRLF"
    by (simp only: gps_sentence_def append_assoc)
  then show "framed (gps_sentence r1 r2 r3 r4)" by (simp only: framed_msg)
qed

lemma poke_0: "length s \<le> length buf \<Longrightarrow> poke buf 0 s = Inr (s @ drop (length s) buf)"
  by (simp add: poke_def)

definition sentence_position ::
  "nat \<Rightarrow> nat \<Rightarrow> nat \<Rightarrow> nat \<Rightarrow> SIMCOM_LAST_GPS_POSSITION \<Rightarrow> SIMCOM_LAST_GPS_POSSITION" where
  "sentence_position r1 r2 r3 r4 g = g\<lparr>gps_lat := word_of_nat (31130000 + r1 mod 10000),
     gps_lon := word_of_nat (121210000 + r2 mod 10000),
     gps_speed := word_of_nat ((r3 mod 20) * 10 + 3), gps_course := word_of_nat (r4 mod 360)\<rparr>"

definition sentence_json :: "nat \<Rightarrow> nat \<Rightarrow> nat \<Rightarrow> nat \<Rightarrow> string" where
  "sentence_json r1 r2 r3 r4 =
     json_position (''31.'' @ dec (130000 + r1 mod 10000)) (''121.'' @ dec (210000 + r2 mod 10000))
       (dec (r3 mod 20) @ ''.3'') (dec (r4 mod 360))"

lemma NUL_notin_sentence_json: "NUL \<notin> set (sentence_json r1 r2 r3 r4)"
  by (simp add: sentence_json_def json_position_def)

lemma length_sentence_json': "length (sentence_json r1 r2 r3 r4) \<le> 55"
  unfolding sentence_json_def by (rule length_sentence_json) simp_all

lemma GPSInfoToString_position:
  "GPSInfoToString (sentence_position r1 r2 r3 r4 g) = sentence_json r1 r2 r3 r4"
  unfolding sentence_position_def sentence_json_def by (rule GPSInfoToString_sentence) simp_all

lemma sentence_parsed:
  "updateGPSInfo (gps_sentence r1 r2 r3 r4) g = Inr (sentence_position r1 r2 r3 r4 g)"
  unfolding sentence_position_def by (rule updateGPSInfo_sentence)

lemma upd_sim_simps [simp]:
  "app (upd_sim f u) = f (app u)" "obj (upd_sim f u) = obj u" "calls (upd_sim f u) = calls u"
  "upd_sim f (upd_sim g u) = upd_sim (\<lambda>s. f (g s)) u"
  by (simp_all add: upd_sim_def)

lemma request_gps_posts:
  assumes "length (buffRecv (app u)) = 512"
  shows "case_REQUEST_GPS_INFO (r1, r2, r3, r4) u =
    Inr (upd_sim (\<lambda>s. s\<lparr>GPSInfo := sentence_position r1 r2 r3 r4 (GPSInfo s),
           postData := sentence_json r1 r2 r3 r4 @ zeros (64 - length (sentence_json r1 r2 r3 r4)),
           sim_state := SIMCOM_STATE_HTTP_POST_DATA, buffRecv := zeros 512,
           pendingATCommandParse := False\<rparr>) u)"
proof -
  let ?s = "gps_sentence r1 r2 r3 r4" and ?j = "sentence_json r1 r2 r3 r4"
  let ?b = "?s @ NUL # drop (Suc (length ?s)) (buffRecv (app u))"
  have p: "poke (buffRecv (app u)) 0 (?s @ [NUL]) = Inr ?b"
    using gps_sentence_props(2) [of r1 r2 r3 r4] assms by (simp add: poke_0)
  have a: "ATCommandParse (Some ?b) 512 = Inr True"
    using ATCommandParse_framed [of ?s 512] gps_sentence_props [of r1 r2 r3 r4] by simp
  have c: "cstr ?b = ?s" by (rule cstr_append_NUL) (rule gps_sentence_props)
  have q: "poke (zeros 64) 0 (?j @ [NUL]) = Inr (?j @ zeros (64 - length ?j))"
  proof -
    have "drop (Suc (length ?j)) (zeros 64) = zeros (63 - length ?j)"
      by (simp add: zeros_def)
    moreover have "NUL # zeros (63 - length ?j) = zeros (64 - length ?j)"
      using length_sentence_json' [of r1 r2 r3 r4]
      by (simp add: zeros_def replicate_Suc [symmetric] Suc_diff_le del: replicate_Suc)
    ultimately show ?thesis
      using length_sentence_json' [of r1 r2 r3 r4] by (simp add: poke_0)
  qed
  show ?thesis
    by (simp add: case_REQUEST_GPS_INFO_def p at_answer_def a c sentence_parsed Let_def
        GPSInfoToString_position q)
qed

text \<open>
  C34: Whatever the random numbers are, the position state succeeds: the sentence fits the
  receive buffer, is accepted by the parser, and the JSON text of the position it denotes is
  left, terminated, in the 64 bytes of \<open>postData\<close>; the state moves on to posting it.
\<close>

theorem request_gps_posts_position:
  assumes "length (buffRecv (app u)) = 512"
  shows "case_REQUEST_GPS_INFO (r1, r2, r3, r4) u =
    Inr (upd_sim (\<lambda>s. s\<lparr>GPSInfo := sentence_position r1 r2 r3 r4 (GPSInfo s),
           postData := sentence_json r1 r2 r3 r4 @ zeros (64 - length (sentence_json r1 r2 r3 r4)),
           sim_state := SIMCOM_STATE_HTTP_POST_DATA, buffRecv := zeros 512,
           pendingATCommandParse := False\<rparr>) u)"
  using assms by (rule request_gps_posts)

theorem request_gps_posts_position_witness:
  "\<exists>v. case_REQUEST_GPS_INFO (5, 10020, 7, 361) (usb_zero simcom_zero) = Inr v
     \<and> cstr (postData (app v)) = json_position ''31.130005'' ''121.210020'' ''7.3'' ''1''"
proof -
  have "length (buffRecv (app (usb_zero simcom_zero))) = 512"
    by (simp add: usb_zero_def simcom_zero_def)
  from request_gps_posts_position [OF this, of 5 10020 7 361]
  obtain v where v: "case_REQUEST_GPS_INFO (5, 10020, 7, 361) (usb_zero simcom_zero) = Inr v"
    "postData (app v) = sentence_json 5 10020 7 361 @ zeros (64 - length (sentence_json 5 10020 7 361))"
    by simp
  have "sentence_json 5 10020 7 361 = json_position ''31.130005'' ''121.210020'' ''7.3'' ''1''"
    by (simp add: sentence_json_def)
  with v cstr_append_zeros [OF NUL_notin_sentence_json] show ?thesis by metis
qed

text \<open>The command that announces the data fits its local array.\<close>

lemma post_cmd_props:
  assumes "length (cstr p) < 100"
  shows "length (post_cmd p) < 20" "NUL \<notin> set (post_cmd p)"
proof -
  have "length (dec (length (cstr p))) \<le> 2" using assms by (intro length_dec_le) simp_all
  then show "length (post_cmd p) < 20"
    by (simp add: post_cmd_def AT_HTTP_INPUT_POST_DATA_def)
  show "NUL \<notin> set (post_cmd p)"
    by (simp add: post_cmd_def AT_HTTP_INPUT_POST_DATA_def)
qed

section \<open>Limits of the position format\<close>

text \<open>
  The printed position is only right when the six fractional digits start with a non-zero
  one: with \<open>%04d\<close> a smaller remainder loses its leading zeros, so that 31.000123 degrees
  come out as 31.0123; and south of the equator the minus sign is printed twice.
\<close>

lemma position_format_defects:
  "take 14 (GPSInfoToString (g\<lparr>gps_lat := 31000123\<rparr>)) =
     ''{'' @ [DQUOTE] @ ''lat'' @ [DQUOTE] @ '':31.0123'' \<and>
   take 18 (GPSInfoToString (g\<lparr>gps_lat := - 31133343\<rparr>)) =
     ''{'' @ [DQUOTE] @ ''lat'' @ [DQUOTE] @ '':-31.-133343''"
proof -
  have s: "sint (31000123 :: u32) = 31000123" "sint (- 31133343 :: u32) = - 31133343"
    by simp_all
  have q: "(31000123 :: int) sdiv 1000000 = 31" "(31000123 :: int) smod 1000000 = 123"
    "(- 31133343 :: int) sdiv 1000000 = - 31" "(- 31133343 :: int) smod 1000000 = - 133343"
    by (simp_all add: signed_divide_int_def signed_modulo_int_def)
  have f: "fmt_d 31 = ''31''" "fmt_0d 4 123 = ''0123''" "fmt_d (- 31) = ''-31''"
    "fmt_0d 4 (- 133343) = ''-133343''"
    by (simp_all add: fmt_d_def fmt_0d_def)
  show ?thesis by (simp add: GPSInfoToString_def s q f)
qed

section \<open>Addresses\<close>

lemma byte_props:
  fixes b :: u32
  shows "uint (and b 0xFF) < 256" "0 \<le> uint (and b 0xFF)"
    "ucast (word_of_int (uint (and b 0xFF)) :: u8) = and b 0xFF"
proof -
  have m: "uint (and b 0xFF) = uint b mod 256"
    using take_bit_eq_mask [of 8 "uint b"] by (simp add: uint_and take_bit_eq_mod mask_eq_exp_minus_1)
  then show l: "uint (and b 0xFF) < 256" "0 \<le> uint (and b 0xFF)" by simp_all
  show "ucast (word_of_int (uint (and b 0xFF)) :: u8) = and b 0xFF"
  proof (rule bit_word_eqI)
    fix n assume n: "n < LENGTH(32)"
    have "bit (0xFF :: u32) n \<longleftrightarrow> n < 8"
      using bit_mask_iff [where 'a = u32, of 8 n] n by (simp add: mask_eq_exp_minus_1)
    then show "bit (ucast (word_of_int (uint (and b 0xFF)) :: u8) :: u32) n = bit (and b 0xFF) n"
      using n by (auto simp: bit_unsigned_iff bit_and_iff)
  qed
qed

lemma fmt_byte:
  fixes b :: u32
  defines "n \<equiv> nat (uint (and b 0xFF))"
  shows "fmt_d (uint (and b 0xFF)) = dec n" "length (dec n) \<le> 3" "atoi (dec n) = uint (and b 0xFF)"
proof -
  have "n < 256" using byte_props(1,2) [of b] unfolding n_def by linarith
  then show "length (dec n) \<le> 3" by (intro length_dec_le) simp_all
qed (use byte_props [of b] in \<open>simp_all add: n_def fmt_d_def\<close>)

text \<open>
  Reading an address that was printed by \<open>IPIntToString\<close> does not give it back: the four
  bytes are combined with \<open>|\<close> but never shifted, so every address is read as a value
  below 256.
\<close>

lemma IPStringToInt_ors_bytes:
  "IPStringToInt (IPIntToString ip) (of_nat (length (IPIntToString ip))) =
     Inr (or (or (or (and (drop_bit 24 ip) 0xFF) (and (drop_bit 16 ip) 0xFF))
                 (and (drop_bit 8 ip) 0xFF)) (and ip 0xFF))"
proof -
  let ?b = "\<lambda>x :: u32. and x 0xFF" and ?n = "\<lambda>x :: u32. nat (uint (and x 0xFF))"
  let ?d0 = "dec (?n (drop_bit 24 ip))" and ?d1 = "dec (?n (drop_bit 16 ip))"
    and ?d2 = "dec (?n (drop_bit 8 ip))" and ?d3 = "dec (?n ip)"
  have s: "IPIntToString ip = ?d0 @ CHR ''.'' # ?d1 @ CHR ''.'' # ?d2 @ CHR ''.'' # ?d3"
    by (simp add: IPIntToString_def fmt_byte)
  have "1 \<le> length ?d0" "1 \<le> length ?d1" "1 \<le> length ?d2" "1 \<le> length ?d3"
    by (simp_all add: Suc_le_eq)
  with fmt_byte(2) [of "drop_bit 24 ip"] fmt_byte(2) [of "drop_bit 16 ip"]
    fmt_byte(2) [of "drop_bit 8 ip"] fmt_byte(2) [of ip]
  have l: "7 \<le> length (IPIntToString ip)" "length (IPIntToString ip) \<le> 15"
    unfolding s by simp_all
  have sz: "\<not> (of_nat (length (IPIntToString ip)) < (7 :: u32) \<or> 15 < (of_nat (length (IPIntToString ip)) :: u32))"
    using l by (auto simp: word_less_nat_alt unat_of_nat take_bit_eq_mod)
  have t: "strtok ''.'' (dec n @ CHR ''.'' # r) = (Some (dec n), r)" for n r
    by (rule strtok_token) auto
  have t3: "strtok [CR] (dec n) = (Some (dec n), [])" for n
    by (rule strtok_last) auto
  show ?thesis
    unfolding IPStringToInt_def if_not_P [OF sz]
    unfolding s t t3 prod.case deref_simps seq_Inr Let_def fmt_byte(3) byte_props ..
qed

section \<open>Events and the timer\<close>

text \<open>
  A completion event sets the flag of its own channel, plus \<open>pendingATCommandParse\<close> for an
  AT read and \<open>pendingResponse\<close> for an AT write; it never changes the state, the buffers, the
  timer or the position.
\<close>

lemma simcomEventHandler_frame:
  assumes "simcomEventHandler e (Some d) c s = Inr t"
  shows "sim_state t = sim_state s \<and> sim_timer t = sim_timer s \<and> buffRecv t = buffRecv s
    \<and> postData t = postData s \<and> GPSInfo t = GPSInfo s
    \<and> (pendingATCommandParse t \<longleftrightarrow> pendingATCommandParse s \<or> e = USB_HOST_SIMCOM_EVENT_AT_READ_COMPLETE)
    \<and> (pendingResponse t \<longleftrightarrow> pendingResponse s \<or> e = USB_HOST_SIMCOM_EVENT_AT_WRITE_COMPLETE)
    \<and> (ATread (flags t) \<longleftrightarrow> ATread (flags s) \<or> e = USB_HOST_SIMCOM_EVENT_AT_READ_COMPLETE)
    \<and> (ATwrite (flags t) \<longleftrightarrow> ATwrite (flags s) \<or> e = USB_HOST_SIMCOM_EVENT_AT_WRITE_COMPLETE)
    \<and> (RNDISread (flags t) \<longleftrightarrow> RNDISread (flags s) \<or> e = USB_HOST_SIMCOM_EVENT_RNDIS_READ_COMPLETE)
    \<and> (ECMwrite (flags t) \<longleftrightarrow> ECMwrite (flags s) \<or> e = USB_HOST_SIMCOM_EVENT_ECM_WRITE_COMPLETE)
    \<and> (DIAGread (flags t) \<longleftrightarrow> DIAGread (flags s) \<or> e = USB_HOST_SIMCOM_EVENT_DIAG_READ_COMPLETE)"
  using assms by (cases e) (auto simp: simcomEventHandler_def upd_flags_def)

definition demo_transfer :: USB_HOST_SIMCOM_TRANSFER_COMPLETE_DATA where
  "demo_transfer = \<lparr>transferHandle = 1, tc_result = USB_HOST_RESULT_SUCCESS, tc_length = 6\<rparr>"

lemma simcomEventHandler_frame_witness:
  "\<exists>t. simcomEventHandler USB_HOST_SIMCOM_EVENT_AT_READ_COMPLETE (Some demo_transfer) 0 simcom_zero = Inr t
     \<and> pendingATCommandParse t \<and> \<not> pendingResponse t"
proof -
  obtain t where "simcomEventHandler USB_HOST_SIMCOM_EVENT_AT_READ_COMPLETE (Some demo_transfer) 0
      simcom_zero = Inr t"
    by (simp add: simcomEventHandler_def)
  then show ?thesis using simcomEventHandler_frame [of _ demo_transfer 0 simcom_zero t]
    by (auto simp: simcom_zero_def)
qed

text \<open>
  Detaching the device while the modem task's handler is registered dereferences NULL: the
  driver calls the handler with no event data and the handler copies it first.
\<close>

lemma detach_faults:
  assumes "eventHandler (obj u) = Some simcomEventHandler"
  shows "DeviceRelease_cb c u = Inl Null_Deref"
proof -
  have "eventHandler (obj (release_ecm (release_at (release_diag (release_rndis u)))))
      = Some simcomEventHandler"
    using assms by simp
  then show ?thesis
    by (simp add: DeviceRelease_cb_def notify_def simcomEventHandler_def)
qed

lemma detach_faults_witness:
  "DeviceRelease_cb 3 (snd (EventHandlerSet (Some simcomEventHandler) 0 (usb_zero simcom_zero)))
     = Inl Null_Deref"
  by (rule detach_faults) (simp add: EventHandlerSet_def)

lemma ticks_unat:
  "unat (sim_timer ((resendATCommandCB ^^ n) s)) =
     (if sim_timer s = 0 then 0 else max 1 (unat (sim_timer s) - n))"
proof (induction n)
  case 0
  have "sim_timer s = 0 \<or> 1 \<le> unat (sim_timer s)"
    by (simp add: Suc_le_eq unat_gt_0)
  then show ?case by (auto simp: max_def)
next
  case (Suc n)
  let ?t = "(resendATCommandCB ^^ n) s"
  have "unat (sim_timer (resendATCommandCB ?t)) =
      (if 1 < unat (sim_timer ?t) then unat (sim_timer ?t) - 1 else unat (sim_timer ?t))"
  proof (cases "1 < sim_timer ?t")
    case True
    then have "sim_timer ?t \<noteq> 0" by auto
    then have "unat (sim_timer ?t - 1) = unat (sim_timer ?t) - 1" by (rule unat_minus_one)
    with True show ?thesis by (simp add: resendATCommandCB_def word_less_nat_alt)
  next
    case False
    then show ?thesis by (simp add: resendATCommandCB_def word_less_nat_alt)
  qed
  moreover have "max 1 (x - Suc n) = (if 1 < max 1 (x - n) then max 1 (x - n) - 1 else max 1 (x - n))"
    for x :: nat by (simp add: max_def; linarith?)
  ultimately show ?case using Suc.IH by (cases "sim_timer s = 0") simp_all
qed

text \<open>
  The millisecond callback counts the timer down to one, where it stays until the task has
  seen it, and leaves a timer that is not running alone.
\<close>

lemma resendATCommandCB_ticks:
  "unat (sim_timer ((resendATCommandCB ^^ n) s)) =
     (if sim_timer s = 0 then 0 else max 1 (unat (sim_timer s) - n))"
  by (rule ticks_unat)

end
