(* ===== verification/Simcom_Session.thy ===== *)
theory Simcom_Session
  imports Simcom
begin

text \<open>
  Runs of the modem task: the task itself, the completion events of the USB driver, the data
  the modem delivers and the millisecond timer as the inputs of one machine; the exchange of a
  command and its answer as a lemma; and from it the registration sequence, the posting cycle
  and the discipline of the command channel.
\<close>

section \<open>The machine\<close>

datatype sim_input =
    Task nat nat nat nat
  | Write_Done
  | Read_Done string
  | Tick

text \<open>The host stack stores the received bytes in the buffer of the read before it reports it.\<close>

definition deliver :: "string \<Rightarrow> sim \<Rightarrow> sim outcome" where
  "deliver msg u =
     seq (poke (buffRecv (app u)) 0 msg) (\<lambda>b.
     InterfaceEventHandler (USB_HOST_DEVICE_INTERFACE_EVENT_TRANSFER_COMPLETE
         \<lparr>transferHandle = 1, tc_result = USB_HOST_RESULT_SUCCESS, tc_length = of_nat (length msg)\<rparr>)
       USB_HOST_SIMCOM_EVENT_AT_READ_COMPLETE (upd_sim (\<lambda>s. s\<lparr>buffRecv := b\<rparr>) u))"

fun sim_step :: "usb_host \<Rightarrow> sim_input \<Rightarrow> sim \<Rightarrow> sim outcome" where
  "sim_step h (Task r1 r2 r3 r4) u = simcom_tasks h (r1, r2, r3, r4) u"
| "sim_step h Write_Done u =
     InterfaceEventHandler (USB_HOST_DEVICE_INTERFACE_EVENT_TRANSFER_COMPLETE demo_transfer)
       USB_HOST_SIMCOM_EVENT_AT_WRITE_COMPLETE u"
| "sim_step h (Read_Done msg) u = deliver msg u"
| "sim_step h Tick u = Inr (upd_sim resendATCommandCB u)"

text \<open>The texts handed to the host stack on the AT channel, in order.\<close>

fun sent_of :: "host_call \<Rightarrow> string list" where
  "sent_of (DeviceTransfer p (Some d) n USB_HOST_SIMCOM_EVENT_AT_WRITE_COMPLETE) = [d]"
| "sent_of _ = []"

definition sent :: "'a usb \<Rightarrow> string list" where
  "sent u = concat (map sent_of (calls u))"

text \<open>A host stack that accepts every transfer.\<close>

definition accepting :: "usb_host \<Rightarrow> bool" where
  "accepting h \<longleftrightarrow> (\<forall>p d n e. device_transfer h p d n e = USB_HOST_RESULT_SUCCESS)"

text \<open>The driver is up and reports to the modem task.\<close>

definition up :: "sim \<Rightarrow> bool" where
  "up u \<longleftrightarrow> IsInReadyState u \<and> eventHandler (obj u) = Some simcomEventHandler"

text \<open>What the exchange depends on: the write channel, the pending marks, the buffer.\<close>

definition view :: "sim \<Rightarrow> SIMCOM_STATE \<times> bool \<times> bool \<times> bool \<times> string" where
  "view u = (sim_state (app u), ATwrite (flags (app u)), pendingResponse (app u),
             pendingATCommandParse (app u), buffRecv (app u))"

text \<open>Ready to send the command of state \<open>st\<close>.\<close>

definition idle :: "SIMCOM_STATE \<Rightarrow> sim \<Rightarrow> bool" where
  "idle st u \<longleftrightarrow> up u \<and> view u = (st, True, False, False, zeros 512)"

section \<open>Effects of the blocks\<close>

lemma up_upd_sim [simp]: "up (upd_sim f u) = up u"
  by (simp add: up_def IsInReadyState_def)

lemma sent_upd_sim [simp]: "sent (upd_sim f u) = sent u"
  by (simp add: sent_def)

lemma send_AT_effect:
  assumes "accepting h" "up u"
  shows "up (send_AT h cmd u)" "sent (send_AT h cmd u) = sent u @ [cmd]"
    "app (send_AT h cmd u) = upd_flags (\<lambda>f. f\<lparr>ATwrite := False\<rparr>) (app u)"
  using assms
  by (simp_all add: send_AT_def AT_Write_def transfer_def up_def IsInReadyState_def accepting_def sent_def)

lemma at_read_effect:
  assumes "up u"
  shows "up (at_read h u)" "sent (at_read h u) = sent u" "view (at_read h u) = view u"
    "postData (app (at_read h u)) = postData (app u)" "sim_timer (app (at_read h u)) = sim_timer (app u)"
    "GPSInfo (app (at_read h u)) = GPSInfo (app u)"
  using assms
  by (auto simp: at_read_def AT_Read_def transfer_def up_def IsInReadyState_def sent_def view_def
      upd_flags_def split: if_splits)

text \<open>The two values the posting cycle carries along.\<close>

definition carried :: "sim \<Rightarrow> string \<times> u32" where
  "carried u = (postData (app u), sim_timer (app u))"

lemma at_write_idle:
  assumes "accepting h" "up u" "view u = (st, True, False, pp, b)"
  shows "up (at_write h cmd u)" "sent (at_write h cmd u) = sent u @ [cmd]"
    "view (at_write h cmd u) = (st, False, False, pp, b)" "carried (at_write h cmd u) = carried u"
  using assms send_AT_effect [OF assms(1,2), of cmd]
  by (simp_all add: at_write_def view_def upd_flags_def carried_def)

lemma at_write_waiting:
  assumes "view u = (st, w, True, pp, b)"
  shows "at_write h cmd u = u"
  using assms by (simp add: at_write_def view_def)

lemma carried_at_read: "up u \<Longrightarrow> carried (at_read h u) = carried u"
  by (simp add: carried_def at_read_effect)

lemma at_answer_none: "view u = (st, w, pr, False, b) \<Longrightarrow> at_answer act u = Inr u"
  by (simp add: at_answer_def view_def)

lemma at_answer_msg:
  assumes "view u = (st, w, pr, True, msg @ zeros (512 - length msg))"
    "framed msg" "NUL \<notin> set msg" "length msg < 512"
  shows "at_answer act u =
    seq (act msg u) (\<lambda>u. Inr (upd_sim (\<lambda>s. s\<lparr>buffRecv := zeros 512, pendingATCommandParse := False\<rparr>) u))"
proof -
  have z: "zeros (512 - length msg) = NUL # zeros (511 - length msg)"
    using assms(4) by (simp add: zeros_def replicate_Suc [symmetric] Suc_diff_le del: replicate_Suc)
  have b: "buffRecv (app u) = msg @ NUL # zeros (511 - length msg)" "pendingATCommandParse (app u)"
    using assms(1) z by (simp_all add: view_def)
  have "ATCommandParse (Some (msg @ NUL # zeros (511 - length msg))) 512 = Inr True"
    using ATCommandParse_framed [OF assms(3,4)] assms(2) by simp
  with b show ?thesis by (simp add: at_answer_def cstr_append_NUL [OF assms(3)])
qed

lemma Write_Done_effect:
  assumes "up u" "view u = (st, w, pr, pp, b)"
  shows "\<exists>v. sim_step h Write_Done u = Inr v \<and> up v \<and> sent v = sent u
    \<and> view v = (st, True, True, pp, b) \<and> carried v = carried u"
  using assms
  by (auto simp: up_def notify_def simcomEventHandler_def view_def upd_flags_def sent_def carried_def
      IsInReadyState_def)

lemma deliver_effect:
  assumes "up u" "view u = (st, w, pr, pp, zeros 512)" "length msg < 512"
  shows "\<exists>v. sim_step h (Read_Done msg) u = Inr v \<and> up v \<and> sent v = sent u
    \<and> view v = (st, w, pr, True, msg @ zeros (512 - length msg)) \<and> carried v = carried u"
proof -
  have "poke (zeros 512) 0 msg = Inr (msg @ zeros (512 - length msg))"
    using assms(3) by (simp add: poke_def zeros_def)
  then show ?thesis
    using assms by (auto simp: deliver_def up_def notify_def simcomEventHandler_def view_def
        upd_flags_def sent_def carried_def IsInReadyState_def)
qed
section \<open>One command and its answer\<close>

definition exch :: "string \<Rightarrow> sim_input list" where
  "exch msg = [Task 0 0 0 0, Write_Done, Read_Done msg, Task 0 0 0 0]"

lemma answer_goto:
  assumes "up u" "view u = (st, w, pr, True, msg @ zeros (512 - length msg))"
    "framed msg" "NUL \<notin> set msg" "length msg < 512"
    "act msg u = Inr (goto next (upd_sim (sim_timer_update f) u))"
  shows "\<exists>v. at_answer act u = Inr v \<and> up v \<and> sent v = sent u
    \<and> view v = (next, w, False, False, zeros 512) \<and> carried v = apsnd f (carried u)"
  using assms(1,2,6) unfolding at_answer_msg [OF assms(2-5)]
  by (auto simp: goto_def view_def carried_def)

lemma answer_stay:
  assumes "up u" "view u = (st, w, pr, True, msg @ zeros (512 - length msg))"
    "framed msg" "NUL \<notin> set msg" "length msg < 512" "act msg u = Inr u"
  shows "\<exists>v. at_answer act u = Inr v \<and> up v \<and> sent v = sent u
    \<and> view v = (st, w, pr, False, zeros 512) \<and> carried v = carried u"
  using assms(1,2,6) unfolding at_answer_msg [OF assms(2-5)]
  by (auto simp: view_def carried_def)

text \<open>A first call of a command state: the command goes out and nothing is parsed.\<close>

lemma command_state_sends:
  assumes "accepting h" "idle st u"
  shows "\<exists>v. command_state h cmd act u = Inr v \<and> up v \<and> sent v = sent u @ [cmd]
    \<and> view v = (st, False, False, False, zeros 512) \<and> carried v = carried u"
proof -
  have u: "up u" "view u = (st, True, False, False, zeros 512)" using assms(2) by (simp_all add: idle_def)
  note w = at_write_idle [OF assms(1) u, of cmd]
  have "view (at_read h (at_write h cmd u)) = (st, False, False, False, zeros 512)"
    using w at_read_effect by simp
  from at_answer_none [OF this, of act] show ?thesis
    using w at_read_effect carried_at_read by (simp add: command_state_def)
qed

text \<open>A later call, when the command is written and the answer is there.\<close>

lemma command_state_answer:
  assumes "up u" "view u = (st, True, True, True, msg @ zeros (512 - length msg))"
    "framed msg" "NUL \<notin> set msg" "length msg < 512"
    "\<And>u. act msg u = Inr (goto next (upd_sim (sim_timer_update f) u))"
  shows "\<exists>v. command_state h cmd act u = Inr v \<and> idle next v \<and> sent v = sent u
    \<and> carried v = apsnd f (carried u)"
proof -
  have "view (at_read h u) = (st, True, True, True, msg @ zeros (512 - length msg))"
    using assms(1,2) at_read_effect by simp
  from answer_goto [where act = act, OF at_read_effect(1) [OF assms(1)] this assms(3-5) assms(6)] show ?thesis
    using at_write_waiting [OF assms(2)] at_read_effect(2) [OF assms(1)] carried_at_read [OF assms(1)]
    by (auto simp: command_state_def idle_def)
qed

lemma exchange:
  assumes "accepting h" "idle st u"
    and "\<And>r u. sim_state (app u) = st \<Longrightarrow> simcom_tasks h r u = command_state h cmd act u"
    and "framed msg" "NUL \<notin> set msg" "length msg < 512"
    and "\<And>u. act msg u = Inr (goto next (upd_sim (sim_timer_update f) u))"
  shows "\<exists>v. run (sim_step h) (exch msg) u = Inr v \<and> idle next v \<and> sent v = sent u @ [cmd]
    \<and> carried v = apsnd f (carried u)"
proof -
  have st: "simcom_tasks h r v = command_state h cmd act v" if "view v = (st, w, pr, pp, b)" for v r w pr pp b
    using that by (intro assms(3)) (simp add: view_def)
  obtain u1 where 1: "command_state h cmd act u = Inr u1" "up u1" "sent u1 = sent u @ [cmd]"
      "view u1 = (st, False, False, False, zeros 512)" "carried u1 = carried u"
    using command_state_sends [OF assms(1,2)] by blast
  obtain u2 where 2: "sim_step h Write_Done u1 = Inr u2" "up u2" "sent u2 = sent u1"
      "view u2 = (st, True, True, False, zeros 512)" "carried u2 = carried u1"
    using Write_Done_effect [OF 1(2,4)] by blast
  obtain u3 where 3: "sim_step h (Read_Done msg) u2 = Inr u3" "up u3" "sent u3 = sent u2"
      "view u3 = (st, True, True, True, msg @ zeros (512 - length msg))" "carried u3 = carried u2"
    using deliver_effect [OF 2(2,4) assms(6)] by blast
  obtain v where v: "command_state h cmd act u3 = Inr v" "idle next v" "sent v = sent u3"
      "carried v = apsnd f (carried u3)"
    using command_state_answer [where act = act, OF 3(2,4) assms(4-6) assms(7)] by blast
  have "simcom_tasks h (0, 0, 0, 0) u = Inr u1"
    using st [of u True False False "zeros 512"] assms(2) 1(1) by (simp add: idle_def)
  moreover have "simcom_tasks h (0, 0, 0, 0) u3 = Inr v"
    using st [OF 3(4)] v(1) by simp
  ultimately have "run (sim_step h) (exch msg) u = Inr v"
    using 2(1) 3(1) by (simp only: exch_def run.simps sim_step.simps(1) seq_Inr)
  with v 1 2 3 show ?thesis by simp
qed

lemma upd_timer_id [simp]: "upd_sim (sim_timer_update id) u = u"
  by (simp add: upd_sim_def)

lemma msg_OK_props: "framed msg_OK" "NUL \<notin> set msg_OK" "length msg_OK < 512"
  using framed_msg [of "''OK''"] by (simp_all add: msg_OK_def)

lemma msg_OK_neq [simp]:
  "msg_OK \<noteq> msg_ERROR" "msg_ERROR \<noteq> msg_OK" "take 11 msg_OK \<noteq> CRLF @ ''+CGPADDR:''"
  "msg_OK \<noteq> CRLF @ ''DOWNLOAD'' @ CRLF" "CRLF @ ''DOWNLOAD'' @ CRLF \<noteq> msg_OK"
  by (simp_all add: msg_OK_def msg_ERROR_def)

lemma exchange_OK:
  assumes "accepting h" "idle st u"
    and "\<And>r u. sim_state (app u) = st \<Longrightarrow> simcom_tasks h r u = command_state h cmd act u"
    and "\<And>u. act msg_OK u = Inr (goto next u)"
  shows "\<exists>v. run (sim_step h) (exch msg_OK) u = Inr v \<and> idle next v \<and> sent v = sent u @ [cmd]
    \<and> carried v = carried u"
proof -
  have "act msg_OK u = Inr (goto next (upd_sim (sim_timer_update id) u))" for u
    by (simp only: upd_timer_id assms(4))
  from exchange [where act = act, OF assms(1-3) msg_OK_props this] show ?thesis by simp
qed

lemmas case_defs =
  case_DISABLING_ECO_def case_SETTING_FULL_FUNCTIONALITY_def case_GETTING_SIM_PIN_STATUS_def
  case_GETTING_MOBILE_NETWORK_STATUS_def case_GETTING_GPRS_NETWORK_STATUS_def
  case_GETTING_EPS_NETWORK_STATUS_def case_DEFINING_PDP_CONTEXT_def case_ACTIVATING_PDP_CONTEXT_def
  case_VERIFY_PDP_ADDRESS_def case_HTTPS_INIT_def case_HTTPS_SET_URL_def
  case_HTTPS_SET_JSON_FORMAT_def case_HTTP_SEND_POST_REQUEST_def case_HTTP_STOP_SERVICE_def

text \<open>The states that an OK leads through, with the command of each.\<close>

definition ok_path :: "(SIMCOM_STATE \<times> string \<times> SIMCOM_STATE) list" where
  "ok_path =
    [(SIMCOM_STATE_DISABLING_ECO, AT_DISABLE_ECO, SIMCOM_STATE_SETTING_FULL_FUNCTIONALITY),
     (SIMCOM_STATE_SETTING_FULL_FUNCTIONALITY, AT_SET_FULL_FUNCTIONALITY,
        SIMCOM_STATE_GETTING_SIM_PIN_STATUS),
     (SIMCOM_STATE_GETTING_SIM_PIN_STATUS, AT_SIM_PIN_STATUS,
        SIMCOM_STATE_GETTING_MOBILE_NETWORK_STATUS),
     (SIMCOM_STATE_GETTING_MOBILE_NETWORK_STATUS, AT_MOBILE_NETWORK_STATUS,
        SIMCOM_STATE_GETTING_GPRS_NETWORK_STATUS),
     (SIMCOM_STATE_GETTING_GPRS_NETWORK_STATUS, AT_GPRS_NETWORK_STATUS,
        SIMCOM_STATE_GETTING_EPS_NETWORK_STATUS),
     (SIMCOM_STATE_GETTING_EPS_NETWORK_STATUS, AT_EPS_NETWORK_STATUS,
        SIMCOM_STATE_DEFINING_PDP_CONTEXT),
     (SIMCOM_STATE_DEFINING_PDP_CONTEXT, AT_DEFINE_PDP_CONTEXT, SIMCOM_STATE_ACTIVATING_PDP_CONTEXT),
     (SIMCOM_STATE_ACTIVATING_PDP_CONTEXT, AT_ACTIVATE_PDP_CONTEXT, SIMCOM_STATE_VERIFY_PDP_ADDRESS),
     (SIMCOM_STATE_VERIFY_PDP_ADDRESS, AT_VERIFY_PDP_ADDRESS, SIMCOM_STATE_HTTPS_INIT),
     (SIMCOM_STATE_HTTPS_INIT, AT_HTTPS_INIT, SIMCOM_STATE_HTTPS_SET_URL),
     (SIMCOM_STATE_HTTPS_SET_URL, AT_HTTPS_SET_URL, SIMCOM_STATE_HTTPS_SET_JSON_FORMAT),
     (SIMCOM_STATE_HTTPS_SET_JSON_FORMAT, AT_HTTP_SET_JSON_FORMAT, SIMCOM_STATE_REQUEST_GPS_INFO),
     (SIMCOM_STATE_HTTP_SEND_POST_REQUEST, AT_HTTP_SEND_POST_REQUEST,
        SIMCOM_STATE_HTTP_WAIT_POST_RESPONSE)]"

lemma ok_path_step:
  assumes "accepting h" "idle st u" "(st, cmd, next) \<in> set ok_path"
  shows "\<exists>v. run (sim_step h) (exch msg_OK) u = Inr v \<and> idle next v \<and> sent v = sent u @ [cmd]
    \<and> carried v = carried u"
proof -
  have "\<exists>act. (\<forall>r u. sim_state (app u) = st \<longrightarrow> simcom_tasks h r u = command_state h cmd act u)
      \<and> (\<forall>u. act msg_OK u = Inr (goto next u))"
  proof (cases "st \<in> {SIMCOM_STATE_GETTING_EPS_NETWORK_STATUS, SIMCOM_STATE_VERIFY_PDP_ADDRESS}")
    case True
    then have "st = SIMCOM_STATE_GETTING_EPS_NETWORK_STATUS \<and> cmd = AT_EPS_NETWORK_STATUS
        \<and> next = SIMCOM_STATE_DEFINING_PDP_CONTEXT \<or>
      st = SIMCOM_STATE_VERIFY_PDP_ADDRESS \<and> cmd = AT_VERIFY_PDP_ADDRESS \<and> next = SIMCOM_STATE_HTTPS_INIT"
      using assms(3) unfolding ok_path_def by auto
    then show ?thesis
      by (auto simp: simcom_tasks_def eps_answer_def pdp_answer_def
          case_GETTING_EPS_NETWORK_STATUS_def case_VERIFY_PDP_ADDRESS_def
          intro: exI [of _ eps_answer] exI [of _ pdp_answer])
  next
    case False
    have "\<forall>r u. sim_state (app u) = st \<longrightarrow> simcom_tasks h r u = command_state h cmd (ok_or_error msg_OK next) u"
      using assms(3) False unfolding ok_path_def by (auto simp: simcom_tasks_def case_defs)
    moreover have "\<forall>u. ok_or_error msg_OK next msg_OK u = Inr (goto next u)"
      by (simp add: ok_or_error_def)
    ultimately show ?thesis by blast
  qed
  then show ?thesis using exchange_OK [OF assms(1,2)] by blast
qed

section \<open>Runs\<close>

fun chained :: "SIMCOM_STATE \<Rightarrow> (SIMCOM_STATE \<times> string \<times> SIMCOM_STATE) list \<Rightarrow> SIMCOM_STATE \<Rightarrow> bool" where
  "chained st [] fin \<longleftrightarrow> st = fin"
| "chained st ((a, c, b) # ts) fin \<longleftrightarrow> a = st \<and> chained b ts fin"

lemma ok_chain:
  assumes "accepting h"
  shows "set ts \<subseteq> set ok_path \<Longrightarrow> chained st ts fin \<Longrightarrow> idle st u \<Longrightarrow>
    \<exists>v. run (sim_step h) (concat (replicate (length ts) (exch msg_OK))) u = Inr v \<and> idle fin v
      \<and> sent v = sent u @ map (\<lambda>(_, c, _). c) ts \<and> carried v = carried u"
proof (induction ts arbitrary: st u)
  case Nil
  then show ?case by simp
next
  case (Cons t ts)
  obtain a c b where t: "t = (a, c, b)" by (cases t)
  obtain v where v: "run (sim_step h) (exch msg_OK) u = Inr v" "idle b v" "sent v = sent u @ [c]"
      "carried v = carried u"
    using ok_path_step [OF assms Cons.prems(3), of c b] Cons.prems(1,2) t by auto
  show ?case using Cons.IH [OF _ _ v(2)] Cons.prems(1,2) t v by (auto simp: run_append)
qed

definition registration_commands :: "string list" where
  "registration_commands =
     [AT_DISABLE_ECO, AT_SET_FULL_FUNCTIONALITY, AT_SIM_PIN_STATUS, AT_MOBILE_NETWORK_STATUS,
      AT_GPRS_NETWORK_STATUS, AT_EPS_NETWORK_STATUS, AT_DEFINE_PDP_CONTEXT,
      AT_ACTIVATE_PDP_CONTEXT, AT_VERIFY_PDP_ADDRESS]"

lemma registration_chain:
  assumes "accepting h" "idle SIMCOM_STATE_DISABLING_ECO u"
  shows "\<exists>v. run (sim_step h) (concat (replicate 9 (exch msg_OK))) u = Inr v
    \<and> idle SIMCOM_STATE_HTTPS_INIT v \<and> sent v = sent u @ registration_commands"
  using ok_chain [OF assms(1) _ _ assms(2), of "take 9 ok_path" SIMCOM_STATE_HTTPS_INIT]
  by (simp add: ok_path_def registration_commands_def numeral_eq_Suc) blast

definition http_commands :: "string list" where
  "http_commands = [AT_HTTPS_INIT, AT_HTTPS_SET_URL, AT_HTTP_SET_JSON_FORMAT]"

lemma http_chain:
  assumes "accepting h" "idle SIMCOM_STATE_HTTPS_INIT u"
  shows "\<exists>v. run (sim_step h) (concat (replicate 3 (exch msg_OK))) u = Inr v
    \<and> idle SIMCOM_STATE_REQUEST_GPS_INFO v \<and> sent v = sent u @ http_commands"
  using ok_chain [OF assms(1) _ _ assms(2), of "take 3 (drop 9 ok_path)" SIMCOM_STATE_REQUEST_GPS_INFO]
  by (simp add: ok_path_def http_commands_def numeral_eq_Suc) blast

text \<open>The timer: ticks leave everything else alone.\<close>

lemma ticks_run:
  "run (sim_step h) (replicate n Tick) u = Inr (upd_sim (resendATCommandCB ^^ n) u)"
proof (induction n arbitrary: u)
  case 0
  then show ?case by (simp add: upd_sim_def)
next
  case (Suc n)
  have "(\<lambda>s. (resendATCommandCB ^^ n) (resendATCommandCB s)) = resendATCommandCB ^^ Suc n"
    by (simp add: fun_eq_iff funpow_swap1)
  with Suc.IH [of "upd_sim resendATCommandCB u"] show ?case by simp
qed

lemma ticks_frame: "\<exists>x. (resendATCommandCB ^^ n) s = s\<lparr>sim_timer := x\<rparr>"
proof (induction n)
  case 0
  show ?case by (rule exI [of _ "sim_timer s"]) simp
next
  case (Suc n)
  then obtain x where "(resendATCommandCB ^^ n) s = s\<lparr>sim_timer := x\<rparr>" by blast
  moreover have "\<exists>y. resendATCommandCB (s\<lparr>sim_timer := x\<rparr>) = s\<lparr>sim_timer := y\<rparr>"
    by (auto simp: resendATCommandCB_def)
  ultimately show ?case by simp
qed

lemma idle_ticks: "idle st (upd_sim (resendATCommandCB ^^ n) u) = idle st u"
  using ticks_frame [of n "app u"] by (auto simp: idle_def view_def)

lemma timer_expires:
  assumes "sim_timer s = of_nat (Suc n)" "Suc n < 2 ^ 32"
  shows "sim_timer ((resendATCommandCB ^^ n) s) = 1"
proof -
  have u: "unat (sim_timer s) = Suc n" using assms(2) by (intro of_nat_inverse [OF assms(1) [symmetric]]) simp
  then have "sim_timer s \<noteq> 0" by auto
  then have "unat (sim_timer ((resendATCommandCB ^^ n) s)) = 1"
    using u by (simp add: ticks_unat)
  then show ?thesis by (metis unat_1 unsigned_word_eqI)
qed

text \<open>The position state leads to an idle posting state.\<close>

lemma position_run:
  assumes "idle SIMCOM_STATE_REQUEST_GPS_INFO u"
  shows "\<exists>v. run (sim_step h) [Task r1 r2 r3 r4] u = Inr v \<and> idle SIMCOM_STATE_HTTP_POST_DATA v
    \<and> sent v = sent u \<and> cstr (postData (app v)) = sentence_json r1 r2 r3 r4"
proof -
  have u: "up u" "view u = (SIMCOM_STATE_REQUEST_GPS_INFO, True, False, False, zeros 512)"
    using assms by (simp_all add: idle_def)
  have "length (buffRecv (app u)) = 512" using u(2) by (simp add: view_def)
  note g = request_gps_posts [OF this, of r1 r2 r3 r4]
  have "simcom_tasks h (r1, r2, r3, r4) u = case_REQUEST_GPS_INFO (r1, r2, r3, r4) u"
    using u(2) by (simp add: simcom_tasks_def view_def)
  with g u cstr_append_zeros [OF NUL_notin_sentence_json] show ?thesis
    by (simp add: idle_def view_def)
qed

definition post_script :: "sim_input list" where
  "post_script = [Task 0 0 0 0, Write_Done, Read_Done (CRLF @ ''DOWNLOAD'' @ CRLF), Task 0 0 0 0,
     Write_Done, Read_Done msg_OK, Task 0 0 0 0]"

lemma post_state:
  assumes "view u = (SIMCOM_STATE_HTTP_POST_DATA, w, pr, pp, b)" "length (cstr (postData (app u))) < 100"
  shows "simcom_tasks h r u = command_state h (post_cmd (postData (app u))) (post_answer h) u"
proof -
  let ?c = "post_cmd (postData (app u))"
  have "length (?c @ [NUL]) \<le> length (zeros 20)" using post_cmd_props(1) [OF assms(2)] by simp
  then obtain r' where "poke (zeros 20) 0 (?c @ [NUL]) = Inr (?c @ NUL # r')"
    by (simp add: poke_0)
  with cstr_append_NUL [OF post_cmd_props(2) [OF assms(2)]] assms(1) show ?thesis
    by (simp add: simcom_tasks_def case_HTTP_POST_DATA_def view_def)
qed

lemma download_props:
  "framed (CRLF @ ''DOWNLOAD'' @ CRLF)" "NUL \<notin> set (CRLF @ ''DOWNLOAD'' @ CRLF)"
  "length (CRLF @ ''DOWNLOAD'' @ CRLF) < 512"
  using framed_msg [of "''DOWNLOAD''"] by simp_all

lemma download_answer:
  assumes "accepting h" "up u"
    "view u = (SIMCOM_STATE_HTTP_POST_DATA, True, True, True,
       (CRLF @ ''DOWNLOAD'' @ CRLF) @ zeros (512 - length (CRLF @ ''DOWNLOAD'' @ CRLF)))"
  shows "\<exists>v. command_state h cmd (post_answer h) u = Inr v \<and> up v
    \<and> sent v = sent u @ [cstr (postData (app u))]
    \<and> view v = (SIMCOM_STATE_HTTP_POST_DATA, False, True, False, zeros 512) \<and> carried v = carried u"
proof -
  let ?m = "CRLF @ ''DOWNLOAD'' @ CRLF"
  let ?u = "at_read h u"
  note r = at_read_effect [OF assms(2), of h]
  have v: "view ?u = (SIMCOM_STATE_HTTP_POST_DATA, True, True, True, ?m @ zeros (512 - length ?m))"
    using r assms(3) by simp
  then have "ATwrite (flags (app ?u))" by (simp add: view_def)
  then have a: "post_answer h ?m ?u = Inr (send_AT h (cstr (postData (app u))) ?u)"
    using r(4) by (simp add: post_answer_def)
  note s = send_AT_effect [OF assms(1) r(1), of "cstr (postData (app u))"]
  show ?thesis
    unfolding command_state_def at_write_waiting [OF assms(3)] at_answer_msg [OF v download_props] a
    using s r v carried_at_read [OF assms(2)]
    by (simp add: view_def upd_flags_def carried_def)
qed

lemma post_run:
  assumes "accepting h" "idle SIMCOM_STATE_HTTP_POST_DATA u" "length (cstr (postData (app u))) < 100"
  shows "\<exists>v. run (sim_step h) post_script u = Inr v \<and> idle SIMCOM_STATE_HTTP_SEND_POST_REQUEST v
    \<and> sent v = sent u @ [post_cmd (postData (app u)), cstr (postData (app u))]"
proof -
  let ?st = SIMCOM_STATE_HTTP_POST_DATA and ?m = "CRLF @ ''DOWNLOAD'' @ CRLF"
  let ?c = "post_cmd (postData (app u))"
  have tasks: "simcom_tasks h r v = command_state h ?c (post_answer h) v"
    if "view v = (?st, w, pr, pp, b)" "carried v = carried u" for v r w pr pp b
    using post_state [OF that(1)] that(2) assms(3) by (simp add: carried_def)
  have u: "view u = (?st, True, False, False, zeros 512)" using assms(2) by (simp add: idle_def)
  obtain u1 where 1: "command_state h ?c (post_answer h) u = Inr u1" "up u1" "sent u1 = sent u @ [?c]"
      "view u1 = (?st, False, False, False, zeros 512)" "carried u1 = carried u"
    using command_state_sends [OF assms(1,2)] by blast
  obtain u2 where 2: "sim_step h Write_Done u1 = Inr u2" "up u2" "sent u2 = sent u1"
      "view u2 = (?st, True, True, False, zeros 512)" "carried u2 = carried u1"
    using Write_Done_effect [OF 1(2,4)] by blast
  obtain u3 where 3: "sim_step h (Read_Done ?m) u2 = Inr u3" "up u3" "sent u3 = sent u2"
      "view u3 = (?st, True, True, True, ?m @ zeros (512 - length ?m))" "carried u3 = carried u2"
    using deliver_effect [OF 2(2,4) download_props(3)] by blast
  obtain u4 where 4: "command_state h ?c (post_answer h) u3 = Inr u4" "up u4"
      "sent u4 = sent u3 @ [cstr (postData (app u3))]" "view u4 = (?st, False, True, False, zeros 512)"
      "carried u4 = carried u3"
    using download_answer [OF assms(1) 3(2,4)] by blast
  obtain u5 where 5: "sim_step h Write_Done u4 = Inr u5" "up u5" "sent u5 = sent u4"
      "view u5 = (?st, True, True, False, zeros 512)" "carried u5 = carried u4"
    using Write_Done_effect [OF 4(2,4)] by blast
  obtain u6 where 6: "sim_step h (Read_Done msg_OK) u5 = Inr u6" "up u6" "sent u6 = sent u5"
      "view u6 = (?st, True, True, True, msg_OK @ zeros (512 - length msg_OK))" "carried u6 = carried u5"
    using deliver_effect [OF 5(2,4) msg_OK_props(3)] by blast
  have ok: "post_answer h msg_OK v = Inr (goto SIMCOM_STATE_HTTP_SEND_POST_REQUEST
      (upd_sim (sim_timer_update id) v))" for v
    unfolding upd_timer_id by (simp add: post_answer_def msg_OK_def)
  obtain v where v: "command_state h ?c (post_answer h) u6 = Inr v"
      "idle SIMCOM_STATE_HTTP_SEND_POST_REQUEST v" "sent v = sent u6"
    using command_state_answer [where act = "post_answer h", OF 6(2,4) msg_OK_props ok] by blast
  have "run (sim_step h) post_script u = Inr v"
    using tasks [OF u refl] tasks [OF 3(4)] tasks [OF 6(4)] 1 2 3 4 5 6 v(1)
    by (simp only: post_script_def run.simps sim_step.simps(1) seq_Inr)
  moreover have "postData (app u3) = postData (app u)" using 1(5) 2(5) 3(5) by (simp add: carried_def)
  ultimately show ?thesis using v 1(3) 2(3) 3(3) 4(3) 5(3) 6(3) by simp
qed

definition action_msg :: "string \<Rightarrow> string" where
  "action_msg x = CRLF @ ''+HTTPACTION: 1'' @ x @ CRLF"

lemma action_msg_props:
  assumes "NUL \<notin> set x" "length x < 400"
  shows "framed (action_msg x)" "NUL \<notin> set (action_msg x)" "length (action_msg x) < 512"
    "take 16 (action_msg x) = CRLF @ ''+HTTPACTION: 1''"
  using assms framed_msg [of "''+HTTPACTION: 1'' @ x"] by (simp_all add: action_msg_def)

lemma wait_run:
  assumes "idle SIMCOM_STATE_HTTP_WAIT_POST_RESPONSE u" "NUL \<notin> set x" "length x < 400"
  shows "\<exists>v. run (sim_step h) [Read_Done (action_msg x), Task 0 0 0 0] u = Inr v
    \<and> idle SIMCOM_STATE_HTTP_STOP_SERVICE v \<and> sent v = sent u"
proof -
  let ?st = SIMCOM_STATE_HTTP_WAIT_POST_RESPONSE and ?m = "action_msg x"
  note m = action_msg_props [OF assms(2,3)]
  have u: "up u" "view u = (?st, True, False, False, zeros 512)" using assms(1) by (simp_all add: idle_def)
  obtain u1 where 1: "sim_step h (Read_Done ?m) u = Inr u1" "up u1" "sent u1 = sent u"
      "view u1 = (?st, True, False, True, ?m @ zeros (512 - length ?m))"
    using deliver_effect [OF u m(3)] by blast
  note r = at_read_effect [OF 1(2), of h]
  have a: "action_answer ?m w = Inr (goto SIMCOM_STATE_HTTP_STOP_SERVICE (upd_sim (sim_timer_update id) w))" for w
    unfolding upd_timer_id action_answer_def using m(4) by simp
  have "view (at_read h u1) = (?st, True, False, True, ?m @ zeros (512 - length ?m))" using r 1 by simp
  from answer_goto [where act = action_answer, OF r(1) this m(1-3) a]
  obtain v where v: "at_answer action_answer (at_read h u1) = Inr v" "up v" "sent v = sent u"
      "view v = (SIMCOM_STATE_HTTP_STOP_SERVICE, True, False, False, zeros 512)"
    using r(2) 1(3) by auto
  have "simcom_tasks h (0, 0, 0, 0) u1 = Inr v"
    using v(1) 1(4) by (simp add: simcom_tasks_def view_def case_HTTP_WAIT_POST_RESPONSE_def)
  with 1(1) v show ?thesis by (simp add: idle_def)
qed

lemma stop_run:
  assumes "accepting h" "idle SIMCOM_STATE_HTTP_STOP_SERVICE u"
  shows "\<exists>v. run (sim_step h) (exch msg_OK) u = Inr v \<and> idle SIMCOM_STATE_READY v
    \<and> sent v = sent u @ [AT_HTTP_STOP_SERVICE] \<and> sim_timer (app v) = 10000"
proof -
  have t: "simcom_tasks h r w = command_state h AT_HTTP_STOP_SERVICE stop_answer w"
    if "sim_state (app w) = SIMCOM_STATE_HTTP_STOP_SERVICE" for r w
    using that by (simp add: simcom_tasks_def case_HTTP_STOP_SERVICE_def)
  have "stop_answer msg_OK w = Inr (goto SIMCOM_STATE_READY (upd_sim (sim_timer_update (\<lambda>_. 10000)) w))" for w
    by (simp add: stop_answer_def)
  from exchange [OF assms t msg_OK_props this] show ?thesis
    by (auto simp: carried_def apsnd_def)
qed

lemma ready_run:
  assumes "idle SIMCOM_STATE_READY u" "sim_timer (app u) = 10000"
  shows "\<exists>v. run (sim_step h) (replicate 9999 Tick @ [Task 0 0 0 0]) u = Inr v
    \<and> idle SIMCOM_STATE_HTTPS_INIT v \<and> sent v = sent u"
proof -
  let ?w = "upd_sim (resendATCommandCB ^^ 9999) u"
  have "sim_timer ((resendATCommandCB ^^ 9999) (app u)) = 1"
    using assms(2) by (intro timer_expires) simp_all
  then have "sim_timer (app ?w) = 1" by simp
  moreover have i: "idle SIMCOM_STATE_READY ?w" using assms(1) by (simp only: idle_ticks)
  ultimately have "simcom_tasks h (0, 0, 0, 0) ?w =
      Inr (upd_sim (\<lambda>s. s\<lparr>sim_state := SIMCOM_STATE_HTTPS_INIT\<rparr>) ?w)"
    by (simp only: simcom_tasks_def case_READY_def) (simp add: idle_def view_def)
  then have "run (sim_step h) (replicate 9999 Tick @ [Task 0 0 0 0]) u =
      Inr (upd_sim (\<lambda>s. s\<lparr>sim_state := SIMCOM_STATE_HTTPS_INIT\<rparr>) ?w)"
    by (simp only: run_append ticks_run seq_Inr run.simps sim_step.simps)
  moreover have "idle SIMCOM_STATE_HTTPS_INIT (upd_sim (\<lambda>s. s\<lparr>sim_state := SIMCOM_STATE_HTTPS_INIT\<rparr>) ?w)"
    using i unfolding idle_def view_def by (simp only: up_upd_sim upd_sim_simps(1)) simp
  moreover have "sent (upd_sim (\<lambda>s. s\<lparr>sim_state := SIMCOM_STATE_HTTPS_INIT\<rparr>) ?w) = sent u"
    by (simp only: sent_upd_sim)
  ultimately show ?thesis by blast
qed

text \<open>The inputs of one round and the texts it sends.\<close>

definition cycle_script :: "nat \<Rightarrow> nat \<Rightarrow> nat \<Rightarrow> nat \<Rightarrow> string \<Rightarrow> sim_input list" where
  "cycle_script r1 r2 r3 r4 x =
     concat (replicate 3 (exch msg_OK)) @ [Task r1 r2 r3 r4] @ post_script @ exch msg_OK
     @ [Read_Done (action_msg x), Task 0 0 0 0] @ exch msg_OK @ replicate 9999 Tick @ [Task 0 0 0 0]"

definition cycle_commands :: "nat \<Rightarrow> nat \<Rightarrow> nat \<Rightarrow> nat \<Rightarrow> string list" where
  "cycle_commands r1 r2 r3 r4 =
     http_commands @
     [AT_HTTP_INPUT_POST_DATA @ dec (length (sentence_json r1 r2 r3 r4)) @ '',10'' @ [CR],
      sentence_json r1 r2 r3 r4, AT_HTTP_SEND_POST_REQUEST, AT_HTTP_STOP_SERVICE]"

lemma cycle_run:
  assumes "accepting h" "idle SIMCOM_STATE_HTTPS_INIT u" "NUL \<notin> set x" "length x < 400"
  shows "\<exists>v. run (sim_step h) (cycle_script r1 r2 r3 r4 x) u = Inr v
    \<and> idle SIMCOM_STATE_HTTPS_INIT v \<and> sent v = sent u @ cycle_commands r1 r2 r3 r4"
proof -
  let ?j = "sentence_json r1 r2 r3 r4"
  obtain u1 where 1: "run (sim_step h) (concat (replicate 3 (exch msg_OK))) u = Inr u1"
      "idle SIMCOM_STATE_REQUEST_GPS_INFO u1" "sent u1 = sent u @ http_commands"
    using http_chain [OF assms(1,2)] by blast
  obtain u2 where 2: "run (sim_step h) [Task r1 r2 r3 r4] u1 = Inr u2" "idle SIMCOM_STATE_HTTP_POST_DATA u2"
      "sent u2 = sent u1" "cstr (postData (app u2)) = ?j"
    using position_run [OF 1(2)] by blast
  have "length (cstr (postData (app u2))) < 100" using 2(4) length_sentence_json' [of r1 r2 r3 r4] by simp
  then obtain u3 where 3: "run (sim_step h) post_script u2 = Inr u3" "idle SIMCOM_STATE_HTTP_SEND_POST_REQUEST u3"
      "sent u3 = sent u2 @ [post_cmd (postData (app u2)), ?j]"
    using post_run [OF assms(1) 2(2)] 2(4) by auto
  have p: "(SIMCOM_STATE_HTTP_SEND_POST_REQUEST, AT_HTTP_SEND_POST_REQUEST,
      SIMCOM_STATE_HTTP_WAIT_POST_RESPONSE) \<in> set ok_path" by (simp add: ok_path_def)
  obtain u4 where 4: "run (sim_step h) (exch msg_OK) u3 = Inr u4" "idle SIMCOM_STATE_HTTP_WAIT_POST_RESPONSE u4"
      "sent u4 = sent u3 @ [AT_HTTP_SEND_POST_REQUEST]"
    using ok_path_step [OF assms(1) 3(2) p] by blast
  obtain u5 where 5: "run (sim_step h) [Read_Done (action_msg x), Task 0 0 0 0] u4 = Inr u5"
      "idle SIMCOM_STATE_HTTP_STOP_SERVICE u5" "sent u5 = sent u4"
    using wait_run [OF 4(2) assms(3,4)] by blast
  obtain u6 where 6: "run (sim_step h) (exch msg_OK) u5 = Inr u6" "idle SIMCOM_STATE_READY u6"
      "sent u6 = sent u5 @ [AT_HTTP_STOP_SERVICE]" "sim_timer (app u6) = 10000"
    using stop_run [OF assms(1) 5(2)] by blast
  obtain v where v: "run (sim_step h) (replicate 9999 Tick @ [Task 0 0 0 0]) u6 = Inr v"
      "idle SIMCOM_STATE_HTTPS_INIT v" "sent v = sent u6"
    using ready_run [OF 6(2,4)] by blast
  have "run (sim_step h) (cycle_script r1 r2 r3 r4 x) u = Inr v"
    using 1(1) 2(1) 3(1) 4(1) 5(1) 6(1) v(1) unfolding cycle_script_def run_append by (simp only: seq_Inr)
  moreover have "sent v = sent u @ cycle_commands r1 r2 r3 r4"
    using 1(3) 2(3,4) 3(3) 4(3) 5(3) 6(3) v(3) by (simp add: cycle_commands_def post_cmd_def)
  ultimately show ?thesis using v(2) by blast
qed

section \<open>From power-up to the first session\<close>

definition msg_ATREADY :: string where "msg_ATREADY = CRLF @ ''*ATREADY: 1'' @ CRLF"

lemma msg_ATREADY_props: "framed msg_ATREADY" "NUL \<notin> set msg_ATREADY" "length msg_ATREADY < 512"
  using framed_msg [of "''*ATREADY: 1''"] by (simp_all add: msg_ATREADY_def)

definition start_script :: "sim_input list" where
  "start_script = [Task 0 0 0 0, Task 0 0 0 0, Read_Done msg_ATREADY, Task 0 0 0 0]
     @ replicate 14999 Tick @ [Task 0 0 0 0]"

lemma first_task:
  assumes "IsInReadyState u" "app u = simcom_init s"
  shows "\<exists>v. run (sim_step h) [Task 0 0 0 0] u = Inr v \<and> idle SIMCOM_STATE_NOT_READY v
    \<and> sent v = sent u \<and> sim_timer (app v) = sim_timer s"
  using assms
  by (simp add: simcom_tasks_def case_WAITING_DRIVER_READY_def EventHandlerSet_def idle_def up_def
      view_def IsInReadyState_def simcom_init_def SIMCOM_FLAGS_ALL_def sent_def)

definition atready_answer :: "string \<Rightarrow> sim \<Rightarrow> sim outcome" where
  "atready_answer msg u =
     Inr (if msg = msg_ATREADY then upd_sim (\<lambda>s. s\<lparr>sim_timer := 15000\<rparr>) u else u)"

lemma not_ready_tasks:
  assumes "sim_state (app u) = SIMCOM_STATE_NOT_READY"
  shows "simcom_tasks h r u = seq (at_answer atready_answer (at_read h u))
    (\<lambda>u. Inr (if sim_timer (app u) = 1
              then upd_sim (\<lambda>s. s\<lparr>sim_state := SIMCOM_STATE_DISABLING_ECO\<rparr>) u else u))"
  using assms
  by (simp add: simcom_tasks_def case_NOT_READY_def atready_answer_def [abs_def] msg_ATREADY_def)

lemma not_ready_quiet:
  assumes "idle SIMCOM_STATE_NOT_READY u"
  shows "\<exists>v. run (sim_step h) [Task 0 0 0 0] u = Inr v \<and> sent v = sent u
    \<and> sim_timer (app v) = sim_timer (app u)
    \<and> idle (if sim_timer (app u) = 1 then SIMCOM_STATE_DISABLING_ECO else SIMCOM_STATE_NOT_READY) v"
proof -
  have u: "up u" "view u = (SIMCOM_STATE_NOT_READY, True, False, False, zeros 512)"
    using assms by (simp_all add: idle_def)
  note r = at_read_effect [OF u(1), of h]
  have "at_answer atready_answer (at_read h u) = Inr (at_read h u)"
    using r(3) u(2) by (intro at_answer_none [of _ SIMCOM_STATE_NOT_READY True False "zeros 512"]) simp
  then show ?thesis
    using u r not_ready_tasks [of u h] by (simp add: view_def idle_def)
qed

lemma atready_run:
  assumes "idle SIMCOM_STATE_NOT_READY u"
  shows "\<exists>v. run (sim_step h) [Read_Done msg_ATREADY, Task 0 0 0 0] u = Inr v \<and> sent v = sent u
    \<and> sim_timer (app v) = 15000 \<and> idle SIMCOM_STATE_NOT_READY v"
proof -
  let ?st = SIMCOM_STATE_NOT_READY and ?m = msg_ATREADY
  have u: "up u" "view u = (?st, True, False, False, zeros 512)" using assms by (simp_all add: idle_def)
  obtain u1 where 1: "sim_step h (Read_Done ?m) u = Inr u1" "up u1" "sent u1 = sent u"
      "view u1 = (?st, True, False, True, ?m @ zeros (512 - length ?m))"
    using deliver_effect [OF u msg_ATREADY_props(3)] by blast
  note r = at_read_effect [OF 1(2), of h]
  have v: "view (at_read h u1) = (?st, True, False, True, ?m @ zeros (512 - length ?m))" using r 1 by simp
  have a: "at_answer atready_answer (at_read h u1) =
      Inr (upd_sim (\<lambda>s. s\<lparr>sim_timer := 15000, buffRecv := zeros 512, pendingATCommandParse := False\<rparr>)
        (at_read h u1))"
    unfolding at_answer_msg [OF v msg_ATREADY_props] by (simp add: atready_answer_def)
  have "sim_state (app u1) = ?st" using 1(4) by (simp add: view_def)
  then have "simcom_tasks h (0, 0, 0, 0) u1 =
      Inr (upd_sim (\<lambda>s. s\<lparr>sim_timer := 15000, buffRecv := zeros 512, pendingATCommandParse := False\<rparr>)
        (at_read h u1))"
    using a by (simp add: not_ready_tasks)
  with 1 r v show ?thesis by (simp add: idle_def view_def)
qed

lemma start_run:
  assumes "IsInReadyState u" "app u = simcom_init s" "sim_timer s \<noteq> 1"
  shows "\<exists>v. run (sim_step h) start_script u = Inr v \<and> idle SIMCOM_STATE_DISABLING_ECO v
    \<and> sent v = sent u"
proof -
  obtain u1 where 1: "run (sim_step h) [Task 0 0 0 0] u = Inr u1" "idle SIMCOM_STATE_NOT_READY u1"
      "sent u1 = sent u" "sim_timer (app u1) = sim_timer s"
    using first_task [OF assms(1,2)] by blast
  obtain u2 where 2: "run (sim_step h) [Task 0 0 0 0] u1 = Inr u2" "idle SIMCOM_STATE_NOT_READY u2"
      "sent u2 = sent u1"
    using not_ready_quiet [OF 1(2)] 1(4) assms(3) by auto
  obtain u3 where 3: "run (sim_step h) [Read_Done msg_ATREADY, Task 0 0 0 0] u2 = Inr u3"
      "sent u3 = sent u2" "sim_timer (app u3) = 15000" "idle SIMCOM_STATE_NOT_READY u3"
    using atready_run [OF 2(2)] by blast
  let ?w = "upd_sim (resendATCommandCB ^^ 14999) u3"
  have "sim_timer ((resendATCommandCB ^^ 14999) (app u3)) = 1"
    using 3(3) by (intro timer_expires) simp_all
  then have t: "sim_timer (app ?w) = 1" by (simp only: upd_sim_simps(1))
  have "idle SIMCOM_STATE_NOT_READY ?w" using 3(4) by (simp only: idle_ticks)
  from not_ready_quiet [OF this, of h] t obtain v where
    v: "run (sim_step h) [Task 0 0 0 0] ?w = Inr v" "sent v = sent ?w" "idle SIMCOM_STATE_DISABLING_ECO v"
    by (simp only: simp_thms if_True) blast
  have k: "run (sim_step h) (replicate 14999 Tick) u3 = Inr ?w" by (rule ticks_run)
  have e: "start_script = [Task 0 0 0 0] @ [Task 0 0 0 0] @ [Read_Done msg_ATREADY, Task 0 0 0 0]
      @ replicate 14999 Tick @ [Task 0 0 0 0]"
    by (simp only: start_script_def append.simps)
  have "run (sim_step h) start_script u = Inr v"
    unfolding e run_append 1(1) 2(1) 3(1) k seq_Inr v(1) ..
  moreover have "sent v = sent u" using v(2) 3(2) 2(3) 1(3) by (simp only: sent_upd_sim)
  ultimately show ?thesis using v(3) by blast
qed

definition cycles :: "((nat \<times> nat \<times> nat \<times> nat) \<times> string) list \<Rightarrow> sim_input list" where
  "cycles rs = concat (map (\<lambda>((r1, r2, r3, r4), x). cycle_script r1 r2 r3 r4 x) rs)"

lemma cycles_run:
  assumes "accepting h"
  shows "idle SIMCOM_STATE_HTTPS_INIT u \<Longrightarrow> list_all (\<lambda>(_, x). NUL \<notin> set x \<and> length x < 400) rs \<Longrightarrow>
    \<exists>v. run (sim_step h) (cycles rs) u = Inr v \<and> idle SIMCOM_STATE_HTTPS_INIT v
      \<and> sent v = sent u @ concat (map (\<lambda>((r1, r2, r3, r4), _). cycle_commands r1 r2 r3 r4) rs)"
proof (induction rs arbitrary: u)
  case Nil
  then show ?case by (simp add: cycles_def)
next
  case (Cons r rs)
  obtain r1 r2 r3 r4 x where r: "r = ((r1, r2, r3, r4), x)" by (metis prod.exhaust)
  with Cons.prems(2) have x: "NUL \<notin> set x" "length x < 400" by simp_all
  obtain v where v: "run (sim_step h) (cycle_script r1 r2 r3 r4 x) u = Inr v"
      "idle SIMCOM_STATE_HTTPS_INIT v" "sent v = sent u @ cycle_commands r1 r2 r3 r4"
    using cycle_run [OF assms Cons.prems(1) x] by blast
  obtain w where w: "run (sim_step h) (cycles rs) v = Inr w" "idle SIMCOM_STATE_HTTPS_INIT w"
      "sent w = sent v @ concat (map (\<lambda>((r1, r2, r3, r4), _). cycle_commands r1 r2 r3 r4) rs)"
    using Cons.IH [OF v(2)] Cons.prems(2) by auto
  have "cycles (r # rs) = cycle_script r1 r2 r3 r4 x @ cycles rs" by (simp add: cycles_def r)
  then have "run (sim_step h) (cycles (r # rs)) u = Inr w"
    by (simp only: run_append v(1) w(1) seq_Inr)
  with v w r show ?case by simp
qed


lemma demo_accepting: "accepting demo_host"
  by (simp add: accepting_def demo_host_def)

definition demo_ready :: sim where
  "demo_ready = upd_obj (\<lambda>o'. o'\<lparr>simcomState := USB_HOST_SIMCOM_STATE_READY\<rparr>)
     (usb_zero (simcom_init simcom_zero))"


section \<open>One command at a time\<close>

text \<open>The AT writes that the host stack has accepted.\<close>

fun accepted_write :: "usb_host \<Rightarrow> host_call \<Rightarrow> bool" where
  "accepted_write h (DeviceTransfer p (Some d) n USB_HOST_SIMCOM_EVENT_AT_WRITE_COMPLETE) \<longleftrightarrow>
     device_transfer h p (Some d) n USB_HOST_SIMCOM_EVENT_AT_WRITE_COMPLETE = USB_HOST_RESULT_SUCCESS"
| "accepted_write h _ \<longleftrightarrow> False"

definition accepted :: "usb_host \<Rightarrow> sim \<Rightarrow> nat" where
  "accepted h u = length (filter (accepted_write h) (calls u))"

definition one_write :: "usb_host \<Rightarrow> sim \<Rightarrow> sim \<Rightarrow> bool" where
  "one_write h u v \<longleftrightarrow>
     accepted h v = accepted h u \<and> ATwrite (flags (app v)) = ATwrite (flags (app u)) \<or>
     accepted h v = accepted h u + 1 \<and> ATwrite (flags (app u)) \<and> \<not> ATwrite (flags (app v))"

lemma one_write_refl [simp]: "one_write h u u"
  by (simp add: one_write_def)

lemma one_write_trans: "one_write h u v \<Longrightarrow> one_write h v w \<Longrightarrow> one_write h u w"
  by (auto simp: one_write_def)

lemma one_write_upd_sim [simp]:
  "flags (f (app u)) = flags (app u) \<Longrightarrow> one_write h u (upd_sim f u)"
  by (simp add: one_write_def accepted_def)

lemma one_write_goto [simp]: "one_write h u (goto st u)"
  by (simp add: goto_def)

lemma result_map_success [simp]:
  "result_map r = USB_HOST_SIMCOM_RESULT_SUCCESS \<longleftrightarrow> r = USB_HOST_RESULT_SUCCESS"
  by (cases r) simp_all

lemma one_write_send: "ATwrite (flags (app u)) \<Longrightarrow> one_write h u (send_AT h cmd u)"
  by (auto simp: send_AT_def AT_Write_def transfer_def one_write_def accepted_def upd_flags_def)

lemma one_write_at_write: "one_write h u (at_write h cmd u)"
  by (simp add: at_write_def one_write_send)

lemma one_write_at_read: "one_write h u (at_read h u)"
proof -
  have "accepted_write h (DeviceTransfer p (Some d) n USB_HOST_SIMCOM_EVENT_AT_READ_COMPLETE) = False" for p d n
    by simp
  then show ?thesis
    by (auto simp: at_read_def AT_Read_def transfer_def one_write_def accepted_def upd_flags_def
        split: if_splits)
qed

lemma one_write_at_answer:
  assumes "at_answer act u = Inr v" "\<And>msg w x. act msg w = Inr x \<Longrightarrow> one_write h w x"
  shows "one_write h u v"
proof (cases "pendingATCommandParse (app u)")
  case True
  let ?clear = "upd_sim (\<lambda>s. s\<lparr>buffRecv := zeros 512, pendingATCommandParse := False\<rparr>)"
  from True assms(1) obtain ok w where
    "(if ok then act (cstr (buffRecv (app u))) u else Inr u) = Inr w" and v: "v = ?clear w"
    by (auto simp: at_answer_def seq_eq_Inr_iff)
  then have "one_write h u w" using assms(2) by (cases ok) auto
  moreover have "one_write h w (?clear w)" by simp
  ultimately show ?thesis unfolding v by (rule one_write_trans)
qed (use assms(1) in \<open>simp add: at_answer_def\<close>)

lemma one_write_command_state:
  assumes "command_state h cmd act u = Inr v" "\<And>msg w x. act msg w = Inr x \<Longrightarrow> one_write h w x"
  shows "one_write h u v"
proof -
  have "one_write h (at_read h (at_write h cmd u)) v"
    by (rule one_write_at_answer [of act, OF assms(1) [unfolded command_state_def] assms(2)])
  then show ?thesis by (meson one_write_trans one_write_at_write one_write_at_read)
qed

lemma one_write_ok_or_error: "ok_or_error ex nx msg w = Inr x \<Longrightarrow> one_write h w x"
  unfolding ok_or_error_def by (auto split: if_splits)

lemma one_write_eps: "eps_answer msg w = Inr x \<Longrightarrow> one_write h w x"
  unfolding eps_answer_def by (auto split: if_splits)

lemma one_write_pdp:
  assumes "pdp_answer msg w = Inr x" shows "one_write h w x"
proof -
  obtain p where "x = goto SIMCOM_STATE_HTTPS_INIT w \<or> x = goto SIMCOM_STATE_ERROR w \<or> x = w
      \<or> x = upd_sim (\<lambda>s. s\<lparr>assignedIP := p\<rparr>) w"
    using assms unfolding pdp_answer_def Let_def
    by (cases "strtok '','' msg") (auto simp: seq_eq_Inr_iff split: if_splits)
  then show ?thesis by auto
qed

lemma one_write_post: "post_answer h msg w = Inr x \<Longrightarrow> one_write h w x"
  unfolding post_answer_def by (auto simp: one_write_send split: if_splits)

lemma one_write_action: "action_answer msg w = Inr x \<Longrightarrow> one_write h w x"
  unfolding action_answer_def by (auto split: if_splits)

lemma one_write_stop: "stop_answer msg w = Inr x \<Longrightarrow> one_write h w x"
  unfolding stop_answer_def goto_def by (auto split: if_splits)

lemma one_write_atready: "atready_answer msg w = Inr x \<Longrightarrow> one_write h w x"
  unfolding atready_answer_def by (auto split: if_splits)

lemmas one_write_answers = one_write_ok_or_error one_write_eps one_write_pdp one_write_post
  one_write_action one_write_stop one_write_atready

lemma simcom_tasks_one_write:
  assumes "simcom_tasks h r u = Inr v"
  shows "one_write h u v"
proof (cases "sim_state (app u)")
  case SIMCOM_STATE_NOT_READY
  then obtain w where "at_answer atready_answer (at_read h u) = Inr w"
    and v: "v = (if sim_timer (app w) = 1 then upd_sim (\<lambda>s. s\<lparr>sim_state := SIMCOM_STATE_DISABLING_ECO\<rparr>) w else w)"
    using assms by (auto simp: not_ready_tasks seq_eq_Inr_iff)
  then have "one_write h (at_read h u) w" by (auto intro: one_write_at_answer one_write_answers)
  then have "one_write h u w" using one_write_at_read one_write_trans by blast
  then show ?thesis using v by (auto intro: one_write_trans)
next
  case SIMCOM_STATE_REQUEST_GPS_INFO
  with assms show ?thesis
    by (cases r) (auto simp: simcom_tasks_def case_REQUEST_GPS_INFO_def at_answer_def Let_def
        seq_eq_Inr_iff split: if_splits)
next
  case SIMCOM_STATE_HTTP_WAIT_POST_RESPONSE
  with assms have "at_answer action_answer (at_read h u) = Inr v"
    by (simp add: simcom_tasks_def case_HTTP_WAIT_POST_RESPONSE_def)
  then have "one_write h (at_read h u) v" by (auto intro: one_write_at_answer one_write_answers)
  then show ?thesis using one_write_at_read one_write_trans by blast
next
  case SIMCOM_STATE_WAITING_DRIVER_READY
  with assms show ?thesis
    by (cases "IsInReadyState u")
      (auto simp: simcom_tasks_def case_WAITING_DRIVER_READY_def EventHandlerSet_def one_write_def accepted_def)
qed (use assms in \<open>auto simp: simcom_tasks_def case_defs case_HTTP_POST_DATA_def case_HTTP_READ_HEADER_def
      case_HTTP_READ_RESPONSE_def case_READY_def seq_eq_Inr_iff
      intro: one_write_command_state one_write_answers split: if_splits\<close>)

text \<open>
  The machine with a count of the write completions. The environment completes a write only
  when one is outstanding; any other input, with any data, may come at any time.
\<close>

fun channel_step :: "usb_host \<Rightarrow> sim_input \<Rightarrow> sim \<times> nat \<Rightarrow> (sim \<times> nat) outcome" where
  "channel_step h Write_Done (u, n) =
     (if ATwrite (flags (app u)) then Inr (u, n)
      else seq (sim_step h Write_Done u) (\<lambda>v. Inr (v, n + 1)))"
| "channel_step h i (u, n) = seq (sim_step h i u) (\<lambda>v. Inr (v, n))"

definition channel_inv :: "usb_host \<Rightarrow> sim \<times> nat \<Rightarrow> bool" where
  "channel_inv h = (\<lambda>(u, n).
     accepted h u = n + (if ATwrite (flags (app u)) then 0 else 1)
     \<and> eventHandler (obj u) = Some simcomEventHandler)"

lemma simcom_tasks_handler:
  assumes "simcom_tasks h r u = Inr v"
  shows "eventHandler (obj v) \<in> {eventHandler (obj u), Some simcomEventHandler}"
proof -
  have obj_at: "obj (send_AT h c w) = obj w" "obj (at_write h c w) = obj w" "obj (at_read h w) = obj w"
    "obj (goto st w) = obj w" for c w st
    by (auto simp: send_AT_def at_write_def at_read_def AT_Write_def AT_Read_def transfer_def goto_def
        split: prod.splits if_splits)
  have obj_answers: "ok_or_error ex nx msg w = Inr x \<Longrightarrow> obj x = obj w" "eps_answer msg w = Inr x \<Longrightarrow> obj x = obj w"
    "pdp_answer msg w = Inr x \<Longrightarrow> obj x = obj w" "post_answer h msg w = Inr x \<Longrightarrow> obj x = obj w"
    "action_answer msg w = Inr x \<Longrightarrow> obj x = obj w" "stop_answer msg w = Inr x \<Longrightarrow> obj x = obj w"
    "atready_answer msg w = Inr x \<Longrightarrow> obj x = obj w" for ex nx msg w x
    by (auto simp: ok_or_error_def eps_answer_def pdp_answer_def post_answer_def action_answer_def
        stop_answer_def atready_answer_def seq_eq_Inr_iff obj_at split: if_splits prod.splits)
  have obj_answer: "at_answer act w = Inr x \<Longrightarrow> (\<And>msg w x. act msg w = Inr x \<Longrightarrow> obj x = obj w) \<Longrightarrow> obj x = obj w"
    for act w x
    by (auto simp: at_answer_def seq_eq_Inr_iff split: if_splits)
  have obj_cmd: "command_state h c act w = Inr x \<Longrightarrow> (\<And>msg w x. act msg w = Inr x \<Longrightarrow> obj x = obj w) \<Longrightarrow> obj x = obj w"
    for c act w x
    unfolding command_state_def by (drule obj_answer) (auto simp: obj_at)
  have obj_cmds: "command_state h c (ok_or_error ex nx) w = Inr x \<Longrightarrow> obj x = obj w"
    "command_state h c eps_answer w = Inr x \<Longrightarrow> obj x = obj w"
    "command_state h c pdp_answer w = Inr x \<Longrightarrow> obj x = obj w"
    "command_state h c (post_answer h) w = Inr x \<Longrightarrow> obj x = obj w"
    "command_state h c stop_answer w = Inr x \<Longrightarrow> obj x = obj w" for c ex nx w x
    by (erule obj_cmd, erule obj_answers)+
  show ?thesis
  proof (cases "sim_state (app u)")
    case SIMCOM_STATE_NOT_READY
    then obtain w where "at_answer atready_answer (at_read h u) = Inr w"
      and v: "v = (if sim_timer (app w) = 1 then upd_sim (\<lambda>s. s\<lparr>sim_state := SIMCOM_STATE_DISABLING_ECO\<rparr>) w else w)"
      using assms by (auto simp: not_ready_tasks seq_eq_Inr_iff)
    then have "obj w = obj u" using obj_answer obj_answers(7) obj_at(3) by metis
    with v show ?thesis by simp
  next
    case SIMCOM_STATE_REQUEST_GPS_INFO
    with assms show ?thesis
      by (cases r) (auto simp: simcom_tasks_def case_REQUEST_GPS_INFO_def at_answer_def Let_def
          seq_eq_Inr_iff split: if_splits)
  next
    case SIMCOM_STATE_HTTP_WAIT_POST_RESPONSE
    with assms have "at_answer action_answer (at_read h u) = Inr v"
      by (simp add: simcom_tasks_def case_HTTP_WAIT_POST_RESPONSE_def)
    then have "obj v = obj u" using obj_answer obj_answers(5) obj_at(3) by metis
    then show ?thesis by simp
  next
    case SIMCOM_STATE_WAITING_DRIVER_READY
    with assms show ?thesis
      by (cases "IsInReadyState u")
        (auto simp: simcom_tasks_def case_WAITING_DRIVER_READY_def EventHandlerSet_def)
  qed (use assms in \<open>auto simp: simcom_tasks_def case_defs case_HTTP_POST_DATA_def case_HTTP_READ_HEADER_def
        case_HTTP_READ_RESPONSE_def case_READY_def seq_eq_Inr_iff
        dest!: obj_cmds split: if_splits\<close>)
qed

lemma channel_step_inv:
  assumes "channel_inv h s" "channel_step h i s = Inr t" shows "channel_inv h t"
proof -
  obtain u n where s: "s = (u, n)" by (cases s)
  have h: "eventHandler (obj u) = Some simcomEventHandler"
    using assms(1) s by (simp add: channel_inv_def)
  show ?thesis
  proof (cases i)
    case (Task r1 r2 r3 r4)
    with assms(2) s obtain v where v: "simcom_tasks h (r1, r2, r3, r4) u = Inr v" "t = (v, n)"
      by (auto simp: seq_eq_Inr_iff)
    from simcom_tasks_one_write [OF v(1)] simcom_tasks_handler [OF v(1)] assms(1) s v(2) show ?thesis
      by (auto simp: channel_inv_def one_write_def split: if_splits)
  next
    case Write_Done
    with assms s h show ?thesis
      by (auto simp: channel_inv_def notify_def simcomEventHandler_def upd_flags_def accepted_def
          split: if_splits)
  next
    case (Read_Done msg)
    with assms s h show ?thesis
      by (auto simp: channel_inv_def deliver_def notify_def simcomEventHandler_def upd_flags_def
          accepted_def seq_eq_Inr_iff poke_def split: if_splits)
  next
    case Tick
    with assms s h show ?thesis
      by (auto simp: channel_inv_def accepted_def resendATCommandCB_def split: if_splits)
  qed
qed

interpretation channel: polled_task "channel_step h" "channel_inv h" for h
  by unfold_locales (rule channel_step_inv)

text \<open>
  C32: Over any run of the task, the driver's completions, deliveries and ticks, at most one AT
  write is ever under way: the writes the host stack accepted are at most one more than those
  it completed, and exactly one more while the write flag is down.
\<close>

theorem one_command_in_flight:
  assumes "eventHandler (obj u) = Some simcomEventHandler" "ATwrite (flags (app u))"
    "accepted h u = 0" "run (channel_step h) is (u, 0) = Inr (v, n)"
  shows "accepted h v = n + (if ATwrite (flags (app v)) then 0 else 1)"
proof -
  have "channel_inv h (u, 0)" using assms(1-3) by (simp add: channel_inv_def)
  from channel.run_inv [OF this assms(4)] show ?thesis by (simp add: channel_inv_def)
qed

theorem one_command_in_flight_witness:
  "\<exists>v. run (channel_step demo_host) [Task 0 0 0 0, Task 0 0 0 0]
      (upd_sim (\<lambda>s. s\<lparr>sim_state := SIMCOM_STATE_DISABLING_ECO\<rparr>)
        (snd (EventHandlerSet (Some simcomEventHandler) 0 demo_ready)), 0) = Inr (v, 0)
    \<and> accepted demo_host v = 1"
proof -
  let ?u = "upd_sim (\<lambda>s. s\<lparr>sim_state := SIMCOM_STATE_DISABLING_ECO\<rparr>)
        (snd (EventHandlerSet (Some simcomEventHandler) 0 demo_ready))"
  note d = demo_ready_def EventHandlerSet_def simcom_init_def SIMCOM_FLAGS_ALL_def usb_zero_def
    simcom_zero_def
  obtain v where v: "run (channel_step demo_host) [Task 0 0 0 0, Task 0 0 0 0] (?u, 0) = Inr (v, 0)"
    "\<not> ATwrite (flags (app v))"
    by (simp add: simcom_tasks_def case_DISABLING_ECO_def command_state_def at_write_def send_AT_def
        at_read_def AT_Write_def AT_Read_def transfer_def at_answer_def upd_flags_def d demo_host_def)
  moreover have "accepted demo_host ?u = 0" by (simp add: accepted_def d)
  ultimately show ?thesis
    using one_command_in_flight [of ?u demo_host "[Task 0 0 0 0, Task 0 0 0 0]" v 0] by (auto simp: d)
qed

section \<open>Hazards\<close>

text \<open>A state whose command is taken for sent although it never was.\<close>

definition stalled :: "sim \<Rightarrow> bool" where
  "stalled u \<longleftrightarrow> sim_state (app u) = SIMCOM_STATE_SETTING_FULL_FUNCTIONALITY
     \<and> pendingResponse (app u) \<and> \<not> pendingATCommandParse (app u)"

lemma stalled_step:
  assumes "stalled u"
  shows "\<exists>v. simcom_tasks h r u = Inr v \<and> stalled v \<and> sent v = sent u"
proof -
  have w: "at_write h c u = u" for c using assms by (simp add: at_write_def stalled_def)
  have r: "app (at_read h u) = app u \<or> app (at_read h u) = upd_flags (\<lambda>f. f\<lparr>ATread := False\<rparr>) (app u)"
    "sent (at_read h u) = sent u"
    by (auto simp: at_read_def AT_Read_def transfer_def sent_def)
  then have "stalled (at_read h u)" using assms by (auto simp: stalled_def upd_flags_def)
  with assms w r(2) show ?thesis
    by (simp add: simcom_tasks_def case_SETTING_FULL_FUNCTIONALITY_def command_state_def
        at_answer_def stalled_def)
qed

lemma stalled_run:
  "stalled u \<Longrightarrow> list_all (\<lambda>i. \<exists>r1 r2 r3 r4. i = Task r1 r2 r3 r4) is \<Longrightarrow>
    \<exists>v. run (sim_step h) is u = Inr v \<and> stalled v \<and> sent v = sent u"
proof (induction "is" arbitrary: u)
  case (Cons i "is")
  then obtain r1 r2 r3 r4 where i: "i = Task r1 r2 r3 r4" by auto
  obtain v where v: "simcom_tasks h (r1, r2, r3, r4) u = Inr v" "stalled v" "sent v = sent u"
    using stalled_step [OF Cons.prems(1)] by blast
  with Cons.IH [OF v(2)] Cons.prems(2) i show ?case by auto
qed simp



definition demo_idle :: "SIMCOM_STATE \<Rightarrow> sim" where
  "demo_idle st = upd_sim (\<lambda>s. s\<lparr>sim_state := st\<rparr>)
     (snd (EventHandlerSet (Some simcomEventHandler) 0 demo_ready))"

lemma idle_demo_idle: "idle st (demo_idle st)"
  by (simp add: idle_def demo_idle_def demo_ready_def EventHandlerSet_def up_def view_def
      IsInReadyState_def simcom_init_def SIMCOM_FLAGS_ALL_def usb_zero_def simcom_zero_def)


text \<open>
  An answer to the address query without a comma makes the task take the length of a NULL
  token.
\<close>

lemma cgpaddr_without_comma_faults:
  assumes "up u" "view u = (SIMCOM_STATE_VERIFY_PDP_ADDRESS, True, True, True, msg @ zeros (512 - length msg))"
    and "framed msg" "NUL \<notin> set msg" "length msg < 512"
    and "take 11 msg = CRLF @ ''+CGPADDR:''" "CHR '','' \<notin> set msg"
  shows "simcom_tasks h r u = Inl Null_Deref"
proof -
  note a = at_read_effect [OF assms(1), of h]
  have v: "view (at_read h u) = (SIMCOM_STATE_VERIFY_PDP_ADDRESS, True, True, True, msg @ zeros (512 - length msg))"
    using a(3) assms(2) by simp
  have "msg \<noteq> []" using assms(6) by auto
  then have "strtok '','' msg = (Some msg, [])" using assms(7) by (intro strtok_last) auto
  moreover have "strtok '','' [] = (None, [])" by (simp add: strtok_def)
  moreover have "msg \<noteq> msg_OK" using assms(6) msg_OK_neq(3) by auto
  ultimately have "pdp_answer msg w = Inl Null_Deref" for w
    using assms(6) by (simp add: pdp_answer_def)
  then have "at_answer pdp_answer (at_read h u) = Inl Null_Deref"
    unfolding at_answer_msg [OF v assms(3-5)] by simp
  moreover have "simcom_tasks h r u = command_state h AT_VERIFY_PDP_ADDRESS pdp_answer u"
    using assms(2) by (simp add: simcom_tasks_def view_def case_VERIFY_PDP_ADDRESS_def)
  ultimately show ?thesis
    using at_write_waiting [OF assms(2)] by (simp add: command_state_def)
qed

lemma cgpaddr_without_comma_faults_witness:
  "simcom_tasks demo_host (0, 0, 0, 0)
     (upd_sim (\<lambda>s. s\<lparr>pendingResponse := True, pendingATCommandParse := True,
        buffRecv := (CRLF @ ''+CGPADDR: 1'' @ CRLF) @ zeros 497\<rparr>)
       (demo_idle SIMCOM_STATE_VERIFY_PDP_ADDRESS)) = Inl Null_Deref"
proof (rule cgpaddr_without_comma_faults [where msg = "CRLF @ ''+CGPADDR: 1'' @ CRLF"])
  show "framed (CRLF @ ''+CGPADDR: 1'' @ CRLF)" by (rule framed_msg)
qed (use idle_demo_idle [of SIMCOM_STATE_VERIFY_PDP_ADDRESS] in \<open>simp_all add: idle_def view_def\<close>)

end
