(* ===== verification/Http_Parser.thy ===== *)
theory Http_Parser
  imports C_String
begin

text \<open>
  The HTTP parser (\<open>net/http_parser.c\<close>, \<open>net/http_parser.h\<close>; the chunked decoder is in
  Chunked_Decoder). A pointer into the buffer is modelled by the rest of the buffer from it to
  \<open>buf_end\<close>, so that \<open>*buf\<close> is the head of the list. A parser returns the parsed value and the
  new rest, or one of the codes \<open>-2\<close> (\<open>Partial\<close>) and \<open>-1\<close> (\<open>Failed\<close>); dereferencing
  \<open>buf_end\<close> is a result of its own (\<open>Overrun\<close>), which the theorems exclude.
\<close>

section \<open>Results\<close>

datatype 'a parsed = Parsed 'a string | Partial | Failed | Overrun

definition pbind :: "'a parsed \<Rightarrow> ('a \<Rightarrow> string \<Rightarrow> 'b parsed) \<Rightarrow> 'b parsed" where
  "pbind m f = (case m of Parsed a s \<Rightarrow> f a s | Partial \<Rightarrow> Partial | Failed \<Rightarrow> Failed | Overrun \<Rightarrow> Overrun)"

lemma pbind_simps [simp]:
  "pbind (Parsed a s) f = f a s" "pbind Partial f = Partial" "pbind Failed f = Failed"
  "pbind Overrun f = Overrun"
  by (simp_all add: pbind_def)

lemma pbind_Parsed_iff: "pbind m f = Parsed b r \<longleftrightarrow> (\<exists>a s. m = Parsed a s \<and> f a s = Parsed b r)"
  by (cases m) auto

lemma pbind_Failed_iff: "pbind m f = Failed \<longleftrightarrow> m = Failed \<or> (\<exists>a s. m = Parsed a s \<and> f a s = Failed)"
  by (cases m) auto

lemma pbind_Overrun_iff: "pbind m f = Overrun \<longleftrightarrow> m = Overrun \<or> (\<exists>a s. m = Parsed a s \<and> f a s = Overrun)"
  by (cases m) auto

section \<open>Character classes\<close>

text \<open>\<open>token_char_map\<close>, row by row.\<close>

definition token_char_map :: "bool list" where
  "token_char_map =
     replicate 32 False
     @ [False, True, False, True, True, True, True, True, False, False, True, True, False, True, True, False]
     @ replicate 10 True @ replicate 6 False
     @ [False] @ replicate 26 True @ [False, False, False, True, True]
     @ replicate 27 True @ [False, True, False, True, False]
     @ replicate 128 False"

definition token_char :: "char \<Rightarrow> bool" where
  "token_char c = token_char_map ! (of_char c)"

text \<open>\<open>IS_PRINTABLE_ASCII\<close>: the subtraction is unsigned, so smaller characters wrap around.\<close>

definition is_printable_ascii :: "char \<Rightarrow> bool" where
  "is_printable_ascii c \<longleftrightarrow> (of_char c - 0x20 :: u32) < 0x5F"

definition is_ctl :: "char \<Rightarrow> bool" where
  "is_ctl c \<longleftrightarrow> (of_char c :: nat) < 0x20 \<and> c \<noteq> TAB \<or> c = CHR 0x7F"

section \<open>The macros\<close>

text \<open>\<open>EXPECT_CHAR_NO_CHECK\<close>, and \<open>EXPECT_CHAR\<close> with \<open>CHECK_EOF\<close> before it.\<close>

definition EXPECT_CHAR_NO_CHECK :: "char \<Rightarrow> string \<Rightarrow> unit parsed" where
  "EXPECT_CHAR_NO_CHECK ch s =
     (case s of [] \<Rightarrow> Overrun | c # s' \<Rightarrow> if c \<noteq> ch then Failed else Parsed () s')"

definition EXPECT_CHAR :: "char \<Rightarrow> string \<Rightarrow> unit parsed" where
  "EXPECT_CHAR ch s = (if s = [] then Partial else EXPECT_CHAR_NO_CHECK ch s)"

text \<open>\<open>PARSE_INT\<close> and \<open>PARSE_INT_3\<close>\<close>

definition PARSE_INT :: "int \<Rightarrow> string \<Rightarrow> int parsed" where
  "PARSE_INT mul s =
     (case s of [] \<Rightarrow> Overrun
      | c # s' \<Rightarrow> if \<not> is_digit c then Failed else Parsed (mul * int (digit_val c)) s')"

definition PARSE_INT_3 :: "string \<Rightarrow> int parsed" where
  "PARSE_INT_3 s =
     pbind (PARSE_INT 100 s) (\<lambda>a s. pbind (PARSE_INT 10 s) (\<lambda>b s. pbind (PARSE_INT 1 s) (\<lambda>c s.
     Parsed (a + b + c) s)))"

text \<open>\<open>ADVANCE_TOKEN\<close>: up to a space; \<open>findchar_fast\<close> returns its argument and finds nothing.\<close>

definition findchar_fast :: "string \<Rightarrow> string \<times> bool" where
  "findchar_fast buf = (buf, False)"

fun advance_loop :: "string \<Rightarrow> string \<Rightarrow> string parsed" where
  "advance_loop acc [] = Overrun"
| "advance_loop acc (c # s) =
     (if c = SP then Parsed acc (c # s)
      else if \<not> is_printable_ascii c \<and> ((of_char c :: nat) < 0x20 \<or> c = CHR 0x7F) then Failed
      else if s = [] then Partial
      else advance_loop (acc @ [c]) s)"

definition ADVANCE_TOKEN :: "string \<Rightarrow> string parsed" where
  "ADVANCE_TOKEN s =
     (let (s, found) = findchar_fast s in
      if \<not> found \<and> s = [] then Partial else advance_loop [] s)"

section \<open>Tokens and lines\<close>

text \<open>\<open>parse_token\<close>\<close>

fun token_loop :: "char \<Rightarrow> string \<Rightarrow> string \<Rightarrow> string parsed" where
  "token_loop next acc [] = Overrun"
| "token_loop next acc (c # s) =
     (if c = next then Parsed acc (c # s)
      else if \<not> token_char c then Failed
      else if s = [] then Partial
      else token_loop next (acc @ [c]) s)"

definition parse_token :: "char \<Rightarrow> string \<Rightarrow> string parsed" where
  "parse_token next s =
     (let (s, found) = findchar_fast s in
      if \<not> found \<and> s = [] then Partial else token_loop next [] s)"

text \<open>
  \<open>get_token_to_eol\<close>. The first loop checks eight characters per round while eight are left
  (\<open>doit n\<close> is a run of \<open>n\<close> of the unrolled tests), the second one character per round. Both
  end at a control character, or at the end of the buffer.
\<close>

fun doit :: "nat \<Rightarrow> string \<Rightarrow> bool \<times> string" where
  "doit 0 s = (True, s)"
| "doit (Suc n) [] = (True, [])"
| "doit (Suc n) (c # s) = (if \<not> is_printable_ascii c then (False, c # s) else doit n s)"

fun eol_slow :: "string \<Rightarrow> string option" where
  "eol_slow [] = None"
| "eol_slow (c # s) = (if \<not> is_printable_ascii c \<and> is_ctl c then Some (c # s) else eol_slow s)"

lemma doit_length: "snd (doit n s) = drop (length s - length (snd (doit n s))) s \<and>
   length (snd (doit n s)) \<le> length s"
  by (induction n s rule: doit.induct) (auto simp: Suc_diff_le)

lemma doit_all: "doit n s = (True, t) \<Longrightarrow> length t = length s - n"
  by (induction n s rule: doit.induct) (auto split: if_splits)

function eol_fast :: "string \<Rightarrow> string option" where
  "eol_fast s =
     (if length s \<ge> 8 then
        case doit 8 s of
          (True, s') \<Rightarrow> eol_fast s'
        | (False, []) \<Rightarrow> None
        | (False, c # s') \<Rightarrow> if is_ctl c then Some (c # s') else eol_fast s'
      else eol_slow s)"
  by pat_completeness auto

lemma doit_measures:
  "(True, t) = doit n s \<Longrightarrow> length t = length s - n"
  "(False, c # t) = doit n s \<Longrightarrow> length t < length s"
  using doit_all [of n s t] doit_length [of n s] by (auto, metis Suc_le_eq length_Cons snd_conv)

termination eol_fast
  by (relation "measure length") (auto simp: doit_measures dest: doit_measures)

declare eol_fast.simps [simp del]

definition get_token_to_eol :: "string \<Rightarrow> string parsed" where
  "get_token_to_eol s =
     (case eol_fast s of
        None \<Rightarrow> Partial
      | Some [] \<Rightarrow> Overrun
      | Some (c # r) \<Rightarrow>
          let token = take (length s - length (c # r)) s in
          if c = CR then pbind (EXPECT_CHAR LF r) (\<lambda>_ r. Parsed token r)
          else if c = LF then Parsed token r
          else Failed)"

section \<open>Completeness check\<close>

text \<open>
  \<open>is_complete\<close>: the end of a message is an empty line; the search starts three characters
  before the part that was not seen yet. A start beyond the buffer would never meet its end.
\<close>

fun complete_loop :: "nat \<Rightarrow> string \<Rightarrow> unit parsed" where
  "complete_loop ret_cnt [] = Partial"
| "complete_loop ret_cnt (c # s) =
     (if c = CR then
        (case s of
           [] \<Rightarrow> Partial
         | c' # s' \<Rightarrow>
             if c' \<noteq> LF then Failed
             else if ret_cnt + 1 = 2 then Parsed () s' else complete_loop (ret_cnt + 1) s')
      else if c = LF then if ret_cnt + 1 = 2 then Parsed () s else complete_loop (ret_cnt + 1) s
      else complete_loop 0 s)"

definition is_complete :: "string \<Rightarrow> nat \<Rightarrow> unit parsed" where
  "is_complete buf last_len =
     (let start = (if last_len < 3 then 0 else last_len - 3) in
      if length buf < start then Overrun else complete_loop 0 (drop start buf))"

section \<open>Headers\<close>

text \<open>A header; the name of a continuation line is NULL.\<close>

record phr_header =
  hdr_name :: "string option"
  hdr_value :: string

text \<open>\<open>parse_http_version\<close>\<close>

definition parse_http_version :: "string \<Rightarrow> int parsed" where
  "parse_http_version s =
     (if length s < 9 then Partial
      else
        pbind (EXPECT_CHAR_NO_CHECK CHR ''H'' s) (\<lambda>_ s.
        pbind (EXPECT_CHAR_NO_CHECK CHR ''T'' s) (\<lambda>_ s.
        pbind (EXPECT_CHAR_NO_CHECK CHR ''T'' s) (\<lambda>_ s.
        pbind (EXPECT_CHAR_NO_CHECK CHR ''P'' s) (\<lambda>_ s.
        pbind (EXPECT_CHAR_NO_CHECK CHR ''/'' s) (\<lambda>_ s.
        pbind (EXPECT_CHAR_NO_CHECK CHR ''1'' s) (\<lambda>_ s.
        pbind (EXPECT_CHAR_NO_CHECK CHR ''.'' s) (\<lambda>_ s.
        PARSE_INT 1 s))))))))"

definition is_blank :: "char \<Rightarrow> bool" where
  "is_blank c \<longleftrightarrow> c = SP \<or> c = TAB"

fun skip_blanks :: "string \<Rightarrow> unit parsed" where
  "skip_blanks [] = Partial"
| "skip_blanks (c # s) = (if \<not> is_blank c then Parsed () (c # s) else skip_blanks s)"

text \<open>The removal of trailing blanks from a value.\<close>

definition trim_end :: "string \<Rightarrow> string" where
  "trim_end v = rev (dropWhile is_blank (rev v))"

text \<open>
  The name of the header at \<open>s\<close>, up to its value: unless the line starts with a blank and a
  header came before, a token that is not empty, the colon and blanks.
\<close>

definition header_name :: "nat \<Rightarrow> string \<Rightarrow> string option parsed" where
  "header_name num_headers s =
     (if \<not> (num_headers \<noteq> 0 \<and> s \<noteq> [] \<and> is_blank (hd s)) then
        pbind (parse_token CHR '':'' s) (\<lambda>name s.
        if name = [] then Failed
        else case s of [] \<Rightarrow> Overrun | _ # s \<Rightarrow> pbind (skip_blanks s) (\<lambda>_ s. Parsed (Some name) s))
      else Parsed None s)"

definition header_line :: "nat \<Rightarrow> string \<Rightarrow> phr_header parsed" where
  "header_line num_headers s =
     pbind (header_name num_headers s) (\<lambda>name s.
     pbind (get_token_to_eol s) (\<lambda>value s.
     Parsed \<lparr>hdr_name = name, hdr_value = trim_end value\<rparr> s))"

lemma pbind_cong [fundef_cong]:
  "m = m' \<Longrightarrow> (\<And>a s. m' = Parsed a s \<Longrightarrow> f a s = f' a s) \<Longrightarrow> pbind m f = pbind m' f'"
  by (cases m') simp_all

subsection \<open>What the parsers consume\<close>

lemma token_loop_rest: "token_loop next acc s = Parsed a r \<Longrightarrow> \<exists>u. s = u @ r \<and> a = acc @ u \<and> r \<noteq> [] \<and> hd r = next"
proof (induction "next" acc s rule: token_loop.induct)
  case (2 "next" acc c s)
  then show ?case by (auto split: if_splits)
qed simp

lemma parse_token_rest: "parse_token next s = Parsed a r \<Longrightarrow> s = a @ r \<and> r \<noteq> [] \<and> hd r = next"
  using token_loop_rest [of "next" "[]" s a r]
  by (auto simp: parse_token_def findchar_fast_def split: if_splits)

lemma skip_blanks_rest: "skip_blanks s = Parsed a r \<Longrightarrow> \<exists>u. s = u @ r \<and> r \<noteq> []"
  by (induction s) (auto split: if_splits)

lemma eol_slow_rest: "eol_slow s = Some r \<Longrightarrow> \<exists>u. s = u @ r \<and> r \<noteq> []"
proof (induction s)
  case (Cons c s)
  then show ?case by (auto split: if_splits)
qed simp

text \<open>The unrolled loop finds what the plain one finds.\<close>

lemma is_printable_iff: "is_printable_ascii c \<longleftrightarrow> 0x20 \<le> (of_char c :: nat) \<and> (of_char c :: nat) < 0x7F"
proof -
  let ?n = "of_char c :: nat"
  have w: "(of_char c :: u32) = of_nat ?n" by (rule of_nat_of_char [symmetric])
  have n: "?n < 256" by simp
  show ?thesis
  proof (cases "0x20 \<le> ?n")
    case True
    then have "(of_char c - 0x20 :: u32) = of_nat (?n - 0x20)" by (simp add: w of_nat_diff)
    moreover have "unat (of_nat (?n - 0x20) :: u32) = ?n - 0x20"
    proof (rule of_nat_inverse [OF refl])
      have "?n - 0x20 < 256" using n by linarith
      then show "?n - 0x20 < 2 ^ LENGTH(32)" by simp
    qed
    ultimately show ?thesis using True by (auto simp: is_printable_ascii_def word_less_nat_alt)
  next
    case False
    then have "(of_char c - 0x20 :: u32) = - of_nat (0x20 - ?n)" by (simp add: w of_nat_diff)
    moreover have "list_all (\<lambda>k. 0x5F \<le> (- of_nat k :: u32)) [1..<33]" by code_simp
    moreover have "0x20 - ?n \<in> set [1..<33]" using False by auto
    ultimately have "0x5F \<le> (of_char c - 0x20 :: u32)" by (simp only: list_all_iff)
    with False show ?thesis by (auto simp: is_printable_ascii_def)
  qed
qed

lemma doit_slow:
  "doit n s = (b, t) \<Longrightarrow> n \<le> length s \<Longrightarrow>
     eol_slow s = eol_slow t \<and> (\<not> b \<longrightarrow> (\<exists>c t'. t = c # t' \<and> \<not> is_printable_ascii c))"
  by (induction n s rule: doit.induct) (auto split: if_splits)

lemma eol_fast_slow: "eol_fast s = eol_slow s"
proof (induction s rule: eol_fast.induct)
  case (1 s)
  show ?case
  proof (cases "8 \<le> length s")
    case True
    obtain b t where d: "doit 8 s = (b, t)" by (cases "doit 8 s")
    from doit_slow [OF d True] have e: "eol_slow s = eol_slow t"
      and n: "\<not> b \<longrightarrow> (\<exists>c t'. t = c # t' \<and> \<not> is_printable_ascii c)" by blast+
    show ?thesis
    proof (cases b)
      case True
      with d e 1(1) \<open>8 \<le> length s\<close> show ?thesis by (simp add: eol_fast.simps [of s])
    next
      case False
      with n obtain c t' where "t = c # t'" "\<not> is_printable_ascii c" by blast
      with d e False 1(2) \<open>8 \<le> length s\<close> show ?thesis by (simp add: eol_fast.simps [of s])
    qed
  qed (simp add: eol_fast.simps [of s])
qed

lemma eol_rest:
  assumes "get_token_to_eol s = Parsed v r"
  shows "\<exists>u. s = u @ r \<and> u \<noteq> []"
proof -
  from assms obtain c t where t: "eol_slow s = Some (c # t)"
    by (auto simp: get_token_to_eol_def eol_fast_slow split: option.splits list.splits)
  obtain u where u: "s = u @ c # t" using eol_slow_rest [OF t] by auto
  from assms t show ?thesis
    by (auto simp: get_token_to_eol_def eol_fast_slow u Let_def pbind_Parsed_iff EXPECT_CHAR_def
        EXPECT_CHAR_NO_CHECK_def split: if_splits list.splits)
qed

lemma header_name_rest:
  assumes "header_name n s = Parsed a r" shows "\<exists>u. s = u @ r"
proof (cases "\<not> (n \<noteq> 0 \<and> s \<noteq> [] \<and> is_blank (hd s))")
  case True
  with assms obtain nm c t where t: "parse_token CHR '':'' s = Parsed nm (c # t)"
    and k: "skip_blanks t = Parsed () r"
    by (auto simp: header_name_def pbind_Parsed_iff split: if_splits list.splits)
  from skip_blanks_rest [OF k] obtain u where "t = u @ r" by blast
  with parse_token_rest [OF t] have "s = (nm @ c # u) @ r" by simp
  then show ?thesis by blast
qed (use assms in \<open>simp add: header_name_def\<close>)

lemma header_line_rest:
  assumes "header_line n s = Parsed h r" shows "\<exists>u. s = u @ r \<and> u \<noteq> []"
proof -
  from assms obtain nm t v where t: "header_name n s = Parsed nm t" and v: "get_token_to_eol t = Parsed v r"
    by (auto simp: header_line_def pbind_Parsed_iff)
  obtain u where "s = u @ t" using header_name_rest [OF t] by blast
  moreover obtain w where "t = w @ r" "w \<noteq> []" using eol_rest [OF v] by blast
  ultimately have "s = (u @ w) @ r \<and> u @ w \<noteq> []" by simp
  then show ?thesis by blast
qed

text \<open>\<open>parse_headers\<close>: the headers found so far are the argument \<open>hs\<close>.\<close>

function parse_headers :: "nat \<Rightarrow> phr_header list \<Rightarrow> string \<Rightarrow> phr_header list parsed" where
  "parse_headers max_headers hs s =
     (case s of
        [] \<Rightarrow> Partial
      | c # s' \<Rightarrow>
          if c = CR then pbind (EXPECT_CHAR LF s') (\<lambda>_ r. Parsed hs r)
          else if c = LF then Parsed hs s'
          else if length hs = max_headers then Failed
          else pbind (header_line (length hs) s) (\<lambda>h s. parse_headers max_headers (hs @ [h]) s))"
  by pat_completeness auto

termination parse_headers
proof (relation "measure (\<lambda>(_, _, s). length s)")
  fix max_headers and hs :: "phr_header list" and s c s' h t
  assume "header_line (length hs) s = Parsed h t"
  then show "((max_headers, hs @ [h], t), (max_headers, hs, s)) \<in> measure (\<lambda>(_, _, s). length s)"
    using header_line_rest by fastforce
qed simp

declare parse_headers.simps [simp del]

section \<open>Requests and responses\<close>

text \<open>The loop \<open>do { ++buf; CHECK_EOF (); } while (*buf == ' ');\<close>.\<close>

fun do_spaces :: "string \<Rightarrow> unit parsed" where
  "do_spaces [] = Overrun"
| "do_spaces (c # s) = (if s = [] then Partial else if hd s = SP then do_spaces s else Parsed () s)"

text \<open>The end of the request line.\<close>

definition line_end :: "string \<Rightarrow> unit parsed" where
  "line_end s =
     (case s of
        [] \<Rightarrow> Overrun
      | c # s' \<Rightarrow> if c = CR then EXPECT_CHAR LF s' else if c = LF then Parsed () s' else Failed)"

text \<open>The empty line that may come before a request.\<close>

definition skip_empty_line :: "string \<Rightarrow> unit parsed" where
  "skip_empty_line s =
     (case s of
        [] \<Rightarrow> Partial
      | c # s' \<Rightarrow> if c = CR then EXPECT_CHAR LF s' else if c = LF then Parsed () s' else Parsed () s)"

record phr_request =
  req_method :: string
  req_path :: string
  req_minor_version :: int
  req_headers :: "phr_header list"

definition parse_request :: "nat \<Rightarrow> string \<Rightarrow> phr_request parsed" where
  "parse_request max_headers s =
     pbind (skip_empty_line s) (\<lambda>_ s.
     pbind (parse_token SP s) (\<lambda>meth s.
     pbind (do_spaces s) (\<lambda>_ s.
     pbind (ADVANCE_TOKEN s) (\<lambda>path s.
     pbind (do_spaces s) (\<lambda>_ s.
     if meth = [] \<or> path = [] then Failed
     else
       pbind (parse_http_version s) (\<lambda>minor s.
       pbind (line_end s) (\<lambda>_ s.
       pbind (parse_headers max_headers [] s) (\<lambda>hs s.
       Parsed \<lparr>req_method = meth, req_path = path, req_minor_version = minor, req_headers = hs\<rparr> s))))))))"

record phr_response =
  resp_minor_version :: int
  resp_status :: int
  resp_msg :: string
  resp_headers :: "phr_header list"

text \<open>The space after the version, the status code, and the message with its leading spaces.\<close>

definition version_space :: "string \<Rightarrow> unit parsed" where
  "version_space s = (case s of [] \<Rightarrow> Overrun | c # _ \<Rightarrow> if c \<noteq> SP then Failed else do_spaces s)"

definition parse_status :: "string \<Rightarrow> int parsed" where
  "parse_status s = (if length s < 4 then Partial else PARSE_INT_3 s)"

text \<open>
  \<open>get_token_to_eol\<close> stops at a character that is not a space, so that the loop which removes
  the leading spaces ends at the latest there.
\<close>

definition status_msg :: "string \<Rightarrow> string parsed" where
  "status_msg s =
     pbind (get_token_to_eol s) (\<lambda>msg s.
     if msg = [] then Parsed msg s
     else if hd msg = SP then Parsed (dropWhile (\<lambda>c. c = SP) msg) s
     else Failed)"

definition parse_response :: "nat \<Rightarrow> string \<Rightarrow> phr_response parsed" where
  "parse_response max_headers s =
     pbind (parse_http_version s) (\<lambda>minor s.
     pbind (version_space s) (\<lambda>_ s.
     pbind (parse_status s) (\<lambda>st s.
     pbind (status_msg s) (\<lambda>msg s.
     pbind (parse_headers max_headers [] s) (\<lambda>hs s.
     Parsed \<lparr>resp_minor_version = minor, resp_status = st, resp_msg = msg, resp_headers = hs\<rparr> s)))))"

section \<open>Interface functions\<close>

text \<open>The return value: the number of bytes consumed, \<open>-1\<close> or \<open>-2\<close>; with the results.\<close>

definition phr_return :: "string \<Rightarrow> 'a parsed \<Rightarrow> (int \<times> 'a option) outcome" where
  "phr_return buf m =
     (case m of
        Parsed a r \<Rightarrow> Inr (int (length buf) - int (length r), Some a)
      | Partial \<Rightarrow> Inr (- 2, None)
      | Failed \<Rightarrow> Inr (- 1, None)
      | Overrun \<Rightarrow> Inl Out_Of_Bounds)"

text \<open>The check against \<open>last_len\<close>, and then the parser from the start of the buffer.\<close>

definition complete_then :: "string \<Rightarrow> nat \<Rightarrow> (string \<Rightarrow> 'a parsed) \<Rightarrow> 'a parsed" where
  "complete_then buf last_len p =
     (if last_len \<noteq> 0 then pbind (is_complete buf last_len) (\<lambda>_ _. p buf) else p buf)"

definition phr_parse_request :: "string \<Rightarrow> nat \<Rightarrow> nat \<Rightarrow> (int \<times> phr_request option) outcome" where
  "phr_parse_request buf max_headers last_len =
     phr_return buf (complete_then buf last_len (parse_request max_headers))"

definition phr_parse_response :: "string \<Rightarrow> nat \<Rightarrow> nat \<Rightarrow> (int \<times> phr_response option) outcome" where
  "phr_parse_response buf max_headers last_len =
     phr_return buf (complete_then buf last_len (parse_response max_headers))"

definition phr_parse_headers :: "string \<Rightarrow> nat \<Rightarrow> nat \<Rightarrow> (int \<times> phr_header list option) outcome" where
  "phr_parse_headers buf max_headers last_len =
     phr_return buf (complete_then buf last_len (parse_headers max_headers []))"

section \<open>The contract of a buffer parser\<close>

text \<open>
  What the callers of a parser rely on while a message arrives in pieces: it takes a prefix of
  the buffer, never looks beyond the buffer's end, and once it has decided, more data does not
  change its decision. \<open>bp P p Q\<close> says so for buffers with \<open>P\<close>, and that what is left has \<open>Q\<close>.
\<close>

definition bp_at :: "(string \<Rightarrow> 'a parsed) \<Rightarrow> string \<Rightarrow> (string \<Rightarrow> bool) \<Rightarrow> bool" where
  "bp_at p s Q \<longleftrightarrow>
     p s \<noteq> Overrun \<and>
     (\<forall>a r. p s = Parsed a r \<longrightarrow> Q r \<and> (\<exists>u. s = u @ r) \<and> (\<forall>e. p (s @ e) = Parsed a (r @ e))) \<and>
     (p s = Failed \<longrightarrow> (\<forall>e. p (s @ e) = Failed))"

definition bp :: "(string \<Rightarrow> bool) \<Rightarrow> (string \<Rightarrow> 'a parsed) \<Rightarrow> (string \<Rightarrow> bool) \<Rightarrow> bool" where
  "bp P p Q \<longleftrightarrow> (\<forall>s. P s \<longrightarrow> bp_at p s Q)"

text \<open>A parser that continues as another one after a part of the buffer.\<close>

lemma bp_at_prefix:
  assumes "bp_at f t Q" "s = w @ t" "\<And>e. p (s @ e) = f (t @ e)"
  shows "bp_at p s Q"
proof -
  have 0: "p s = f t" using assms(3) [of "[]"] by simp
  have "Q r \<and> (\<exists>u. s = u @ r) \<and> (\<forall>e. p (s @ e) = Parsed a (r @ e))" if "f t = Parsed a r" for a r
  proof -
    from that assms(1) obtain u where "Q r" "t = u @ r" "\<forall>e. f (t @ e) = Parsed a (r @ e)"
      unfolding bp_at_def by blast
    then have "Q r" "s = (w @ u) @ r" "\<forall>e. p (s @ e) = Parsed a (r @ e)" using assms(2,3) by simp_all
    then show ?thesis by blast
  qed
  with assms(1) show ?thesis unfolding bp_at_def 0 assms(3) by simp
qed

lemma bp_at_Partial: "p s = Partial \<Longrightarrow> bp_at p s Q"
  by (simp add: bp_at_def)

lemma bp_at_Failed: "(\<And>e. p (s @ e) = Failed) \<Longrightarrow> bp_at p s Q"
  using append_Nil2 [of s] by (metis bp_at_def parsed.distinct(3,12))

locale buffer_parser =
  fixes p :: "string \<Rightarrow> 'a parsed"
  assumes in_bounds: "p s \<noteq> Overrun"
    and consumes: "p s = Parsed a r \<Longrightarrow> \<exists>u. s = u @ r"
    and more_parsed: "p s = Parsed a r \<Longrightarrow> p (s @ e) = Parsed a (r @ e)"
    and more_failed: "p s = Failed \<Longrightarrow> p (s @ e) = Failed"
begin

lemma partial_prefix: "p (s @ e) = Partial \<Longrightarrow> p s = Partial"
proof (cases "p s")
  case (Parsed a r)
  then show "p (s @ e) = Partial \<Longrightarrow> p s = Partial" using more_parsed [OF Parsed] by simp
next
  case Failed
  then show "p (s @ e) = Partial \<Longrightarrow> p s = Partial" using more_failed [OF Failed] by simp
qed (use in_bounds in auto)

text \<open>The return value of the interface function does not depend on later data.\<close>

lemma return_stable:
  assumes "phr_return s (p s) = Inr (n, a)" "n \<noteq> - 2"
  shows "phr_return (s @ e) (p (s @ e)) = Inr (n, a)"
proof (cases "p s")
  case (Parsed b r)
  with assms more_parsed [OF Parsed, of e] show ?thesis by (simp add: phr_return_def)
next
  case Failed
  with assms more_failed [OF Failed, of e] show ?thesis by (simp add: phr_return_def)
qed (use assms in_bounds in \<open>auto simp: phr_return_def\<close>)

lemma return_range:
  assumes "phr_return s (p s) = Inr (n, a)"
  shows "n \<in> {- 2, - 1} \<or> 0 \<le> n \<and> n \<le> int (length s) \<and> a \<noteq> None"
proof (cases "p s")
  case (Parsed b r)
  with consumes [OF Parsed] assms show ?thesis by (auto simp: phr_return_def)
qed (use assms in_bounds in \<open>auto simp: phr_return_def\<close>)

lemma return_total: "\<exists>n a. phr_return s (p s) = Inr (n, a)"
  by (cases "p s") (use in_bounds in \<open>auto simp: phr_return_def\<close>)

end

lemma bp_buffer_parser: "bp (\<lambda>_. True) p Q \<Longrightarrow> buffer_parser p"
  unfolding bp_def bp_at_def by unfold_locales blast+

lemma bp_bind:
  assumes "bp P p Q" "\<And>a. bp Q (f a) R"
  shows "bp P (\<lambda>s. pbind (p s) f) R"
  unfolding bp_def
proof (intro allI impI)
  fix s assume s: "P s"
  then have p: "bp_at p s Q" using assms(1) by (simp add: bp_def)
  show "bp_at (\<lambda>s. pbind (p s) f) s R"
  proof (cases "p s")
    case (Parsed a r)
    with p obtain w where r: "Q r" "s = w @ r" "\<And>e. p (s @ e) = Parsed a (r @ e)"
      unfolding bp_at_def by blast
    from assms(2) r(1) have "bp_at (f a) r R" by (simp add: bp_def)
    then show ?thesis by (rule bp_at_prefix [OF _ r(2)]) (simp add: r(3))
  next
    case Partial
    then show ?thesis by (simp add: bp_at_Partial)
  next
    case Failed
    with p have "p (s @ e) = Failed" for e by (simp add: bp_at_def)
    then show ?thesis by (simp add: bp_at_Failed)
  qed (use p in \<open>simp add: bp_at_def\<close>)
qed

lemma bp_return [simp]: "bp P (Parsed a) P"
  by (simp add: bp_def bp_at_def)

lemma bp_failed [simp]: "bp P (\<lambda>_. Failed) Q"
  by (simp add: bp_def bp_at_def)

lemma bp_weaken: "bp P p Q \<Longrightarrow> (\<And>s. P' s \<Longrightarrow> P s) \<Longrightarrow> (\<And>s. Q s \<Longrightarrow> Q' s) \<Longrightarrow> bp P' p Q'"
  unfolding bp_def bp_at_def by blast

text \<open>The two conditions that occur: none, and that a character is left.\<close>

abbreviation (input) anyb :: "string \<Rightarrow> bool" where "anyb \<equiv> \<lambda>_. True"
abbreviation (input) some_left :: "string \<Rightarrow> bool" where "some_left \<equiv> \<lambda>s. s \<noteq> []"

lemma bp_EXPECT_CHAR: "bp anyb (EXPECT_CHAR ch) anyb"
  unfolding bp_def bp_at_def EXPECT_CHAR_def EXPECT_CHAR_NO_CHECK_def
  by (auto split: list.splits if_splits)

lemma token_loop_append:
  "s \<noteq> [] \<Longrightarrow> token_loop nx acc s \<noteq> Overrun \<and>
     (\<forall>a r. token_loop nx acc s = Parsed a r \<longrightarrow> token_loop nx acc (s @ e) = Parsed a (r @ e)) \<and>
     (token_loop nx acc s = Failed \<longrightarrow> token_loop nx acc (s @ e) = Failed)"
proof (induction nx acc s rule: token_loop.induct)
  case (2 nx acc c s)
  then show ?case by (cases "s = []") auto
qed simp

lemma bp_parse_token: "bp anyb (parse_token nx) some_left"
  unfolding bp_def
proof (intro allI impI)
  fix s
  show "bp_at (parse_token nx) s some_left"
    using token_loop_append [of s nx "[]"] parse_token_rest [of nx s]
    by (cases "s = []") (auto simp: parse_token_def findchar_fast_def bp_at_def)
qed

lemma advance_loop_rest: "advance_loop acc s = Parsed a r \<Longrightarrow> \<exists>u. s = u @ r \<and> a = acc @ u \<and> r \<noteq> [] \<and> hd r = SP"
proof (induction acc s rule: advance_loop.induct)
  case (2 acc c s)
  then show ?case by (auto split: if_splits)
qed simp

lemma advance_loop_append:
  "s \<noteq> [] \<Longrightarrow> advance_loop acc s \<noteq> Overrun \<and>
     (\<forall>a r. advance_loop acc s = Parsed a r \<longrightarrow> advance_loop acc (s @ e) = Parsed a (r @ e)) \<and>
     (advance_loop acc s = Failed \<longrightarrow> advance_loop acc (s @ e) = Failed)"
proof (induction acc s rule: advance_loop.induct)
  case (2 acc c s)
  then show ?case by (cases "s = []") auto
qed simp

lemma bp_ADVANCE_TOKEN: "bp anyb ADVANCE_TOKEN some_left"
  unfolding bp_def
proof (intro allI impI)
  fix s
  show "bp_at ADVANCE_TOKEN s some_left"
    using advance_loop_append [of s "[]"] advance_loop_rest [of "[]" s]
    by (cases "s = []") (auto simp: ADVANCE_TOKEN_def findchar_fast_def bp_at_def)
qed

lemma eol_slow_append: "eol_slow s = Some r \<Longrightarrow> eol_slow (s @ e) = Some (r @ e)"
  by (induction s) (auto split: if_splits)

lemma get_token_slow:
  "eol_slow s = None \<Longrightarrow> get_token_to_eol s = Partial"
  "eol_slow (u @ c # t) = Some (c # t) \<Longrightarrow> get_token_to_eol (u @ c # t) =
     (if c = CR then pbind (EXPECT_CHAR LF t) (\<lambda>_ r. Parsed u r)
      else if c = LF then Parsed u t else Failed)"
  by (simp_all add: get_token_to_eol_def eol_fast_slow)

lemma bp_get_token_to_eol: "bp anyb get_token_to_eol anyb"
  unfolding bp_def
proof (intro allI impI)
  fix s
  show "bp_at get_token_to_eol s anyb"
  proof (cases "eol_slow s")
    case None
    then show ?thesis by (simp add: get_token_slow bp_at_Partial)
  next
    case (Some q)
    then obtain u c t where s: "s = u @ c # t" "q = c # t"
      using eol_slow_rest [OF Some] by (metis neq_Nil_conv)
    let ?f = "\<lambda>t. if c = CR then pbind (EXPECT_CHAR LF t) (\<lambda>_ r. Parsed u r)
        else if c = LF then Parsed u t else Failed"
    have "bp anyb ?f anyb"
      by (cases "c = CR"; cases "c = LF") (simp_all add: bp_bind [OF bp_EXPECT_CHAR])
    then have "bp_at ?f t anyb" by (simp add: bp_def)
    then show ?thesis
    proof (rule bp_at_prefix [where w = "u @ [c]"])
      show "get_token_to_eol (s @ e) = ?f (t @ e)" for e
        using Some s eol_slow_append [of s q e] get_token_slow(2) [of u c "t @ e"] by simp
    qed (simp add: s)
  qed
qed

lemma bp_skip_blanks: "bp anyb skip_blanks some_left"
proof -
  have "skip_blanks s \<noteq> Overrun" "skip_blanks s \<noteq> Failed" for s
    by (induction s) auto
  moreover have "skip_blanks s = Parsed a r \<Longrightarrow> skip_blanks (s @ e) = Parsed a (r @ e)" for s a r e
    by (induction s) (auto split: if_splits)
  ultimately show ?thesis unfolding bp_def bp_at_def using skip_blanks_rest by blast
qed

lemma bp_tail:
  assumes "bp anyb p Q"
  shows "bp some_left (\<lambda>s. case s of [] \<Rightarrow> Overrun | _ # s \<Rightarrow> p s) Q"
  unfolding bp_def
proof (intro allI impI)
  fix s :: string assume "s \<noteq> []"
  then obtain c t where s: "s = [c] @ t" by (cases s) auto
  have "bp_at p t Q" using assms by (simp add: bp_def)
  then show "bp_at (\<lambda>s. case s of [] \<Rightarrow> Overrun | _ # s \<Rightarrow> p s) s Q"
    by (rule bp_at_prefix [OF _ s]) (simp add: s)
qed

lemma bp_if: "bp P p Q \<Longrightarrow> bp P q Q \<Longrightarrow> bp P (\<lambda>s. if b then p s else q s) Q"
  by (cases b) simp_all

lemma bp_header_name: "bp some_left (header_name n) anyb"
  unfolding bp_def
proof (intro allI impI)
  fix s :: string assume "s \<noteq> []"
  let ?t = "\<lambda>s. pbind (parse_token CHR '':'' s) (\<lambda>name s.
        if name = [] then Failed
        else case s of [] \<Rightarrow> Overrun | _ # s \<Rightarrow> pbind (skip_blanks s) (\<lambda>_ s. Parsed (Some name) s))"
  have skip: "bp anyb (\<lambda>s. pbind (skip_blanks s) (\<lambda>_ s. Parsed (Some name) s)) anyb" for name
    by (rule bp_bind [OF bp_weaken [OF bp_skip_blanks] bp_return]) simp_all
  have "bp anyb ?t anyb"
    by (rule bp_bind [OF bp_parse_token bp_if [OF bp_failed bp_tail [OF skip]]])
  then have t: "bp_at ?t s anyb" by (simp add: bp_def)
  show "bp_at (header_name n) s anyb"
  proof (cases "n \<noteq> 0 \<and> is_blank (hd s)")
    case True
    with \<open>s \<noteq> []\<close> have n: "header_name n (s @ e) = Parsed None (s @ e)" for e
      by (simp add: header_name_def)
    have "bp_at (Parsed None) s anyb" by (simp add: bp_at_def)
    then show ?thesis by (rule bp_at_prefix [where w = "[]"]) (simp, rule n)
  next
    case False
    show ?thesis
      by (rule bp_at_prefix [OF t, where w = "[]"]) (use False \<open>s \<noteq> []\<close> in \<open>auto simp: header_name_def\<close>)
  qed
qed

lemma bp_header_line: "bp some_left (header_line n) anyb"
  unfolding header_line_def
  by (rule bp_bind [OF bp_header_name], rule bp_bind [OF bp_get_token_to_eol], rule bp_return)

lemma parse_headers_unfold:
  "parse_headers m hs [] = Partial"
  "parse_headers m hs (c # s) =
     (if c = CR then pbind (EXPECT_CHAR LF s) (\<lambda>_ r. Parsed hs r)
      else if c = LF then Parsed hs s
      else if length hs = m then Failed
      else pbind (header_line (length hs) (c # s)) (\<lambda>h s. parse_headers m (hs @ [h]) s))"
  by (subst parse_headers.simps; simp)+

lemma parse_headers_at: "bp_at (parse_headers m hs) s anyb"
proof (induction m hs s rule: parse_headers.induct)
  case (1 m hs s)
  show ?case
  proof (cases s)
    case Nil
    then show ?thesis by (simp add: parse_headers_unfold bp_at_Partial)
  next
    case (Cons c s')
    show ?thesis
    proof (cases "c = CR \<or> c = LF \<or> length hs = m")
      case True
      let ?f = "\<lambda>s'. if c = CR then pbind (EXPECT_CHAR LF s') (\<lambda>_ r. Parsed hs r)
        else if c = LF then Parsed hs s' else Failed"
      have "bp anyb ?f anyb"
        by (cases "c = CR"; cases "c = LF") (simp_all add: bp_bind [OF bp_EXPECT_CHAR])
      then have "bp_at ?f s' anyb" by (simp add: bp_def)
      then show ?thesis
        by (rule bp_at_prefix [where w = "[c]"]) (use True Cons in \<open>auto simp: parse_headers_unfold\<close>)
    next
      case False
      have l: "bp_at (header_line (length hs)) s anyb"
        using bp_header_line Cons by (simp add: bp_def)
      have u: "parse_headers m hs (s @ e) =
          pbind (header_line (length hs) (s @ e)) (\<lambda>h s. parse_headers m (hs @ [h]) s)" for e
        using False Cons by (simp add: parse_headers_unfold)
      show ?thesis
      proof (cases "header_line (length hs) s")
        case (Parsed h t)
        with l obtain w where r: "s = w @ t" "\<And>e. header_line (length hs) (s @ e) = Parsed h (t @ e)"
          unfolding bp_at_def by blast
        have "bp_at (parse_headers m (hs @ [h])) t anyb"
          using 1 [OF Cons _ _ _ Parsed] False by blast
        then show ?thesis by (rule bp_at_prefix [OF _ r(1)]) (simp add: u r(2))
      next
        case Partial
        then show ?thesis using u [of "[]"] by (simp add: bp_at_Partial)
      next
        case Failed
        with l have "header_line (length hs) (s @ e) = Failed" for e by (simp add: bp_at_def)
        then show ?thesis by (simp add: bp_at_Failed u)
      qed (use l in \<open>simp add: bp_at_def\<close>)
    qed
  qed
qed

lemma bp_parse_headers: "bp anyb (parse_headers m hs) anyb"
  by (simp add: bp_def parse_headers_at)

abbreviation (input) at_least :: "nat \<Rightarrow> string \<Rightarrow> bool" where "at_least n \<equiv> \<lambda>s. n \<le> length s"

lemma bp_EXPECT_CHAR_NO_CHECK: "bp (at_least (Suc n)) (EXPECT_CHAR_NO_CHECK ch) (at_least n)"
  unfolding bp_def bp_at_def EXPECT_CHAR_NO_CHECK_def
  by (auto split: list.splits if_splits)

lemma bp_PARSE_INT: "bp (at_least (Suc n)) (PARSE_INT k) (at_least n)"
  unfolding bp_def bp_at_def PARSE_INT_def
  by (auto split: list.splits if_splits)

lemma bp_at_least: "bp (at_least n) p Q \<Longrightarrow> bp anyb (\<lambda>s. if length s < n then Partial else p s) Q"
  unfolding bp_def
proof (intro allI impI)
  fix s
  assume p: "\<forall>s. n \<le> length s \<longrightarrow> bp_at p s Q"
  show "bp_at (\<lambda>s. if length s < n then Partial else p s) s Q"
  proof (cases "length s < n")
    case False
    with p have "bp_at p s Q" by simp
    then show ?thesis by (rule bp_at_prefix [where w = "[]"]) (use False in simp_all)
  qed (simp add: bp_at_Partial)
qed

lemma bp_parse_http_version: "bp anyb parse_http_version some_left"
proof -
  have "bp (at_least (Suc 8)) (\<lambda>s.
        pbind (EXPECT_CHAR_NO_CHECK CHR ''H'' s) (\<lambda>_ s.
        pbind (EXPECT_CHAR_NO_CHECK CHR ''T'' s) (\<lambda>_ s.
        pbind (EXPECT_CHAR_NO_CHECK CHR ''T'' s) (\<lambda>_ s.
        pbind (EXPECT_CHAR_NO_CHECK CHR ''P'' s) (\<lambda>_ s.
        pbind (EXPECT_CHAR_NO_CHECK CHR ''/'' s) (\<lambda>_ s.
        pbind (EXPECT_CHAR_NO_CHECK CHR ''1'' s) (\<lambda>_ s.
        pbind (EXPECT_CHAR_NO_CHECK CHR ''.'' s) (\<lambda>_ s.
        PARSE_INT 1 s)))))))) (at_least 1)"
    unfolding numeral_eq_Suc pred_numeral_simps One_nat_def BitM.simps
    by (intro bp_bind [OF bp_EXPECT_CHAR_NO_CHECK] bp_PARSE_INT)
  then have "bp anyb parse_http_version (at_least 1)"
    using bp_at_least [where n = 9] by (simp add: parse_http_version_def [abs_def])
  then show ?thesis by (rule bp_weaken) auto
qed

lemma bp_parse_status: "bp anyb parse_status anyb"
proof -
  have "bp (at_least (Suc 3)) PARSE_INT_3 (at_least 1)"
    unfolding PARSE_INT_3_def numeral_eq_Suc pred_numeral_simps One_nat_def BitM.simps
    by (intro bp_bind [OF bp_PARSE_INT] bp_return)
  then have "bp (at_least 4) PARSE_INT_3 anyb" by (auto intro: bp_weaken)
  then show ?thesis unfolding parse_status_def [abs_def] by (rule bp_at_least)
qed

lemma bp_do_spaces: "bp some_left do_spaces some_left"
proof -
  have "s \<noteq> [] \<Longrightarrow> bp_at do_spaces s some_left" for s
  proof (induction s)
    case (Cons c s)
    show ?case
    proof (cases "s = []")
      case False
      have "bp_at (if hd s = SP then do_spaces else Parsed ()) s some_left"
        using Cons False by (simp add: bp_at_def)
      then show ?thesis by (rule bp_at_prefix [where w = "[c]"]) (use False in simp_all)
    qed (simp add: bp_at_Partial)
  qed simp
  then show ?thesis by (simp add: bp_def)
qed

lemma bp_eol_char:
  "bp anyb (\<lambda>s. if c = CR then EXPECT_CHAR LF s else if c = LF then Parsed () s else Failed) anyb"
  by (cases "c = CR"; cases "c = LF") (simp_all add: bp_EXPECT_CHAR)

lemma bp_line_end: "bp some_left line_end anyb"
  unfolding bp_def
proof (intro allI impI)
  fix s :: string assume "s \<noteq> []"
  then obtain c t where s: "s = [c] @ t" by (cases s) auto
  have "bp_at (\<lambda>s. if c = CR then EXPECT_CHAR LF s else if c = LF then Parsed () s else Failed) t anyb"
    using bp_eol_char by (simp add: bp_def)
  then show "bp_at line_end s anyb"
    by (rule bp_at_prefix [OF _ s]) (simp add: s line_end_def)
qed

lemma bp_skip_empty_line: "bp anyb skip_empty_line anyb"
  unfolding bp_def
proof (intro allI impI)
  fix s :: string
  show "bp_at skip_empty_line s anyb"
  proof (cases s)
    case (Cons c t)
    show ?thesis
    proof (cases "c = CR \<or> c = LF")
      case True
      have "bp_at (\<lambda>s. if c = CR then EXPECT_CHAR LF s else if c = LF then Parsed () s else Failed) t anyb"
        using bp_eol_char by (simp add: bp_def)
      then show ?thesis
        by (rule bp_at_prefix [where w = "[c]"]) (use True Cons in \<open>auto simp: skip_empty_line_def\<close>)
    qed (simp add: Cons bp_at_def skip_empty_line_def)
  qed (simp add: bp_at_Partial skip_empty_line_def)
qed

lemma bp_version_space: "bp some_left version_space some_left"
  unfolding bp_def
proof (intro allI impI)
  fix s :: string assume "s \<noteq> []"
  then obtain c t where s: "s = c # t" by (cases s) auto
  then have "bp_at (if c \<noteq> SP then (\<lambda>_. Failed) else do_spaces) s some_left"
    using bp_do_spaces by (simp add: bp_def bp_at_def)
  then show "bp_at version_space s some_left"
    by (rule bp_at_prefix [where w = "[]"]) (simp_all add: s version_space_def)
qed

lemma bp_status_msg: "bp anyb status_msg anyb"
  unfolding status_msg_def [abs_def] by (intro bp_bind [OF bp_get_token_to_eol] bp_if) simp_all

lemma bp_parse_request: "bp anyb (parse_request m) anyb"
proof -
  have v: "bp some_left parse_http_version some_left" and t: "bp anyb (parse_token SP) some_left"
    by (rule bp_weaken [OF bp_parse_http_version] bp_parse_token; simp)+
  have a: "bp some_left ADVANCE_TOKEN some_left" by (rule bp_weaken [OF bp_ADVANCE_TOKEN]) simp_all
  show ?thesis unfolding parse_request_def [abs_def]
    by (intro bp_bind [OF bp_skip_empty_line] bp_bind [OF t] bp_bind [OF bp_do_spaces]
        bp_bind [OF a] bp_if bp_failed bp_bind [OF v] bp_bind [OF bp_line_end]
        bp_bind [OF bp_parse_headers] bp_return)
qed

lemma bp_parse_response: "bp anyb (parse_response m) anyb"
proof -
  have s: "bp some_left parse_status anyb" by (rule bp_weaken [OF bp_parse_status]) simp_all
  show ?thesis unfolding parse_response_def [abs_def]
    by (intro bp_bind [OF bp_parse_http_version] bp_bind [OF bp_version_space] bp_bind [OF s]
        bp_bind [OF bp_status_msg] bp_bind [OF bp_parse_headers] bp_return)
qed

interpretation headers_parser: buffer_parser "parse_headers m hs"
  by (rule bp_buffer_parser [OF bp_parse_headers])

interpretation request_parser: buffer_parser "parse_request m"
  by (rule bp_buffer_parser [OF bp_parse_request])

interpretation response_parser: buffer_parser "parse_response m"
  by (rule bp_buffer_parser [OF bp_parse_response])

section \<open>The completeness check\<close>

lemma complete_loop_in_bounds: "complete_loop n s \<noteq> Overrun"
proof (induction n s rule: complete_loop.induct)
  case (2 n c s)
  then show ?case by (auto split: list.splits)
qed simp

lemma complete_then_range:
  assumes "last_len \<le> length buf + 3" "buffer_parser p"
  shows "\<exists>n a. phr_return buf (complete_then buf last_len p) = Inr (n, a) \<and>
     (n \<in> {- 2, - 1} \<or> 0 \<le> n \<and> n \<le> int (length buf) \<and> a \<noteq> None)"
proof -
  have p: "\<exists>n a. phr_return buf (p buf) = Inr (n, a)" "phr_return buf (p buf) = Inr (n, a) \<Longrightarrow>
      n \<in> {- 2, - 1} \<or> 0 \<le> n \<and> n \<le> int (length buf) \<and> a \<noteq> None" for n a
    by (rule buffer_parser.return_total [OF assms(2)]) (rule buffer_parser.return_range [OF assms(2)])
  have i: "is_complete buf last_len \<noteq> Overrun"
    using assms(1) by (auto simp: is_complete_def complete_loop_in_bounds Let_def)
  show ?thesis
  proof (cases "last_len = 0")
    case True
    with p show ?thesis by (fastforce simp: complete_then_def)
  next
    case False
    with p i show ?thesis
      by (cases "is_complete buf last_len") (fastforce simp: complete_then_def phr_return_def)+
  qed
qed

section \<open>Properties\<close>

text \<open>
  C30: On every buffer, and with every \<open>last_len\<close> that is not beyond the buffer's end, the three
  parsers of the interface return without reading past the end of the buffer; the value is
  \<open>-2\<close>, \<open>-1\<close>, or a number of consumed bytes that lies in the buffer.
\<close>

theorem parsers_stay_in_buffer:
  assumes "last_len \<le> length buf"
  shows "(\<exists>n a. phr_parse_request buf m last_len = Inr (n, a) \<and> - 2 \<le> n \<and> n \<le> int (length buf)) \<and>
    (\<exists>n a. phr_parse_response buf m last_len = Inr (n, a) \<and> - 2 \<le> n \<and> n \<le> int (length buf)) \<and>
    (\<exists>n a. phr_parse_headers buf m last_len = Inr (n, a) \<and> - 2 \<le> n \<and> n \<le> int (length buf))"
proof -
  have l: "last_len \<le> length buf + 3" using assms by simp
  note r = complete_then_range [OF l request_parser.buffer_parser_axioms, of m]
    complete_then_range [OF l response_parser.buffer_parser_axioms, of m]
    complete_then_range [OF l headers_parser.buffer_parser_axioms, of m "[]"]
  then show ?thesis
    unfolding phr_parse_request_def phr_parse_response_def phr_parse_headers_def by fastforce
qed

theorem parsers_stay_in_buffer_witness:
  "\<exists>n a. phr_parse_request (''GET /'' @ [CR]) 4 3 = Inr (n, a) \<and> - 2 \<le> n \<and> n \<le> 6"
  using parsers_stay_in_buffer [of 3 "''GET /'' @ [CR]" 4] by simp

text \<open>
  C28: Once a parser has accepted or rejected the bytes received so far, the bytes that arrive
  later do not change its return value or what it has parsed: only \<open>-2\<close> asks for more.
\<close>

theorem parsers_are_incremental:
  "(phr_parse_request buf m 0 = Inr (n, rq) \<and> n \<noteq> - 2 \<longrightarrow> phr_parse_request (buf @ e) m 0 = Inr (n, rq)) \<and>
   (phr_parse_response buf m 0 = Inr (n, rs) \<and> n \<noteq> - 2 \<longrightarrow> phr_parse_response (buf @ e) m 0 = Inr (n, rs)) \<and>
   (phr_parse_headers buf m 0 = Inr (n, hs) \<and> n \<noteq> - 2 \<longrightarrow> phr_parse_headers (buf @ e) m 0 = Inr (n, hs))"
  unfolding phr_parse_request_def phr_parse_response_def phr_parse_headers_def complete_then_def
  using request_parser.return_stable [of buf m n rq e] response_parser.return_stable [of buf m n rs e]
    headers_parser.return_stable [of buf m "[]" n hs e]
  by simp

theorem parsers_are_incremental_witness:
  "phr_parse_headers (''A:b'' @ [LF] @ [LF] @ ''rest'') 1 0 = Inr (5, Some [\<lparr>hdr_name = Some ''A'', hdr_value = ''b''\<rparr>])"
proof -
  have "phr_parse_headers (''A:b'' @ [LF] @ [LF]) 1 0 = Inr (5, Some [\<lparr>hdr_name = Some ''A'', hdr_value = ''b''\<rparr>])"
    by code_simp
  then show ?thesis
    using parsers_are_incremental [of "''A:b'' @ [LF] @ [LF]" 1 5 None "''rest''" None
        "Some [\<lparr>hdr_name = Some ''A'', hdr_value = ''b''\<rparr>]"]
    by simp
qed

section \<open>Reference definitions\<close>

lemma is_ctl_not_printable: "is_ctl c \<Longrightarrow> \<not> is_printable_ascii c"
  by (auto simp: is_ctl_def is_printable_iff)

lemma eol_slow_dropWhile:
  "eol_slow s = (case dropWhile (\<lambda>c. \<not> is_ctl c) s of [] \<Rightarrow> None | r \<Rightarrow> Some r)"
  by (induction s) (auto simp: is_ctl_not_printable)

lemma eol_slow_split: "list_all (\<lambda>c. \<not> is_ctl c) u \<Longrightarrow> is_ctl c \<Longrightarrow> eol_slow (u @ c # t) = Some (c # t)"
  by (simp add: eol_slow_dropWhile dropWhile_append2 list_all_iff)

lemma eol_take:
  "dropWhile (\<lambda>c. \<not> is_ctl c) s = r \<Longrightarrow> take (length s - length r) s = takeWhile (\<lambda>c. \<not> is_ctl c) s"
  using takeWhile_dropWhile_id [of "\<lambda>c. \<not> is_ctl c" s]
  by (metis append_eq_conv_conj diff_add_inverse2 length_append)

lemma is_ctl_eol [simp]: "is_ctl CR" "is_ctl LF" "\<not> is_ctl SP" "\<not> is_ctl TAB"
  by (simp_all add: is_ctl_def)

text \<open>
  The unrolled search for the end of a line agrees with the plain definition: the token is
  the longest prefix without control characters other than the tab, it has to be followed by
  LF or by CR LF, and a buffer that ends before that asks for more.
\<close>

lemma get_token_to_eol_reference:
  "get_token_to_eol s =
     (let token = takeWhile (\<lambda>c. \<not> is_ctl c) s in
      case dropWhile (\<lambda>c. \<not> is_ctl c) s of
        [] \<Rightarrow> Partial
      | c # r \<Rightarrow>
          if c = LF then Parsed token r
          else if c \<noteq> CR then Failed
          else case r of [] \<Rightarrow> Partial | c' # r' \<Rightarrow> if c' = LF then Parsed token r' else Failed)"
proof -
  show ?thesis
  proof (cases "dropWhile (\<lambda>c. \<not> is_ctl c) s")
    case (Cons c r)
    with eol_take [OF Cons] show ?thesis
      by (simp add: get_token_to_eol_def eol_fast_slow eol_slow_dropWhile EXPECT_CHAR_def
          EXPECT_CHAR_NO_CHECK_def Let_def split: list.splits)
  qed (simp add: get_token_to_eol_def eol_fast_slow eol_slow_dropWhile Let_def del: dropWhile_eq_Nil_conv)
qed

text \<open>
  The table of token characters is the \<open>tchar\<close> of RFC 7230: the digits (48 to 57), the
  upper case (65 to 90) and lower case letters (97 to 122) and the fifteen punctuation characters
  \<open>! # $ % & ' * + - . ^ _ ` | ~\<close>.
\<close>

lemma token_char_tchar:
  "token_char c \<longleftrightarrow>
     (let n = of_char c :: nat in
        48 \<le> n \<and> n \<le> 57 \<or> 65 \<le> n \<and> n \<le> 90 \<or> 97 \<le> n \<and> n \<le> 122 \<or>
        n \<in> {33, 35, 36, 37, 38, 39, 42, 43, 45, 46, 94, 95, 96, 124, 126})"
proof -
  define n where "n = (of_char c :: nat)"
  have "n < 256" by (simp add: n_def)
  then show ?thesis unfolding token_char_def n_def [symmetric] token_char_map_def Let_def
    by (simp add: nth_append nth_Cons') (intro conjI impI; linarith)
qed

section \<open>What is parsed\<close>

definition token_ok :: "string \<Rightarrow> bool" where
  "token_ok t \<longleftrightarrow> t \<noteq> [] \<and> list_all token_char t"

definition value_ok :: "string \<Rightarrow> bool" where
  "value_ok v \<longleftrightarrow> list_all (\<lambda>c. \<not> is_ctl c) v \<and> (v \<noteq> [] \<longrightarrow> \<not> is_blank (last v))"

text \<open>A header that is not the first one may be the continuation of the one before it.\<close>

definition header_ok :: "phr_header \<Rightarrow> bool" where
  "header_ok h \<longleftrightarrow> value_ok (hdr_value h) \<and> (hdr_name h \<noteq> None \<longrightarrow> token_ok (the (hdr_name h)))"

definition headers_ok :: "phr_header list \<Rightarrow> bool" where
  "headers_ok hs \<longleftrightarrow> list_all header_ok hs \<and> (hs \<noteq> [] \<longrightarrow> hdr_name (hd hs) \<noteq> None)"

lemma token_loop_chars: "token_loop nx acc s = Parsed a r \<Longrightarrow> list_all token_char acc \<Longrightarrow> list_all token_char a"
proof (induction nx acc s rule: token_loop.induct)
  case (2 nx acc c s)
  then show ?case by (auto split: if_splits)
qed simp

lemma parse_token_chars: "parse_token nx s = Parsed a r \<Longrightarrow> list_all token_char a"
  using token_loop_chars [of nx "[]" s a r]
  by (auto simp: parse_token_def findchar_fast_def split: if_splits)

lemma get_token_chars: "get_token_to_eol s = Parsed v r \<Longrightarrow> list_all (\<lambda>c. \<not> is_ctl c) v"
proof -
  assume v: "get_token_to_eol s = Parsed v r"
  then obtain c t where d: "dropWhile (\<lambda>c. \<not> is_ctl c) s = c # t"
    by (cases "dropWhile (\<lambda>c. \<not> is_ctl c) s")
      (simp_all add: get_token_to_eol_def eol_fast_slow eol_slow_dropWhile del: dropWhile_eq_Nil_conv)
  with v have "v = takeWhile (\<lambda>c. \<not> is_ctl c) s"
    by (simp add: get_token_to_eol_def eol_fast_slow eol_slow_dropWhile Let_def pbind_Parsed_iff
        eol_take [OF d, simplified] split: if_splits)
  then show ?thesis by (auto simp: list_all_iff dest: set_takeWhileD)
qed

lemma trim_end_ok:
  assumes "list_all (\<lambda>c. \<not> is_ctl c) v" shows "value_ok (trim_end v)"
proof -
  have "set (trim_end v) \<subseteq> set v" by (auto simp: trim_end_def dest: set_dropWhileD)
  moreover have "trim_end v \<noteq> [] \<Longrightarrow> \<not> is_blank (last (trim_end v))"
    using hd_dropWhile [of is_blank "rev v"] by (simp add: trim_end_def last_rev)
  ultimately show ?thesis using assms by (auto simp: value_ok_def list_all_iff)
qed

lemma header_line_ok:
  assumes "header_line n s = Parsed h r"
  shows "header_ok h \<and> (n = 0 \<longrightarrow> hdr_name h \<noteq> None)"
proof -
  from assms obtain nm t v where nm: "header_name n s = Parsed nm t" and v: "get_token_to_eol t = Parsed v r"
    and h: "h = \<lparr>hdr_name = nm, hdr_value = trim_end v\<rparr>"
    by (auto simp: header_line_def pbind_Parsed_iff)
  have "nm \<noteq> None \<longrightarrow> token_ok (the nm)" "n = 0 \<longrightarrow> nm \<noteq> None"
    using nm by (auto simp: header_name_def token_ok_def pbind_Parsed_iff dest!: parse_token_chars
        split: if_splits list.splits)
  then show ?thesis using trim_end_ok [OF get_token_chars [OF v]] by (simp add: h header_ok_def)
qed

lemma parse_headers_ok:
  "parse_headers m hs s = Parsed ks r \<Longrightarrow> headers_ok hs \<Longrightarrow> length hs \<le> m \<Longrightarrow>
     headers_ok ks \<and> length ks \<le> m"
proof (induction m hs s rule: parse_headers.induct)
  case (1 m hs s)
  show ?case
  proof (cases s)
    case Nil
    with "1.prems" show ?thesis by (simp add: parse_headers_unfold)
  next
    case (Cons c s')
    show ?thesis
    proof (cases "c = CR \<or> c = LF \<or> length hs = m")
      case True
      with Cons "1.prems" show ?thesis
        by (auto simp: parse_headers_unfold pbind_Parsed_iff split: if_splits)
    next
      case False
      with Cons "1.prems"(1) obtain h t where h: "header_line (length hs) s = Parsed h t"
        and t: "parse_headers m (hs @ [h]) t = Parsed ks r"
        by (auto simp: parse_headers_unfold pbind_Parsed_iff)
      have "headers_ok (hs @ [h])"
        using header_line_ok [OF h] "1.prems"(2) by (cases hs) (auto simp: headers_ok_def)
      moreover have "length (hs @ [h]) \<le> m" using False "1.prems"(3) by simp
      ultimately show ?thesis using "1.IH" [OF Cons _ _ _ h t] False by simp
    qed
  qed
qed

definition path_char :: "char \<Rightarrow> bool" where
  "path_char c \<longleftrightarrow> \<not> is_ctl c \<and> \<not> is_blank c"

lemma advance_loop_chars: "advance_loop acc s = Parsed a r \<Longrightarrow> list_all path_char acc \<Longrightarrow> list_all path_char a"
proof (induction acc s rule: advance_loop.induct)
  case (2 acc c s)
  have "c \<noteq> SP \<Longrightarrow> is_printable_ascii c \<or> \<not> ((of_char c :: nat) < 0x20 \<or> c = CHR 0x7F) \<Longrightarrow> path_char c"
    by (auto simp: path_char_def is_ctl_def is_blank_def is_printable_iff)
  with 2 show ?case by (auto split: if_splits)
qed simp

lemma ADVANCE_TOKEN_chars: "ADVANCE_TOKEN s = Parsed a r \<Longrightarrow> list_all path_char a"
  using advance_loop_chars [of "[]" s a r]
  by (auto simp: ADVANCE_TOKEN_def findchar_fast_def split: if_splits)

definition request_ok :: "nat \<Rightarrow> phr_request \<Rightarrow> bool" where
  "request_ok m r \<longleftrightarrow>
     token_ok (req_method r) \<and> req_path r \<noteq> [] \<and> list_all path_char (req_path r) \<and>
     0 \<le> req_minor_version r \<and> req_minor_version r \<le> 9 \<and>
     headers_ok (req_headers r) \<and> length (req_headers r) \<le> m"

definition response_ok :: "nat \<Rightarrow> phr_response \<Rightarrow> bool" where
  "response_ok m r \<longleftrightarrow>
     0 \<le> resp_minor_version r \<and> resp_minor_version r \<le> 9 \<and> 0 \<le> resp_status r \<and> resp_status r \<le> 999 \<and>
     list_all (\<lambda>c. \<not> is_ctl c) (resp_msg r) \<and> (resp_msg r \<noteq> [] \<longrightarrow> hd (resp_msg r) \<noteq> SP) \<and>
     headers_ok (resp_headers r) \<and> length (resp_headers r) \<le> m"

lemma PARSE_INT_range: "PARSE_INT k s = Parsed a r \<Longrightarrow> 0 \<le> k \<Longrightarrow> 0 \<le> a \<and> a \<le> k * 9"
  by (auto simp: PARSE_INT_def is_digit_def digit_val_def intro!: mult_left_mono split: list.splits if_splits)

lemma parse_http_version_range: "parse_http_version s = Parsed a r \<Longrightarrow> 0 \<le> a \<and> a \<le> 9"
  by (auto simp: parse_http_version_def pbind_Parsed_iff dest!: PARSE_INT_range split: if_splits)

lemma parse_status_range: "parse_status s = Parsed a r \<Longrightarrow> 0 \<le> a \<and> a \<le> 999"
  by (auto simp: parse_status_def PARSE_INT_3_def pbind_Parsed_iff dest!: PARSE_INT_range split: if_splits)

lemma status_msg_chars:
  "status_msg s = Parsed a r \<Longrightarrow> list_all (\<lambda>c. \<not> is_ctl c) a \<and> (a \<noteq> [] \<longrightarrow> hd a \<noteq> SP)"
proof -
  assume "status_msg s = Parsed a r"
  then obtain v where v: "list_all (\<lambda>c. \<not> is_ctl c) v" "a = [] \<or> a = dropWhile (\<lambda>c. c = SP) v"
    by (auto simp: status_msg_def pbind_Parsed_iff dest!: get_token_chars split: if_splits)
  from v(1) have "list_all (\<lambda>c. \<not> is_ctl c) (dropWhile (\<lambda>c. c = SP) v)"
    by (auto simp only: list_all_iff dest: set_dropWhileD)
  with v(2) hd_dropWhile [of "\<lambda>c. c = SP" v] show ?thesis by (elim disjE) (simp_all del: dropWhile_eq_Nil_conv)
qed

lemma headers_ok_Nil [simp]: "headers_ok []" by (simp add: headers_ok_def)

lemma parse_request_ok:
  assumes "parse_request m s = Parsed r t" shows "request_ok m r"
  using assms
  by (auto simp: parse_request_def request_ok_def token_ok_def pbind_Parsed_iff
      dest!: parse_http_version_range parse_token_chars ADVANCE_TOKEN_chars parse_headers_ok split: if_splits)

lemma parse_response_ok:
  assumes "parse_response m s = Parsed r t" shows "response_ok m r"
  using assms
  by (auto simp: parse_response_def response_ok_def pbind_Parsed_iff
      dest!: parse_http_version_range parse_status_range status_msg_chars parse_headers_ok)

lemma complete_then_Parsed: "complete_then buf l p = Parsed a r \<Longrightarrow> p buf = Parsed a r"
  by (auto simp: complete_then_def pbind_Parsed_iff split: if_splits)

lemma phr_return_Some: "phr_return buf m = Inr (n, Some a) \<Longrightarrow> \<exists>r. m = Parsed a r"
  by (cases m) (auto simp: phr_return_def)

text \<open>
  C29: What the parsers deliver is well formed, whatever the bytes and whatever \<open>last_len\<close>: the
  method and the header names are tokens that are not empty, the path has neither blanks nor
  control characters, values have no control characters and no blank at their end, the numbers
  have their digits' range, only a later header has no name, and there are never more headers
  than the array holds.
\<close>

theorem parsed_well_formed:
  "(\<forall>n r. phr_parse_request buf m last_len = Inr (n, Some r) \<longrightarrow> request_ok m r) \<and>
   (\<forall>n r. phr_parse_response buf m last_len = Inr (n, Some r) \<longrightarrow> response_ok m r) \<and>
   (\<forall>n hs. phr_parse_headers buf m last_len = Inr (n, Some hs) \<longrightarrow> headers_ok hs \<and> length hs \<le> m)"
  unfolding phr_parse_request_def phr_parse_response_def phr_parse_headers_def
  by (auto dest!: phr_return_Some complete_then_Parsed parse_request_ok parse_response_ok parse_headers_ok)

section \<open>Round trips\<close>

text \<open>How a message is written, with one space after each colon.\<close>

definition render_header :: "phr_header \<Rightarrow> string" where
  "render_header h =
     (case hdr_name h of None \<Rightarrow> '' '' | Some n \<Rightarrow> n @ '': '') @ hdr_value h @ CRLF"

definition render_headers :: "phr_header list \<Rightarrow> string" where
  "render_headers hs = concat (map render_header hs) @ CRLF"

definition render_request :: "phr_request \<Rightarrow> string" where
  "render_request r =
     req_method r @ [SP] @ req_path r @ '' HTTP/1.'' @ [digit_chr (nat (req_minor_version r))] @ CRLF
     @ render_headers (req_headers r)"

definition render_response :: "phr_response \<Rightarrow> string" where
  "render_response r =
     ''HTTP/1.'' @ [digit_chr (nat (resp_minor_version r)), SP] @
     [digit_chr (nat (resp_status r) div 100), digit_chr (nat (resp_status r) div 10 mod 10),
      digit_chr (nat (resp_status r) mod 10)] @
     (if resp_msg r = [] then [] else [SP] @ resp_msg r) @ CRLF @ render_headers (resp_headers r)"

text \<open>A value of a named header that survives: it does not start with a blank either.\<close>

definition plain_header :: "phr_header \<Rightarrow> bool" where
  "plain_header h \<longleftrightarrow> header_ok h \<and> hdr_name h \<noteq> None \<and>
     (hdr_value h \<noteq> [] \<longrightarrow> \<not> is_blank (hd (hdr_value h)))"

lemma token_char_not: "token_char c \<Longrightarrow> c \<noteq> CR \<and> c \<noteq> LF \<and> \<not> is_blank c \<and> c \<noteq> CHR '':''"
proof -
  have "\<not> token_char CR" "\<not> token_char LF" "\<not> token_char SP" "\<not> token_char TAB" "\<not> token_char CHR '':''"
    by code_simp+
  then show "token_char c \<Longrightarrow> ?thesis" by (auto simp: is_blank_def)
qed

lemma token_loop_token:
  "list_all token_char t \<Longrightarrow> \<not> token_char nx \<Longrightarrow> token_loop nx acc (t @ nx # s) = Parsed (acc @ t) (nx # s)"
  by (induction t arbitrary: acc) auto

lemma parse_token_token:
  "list_all token_char t \<Longrightarrow> \<not> token_char nx \<Longrightarrow> parse_token nx (t @ nx # s) = Parsed t (nx # s)"
  by (simp add: parse_token_def findchar_fast_def token_loop_token)

lemma advance_loop_path:
  "list_all path_char t \<Longrightarrow> advance_loop acc (t @ SP # s) = Parsed (acc @ t) (SP # s)"
proof (induction t arbitrary: acc)
  case (Cons c t)
  then have "c \<noteq> SP" "\<not> ((of_char c :: nat) < 0x20 \<or> c = CHR 0x7F)"
    by (auto simp: path_char_def is_ctl_def is_blank_def)
  with Cons show ?case by simp
qed simp

lemma get_token_CRLF:
  assumes "list_all (\<lambda>c. \<not> is_ctl c) v" shows "get_token_to_eol (v @ CRLF @ s) = Parsed v s"
  using eol_slow_split [OF assms, of CR "LF # s"]
  by (simp add: get_token_to_eol_def eol_fast_slow EXPECT_CHAR_def EXPECT_CHAR_NO_CHECK_def)

lemma trim_end_id: "value_ok v \<Longrightarrow> trim_end v = v"
  by (cases v rule: rev_cases) (auto simp: trim_end_def value_ok_def)

lemma header_line_render:
  assumes "plain_header h"
  shows "header_line n (render_header h @ s) = Parsed h s"
proof -
  from assms obtain nm where nm: "hdr_name h = Some nm" "nm \<noteq> []" "list_all token_char nm"
    by (auto simp: plain_header_def header_ok_def token_ok_def)
  then have first: "\<not> is_blank (hd nm)" by (cases nm) (auto dest: token_char_not)
  have colon: "\<not> token_char CHR '':''" using token_char_not by blast
  let ?v = "hdr_value h @ CRLF @ s"
  have k: "skip_blanks (SP # ?v) = Parsed () ?v"
    using assms by (cases "hdr_value h") (auto simp: plain_header_def is_blank_def)
  have "header_name n (nm @ CHR '':'' # SP # ?v) = Parsed (Some nm) ?v"
    using parse_token_token [OF nm(3) colon, of "SP # ?v"] nm(2) first k
    by (simp add: header_name_def del: skip_blanks.simps)
  moreover have "value_ok (hdr_value h)" using assms by (simp add: plain_header_def header_ok_def)
  ultimately show ?thesis using nm(1) get_token_CRLF [of "hdr_value h" s]
    by (simp add: header_line_def render_header_def trim_end_id value_ok_def)
qed

lemma render_header_hd:
  assumes "plain_header h" shows "\<exists>c s. render_header h = c # s \<and> c \<noteq> CR \<and> c \<noteq> LF"
  using assms token_char_not
  by (auto simp: plain_header_def header_ok_def token_ok_def render_header_def neq_Nil_conv)

lemma parse_headers_render:
  "list_all plain_header hs \<Longrightarrow> length ks + length hs \<le> m \<Longrightarrow>
     parse_headers m ks (render_headers hs @ s) = Parsed (ks @ hs) s"
proof (induction hs arbitrary: ks)
  case Nil
  then show ?case
    by (simp add: render_headers_def parse_headers_unfold EXPECT_CHAR_def EXPECT_CHAR_NO_CHECK_def)
next
  case (Cons h hs)
  from Cons.prems have "plain_header h" by simp
  then obtain c t where "render_header h = c # t" "c \<noteq> CR" "c \<noteq> LF" using render_header_hd by blast
  moreover from Cons.prems have "length ks \<noteq> m" by simp
  ultimately show ?case using Cons header_line_render [OF \<open>plain_header h\<close>, of "length ks" "render_headers hs @ s"]
    by (simp add: render_headers_def parse_headers_unfold)
qed

lemma parse_http_version_digit:
  assumes "0 \<le> k" "k \<le> 9" "s \<noteq> []"
  shows "parse_http_version (''HTTP/1.'' @ digit_chr (nat k) # s) = Parsed k s"
  using assms by (cases s) (simp_all add: parse_http_version_def EXPECT_CHAR_NO_CHECK_def PARSE_INT_def
      digit_val_def digit_chr_def is_digit_def)

lemma PARSE_INT_digit: "d < 10 \<Longrightarrow> PARSE_INT k (digit_chr d # s) = Parsed (k * int d) s"
  by (simp add: PARSE_INT_def digit_val_def digit_chr_def is_digit_def)

lemma parse_status_digits:
  assumes "0 \<le> k" "k \<le> 999" "s \<noteq> []"
  shows "parse_status (digit_chr (nat k div 100) # digit_chr (nat k div 10 mod 10) # digit_chr (nat k mod 10) # s)
    = Parsed k s"
proof -
  have "nat k div 100 < 10" using assms by simp
  moreover have "100 * int (nat k div 100) + 10 * int (nat k div 10 mod 10) + int (nat k mod 10) = k"
  proof -
    have "100 * (nat k div 100) + 10 * (nat k div 10 mod 10) + nat k mod 10 = nat k"
      using mult_div_mod_eq [of 10 "nat k"] mult_div_mod_eq [of 10 "nat k div 10"]
        div_mult2_eq [of "nat k" 10 10, simplified] by linarith
    with assms(1) show ?thesis by linarith
  qed
  ultimately show ?thesis using assms(3)
    by (cases s) (simp_all add: parse_status_def PARSE_INT_3_def PARSE_INT_digit)
qed

lemma request_round_trip:
  assumes "request_ok m r" "list_all plain_header (req_headers r)"
  shows "phr_parse_request (render_request r @ body) m 0 = Inr (int (length (render_request r)), Some r)"
proof -
  let ?h = "render_headers (req_headers r) @ body"
  let ?v = "''HTTP/1.'' @ digit_chr (nat (req_minor_version r)) # CRLF @ ?h"
  from assms(1) obtain c t where t: "req_method r = c # t" "list_all token_char (req_method r)"
    by (auto simp: request_ok_def token_ok_def neq_Nil_conv)
  obtain p ps where p: "req_path r = p # ps" "list_all path_char (req_path r)"
    using assms(1) by (auto simp: request_ok_def neq_Nil_conv)
  let ?path = "req_path r @ SP # ?v"
  have s: "render_request r @ body = req_method r @ SP # ?path"
    by (simp add: render_request_def)
  have 1: "skip_empty_line (req_method r @ SP # ?path) = Parsed () (req_method r @ SP # ?path)"
    using t by (auto simp: skip_empty_line_def dest: token_char_not)
  have 2: "parse_token SP (req_method r @ SP # ?path) = Parsed (req_method r) (SP # ?path)"
    using t(2) token_char_not [of SP] by (intro parse_token_token) (auto simp: is_blank_def)
  have 3: "do_spaces (SP # ?path) = Parsed () ?path" using p by (simp add: path_char_def is_blank_def)
  have 4: "ADVANCE_TOKEN ?path = Parsed (req_path r) (SP # ?v)"
    using p advance_loop_path [of "req_path r" "[]" ?v] by (simp add: ADVANCE_TOKEN_def findchar_fast_def)
  have 5: "do_spaces (SP # ?v) = Parsed () ?v" by simp
  have 6: "parse_http_version ?v = Parsed (req_minor_version r) (CRLF @ ?h)"
    using assms(1) by (intro parse_http_version_digit) (simp_all add: request_ok_def)
  have 7: "line_end (CRLF @ ?h) = Parsed () ?h"
    by (simp add: line_end_def EXPECT_CHAR_def EXPECT_CHAR_NO_CHECK_def)
  have 8: "parse_headers m [] ?h = Parsed (req_headers r) body"
    using parse_headers_render [OF assms(2), of "[]" m body] assms(1) by (simp add: request_ok_def)
  have "parse_request m (render_request r @ body) = Parsed r body"
    using t(1) p(1) unfolding parse_request_def s 1 2 3 4 5 6 7 8 pbind_simps by simp
  then show ?thesis by (simp add: phr_parse_request_def complete_then_def phr_return_def)
qed

text \<open>
  C18: Parsing inverts writing: a request that is written out with its headers, followed by any
  other bytes, is parsed back field by field, and the return value is the length of what was
  written. The array may have exactly as many places as there are headers.
\<close>

theorem parse_render_request:
  assumes "request_ok m r" "list_all plain_header (req_headers r)"
  shows "phr_parse_request (render_request r @ body) m 0 = Inr (int (length (render_request r)), Some r)"
  by (rule request_round_trip [OF assms])

theorem parse_render_request_witness:
  "phr_parse_request
     (render_request \<lparr>req_method = ''GET'', req_path = ''/track?id=7'', req_minor_version = 1,
        req_headers = [\<lparr>hdr_name = Some ''Host'', hdr_value = ''a.b''\<rparr>, \<lparr>hdr_name = Some ''X'', hdr_value = []\<rparr>]\<rparr>
      @ ''body'') 2 0 =
   Inr (int (length (render_request \<lparr>req_method = ''GET'', req_path = ''/track?id=7'', req_minor_version = 1,
        req_headers = [\<lparr>hdr_name = Some ''Host'', hdr_value = ''a.b''\<rparr>, \<lparr>hdr_name = Some ''X'', hdr_value = []\<rparr>]\<rparr>)),
     Some \<lparr>req_method = ''GET'', req_path = ''/track?id=7'', req_minor_version = 1,
        req_headers = [\<lparr>hdr_name = Some ''Host'', hdr_value = ''a.b''\<rparr>, \<lparr>hdr_name = Some ''X'', hdr_value = []\<rparr>]\<rparr>)"
  by (rule parse_render_request) code_simp+

lemma response_round_trip:
  assumes "response_ok m r" "list_all plain_header (resp_headers r)"
  shows "phr_parse_response (render_response r @ body) m 0 = Inr (int (length (render_response r)), Some r)"
proof -
  let ?h = "render_headers (resp_headers r) @ body"
  let ?msg = "if resp_msg r = [] then [] else SP # resp_msg r"
  let ?st = "digit_chr (nat (resp_status r) div 100) # digit_chr (nat (resp_status r) div 10 mod 10) #
      digit_chr (nat (resp_status r) mod 10) # ?msg @ CRLF @ ?h"
  let ?k = "digit_chr (nat (resp_minor_version r))"
  have s: "render_response r @ body = ''HTTP/1.'' @ ?k # SP # ?st"
    by (simp add: render_response_def)
  have 1: "parse_http_version (''HTTP/1.'' @ ?k # SP # ?st) = Parsed (resp_minor_version r) (SP # ?st)"
    using assms(1) by (intro parse_http_version_digit) (simp_all add: response_ok_def)
  have "nat (resp_status r) div 100 < 10" using assms(1) by (auto simp: response_ok_def)
  then have "digit_chr (nat (resp_status r) div 100) \<noteq> SP"
    using is_digit_digit_chr by (fastforce simp: is_digit_def)
  then have 2: "version_space (SP # ?st) = Parsed () ?st" by (simp add: version_space_def)
  have 3: "parse_status ?st = Parsed (resp_status r) (?msg @ CRLF @ ?h)"
    using assms(1) by (intro parse_status_digits) (simp_all add: response_ok_def)
  have "list_all (\<lambda>c. \<not> is_ctl c) ?msg" using assms(1) by (simp add: response_ok_def)
  note g = get_token_CRLF [OF this, of ?h]
  have 4: "status_msg (?msg @ CRLF @ ?h) = Parsed (resp_msg r) ?h"
    using assms(1) unfolding status_msg_def g by (cases "resp_msg r") (simp_all add: response_ok_def)
  have 5: "parse_headers m [] ?h = Parsed (resp_headers r) body"
    using parse_headers_render [OF assms(2), of "[]" m body] assms(1) by (simp add: response_ok_def)
  have "parse_response m (render_response r @ body) = Parsed r body"
    unfolding parse_response_def s 1 2 3 4 5 pbind_simps by simp
  then show ?thesis by (simp add: phr_parse_response_def complete_then_def phr_return_def)
qed

text \<open>
  C19: Parsing inverts writing for responses as well; the space that separates the message from
  the status code is not part of the message, and a message may be missing.
\<close>

theorem parse_render_response:
  assumes "response_ok m r" "list_all plain_header (resp_headers r)"
  shows "phr_parse_response (render_response r @ body) m 0 = Inr (int (length (render_response r)), Some r)"
  by (rule response_round_trip [OF assms])

theorem parse_render_response_witness:
  "phr_parse_response
     (render_response \<lparr>resp_minor_version = 1, resp_status = 404, resp_msg = ''Not Found'',
        resp_headers = [\<lparr>hdr_name = Some ''Server'', hdr_value = ''x y''\<rparr>]\<rparr> @ ''b'') 1 0 =
   Inr (int (length (render_response \<lparr>resp_minor_version = 1, resp_status = 404, resp_msg = ''Not Found'',
        resp_headers = [\<lparr>hdr_name = Some ''Server'', hdr_value = ''x y''\<rparr>]\<rparr>)),
     Some \<lparr>resp_minor_version = 1, resp_status = 404, resp_msg = ''Not Found'',
        resp_headers = [\<lparr>hdr_name = Some ''Server'', hdr_value = ''x y''\<rparr>]\<rparr>)"
  by (rule parse_render_response) code_simp+

theorem parsed_well_formed_witness:
  "\<exists>r. phr_parse_request (''GET / HTTP/1.1'' @ CRLF @ ''H: x'' @ CRLF @ CRLF) 1 2 = Inr (24, Some r) \<and> request_ok 1 r"
proof -
  let ?r = "\<lparr>req_method = ''GET'', req_path = ''/'', req_minor_version = 1,
     req_headers = [\<lparr>hdr_name = Some ''H'', hdr_value = ''x''\<rparr>]\<rparr>"
  have "phr_parse_request (''GET / HTTP/1.1'' @ CRLF @ ''H: x'' @ CRLF @ CRLF) 1 2 = Inr (24, Some ?r)"
    by code_simp
  then show ?thesis using parsed_well_formed by blast
qed

end
