(* ===== verification/Chunked_Decoder.thy ===== *)
theory Chunked_Decoder
  imports C_String
begin

text \<open>
  The in-place decoder of chunked transfer coding (\<open>phr_decode_chunked\<close> in
  \<open>net/http_parser.c\<close>). The buffer is a list of \<open>bufsz\<close> characters that the decoder rewrites,
  read at \<open>src\<close> and written at \<open>dst\<close>; an access outside of it is a fault. A machine that takes
  one character at a time is the specification; from the refinement follow safety, independence
  of how the data is cut into pieces, and the inversion of the encoding.
\<close>

section \<open>The decoder\<close>

datatype chunked_state =
  CHUNKED_IN_CHUNK_SIZE | CHUNKED_IN_CHUNK_EXT | CHUNKED_IN_CHUNK_DATA | CHUNKED_IN_CHUNK_CRLF
| CHUNKED_IN_TRAILERS_LINE_HEAD | CHUNKED_IN_TRAILERS_LINE_MIDDLE

record phr_chunked_decoder =
  bytes_left_in_chunk :: u32
  consume_trailer :: bool
  hex_count :: nat
  dec_state :: chunked_state

text \<open>\<open>decode_hex\<close>\<close>

definition decode_hex :: "char \<Rightarrow> int" where
  "decode_hex ch =
     (let n = of_char ch :: int in
      if 48 \<le> n \<and> n \<le> 57 then n - 48
      else if 65 \<le> n \<and> n \<le> 70 then n - 65 + 0xA
      else if 97 \<le> n \<and> n \<le> 102 then n - 97 + 0xA
      else - 1)"

text \<open>\<open>sizeof (size_t) * 2\<close> of the 32-bit target.\<close>

definition MAX_HEX :: nat where "MAX_HEX = 8"

text \<open>\<open>memmove (buf + dst, buf + src, n)\<close> with both ranges in one buffer.\<close>

definition memmove :: "string \<Rightarrow> nat \<Rightarrow> nat \<Rightarrow> nat \<Rightarrow> string outcome" where
  "memmove buf dst src n =
     (if dst + n \<le> length buf \<and> src + n \<le> length buf
      then Inr (take dst buf @ take n (drop src buf) @ drop (dst + n) buf)
      else Inl Out_Of_Bounds)"

text \<open>\<open>for (;; ++src)\<close> up to a character with \<open>P\<close>; the flag is false at \<open>src == bufsz\<close>.\<close>

function scan :: "(char \<Rightarrow> bool) \<Rightarrow> string \<Rightarrow> nat \<Rightarrow> (nat \<times> bool) outcome" where
  "scan P buf src =
     (if src = length buf then Inr (src, False)
      else seq (rd buf src) (\<lambda>c. if P c then Inr (src, True) else scan P buf (Suc src)))"
  by pat_completeness auto

text \<open>The loop of the size: \<open>Some ret\<close> is \<open>goto Exit\<close>.\<close>

function size_scan ::
  "string \<Rightarrow> nat \<Rightarrow> phr_chunked_decoder \<Rightarrow> (nat \<times> phr_chunked_decoder \<times> int option) outcome" where
  "size_scan buf src d =
     (if src = length buf then Inr (src, d, Some (- 2))
      else seq (rd buf src) (\<lambda>c.
        let v = decode_hex c in
        if v = - 1 then Inr (src, d, if hex_count d = 0 then Some (- 1) else None)
        else if hex_count d = MAX_HEX then Inr (src, d, Some (- 1))
        else size_scan buf (Suc src)
               (d\<lparr>bytes_left_in_chunk := bytes_left_in_chunk d * 16 + word_of_int v,
                  hex_count := hex_count d + 1\<rparr>)))"
  by pat_completeness auto

termination scan
  by (relation "measure (\<lambda>(P, buf, src). length buf - src)") (auto simp: rd_Inr_iff)

termination size_scan
  by (relation "measure (\<lambda>(buf, src, d). length buf - src)") (auto simp: rd_Inr_iff)

declare scan.simps [simp del] size_scan.simps [simp del]

record decode_vars =
  v_dec :: phr_chunked_decoder
  v_buf :: string
  v_src :: nat
  v_dst :: nat

datatype jump = Switch | Exit int | Complete

definition goto :: "decode_vars \<Rightarrow> jump \<Rightarrow> (decode_vars \<times> jump) outcome" where
  "goto v j = Inr (v, j)"

definition case_SIZE :: "decode_vars \<Rightarrow> (decode_vars \<times> jump) outcome" where
  "case_SIZE v =
     seq (size_scan (v_buf v) (v_src v) (v_dec v)) (\<lambda>(src, d, ret).
       case ret of
         Some r \<Rightarrow> goto (v\<lparr>v_src := src, v_dec := d\<rparr>) (Exit r)
       | None \<Rightarrow>
           goto (v\<lparr>v_src := src, v_dec := d\<lparr>hex_count := 0, dec_state := CHUNKED_IN_CHUNK_EXT\<rparr>\<rparr>) Switch)"

definition case_EXT :: "decode_vars \<Rightarrow> (decode_vars \<times> jump) outcome" where
  "case_EXT v =
     seq (scan (\<lambda>c. c = LF) (v_buf v) (v_src v)) (\<lambda>(src, found).
       if \<not> found then goto (v\<lparr>v_src := src\<rparr>) (Exit (- 2))
       else
         let v = v\<lparr>v_src := src + 1\<rparr>; d = v_dec v in
         if bytes_left_in_chunk d = 0 then
           if consume_trailer d
           then goto (v\<lparr>v_dec := d\<lparr>dec_state := CHUNKED_IN_TRAILERS_LINE_HEAD\<rparr>\<rparr>) Switch
           else goto v Complete
         else goto (v\<lparr>v_dec := d\<lparr>dec_state := CHUNKED_IN_CHUNK_DATA\<rparr>\<rparr>) Switch)"

text \<open>The guarded \<open>memmove\<close> of the data.\<close>

definition move_down :: "decode_vars \<Rightarrow> nat \<Rightarrow> string outcome" where
  "move_down v n =
     (if v_dst v \<noteq> v_src v then memmove (v_buf v) (v_dst v) (v_src v) n else Inr (v_buf v))"

definition case_DATA :: "decode_vars \<Rightarrow> (decode_vars \<times> jump) outcome" where
  "case_DATA v =
     (let d = v_dec v; avail = length (v_buf v) - v_src v; left = unat (bytes_left_in_chunk d) in
      if avail < left then
        seq (move_down v avail) (\<lambda>buf.
          goto (v\<lparr>v_buf := buf, v_src := v_src v + avail, v_dst := v_dst v + avail,
                  v_dec := d\<lparr>bytes_left_in_chunk := bytes_left_in_chunk d - of_nat avail\<rparr>\<rparr>) (Exit (- 2)))
      else
        seq (move_down v left) (\<lambda>buf.
          goto (v\<lparr>v_buf := buf, v_src := v_src v + left, v_dst := v_dst v + left,
                  v_dec := d\<lparr>bytes_left_in_chunk := 0, dec_state := CHUNKED_IN_CHUNK_CRLF\<rparr>\<rparr>) Switch))"

definition case_CRLF :: "decode_vars \<Rightarrow> (decode_vars \<times> jump) outcome" where
  "case_CRLF v =
     seq (scan (\<lambda>c. c \<noteq> CR) (v_buf v) (v_src v)) (\<lambda>(src, found).
       if \<not> found then goto (v\<lparr>v_src := src\<rparr>) (Exit (- 2))
       else seq (rd (v_buf v) src) (\<lambda>c.
         if c \<noteq> LF then goto (v\<lparr>v_src := src\<rparr>) (Exit (- 1))
         else goto (v\<lparr>v_src := src + 1, v_dec := (v_dec v)\<lparr>dec_state := CHUNKED_IN_CHUNK_SIZE\<rparr>\<rparr>) Switch))"

definition case_LINE_HEAD :: "decode_vars \<Rightarrow> (decode_vars \<times> jump) outcome" where
  "case_LINE_HEAD v =
     seq (scan (\<lambda>c. c \<noteq> CR) (v_buf v) (v_src v)) (\<lambda>(src, found).
       if \<not> found then goto (v\<lparr>v_src := src\<rparr>) (Exit (- 2))
       else seq (rd (v_buf v) src) (\<lambda>c.
         if c = LF then goto (v\<lparr>v_src := src + 1\<rparr>) Complete
         else goto (v\<lparr>v_src := src + 1,
                      v_dec := (v_dec v)\<lparr>dec_state := CHUNKED_IN_TRAILERS_LINE_MIDDLE\<rparr>\<rparr>) Switch))"

definition case_LINE_MIDDLE :: "decode_vars \<Rightarrow> (decode_vars \<times> jump) outcome" where
  "case_LINE_MIDDLE v =
     seq (scan (\<lambda>c. c = LF) (v_buf v) (v_src v)) (\<lambda>(src, found).
       if \<not> found then goto (v\<lparr>v_src := src\<rparr>) (Exit (- 2))
       else goto (v\<lparr>v_src := src + 1,
                    v_dec := (v_dec v)\<lparr>dec_state := CHUNKED_IN_TRAILERS_LINE_HEAD\<rparr>\<rparr>) Switch)"

text \<open>
  The switch. Falling through to the next case is a turn of the loop with the state that was
  stored just before.
\<close>

definition decode_switch :: "decode_vars \<Rightarrow> (decode_vars \<times> jump) outcome" where
  "decode_switch v =
     (case dec_state (v_dec v) of
        CHUNKED_IN_CHUNK_SIZE \<Rightarrow> case_SIZE v
      | CHUNKED_IN_CHUNK_EXT \<Rightarrow> case_EXT v
      | CHUNKED_IN_CHUNK_DATA \<Rightarrow> case_DATA v
      | CHUNKED_IN_CHUNK_CRLF \<Rightarrow> case_CRLF v
      | CHUNKED_IN_TRAILERS_LINE_HEAD \<Rightarrow> case_LINE_HEAD v
      | CHUNKED_IN_TRAILERS_LINE_MIDDLE \<Rightarrow> case_LINE_MIDDLE v)"

lemmas switch_defs = decode_switch_def case_SIZE_def case_EXT_def case_DATA_def case_CRLF_def
  case_LINE_HEAD_def case_LINE_MIDDLE_def goto_def

section \<open>The loop ends\<close>

lemma scan_src:
  "scan P buf src = Inr (src', b) \<Longrightarrow>
     src \<le> src' \<and> src' \<le> length buf \<and> (b \<longrightarrow> src' < length buf \<and> P (buf ! src')) \<and>
     (\<not> b \<longrightarrow> src' = length buf) \<and> list_all (\<lambda>c. \<not> P c) (take (src' - src) (drop src buf))"
proof (induction P buf src rule: scan.induct)
  case (1 P buf src)
  show ?case
  proof (cases "src < length buf \<and> \<not> P (buf ! src)")
    case True
    with "1.prems" have "scan P buf (Suc src) = Inr (src', b)" by (subst (asm) scan.simps) simp
    with 1 True have "Suc src \<le> src'" "src' \<le> length buf" "b \<longrightarrow> src' < length buf \<and> P (buf ! src')"
      "\<not> b \<longrightarrow> src' = length buf" "list_all (\<lambda>c. \<not> P c) (take (src' - Suc src) (drop (Suc src) buf))"
      by auto
    moreover have "take (src' - src) (drop src buf) = buf ! src # take (src' - Suc src) (drop (Suc src) buf)"
      using True \<open>Suc src \<le> src'\<close> by (simp add: Cons_nth_drop_Suc [symmetric] take_Cons')
    ultimately show ?thesis using True by simp
  next
    case False
    with "1.prems" show ?thesis
      by (subst (asm) scan.simps) (auto simp: seq_eq_Inr_iff rd_Inr_iff split: if_splits)
  qed
qed

lemma size_scan_src:
  "size_scan buf src d = Inr (src', d', r) \<Longrightarrow> src \<le> src' \<and> src' \<le> length buf \<and> dec_state d' = dec_state d"
proof (induction buf src d rule: size_scan.induct)
  case (1 buf src d)
  let ?c = "buf ! src"
  show ?case
  proof (cases "src < length buf \<and> decode_hex ?c \<noteq> - 1 \<and> hex_count d \<noteq> MAX_HEX")
    case True
    with "1.prems" have "size_scan buf (Suc src) (d\<lparr>bytes_left_in_chunk := bytes_left_in_chunk d * 16 +
        word_of_int (decode_hex ?c), hex_count := hex_count d + 1\<rparr>) = Inr (src', d', r)"
      by (subst (asm) size_scan.simps) simp
    with 1(1) [OF _ _ refl] True show ?thesis by fastforce
  next
    case False
    with "1.prems" show ?thesis
      by (subst (asm) size_scan.simps) (auto simp: seq_eq_Inr_iff rd_Inr_iff Let_def split: if_splits)
  qed
qed

lemma memmove_length: "memmove buf dst src n = Inr buf' \<Longrightarrow> length buf' = length buf"
  by (auto simp: memmove_def split: if_splits)

lemma move_down_length: "move_down v n = Inr buf' \<Longrightarrow> length buf' = length (v_buf v)"
  by (auto simp: move_down_def dest: memmove_length split: if_splits)

definition switch_rank :: "chunked_state \<Rightarrow> nat" where
  "switch_rank st = (if st \<in> {CHUNKED_IN_CHUNK_SIZE, CHUNKED_IN_CHUNK_DATA} then 1 else 0)"

lemma decode_switch_progress:
  assumes "decode_switch v = Inr (v', Switch)"
  shows "length (v_buf v') - v_src v' < length (v_buf v) - v_src v \<or>
    length (v_buf v') - v_src v' = length (v_buf v) - v_src v \<and>
    switch_rank (dec_state (v_dec v')) < switch_rank (dec_state (v_dec v))"
  using assms
  by (cases "dec_state (v_dec v)")
    (auto simp: switch_defs switch_rank_def seq_eq_Inr_iff Let_def dest!: scan_src size_scan_src move_down_length
      split: if_splits option.splits)

function decode_loop :: "decode_vars \<Rightarrow> (decode_vars \<times> int) outcome" where
  "decode_loop v =
     seq (decode_switch v) (\<lambda>(v', j).
       case j of
         Switch \<Rightarrow> decode_loop v'
       | Exit ret \<Rightarrow> Inr (v', ret)
       | Complete \<Rightarrow> Inr (v', int (length (v_buf v')) - int (v_src v')))"
  by pat_completeness auto

termination decode_loop
  by (relation "(\<lambda>v. length (v_buf v) - v_src v) <*mlex*>
        measure (\<lambda>v. switch_rank (dec_state (v_dec v)))")
    (auto simp: wf_mlex mlex_iff dest!: decode_switch_progress)

declare decode_loop.simps [simp del]

text \<open>
  \<open>phr_decode_chunked\<close>: the new decoder, the buffer, the new \<open>*bufsz\<close> and the return value.
\<close>

definition phr_decode_chunked ::
  "phr_chunked_decoder \<Rightarrow> string \<Rightarrow> (phr_chunked_decoder \<times> string \<times> nat \<times> int) outcome" where
  "phr_decode_chunked d buf =
     seq (decode_loop \<lparr>v_dec = d, v_buf = buf, v_src = 0, v_dst = 0\<rparr>) (\<lambda>(v, ret).
     seq (move_down v (length (v_buf v) - v_src v)) (\<lambda>buf'.
     Inr (v_dec v, buf', v_dst v, ret)))"

definition phr_decode_chunked_is_in_data :: "phr_chunked_decoder \<Rightarrow> bool" where
  "phr_decode_chunked_is_in_data d \<longleftrightarrow> dec_state d = CHUNKED_IN_CHUNK_DATA"

section \<open>The specification\<close>

text \<open>
  One character: more is wanted and the given output is produced, the character cannot stand
  here, or it ends the message.
\<close>

datatype chunk_step = Go phr_chunked_decoder string | Bad phr_chunked_decoder | Fin phr_chunked_decoder

definition spec_ext :: "phr_chunked_decoder \<Rightarrow> char \<Rightarrow> chunk_step" where
  "spec_ext d c =
     (if c \<noteq> LF then Go d []
      else if bytes_left_in_chunk d \<noteq> 0 then Go (d\<lparr>dec_state := CHUNKED_IN_CHUNK_DATA\<rparr>) []
      else if consume_trailer d then Go (d\<lparr>dec_state := CHUNKED_IN_TRAILERS_LINE_HEAD\<rparr>) []
      else Fin d)"

definition spec_char :: "phr_chunked_decoder \<Rightarrow> char \<Rightarrow> chunk_step" where
  "spec_char d c =
     (case dec_state d of
        CHUNKED_IN_CHUNK_SIZE \<Rightarrow>
          if decode_hex c \<noteq> - 1 then
            if hex_count d = MAX_HEX then Bad d
            else Go (d\<lparr>bytes_left_in_chunk := bytes_left_in_chunk d * 16 + word_of_int (decode_hex c),
                       hex_count := hex_count d + 1\<rparr>) []
          else if hex_count d = 0 then Bad d
          else spec_ext (d\<lparr>hex_count := 0, dec_state := CHUNKED_IN_CHUNK_EXT\<rparr>) c
      | CHUNKED_IN_CHUNK_EXT \<Rightarrow> spec_ext d c
      | CHUNKED_IN_CHUNK_DATA \<Rightarrow>
          Go (d\<lparr>bytes_left_in_chunk := bytes_left_in_chunk d - 1,
                dec_state := if bytes_left_in_chunk d = 1 then CHUNKED_IN_CHUNK_CRLF
                             else CHUNKED_IN_CHUNK_DATA\<rparr>) [c]
      | CHUNKED_IN_CHUNK_CRLF \<Rightarrow>
          if c = CR then Go d []
          else if c = LF then Go (d\<lparr>dec_state := CHUNKED_IN_CHUNK_SIZE\<rparr>) []
          else Bad d
      | CHUNKED_IN_TRAILERS_LINE_HEAD \<Rightarrow>
          if c = CR then Go d []
          else if c = LF then Fin d
          else Go (d\<lparr>dec_state := CHUNKED_IN_TRAILERS_LINE_MIDDLE\<rparr>) []
      | CHUNKED_IN_TRAILERS_LINE_MIDDLE \<Rightarrow>
          if c = LF then Go (d\<lparr>dec_state := CHUNKED_IN_TRAILERS_LINE_HEAD\<rparr>) [] else Go d [])"

text \<open>A run: the decoder, the output, the characters left, and how it ended.\<close>

datatype chunk_end = More | Corrupt | Done

fun spec_run :: "phr_chunked_decoder \<Rightarrow> string \<Rightarrow> phr_chunked_decoder \<times> string \<times> string \<times> chunk_end" where
  "spec_run d [] = (d, [], [], More)"
| "spec_run d (c # s) =
     (case spec_char d c of
        Go d' out \<Rightarrow> (case spec_run d' s of (d2, out2, rest, e) \<Rightarrow> (d2, out @ out2, rest, e))
      | Bad d' \<Rightarrow> (d', [], c # s, Corrupt)
      | Fin d' \<Rightarrow> (d', [], s, Done))"

text \<open>The return value that stands for an end.\<close>

definition ret_of :: "chunk_end \<Rightarrow> string \<Rightarrow> int" where
  "ret_of e rest = (case e of More \<Rightarrow> - 2 | Corrupt \<Rightarrow> - 1 | Done \<Rightarrow> int (length rest))"

text \<open>What holds of a decoder between two calls.\<close>

definition decoder_ok :: "phr_chunked_decoder \<Rightarrow> bool" where
  "decoder_ok d \<longleftrightarrow>
     (dec_state d = CHUNKED_IN_CHUNK_SIZE \<longrightarrow>
        hex_count d \<le> MAX_HEX \<and> unat (bytes_left_in_chunk d) < 16 ^ hex_count d) \<and>
     (dec_state d \<noteq> CHUNKED_IN_CHUNK_SIZE \<longrightarrow> hex_count d = 0) \<and>
     (dec_state d = CHUNKED_IN_CHUNK_DATA \<longrightarrow> bytes_left_in_chunk d \<noteq> 0) \<and>
     (dec_state d = CHUNKED_IN_CHUNK_CRLF \<longrightarrow> bytes_left_in_chunk d = 0)"

section \<open>The specification's runs\<close>

definition prepend :: "string \<Rightarrow> 'd \<times> string \<times> string \<times> 'e \<Rightarrow> 'd \<times> string \<times> string \<times> 'e" where
  "prepend out q = (case q of (d, out', rest, e) \<Rightarrow> (d, out @ out', rest, e))"

lemma prepend_simps [simp]:
  "prepend out (d, out', rest, e) = (d, out @ out', rest, e)"
  "prepend [] q = q" "prepend u (prepend w q) = prepend (u @ w) q"
  by (simp_all add: prepend_def split: prod.splits)

lemma spec_run_Go [simp]: "spec_char d c = Go d' out \<Longrightarrow> spec_run d (c # s) = prepend out (spec_run d' s)"
  by (cases "spec_run d' s") simp

lemma spec_run_skip:
  "list_all (\<lambda>c. spec_char d c = Go d []) u \<Longrightarrow> spec_run d (u @ t) = spec_run d t"
  by (induction u) simp_all

lemma spec_run_append:
  "spec_run d (s @ t) =
     (case spec_run d s of
        (d', out, rest, More) \<Rightarrow> prepend out (spec_run d' t)
      | (d', out, rest, e) \<Rightarrow> (d', out, rest @ t, e))"
proof (induction s arbitrary: d)
  case (Cons c s)
  then show ?case
    by (auto split: chunk_step.splits prod.splits chunk_end.splits simp: prepend_def)
qed simp

lemma spec_run_More_rest: "spec_run d s = (d', out, rest, More) \<Longrightarrow> rest = []"
  by (induction s arbitrary: d out) (auto split: chunk_step.splits prod.splits)

lemma spec_run_data:
  assumes "dec_state d = CHUNKED_IN_CHUNK_DATA" "length u < unat (bytes_left_in_chunk d)"
  shows "spec_run d (u @ t) =
    prepend u (spec_run (d\<lparr>bytes_left_in_chunk := bytes_left_in_chunk d - of_nat (length u)\<rparr>) t)"
  using assms
proof (induction u arbitrary: d)
  case (Cons c u)
  let ?b = "bytes_left_in_chunk d"
  let ?d = "d\<lparr>bytes_left_in_chunk := ?b - 1\<rparr>"
  have "unat (?b - 1) = unat ?b - 1" using Cons.prems(2) by (intro unat_minus_one) auto
  then have l: "length u < unat (bytes_left_in_chunk ?d)" using Cons.prems(2) by simp
  have "?b \<noteq> 1" using Cons.prems(2) by auto
  then have "spec_char d c = Go ?d [c]" using Cons.prems(1)
    by (cases d) (simp add: spec_char_def)
  then show ?case using Cons.IH [of ?d] Cons.prems(1) l
    by (simp add: algebra_simps del: spec_run.simps(2))
qed simp

lemma spec_run_data_full:
  assumes "dec_state d = CHUNKED_IN_CHUNK_DATA" "length u = unat (bytes_left_in_chunk d)"
    "bytes_left_in_chunk d \<noteq> 0"
  shows "spec_run d (u @ t) =
    prepend u (spec_run (d\<lparr>bytes_left_in_chunk := 0, dec_state := CHUNKED_IN_CHUNK_CRLF\<rparr>) t)"
proof -
  from assms(2,3) have "u \<noteq> []" by (auto simp: unat_eq_0 dest: sym)
  then obtain w c where u: "u = w @ [c]" by (cases u rule: rev_cases) auto
  let ?d = "d\<lparr>bytes_left_in_chunk := bytes_left_in_chunk d - of_nat (length w)\<rparr>"
  have "bytes_left_in_chunk d = of_nat (length u)" using assms(2) by simp
  then have "bytes_left_in_chunk ?d = 1" by (simp add: u)
  then have "spec_char ?d c = Go (d\<lparr>bytes_left_in_chunk := 0, dec_state := CHUNKED_IN_CHUNK_CRLF\<rparr>) [c]"
    using assms(1) by (simp add: spec_char_def)
  moreover have "length w < unat (bytes_left_in_chunk d)" using assms(2) by (simp add: u)
  note spec_run_data [OF assms(1) this, of "c # t"]
  ultimately show ?thesis by (simp add: u del: spec_run.simps(2))
qed

lemma decode_hex_range: "decode_hex c \<noteq> - 1 \<Longrightarrow> 0 \<le> decode_hex c \<and> decode_hex c < 16"
  by (auto simp: decode_hex_def Let_def split: if_splits)

text \<open>Eight digits fit: the size never wraps around.\<close>

lemma size_step:
  assumes "unat b < 16 ^ k" "k < 8" "0 \<le> v" "v < 16"
  shows "unat (b * 16 + word_of_int v :: u32) = unat b * 16 + nat v" "unat b * 16 + nat v < 16 ^ Suc k"
proof -
  show *: "unat b * 16 + nat v < 16 ^ Suc k" using assms by simp
  have "(16::nat) ^ Suc k \<le> 16 ^ 8" using assms(2) by (intro power_increasing) auto
  with * have "unat b * 16 + nat v < 2 ^ 32" by simp
  moreover have "b * 16 + word_of_int v = (of_nat (unat b * 16 + nat v) :: u32)"
    using assms(3) by (simp add: of_nat_nat)
  ultimately show "unat (b * 16 + word_of_int v :: u32) = unat b * 16 + nat v"
    by (simp only:) (rule of_nat_inverse [OF refl], simp)
qed

lemma spec_ext_ok:
  "spec_ext d c = Go d' out \<Longrightarrow> decoder_ok d \<Longrightarrow> dec_state d = CHUNKED_IN_CHUNK_EXT \<Longrightarrow> decoder_ok d'"
  by (auto simp: spec_ext_def decoder_ok_def split: if_splits)

lemma spec_char_ok:
  assumes "decoder_ok d" "spec_char d c = Go d' out" shows "decoder_ok d'"
proof (cases "dec_state d = CHUNKED_IN_CHUNK_SIZE")
  case True
  show ?thesis
  proof (cases "decode_hex c = - 1")
    case True
    have "decoder_ok (d\<lparr>hex_count := 0, dec_state := CHUNKED_IN_CHUNK_EXT\<rparr>)" by (simp add: decoder_ok_def)
    with assms True \<open>dec_state d = _\<close> show ?thesis
      by (auto simp: spec_char_def split: if_splits dest: spec_ext_ok)
  next
    case False
    with assms \<open>dec_state d = _\<close> have h: "hex_count d \<noteq> MAX_HEX" by (auto simp: spec_char_def split: if_splits)
    with assms(1) True have "unat (bytes_left_in_chunk d) < 16 ^ hex_count d" "hex_count d < 8"
      by (auto simp: decoder_ok_def MAX_HEX_def)
    note size_step [OF this, of "decode_hex c"]
    with False h True assms show ?thesis using decode_hex_range [OF False]
      by (auto simp: spec_char_def decoder_ok_def MAX_HEX_def)
  qed
next
  case False
  with assms show ?thesis
    by (cases "dec_state d") (auto simp: spec_char_def decoder_ok_def spec_ext_def split: if_splits)
qed

section \<open>The refinement\<close>

text \<open>
  From \<open>v\<close> to \<open>v'\<close> the decoder wrote \<open>out\<close>, and what is not read yet is as before.
\<close>

definition in_buffer :: "decode_vars \<Rightarrow> bool" where
  "in_buffer v \<longleftrightarrow> v_dst v \<le> v_src v \<and> v_src v \<le> length (v_buf v)"

definition written :: "decode_vars \<Rightarrow> string \<Rightarrow> decode_vars \<Rightarrow> bool" where
  "written v out v' \<longleftrightarrow>
     in_buffer v' \<and> length (v_buf v') = length (v_buf v) \<and>
     take (v_dst v') (v_buf v') = take (v_dst v) (v_buf v) @ out"

definition unread :: "decode_vars \<Rightarrow> string" where
  "unread v = drop (v_src v) (v_buf v)"

definition jump_ok :: "decode_vars \<Rightarrow> string \<Rightarrow> decode_vars \<Rightarrow> jump \<Rightarrow> bool" where
  "jump_ok v out v' j \<longleftrightarrow>
     (case j of
        Switch \<Rightarrow> decoder_ok (v_dec v') \<and>
          spec_run (v_dec v) (unread v) = prepend out (spec_run (v_dec v') (unread v'))
      | Exit ret \<Rightarrow> \<exists>e. e \<noteq> Done \<and> ret = ret_of e [] \<and>
          spec_run (v_dec v) (unread v) = (v_dec v', out, unread v', e)
      | Complete \<Rightarrow> spec_run (v_dec v) (unread v) = (v_dec v', out, unread v', Done))"

lemma scan_total:
  assumes "src \<le> length buf" shows "\<exists>src' b. scan P buf src = Inr (src', b)"
  using assms
proof (induction P buf src rule: scan.induct)
  case (1 P buf src)
  show ?case
  proof (cases "src < length buf \<and> \<not> P (buf ! src)")
    case True
    then show ?thesis using 1 by (subst scan.simps) simp
  next
    case False
    then show ?thesis using "1.prems" by (subst scan.simps) auto
  qed
qed

text \<open>A scan over characters that the specification skips.\<close>

lemma scan_run:
  assumes "scan P buf src = Inr (src', b)" "\<And>c. \<not> P c \<Longrightarrow> spec_char d c = Go d []"
  shows "spec_run d (drop src buf) = spec_run d (drop src' buf)"
proof -
  note s = scan_src [OF assms(1)]
  have "drop src buf = take (src' - src) (drop src buf) @ drop src' buf"
    using s by (metis append_take_drop_id drop_drop le_add_diff_inverse2)
  moreover have "list_all (\<lambda>c. spec_char d c = Go d []) (take (src' - src) (drop src buf))"
    using s assms(2) by (auto simp: list_all_iff)
  ultimately show ?thesis by (metis spec_run_skip)
qed

lemma size_scan_run:
  assumes "src \<le> length buf" "dec_state d = CHUNKED_IN_CHUNK_SIZE" "decoder_ok d"
  shows "\<exists>src' d' r. size_scan buf src d = Inr (src', d', r) \<and> dec_state d' = CHUNKED_IN_CHUNK_SIZE \<and>
    decoder_ok d' \<and> src \<le> src' \<and> src' \<le> length buf \<and>
    (case r of
       Some x \<Rightarrow> \<exists>e. e \<noteq> Done \<and> x = ret_of e [] \<and> spec_run d (drop src buf) = (d', [], drop src' buf, e)
     | None \<Rightarrow> src' < length buf \<and> decode_hex (buf ! src') = - 1 \<and> hex_count d' \<noteq> 0 \<and>
         spec_run d (drop src buf) = spec_run d' (drop src' buf))"
  using assms
proof (induction buf src d rule: size_scan.induct)
  case (1 buf src d)
  let ?c = "buf ! src"
  show ?case
  proof (cases "src = length buf")
    case True
    with "1.prems" show ?thesis
      by (subst size_scan.simps) (auto simp: ret_of_def intro!: exI [of _ More])
  next
    case False
    with "1.prems"(1) have l: "src < length buf" and s: "drop src buf = ?c # drop (Suc src) buf"
      by (simp_all add: Cons_nth_drop_Suc)
    show ?thesis
    proof (cases "decode_hex ?c = - 1 \<or> hex_count d = MAX_HEX")
      case True
      then show ?thesis using "1.prems" l s
        by (subst size_scan.simps) (auto simp: Let_def spec_char_def ret_of_def intro!: exI [of _ Corrupt])
    next
      case False
      let ?d = "d\<lparr>bytes_left_in_chunk := bytes_left_in_chunk d * 16 + word_of_int (decode_hex ?c),
        hex_count := hex_count d + 1\<rparr>"
      have g: "spec_char d ?c = Go ?d []" using False "1.prems"(2) by (simp add: spec_char_def)
      have e: "size_scan buf src d = size_scan buf (Suc src) ?d"
        using False l by (subst size_scan.simps) simp
      have r: "spec_run d (drop src buf) = spec_run ?d (drop (Suc src) buf)" by (simp add: s g del: spec_run.simps(2))
      from 1(1) [of ?c "decode_hex ?c"] l False "1.prems" spec_char_ok [OF "1.prems"(3) g]
      obtain src' d' q where "size_scan buf (Suc src) ?d = Inr (src', d', q)" "dec_state d' = CHUNKED_IN_CHUNK_SIZE"
        "decoder_ok d'" "Suc src \<le> src'" "src' \<le> length buf"
        "case q of Some x \<Rightarrow> \<exists>e. e \<noteq> Done \<and> x = ret_of e [] \<and> spec_run ?d (drop (Suc src) buf) = (d', [], drop src' buf, e)
         | None \<Rightarrow> src' < length buf \<and> decode_hex (buf ! src') = - 1 \<and> hex_count d' \<noteq> 0 \<and>
             spec_run ?d (drop (Suc src) buf) = spec_run d' (drop src' buf)"
        by auto
      then show ?thesis unfolding e r by (intro exI [of _ src'] exI [of _ d'] exI [of _ q]) simp
    qed
  qed
qed

lemma move_down_run:
  assumes "in_buffer v" "n \<le> length (v_buf v) - v_src v"
  shows "\<exists>buf. move_down v n = Inr buf \<and> length buf = length (v_buf v) \<and>
    take (v_dst v + n) buf = take (v_dst v) (v_buf v) @ take n (unread v) \<and>
    drop (v_src v + n) buf = drop (v_src v + n) (v_buf v)"
proof (cases "v_dst v = v_src v")
  case True
  then show ?thesis by (simp add: move_down_def unread_def take_add)
next
  case False
  with assms have "v_dst v < v_src v" "v_src v + n \<le> length (v_buf v)" by (auto simp: in_buffer_def)
  then show ?thesis using False
    by (auto simp: move_down_def memmove_def unread_def min_def drop_drop intro!: arg_cong2 [of _ _ _ _ drop])
qed

text \<open>A case that finds its stop character, or the end of the buffer, without writing.\<close>

definition refines :: "decode_vars \<Rightarrow> (decode_vars \<times> jump) outcome \<Rightarrow> bool" where
  "refines v m \<longleftrightarrow> (\<exists>v' j out. m = Inr (v', j) \<and> written v out v' \<and> jump_ok v out v' j)"

lemma refinesI: "written v out v' \<Longrightarrow> jump_ok v out v' j \<Longrightarrow> refines v (goto v' j)"
  by (auto simp: refines_def goto_def)

lemma written_read:
  assumes "in_buffer v" "v_src v \<le> src" "src \<le> length (v_buf v)"
  shows "written v [] (v\<lparr>v_src := src\<rparr>)" "written v [] (v\<lparr>v_src := src, v_dec := d\<rparr>)"
  using assms by (simp_all add: written_def in_buffer_def)

lemma scan_end:
  assumes "scan P (v_buf v) (v_src v) = Inr (src, False)" "\<And>c. \<not> P c \<Longrightarrow> spec_char (v_dec v) c = Go (v_dec v) []"
    "in_buffer v"
  shows "refines v (goto (v\<lparr>v_src := src\<rparr>) (Exit (- 2)))"
proof (rule refinesI [where out = "[]"])
  note s = scan_src [OF assms(1)]
  then show "written v [] (v\<lparr>v_src := src\<rparr>)" using assms(3) by (simp add: written_read)
  show "jump_ok v [] (v\<lparr>v_src := src\<rparr>) (Exit (- 2))"
    using scan_run [OF assms(1,2)] s by (auto simp: jump_ok_def unread_def ret_of_def intro!: exI [of _ More])
qed

lemma scan_found:
  assumes "scan P (v_buf v) (v_src v) = Inr (src, b)" "b" "\<And>c. \<not> P c \<Longrightarrow> spec_char (v_dec v) c = Go (v_dec v) []"
  shows "src < length (v_buf v)" "v_src v \<le> src" "P (v_buf v ! src)"
    "spec_run (v_dec v) (unread v) = spec_run (v_dec v) (v_buf v ! src # drop (Suc src) (v_buf v))"
  using scan_src [OF assms(1)] scan_run [OF assms(1,3)] assms(2) by (auto simp: unread_def Cons_nth_drop_Suc)

lemma refines_EXT:
  assumes "in_buffer v" "decoder_ok (v_dec v)" "dec_state (v_dec v) = CHUNKED_IN_CHUNK_EXT"
  shows "refines v (case_EXT v)"
proof -
  let ?d = "v_dec v"
  have skip: "c \<noteq> LF \<Longrightarrow> spec_char ?d c = Go ?d []" for c
    using assms(3) by (simp add: spec_char_def spec_ext_def)
  obtain src b where s: "scan (\<lambda>c. c = LF) (v_buf v) (v_src v) = Inr (src, b)"
    using scan_total assms(1) unfolding in_buffer_def by blast
  show ?thesis
  proof (cases b)
    case False
    then show ?thesis using scan_end [of "\<lambda>c. c = LF" v src] s skip assms(1) by (simp add: case_EXT_def)
  next
    case True
    note f = scan_found [OF s True skip]
    have h: "spec_char ?d LF = spec_ext ?d LF" using assms(3) by (simp add: spec_char_def)
    have w: "written v [] (v\<lparr>v_src := Suc src\<rparr>)" "written v [] (v\<lparr>v_src := Suc src, v_dec := d\<rparr>)" for d
      using f(1,2) assms(1) by (simp_all add: written_read)
    consider (data) "bytes_left_in_chunk ?d \<noteq> 0" | (trailer) "bytes_left_in_chunk ?d = 0" "consume_trailer ?d"
      | (complete) "bytes_left_in_chunk ?d = 0" "\<not> consume_trailer ?d" by blast
    then show ?thesis
    proof cases
      case data
      then show ?thesis using s True f(3,4) h w(2) assms(2,3)
        by (auto simp: case_EXT_def jump_ok_def spec_ext_def decoder_ok_def unread_def intro!: refinesI [where out = "[]"])
    next
      case trailer
      then show ?thesis using s True f(3,4) h w(2) assms(2,3)
        by (auto simp: case_EXT_def jump_ok_def spec_ext_def decoder_ok_def unread_def intro!: refinesI [where out = "[]"])
    next
      case complete
      then show ?thesis using s True f(3,4) h w(1)
        by (auto simp: case_EXT_def jump_ok_def spec_ext_def unread_def intro!: refinesI [where out = "[]"])
    qed
  qed
qed

lemma refines_CRLF:
  assumes "in_buffer v" "decoder_ok (v_dec v)" "dec_state (v_dec v) = CHUNKED_IN_CHUNK_CRLF"
  shows "refines v (case_CRLF v)"
proof -
  let ?d = "v_dec v"
  have skip: "\<not> c \<noteq> CR \<Longrightarrow> spec_char ?d c = Go ?d []" for c
    using assms(3) by (simp add: spec_char_def)
  obtain src b where s: "scan (\<lambda>c. c \<noteq> CR) (v_buf v) (v_src v) = Inr (src, b)"
    using scan_total assms(1) unfolding in_buffer_def by blast
  show ?thesis
  proof (cases b)
    case False
    then show ?thesis using scan_end [of "\<lambda>c. c \<noteq> CR" v src] s skip assms(1) by (simp add: case_CRLF_def)
  next
    case True
    note f = scan_found [OF s True skip]
    have w: "written v [] (v\<lparr>v_src := Suc src, v_dec := d\<rparr>)" "written v [] (v\<lparr>v_src := src\<rparr>)" for d
      using f(1,2) assms(1) by (simp_all add: written_read)
    show ?thesis
    proof (cases "v_buf v ! src = LF")
      case True
      then show ?thesis using s \<open>b\<close> f(1,4) w(1) assms(2,3)
        by (auto simp: case_CRLF_def jump_ok_def spec_char_def decoder_ok_def unread_def unat_eq_0
            intro!: refinesI [where out = "[]"])
    next
      case False
      have "spec_char ?d (v_buf v ! src) = Bad ?d" using f(3) False assms(3) by (simp add: spec_char_def)
      with f(1,4) have "spec_run ?d (unread v) = (?d, [], drop src (v_buf v), Corrupt)"
        by (metis Cons_nth_drop_Suc chunk_step.simps(11) spec_run.simps(2))
      then show ?thesis using s \<open>b\<close> f(1) w(2) False
        by (auto simp: case_CRLF_def jump_ok_def unread_def ret_of_def intro!: refinesI [where out = "[]"] exI [of _ Corrupt])
    qed
  qed
qed

lemma refines_LINE_HEAD:
  assumes "in_buffer v" "decoder_ok (v_dec v)" "dec_state (v_dec v) = CHUNKED_IN_TRAILERS_LINE_HEAD"
  shows "refines v (case_LINE_HEAD v)"
proof -
  let ?d = "v_dec v"
  have skip: "\<not> c \<noteq> CR \<Longrightarrow> spec_char ?d c = Go ?d []" for c
    using assms(3) by (simp add: spec_char_def)
  obtain src b where s: "scan (\<lambda>c. c \<noteq> CR) (v_buf v) (v_src v) = Inr (src, b)"
    using scan_total assms(1) unfolding in_buffer_def by blast
  show ?thesis
  proof (cases b)
    case False
    then show ?thesis using scan_end [of "\<lambda>c. c \<noteq> CR" v src] s skip assms(1) by (simp add: case_LINE_HEAD_def)
  next
    case True
    note f = scan_found [OF s True skip]
    have w: "written v [] (v\<lparr>v_src := Suc src, v_dec := d\<rparr>)" "written v [] (v\<lparr>v_src := Suc src\<rparr>)" for d
      using f(1,2) assms(1) by (simp_all add: written_read)
    show ?thesis
    proof (cases "v_buf v ! src = LF")
      case True
      then show ?thesis using s \<open>b\<close> f(1,3,4) w(2) assms(3)
        by (auto simp: case_LINE_HEAD_def jump_ok_def spec_char_def unread_def intro!: refinesI [where out = "[]"])
    next
      case False
      then show ?thesis using s \<open>b\<close> f(1,3,4) w(1) assms(2,3)
        by (auto simp: case_LINE_HEAD_def jump_ok_def spec_char_def decoder_ok_def unread_def
            intro!: refinesI [where out = "[]"])
    qed
  qed
qed

lemma refines_LINE_MIDDLE:
  assumes "in_buffer v" "decoder_ok (v_dec v)" "dec_state (v_dec v) = CHUNKED_IN_TRAILERS_LINE_MIDDLE"
  shows "refines v (case_LINE_MIDDLE v)"
proof -
  let ?d = "v_dec v"
  have skip: "c \<noteq> LF \<Longrightarrow> spec_char ?d c = Go ?d []" for c
    using assms(3) by (simp add: spec_char_def)
  obtain src b where s: "scan (\<lambda>c. c = LF) (v_buf v) (v_src v) = Inr (src, b)"
    using scan_total assms(1) unfolding in_buffer_def by blast
  show ?thesis
  proof (cases b)
    case False
    then show ?thesis using scan_end [of "\<lambda>c. c = LF" v src] s skip assms(1) by (simp add: case_LINE_MIDDLE_def)
  next
    case True
    note f = scan_found [OF s True skip]
    have "written v [] (v\<lparr>v_src := Suc src, v_dec := d\<rparr>)" for d
      using f(1,2) assms(1) by (simp add: written_read)
    then show ?thesis using s True f(1,3,4) assms(2,3)
      by (auto simp: case_LINE_MIDDLE_def jump_ok_def spec_char_def decoder_ok_def unread_def
          intro!: refinesI [where out = "[]"])
  qed
qed

lemma refines_SIZE:
  assumes "in_buffer v" "decoder_ok (v_dec v)" "dec_state (v_dec v) = CHUNKED_IN_CHUNK_SIZE"
  shows "refines v (case_SIZE v)"
proof -
  obtain src d r where s: "size_scan (v_buf v) (v_src v) (v_dec v) = Inr (src, d, r)"
    "dec_state d = CHUNKED_IN_CHUNK_SIZE" "decoder_ok d" "v_src v \<le> src" "src \<le> length (v_buf v)" and
    q: "case r of
       Some x \<Rightarrow> \<exists>e. e \<noteq> Done \<and> x = ret_of e [] \<and> spec_run (v_dec v) (unread v) = (d, [], drop src (v_buf v), e)
     | None \<Rightarrow> src < length (v_buf v) \<and> decode_hex (v_buf v ! src) = - 1 \<and> hex_count d \<noteq> 0 \<and>
         spec_run (v_dec v) (unread v) = spec_run d (drop src (v_buf v))"
    using size_scan_run [of "v_src v" "v_buf v" "v_dec v"] assms unfolding in_buffer_def unread_def by blast
  have w: "written v [] (v\<lparr>v_src := src, v_dec := d\<rparr>)" for d
    using s assms(1) by (simp add: written_read)
  show ?thesis
  proof (cases r)
    case (Some x)
    with s q w show ?thesis
      by (auto simp: case_SIZE_def jump_ok_def unread_def intro!: refinesI [where out = "[]"])
  next
    case None
    let ?d = "d\<lparr>hex_count := 0, dec_state := CHUNKED_IN_CHUNK_EXT\<rparr>"
    let ?c = "v_buf v ! src"
    from None q have n: "src < length (v_buf v)" "decode_hex ?c = - 1" "hex_count d \<noteq> 0"
      "spec_run (v_dec v) (unread v) = spec_run d (drop src (v_buf v))" by simp_all
    have "spec_char d ?c = spec_char ?d ?c" using n s(2) by (simp add: spec_char_def)
    then have "spec_run d (?c # t) = spec_run ?d (?c # t)" for t
      using n(2,3) s(2) by (cases "spec_char d ?c") (simp_all add: spec_char_def)
    then have "spec_run d (drop src (v_buf v)) = spec_run ?d (drop src (v_buf v))"
      by (simp only: Cons_nth_drop_Suc [OF n(1), symmetric])
    moreover have "decoder_ok ?d" by (simp add: decoder_ok_def)
    ultimately show ?thesis using s(1) None n(4) w
      by (auto simp: case_SIZE_def jump_ok_def unread_def intro!: refinesI [where out = "[]"])
  qed
qed

lemma refines_DATA:
  assumes "in_buffer v" "decoder_ok (v_dec v)" "dec_state (v_dec v) = CHUNKED_IN_CHUNK_DATA"
  shows "refines v (case_DATA v)"
proof -
  let ?d = "v_dec v" and ?left = "unat (bytes_left_in_chunk (v_dec v))"
  let ?avail = "length (v_buf v) - v_src v"
  have w: "written v (take n (unread v)) (v\<lparr>v_buf := buf, v_src := v_src v + n, v_dst := v_dst v + n, v_dec := d\<rparr>)"
    if "n \<le> ?avail" "length buf = length (v_buf v)"
      "take (v_dst v + n) buf = take (v_dst v) (v_buf v) @ take n (unread v)" for n buf d
    using that assms(1) by (auto simp: written_def in_buffer_def)
  have split: "spec_run ?d (unread v) = spec_run ?d (take n (unread v) @ drop (v_src v + n) (v_buf v))" for n
    by (simp add: unread_def add.commute flip: drop_drop)
  have len: "n \<le> ?avail \<Longrightarrow> length (take n (unread v)) = n" for n by (simp add: unread_def)
  show ?thesis
  proof (cases "?avail < ?left")
    case True
    obtain buf where m: "move_down v ?avail = Inr buf" "length buf = length (v_buf v)"
      "take (v_dst v + ?avail) buf = take (v_dst v) (v_buf v) @ take ?avail (unread v)"
      "drop (v_src v + ?avail) buf = drop (v_src v + ?avail) (v_buf v)"
      using move_down_run [OF assms(1) order_refl] by blast
    have r: "spec_run ?d (unread v) = prepend (take ?avail (unread v))
        (spec_run (?d\<lparr>bytes_left_in_chunk := bytes_left_in_chunk ?d - of_nat ?avail\<rparr>) [])"
      using spec_run_data [OF assms(3), of "take ?avail (unread v)" "drop (v_src v + ?avail) (v_buf v)"]
        split [of ?avail] True len [of ?avail] assms(1) by (simp add: in_buffer_def)
    show ?thesis unfolding case_DATA_def Let_def using True
      by (simp add: m(1), intro refinesI [OF w [OF order_refl m(2,3)]])
        (auto simp: jump_ok_def r [unfolded unread_def, simplified] unread_def m(2) ret_of_def intro!: exI [of _ More])
  next
    case False
    then have le: "?left \<le> ?avail" by simp
    obtain buf where m: "move_down v ?left = Inr buf" "length buf = length (v_buf v)"
      "take (v_dst v + ?left) buf = take (v_dst v) (v_buf v) @ take ?left (unread v)"
      "drop (v_src v + ?left) buf = drop (v_src v + ?left) (v_buf v)"
      using move_down_run [OF assms(1) le] by blast
    have r: "spec_run ?d (unread v) = prepend (take ?left (unread v))
        (spec_run (?d\<lparr>bytes_left_in_chunk := 0, dec_state := CHUNKED_IN_CHUNK_CRLF\<rparr>)
          (drop (v_src v + ?left) (v_buf v)))"
      using spec_run_data_full [OF assms(3) len [OF le], of "drop (v_src v + ?left) (v_buf v)"]
        split [of ?left] assms(2,3) by (simp add: decoder_ok_def)
    have k: "decoder_ok (?d\<lparr>bytes_left_in_chunk := 0, dec_state := CHUNKED_IN_CHUNK_CRLF\<rparr>)"
      using assms(2,3) by (simp add: decoder_ok_def)
    show ?thesis unfolding case_DATA_def Let_def using False
      by (simp add: m(1), intro refinesI [OF w [OF le m(2,3)]]) (simp add: jump_ok_def r [unfolded unread_def] k unread_def m(4))
  qed
qed

lemma refines_switch:
  assumes "in_buffer v" "decoder_ok (v_dec v)" shows "refines v (decode_switch v)"
  using assms refines_SIZE refines_EXT refines_DATA refines_CRLF refines_LINE_HEAD refines_LINE_MIDDLE
  by (cases "dec_state (v_dec v)") (simp_all add: decode_switch_def)

lemma in_buffer_written: "written v out v' \<Longrightarrow> in_buffer v'"
  by (simp add: written_def)

lemma written_trans: "written v out v' \<Longrightarrow> written v' out' v'' \<Longrightarrow> written v (out @ out') v''"
  by (simp add: written_def)

lemma decode_loop_run:
  assumes "in_buffer v" "decoder_ok (v_dec v)"
  shows "\<exists>v' ret out e. decode_loop v = Inr (v', ret) \<and> written v out v' \<and>
    spec_run (v_dec v) (unread v) = (v_dec v', out, unread v', e) \<and> ret = ret_of e (unread v')"
  using assms
proof (induction v rule: decode_loop.induct)
  case (1 v)
  from refines_switch [OF "1.prems"] obtain v' j out
    where s: "decode_switch v = Inr (v', j)" "written v out v'" "jump_ok v out v' j"
    unfolding refines_def by blast
  show ?case
  proof (cases j)
    case Switch
    with s(3) have k: "decoder_ok (v_dec v')"
      and r: "spec_run (v_dec v) (unread v) = prepend out (spec_run (v_dec v') (unread v'))"
      by (simp_all add: jump_ok_def)
    from "1.IH" [OF s(1) refl Switch in_buffer_written [OF s(2)] k] obtain v'' ret out' e
      where "decode_loop v' = Inr (v'', ret)" "written v' out' v''"
        "spec_run (v_dec v') (unread v') = (v_dec v'', out', unread v'', e)" "ret = ret_of e (unread v'')" by blast
    then show ?thesis using s(1) Switch written_trans [OF s(2)] r
      by (subst decode_loop.simps) fastforce
  next
    case (Exit x)
    with s show ?thesis by (subst decode_loop.simps) (force simp: jump_ok_def ret_of_def split: chunk_end.splits)
  next
    case Complete
    then show ?thesis using s
      by (subst decode_loop.simps)
        (auto simp: jump_ok_def ret_of_def unread_def written_def in_buffer_def of_nat_diff intro!: exI [of _ Done])
  qed
qed

lemma decode_chunked_run:
  assumes "decoder_ok d"
  obtains d' out rest e buf' where "spec_run d buf = (d', out, rest, e)"
    "phr_decode_chunked d buf = Inr (d', buf', length out, ret_of e rest)"
    "take (length out + length rest) buf' = out @ rest" "length buf' = length buf"
    "length out + length rest \<le> length buf"
proof -
  let ?v = "\<lparr>v_dec = d, v_buf = buf, v_src = 0, v_dst = 0\<rparr>"
  have "in_buffer ?v" by (simp add: in_buffer_def)
  from decode_loop_run [OF this] assms obtain v' out e where
    v: "decode_loop ?v = Inr (v', ret_of e (unread v'))" "written ?v out v'"
      "spec_run d buf = (v_dec v', out, unread v', e)" by (auto simp: unread_def [of ?v])
  have i: "in_buffer v'" "length (v_buf v') = length buf" "take (v_dst v') (v_buf v') = out"
    using v(2) by (simp_all add: written_def)
  then have dst: "v_dst v' = length out" "v_dst v' \<le> v_src v'" "v_src v' \<le> length (v_buf v')"
    by (auto simp: in_buffer_def)
  from move_down_run [OF i(1) order_refl] obtain buf' where
    "move_down v' (length (v_buf v') - v_src v') = Inr buf'" "length buf' = length buf"
    "take (length out + length (unread v')) buf' = out @ unread v'"
    using i dst by (auto simp: unread_def)
  then show ?thesis using v(1,3) dst i(2)
    by (intro that [of "v_dec v'" out "unread v'" e buf']) (auto simp: phr_decode_chunked_def unread_def)
qed

section \<open>Decoding in pieces\<close>

text \<open>
  The contract that a caller uses while data arrives: each call takes a piece, delivers output,
  and says whether more is wanted, the data is corrupt, or the message ended with some bytes
  left over.
\<close>

datatype stream_end = Wants_More | Rejected | Ended string

fun feed :: "('d \<Rightarrow> string \<Rightarrow> 'd \<times> string \<times> stream_end) \<Rightarrow> 'd \<Rightarrow> string list \<Rightarrow> 'd \<times> string \<times> stream_end" where
  "feed decode d [] = (d, [], Wants_More)"
| "feed decode d (p # ps) =
     (case decode d p of
        (d1, out1, Wants_More) \<Rightarrow> (case feed decode d1 ps of (d2, out2, e) \<Rightarrow> (d2, out1 @ out2, e))
      | (d1, out1, Rejected) \<Rightarrow> (d1, out1, Rejected)
      | (d1, out1, Ended rest) \<Rightarrow> (d1, out1, Ended (rest @ concat ps)))"

locale stream_decoder =
  fixes decode :: "'d \<Rightarrow> string \<Rightarrow> 'd \<times> string \<times> stream_end"
    and ok :: "'d \<Rightarrow> bool"
  assumes decode_Nil: "ok d \<Longrightarrow> decode d [] = (d, [], Wants_More)"
    and decode_ok: "ok d \<Longrightarrow> decode d s = (d1, out1, Wants_More) \<Longrightarrow> ok d1"
    and decode_more: "ok d \<Longrightarrow> decode d s = (d1, out1, Wants_More) \<Longrightarrow>
      decode d (s @ t) = (case decode d1 t of (d2, out2, e) \<Rightarrow> (d2, out1 @ out2, e))"
    and decode_rejected: "ok d \<Longrightarrow> decode d s = (d1, out1, Rejected) \<Longrightarrow> decode d (s @ t) = (d1, out1, Rejected)"
    and decode_ended: "ok d \<Longrightarrow> decode d s = (d1, out1, Ended rest) \<Longrightarrow>
      decode d (s @ t) = (d1, out1, Ended (rest @ t))"
begin

lemma feed_concat: "ok d \<Longrightarrow> feed decode d ps = decode d (concat ps)"
proof (induction ps arbitrary: d)
  case (Cons p ps)
  obtain d1 out1 e where p: "decode d p = (d1, out1, e)" by (cases "decode d p")
  show ?case
  proof (cases e)
    case Wants_More
    with p Cons decode_ok [of d p d1 out1] decode_more [of d p d1 out1 "concat ps"] show ?thesis by simp
  next
    case Rejected
    with p Cons.prems decode_rejected [of d p d1 out1] show ?thesis by simp
  next
    case (Ended rest)
    with p Cons.prems decode_ended [of d p d1 out1 rest] show ?thesis by simp
  qed
qed (simp add: decode_Nil)

text \<open>Only the bytes matter, not how they were cut.\<close>

lemma feed_pieces: "ok d \<Longrightarrow> concat ps = concat qs \<Longrightarrow> feed decode d ps = feed decode d qs"
  by (simp add: feed_concat)

end

text \<open>One call of \<open>phr_decode_chunked\<close> as its caller sees it.\<close>

definition decode_call :: "phr_chunked_decoder \<Rightarrow> string \<Rightarrow> phr_chunked_decoder \<times> string \<times> stream_end" where
  "decode_call d s =
     (case phr_decode_chunked d s of
        Inl _ \<Rightarrow> (d, [], Rejected)
      | Inr (d', buf, n, ret) \<Rightarrow>
          (d', take n buf,
           if ret = - 2 then Wants_More else if ret = - 1 then Rejected
           else Ended (take (nat ret) (drop n buf))))"

definition end_of :: "chunk_end \<Rightarrow> string \<Rightarrow> stream_end" where
  "end_of e rest = (case e of More \<Rightarrow> Wants_More | Corrupt \<Rightarrow> Rejected | Done \<Rightarrow> Ended rest)"

lemma decode_call_run:
  assumes "decoder_ok d" "spec_run d s = (d', out, rest, e)"
  shows "decode_call d s = (d', out, end_of e rest)"
proof -
  from assms(1) obtain d1 out1 rest1 e1 buf where r: "spec_run d s = (d1, out1, rest1, e1)"
    "phr_decode_chunked d s = Inr (d1, buf, length out1, ret_of e1 rest1)"
    "take (length out1 + length rest1) buf = out1 @ rest1"
    by (rule decode_chunked_run)
  from r(3) have t: "take (length out1) buf = out1"
    by (auto dest: arg_cong [of _ _ "take (length out1)"])
  from r(3) have "take (length rest1) (drop (length out1) buf) = rest1"
    by (simp add: take_add t)
  with t r assms(2) show ?thesis
    by (cases e) (simp_all add: decode_call_def ret_of_def end_of_def)
qed

lemma spec_run_ok: "decoder_ok d \<Longrightarrow> spec_run d s = (d', out, rest, More) \<Longrightarrow> decoder_ok d'"
proof (induction s arbitrary: d out)
  case (Cons c s)
  show ?case
  proof (cases "spec_char d c")
    case (Go d1 out1)
    with Cons.prems(2) obtain out2 where "spec_run d1 s = (d', out2, rest, More)"
      by (cases "spec_run d1 s") simp
    then show ?thesis using Cons.IH spec_char_ok [OF Cons.prems(1) Go] by blast
  qed (use Cons.prems in simp_all)
qed simp

interpretation chunked: stream_decoder decode_call decoder_ok
proof
  fix d s d1 out1 assume "decoder_ok d"
  then show "decode_call d [] = (d, [], Wants_More)"
    by (simp add: decode_call_run [where e = More and rest = "[]"] end_of_def)
next
  fix d s d1 out1 t assume k: "decoder_ok d" and c: "decode_call d s = (d1, out1, Wants_More)"
  obtain d' out rest e where r: "spec_run d s = (d', out, rest, e)" by (cases "spec_run d s")
  with c decode_call_run [OF k r] have e: "d1 = d'" "out1 = out" "e = More"
    by (auto simp: end_of_def split: chunk_end.splits)
  then show k1: "decoder_ok d1" using spec_run_ok [OF k] r by simp
  obtain d2 out2 rest2 e2 where t: "spec_run d1 t = (d2, out2, rest2, e2)" by (cases "spec_run d1 t")
  have "spec_run d (s @ t) = (d2, out @ out2, rest2, e2)" using r e t by (simp add: spec_run_append)
  then show "decode_call d (s @ t) = (case decode_call d1 t of (d2, out2, e) \<Rightarrow> (d2, out1 @ out2, e))"
    using decode_call_run [OF k] decode_call_run [OF k1 t] e by simp
next
  fix d s d1 out1 t assume k: "decoder_ok d" and c: "decode_call d s = (d1, out1, Rejected)"
  obtain d' out rest e where r: "spec_run d s = (d', out, rest, e)" by (cases "spec_run d s")
  with c decode_call_run [OF k r] have "d1 = d'" "out1 = out" "e = Corrupt"
    by (auto simp: end_of_def split: chunk_end.splits)
  then show "decode_call d (s @ t) = (d1, out1, Rejected)"
    using decode_call_run [OF k, of "s @ t" d' out "rest @ t" Corrupt] r
    by (simp add: spec_run_append end_of_def)
next
  fix d s d1 out1 q t assume k: "decoder_ok d" and c: "decode_call d s = (d1, out1, Ended q)"
  obtain d' out rest e where r: "spec_run d s = (d', out, rest, e)" by (cases "spec_run d s")
  with c decode_call_run [OF k r] have "d1 = d'" "out1 = out" "e = Done" "q = rest"
    by (auto simp: end_of_def split: chunk_end.splits)
  then show "decode_call d (s @ t) = (d1, out1, Ended (q @ t))"
    using decode_call_run [OF k, of "s @ t" d' out "rest @ t" Done] r
    by (simp add: spec_run_append end_of_def)
qed

section \<open>The encoding\<close>

text \<open>
  A chunk is written as the digits of its size, an extension, LF, the data and CR LF. The CR
  before the first LF belongs to the extension here. The last chunk has size zero and no data;
  the trailer that may follow it is a list of lines and an empty line.
\<close>

record chunk =
  ch_size :: string
  ch_ext :: string
  ch_data :: string

definition hexval :: "string \<Rightarrow> nat" where
  "hexval h = foldl (\<lambda>n c. n * 16 + nat (decode_hex c)) 0 h"

definition chunk_ok :: "chunk \<Rightarrow> bool" where
  "chunk_ok c \<longleftrightarrow>
     ch_size c \<noteq> [] \<and> length (ch_size c) \<le> MAX_HEX \<and> list_all (\<lambda>x. decode_hex x \<noteq> - 1) (ch_size c) \<and>
     list_all (\<lambda>x. x \<noteq> LF) (ch_ext c) \<and> (ch_ext c \<noteq> [] \<longrightarrow> decode_hex (hd (ch_ext c)) = - 1) \<and>
     hexval (ch_size c) = length (ch_data c)"

definition chunk_head :: "chunk \<Rightarrow> string" where
  "chunk_head c = ch_size c @ ch_ext c @ [LF]"

definition encode_chunk :: "chunk \<Rightarrow> string" where
  "encode_chunk c = chunk_head c @ ch_data c @ CRLF"

definition trailer_ok :: "string \<Rightarrow> bool" where
  "trailer_ok t \<longleftrightarrow> t \<noteq> [] \<and> hd t \<noteq> CR \<and> list_all (\<lambda>x. x \<noteq> LF) t"

definition encode_trailer :: "string list \<Rightarrow> string" where
  "encode_trailer ts = concat (map (\<lambda>t. t @ [LF]) ts) @ CRLF"

abbreviation (input) size_state :: "bool \<Rightarrow> phr_chunked_decoder" where
  "size_state ct \<equiv> \<lparr>bytes_left_in_chunk = 0, consume_trailer = ct, hex_count = 0,
     dec_state = CHUNKED_IN_CHUNK_SIZE\<rparr>"

lemma spec_run_digits:
  "list_all (\<lambda>x. decode_hex x \<noteq> - 1) h \<Longrightarrow> k + length h \<le> MAX_HEX \<Longrightarrow>
     spec_run \<lparr>bytes_left_in_chunk = of_nat n, consume_trailer = ct, hex_count = k,
       dec_state = CHUNKED_IN_CHUNK_SIZE\<rparr> (h @ s) =
     spec_run \<lparr>bytes_left_in_chunk = of_nat (foldl (\<lambda>n c. n * 16 + nat (decode_hex c)) n h),
       consume_trailer = ct, hex_count = k + length h, dec_state = CHUNKED_IN_CHUNK_SIZE\<rparr> s"
proof (induction h arbitrary: n k)
  case (Cons c h)
  let ?v = "nat (decode_hex c)"
  have "word_of_int (decode_hex c) = (of_nat ?v :: u32)"
    using Cons.prems(1) decode_hex_range [of c] by (simp add: of_nat_nat)
  then have "spec_char \<lparr>bytes_left_in_chunk = of_nat n, consume_trailer = ct, hex_count = k,
       dec_state = CHUNKED_IN_CHUNK_SIZE\<rparr> c =
     Go \<lparr>bytes_left_in_chunk = of_nat (n * 16 + ?v), consume_trailer = ct, hex_count = k + 1,
       dec_state = CHUNKED_IN_CHUNK_SIZE\<rparr> []"
    using Cons.prems by (simp add: spec_char_def)
  then show ?case using Cons.IH [of "k + 1" "n * 16 + ?v"] Cons.prems by (simp del: spec_run.simps(2))
qed simp

lemma hexval_bound:
  assumes "list_all (\<lambda>x. decode_hex x \<noteq> - 1) h" shows "hexval h < 16 ^ length h"
  using assms
proof (induction h rule: rev_induct)
  case (snoc c h)
  then have "hexval h < 16 ^ length h" "nat (decode_hex c) < 16"
    using decode_hex_range [of c] by auto
  then show ?case by (simp add: hexval_def)
qed (simp add: hexval_def)

lemma chunk_length:
  assumes "chunk_ok c" shows "unat (of_nat (length (ch_data c)) :: u32) = length (ch_data c)"
proof (rule of_nat_inverse [OF refl])
  have "length (ch_data c) < 16 ^ length (ch_size c)"
    using assms hexval_bound [of "ch_size c"] by (simp add: chunk_ok_def)
  also have "\<dots> \<le> 16 ^ 8" using assms by (intro power_increasing) (simp_all add: chunk_ok_def MAX_HEX_def)
  finally show "length (ch_data c) < 2 ^ LENGTH(32)" by simp
qed

text \<open>After the digits: the character that is no digit, the rest of the extension, and LF.\<close>

lemma spec_run_ext:
  assumes "list_all (\<lambda>x. x \<noteq> LF) x" "x \<noteq> [] \<longrightarrow> decode_hex (hd x) = - 1" "k \<noteq> 0"
  shows "spec_run \<lparr>bytes_left_in_chunk = b, consume_trailer = ct, hex_count = k, dec_state = CHUNKED_IN_CHUNK_SIZE\<rparr>
      (x @ LF # s) =
    spec_run \<lparr>bytes_left_in_chunk = b, consume_trailer = ct, hex_count = 0, dec_state = CHUNKED_IN_CHUNK_EXT\<rparr> (LF # s)"
    (is "spec_run ?d _ = spec_run ?e _")
proof -
  have lf: "decode_hex LF = - 1" by code_simp
  have "spec_char ?d c = spec_char ?e c" if "decode_hex c = - 1" for c
    using that assms(3) by (simp add: spec_char_def)
  then have same: "spec_run ?d (c # t) = spec_run ?e (c # t)" if "decode_hex c = - 1" for c t
    using that by (cases "spec_char ?e c") (simp_all add: spec_char_def assms(3))
  have "spec_run ?d (x @ LF # s) = spec_run ?e (x @ LF # s)"
    using assms(2) lf same by (cases x) (simp_all del: spec_run.simps(2))
  moreover have "list_all (\<lambda>c. spec_char ?e c = Go ?e []) x"
    using assms(1) by (auto simp: list_all_iff spec_char_def spec_ext_def)
  ultimately show ?thesis by (simp add: spec_run_skip)
qed

lemma spec_run_head:
  assumes "chunk_ok c"
  shows "spec_run (size_state ct) (chunk_head c @ s) =
    spec_run \<lparr>bytes_left_in_chunk = of_nat (length (ch_data c)), consume_trailer = ct, hex_count = 0,
      dec_state = CHUNKED_IN_CHUNK_EXT\<rparr> (LF # s)"
  using assms spec_run_digits [of "ch_size c" 0 0 ct "ch_ext c @ LF # s"]
  by (simp add: chunk_ok_def chunk_head_def hexval_def spec_run_ext del: spec_run.simps(2))

lemma spec_run_chunk:
  assumes "chunk_ok c" "ch_data c \<noteq> []"
  shows "spec_run (size_state ct) (encode_chunk c @ s) = prepend (ch_data c) (spec_run (size_state ct) s)"
proof -
  let ?b = "of_nat (length (ch_data c)) :: u32"
  let ?d = "\<lparr>bytes_left_in_chunk = ?b, consume_trailer = ct, hex_count = 0, dec_state = CHUNKED_IN_CHUNK_DATA\<rparr>"
  have b: "unat ?b = length (ch_data c)" using assms(1) by (rule chunk_length)
  with assms(2) have nz: "?b \<noteq> 0" by (metis length_0_conv unat_0)
  have "spec_run (size_state ct) (encode_chunk c @ s) = spec_run ?d (ch_data c @ CRLF @ s)"
    using nz spec_run_head [OF assms(1), of ct "ch_data c @ CRLF @ s"]
    by (simp add: encode_chunk_def spec_char_def spec_ext_def)
  also have "\<dots> = prepend (ch_data c) (spec_run (size_state ct) s)"
    using spec_run_data_full [of ?d "ch_data c" "CRLF @ s"] nz b by (simp add: spec_char_def)
  finally show ?thesis .
qed

lemma spec_run_trailer:
  "list_all trailer_ok ts \<Longrightarrow> dec_state d = CHUNKED_IN_TRAILERS_LINE_HEAD \<Longrightarrow>
     spec_run d (encode_trailer ts @ s) = (d, [], s, Done)"
proof (induction ts)
  case Nil
  then show ?case by (simp add: encode_trailer_def spec_char_def)
next
  case (Cons t ts)
  let ?m = "d\<lparr>dec_state := CHUNKED_IN_TRAILERS_LINE_MIDDLE\<rparr>"
  from Cons.prems(1) obtain c u where t: "t = c # u" "c \<noteq> CR" "c \<noteq> LF" "list_all (\<lambda>x. x \<noteq> LF) u"
    by (auto simp: trailer_ok_def neq_Nil_conv)
  have u: "spec_run ?m (u @ LF # q) = spec_run ?m (LF # q)" for q
    using t(4) by (intro spec_run_skip) (auto simp: list_all_iff spec_char_def)
  have "spec_run d (c # q) = spec_run ?m q" for q using t(2,3) Cons.prems(2) by (simp add: spec_char_def)
  moreover have "spec_run ?m (LF # q) = spec_run d q" for q
    using Cons.prems(2) by (cases d) (simp add: spec_char_def)
  ultimately show ?case using Cons t(1) u by (simp add: encode_trailer_def del: spec_run.simps(2))
qed

lemma spec_run_chunks:
  "list_all (\<lambda>c. chunk_ok c \<and> ch_data c \<noteq> []) cs \<Longrightarrow>
     spec_run (size_state ct) (concat (map encode_chunk cs) @ s) =
     prepend (concat (map ch_data cs)) (spec_run (size_state ct) s)"
  by (induction cs) (simp_all add: spec_run_chunk)

definition encode_message :: "bool \<Rightarrow> chunk list \<Rightarrow> chunk \<Rightarrow> string list \<Rightarrow> string" where
  "encode_message ct cs z ts =
     concat (map encode_chunk cs) @ chunk_head z @ (if ct then encode_trailer ts else [])"

lemma spec_run_message:
  assumes "list_all (\<lambda>c. chunk_ok c \<and> ch_data c \<noteq> []) cs" "chunk_ok z" "ch_data z = []"
    "list_all trailer_ok ts"
  shows "\<exists>d. spec_run (size_state ct) (encode_message ct cs z ts @ s) = (d, concat (map ch_data cs), s, Done)"
proof (cases ct)
  case True
  then show ?thesis using assms
    by (simp add: encode_message_def spec_run_chunks spec_run_head spec_char_def spec_ext_def spec_run_trailer)
next
  case False
  then show ?thesis using assms
    by (simp add: encode_message_def spec_run_chunks spec_run_head spec_char_def spec_ext_def)
qed

section \<open>Properties\<close>

text \<open>
  C17: The in-place decoder refines the machine that takes one character at a time. On every
  buffer and in every state that a decoder can be in, it returns without an access outside of
  the buffer; the buffer then holds the decoded data and behind it the bytes that were not
  decoded, \<open>*bufsz\<close> is the length of the data, and the value is \<open>-2\<close>, \<open>-1\<close> or the number of
  bytes left. When more is wanted, everything was read and the decoder is in a proper state.
\<close>

theorem phr_decode_chunked_refines:
  assumes "decoder_ok d"
  shows "\<exists>d' out rest e buf'.
    spec_run d buf = (d', out, rest, e) \<and>
    phr_decode_chunked d buf = Inr (d', buf', length out, ret_of e rest) \<and>
    length buf' = length buf \<and> length out + length rest \<le> length buf \<and>
    take (length out + length rest) buf' = out @ rest \<and>
    (e = More \<longrightarrow> rest = [] \<and> decoder_ok d')"
proof -
  from assms obtain d' out rest e buf' where r: "spec_run d buf = (d', out, rest, e)"
    "phr_decode_chunked d buf = Inr (d', buf', length out, ret_of e rest)"
    "take (length out + length rest) buf' = out @ rest" "length buf' = length buf"
    "length out + length rest \<le> length buf"
    by (rule decode_chunked_run)
  moreover have "e = More \<longrightarrow> rest = [] \<and> decoder_ok d'"
    using r(1) spec_run_ok [OF assms] spec_run_More_rest by blast
  ultimately show ?thesis by blast
qed

theorem phr_decode_chunked_refines_witness:
  "\<exists>d' out rest e buf'.
    spec_run (size_state False) (''3'' @ CRLF @ ''abcd'') = (d', out, rest, e) \<and>
    phr_decode_chunked (size_state False) (''3'' @ CRLF @ ''abcd'') = Inr (d', buf', length out, ret_of e rest)"
proof -
  have "decoder_ok (size_state False)" by (simp add: decoder_ok_def MAX_HEX_def)
  from phr_decode_chunked_refines [OF this, of "''3'' @ CRLF @ ''abcd''"] show ?thesis by blast
qed

text \<open>
  How the stream is cut does not matter: calling the decoder on the pieces as they arrive,
  until it stops asking for more, delivers the same output, final state and leftover bytes as
  one call on all of them.
\<close>

lemma decode_in_pieces:
  assumes "decoder_ok d"
  shows "feed decode_call d ps = decode_call d (concat ps)"
  by (rule chunked.feed_concat [OF assms])

lemma decode_in_pieces_witness:
  "feed decode_call (size_state False) [''3'', CRLF @ ''ab'', ''c'' @ CRLF] =
   decode_call (size_state False) (''3'' @ CRLF @ ''abc'' @ CRLF)"
proof -
  have "decoder_ok (size_state False)" by (simp add: decoder_ok_def MAX_HEX_def)
  from decode_in_pieces [OF this, of "[''3'', CRLF @ ''ab'', ''c'' @ CRLF]"] show ?thesis by simp
qed

text \<open>
  C16: Decoding inverts the chunked encoding: whatever the sizes (in up to eight hexadecimal
  digits), the chunk extensions, the trailer lines and the cuts between the pieces, the output
  is the concatenation of the chunks' data, the message ends where the encoding does, and the
  bytes behind it are left over.
\<close>

theorem decode_encoded_message:
  assumes "list_all (\<lambda>c. chunk_ok c \<and> ch_data c \<noteq> []) cs" "chunk_ok z" "ch_data z = []"
    and "list_all trailer_ok ts" and "concat ps = encode_message ct cs z ts @ body"
  shows "\<exists>d. feed decode_call (size_state ct) ps = (d, concat (map ch_data cs), Ended body)"
proof -
  have k: "decoder_ok (size_state ct)" by (simp add: decoder_ok_def MAX_HEX_def)
  obtain d where "spec_run (size_state ct) (concat ps) = (d, concat (map ch_data cs), body, Done)"
    using spec_run_message [OF assms(1-4), of ct body] assms(5) by auto
  then show ?thesis using decode_call_run [OF k] by (simp add: chunked.feed_concat [OF k] end_of_def)
qed

theorem decode_encoded_message_witness:
  "\<exists>d. feed decode_call (size_state True)
      [''5'' @ [CR], [LF] @ ''hel'', ''lo'' @ CRLF @ ''0001;x=y'' @ CRLF @ ''!'' @ [CR],
       [LF] @ ''0'' @ CRLF @ ''Sum: 7'' @ CRLF @ [CR], [LF] @ ''next''] =
    (d, ''hello!'', Ended ''next'')"
  using decode_encoded_message
    [of "[\<lparr>ch_size = ''5'', ch_ext = [CR], ch_data = ''hello''\<rparr>,
          \<lparr>ch_size = ''0001'', ch_ext = '';x=y'' @ [CR], ch_data = ''!''\<rparr>]"
        "\<lparr>ch_size = ''0'', ch_ext = [CR], ch_data = []\<rparr>" "[''Sum: 7'' @ [CR]]"
        "[''5'' @ [CR], [LF] @ ''hel'', ''lo'' @ CRLF @ ''0001;x=y'' @ CRLF @ ''!'' @ [CR],
          [LF] @ ''0'' @ CRLF @ ''Sum: 7'' @ CRLF @ [CR], [LF] @ ''next'']" True "''next''"]
  by (simp add: chunk_ok_def trailer_ok_def hexval_def decode_hex_def Let_def MAX_HEX_def
      encode_message_def encode_chunk_def chunk_head_def encode_trailer_def)

end
