(* ===== verification/Io_Control.thy ===== *)
theory Io_Control
  imports Prelude
begin

text \<open>
  Digital inputs and outputs (\<open>drv/pmz_io_control.c\<close>, \<open>drv/pmz_io_control.h\<close>): debounced
  inputs with edge callbacks, outputs that are set, pulsed or blinked. A pin of the
  microcontroller is its output latch, which is what reading the pin gives while it is an
  output. A callback is modelled by the call made to it. Log messages are left out.
\<close>

section \<open>Types and state\<close>

datatype t_IO_OUTPUT_ID =
  IO_OUTPUT_GREEN_LED | IO_OUTPUT_AMBER_LED
| IO_OUTPUT_RELE_ID_1 | IO_OUTPUT_RELE_ID_2 | IO_OUTPUT_RELE_ID_3 | IO_OUTPUT_RELE_ID_4
| IO_OUTPUT_RELE_ID_5 | IO_OUTPUT_RELE_ID_6 | IO_OUTPUT_RELE_ID_7 | IO_OUTPUT_RELE_ID_8
| IO_OUTPUT_SIMCOM_POWER

datatype t_IO_INPUT_ID =
  IO_INPUT_ID_01 | IO_INPUT_ID_02 | IO_INPUT_ID_03 | IO_INPUT_ID_04 | IO_INPUT_ID_05 | IO_INPUT_ID_06
| IO_INPUT_ID_07 | IO_INPUT_ID_08 | IO_INPUT_ID_09 | IO_INPUT_ID_10 | IO_INPUT_ID_11 | IO_INPUT_ID_12

datatype t_IO_INPUT_STATES =
  IO_INPUT_STATE_DISABLE | IO_INPUT_STATE_UNKNOWN | IO_INPUT_STATE_LOW | IO_INPUT_STATE_LOW_TO_HIGH
| IO_INPUT_STATE_HIGH | IO_INPUT_STATE_HIGH_TO_LOW

datatype t_IO_OUTPUT_STATES = IO_OUTPUT_STATE_LOW | IO_OUTPUT_STATE_HIGH
datatype t_IO_EDGE = IO_EDGE_RISING | IO_EDGE_FALLING | IO_EDGE_BOTH
datatype t_IO_OUTPUT_MODE = IO_OUTPUT_MODE_SET | IO_OUTPUT_MODE_PULSE | IO_OUTPUT_MODE_BLINK
datatype t_OUTPUT_ACTION = OUTPUT_ACTION_LOW | OUTPUT_ACTION_HIGH | OUTPUT_ACTION_TOGGLE
datatype t_IO_STATES = IO_STATE_INIT | IO_STATE_RUNNING | IO_STATE_ERROR

text \<open>The loops over all identifiers run in the order of the enumerations.\<close>

instantiation t_IO_OUTPUT_ID :: enum
begin

definition enum_t_IO_OUTPUT_ID :: "t_IO_OUTPUT_ID list" where
  "enum_t_IO_OUTPUT_ID =
     [IO_OUTPUT_GREEN_LED, IO_OUTPUT_AMBER_LED, IO_OUTPUT_RELE_ID_1, IO_OUTPUT_RELE_ID_2,
      IO_OUTPUT_RELE_ID_3, IO_OUTPUT_RELE_ID_4, IO_OUTPUT_RELE_ID_5, IO_OUTPUT_RELE_ID_6,
      IO_OUTPUT_RELE_ID_7, IO_OUTPUT_RELE_ID_8, IO_OUTPUT_SIMCOM_POWER]"

definition enum_all_t_IO_OUTPUT_ID :: "(t_IO_OUTPUT_ID \<Rightarrow> bool) \<Rightarrow> bool" where
  "enum_all_t_IO_OUTPUT_ID P \<longleftrightarrow> list_all P enum_class.enum"

definition enum_ex_t_IO_OUTPUT_ID :: "(t_IO_OUTPUT_ID \<Rightarrow> bool) \<Rightarrow> bool" where
  "enum_ex_t_IO_OUTPUT_ID P \<longleftrightarrow> list_ex P enum_class.enum"

instance
proof
  show u: "(UNIV :: t_IO_OUTPUT_ID set) = set enum_class.enum"
    unfolding enum_t_IO_OUTPUT_ID_def
  proof (intro UNIV_eq_I)
    show "x \<in> set [IO_OUTPUT_GREEN_LED, IO_OUTPUT_AMBER_LED, IO_OUTPUT_RELE_ID_1, IO_OUTPUT_RELE_ID_2,
      IO_OUTPUT_RELE_ID_3, IO_OUTPUT_RELE_ID_4, IO_OUTPUT_RELE_ID_5, IO_OUTPUT_RELE_ID_6,
      IO_OUTPUT_RELE_ID_7, IO_OUTPUT_RELE_ID_8, IO_OUTPUT_SIMCOM_POWER]" for x
      by (cases x) simp_all
  qed
  show "distinct (enum_class.enum :: t_IO_OUTPUT_ID list)" by (simp add: enum_t_IO_OUTPUT_ID_def)
  show "enum_class.enum_all P = Ball UNIV P" "enum_class.enum_ex P = Bex UNIV P"
    for P :: "t_IO_OUTPUT_ID \<Rightarrow> bool"
    unfolding u by (simp_all add: enum_all_t_IO_OUTPUT_ID_def enum_ex_t_IO_OUTPUT_ID_def list_all_iff list_ex_iff)
qed

end

text \<open>A callback is known by its address, and so is its context.\<close>

type_synonym callback = u32
type_synonym pointer = "u32 option"

record t_INPUT =
  in_state :: t_IO_INPUT_STATES
  in_t :: u32
  risingEdgeCb :: "callback option"
  risingEdgeCtx :: pointer
  fallingEdgeCb :: "callback option"
  fallingEdgeCtx :: pointer

record t_OUTPUT =
  out_state :: t_IO_OUTPUT_STATES
  out_mode :: t_IO_OUTPUT_MODE
  tPulse :: u32
  tOper :: u32
  ms_pulse_high :: u16
  ms_pulse_low :: u16

datatype gpio_pin =
  LED_VERDE | LED_AMBAR | O_RELAY_1 | O_RELAY_2 | O_RELAY_3 | O_RELAY_4 | O_RELAY_5 | O_RELAY_6
| O_RELAY_7 | O_RELAY_8 | SIMCOM_POWER

text \<open>A call of a callback: its address, the input, the state it is told, and the context.\<close>

type_synonym cb_call = "callback \<times> t_IO_INPUT_ID \<times> t_IO_INPUT_STATES \<times> pointer"

text \<open>\<open>t_IO_DATA\<close>, with the latches of the pins and the calls made so far.\<close>

record t_IO_DATA =
  io_state :: t_IO_STATES
  io_input :: "t_IO_INPUT_ID \<Rightarrow> t_INPUT"
  io_output :: "t_IO_OUTPUT_ID \<Rightarrow> t_OUTPUT"
  io_pin :: "gpio_pin \<Rightarrow> bool"
  io_calls :: "cb_call list"

section \<open>Timers\<close>

text \<open>The macros: 0 is off, 1 is expired, and a running timer stops at 1.\<close>

definition TIME_RESOLUTION_MS :: u32 where "TIME_RESOLUTION_MS = 100"
definition CTE_TIME_MS :: u32 where "CTE_TIME_MS = 100"

definition timer_ms :: "u32 \<Rightarrow> u32" where "timer_ms time_ms = time_ms div TIME_RESOLUTION_MS + 1"
definition timer_expired :: "u32 \<Rightarrow> bool" where "timer_expired t \<longleftrightarrow> t = 1"
definition timer_off :: u32 where "timer_off = 0"
definition timer_dec :: "u32 \<Rightarrow> u32" where "timer_dec t = (if t > 1 then t - 1 else t)"

section \<open>Outputs\<close>

text \<open>The pin that the \<open>switch\<close> of \<open>set_output\<close> drives, and \<open>_Clear\<close>, \<open>_Set\<close>, \<open>_Toggle\<close>, \<open>_Get\<close>.\<close>

definition output_pin :: "t_IO_OUTPUT_ID \<Rightarrow> gpio_pin" where
  "output_pin oid =
     (case oid of
        IO_OUTPUT_GREEN_LED \<Rightarrow> LED_VERDE
      | IO_OUTPUT_AMBER_LED \<Rightarrow> LED_AMBAR
      | IO_OUTPUT_RELE_ID_1 \<Rightarrow> O_RELAY_1
      | IO_OUTPUT_RELE_ID_2 \<Rightarrow> O_RELAY_2
      | IO_OUTPUT_RELE_ID_3 \<Rightarrow> O_RELAY_3
      | IO_OUTPUT_RELE_ID_4 \<Rightarrow> O_RELAY_4
      | IO_OUTPUT_RELE_ID_5 \<Rightarrow> O_RELAY_5
      | IO_OUTPUT_RELE_ID_6 \<Rightarrow> O_RELAY_6
      | IO_OUTPUT_RELE_ID_7 \<Rightarrow> O_RELAY_7
      | IO_OUTPUT_RELE_ID_8 \<Rightarrow> O_RELAY_8
      | IO_OUTPUT_SIMCOM_POWER \<Rightarrow> SIMCOM_POWER)"

definition set_output :: "t_IO_OUTPUT_ID \<Rightarrow> t_OUTPUT_ACTION \<Rightarrow> t_IO_DATA \<Rightarrow> t_IO_DATA" where
  "set_output oid action io =
     (let p = output_pin oid in
      case action of
        OUTPUT_ACTION_LOW \<Rightarrow> io\<lparr>io_pin := (io_pin io)(p := False)\<rparr>
      | OUTPUT_ACTION_HIGH \<Rightarrow> io\<lparr>io_pin := (io_pin io)(p := True)\<rparr>
      | OUTPUT_ACTION_TOGGLE \<Rightarrow> io\<lparr>io_pin := (io_pin io)(p := \<not> io_pin io p)\<rparr>)"

definition level :: "bool \<Rightarrow> t_IO_OUTPUT_STATES" where
  "level b = (if b then IO_OUTPUT_STATE_HIGH else IO_OUTPUT_STATE_LOW)"

definition io_output_get_state :: "t_IO_OUTPUT_ID \<Rightarrow> t_IO_DATA \<Rightarrow> t_IO_OUTPUT_STATES" where
  "io_output_get_state oid io =
     (case oid of
        IO_OUTPUT_GREEN_LED \<Rightarrow> level (\<not> io_pin io LED_VERDE)
      | IO_OUTPUT_AMBER_LED \<Rightarrow> level (\<not> io_pin io LED_AMBAR)
      | IO_OUTPUT_RELE_ID_1 \<Rightarrow> level (io_pin io O_RELAY_1)
      | IO_OUTPUT_RELE_ID_2 \<Rightarrow> level (io_pin io O_RELAY_2)
      | IO_OUTPUT_RELE_ID_3 \<Rightarrow> level (io_pin io O_RELAY_3)
      | IO_OUTPUT_RELE_ID_4 \<Rightarrow> level (io_pin io O_RELAY_4)
      | IO_OUTPUT_RELE_ID_5 \<Rightarrow> level (io_pin io O_RELAY_5)
      | IO_OUTPUT_RELE_ID_6 \<Rightarrow> level (io_pin io O_RELAY_6)
      | IO_OUTPUT_RELE_ID_7 \<Rightarrow> level (io_pin io O_RELAY_7)
      | IO_OUTPUT_RELE_ID_8 \<Rightarrow> level (io_pin io O_RELAY_8)
      | IO_OUTPUT_SIMCOM_POWER \<Rightarrow> level (io_pin io SIMCOM_POWER))"

definition upd_output :: "t_IO_OUTPUT_ID \<Rightarrow> (t_OUTPUT \<Rightarrow> t_OUTPUT) \<Rightarrow> t_IO_DATA \<Rightarrow> t_IO_DATA" where
  "upd_output oid f io = io\<lparr>io_output := (io_output io)(oid := f (io_output io oid))\<rparr>"

text \<open>One turn of the loop of \<open>outputs_task\<close>: the pulse timer, then the operation timer.\<close>

definition pulse_part :: "t_IO_OUTPUT_ID \<Rightarrow> t_IO_DATA \<Rightarrow> t_IO_DATA" where
  "pulse_part i io =
     (let out = io_output io i in
      if timer_expired (tPulse out) then
        case out_mode out of
          IO_OUTPUT_MODE_SET \<Rightarrow> io
        | IO_OUTPUT_MODE_PULSE \<Rightarrow> io
        | IO_OUTPUT_MODE_BLINK \<Rightarrow>
            set_output i OUTPUT_ACTION_TOGGLE
              (upd_output i (tPulse_update (\<lambda>_.
                 if io_output_get_state i io = IO_OUTPUT_STATE_HIGH
                 then timer_ms (ucast (ms_pulse_low out)) else timer_ms (ucast (ms_pulse_high out)))) io)
      else io)"

definition oper_part :: "t_IO_OUTPUT_ID \<Rightarrow> t_IO_DATA \<Rightarrow> t_IO_DATA" where
  "oper_part i io =
     (if timer_expired (tOper (io_output io i)) then
        upd_output i (\<lambda>out. out\<lparr>tPulse := timer_off, tOper := timer_off, out_mode := IO_OUTPUT_MODE_SET\<rparr>)
          (set_output i OUTPUT_ACTION_TOGGLE io)
      else io)"

definition output_turn :: "t_IO_OUTPUT_ID \<Rightarrow> t_IO_DATA \<Rightarrow> t_IO_DATA" where
  "output_turn i io = oper_part i (pulse_part i io)"

definition outputs_task :: "t_IO_DATA \<Rightarrow> t_IO_DATA" where
  "outputs_task io = fold output_turn enum_class.enum io"

section \<open>Inputs\<close>

definition upd_input :: "t_IO_INPUT_ID \<Rightarrow> (t_INPUT \<Rightarrow> t_INPUT) \<Rightarrow> t_IO_DATA \<Rightarrow> t_IO_DATA" where
  "upd_input iid f io = io\<lparr>io_input := (io_input io)(iid := f (io_input io iid))\<rparr>"

definition call_back :: "callback option \<Rightarrow> t_IO_INPUT_ID \<Rightarrow> t_IO_INPUT_STATES \<Rightarrow> pointer \<Rightarrow> t_IO_DATA \<Rightarrow> t_IO_DATA" where
  "call_back cb iid st ctx io =
     (case cb of None \<Rightarrow> io | Some f \<Rightarrow> io\<lparr>io_calls := io_calls io @ [(f, iid, st, ctx)]\<rparr>)"

definition inputs_task :: "t_IO_INPUT_ID \<Rightarrow> bool \<Rightarrow> t_IO_DATA \<Rightarrow> t_IO_DATA" where
  "inputs_task iid pin_state io =
     (let i = io_input io iid in
      case in_state i of
        IO_INPUT_STATE_DISABLE \<Rightarrow> io
      | IO_INPUT_STATE_UNKNOWN \<Rightarrow>
          upd_input iid (\<lambda>i. i\<lparr>in_t := timer_off,
            in_state := if pin_state then IO_INPUT_STATE_HIGH else IO_INPUT_STATE_LOW\<rparr>) io
      | IO_INPUT_STATE_LOW \<Rightarrow>
          if pin_state
          then upd_input iid (\<lambda>i. i\<lparr>in_t := timer_ms CTE_TIME_MS, in_state := IO_INPUT_STATE_LOW_TO_HIGH\<rparr>) io
          else io
      | IO_INPUT_STATE_LOW_TO_HIGH \<Rightarrow>
          if \<not> pin_state
          then upd_input iid (\<lambda>i. i\<lparr>in_t := timer_ms CTE_TIME_MS, in_state := IO_INPUT_STATE_HIGH_TO_LOW\<rparr>) io
          else if timer_expired (in_t i)
          then upd_input iid (\<lambda>i. i\<lparr>in_state := IO_INPUT_STATE_HIGH\<rparr>)
                 (call_back (risingEdgeCb i) iid (in_state i) (risingEdgeCtx i)
                   (upd_input iid (\<lambda>i. i\<lparr>in_t := timer_off\<rparr>) io))
          else io
      | IO_INPUT_STATE_HIGH \<Rightarrow>
          if \<not> pin_state
          then upd_input iid (\<lambda>i. i\<lparr>in_t := timer_ms CTE_TIME_MS, in_state := IO_INPUT_STATE_HIGH_TO_LOW\<rparr>) io
          else io
      | IO_INPUT_STATE_HIGH_TO_LOW \<Rightarrow>
          if pin_state
          then upd_input iid (\<lambda>i. i\<lparr>in_t := timer_ms CTE_TIME_MS, in_state := IO_INPUT_STATE_LOW_TO_HIGH\<rparr>) io
          else if timer_expired (in_t i)
          then upd_input iid (\<lambda>i. i\<lparr>in_state := IO_INPUT_STATE_LOW\<rparr>)
                 (call_back (fallingEdgeCb i) iid (in_state i) (fallingEdgeCtx i)
                   (upd_input iid (\<lambda>i. i\<lparr>in_t := timer_off\<rparr>) io))
          else io)"

text \<open>
  \<open>io_tasks\<close> for the build at hand, in which the pins of inputs 1 to 4 belong to the serial
  ports (no \<open>_Set\<close> macro is defined for them): these inputs are disabled and not sampled.
\<close>

definition sampled :: "t_IO_INPUT_ID list" where
  "sampled = [IO_INPUT_ID_05, IO_INPUT_ID_06, IO_INPUT_ID_07, IO_INPUT_ID_08, IO_INPUT_ID_09,
     IO_INPUT_ID_10, IO_INPUT_ID_11, IO_INPUT_ID_12]"

definition io_tasks :: "(t_IO_INPUT_ID \<Rightarrow> bool) \<Rightarrow> t_IO_DATA \<Rightarrow> t_IO_DATA" where
  "io_tasks pins io =
     (case io_state io of
        IO_STATE_INIT \<Rightarrow>
          (let set_in = (\<lambda>st iid. upd_input iid (in_state_update (\<lambda>_. st)));
               io = set_in IO_INPUT_STATE_DISABLE IO_INPUT_ID_01 io;
               io = set_in IO_INPUT_STATE_DISABLE IO_INPUT_ID_02 io;
               io = set_in IO_INPUT_STATE_DISABLE IO_INPUT_ID_03 io;
               io = set_in IO_INPUT_STATE_DISABLE IO_INPUT_ID_04 io;
               io = fold (set_in IO_INPUT_STATE_UNKNOWN) sampled io
           in io\<lparr>io_state := IO_STATE_RUNNING\<rparr>)
      | IO_STATE_RUNNING \<Rightarrow> fold (\<lambda>iid. inputs_task iid (pins iid)) sampled (outputs_task io)
      | IO_STATE_ERROR \<Rightarrow> io)"

text \<open>The periodic callback of the system timer, with the levels of the input pins.\<close>

definition dec_timers :: "t_IO_DATA \<Rightarrow> t_IO_DATA" where
  "dec_timers io =
     io\<lparr>io_input := (\<lambda>i. in_t_update timer_dec (io_input io i)),
        io_output := (\<lambda>i. tOper_update timer_dec (tPulse_update timer_dec (io_output io i)))\<rparr>"

definition local_timers :: "(t_IO_INPUT_ID \<Rightarrow> bool) \<Rightarrow> t_IO_DATA \<Rightarrow> t_IO_DATA" where
  "local_timers pins io = io_tasks pins (dec_timers io)"

section \<open>Interface functions\<close>

definition zero_input :: t_INPUT where
  "zero_input = \<lparr>in_state = IO_INPUT_STATE_DISABLE, in_t = 0, risingEdgeCb = None, risingEdgeCtx = None,
     fallingEdgeCb = None, fallingEdgeCtx = None\<rparr>"

definition zero_output :: t_OUTPUT where
  "zero_output = \<lparr>out_state = IO_OUTPUT_STATE_LOW, out_mode = IO_OUTPUT_MODE_SET, tPulse = 0, tOper = 0,
     ms_pulse_high = 0, ms_pulse_low = 0\<rparr>"

text \<open>The flag says whether the system timer could be registered.\<close>

definition io_initialize :: "bool \<Rightarrow> t_IO_DATA \<Rightarrow> t_IO_DATA" where
  "io_initialize registered io =
     (let io = io\<lparr>io_state := IO_STATE_INIT, io_input := (\<lambda>_. zero_input), io_output := (\<lambda>_. zero_output)\<rparr>;
          io = fold (\<lambda>i. set_output i OUTPUT_ACTION_LOW) enum_class.enum io;
          io = io\<lparr>io_input := (\<lambda>i. (io_input io i)\<lparr>in_t := timer_off, fallingEdgeCb := None, fallingEdgeCtx := None,
            risingEdgeCb := None, risingEdgeCtx := None, in_state := IO_INPUT_STATE_DISABLE\<rparr>)\<rparr>
      in io\<lparr>io_state := if registered then IO_STATE_INIT else IO_STATE_ERROR\<rparr>)"

definition io_input_get_state :: "t_IO_INPUT_ID \<Rightarrow> t_IO_DATA \<Rightarrow> t_IO_INPUT_STATES" where
  "io_input_get_state iid io = in_state (io_input io iid)"

definition io_register_input_cb ::
  "t_IO_INPUT_ID \<Rightarrow> t_IO_EDGE \<Rightarrow> callback option \<Rightarrow> pointer \<Rightarrow> t_IO_DATA \<Rightarrow> t_IO_DATA" where
  "io_register_input_cb iid edge cb localCtx =
     (case edge of
        IO_EDGE_FALLING \<Rightarrow> upd_input iid (\<lambda>i. i\<lparr>fallingEdgeCb := cb, fallingEdgeCtx := localCtx\<rparr>)
      | IO_EDGE_RISING \<Rightarrow> upd_input iid (\<lambda>i. i\<lparr>risingEdgeCb := cb, risingEdgeCtx := localCtx\<rparr>)
      | IO_EDGE_BOTH \<Rightarrow> upd_input iid (\<lambda>i. i\<lparr>fallingEdgeCb := cb, risingEdgeCb := cb\<rparr>))"

definition action_of :: "t_IO_OUTPUT_STATES \<Rightarrow> t_OUTPUT_ACTION" where
  "action_of st = (case st of IO_OUTPUT_STATE_LOW \<Rightarrow> OUTPUT_ACTION_LOW | IO_OUTPUT_STATE_HIGH \<Rightarrow> OUTPUT_ACTION_HIGH)"

definition io_output_set_state :: "t_IO_OUTPUT_ID \<Rightarrow> t_IO_OUTPUT_STATES \<Rightarrow> t_IO_DATA \<Rightarrow> t_IO_DATA" where
  "io_output_set_state oid st io =
     set_output oid (action_of st)
       (upd_output oid (\<lambda>out. out\<lparr>tPulse := timer_off, tOper := timer_off, out_mode := IO_OUTPUT_MODE_SET\<rparr>) io)"

definition io_output_toggle :: "t_IO_OUTPUT_ID \<Rightarrow> t_IO_DATA \<Rightarrow> t_IO_DATA" where
  "io_output_toggle oid io =
     set_output oid OUTPUT_ACTION_TOGGLE
       (upd_output oid (\<lambda>out. out\<lparr>tOper := timer_off, tPulse := timer_off, out_mode := IO_OUTPUT_MODE_SET\<rparr>) io)"

definition io_output_pulse :: "t_IO_OUTPUT_ID \<Rightarrow> t_IO_OUTPUT_STATES \<Rightarrow> u32 \<Rightarrow> t_IO_DATA \<Rightarrow> t_IO_DATA" where
  "io_output_pulse oid st ms_operation_time io =
     set_output oid (action_of st)
       (upd_output oid (\<lambda>out. out\<lparr>tOper := timer_ms ms_operation_time, tPulse := timer_off,
          out_mode := IO_OUTPUT_MODE_PULSE\<rparr>) io)"

definition io_output_blink :: "t_IO_OUTPUT_ID \<Rightarrow> u16 \<Rightarrow> u16 \<Rightarrow> u32 \<Rightarrow> t_IO_DATA \<Rightarrow> t_IO_DATA" where
  "io_output_blink oid high low ms_operation_time io =
     (let io = upd_output oid (\<lambda>out. out\<lparr>tPulse := timer_ms (ucast high),
            tOper := if ms_operation_time > 0 then timer_ms ms_operation_time else timer_off,
            out_mode := IO_OUTPUT_MODE_BLINK\<rparr>) io;
          io = set_output oid OUTPUT_ACTION_HIGH io
      in upd_output oid (\<lambda>out. out\<lparr>ms_pulse_high := high, ms_pulse_low := low\<rparr>) io)"

section \<open>Events\<close>

text \<open>
  What happens to the module once it is initialised: the periodic timer, which samples the
  pins, and the calls of the interface, in any order.
\<close>

datatype io_event =
  Tick "t_IO_INPUT_ID \<Rightarrow> bool"
| Register t_IO_INPUT_ID t_IO_EDGE "callback option" pointer
| Set_State t_IO_OUTPUT_ID t_IO_OUTPUT_STATES
| Toggle t_IO_OUTPUT_ID
| Pulse t_IO_OUTPUT_ID t_IO_OUTPUT_STATES u32
| Blink t_IO_OUTPUT_ID u16 u16 u32

fun io_apply :: "io_event \<Rightarrow> t_IO_DATA \<Rightarrow> t_IO_DATA" where
  "io_apply (Tick pins) = local_timers pins"
| "io_apply (Register iid edge cb ctx) = io_register_input_cb iid edge cb ctx"
| "io_apply (Set_State oid st) = io_output_set_state oid st"
| "io_apply (Toggle oid) = io_output_toggle oid"
| "io_apply (Pulse oid st ms) = io_output_pulse oid st ms"
| "io_apply (Blink oid high low ms) = io_output_blink oid high low ms"

fun samples :: "io_event list \<Rightarrow> (t_IO_INPUT_ID \<Rightarrow> bool) list" where
  "samples [] = []"
| "samples (Tick pins # es) = pins # samples es"
| "samples (_ # es) = samples es"

fun on_output :: "t_IO_OUTPUT_ID \<Rightarrow> io_event \<Rightarrow> bool" where
  "on_output oid (Set_State k _) \<longleftrightarrow> k = oid"
| "on_output oid (Toggle k) \<longleftrightarrow> k = oid"
| "on_output oid (Pulse k _ _) \<longleftrightarrow> k = oid"
| "on_output oid (Blink k _ _ _) \<longleftrightarrow> k = oid"
| "on_output oid _ \<longleftrightarrow> False"

fun on_input :: "t_IO_INPUT_ID \<Rightarrow> io_event \<Rightarrow> bool" where
  "on_input iid (Register k _ _ _) \<longleftrightarrow> k = iid"
| "on_input iid _ \<longleftrightarrow> False"

section \<open>Each output by itself\<close>

lemma output_pin_inj [simp]: "output_pin i = output_pin j \<longleftrightarrow> i = j"
  by (cases i; cases j) (simp_all add: output_pin_def)

definition is_led :: "t_IO_OUTPUT_ID \<Rightarrow> bool" where
  "is_led oid \<longleftrightarrow> oid = IO_OUTPUT_GREEN_LED \<or> oid = IO_OUTPUT_AMBER_LED"

lemma io_output_get_state_pin:
  "io_output_get_state oid io = level (io_pin io (output_pin oid) \<noteq> is_led oid)"
  by (cases oid) (simp_all add: io_output_get_state_def output_pin_def is_led_def)

definition out_view :: "t_IO_OUTPUT_ID \<Rightarrow> t_IO_DATA \<Rightarrow> t_OUTPUT \<times> bool" where
  "out_view oid io = (io_output io oid, io_pin io (output_pin oid))"

definition view_pulse :: "bool \<Rightarrow> t_OUTPUT \<times> bool \<Rightarrow> t_OUTPUT \<times> bool" where
  "view_pulse led v =
     (case v of (out, b) \<Rightarrow>
       if tPulse out = 1 \<and> out_mode out = IO_OUTPUT_MODE_BLINK
       then (out\<lparr>tPulse := timer_ms (if b \<noteq> led then ucast (ms_pulse_low out) else ucast (ms_pulse_high out))\<rparr>, \<not> b)
       else (out, b))"

definition view_oper :: "t_OUTPUT \<times> bool \<Rightarrow> t_OUTPUT \<times> bool" where
  "view_oper v =
     (case v of (out, b) \<Rightarrow>
       if tOper out = 1 then (out\<lparr>tPulse := 0, tOper := 0, out_mode := IO_OUTPUT_MODE_SET\<rparr>, \<not> b) else (out, b))"

definition view_dec :: "t_OUTPUT \<times> bool \<Rightarrow> t_OUTPUT \<times> bool" where
  "view_dec v = (case v of (out, b) \<Rightarrow> (tOper_update timer_dec (tPulse_update timer_dec out), b))"

definition view_tick :: "t_IO_OUTPUT_ID \<Rightarrow> t_OUTPUT \<times> bool \<Rightarrow> t_OUTPUT \<times> bool" where
  "view_tick oid v = view_oper (view_pulse (is_led oid) (view_dec v))"

lemmas view_defs = out_view_def view_pulse_def view_oper_def view_dec_def view_tick_def

lemma level_High [simp]: "level b = IO_OUTPUT_STATE_HIGH \<longleftrightarrow> b"
  by (simp add: level_def)

lemma output_turn_view:
  "out_view i (output_turn i io) = view_oper (view_pulse (is_led i) (out_view i io))"
  "i \<noteq> j \<Longrightarrow> out_view j (output_turn i io) = out_view j io"
  by (auto simp: view_defs output_turn_def oper_part_def pulse_part_def set_output_def upd_output_def
      io_output_get_state_pin timer_expired_def timer_off_def Let_def split: t_IO_OUTPUT_MODE.splits)

lemma outputs_task_view: "out_view oid (outputs_task io) = view_oper (view_pulse (is_led oid) (out_view oid io))"
  unfolding outputs_task_def
  by (subst fold_views [where v = out_view and g = "\<lambda>i v. view_oper (view_pulse (is_led i) v)"])
    (auto simp: output_turn_view enum_distinct UNIV_enum [symmetric])

lemma inputs_task_out [simp]: "out_view oid (inputs_task iid p io) = out_view oid io"
  by (simp add: out_view_def inputs_task_def upd_input_def call_back_def Let_def
      split: t_IO_INPUT_STATES.split option.split)

lemma fold_inputs_out [simp]: "out_view oid (fold (\<lambda>iid. inputs_task iid (pins iid)) xs io) = out_view oid io"
  by (induction xs arbitrary: io) simp_all

lemma inputs_task_state [simp]: "io_state (inputs_task iid p io) = io_state io"
  by (simp add: inputs_task_def upd_input_def call_back_def Let_def split: t_IO_INPUT_STATES.split option.split)

lemma fold_inputs_state [simp]: "io_state (fold (\<lambda>iid. inputs_task iid (pins iid)) xs io) = io_state io"
  by (induction xs arbitrary: io) simp_all

lemma output_turn_frame [simp]:
  "io_state (output_turn i io) = io_state io" "io_input (output_turn i io) = io_input io"
  "io_calls (output_turn i io) = io_calls io"
  by (simp_all add: output_turn_def oper_part_def pulse_part_def set_output_def upd_output_def Let_def
      split: t_IO_OUTPUT_MODE.split)

lemma outputs_task_frame [simp]:
  "io_state (outputs_task io) = io_state io" "io_input (outputs_task io) = io_input io"
  "io_calls (outputs_task io) = io_calls io"
proof -
  have "io_state (fold output_turn xs io) = io_state io \<and> io_input (fold output_turn xs io) = io_input io \<and>
    io_calls (fold output_turn xs io) = io_calls io" for xs
    by (induction xs arbitrary: io) simp_all
  then show "io_state (outputs_task io) = io_state io" "io_input (outputs_task io) = io_input io"
    "io_calls (outputs_task io) = io_calls io" by (simp_all add: outputs_task_def)
qed

lemma dec_timers_view:
  "out_view oid (dec_timers io) = view_dec (out_view oid io)" "io_state (dec_timers io) = io_state io"
  by (simp_all add: dec_timers_def view_defs)

lemma local_timers_out:
  "io_state io = IO_STATE_RUNNING \<Longrightarrow> out_view oid (local_timers pins io) = view_tick oid (out_view oid io)"
  by (simp add: local_timers_def io_tasks_def dec_timers_view outputs_task_view view_tick_def)

lemma local_timers_running: "io_state io = IO_STATE_RUNNING \<Longrightarrow> io_state (local_timers pins io) = IO_STATE_RUNNING"
  by (simp add: local_timers_def io_tasks_def dec_timers_view)

lemma set_output_frame [simp]:
  "io_state (set_output i a io) = io_state io" "io_input (set_output i a io) = io_input io"
  "io_calls (set_output i a io) = io_calls io" "io_output (set_output i a io) = io_output io"
  by (simp_all add: set_output_def Let_def split: t_OUTPUT_ACTION.split)

lemmas op_defs = io_output_set_state_def io_output_toggle_def io_output_pulse_def io_output_blink_def
  io_register_input_cb_def

lemma io_apply_running: "io_state io = IO_STATE_RUNNING \<Longrightarrow> io_state (io_apply e io) = IO_STATE_RUNNING"
  by (cases e) (simp_all add: local_timers_running op_defs upd_output_def upd_input_def Let_def split: t_IO_EDGE.split)

lemma io_apply_other_output:
  assumes "\<not> on_output oid e" "\<forall>pins. e \<noteq> Tick pins" shows "out_view oid (io_apply e io) = out_view oid io"
  using assms
  by (cases e) (auto simp: op_defs upd_output_def upd_input_def Let_def out_view_def set_output_def
      split: t_OUTPUT_ACTION.split t_IO_EDGE.split)

lemma io_run_out:
  "io_state io = IO_STATE_RUNNING \<Longrightarrow> list_all (\<lambda>e. \<not> on_output oid e) es \<Longrightarrow>
     out_view oid (fold io_apply es io) = (view_tick oid ^^ length (samples es)) (out_view oid io)"
proof (induction es arbitrary: io)
  case (Cons e es)
  then have IH: "out_view oid (fold io_apply es (io_apply e io)) =
      (view_tick oid ^^ length (samples es)) (out_view oid (io_apply e io))"
    using io_apply_running by simp
  show ?case
  proof (cases "\<exists>pins. e = Tick pins")
    case True
    with IH Cons.prems(1) show ?thesis by (auto simp: local_timers_out funpow_swap1)
  next
    case False
    then have "samples (e # es) = samples es" by (cases e) auto
    with IH False Cons.prems(2) show ?thesis by (simp add: io_apply_other_output)
  qed
qed simp

section \<open>Counting down\<close>

lemma unat_timer_dec: "unat (timer_dec t) = (if 1 < unat t then unat t - 1 else unat t)"
proof (cases "1 < t")
  case True
  then have "t \<noteq> 0" by auto
  with True show ?thesis by (simp add: timer_dec_def unat_minus_one word_less_nat_alt)
qed (simp add: timer_dec_def word_less_nat_alt)

lemma unat_timer_ms: "unat (timer_ms ms) = unat ms div 100 + 1"
proof -
  have "unat ms < 2 ^ 32" using unsigned_less [of ms] by simp
  then have b: "unat ms div 100 + 1 < 2 ^ 32" by simp
  have "timer_ms ms = of_nat (unat ms div 100 + 1)"
    by (simp add: timer_ms_def TIME_RESOLUTION_MS_def word_arith_nat_div)
  then show ?thesis by (simp only:) (rule of_nat_inverse [OF refl], use b in simp)
qed

text \<open>How many ticks a running timer takes to expire.\<close>

definition ticks :: "u32 \<Rightarrow> nat" where
  "ticks t = max 1 (unat t - 1)"

lemma ticks_timer_ms: "ticks (timer_ms ms) = max 1 (unat ms div 100)"
  by (simp add: ticks_def unat_timer_ms)

lemma timer_dec_1: "timer_dec t = 1 \<longleftrightarrow> t \<noteq> 0 \<and> ticks t = 1"
proof -
  have "timer_dec t = 1 \<longleftrightarrow> unat (timer_dec t) = 1" by (metis unat_1 word_unat_eq_iff)
  also have "\<dots> \<longleftrightarrow> unat t \<noteq> 0 \<and> ticks t = 1" by (auto simp: unat_timer_dec ticks_def)
  finally show ?thesis by (simp add: unat_eq_0)
qed

lemma ticks_timer_dec: "ticks t \<noteq> 1 \<Longrightarrow> ticks (timer_dec t) = ticks t - 1 \<and> timer_dec t \<noteq> 0"
proof -
  assume "ticks t \<noteq> 1"
  then have "2 < unat t" by (auto simp: ticks_def max_def split: if_splits)
  moreover have "timer_dec t \<noteq> 0 \<longleftrightarrow> unat (timer_dec t) \<noteq> 0" by (simp add: unat_eq_0)
  ultimately show ?thesis by (simp add: ticks_def unat_timer_dec)
qed

lemma timer_dec_0 [simp]: "timer_dec 0 = 0" by (simp add: timer_dec_def)

lemma timer_ms_nonzero [simp]: "timer_ms ms \<noteq> 0"
  using unat_timer_ms [of ms] by (metis Suc_eq_plus1 nat.distinct(1) unat_0)

lemma ticks_pos: "0 < ticks t" by (simp add: ticks_def)

text \<open>An output at rest stays; one with only an operation time toggles once.\<close>

lemma view_tick_rest:
  "tPulse out = 0 \<Longrightarrow> tOper out = 0 \<Longrightarrow> view_tick oid (out, b) = (out, b)"
  by (simp add: view_tick_def view_dec_def view_pulse_def view_oper_def)

lemma view_run_rest:
  "tPulse out = 0 \<Longrightarrow> tOper out = 0 \<Longrightarrow> (view_tick oid ^^ n) (out, b) = (out, b)"
  by (induction n) (simp_all add: view_tick_rest)

lemma view_run_oper:
  assumes "tPulse out = 0" "tOper out \<noteq> 0"
  shows "snd ((view_tick oid ^^ n) (out, b)) = (if n < ticks (tOper out) then b else \<not> b)"
  using assms
proof (induction n arbitrary: out)
  case 0
  then show ?case by (simp add: ticks_pos)
next
  case (Suc n)
  let ?out = "tOper_update timer_dec out"
  show ?case
  proof (cases "ticks (tOper out) = 1")
    case True
    with Suc.prems have "timer_dec (tOper out) = 1" by (simp add: timer_dec_1)
    with Suc.prems(1) have "view_tick oid (out, b) =
        (out\<lparr>tPulse := 0, tOper := 0, out_mode := IO_OUTPUT_MODE_SET\<rparr>, \<not> b)"
      by (cases out) (simp add: view_tick_def view_dec_def view_pulse_def view_oper_def)
    then show ?thesis using True by (simp add: funpow_Suc_right view_run_rest del: funpow.simps)
  next
    case False
    with Suc.prems have "timer_dec (tOper out) \<noteq> 1" by (simp add: timer_dec_1)
    with Suc.prems(1) have "view_tick oid (out, b) = (?out, b)"
      by (cases out) (simp add: view_tick_def view_dec_def view_pulse_def view_oper_def)
    moreover have "snd ((view_tick oid ^^ n) (?out, b)) = (if n < ticks (tOper out) - 1 then b else \<not> b)"
      using Suc.IH [of ?out] ticks_timer_dec [OF False] Suc.prems(1) by simp
    ultimately show ?thesis using False ticks_pos [of "tOper out"]
      by (simp add: funpow_Suc_right less_diff_conv del: funpow.simps)
  qed
qed

text \<open>
  A blinking output without operation time: a cycle of \<open>m\<close> ticks high and \<open>k\<close> low, entered
  with \<open>ticks (tPulse out)\<close> left of the present phase.
\<close>

definition blinking :: "t_OUTPUT \<Rightarrow> bool" where
  "blinking out \<longleftrightarrow> out_mode out = IO_OUTPUT_MODE_BLINK \<and> tOper out = 0 \<and> tPulse out \<noteq> 0"

definition phase_ticks :: "t_IO_OUTPUT_ID \<Rightarrow> t_OUTPUT \<Rightarrow> bool \<Rightarrow> nat" where
  "phase_ticks oid out b =
     max 1 ((if b = is_led oid then unat (ms_pulse_low out) else unat (ms_pulse_high out)) div 100)"

definition cycle_pos :: "nat \<Rightarrow> nat \<Rightarrow> bool \<Rightarrow> nat \<Rightarrow> nat" where
  "cycle_pos m k b r = (if b then m - r else m + (k - r))"

lemma unat_ucast_u16: "unat (ucast (w :: u16) :: u32) = unat w"
proof -
  have "unat w < 2 ^ 16" by (rule order_less_le_trans [OF unsigned_less]) simp
  then show ?thesis by (simp add: unsigned_ucast_eq take_bit_nat_eq_self)
qed

lemma view_tick_blink:
  assumes "blinking out"
  shows "view_tick oid (out, b) =
    (if ticks (tPulse out) = 1
     then (out\<lparr>tPulse := timer_ms (if b \<noteq> is_led oid then ucast (ms_pulse_low out) else ucast (ms_pulse_high out))\<rparr>, \<not> b)
     else (tPulse_update timer_dec out, b))"
  using assms timer_dec_1 [of "tPulse out"]
  by (cases out) (auto simp: view_tick_def view_dec_def view_pulse_def view_oper_def blinking_def)

lemma view_run_blink:
  assumes "blinking out" "ticks (tPulse out) \<le> phase_ticks oid out b"
  shows "snd ((view_tick oid ^^ n) (out, b)) \<longleftrightarrow>
    (cycle_pos (phase_ticks oid out True) (phase_ticks oid out False) b (ticks (tPulse out)) + n) mod
      (phase_ticks oid out True + phase_ticks oid out False) < phase_ticks oid out True"
  using assms
proof (induction n arbitrary: out b)
  case 0
  have "0 < phase_ticks oid out True" "0 < phase_ticks oid out False" by (simp_all add: phase_ticks_def)
  with 0 ticks_pos [of "tPulse out"] show ?case by (cases b) (simp_all add: cycle_pos_def)
next
  case (Suc n)
  let ?m = "phase_ticks oid out True" and ?k = "phase_ticks oid out False" and ?r = "ticks (tPulse out)"
  have mk: "0 < ?m" "0 < ?k" by (simp_all add: phase_ticks_def)
  show ?case
  proof (cases "?r = 1")
    case True
    let ?out = "out\<lparr>tPulse := timer_ms (if b \<noteq> is_led oid then ucast (ms_pulse_low out) else ucast (ms_pulse_high out))\<rparr>"
    have same: "phase_ticks oid ?out c = phase_ticks oid out c" for c by (simp add: phase_ticks_def)
    have r: "ticks (tPulse ?out) = phase_ticks oid out (\<not> b)"
      by (auto simp: ticks_timer_ms phase_ticks_def unat_ucast_u16)
    have "blinking ?out" using Suc.prems(1) by (simp add: blinking_def)
    from Suc.IH [OF this, of "\<not> b"] r have
      "snd ((view_tick oid ^^ n) (?out, \<not> b)) \<longleftrightarrow> (cycle_pos ?m ?k (\<not> b) (phase_ticks oid out (\<not> b)) + n) mod (?m + ?k) < ?m"
      by (simp only: same)
    moreover have "(cycle_pos ?m ?k (\<not> b) (phase_ticks oid out (\<not> b)) + n) mod (?m + ?k) =
        (cycle_pos ?m ?k b 1 + Suc n) mod (?m + ?k)"
      using mk by (cases b) (simp_all add: cycle_pos_def)
    ultimately show ?thesis using True Suc.prems(1)
      by (simp add: funpow_Suc_right view_tick_blink del: funpow.simps)
  next
    case False
    let ?out = "tPulse_update timer_dec out"
    have same: "phase_ticks oid ?out c = phase_ticks oid out c" for c by (simp add: phase_ticks_def)
    have d: "ticks (tPulse ?out) = ?r - 1" "timer_dec (tPulse out) \<noteq> 0" using ticks_timer_dec [OF False] by simp_all
    have "blinking ?out" using Suc.prems(1) d(2) by (simp add: blinking_def)
    from Suc.IH [OF this, of b] d(1) Suc.prems(2) have
      "snd ((view_tick oid ^^ n) (?out, b)) \<longleftrightarrow> (cycle_pos ?m ?k b (?r - 1) + n) mod (?m + ?k) < ?m"
      by (simp add: same)
    moreover have "cycle_pos ?m ?k b (?r - 1) = Suc (cycle_pos ?m ?k b ?r)"
      using Suc.prems(2) ticks_pos [of "tPulse out"] False by (cases b) (simp_all add: cycle_pos_def)
    ultimately show ?thesis using False Suc.prems(1)
      by (simp add: funpow_Suc_right view_tick_blink del: funpow.simps)
  qed
qed

section \<open>Each input by itself\<close>

definition calls_of :: "t_IO_INPUT_ID \<Rightarrow> t_IO_DATA \<Rightarrow> cb_call list" where
  "calls_of iid io = filter (\<lambda>c. fst (snd c) = iid) (io_calls io)"

definition in_view :: "t_IO_INPUT_ID \<Rightarrow> t_IO_DATA \<Rightarrow> t_INPUT \<times> cb_call list" where
  "in_view iid io = (io_input io iid, calls_of iid io)"

definition view_dec_in :: "t_INPUT \<times> cb_call list \<Rightarrow> t_INPUT \<times> cb_call list" where
  "view_dec_in v = (case v of (i, cs) \<Rightarrow> (in_t_update timer_dec i, cs))"

text \<open>The call for an edge to level \<open>b\<close>, and a turn of the debouncer of one input.\<close>

definition edge_call :: "t_IO_INPUT_ID \<Rightarrow> t_INPUT \<Rightarrow> bool \<Rightarrow> cb_call list" where
  "edge_call iid i b =
     (case if b then risingEdgeCb i else fallingEdgeCb i of
        None \<Rightarrow> []
      | Some f \<Rightarrow>
          [(f, iid, if b then IO_INPUT_STATE_LOW_TO_HIGH else IO_INPUT_STATE_HIGH_TO_LOW,
            if b then risingEdgeCtx i else fallingEdgeCtx i)])"

definition stable :: "bool \<Rightarrow> t_IO_INPUT_STATES" where
  "stable b = (if b then IO_INPUT_STATE_HIGH else IO_INPUT_STATE_LOW)"

definition changing :: "bool \<Rightarrow> t_IO_INPUT_STATES" where
  "changing b = (if b then IO_INPUT_STATE_LOW_TO_HIGH else IO_INPUT_STATE_HIGH_TO_LOW)"

text \<open>What the state says about the last two samples.\<close>

definition debouncing :: "bool \<Rightarrow> bool \<Rightarrow> t_INPUT \<Rightarrow> bool" where
  "debouncing y z i \<longleftrightarrow>
     (if y = z then in_state i = stable z \<and> in_t i = 0 else in_state i = changing z \<and> in_t i = 2)"

lemma inputs_task_other: "i \<noteq> j \<Longrightarrow> in_view j (inputs_task i p io) = in_view j io"
  by (auto simp: in_view_def calls_of_def inputs_task_def upd_input_def call_back_def Let_def
      split: t_IO_INPUT_STATES.split option.split)

lemma timer_ms_100 [simp]: "timer_ms CTE_TIME_MS = 2"
  by (simp add: timer_ms_def CTE_TIME_MS_def TIME_RESOLUTION_MS_def)

lemma timer_dec_2 [simp]: "timer_dec 2 = 1" "timer_dec 1 = 1"
  by (simp_all add: timer_dec_def)

text \<open>The task of one input on what belongs to it.\<close>

definition view_sample :: "t_IO_INPUT_ID \<Rightarrow> bool \<Rightarrow> t_INPUT \<times> cb_call list \<Rightarrow> t_INPUT \<times> cb_call list" where
  "view_sample iid p v =
     (case v of (i, cs) \<Rightarrow>
       let start = (i\<lparr>in_t := 2, in_state := changing p\<rparr>, cs);
           accept = (i\<lparr>in_t := 0, in_state := stable p\<rparr>, cs @ edge_call iid i p)
       in case in_state i of
            IO_INPUT_STATE_DISABLE \<Rightarrow> v
          | IO_INPUT_STATE_UNKNOWN \<Rightarrow> (i\<lparr>in_t := 0, in_state := stable p\<rparr>, cs)
          | IO_INPUT_STATE_LOW \<Rightarrow> if p then start else v
          | IO_INPUT_STATE_HIGH \<Rightarrow> if p then v else start
          | IO_INPUT_STATE_LOW_TO_HIGH \<Rightarrow> if \<not> p then start else if in_t i = 1 then accept else v
          | IO_INPUT_STATE_HIGH_TO_LOW \<Rightarrow> if p then start else if in_t i = 1 then accept else v)"

lemmas in_defs = in_view_def calls_of_def upd_input_def call_back_def stable_def changing_def

lemma inputs_task_view: "in_view iid (inputs_task iid p io) = view_sample iid p (in_view iid io)"
  by (cases "in_state (io_input io iid)"; cases p)
    (simp_all add: inputs_task_def view_sample_def in_defs edge_call_def timer_expired_def timer_off_def Let_def
      split: option.split)

text \<open>One tick at one input: the edge is the third sample of the three that make it.\<close>

lemma view_sample_debounce:
  assumes "debouncing y z i"
  shows "\<exists>i'. view_sample iid w (view_dec_in (i, cs)) =
      (i', cs @ (if y \<noteq> z \<and> z = w then edge_call iid i w else [])) \<and>
    debouncing z w i' \<and> edge_call iid i' = edge_call iid i"
  using assms
  by (cases y; cases z; cases w)
    (auto simp: debouncing_def stable_def changing_def view_sample_def view_dec_in_def edge_call_def fun_eq_iff
      Let_def split: option.split)

lemma fold_inputs_view:
  "in_view iid (fold (\<lambda>i. inputs_task i (pins i)) sampled io) =
     (if iid \<in> set sampled then in_view iid (inputs_task iid (pins iid) io) else in_view iid io)"
proof -
  have "in_view iid (fold (\<lambda>i. inputs_task i (pins i)) xs io) =
      (if iid \<in> set xs then in_view iid (inputs_task iid (pins iid) io) else in_view iid io)"
    if "distinct xs" for xs
    using that
  proof (induction xs arbitrary: io)
    case (Cons i xs)
    show ?case using Cons by (cases "i = iid") (auto simp: inputs_task_view inputs_task_other)
  qed simp
  moreover have "distinct sampled" by (simp add: sampled_def)
  ultimately show ?thesis by blast
qed

text \<open>The edges in a sequence of samples: a level that differs from the one before and is kept.\<close>

fun edges :: "bool list \<Rightarrow> bool list" where
  "edges (x # y # z # s) = (if x \<noteq> y \<and> y = z then [z] else []) @ edges (y # z # s)"
| "edges s = []"

lemma local_timers_in_view:
  "io_state io = IO_STATE_RUNNING \<Longrightarrow> in_view iid (local_timers pins io) =
     (if iid \<in> set sampled then view_sample iid (pins iid) (view_dec_in (in_view iid io))
      else view_dec_in (in_view iid io))"
proof -
  have "in_view iid (outputs_task (dec_timers io)) = view_dec_in (in_view iid io)"
    by (simp add: in_view_def calls_of_def view_dec_in_def) (simp add: dec_timers_def)
  then show "io_state io = IO_STATE_RUNNING \<Longrightarrow> ?thesis"
    by (simp add: local_timers_def io_tasks_def dec_timers_view fold_inputs_view inputs_task_view)
qed

lemma local_timers_in:
  assumes "io_state io = IO_STATE_RUNNING" "iid \<in> set sampled" "debouncing y z (io_input io iid)"
  shows "\<exists>i'. in_view iid (local_timers pins io) =
      (i', calls_of iid io @ (if y \<noteq> z \<and> z = pins iid then edge_call iid (io_input io iid) (pins iid) else [])) \<and>
    debouncing z (pins iid) i' \<and> edge_call iid i' = edge_call iid (io_input io iid)"
  using view_sample_debounce [OF assms(3)] assms(2) unfolding local_timers_in_view [OF assms(1)]
  by (simp add: in_view_def)

lemma io_apply_other_input:
  assumes "\<not> on_input iid e" "\<forall>pins. e \<noteq> Tick pins" shows "in_view iid (io_apply e io) = in_view iid io"
  using assms
  by (cases e) (auto simp: op_defs upd_output_def in_defs Let_def split: t_IO_EDGE.split)

definition last_two :: "bool \<Rightarrow> bool \<Rightarrow> bool list \<Rightarrow> bool \<times> bool" where
  "last_two y z s = foldl (\<lambda>(y, z) w. (z, w)) (y, z) s"

lemma last_two_simps [simp]:
  "last_two y z [] = (y, z)" "last_two y z (w # s) = last_two z w s" "last_two y z (s @ [u, w]) = (u, w)"
  by (simp_all add: last_two_def split_beta)

lemma io_run_in:
  "io_state io = IO_STATE_RUNNING \<Longrightarrow> iid \<in> set sampled \<Longrightarrow> debouncing y z (io_input io iid) \<Longrightarrow>
   list_all (\<lambda>e. \<not> on_input iid e) es \<Longrightarrow>
     (let s = map (\<lambda>pins. pins iid) (samples es); io' = fold io_apply es io in
      calls_of iid io' = calls_of iid io @ concat (map (edge_call iid (io_input io iid)) (edges (y # z # s))) \<and>
      (case last_two y z s of (u, w) \<Rightarrow> debouncing u w (io_input io' iid)))"
proof (induction es arbitrary: io y z)
  case (Cons e es)
  have run: "io_state (io_apply e io) = IO_STATE_RUNNING" using Cons.prems(1) by (rule io_apply_running)
  show ?case
  proof (cases "\<exists>pins. e = Tick pins")
    case True
    then obtain pins where e: "e = Tick pins" by blast
    obtain i' where i': "in_view iid (io_apply e io) =
        (i', calls_of iid io @ (if y \<noteq> z \<and> z = pins iid then edge_call iid (io_input io iid) (pins iid) else []))"
      "debouncing z (pins iid) i'" "edge_call iid i' = edge_call iid (io_input io iid)"
      using local_timers_in [OF Cons.prems(1-3), of pins] by (auto simp: e)
    then have i: "io_input (io_apply e io) iid = i'"
      and c: "calls_of iid (io_apply e io) = calls_of iid io @
        (if y \<noteq> z \<and> z = pins iid then edge_call iid (io_input io iid) (pins iid) else [])"
      by (simp_all add: in_view_def)
    from i'(2) have d: "debouncing z (pins iid) (io_input (io_apply e io) iid)" by (simp only: i)
    have rest: "list_all (\<lambda>e. \<not> on_input iid e) es" using Cons.prems(4) by simp
    note IH = Cons.IH [OF run Cons.prems(2) d rest, unfolded i c i'(3)]
    then show ?thesis by (simp add: e Let_def del: io_apply.simps) 
  next
    case False
    then have s: "samples (e # es) = samples es" by (cases e) auto
    from False Cons.prems(4) have v: "in_view iid (io_apply e io) = in_view iid io"
      by (intro io_apply_other_input) auto
    then have i: "io_input (io_apply e io) iid = io_input io iid" "calls_of iid (io_apply e io) = calls_of iid io"
      by (simp_all add: in_view_def)
    show ?thesis using Cons.IH [OF run Cons.prems(2), of y z] Cons.prems(3,4) by (simp add: i s)
  qed
qed simp

lemma edges_double: "edges (x # x # s) = edges (x # s)"
  by (cases s) simp_all

lemma io_run_unknown:
  "io_state io = IO_STATE_RUNNING \<Longrightarrow> iid \<in> set sampled \<Longrightarrow> in_state (io_input io iid) = IO_INPUT_STATE_UNKNOWN \<Longrightarrow>
   list_all (\<lambda>e. \<not> on_input iid e) es \<Longrightarrow>
     (let s = map (\<lambda>pins. pins iid) (samples es); io' = fold io_apply es io in
      calls_of iid io' = calls_of iid io @ concat (map (edge_call iid (io_input io iid)) (edges s)) \<and>
      (s \<noteq> [] \<longrightarrow> (case last_two (hd s) (hd s) (tl s) of (u, w) \<Rightarrow> debouncing u w (io_input io' iid))))"
proof (induction es arbitrary: io)
  case (Cons e es)
  have run: "io_state (io_apply e io) = IO_STATE_RUNNING" using Cons.prems(1) by (rule io_apply_running)
  show ?case
  proof (cases "\<exists>pins. e = Tick pins")
    case True
    then obtain pins where e: "e = Tick pins" by blast
    have "in_view iid (io_apply e io) = view_sample iid (pins iid) (view_dec_in (in_view iid io))"
      using Cons.prems(1,2) by (simp add: e local_timers_in_view)
    then have i: "io_input (io_apply e io) iid = (io_input io iid)\<lparr>in_t := 0, in_state := stable (pins iid)\<rparr>"
      and c: "calls_of iid (io_apply e io) = calls_of iid io"
      using Cons.prems(3) by (simp_all add: in_view_def view_dec_in_def view_sample_def Let_def)
    have d: "debouncing (pins iid) (pins iid) (io_input (io_apply e io) iid)" by (simp add: i debouncing_def)
    have ec: "edge_call iid (io_input (io_apply e io) iid) = edge_call iid (io_input io iid)"
      by (simp add: i edge_call_def fun_eq_iff split: option.split)
    have rest: "list_all (\<lambda>e. \<not> on_input iid e) es" using Cons.prems(4) by simp
    show ?thesis using io_run_in [OF run Cons.prems(2) d rest, unfolded ec c]
      by (simp add: e Let_def edges_double del: io_apply.simps)
  next
    case False
    then have s: "samples (e # es) = samples es" by (cases e) auto
    from False Cons.prems(4) have v: "in_view iid (io_apply e io) = in_view iid io"
      by (intro io_apply_other_input) auto
    then have i: "io_input (io_apply e io) iid = io_input io iid" "calls_of iid (io_apply e io) = calls_of iid io"
      by (simp_all add: in_view_def)
    show ?thesis using Cons.IH [OF run Cons.prems(2)] Cons.prems(3,4) by (simp add: i s)
  qed
qed simp

section \<open>The invariant of the running module\<close>

definition output_inv :: "t_OUTPUT \<Rightarrow> bool" where
  "output_inv out \<longleftrightarrow>
     (case out_mode out of
        IO_OUTPUT_MODE_SET \<Rightarrow> tPulse out = 0 \<and> tOper out = 0
      | IO_OUTPUT_MODE_PULSE \<Rightarrow> tPulse out = 0 \<and> tOper out \<noteq> 0
      | IO_OUTPUT_MODE_BLINK \<Rightarrow> tPulse out \<noteq> 0)"

definition input_inv :: "t_INPUT \<Rightarrow> bool" where
  "input_inv i \<longleftrightarrow>
     (if in_state i = IO_INPUT_STATE_LOW_TO_HIGH \<or> in_state i = IO_INPUT_STATE_HIGH_TO_LOW
      then in_t i = 2 else in_t i = 0)"

definition io_inv :: "t_IO_DATA \<Rightarrow> bool" where
  "io_inv io \<longleftrightarrow>
     io_state io = IO_STATE_RUNNING \<and> (\<forall>oid. output_inv (io_output io oid)) \<and>
     (\<forall>iid. input_inv (io_input io iid)) \<and>
     (\<forall>iid. in_state (io_input io iid) = IO_INPUT_STATE_DISABLE \<longleftrightarrow> iid \<notin> set sampled)"

lemma timer_dec_nonzero [simp]: "timer_dec t = 0 \<longleftrightarrow> t = 0"
  by (auto simp: timer_dec_def)

lemma view_tick_inv: "output_inv out \<Longrightarrow> output_inv (fst (view_tick oid (out, b)))"
  by (cases "out_mode out")
    (auto simp: output_inv_def view_tick_def view_dec_def view_pulse_def view_oper_def)

lemma view_sample_inv:
  "input_inv i \<Longrightarrow> input_inv (fst (view_sample iid p (view_dec_in (i, cs))))"
  "in_state (fst (view_sample iid p (view_dec_in (i, cs)))) = IO_INPUT_STATE_DISABLE \<longleftrightarrow>
     in_state i = IO_INPUT_STATE_DISABLE"
  by (cases "in_state i"; cases p; simp add: input_inv_def view_sample_def view_dec_in_def Let_def
      stable_def changing_def)+

lemma io_output_view: "io_output io oid = fst (out_view oid io)"
  by (simp add: out_view_def)

lemma io_input_view: "io_input io iid = fst (in_view iid io)"
  by (simp add: in_view_def)

lemma tick_inv: assumes "io_inv io" shows "io_inv (local_timers pins io)"
proof -
  have r: "io_state io = IO_STATE_RUNNING" using assms by (simp add: io_inv_def)
  have o: "io_output (local_timers pins io) oid = fst (view_tick oid (io_output io oid, io_pin io (output_pin oid)))" for oid
    by (simp only: io_output_view local_timers_out [OF r]) (simp add: out_view_def)
  have i: "io_input (local_timers pins io) iid =
      fst (if iid \<in> set sampled then view_sample iid (pins iid) (view_dec_in (io_input io iid, calls_of iid io))
        else view_dec_in (io_input io iid, calls_of iid io))" for iid
    by (simp only: io_input_view local_timers_in_view [OF r]) (simp add: in_view_def)
  have "input_inv (io_input (local_timers pins io) iid) \<and>
    (in_state (io_input (local_timers pins io) iid) = IO_INPUT_STATE_DISABLE \<longleftrightarrow> iid \<notin> set sampled)" for iid
  proof (cases "iid \<in> set sampled")
    case True
    with assms show ?thesis by (simp add: i io_inv_def view_sample_inv)
  next
    case False
    with assms have "in_state (io_input io iid) = IO_INPUT_STATE_DISABLE" "input_inv (io_input io iid)"
      by (simp_all add: io_inv_def)
    with False show ?thesis by (simp add: i view_dec_in_def input_inv_def)
  qed
  then show ?thesis using assms local_timers_running [OF r] by (simp add: io_inv_def o view_tick_inv)
qed

lemma io_apply_inv: "io_inv io \<Longrightarrow> io_inv (io_apply e io)"
proof (cases e)
  case (Tick pins)
  then show "io_inv io \<Longrightarrow> ?thesis" by (simp add: tick_inv)
next
  case (Register iid edge cb ctx)
  then show "io_inv io \<Longrightarrow> ?thesis"
    by (cases edge) (auto simp: io_inv_def input_inv_def op_defs upd_input_def)
qed (auto simp: io_inv_def output_inv_def op_defs upd_output_def Let_def timer_off_def word_gt_0)

definition io_step :: "io_event \<Rightarrow> t_IO_DATA \<Rightarrow> t_IO_DATA outcome" where
  "io_step e io = Inr (io_apply e io)"

interpretation io: safe_task io_step io_inv
  by unfold_locales (auto simp: io_step_def io_apply_inv)

lemma run_io_step: "run io_step es io = Inr (fold io_apply es io)"
  by (induction es arbitrary: io) (simp_all add: io_step_def)

lemma fold_set_output_frame [simp]:
  "io_state (fold (\<lambda>i. set_output i a) xs io) = io_state io" "io_input (fold (\<lambda>i. set_output i a) xs io) = io_input io"
  "io_calls (fold (\<lambda>i. set_output i a) xs io) = io_calls io" "io_output (fold (\<lambda>i. set_output i a) xs io) = io_output io"
  by (induction xs arbitrary: io) simp_all

lemma io_initialize_inv: "io_inv (local_timers pins (io_initialize True io))"
  by (auto simp: io_inv_def io_initialize_def local_timers_def io_tasks_def dec_timers_def sampled_def
      upd_input_def output_inv_def input_inv_def zero_output_def zero_input_def Let_def timer_off_def)


definition started :: t_IO_DATA where
  "started = local_timers (\<lambda>_. False) (io_initialize True
     \<lparr>io_state = IO_STATE_ERROR, io_input = (\<lambda>_. zero_input), io_output = (\<lambda>_. zero_output),
      io_pin = (\<lambda>_. True), io_calls = []\<rparr>)"

lemma started_facts [simp]:
  "io_state started = IO_STATE_RUNNING" "in_state (io_input started IO_INPUT_ID_07) = IO_INPUT_STATE_UNKNOWN"
  "calls_of iid started = []"
proof -
  show "io_state started = IO_STATE_RUNNING" using io_initialize_inv unfolding started_def io_inv_def by blast
  show "in_state (io_input started IO_INPUT_ID_07) = IO_INPUT_STATE_UNKNOWN" "calls_of iid started = []"
    by (simp_all add: started_def local_timers_def io_tasks_def dec_timers_def io_initialize_def sampled_def
        upd_input_def calls_of_def Let_def)
qed

section \<open>Properties\<close>


text \<open>
  C38: The debouncer. In any run of ticks and other calls, the callbacks of a sampled input are
  called exactly for the edges in its samples: at a sample that repeats the one before it, which
  differed from the one before that; with the callback and the context registered for the
  direction of the edge, in order, and never otherwise.
\<close>

theorem input_callbacks_are_edges:
  assumes "io_state io = IO_STATE_RUNNING" "iid \<in> set sampled"
    and "in_state (io_input io iid) = IO_INPUT_STATE_UNKNOWN"
    and "list_all (\<lambda>e. \<not> on_input iid e) es"
  shows "calls_of iid (fold io_apply es io) =
    calls_of iid io @ concat (map (edge_call iid (io_input io iid)) (edges (map (\<lambda>pins. pins iid) (samples es))))"
  using io_run_unknown [OF assms] by (simp add: Let_def)

theorem input_callbacks_are_edges_witness:
  "calls_of IO_INPUT_ID_07 (fold io_apply
      [Tick (\<lambda>_. False), Tick (\<lambda>_. True), Toggle IO_OUTPUT_RELE_ID_2, Tick (\<lambda>_. True)]
      (io_register_input_cb IO_INPUT_ID_07 IO_EDGE_RISING (Some 5) (Some 9) started)) =
    [(5, IO_INPUT_ID_07, IO_INPUT_STATE_LOW_TO_HIGH, Some 9)]"
proof -
  let ?io = "io_register_input_cb IO_INPUT_ID_07 IO_EDGE_RISING (Some 5) (Some 9) started"
  have "io_state ?io = IO_STATE_RUNNING" "in_state (io_input ?io IO_INPUT_ID_07) = IO_INPUT_STATE_UNKNOWN"
    "calls_of IO_INPUT_ID_07 ?io = calls_of IO_INPUT_ID_07 started"
    "edge_call IO_INPUT_ID_07 (io_input ?io IO_INPUT_ID_07) True = [(5, IO_INPUT_ID_07, IO_INPUT_STATE_LOW_TO_HIGH, Some 9)]"
    by (simp_all add: io_register_input_cb_def upd_input_def calls_of_def edge_call_def)
  then show ?thesis using input_callbacks_are_edges
      [of ?io IO_INPUT_ID_07 "[Tick (\<lambda>_. False), Tick (\<lambda>_. True), Toggle IO_OUTPUT_RELE_ID_2, Tick (\<lambda>_. True)]"]
    by (simp add: sampled_def)
qed

text \<open>
  Two equal samples in a row settle an input: whatever happened before, its state is then the
  stable state of that level.
\<close>

lemma input_settles:
  assumes "io_state io = IO_STATE_RUNNING" "iid \<in> set sampled"
    and "in_state (io_input io iid) = IO_INPUT_STATE_UNKNOWN"
    and "list_all (\<lambda>e. \<not> on_input iid e) es" and "samples es = ps @ [p, q]" "p iid = q iid"
  shows "io_input_get_state iid (fold io_apply es io) =
    (if q iid then IO_INPUT_STATE_HIGH else IO_INPUT_STATE_LOW)"
proof -
  let ?s = "map (\<lambda>pins. pins iid) (samples es)"
  have d: "case last_two (hd ?s) (hd ?s) (tl ?s) of (u, w) \<Rightarrow> debouncing u w (io_input (fold io_apply es io) iid)"
    using io_run_unknown [OF assms(1-4)] assms(5) by (simp add: Let_def)
  have "last_two (hd ?s) (hd ?s) (tl ?s) = (q iid, q iid)"
    using assms(5,6) by (cases ps) simp_all
  with d show ?thesis by (simp add: debouncing_def io_input_get_state_def stable_def)
qed

lemma input_settles_witness:
  "io_input_get_state IO_INPUT_ID_07 (fold io_apply
      [Tick (\<lambda>_. False), Tick (\<lambda>_. True), Toggle IO_OUTPUT_RELE_ID_2, Tick (\<lambda>_. True)] started) = IO_INPUT_STATE_HIGH"
  using input_settles [of started IO_INPUT_ID_07
      "[Tick (\<lambda>_. False), Tick (\<lambda>_. True), Toggle IO_OUTPUT_RELE_ID_2, Tick (\<lambda>_. True)]"
      "[\<lambda>_. False]" "\<lambda>_. True" "\<lambda>_. True"]
  by (simp add: sampled_def)

text \<open>
  C40: A glitch of one sample on a quiet low input calls the falling edge callback, although no
  rising edge was ever reported: the way back from an unconfirmed change starts the debouncing of
  the opposite edge instead of returning to the stable state.
\<close>

theorem glitch_reports_falling_edge:
  assumes "io_state io = IO_STATE_RUNNING" "iid \<in> set sampled"
    and "in_state (io_input io iid) = IO_INPUT_STATE_UNKNOWN"
  defines "high \<equiv> (\<lambda>i. i = iid)" and "low \<equiv> (\<lambda>_. False)"
  shows "calls_of iid (fold io_apply [Register iid IO_EDGE_RISING (Some f) c, Register iid IO_EDGE_FALLING (Some g) c,
      Tick low, Tick high, Tick low, Tick low] io) = calls_of iid io @ [(g, iid, IO_INPUT_STATE_HIGH_TO_LOW, c)]"
proof -
  let ?io = "fold io_apply [Register iid IO_EDGE_RISING (Some f) c, Register iid IO_EDGE_FALLING (Some g) c] io"
  have "io_state ?io = IO_STATE_RUNNING" "in_state (io_input ?io iid) = IO_INPUT_STATE_UNKNOWN"
    using assms(1,3) by (simp_all add: op_defs upd_input_def)
  note r = io_run_unknown [OF this(1) assms(2) this(2), of "[Tick low, Tick high, Tick low, Tick low]"]
  have "calls_of iid ?io = calls_of iid io" by (simp add: calls_of_def op_defs upd_input_def)
  moreover have "edge_call iid (io_input ?io iid) False = [(g, iid, IO_INPUT_STATE_HIGH_TO_LOW, c)]"
    by (simp add: edge_call_def op_defs upd_input_def)
  ultimately show ?thesis using r by (simp add: Let_def high_def low_def)
qed

theorem glitch_reports_falling_edge_witness:
  "calls_of IO_INPUT_ID_07 (fold io_apply [Register IO_INPUT_ID_07 IO_EDGE_RISING (Some 1) None,
      Register IO_INPUT_ID_07 IO_EDGE_FALLING (Some 2) None, Tick (\<lambda>_. False), Tick (\<lambda>i. i = IO_INPUT_ID_07),
      Tick (\<lambda>_. False), Tick (\<lambda>_. False)] started) = [(2, IO_INPUT_ID_07, IO_INPUT_STATE_HIGH_TO_LOW, None)]"
  using glitch_reports_falling_edge [of started IO_INPUT_ID_07 1 None 2]
  by (simp only: started_facts append_Nil) (simp add: sampled_def)

text \<open>
  A callback registered for both edges is called without its context: on the first rising edge
  after start-up it is handed the NULL pointer, whatever context was registered.
\<close>

lemma both_edges_lose_context:
  assumes "iid \<in> set sampled"
  defines "high \<equiv> (\<lambda>i. i = iid)" and "low \<equiv> (\<lambda>_. False)"
  shows "calls_of iid (fold io_apply [Register iid IO_EDGE_BOTH (Some f) c, Tick low, Tick high, Tick high]
      (local_timers low (io_initialize True io))) =
    calls_of iid io @ [(f, iid, IO_INPUT_STATE_LOW_TO_HIGH, None)]"
proof -
  let ?start = "local_timers low (io_initialize True io)"
  let ?io = "io_apply (Register iid IO_EDGE_BOTH (Some f) c) ?start"
  have f: "io_state (fold (\<lambda>iid. upd_input iid (in_state_update (\<lambda>_. st))) xs io) = io_state io"
    "io_calls (fold (\<lambda>iid. upd_input iid (in_state_update (\<lambda>_. st))) xs io) = io_calls io" for st xs io
    by (induction xs arbitrary: io) (simp_all add: upd_input_def)
  have "io_state ?start = IO_STATE_RUNNING"
    using io_initialize_inv [of low io] unfolding io_inv_def by (rule conjunct1)
  then have s: "io_state ?io = IO_STATE_RUNNING" by (rule io_apply_running)
  have u: "in_state (io_input ?io iid) = IO_INPUT_STATE_UNKNOWN" "risingEdgeCtx (io_input ?io iid) = None"
    using assms(1) by (auto simp: sampled_def op_defs upd_input_def local_timers_def io_tasks_def dec_timers_def
        io_initialize_def zero_input_def Let_def)
  have c: "calls_of iid ?io = calls_of iid io" 
    by (simp add: calls_of_def op_defs local_timers_def io_tasks_def dec_timers_def io_initialize_def
        Let_def f) (simp add: upd_input_def f)
  have "edge_call iid (io_input ?io iid) True = [(f, iid, IO_INPUT_STATE_LOW_TO_HIGH, None)]"
    using u(2) by (simp add: edge_call_def) (simp add: op_defs upd_input_def)
  then show ?thesis using io_run_unknown [OF s assms(1) u(1), of "[Tick low, Tick high, Tick high]"] c
    by (simp add: Let_def high_def low_def)
qed

lemma both_edges_lose_context_witness:
  "\<exists>io. calls_of IO_INPUT_ID_12 (fold io_apply [Register IO_INPUT_ID_12 IO_EDGE_BOTH (Some 1) (Some 7),
      Tick (\<lambda>_. False), Tick (\<lambda>i. i = IO_INPUT_ID_12), Tick (\<lambda>i. i = IO_INPUT_ID_12)]
      (local_timers (\<lambda>_. False) (io_initialize True io))) =
    calls_of IO_INPUT_ID_12 io @ [(1, IO_INPUT_ID_12, IO_INPUT_STATE_LOW_TO_HIGH, None)]"
proof -
  have "IO_INPUT_ID_12 \<in> set sampled" by (simp add: sampled_def)
  from both_edges_lose_context [OF this, of 1 "Some 7"] show ?thesis by blast
qed

lemma running_view:
  assumes "io_state io = IO_STATE_RUNNING" "list_all (\<lambda>e. \<not> on_output oid e) es"
  shows "io_pin (fold io_apply es io) (output_pin oid) = snd ((view_tick oid ^^ length (samples es)) (out_view oid io))"
  using io_run_out [OF assms] by (simp add: out_view_def) (metis snd_conv)

text \<open>
  C39: A pulse: the output keeps the requested level for as many ticks of 100 ms as fit into the
  operation time, at least one, then takes the other level, and stays there, whatever is done
  with the inputs and with the other outputs in between.
\<close>

theorem pulse_shape:
  assumes "io_state io = IO_STATE_RUNNING" "list_all (\<lambda>e. \<not> on_output oid e) es"
  shows "io_pin (fold io_apply es (io_output_pulse oid st ms io)) (output_pin oid) \<longleftrightarrow>
    (st = IO_OUTPUT_STATE_HIGH) = (length (samples es) < max 1 (unat ms div 100))"
proof -
  let ?io = "io_output_pulse oid st ms io"
  have r: "io_state ?io = IO_STATE_RUNNING" using assms(1) by (simp add: io_output_pulse_def upd_output_def)
  obtain out where v: "out_view oid ?io = (out, st = IO_OUTPUT_STATE_HIGH)"
    and t: "tPulse out = 0" "tOper out = timer_ms ms"
    by (cases st) (simp_all add: out_view_def io_output_pulse_def upd_output_def set_output_def action_of_def timer_off_def)
  have nz: "tOper out \<noteq> 0" using t(2) by simp
  show ?thesis
    unfolding running_view [OF r assms(2)] v view_run_oper [OF t(1) nz] by (simp add: t(2) ticks_timer_ms)
qed

theorem pulse_shape_witness:
  "\<not> io_pin (fold io_apply [Tick (\<lambda>_. False), Toggle IO_OUTPUT_RELE_ID_2, Tick (\<lambda>_. True)]
      (io_output_pulse IO_OUTPUT_RELE_ID_1 IO_OUTPUT_STATE_HIGH 250 started)) O_RELAY_1"
  using pulse_shape [of started IO_OUTPUT_RELE_ID_1 "[Tick (\<lambda>_. False), Toggle IO_OUTPUT_RELE_ID_2, Tick (\<lambda>_. True)]"
      IO_OUTPUT_STATE_HIGH 250]
  by (simp add: output_pin_def)

text \<open>
  Blinking a relay or the modem's power pin without an operation time: high for the ticks that
  fit into the high time, low for those of the low time (each at least one), over and over.
\<close>

lemma blink_shape:
  fixes high low :: u16
  assumes "io_state io = IO_STATE_RUNNING" "list_all (\<lambda>e. \<not> on_output oid e) es" "\<not> is_led oid"
  defines "m \<equiv> max 1 (unat high div 100)" and "k \<equiv> max 1 (unat low div 100)"
  shows "io_pin (fold io_apply es (io_output_blink oid high low 0 io)) (output_pin oid) \<longleftrightarrow>
    length (samples es) mod (m + k) < m"
proof -
  let ?io = "io_output_blink oid high low 0 io"
  have r: "io_state ?io = IO_STATE_RUNNING" using assms(1) by (simp add: io_output_blink_def upd_output_def)
  obtain out where v: "out_view oid ?io = (out, True)" and b: "blinking out" "ticks (tPulse out) = m"
    and p: "ms_pulse_high out = high" "ms_pulse_low out = low"
    by (simp add: out_view_def io_output_blink_def upd_output_def set_output_def blinking_def timer_off_def
        ticks_timer_ms unat_ucast_u16 m_def Let_def)
  have "phase_ticks oid out True = m" "phase_ticks oid out False = k"
    using assms(3) p by (simp_all add: phase_ticks_def m_def k_def)
  then show ?thesis
    unfolding running_view [OF r assms(2)] v
    using view_run_blink [OF b(1), of oid True "length (samples es)"] b(2) by (simp add: cycle_pos_def)
qed

lemma blink_shape_witness:
  "io_pin (fold io_apply [Tick (\<lambda>_. False), Tick (\<lambda>_. False), Tick (\<lambda>_. False), Tick (\<lambda>_. False)] (io_output_blink IO_OUTPUT_RELE_ID_1 300 100 0 started)) O_RELAY_1"
  using blink_shape [of started IO_OUTPUT_RELE_ID_1 "[Tick (\<lambda>_. False), Tick (\<lambda>_. False), Tick (\<lambda>_. False), Tick (\<lambda>_. False)]" 300 100]
  by (simp add: output_pin_def is_led_def)

lemma mod_cycle_shift: "0 < (k::nat) \<Longrightarrow> (k + n) mod (k + m) < k \<longleftrightarrow> m \<le> n mod (k + m)"
proof -
  assume k: "0 < k"
  let ?x = "n mod (k + m)"
  have x: "?x < k + m" using k by simp
  have "(k + n) mod (k + m) = (k + ?x) mod (k + m)" by (simp add: mod_add_right_eq)
  also have "\<dots> = (if ?x < m then k + ?x else ?x - m)"
  proof (cases "?x < m")
    case False
    then have "(k + ?x) mod (k + m) = (?x - m + (k + m)) mod (k + m)" by (simp add: add.commute)
    also have "\<dots> = ?x - m" using x by (simp only: mod_add_self2) simp
    finally show ?thesis using False by simp
  qed simp
  finally show ?thesis using x by (auto split: if_splits)
qed

lemma view_run_phase:
  assumes "blinking out"
  shows "\<exists>out'. (view_tick oid ^^ ticks (tPulse out)) (out, b) = (out', \<not> b) \<and> blinking out' \<and>
    ticks (tPulse out') = max 1 (unat (if b = is_led oid then ms_pulse_high out else ms_pulse_low out) div 100) \<and>
    ms_pulse_high out' = ms_pulse_high out \<and> ms_pulse_low out' = ms_pulse_low out"
  using assms
proof (induction "ticks (tPulse out)" arbitrary: out rule: less_induct)
  case less
  show ?case
  proof (cases "ticks (tPulse out) = 1")
    case True
    with less.prems show ?thesis
      by (auto simp: view_tick_blink blinking_def ticks_timer_ms unat_ucast_u16)
  next
    case False
    let ?out = "tPulse_update timer_dec out"
    have d: "ticks (tPulse ?out) = ticks (tPulse out) - 1" "timer_dec (tPulse out) \<noteq> 0"
      using ticks_timer_dec [OF False] by simp_all
    then have "blinking ?out" using less.prems by (simp add: blinking_def)
    moreover have "ticks (tPulse ?out) < ticks (tPulse out)" using d(1) ticks_pos [of "tPulse out"] by simp
    ultimately obtain out' where "(view_tick oid ^^ ticks (tPulse ?out)) (?out, b) = (out', \<not> b)" "blinking out'"
      "ticks (tPulse out') = max 1 (unat (if b = is_led oid then ms_pulse_high out else ms_pulse_low out) div 100)"
      "ms_pulse_high out' = ms_pulse_high out" "ms_pulse_low out' = ms_pulse_low out"
      using less.hyps [of ?out] by auto
    moreover have "(view_tick oid ^^ ticks (tPulse out)) (out, b) = (view_tick oid ^^ ticks (tPulse ?out)) (?out, b)"
      using False ticks_pos [of "tPulse out"] less.prems d(1)
      by (cases "ticks (tPulse out)") (simp_all add: funpow_Suc_right view_tick_blink del: funpow.simps)
    ultimately show ?thesis by metis
  qed
qed

text \<open>
  On the two LEDs the times are swapped after the first phase: the function that reads an
  output back inverts the pins of the LEDs, the functions that drive them do not, so that a LED
  is low for the high time and high for the low time once it has started.
\<close>

lemma led_blink_times_swapped:
  fixes high low :: u16
  assumes "io_state io = IO_STATE_RUNNING" "list_all (\<lambda>e. \<not> on_output oid e) es" "is_led oid"
  defines "m \<equiv> max 1 (unat high div 100)" and "k \<equiv> max 1 (unat low div 100)"
  assumes "m \<le> length (samples es)"
  shows "io_pin (fold io_apply es (io_output_blink oid high low 0 io)) (output_pin oid) \<longleftrightarrow>
    m \<le> (length (samples es) - m) mod (k + m)"
proof -
  let ?io = "io_output_blink oid high low 0 io"
  have r: "io_state ?io = IO_STATE_RUNNING" using assms(1) by (simp add: io_output_blink_def upd_output_def)
  obtain out where v: "out_view oid ?io = (out, True)" and b: "blinking out" "ticks (tPulse out) = m"
    and p: "ms_pulse_high out = high" "ms_pulse_low out = low"
    by (simp add: out_view_def io_output_blink_def upd_output_def set_output_def blinking_def timer_off_def
        ticks_timer_ms unat_ucast_u16 m_def Let_def)
  obtain out' where f: "(view_tick oid ^^ m) (out, True) = (out', False)" "blinking out'"
    "ticks (tPulse out') = max 1 (unat (ms_pulse_high out) div 100)"
    "ms_pulse_high out' = high" "ms_pulse_low out' = low"
    using view_run_phase [OF b(1), of oid True] p assms(3) by (auto simp: b(2))
  have t: "phase_ticks oid out' True = k" "phase_ticks oid out' False = m" "ticks (tPulse out') = m"
    using assms(3) f p by (simp_all add: phase_ticks_def m_def k_def)
  have "(view_tick oid ^^ length (samples es)) (out, True) =
      (view_tick oid ^^ (length (samples es) - m)) (out', False)"
    using assms(6) f(1) funpow_add [of "length (samples es) - m" m "view_tick oid"] by simp
  moreover have "0 < k" by (simp add: k_def)
  ultimately show ?thesis
    unfolding running_view [OF r assms(2)] v
    using view_run_blink [OF f(2), of oid False "length (samples es) - m"] t
    by (simp add: cycle_pos_def mod_cycle_shift)
qed

lemma led_blink_times_swapped_witness:
  "\<not> io_pin (fold io_apply [Tick (\<lambda>_. False), Tick (\<lambda>_. False), Tick (\<lambda>_. False), Tick (\<lambda>_. False)] (io_output_blink IO_OUTPUT_GREEN_LED 300 100 0 started)) LED_VERDE"
  using led_blink_times_swapped [of started IO_OUTPUT_GREEN_LED "[Tick (\<lambda>_. False), Tick (\<lambda>_. False), Tick (\<lambda>_. False), Tick (\<lambda>_. False)]" 300 100]
  by (simp add: output_pin_def is_led_def)

text \<open>
  Reading back what was set: the relays and the modem's power pin give the state that was set,
  the LEDs give the opposite one.
\<close>

lemma set_then_get:
  "io_output_get_state oid (io_output_set_state oid st io) =
     (if is_led oid then level (st = IO_OUTPUT_STATE_LOW) else st)"
  by (cases st) (simp_all add: io_output_get_state_pin io_output_set_state_def set_output_def upd_output_def
      action_of_def level_def)

end
