(* ===== verification/Dmem.thy ===== *)
theory Dmem
  imports Prelude
begin

text \<open>
  Dynamic memory (\<open>drv/drv_dmem.c\<close>, \<open>drv/drv_dmem.h\<close>, built with \<open>DMEM_DEBUG\<close>): blocks by
  address and the counts of allocations and releases. What \<open>malloc\<close> and \<open>realloc\<close> decide is a
  parameter: they fail or give an address that is not in use, or that of the block itself. Releasing
  or extending a block that is not allocated is a fault. The log messages are left out.
\<close>

record 'b dmem =
  blocks :: "nat \<rightharpoonup> 'b"
  aaa :: int
  fff :: int

text \<open>The \<open>malloc\<close> of the C library: the blocks in use and the size wanted decide.\<close>

type_synonym 'b malloc = "(nat \<rightharpoonup> 'b) \<Rightarrow> nat \<Rightarrow> nat option"

definition malloc_ok :: "'b malloc \<Rightarrow> bool" where
  "malloc_ok malloc \<longleftrightarrow> (\<forall>h n a. malloc h n = Some a \<longrightarrow> h a = None)"

text \<open>
  \<open>dmem_create\<close> and \<open>dmem_create_w_data\<close>; the content of the first is what the caller puts into
  the block right after.
\<close>

definition dmem_create :: "'b malloc \<Rightarrow> nat \<Rightarrow> 'b \<Rightarrow> 'b dmem \<Rightarrow> nat option \<times> 'b dmem" where
  "dmem_create malloc sz b m =
     (case malloc (blocks m) sz of
        None \<Rightarrow> (None, m)
      | Some a \<Rightarrow> (Some a, m\<lparr>blocks := (blocks m)(a \<mapsto> b), aaa := aaa m + 1\<rparr>))"

definition dmem_create_w_data :: "'b malloc \<Rightarrow> nat \<Rightarrow> 'b \<Rightarrow> 'b dmem \<Rightarrow> nat option \<times> 'b dmem" where
  "dmem_create_w_data malloc sz b m =
     (case malloc (blocks m) sz of
        None \<Rightarrow> (None, m)
      | Some a \<Rightarrow> (Some a, m\<lparr>blocks := (blocks m)(a \<mapsto> b), aaa := aaa m + 1\<rparr>))"

definition dmem_release :: "nat option \<Rightarrow> 'b dmem \<Rightarrow> 'b dmem outcome" where
  "dmem_release p m =
     (case p of
        None \<Rightarrow> Inr m
      | Some a \<Rightarrow>
          if blocks m a = None then Inl Bad_Free
          else Inr (m\<lparr>fff := fff m + 1, blocks := (blocks m)(a := None)\<rparr>))"

text \<open>
  \<open>dmem_extend\<close> neither counts the block nor the one it replaces; \<open>b\<close> is the block with the content
  it has afterwards.
\<close>

type_synonym 'b realloc = "(nat \<rightharpoonup> 'b) \<Rightarrow> nat option \<Rightarrow> nat \<Rightarrow> nat option"

definition realloc_ok :: "'b realloc \<Rightarrow> bool" where
  "realloc_ok realloc \<longleftrightarrow> (\<forall>h p n a. realloc h p n = Some a \<longrightarrow> h a = None \<or> p = Some a)"

definition dmem_extend :: "'b realloc \<Rightarrow> nat option \<Rightarrow> nat \<Rightarrow> 'b \<Rightarrow> 'b dmem \<Rightarrow> (nat option \<times> 'b dmem) outcome" where
  "dmem_extend realloc p newSize b m =
     (let others = (case p of None \<Rightarrow> blocks m | Some a \<Rightarrow> (blocks m)(a := None)) in
      if (case p of None \<Rightarrow> False | Some a \<Rightarrow> blocks m a = None) then Inl Bad_Free
      else
        (case realloc (blocks m) p newSize of
           None \<Rightarrow> Inr (None, m)
         | Some a \<Rightarrow> Inr (Some a, m\<lparr>blocks := others(a \<mapsto> b)\<rparr>)))"

text \<open>Writing through a pointer.\<close>

definition dmem_write :: "nat \<Rightarrow> 'b \<Rightarrow> 'b dmem \<Rightarrow> 'b dmem" where
  "dmem_write a b m = m\<lparr>blocks := (blocks m)(a \<mapsto> b)\<rparr>"

section \<open>Facts\<close>

text \<open>The blocks that are live, as the counters see them.\<close>

definition live :: "'b dmem \<Rightarrow> int" where
  "live m = aaa m - fff m"

lemma dmem_create_cases:
  assumes "malloc_ok malloc"
  obtains "dmem_create malloc sz b m = (None, m)"
  | a where "dmem_create malloc sz b m = (Some a, m\<lparr>blocks := (blocks m)(a \<mapsto> b), aaa := aaa m + 1\<rparr>)"
      "blocks m a = None"
  using assms by (cases "malloc (blocks m) sz") (auto simp: dmem_create_def malloc_ok_def)

lemma dmem_create_w_data_eq: "dmem_create_w_data = dmem_create"
  by (simp add: fun_eq_iff dmem_create_def dmem_create_w_data_def)

lemma dmem_release_None [simp]: "dmem_release None m = Inr m"
  by (simp add: dmem_release_def)

lemma dmem_release_Some [simp]:
  "blocks m a \<noteq> None \<Longrightarrow> dmem_release (Some a) m = Inr (m\<lparr>fff := fff m + 1, blocks := (blocks m)(a := None)\<rparr>)"
  by (auto simp: dmem_release_def)

text \<open>Releasing several blocks, in order.\<close>

fun release_all :: "nat option list \<Rightarrow> 'b dmem \<Rightarrow> 'b dmem outcome" where
  "release_all [] m = Inr m"
| "release_all (p # ps) m = seq (dmem_release p m) (release_all ps)"

definition addrs :: "nat option list \<Rightarrow> nat list" where
  "addrs ps = map the (filter (\<lambda>p. p \<noteq> None) ps)"

lemma addrs_simps [simp]:
  "addrs [] = []" "addrs (None # ps) = addrs ps" "addrs (Some a # ps) = a # addrs ps"
  "addrs (ps @ qs) = addrs ps @ addrs qs"
  by (simp_all add: addrs_def)

lemma release_all_spec:
  "distinct (addrs ps) \<Longrightarrow> set (addrs ps) \<subseteq> dom (blocks m) \<Longrightarrow>
     release_all ps m =
       Inr (m\<lparr>fff := fff m + int (length (addrs ps)), blocks := blocks m |` (- set (addrs ps))\<rparr>)"
proof (induction ps arbitrary: m)
  case (Cons p ps)
  show ?case
  proof (cases p)
    case None
    with Cons show ?thesis by simp
  next
    case (Some a)
    let ?m = "m\<lparr>fff := fff m + 1, blocks := (blocks m)(a := None)\<rparr>"
    from Some Cons.prems have "blocks m a \<noteq> None" by auto
    moreover have "set (addrs ps) \<subseteq> dom (blocks ?m)" using Some Cons.prems by auto
    moreover have "((blocks m)(a := None)) |` (- set (addrs ps)) = blocks m |` (- set (addrs (p # ps)))"
      using Some by (auto simp: restrict_map_def fun_eq_iff)
    ultimately show ?thesis using Cons Some by (simp add: algebra_simps)
  qed
qed (simp add: restrict_map_def)

text \<open>The simplest \<open>malloc\<close> for the examples: the lowest free address of the first eight.\<close>

definition first_fit :: "'b malloc" where
  "first_fit h n = find (\<lambda>a. h a = None) [0..<8]"

lemma malloc_ok_first_fit [simp]: "malloc_ok first_fit"
  by (auto simp: malloc_ok_def first_fit_def find_Some_iff)

end
