(* ===== verification/Url_Parser.thy ===== *)
theory Url_Parser
  imports Dmem C_String
begin

text \<open>
  The URL parser (\<open>net/url_parser.c\<close>, \<open>net/url_parser.h\<close>). A pointer into the text is the rest
  of the text from it. The parser stores one string per part in dynamic memory; each allocation
  may fail, in which case everything is released and NULL is returned.
\<close>

section \<open>Data\<close>

record t_URL_DATA =
  scheme :: "nat option"
  host :: "nat option"
  port :: "nat option"
  path :: "nat option"
  query :: "nat option"
  fragment :: "nat option"
  username :: "nat option"
  password :: "nat option"

definition zero_url :: t_URL_DATA where
  "zero_url = \<lparr>scheme = None, host = None, port = None, path = None, query = None, fragment = None,
     username = None, password = None\<rparr>"

datatype url_block = Url t_URL_DATA | Str string

text \<open>\<open>isalpha\<close> and \<open>tolower\<close> of the C locale.\<close>

definition isalpha :: "char \<Rightarrow> bool" where
  "isalpha c \<longleftrightarrow> (let n = of_char c :: nat in 65 \<le> n \<and> n \<le> 90 \<or> 97 \<le> n \<and> n \<le> 122)"

definition tolower :: "char \<Rightarrow> char" where
  "tolower c = (let n = of_char c :: nat in if 65 \<le> n \<and> n \<le> 90 then char_of (n + 32) else c)"

definition is_scheme_char :: "char \<Rightarrow> bool" where
  "is_scheme_char c \<longleftrightarrow>
     \<not> (\<not> isalpha c \<and> CHR ''+'' \<noteq> c \<and> CHR ''-'' \<noteq> c \<and> CHR ''.'' \<noteq> c)"

text \<open>\<open>uint16_t len = tmpstr - curstr\<close>\<close>

definition len16 :: "string \<Rightarrow> nat" where
  "len16 s = unat (of_nat (length s) :: u16)"

section \<open>The parser\<close>

text \<open>
  A parser works on a state and may give up (\<open>None\<close>), which stands for the jump to
  \<open>url_parse_free\<close> and \<open>return NULL\<close>. How a part is stored is an argument of the parser: the
  code stores it in memory (\<open>store_str\<close>), the specification in a table.
\<close>

type_synonym ('a, 's) parser = "'s \<Rightarrow> 'a option \<times> 's"

definition bind_parser :: "('a, 's) parser \<Rightarrow> ('a \<Rightarrow> ('b, 's) parser) \<Rightarrow> ('b, 's) parser" where
  "bind_parser p f s = (case p s of (None, s') \<Rightarrow> (None, s') | (Some a, s') \<Rightarrow> f a s')"

definition give_up :: "('a, 's) parser" where
  "give_up s = (None, s)"

definition continue :: "'a \<Rightarrow> ('a, 's) parser" where
  "continue a s = (Some a, s)"

datatype url_field =
  F_scheme | F_host | F_port | F_path | F_query | F_fragment | F_username | F_password

definition get_field :: "url_field \<Rightarrow> t_URL_DATA \<Rightarrow> nat option" where
  "get_field f u =
     (case f of F_scheme \<Rightarrow> scheme u | F_host \<Rightarrow> host u | F_port \<Rightarrow> port u | F_path \<Rightarrow> path u
      | F_query \<Rightarrow> query u | F_fragment \<Rightarrow> fragment u | F_username \<Rightarrow> username u | F_password \<Rightarrow> password u)"

definition set_field :: "url_field \<Rightarrow> nat option \<Rightarrow> t_URL_DATA \<Rightarrow> t_URL_DATA" where
  "set_field f p u =
     (case f of F_scheme \<Rightarrow> u\<lparr>scheme := p\<rparr> | F_host \<Rightarrow> u\<lparr>host := p\<rparr> | F_port \<Rightarrow> u\<lparr>port := p\<rparr>
      | F_path \<Rightarrow> u\<lparr>path := p\<rparr> | F_query \<Rightarrow> u\<lparr>query := p\<rparr> | F_fragment \<Rightarrow> u\<lparr>fragment := p\<rparr>
      | F_username \<Rightarrow> u\<lparr>username := p\<rparr> | F_password \<Rightarrow> u\<lparr>password := p\<rparr>)"

text \<open>The state of the code: memory, the address of the storage and its contents.\<close>

record parsing =
  mem :: "url_block dmem"
  purl :: nat
  udata :: t_URL_DATA

text \<open>
  \<open>purl->field = dmem_create (len + 1)\<close>, the NULL check, \<open>strncpy\<close> and the final NUL: the block
  holds the first \<open>len\<close> characters.
\<close>

definition store_str :: "url_block malloc \<Rightarrow> url_field \<Rightarrow> string \<Rightarrow> (unit, parsing) parser" where
  "store_str malloc f str s =
     (let len = len16 str in
      case dmem_create malloc (len + 1) (Str (take len str)) (mem s) of
        (None, m) \<Rightarrow> (None, s\<lparr>mem := m\<rparr>)
      | (Some a, m) \<Rightarrow>
          let u = set_field f (Some a) (udata s) in
          (Some (), s\<lparr>mem := dmem_write (purl s) (Url u) m, udata := u\<rparr>))"

text \<open>Scanning up to a character, or to the end of the text.\<close>

definition until :: "(char \<Rightarrow> bool) \<Rightarrow> string \<Rightarrow> string \<times> string" where
  "until P s = (takeWhile (\<lambda>c. \<not> P c) s, dropWhile (\<lambda>c. \<not> P c) s)"

definition parse_scheme :: "(url_field \<Rightarrow> string \<Rightarrow> (unit, 's) parser) \<Rightarrow> string \<Rightarrow> (string, 's) parser" where
  "parse_scheme store url =
     (let (sch, rest) = until (\<lambda>c. c = CHR '':'') url in
      if rest = [] then give_up
      else if \<not> list_all is_scheme_char (take (len16 sch) sch) then give_up
      else bind_parser (store F_scheme (map tolower sch)) (\<lambda>_. continue (tl rest)))"

definition eat_slashes :: "string \<Rightarrow> (string, 's) parser" where
  "eat_slashes cur =
     (case cur of
        c1 # c2 # rest \<Rightarrow> if c1 = CHR ''/'' \<and> c2 = CHR ''/'' then continue rest else give_up
      | _ \<Rightarrow> give_up)"

definition userpass_flag :: "string \<Rightarrow> bool" where
  "userpass_flag cur =
     (let (_, rest) = until (\<lambda>c. c = CHR ''@'' \<or> c = CHR ''/'') cur in rest \<noteq> [] \<and> hd rest = CHR ''@'')"

definition parse_password :: "(url_field \<Rightarrow> string \<Rightarrow> (unit, 's) parser) \<Rightarrow> string \<Rightarrow> (string, 's) parser" where
  "parse_password store cur =
     (if cur \<noteq> [] \<and> hd cur = CHR '':'' then
        let (pwd, rest) = until (\<lambda>c. c = CHR ''@'') (tl cur) in
        bind_parser (store F_password pwd) (\<lambda>_. continue rest)
      else continue cur)"

definition skip_at :: "string \<Rightarrow> (string, 's) parser" where
  "skip_at cur = (if cur = [] \<or> hd cur \<noteq> CHR ''@'' then give_up else continue (tl cur))"

definition parse_userpass :: "(url_field \<Rightarrow> string \<Rightarrow> (unit, 's) parser) \<Rightarrow> string \<Rightarrow> (string, 's) parser" where
  "parse_userpass store cur =
     (if userpass_flag cur then
        let (user, rest) = until (\<lambda>c. c = CHR '':'' \<or> c = CHR ''@'') cur in
        bind_parser (store F_username user) (\<lambda>_.
        bind_parser (parse_password store rest) skip_at)
      else continue cur)"

text \<open>The host: in brackets up to and with the closing one, else up to a colon or a slash.\<close>

definition host_end :: "string \<Rightarrow> string \<times> string" where
  "host_end cur =
     (if cur \<noteq> [] \<and> hd cur = CHR ''['' then
        let (h, rest) = until (\<lambda>c. c = CHR '']'') cur in
        if rest = [] then (h, []) else (h @ [CHR '']''], tl rest)
      else until (\<lambda>c. c = CHR '':'' \<or> c = CHR ''/'') cur)"

definition parse_host :: "(url_field \<Rightarrow> string \<Rightarrow> (unit, 's) parser) \<Rightarrow> string \<Rightarrow> (string, 's) parser" where
  "parse_host store cur =
     (let (h, rest) = host_end cur in
      bind_parser (store F_host h) (\<lambda>_.
      if len16 h \<le> 0 then give_up else continue rest))"

definition parse_port :: "(url_field \<Rightarrow> string \<Rightarrow> (unit, 's) parser) \<Rightarrow> string \<Rightarrow> (string, 's) parser" where
  "parse_port store cur =
     (if cur \<noteq> [] \<and> hd cur = CHR '':'' then
        let (p, rest) = until (\<lambda>c. c = CHR ''/'') (tl cur) in
        bind_parser (store F_port p) (\<lambda>_. continue rest)
      else continue cur)"

definition parse_path :: "(url_field \<Rightarrow> string \<Rightarrow> (unit, 's) parser) \<Rightarrow> string \<Rightarrow> (string, 's) parser" where
  "parse_path store cur =
     (let (p, rest) = until (\<lambda>c. c = CHR ''#'' \<or> c = CHR ''?'') cur in
      bind_parser (store F_path p) (\<lambda>_. continue rest))"

definition parse_query :: "(url_field \<Rightarrow> string \<Rightarrow> (unit, 's) parser) \<Rightarrow> string \<Rightarrow> (string, 's) parser" where
  "parse_query store cur =
     (if cur \<noteq> [] \<and> hd cur = CHR ''?'' then
        let (q, rest) = until (\<lambda>c. c = CHR ''#'') (tl cur) in
        bind_parser (store F_query q) (\<lambda>_. continue rest)
      else continue cur)"

definition parse_fragment :: "(url_field \<Rightarrow> string \<Rightarrow> (unit, 's) parser) \<Rightarrow> string \<Rightarrow> (unit, 's) parser" where
  "parse_fragment store cur =
     (if cur \<noteq> [] \<and> hd cur = CHR ''#'' then store F_fragment (tl cur) else continue ())"

definition parse_tail :: "(url_field \<Rightarrow> string \<Rightarrow> (unit, 's) parser) \<Rightarrow> string \<Rightarrow> (unit, 's) parser" where
  "parse_tail store cur =
     (if cur = [] then continue ()
      else if hd cur \<noteq> CHR ''/'' then give_up
      else
        bind_parser (parse_path store (tl cur)) (\<lambda>cur.
        bind_parser (parse_query store cur) (\<lambda>cur.
        parse_fragment store cur)))"

definition url_body :: "(url_field \<Rightarrow> string \<Rightarrow> (unit, 's) parser) \<Rightarrow> string \<Rightarrow> (unit, 's) parser" where
  "url_body store url =
     bind_parser (parse_scheme store url) (\<lambda>cur.
     bind_parser (eat_slashes cur) (\<lambda>cur.
     bind_parser (parse_userpass store cur) (\<lambda>cur.
     bind_parser (parse_host store cur) (\<lambda>cur.
     bind_parser (parse_port store cur) (\<lambda>cur.
     parse_tail store cur)))))"

text \<open>\<open>url_parse_free\<close>\<close>

definition fields :: "t_URL_DATA \<Rightarrow> nat option list" where
  "fields u = [scheme u, host u, port u, path u, query u, fragment u, username u, password u]"

definition url_parse_free :: "nat option \<Rightarrow> url_block dmem \<Rightarrow> url_block dmem outcome" where
  "url_parse_free p m =
     (case p of
        None \<Rightarrow> Inr m
      | Some a \<Rightarrow>
          (case blocks m a of
             Some (Url u) \<Rightarrow> seq (release_all (fields u) m) (dmem_release p)
           | _ \<Rightarrow> Inl Bad_Free))"

definition url_parse :: "url_block malloc \<Rightarrow> string \<Rightarrow> url_block dmem \<Rightarrow> (nat option \<times> url_block dmem) outcome" where
  "url_parse malloc url m =
     (case dmem_create malloc 32 (Url zero_url) m of
        (None, m) \<Rightarrow> Inr (None, m)
      | (Some a, m) \<Rightarrow>
          (case url_body (store_str malloc) url \<lparr>mem = m, purl = a, udata = zero_url\<rparr> of
             (Some _, s) \<Rightarrow> Inr (Some a, mem s)
           | (None, s) \<Rightarrow> seq (url_parse_free (Some a) (mem s)) (\<lambda>m. Inr (None, m))))"

section \<open>The specification\<close>

text \<open>The parts of a URL, stored in a table; its parser is the same one with this storage.\<close>

type_synonym url_text = "url_field \<rightharpoonup> string"

definition text_store :: "url_field \<Rightarrow> string \<Rightarrow> (unit, url_text) parser" where
  "text_store f str v = (Some (), v(f \<mapsto> take (len16 str) str))"

definition url_parts :: "string \<Rightarrow> url_text option" where
  "url_parts url = (case url_body text_store url Map.empty of (Some _, v) \<Rightarrow> Some v | (None, _) \<Rightarrow> None)"

text \<open>
  \<open>p\<close> on the storage simulates \<open>q\<close> on the table, from tables without the parts in \<open>F\<close> to
  tables without those in \<open>G\<close>: it gives up when \<open>q\<close> does, and otherwise only if memory runs out.
\<close>

definition sim ::
  "('s \<Rightarrow> url_text \<Rightarrow> bool) \<Rightarrow> bool \<Rightarrow> url_field set \<Rightarrow> ('a, 's) parser \<Rightarrow> ('a, url_text) parser \<Rightarrow>
    url_field set \<Rightarrow> bool" where
  "sim rel grants F p q G \<longleftrightarrow>
     (\<forall>v. F \<inter> dom v = {} \<longrightarrow> (\<forall>a v'. q v = (Some a, v') \<longrightarrow> G \<inter> dom v' = {})) \<and>
     (\<forall>s v. rel s v \<and> F \<inter> dom v = {} \<longrightarrow>
        (case q v of
           (None, _) \<Rightarrow> \<exists>s' v'. p s = (None, s') \<and> rel s' v'
         | (Some a, v') \<Rightarrow> (\<exists>s'. p s = (Some a, s') \<and> rel s' v') \<or>
             \<not> grants \<and> (\<exists>s' v'. p s = (None, s') \<and> rel s' v')))"

lemma sim_post:
  "sim rel grants F p q G \<Longrightarrow> F \<inter> dom v = {} \<Longrightarrow> q v = (Some a, v') \<Longrightarrow> G \<inter> dom v' = {}"
  unfolding sim_def by simp

lemma sim_run:
  "sim rel grants F p q G \<Longrightarrow> rel s v \<Longrightarrow> F \<inter> dom v = {} \<Longrightarrow>
   (case q v of
      (None, _) \<Rightarrow> \<exists>s' v'. p s = (None, s') \<and> rel s' v'
    | (Some a, v') \<Rightarrow> (\<exists>s'. p s = (Some a, s') \<and> rel s' v') \<or>
        \<not> grants \<and> (\<exists>s' v'. p s = (None, s') \<and> rel s' v'))"
  unfolding sim_def by simp

lemma sim_bind:
  assumes p: "sim rel grants F p q G" and f: "\<And>a. sim rel grants G (f a) (g a) H"
  shows "sim rel grants F (bind_parser p f) (bind_parser q g) H"
  unfolding sim_def
proof (intro conjI allI impI)
  fix v a v'
  assume v: "F \<inter> dom v = {}" "bind_parser q g v = (Some a, v')"
  then obtain b w where "q v = (Some b, w)" "g b w = (Some a, v')"
    by (auto simp: bind_parser_def split: prod.splits option.splits)
  then show "H \<inter> dom v' = {}" using sim_post [OF f sim_post [OF p v(1)]] by blast
next
  fix s v
  assume s: "rel s v \<and> F \<inter> dom v = {}"
  show "case bind_parser q g v of
      (None, _) \<Rightarrow> \<exists>s' v'. bind_parser p f s = (None, s') \<and> rel s' v'
    | (Some a, v') \<Rightarrow> (\<exists>s'. bind_parser p f s = (Some a, s') \<and> rel s' v') \<or>
        \<not> grants \<and> (\<exists>s' v'. bind_parser p f s = (None, s') \<and> rel s' v')"
  proof (cases "q v")
    case (Pair r w)
    show ?thesis
    proof (cases r)
      case None
      with Pair s sim_run [OF p, of s v] have "\<exists>s' v'. p s = (None, s') \<and> rel s' v'" by simp
      with None Pair show ?thesis by (auto simp: bind_parser_def)
    next
      case (Some b)
      with Pair s sim_post [OF p, of v b w] sim_run [OF p, of s v] have w: "G \<inter> dom w = {}"
        and d: "(\<exists>s'. p s = (Some b, s') \<and> rel s' w) \<or> \<not> grants \<and> (\<exists>s' v'. p s = (None, s') \<and> rel s' v')"
        by simp_all
      have g: "bind_parser q g v = g b w" using Some Pair by (simp add: bind_parser_def)
      from d show ?thesis
      proof
        assume "\<exists>s'. p s = (Some b, s') \<and> rel s' w"
        then obtain s' where s': "p s = (Some b, s')" "rel s' w" by blast
        have b: "bind_parser p f s = f b s'" using s'(1) by (simp add: bind_parser_def)
        show ?thesis using sim_run [OF f s'(2) w, of b] unfolding g b .
      next
        assume "\<not> grants \<and> (\<exists>s' v'. p s = (None, s') \<and> rel s' v')"
        then show ?thesis by (auto simp: bind_parser_def split: prod.splits option.splits)
      qed
    qed
  qed
qed

lemma sim_continue: "G \<subseteq> F \<Longrightarrow> sim rel grants F (continue a) (continue a) G"
  by (auto simp: sim_def continue_def)

lemma sim_give_up: "sim rel grants F give_up give_up G"
  by (auto simp: sim_def give_up_def)

lemma sim_weaken: "sim rel grants F p q G \<Longrightarrow> F \<subseteq> F' \<Longrightarrow> G' \<subseteq> G \<Longrightarrow> sim rel grants F' p q G'"
proof -
  assume sim: "sim rel grants F p q G" and sub: "F \<subseteq> F'" "G' \<subseteq> G"
  have d: "F \<inter> dom v = {}" if "F' \<inter> dom v = {}" for v :: url_text using that sub(1) by blast
  show ?thesis
    unfolding sim_def [of rel grants F']
  proof (intro conjI allI impI)
    fix v a v' assume "F' \<inter> dom v = {}" "q v = (Some a, v')"
    then have "G \<inter> dom v' = {}" using sim_post [OF sim d] by blast
    with sub(2) show "G' \<inter> dom v' = {}" by blast
  qed (rule sim_run [OF sim _ d]; simp)
qed

lemma sim_if: "sim rel grants F p q G \<Longrightarrow> sim rel grants F p' q' G \<Longrightarrow>
    sim rel grants F (if b then p else p') (if b then q else q') G"
  by simp

text \<open>
  The contract of a storage: it keeps what is stored, and fails only if memory is not granted.
\<close>

locale url_storage =
  fixes store :: "url_field \<Rightarrow> string \<Rightarrow> (unit, 's) parser"
    and rel :: "'s \<Rightarrow> url_text \<Rightarrow> bool" and grants :: bool
  assumes stores: "rel s v \<Longrightarrow> v f = None \<Longrightarrow>
      (\<exists>s'. store f str s = (Some (), s') \<and> rel s' (v(f \<mapsto> take (len16 str) str))) \<or>
      \<not> grants \<and> (\<exists>s'. store f str s = (None, s') \<and> rel s' v)"
begin

lemma sim_store: "f \<in> F \<Longrightarrow> sim rel grants F (store f str) (text_store f str) (F - {f})"
  unfolding sim_def
proof (intro conjI allI impI)
  fix s v assume f: "f \<in> F" and r: "rel s v \<and> F \<inter> dom v = {}"
  then have "v f = None" by blast
  with r stores [of s v f str] show "case text_store f str v of
      (None, _) \<Rightarrow> \<exists>s' v'. store f str s = (None, s') \<and> rel s' v'
    | (Some a, v') \<Rightarrow> (\<exists>s'. store f str s = (Some a, s') \<and> rel s' v') \<or>
        \<not> grants \<and> (\<exists>s' v'. store f str s = (None, s') \<and> rel s' v')"
    unfolding text_store_def by auto
qed (auto simp: text_store_def)

lemma sim_scheme: "sim rel grants UNIV (parse_scheme store url) (parse_scheme text_store url) (- {F_scheme})"
  unfolding parse_scheme_def split_beta Let_def
  by (intro sim_if sim_give_up sim_bind [OF sim_store] sim_continue) auto

lemma sim_slashes: "sim rel grants F (eat_slashes cur) (eat_slashes cur) F"
  unfolding eat_slashes_def by (auto split: list.splits intro: sim_continue sim_give_up)

lemma sim_password:
  "F_password \<in> F \<Longrightarrow> sim rel grants F (parse_password store cur) (parse_password text_store cur) (F - {F_password})"
  unfolding parse_password_def split_beta Let_def
  by (intro sim_if sim_bind [OF sim_store] sim_continue) auto

lemma sim_userpass:
  "sim rel grants (- {F_scheme}) (parse_userpass store cur) (parse_userpass text_store cur)
     (- {F_scheme, F_username, F_password})"
proof -
  have at: "sim rel grants F (skip_at c) (skip_at c) F" for F c
    unfolding skip_at_def by (intro sim_if sim_give_up sim_continue) auto
  have "sim rel grants (- {F_scheme} - {F_username}) (bind_parser (parse_password store r) skip_at)
      (bind_parser (parse_password text_store r) skip_at) (- {F_scheme, F_username, F_password})" for r
    by (rule sim_weaken [OF sim_bind [OF sim_password [of "- {F_scheme} - {F_username}"] at]]) auto
  then show ?thesis unfolding parse_userpass_def split_beta Let_def
    by (intro sim_if sim_bind [OF sim_store] sim_continue) auto
qed

lemma sim_host:
  "F_host \<in> F \<Longrightarrow> sim rel grants F (parse_host store cur) (parse_host text_store cur) (F - {F_host})"
  unfolding parse_host_def split_beta Let_def
  by (intro sim_bind [OF sim_store] sim_if sim_give_up sim_continue) auto

lemma sim_port:
  "F_port \<in> F \<Longrightarrow> sim rel grants F (parse_port store cur) (parse_port text_store cur) (F - {F_port})"
  unfolding parse_port_def split_beta Let_def
  by (intro sim_if sim_bind [OF sim_store] sim_continue) auto

lemma sim_tail:
  assumes "{F_path, F_query, F_fragment} \<subseteq> F"
  shows "sim rel grants F (parse_tail store cur) (parse_tail text_store cur) {}"
proof -
  have p: "sim rel grants F (parse_path store c) (parse_path text_store c) (F - {F_path})" for c
    unfolding parse_path_def split_beta Let_def using assms
    by (intro sim_bind [OF sim_store] sim_continue) auto
  have q: "sim rel grants (F - {F_path}) (parse_query store c) (parse_query text_store c) (F - {F_path} - {F_query})" for c
    unfolding parse_query_def split_beta Let_def using assms
    by (intro sim_if sim_bind [OF sim_store] sim_continue) auto
  have f: "sim rel grants (F - {F_path} - {F_query}) (parse_fragment store c) (parse_fragment text_store c) {}" for c
    unfolding parse_fragment_def using assms
    by (intro sim_if sim_continue sim_weaken [OF sim_store order_refl]) auto
  show ?thesis unfolding parse_tail_def
    by (intro sim_if sim_give_up sim_continue sim_bind [OF p] sim_bind [OF q] f) auto
qed

lemma sim_body: "sim rel grants UNIV (url_body store url) (url_body text_store url) {}"
  unfolding url_body_def
  by (intro sim_bind [OF sim_scheme] sim_bind [OF sim_slashes] sim_bind [OF sim_userpass]
      sim_bind [OF sim_host] sim_bind [OF sim_port] sim_tail) auto

text \<open>The parser on this storage, from the empty table.\<close>

lemma body_result:
  assumes "rel s Map.empty"
  shows "(\<exists>s' v. url_body store url s = (Some (), s') \<and> rel s' v \<and> url_parts url = Some v) \<or>
    (\<exists>s' v. url_body store url s = (None, s') \<and> rel s' v \<and> (grants \<longrightarrow> url_parts url = None))"
proof -
  obtain r w where q: "url_body text_store url Map.empty = (r, w)" by fastforce
  from sim_body [of url] assms have "case url_body text_store url Map.empty of
      (None, _) \<Rightarrow> \<exists>s' v'. url_body store url s = (None, s') \<and> rel s' v'
    | (Some a, v') \<Rightarrow> (\<exists>s'. url_body store url s = (Some a, s') \<and> rel s' v') \<or>
        \<not> grants \<and> (\<exists>s' v'. url_body store url s = (None, s') \<and> rel s' v')"
    unfolding sim_def by simp
  then show ?thesis by (cases r) (auto simp: url_parts_def q)
qed

end

section \<open>Storage in memory\<close>

definition field_order :: "url_field list" where
  "field_order = [F_scheme, F_host, F_port, F_path, F_query, F_fragment, F_username, F_password]"

lemma fields_map: "fields u = map (\<lambda>f. get_field f u) field_order"
  by (simp add: fields_def field_order_def get_field_def)

lemma field_order_all: "set field_order = UNIV" "distinct field_order"
proof -
  have "f \<in> set field_order" for f by (cases f) (simp_all add: field_order_def)
  then show "set field_order = UNIV" by blast
qed (simp add: field_order_def)

lemma get_set_field: "get_field g (set_field f p u) = (if g = f then p else get_field g u)"
  by (cases f; cases g) (simp_all add: get_field_def set_field_def)

lemma get_zero [simp]: "get_field f zero_url = None"
  by (cases f) (simp_all add: get_field_def zero_url_def)

lemma set_addrs: "set (addrs (fields u)) = {a. \<exists>f. get_field f u = Some a}"
  unfolding fields_map addrs_def using field_order_all(1) by force

lemma distinct_addrs_map:
  "distinct fs \<Longrightarrow> (\<And>f g a. h f = Some a \<Longrightarrow> h g = Some a \<Longrightarrow> f = g) \<Longrightarrow> distinct (addrs (map h fs))"
proof (induction fs)
  case (Cons f fs)
  show ?case
  proof (cases "h f")
    case (Some a)
    have "a \<notin> set (addrs (map h fs))"
    proof
      assume "a \<in> set (addrs (map h fs))"
      then obtain g where g: "g \<in> set fs" "h g = Some a" by (auto simp: addrs_def)
      have "f = g" by (rule Cons.prems(2) [OF Some g(2)])
      with g(1) Cons.prems(1) show False by simp
    qed
    with Some Cons show ?thesis by simp
  qed (use Cons in simp)
qed simp

lemma length_addrs_upd:
  "distinct fs \<Longrightarrow> f \<in> set fs \<Longrightarrow> h f = None \<Longrightarrow>
     length (addrs (map (\<lambda>g. if g = f then Some a else h g) fs)) = Suc (length (addrs (map h fs)))"
proof (induction fs)
  case (Cons g fs)
  show ?case
  proof (cases "g = f")
    case True
    then have "map (\<lambda>g. if g = f then Some a else h g) fs = map h fs" using Cons.prems(1) by auto
    then have "length (addrs (map (\<lambda>g. if g = f then Some a else h g) fs)) = length (addrs (map h fs))" by (simp only:)
    with True Cons.prems(3) show ?thesis by (simp del: map_eq_conv)
  next
    case False
    with Cons show ?thesis by (cases "h g") simp_all
  qed
qed simp

text \<open>The strings a URL in memory consists of.\<close>

definition str_at :: "url_block dmem \<Rightarrow> nat option \<Rightarrow> string option" where
  "str_at m p = (case p of None \<Rightarrow> None
     | Some a \<Rightarrow> (case blocks m a of Some (Str t) \<Rightarrow> Some t | _ \<Rightarrow> None))"

text \<open>
  The storage holds the table: all its blocks are new and different, what was there before is
  untouched, and the counters have seen every block.
\<close>

definition mem_rel :: "url_block malloc \<Rightarrow> url_block dmem \<Rightarrow> parsing \<Rightarrow> url_text \<Rightarrow> bool" where
  "mem_rel malloc m0 s v \<longleftrightarrow>
     malloc_ok malloc \<and>
     (\<forall>f g a. get_field f (udata s) = Some a \<longrightarrow> get_field g (udata s) = Some a \<longrightarrow> f = g) \<and>
     (\<forall>f. get_field f (udata s) \<noteq> Some (purl s)) \<and>
     blocks m0 (purl s) = None \<and> (\<forall>f a. get_field f (udata s) = Some a \<longrightarrow> blocks m0 a = None) \<and>
     (\<forall>a. a \<noteq> purl s \<longrightarrow> (\<forall>f. get_field f (udata s) \<noteq> Some a) \<longrightarrow> blocks (mem s) a = blocks m0 a) \<and>
     blocks (mem s) (purl s) = Some (Url (udata s)) \<and>
     (\<forall>f. v f = str_at (mem s) (get_field f (udata s))) \<and>
     (\<forall>f. v f = None \<longrightarrow> get_field f (udata s) = None) \<and>
     aaa (mem s) = aaa m0 + 1 + int (length (addrs (fields (udata s)))) \<and> fff (mem s) = fff m0"

lemma mem_relD:
  assumes "mem_rel malloc m0 s v"
  shows "malloc_ok malloc" "get_field f (udata s) = Some a \<Longrightarrow> get_field g (udata s) = Some a \<Longrightarrow> f = g"
    "get_field f (udata s) \<noteq> Some (purl s)" "blocks m0 (purl s) = None"
    "get_field f (udata s) = Some a \<Longrightarrow> blocks m0 a = None"
    "a \<noteq> purl s \<Longrightarrow> (\<And>f. get_field f (udata s) \<noteq> Some a) \<Longrightarrow> blocks (mem s) a = blocks m0 a"
    "blocks (mem s) (purl s) = Some (Url (udata s))" "v f = str_at (mem s) (get_field f (udata s))"
    "v f = None \<Longrightarrow> get_field f (udata s) = None"
    "aaa (mem s) = aaa m0 + 1 + int (length (addrs (fields (udata s))))" "fff (mem s) = fff m0"
  using assms unfolding mem_rel_def by blast+

text \<open>Memory suffices if \<open>malloc\<close> grants nine blocks on top of those in use.\<close>

definition enough :: "url_block malloc \<Rightarrow> url_block dmem \<Rightarrow> bool" where
  "enough malloc m0 \<longleftrightarrow> finite (dom (blocks m0)) \<and>
     (\<forall>h n. finite (dom h) \<and> card (dom h) \<le> card (dom (blocks m0)) + 8 \<longrightarrow> malloc h n \<noteq> None)"

lemma length_addrs: "length (addrs ps) \<le> length ps"
  by (simp add: addrs_def)

lemma mem_rel_size:
  assumes r: "mem_rel malloc m0 s v" and f: "get_field f (udata s) = None" and fin: "finite (dom (blocks m0))"
  shows "finite (dom (blocks (mem s))) \<and> card (dom (blocks (mem s))) \<le> card (dom (blocks m0)) + 8"
proof -
  let ?as = "addrs (fields (udata s))"
  have fo: "f \<in> set field_order" by (simp add: field_order_all(1))
  have "Suc (length ?as) = length (addrs (map (\<lambda>g. if g = f then Some 0 else get_field g (udata s)) field_order))"
    unfolding fields_map using f
    by (intro length_addrs_upd [OF field_order_all(2) fo, symmetric])
  also have "\<dots> \<le> length field_order"
    using length_addrs [of "map (\<lambda>g. if g = f then Some 0 else get_field g (udata s)) field_order"] by simp
  finally have "Suc (length ?as) \<le> length field_order" .
  then have l: "length ?as \<le> 7" by (simp add: field_order_def)
  have sub: "dom (blocks (mem s)) \<subseteq> dom (blocks m0) \<union> insert (purl s) (set ?as)"
  proof
    fix a assume a: "a \<in> dom (blocks (mem s))"
    show "a \<in> dom (blocks m0) \<union> insert (purl s) (set ?as)"
    proof (rule ccontr)
      assume n: "a \<notin> dom (blocks m0) \<union> insert (purl s) (set ?as)"
      then have "blocks (mem s) a = blocks m0 a" by (intro mem_relD(6) [OF r]) (auto simp: set_addrs)
      with a n show False by (simp add: domIff)
    qed
  qed
  have fin': "finite (dom (blocks m0) \<union> insert (purl s) (set ?as))" using fin by simp
  have "card (insert (purl s) (set ?as)) \<le> 8"
    using card_insert_le_m1 [of 8 "set ?as" "purl s"] card_length [of ?as] l by simp
  then have "card (dom (blocks m0) \<union> insert (purl s) (set ?as)) \<le> card (dom (blocks m0)) + 8"
    using card_Un_le [of "dom (blocks m0)" "insert (purl s) (set ?as)"] by simp
  with sub fin' show ?thesis by (meson card_mono finite_subset order_trans)
qed

lemma mem_rel_store:
  assumes r: "mem_rel malloc m0 s v" and f: "v f = None"
  shows "(\<exists>s'. store_str malloc f str s = (Some (), s') \<and> mem_rel malloc m0 s' (v(f \<mapsto> take (len16 str) str))) \<or>
    \<not> enough malloc m0 \<and> (\<exists>s'. store_str malloc f str s = (None, s') \<and> mem_rel malloc m0 s' v)"
proof (cases "malloc (blocks (mem s)) (len16 str + 1)")
  case None
  then have "store_str malloc f str s = (None, s)"
    by (simp add: store_str_def dmem_create_def Let_def)
  moreover have "\<not> enough malloc m0"
  proof
    assume e: "enough malloc m0"
    then have "finite (dom (blocks m0))" by (simp add: enough_def)
    from mem_rel_size [OF r mem_relD(9) [OF r f] this] e None show False unfolding enough_def by blast
  qed
  ultimately show ?thesis using r by blast
next
  case (Some a)
  let ?u = "set_field f (Some a) (udata s)" and ?t = "take (len16 str) str"
  let ?m = "(mem s)\<lparr>blocks := (blocks (mem s))(a \<mapsto> Str ?t, purl s \<mapsto> Url ?u), aaa := aaa (mem s) + 1\<rparr>"
  have new: "blocks (mem s) a = None" using r Some by (auto simp: mem_rel_def malloc_ok_def)
  have st: "store_str malloc f str s = (Some (), s\<lparr>mem := ?m, udata := ?u\<rparr>)"
    using Some by (simp add: store_str_def dmem_create_def dmem_write_def Let_def)
  have old: "get_field f (udata s) = None" using mem_relD(9) [OF r f] .
  have a: "a \<noteq> purl s" "blocks m0 a = None" "get_field g (udata s) \<noteq> Some a" for g
  proof -
    show p: "a \<noteq> purl s" using mem_relD(7) [OF r] new by auto
    show g: "get_field g (udata s) \<noteq> Some a" for g
    proof
      assume g: "get_field g (udata s) = Some a"
      then have "v g = None" using mem_relD(8) [OF r, of g] new by (simp add: str_at_def)
      then show False using mem_relD(9) [OF r] g by simp
    qed
    then show "blocks m0 a = None" using mem_relD(6) [OF r p] new by simp
  qed
  have len: "length (addrs (fields ?u)) = Suc (length (addrs (fields (udata s))))"
    unfolding fields_map get_set_field
    using length_addrs_upd [OF field_order_all(2), of f "\<lambda>g. get_field g (udata s)"] old field_order_all(1) by simp
  have str: "str_at ?m (get_field g (udata s)) = str_at (mem s) (get_field g (udata s))" for g
    using mem_relD(3) [OF r, of g] a(3) [of g] by (cases "get_field g (udata s)") (simp_all add: str_at_def)
  let ?s = "s\<lparr>mem := ?m, udata := ?u\<rparr>"
  have v: "(v(f \<mapsto> ?t)) g = str_at (mem ?s) (get_field g (udata ?s))" for g
  proof (cases "g = f")
    case True
    then show ?thesis using a(1) by (simp add: get_set_field str_at_def)
  next
    case False
    then show ?thesis using mem_relD(8) [OF r, of g] str [of g] by (simp add: get_set_field)
  qed
  have "mem_rel malloc m0 ?s (v(f \<mapsto> ?t))"
    unfolding mem_rel_def
  proof (intro conjI allI impI)
    show "malloc_ok malloc" by (rule mem_relD(1) [OF r])
    fix g g' c
    show "get_field g (udata ?s) = Some c \<Longrightarrow> get_field g' (udata ?s) = Some c \<Longrightarrow> g = g'"
      using mem_relD(2) [OF r, of g c g'] a(3) by (auto simp: get_set_field split: if_splits)
    show "get_field g (udata ?s) \<noteq> Some (purl ?s)" using mem_relD(3) [OF r] a(1) by (simp add: get_set_field)
    show "blocks m0 (purl ?s) = None" using mem_relD(4) [OF r] by simp
    show "get_field g (udata ?s) = Some c \<Longrightarrow> blocks m0 c = None"
      using mem_relD(5) [OF r, of g c] a(2) by (auto simp: get_set_field split: if_splits)
    show "c \<noteq> purl ?s \<Longrightarrow> \<forall>f. get_field f (udata ?s) \<noteq> Some c \<Longrightarrow> blocks (mem ?s) c = blocks m0 c"
    proof -
      assume c: "c \<noteq> purl ?s" "\<forall>f. get_field f (udata ?s) \<noteq> Some c"
      have "get_field h (udata s) \<noteq> Some c" for h
        using c(2) [rule_format, of h] old by (cases "h = f") (simp_all add: get_set_field)
      then have "blocks (mem s) c = blocks m0 c" using c(1) by (intro mem_relD(6) [OF r]) simp_all
      moreover have "c \<noteq> a" using c(2) [rule_format, of f] by (simp add: get_set_field)
      ultimately show ?thesis using c(1) by simp
    qed
    show "blocks (mem ?s) (purl ?s) = Some (Url (udata ?s))" by simp
    show "(v(f \<mapsto> ?t)) g = str_at (mem ?s) (get_field g (udata ?s))" by (rule v)
    show "(v(f \<mapsto> ?t)) g = None \<Longrightarrow> get_field g (udata ?s) = None"
      using mem_relD(9) [OF r, of g] by (simp add: get_set_field split: if_splits)
    show "aaa (mem ?s) = aaa m0 + 1 + int (length (addrs (fields (udata ?s))))"
      using mem_relD(10) [OF r] len by simp
    show "fff (mem ?s) = fff m0" using mem_relD(11) [OF r] by simp
  qed
  then show ?thesis using st by blast
qed

lemma store_str_purl: "store_str malloc f str s = (r, s') \<Longrightarrow> purl s' = purl s"
  by (auto simp: store_str_def Let_def split: prod.splits option.splits)

interpretation url_mem: url_storage "store_str malloc" "\<lambda>s v. mem_rel malloc m0 s v \<and> purl s = p" "enough malloc m0"
proof (unfold_locales, elim conjE)
  fix s v f str
  assume r: "mem_rel malloc m0 s v" "v f = None" and p: "purl s = p"
  show "(\<exists>s'. store_str malloc f str s = (Some (), s') \<and>
        mem_rel malloc m0 s' (v(f \<mapsto> take (len16 str) str)) \<and> purl s' = p) \<or>
      \<not> enough malloc m0 \<and> (\<exists>s'. store_str malloc f str s = (None, s') \<and> mem_rel malloc m0 s' v \<and> purl s' = p)"
    using mem_rel_store [OF r, of str] store_str_purl p by metis
qed

lemma mem_rel_start:
  assumes "malloc_ok malloc" "dmem_create malloc 32 (Url zero_url) m = (Some a, m')"
  shows "mem_rel malloc m \<lparr>mem = m', purl = a, udata = zero_url\<rparr> Map.empty"
proof -
  have "addrs (fields zero_url) = []" by (simp add: fields_def zero_url_def)
  with assms show ?thesis
    by (auto simp: dmem_create_def mem_rel_def malloc_ok_def str_at_def split: option.splits)
qed

text \<open>Releasing a URL gives back exactly its blocks.\<close>

lemma mem_rel_free:
  assumes "mem_rel malloc m0 s v"
  shows "\<exists>m. url_parse_free (Some (purl s)) (mem s) = Inr m \<and> blocks m = blocks m0 \<and> live m = live m0"
proof -
  let ?as = "addrs (fields (udata s))"
  have set: "set ?as = {a. \<exists>f. get_field f (udata s) = Some a}" by (rule set_addrs)
  have d: "distinct ?as" unfolding fields_map
    by (intro distinct_addrs_map field_order_all) (rule mem_relD(2) [OF assms])
  have sub: "set ?as \<subseteq> dom (blocks (mem s))"
  proof
    fix a assume "a \<in> set ?as"
    then obtain f where f: "get_field f (udata s) = Some a" using set by blast
    with mem_relD(8,9) [OF assms, of f] have "str_at (mem s) (Some a) \<noteq> None" by auto
    then show "a \<in> dom (blocks (mem s))" by (auto simp: str_at_def split: option.splits)
  qed
  let ?m = "(mem s)\<lparr>fff := fff (mem s) + int (length ?as), blocks := blocks (mem s) |` (- set ?as)\<rparr>"
  have p: "purl s \<notin> set ?as" "blocks (mem s) (purl s) = Some (Url (udata s))"
    using mem_relD(3,7) [OF assms] set by auto
  then have b: "blocks ?m (purl s) \<noteq> None" by simp
  have "url_parse_free (Some (purl s)) (mem s) =
      Inr (?m\<lparr>fff := fff ?m + 1, blocks := (blocks ?m)(purl s := None)\<rparr>)"
    using p release_all_spec [OF d sub] dmem_release_Some [OF b] by (simp add: url_parse_free_def)
  moreover have "(blocks ?m)(purl s := None) = blocks m0"
  proof
    fix a show "((blocks ?m)(purl s := None)) a = blocks m0 a"
    proof (cases "a = purl s \<or> a \<in> set ?as")
      case True
      then show ?thesis using mem_relD(4,5) [OF assms] set by (auto simp: restrict_map_def)
    next
      case False
      then show ?thesis using mem_relD(6) [OF assms, of a] set by (auto simp: restrict_map_def)
    qed
  qed
  moreover have "live (?m\<lparr>fff := fff ?m + 1, blocks := (blocks ?m)(purl s := None)\<rparr>) = live m0"
    using mem_relD(10,11) [OF assms] by (simp add: live_def)
  ultimately show ?thesis by simp
qed

text \<open>The strings of the URL at an address.\<close>

definition url_at :: "url_block dmem \<Rightarrow> nat \<Rightarrow> url_text" where
  "url_at m p f = (case blocks m p of Some (Url u) \<Rightarrow> str_at m (get_field f u) | _ \<Rightarrow> None)"

lemma mem_rel_url_at: "mem_rel malloc m0 s v \<Longrightarrow> url_at (mem s) (purl s) = v"
  by (rule ext) (simp add: mem_relD(7,8) url_at_def)

lemma mem_rel_old: "mem_rel malloc m0 s v \<Longrightarrow> blocks m0 a \<noteq> None \<Longrightarrow> blocks (mem s) a = blocks m0 a"
  using mem_relD(4,5,6) by metis

section \<open>Writing a URL\<close>

definition opt_part :: "string \<Rightarrow> string option \<Rightarrow> string" where
  "opt_part pre p = (case p of None \<Rightarrow> [] | Some t \<Rightarrow> pre @ t)"

definition render_url :: "url_text \<Rightarrow> string" where
  "render_url v =
     the (v F_scheme) @ ''://''
     @ (case v F_username of None \<Rightarrow> [] | Some u \<Rightarrow> u @ opt_part '':'' (v F_password) @ ''@'')
     @ the (v F_host) @ opt_part '':'' (v F_port)
     @ (case v F_path of None \<Rightarrow> []
        | Some p \<Rightarrow> ''/'' @ p @ opt_part ''?'' (v F_query) @ opt_part ''#'' (v F_fragment))"

definition without :: "string \<Rightarrow> string \<Rightarrow> bool" where
  "without cs t \<longleftrightarrow> list_all (\<lambda>c. c \<notin> set cs) t \<and> length t < 2 ^ 16"

definition opt_without :: "string \<Rightarrow> string option \<Rightarrow> bool" where
  "opt_without cs p \<longleftrightarrow> (case p of None \<Rightarrow> True | Some t \<Rightarrow> without cs t)"

text \<open>
  The parts of a URL that can be written and read back: a lower case scheme, a host that is a
  name or an address in brackets, a password only with a user, a query and a fragment only
  with a path.
\<close>

definition host_ok :: "string \<Rightarrow> bool" where
  "host_ok h \<longleftrightarrow> h \<noteq> [] \<and> length h < 2 ^ 16 \<and>
     (if hd h = CHR ''['' then last h = CHR '']'' \<and> list_all (\<lambda>c. c \<notin> set '']@/'') (butlast h)
      else list_all (\<lambda>c. c \<notin> set '':@/'') h)"

definition url_ok :: "url_text \<Rightarrow> bool" where
  "url_ok v \<longleftrightarrow>
     v F_scheme \<noteq> None \<and> length (the (v F_scheme)) < 2 ^ 16 \<and>
     list_all (\<lambda>c. is_scheme_char c \<and> tolower c = c) (the (v F_scheme)) \<and>
     opt_without '':@/'' (v F_username) \<and> opt_without ''@/'' (v F_password) \<and>
     (v F_password \<noteq> None \<longrightarrow> v F_username \<noteq> None) \<and>
     v F_host \<noteq> None \<and> host_ok (the (v F_host)) \<and> opt_without ''@/'' (v F_port) \<and>
     opt_without ''#?'' (v F_path) \<and> opt_without ''#'' (v F_query) \<and> opt_without [] (v F_fragment) \<and>
     (v F_path = None \<longrightarrow> v F_query = None \<and> v F_fragment = None)"

lemma len16_id: "length t < 2 ^ 16 \<Longrightarrow> len16 t = length t"
  unfolding len16_def by (rule of_nat_inverse [OF refl]) simp

lemma text_store_id: "length t < 2 ^ 16 \<Longrightarrow> text_store f t v = (Some (), v(f \<mapsto> t))"
  by (simp add: text_store_def len16_id)

lemma bind_parser_Some [simp]: "p v = (Some a, v') \<Longrightarrow> bind_parser p f v = f a v'"
  by (simp add: bind_parser_def)

lemma continue_eq [simp]: "continue a v = (Some a, v)"
  by (simp add: continue_def)

lemma until_found: "list_all (\<lambda>c. \<not> P c) t \<Longrightarrow> P c \<Longrightarrow> until P (t @ c # r) = (t, c # r)"
  by (simp add: until_def list_all_iff takeWhile_append2 dropWhile_append2)

lemma until_all: "list_all (\<lambda>c. \<not> P c) t \<Longrightarrow> until P t = (t, [])"
  by (simp add: until_def list_all_iff takeWhile_eq_all_conv dropWhile_eq_Nil_conv)

text \<open>A part that ends where the rest is empty or starts with a stop character.\<close>

lemma until_rest:
  "list_all (\<lambda>c. \<not> P c) t \<Longrightarrow> r = [] \<or> P (hd r) \<Longrightarrow> until P (t @ r) = (t, r)"
  using until_all [of P t] until_found [of P t "hd r" "tl r"] by (cases r) auto

lemma scheme_not_colon: "is_scheme_char c \<Longrightarrow> c \<noteq> CHR '':''"
  by (auto simp: is_scheme_char_def isalpha_def)

lemma parse_scheme_written:
  assumes "list_all (\<lambda>c. is_scheme_char c \<and> tolower c = c) t" "length t < 2 ^ 16"
  shows "parse_scheme text_store (t @ CHR '':'' # r) v = (Some r, v(F_scheme \<mapsto> t))"
proof -
  have u: "until (\<lambda>c. c = CHR '':'') (t @ CHR '':'' # r) = (t, CHR '':'' # r)"
    using assms(1) scheme_not_colon by (intro until_found) (auto simp: list_all_iff)
  have "map tolower t = t" using assms(1) by (simp add: list_all_iff map_idI)
  moreover have "list_all is_scheme_char t" using assms(1) by (simp add: list_all_iff)
  ultimately show ?thesis
    by (simp add: parse_scheme_def u len16_id [OF assms(2)] text_store_id [OF assms(2)])
qed

lemma parse_password_written:
  assumes "opt_without ''@/'' p"
  shows "parse_password text_store (opt_part '':'' p @ CHR ''@'' # r) v =
    (Some (CHR ''@'' # r), if p = None then v else v(F_password := p))"
proof (cases p)
  case (Some t)
  have u: "until (\<lambda>c. c = CHR ''@'') (t @ CHR ''@'' # r) = (t, CHR ''@'' # r)"
    using assms Some by (intro until_found) (auto simp: opt_without_def without_def list_all_iff)
  show ?thesis using assms Some
    by (simp add: parse_password_def opt_part_def u text_store_id opt_without_def without_def)
qed (simp add: parse_password_def opt_part_def)

lemma set_upd_same: "v f = None \<Longrightarrow> p \<noteq> None \<Longrightarrow> v(f := p) = v(f \<mapsto> the p)"
  by auto

text \<open>No user: the first \<open>@\<close> or slash, if any, is a slash.\<close>

lemma no_userpass:
  "list_all (\<lambda>c. c \<noteq> CHR ''@'' \<and> c \<noteq> CHR ''/'') t \<Longrightarrow> r = [] \<or> hd r = CHR ''/'' \<Longrightarrow> \<not> userpass_flag (t @ r)"
proof -
  assume "list_all (\<lambda>c. c \<noteq> CHR ''@'' \<and> c \<noteq> CHR ''/'') t" and r: "r = [] \<or> hd r = CHR ''/''"
  then have "until (\<lambda>c. c = CHR ''@'' \<or> c = CHR ''/'') (t @ r) = (t, r)" by (intro until_rest) auto
  with r show ?thesis by (auto simp: userpass_flag_def)
qed

lemma userpass_written:
  assumes "without '':@/'' u" "opt_without ''@/'' p"
  shows "parse_userpass text_store (u @ opt_part '':'' p @ CHR ''@'' # r) v =
    (Some r, if p = None then v(F_username \<mapsto> u) else v(F_username \<mapsto> u, F_password := p))"
proof -
  let ?up = "u @ opt_part '':'' p"
  have "list_all (\<lambda>c. \<not> (c = CHR ''@'' \<or> c = CHR ''/'')) ?up"
    using assms by (auto simp: without_def opt_without_def opt_part_def list_all_iff split: option.splits)
  then have "until (\<lambda>c. c = CHR ''@'' \<or> c = CHR ''/'') (?up @ CHR ''@'' # r) = (?up, CHR ''@'' # r)"
    by (intro until_found) simp_all
  then have flag: "userpass_flag (?up @ CHR ''@'' # r)" by (simp add: userpass_flag_def)
  have "list_all (\<lambda>c. \<not> (c = CHR '':'' \<or> c = CHR ''@'')) u" using assms(1) by (simp add: without_def list_all_iff)
  then have user: "until (\<lambda>c. c = CHR '':'' \<or> c = CHR ''@'') (u @ opt_part '':'' p @ CHR ''@'' # r) =
      (u, opt_part '':'' p @ CHR ''@'' # r)"
    by (intro until_rest) (auto simp: opt_part_def split: option.split)
  have st: "text_store F_username u v = (Some (), v(F_username \<mapsto> u))"
    using assms(1) by (simp add: text_store_id without_def)
  note pw = parse_password_written [OF assms(2), of r "v(F_username \<mapsto> u)"]
  show ?thesis using flag pw by (simp add: parse_userpass_def user st skip_at_def)
qed

lemma host_end_written:
  assumes "host_ok h" "r = [] \<or> hd r = CHR '':'' \<or> hd r = CHR ''/''"
  shows "host_end (h @ r) = (h, r)"
proof (cases "hd h = CHR ''[''")
  case True
  from assms(1) True have l: "last h = CHR '']''" "list_all (\<lambda>c. c \<notin> set '']@/'') (butlast h)" "h \<noteq> []"
    by (simp_all add: host_ok_def)
  define b where "b = butlast h"
  have h: "h = b @ [CHR '']'']" using l(1,3) unfolding b_def by (metis append_butlast_last_id)
  have "until (\<lambda>c. c = CHR '']'') (b @ CHR '']'' # r) = (b, CHR '']'' # r)"
    using l(2) by (intro until_found) (auto simp: b_def list_all_iff)
  moreover have "hd (h @ r) = CHR ''[''" using True l(3) by simp
  ultimately show ?thesis by (simp add: host_end_def h)
next
  case False
  with assms(1) have "h \<noteq> []" "list_all (\<lambda>c. \<not> (c = CHR '':'' \<or> c = CHR ''/'')) h"
    by (auto simp: host_ok_def list_all_iff)
  with until_rest [OF this(2), of r] assms(2) False show ?thesis by (simp add: host_end_def)
qed

lemma host_written:
  assumes "host_ok h" "r = [] \<or> hd r = CHR '':'' \<or> hd r = CHR ''/''"
  shows "parse_host text_store (h @ r) v = (Some r, v(F_host \<mapsto> h))"
  using assms(1) by (simp add: parse_host_def host_end_written [OF assms] text_store_id len16_id host_ok_def)

lemma port_written:
  assumes "opt_without ''@/'' p" "r = [] \<or> hd r = CHR ''/''"
  shows "parse_port text_store (opt_part '':'' p @ r) v = (Some r, if p = None then v else v(F_port := p))"
proof (cases p)
  case None
  with assms(2) show ?thesis by (auto simp: parse_port_def opt_part_def)
next
  case (Some t)
  have "until (\<lambda>c. c = CHR ''/'') (t @ r) = (t, r)"
    using assms Some by (intro until_rest) (auto simp: opt_without_def without_def list_all_iff)
  with assms(1) Some show ?thesis
    by (simp add: parse_port_def opt_part_def text_store_id opt_without_def without_def)
qed

lemma tail_written:
  assumes "without ''#?'' p" "opt_without ''#'' q" "opt_without [] g"
    and v: "v F_path = None" "v F_query = None" "v F_fragment = None"
  shows "parse_tail text_store (''/'' @ p @ opt_part ''?'' q @ opt_part ''#'' g) v =
    (Some (), v(F_path \<mapsto> p, F_query := q, F_fragment := g))"
proof -
  let ?g = "opt_part ''#'' g" and ?v = "v(F_path \<mapsto> p)"
  have "until (\<lambda>c. c = CHR ''#'' \<or> c = CHR ''?'') (p @ opt_part ''?'' q @ ?g) = (p, opt_part ''?'' q @ ?g)"
    using assms(1) by (intro until_rest) (auto simp: without_def list_all_iff opt_part_def split: option.split)
  then have 1: "parse_path text_store (p @ opt_part ''?'' q @ ?g) v = (Some (opt_part ''?'' q @ ?g), ?v)"
    using assms(1) by (simp add: parse_path_def text_store_id without_def)
  have 2: "parse_query text_store (opt_part ''?'' q @ ?g) ?v = (Some ?g, ?v(F_query := q))"
  proof (cases q)
    case None
    with v(2) show ?thesis by (auto simp: parse_query_def opt_part_def split: option.split)
  next
    case (Some t)
    have "until (\<lambda>c. c = CHR ''#'') (t @ ?g) = (t, ?g)"
      using assms(2) Some by (intro until_rest)
        (auto simp: opt_without_def without_def list_all_iff opt_part_def split: option.split)
    with assms(2) Some show ?thesis
      by (simp add: parse_query_def opt_part_def text_store_id opt_without_def without_def)
  qed
  have 3: "parse_fragment text_store ?g (?v(F_query := q)) = (Some (), ?v(F_query := q, F_fragment := g))"
    using assms(3) v(3) by (cases g)
      (auto simp: parse_fragment_def opt_part_def text_store_id opt_without_def without_def)
  show ?thesis using 1 2 3 by (simp add: parse_tail_def)
qed

lemma url_ok_parts:
  assumes "url_ok v" shows "url_parts (render_url v) = Some v"
proof -
  obtain sch h where sh: "v F_scheme = Some sch" "v F_host = Some h" using assms by (auto simp: url_ok_def)
  let ?tail = "case v F_path of None \<Rightarrow> [] | Some p \<Rightarrow> ''/'' @ p @ opt_part ''?'' (v F_query) @ opt_part ''#'' (v F_fragment)"
  let ?port = "opt_part '':'' (v F_port) @ ?tail"
  let ?up = "case v F_username of None \<Rightarrow> [] | Some u \<Rightarrow> u @ opt_part '':'' (v F_password) @ ''@''"
  have url: "render_url v = sch @ CHR '':'' # ''//'' @ ?up @ h @ ?port"
    by (simp add: render_url_def sh)
  let ?v1 = "[F_scheme \<mapsto> sch]"
  let ?v2 = "?v1(F_username := v F_username, F_password := v F_password)"
  let ?v3 = "?v2(F_host \<mapsto> h)"
  let ?v4 = "?v3(F_port := v F_port)"
  have 1: "parse_scheme text_store (render_url v) Map.empty = (Some (''//'' @ ?up @ h @ ?port), ?v1)"
    unfolding url using assms sh(1) by (intro parse_scheme_written) (simp_all add: url_ok_def)
  have 2: "eat_slashes (''//'' @ ?up @ h @ ?port) ?v1 = (Some (?up @ h @ ?port), ?v1)"
    by (simp add: eat_slashes_def)
  have end1: "?tail = [] \<or> hd ?tail = CHR ''/''" by (simp split: option.split)
  then have end2: "?port = [] \<or> hd ?port = CHR '':'' \<or> hd ?port = CHR ''/''"
    by (auto simp: opt_part_def split: option.split)
  have hok: "host_ok h" using assms sh(2) by (simp add: url_ok_def)
  have 3: "parse_userpass text_store (?up @ h @ ?port) ?v1 = (Some (h @ ?port), ?v2)"
  proof (cases "v F_username")
    case None
    then have pw: "v F_password = None" using assms by (auto simp: url_ok_def)
    have "list_all (\<lambda>c. c \<noteq> CHR ''@'' \<and> c \<noteq> CHR ''/'') h"
    proof (cases "hd h = CHR ''[''")
      case True
      with hok have "h \<noteq> []" "last h = CHR '']''" "list_all (\<lambda>c. c \<notin> set '']@/'') (butlast h)"
        by (simp_all add: host_ok_def)
      then have "list_all (\<lambda>c. c \<noteq> CHR ''@'' \<and> c \<noteq> CHR ''/'') (butlast h @ [last h])" by (auto simp: list_all_iff)
      then show ?thesis using \<open>h \<noteq> []\<close> by simp
    qed (use hok in \<open>auto simp: host_ok_def list_all_iff\<close>)
    moreover have "list_all (\<lambda>c. c \<noteq> CHR ''@'' \<and> c \<noteq> CHR ''/'') (opt_part '':'' (v F_port))"
      using assms by (auto simp: url_ok_def opt_without_def without_def opt_part_def list_all_iff split: option.splits)
    ultimately have "\<not> userpass_flag ((h @ opt_part '':'' (v F_port)) @ ?tail)"
      using end1 by (intro no_userpass) simp_all
    moreover have "?v2 = ?v1" using None pw by (auto simp: fun_eq_iff)
    ultimately show ?thesis using None by (simp add: parse_userpass_def)
  next
    case (Some u)
    have "parse_userpass text_store (u @ opt_part '':'' (v F_password) @ CHR ''@'' # (h @ ?port)) ?v1 =
        (Some (h @ ?port), if v F_password = None then ?v1(F_username \<mapsto> u) else ?v1(F_username \<mapsto> u, F_password := v F_password))"
      using assms Some by (intro userpass_written) (simp_all add: url_ok_def opt_without_def)
    moreover have "(if v F_password = None then ?v1(F_username \<mapsto> u) else ?v1(F_username \<mapsto> u, F_password := v F_password)) = ?v2"
      using Some by (auto simp: fun_eq_iff)
    ultimately show ?thesis using Some by simp
  qed
  have 4: "parse_host text_store (h @ ?port) ?v2 = (Some ?port, ?v3)" using hok end2 by (rule host_written)
  have 5: "parse_port text_store ?port ?v3 = (Some ?tail, ?v4)"
  proof -
    have "opt_without ''@/'' (v F_port)" using assms by (simp add: url_ok_def)
    from port_written [OF this end1, of ?v3] show ?thesis by (auto simp: fun_eq_iff)
  qed
  have 6: "\<exists>w. parse_tail text_store ?tail ?v4 = (Some (), w) \<and> w = v"
  proof (cases "v F_path")
    case None
    then have "?v4 = v" using assms sh
      by (intro ext) (case_tac x; auto simp: url_ok_def)
    then show ?thesis using None by (simp add: parse_tail_def)
  next
    case (Some p)
    have "parse_tail text_store ?tail ?v4 =
        (Some (), ?v4(F_path \<mapsto> p, F_query := v F_query, F_fragment := v F_fragment))"
      using assms Some tail_written [of p "v F_query" "v F_fragment" ?v4] by (simp add: url_ok_def opt_without_def)
    moreover have "?v4(F_path \<mapsto> p, F_query := v F_query, F_fragment := v F_fragment) = v" using sh Some
      by (intro ext) (case_tac x; simp)
    ultimately show ?thesis by simp
  qed
  show ?thesis using 1 2 3 4 5 6 by (simp add: url_parts_def url_body_def)
qed

section \<open>Properties\<close>

text \<open>A \<open>malloc\<close> with sixteen addresses, for the witnesses.\<close>

definition first_free :: "url_block malloc" where
  "first_free h n = List.find (\<lambda>a. h a = None) [1..<17]"

lemma first_free_ok: "malloc_ok first_free"
  by (auto simp: malloc_ok_def first_free_def find_Some_iff)

definition no_blocks :: "url_block dmem" where
  "no_blocks = \<lparr>blocks = Map.empty, aaa = 0, fff = 0\<rparr>"

lemma first_free_enough: "enough first_free no_blocks"
  unfolding enough_def
proof (intro conjI allI impI)
  fix h :: "nat \<Rightarrow> url_block option" and n
  assume h: "finite (dom h) \<and> card (dom h) \<le> card (dom (blocks no_blocks)) + 8"
  show "first_free h n \<noteq> None"
  proof
    assume "first_free h n = None"
    then have "set [1..<17] \<subseteq> dom h" by (auto simp: first_free_def find_None_iff domIff)
    then have "card {1..<17::nat} \<le> card (dom h)" using h by (intro card_mono) simp_all
    then have "16 \<le> card (dom h)" by simp
    with h show False by (simp add: no_blocks_def)
  qed
qed (simp add: no_blocks_def)

lemma url_parse_cases:
  assumes "malloc_ok malloc"
  obtains m' where "url_parse malloc url m = Inr (None, m')" "blocks m' = blocks m" "live m' = live m"
      "enough malloc m \<Longrightarrow> url_parts url = None"
  | s v where "url_parse malloc url m = Inr (Some (purl s), mem s)" "mem_rel malloc m s v"
      "url_parts url = Some v"
proof (cases "dmem_create malloc 32 (Url zero_url) m")
  case (Pair p m1)
  show ?thesis
  proof (cases p)
    case None
    then have "m1 = m" "\<not> enough malloc m" using Pair
      by (auto simp: dmem_create_def enough_def split: option.splits)
    with None Pair show ?thesis by (intro that(1) [of m]) (simp_all add: url_parse_def)
  next
    case (Some a)
    let ?s = "\<lparr>mem = m1, purl = a, udata = zero_url\<rparr>"
    note start = mem_rel_start [OF assms Pair [unfolded Some]]
    have "mem_rel malloc m ?s Map.empty \<and> purl ?s = a" using mem_rel_start [OF assms] Pair Some by simp
    from url_mem.body_result [OF this, of url] show ?thesis
    proof (elim disjE exE conjE)
      fix s v assume b: "url_body (store_str malloc) url ?s = (Some (), s)" and r: "mem_rel malloc m s v"
        and p: "purl s = a" and v: "url_parts url = Some v"
      from b p Pair Some have "url_parse malloc url m = Inr (Some (purl s), mem s)" by (simp add: url_parse_def)
      then show ?thesis using r v by (rule that(2))
    next
      fix s v assume b: "url_body (store_str malloc) url ?s = (None, s)" and r: "mem_rel malloc m s v"
        and p: "purl s = a" and v: "enough malloc m \<longrightarrow> url_parts url = None"
      obtain m' where "url_parse_free (Some a) (mem s) = Inr m'" "blocks m' = blocks m" "live m' = live m"
        using mem_rel_free [OF r] p by auto
      with b v Pair Some show ?thesis by (intro that(1) [of m']) (simp_all add: url_parse_def)
    qed
  qed
qed

text \<open>
  C13: \<open>url_parse\<close> (\<open>net/url_parser.c\<close>) neither leaks nor releases a block twice, whatever \<open>malloc\<close>
  decides at each of its up to nine calls and whatever the text: it returns without a fault; if
  it returns NULL, memory is as before, down to the balance of the allocation counters; if it
  returns a URL, no block that was there before has changed, and \<open>url_parse_free\<close> of the URL is
  without a fault and gives memory back as it was before the parse.
\<close>

theorem url_parse_no_leak:
  assumes "malloc_ok malloc"
  shows "\<exists>p m'. url_parse malloc url m = Inr (p, m') \<and>
    (p = None \<longrightarrow> blocks m' = blocks m \<and> live m' = live m) \<and>
    (p \<noteq> None \<longrightarrow> (\<forall>a. blocks m a \<noteq> None \<longrightarrow> blocks m' a = blocks m a) \<and>
       (\<exists>m''. url_parse_free p m' = Inr m'' \<and> blocks m'' = blocks m \<and> live m'' = live m))"
proof (cases rule: url_parse_cases [OF assms, of url m])
  case (2 s v)
  with mem_rel_free [OF 2(2)] mem_rel_old [OF 2(2)] show ?thesis by auto
qed auto

theorem url_parse_no_leak_witness:
  "\<exists>p m'. url_parse first_free ''http://h:80/p?q'' no_blocks = Inr (p, m') \<and>
    (p = None \<longrightarrow> blocks m' = blocks no_blocks \<and> live m' = live no_blocks) \<and>
    (p \<noteq> None \<longrightarrow> (\<forall>a. blocks no_blocks a \<noteq> None \<longrightarrow> blocks m' a = blocks no_blocks a) \<and>
       (\<exists>m''. url_parse_free p m' = Inr m'' \<and> blocks m'' = blocks no_blocks \<and> live m'' = live no_blocks))"
  by (rule url_parse_no_leak [OF first_free_ok])



text \<open>
  C15: Round trip: parts that are well formed (a lower case scheme of letters, plus, minus and dot, a
  host that is a name or a bracketed address, no separator of a later part inside a part), written
  as a URL, come back from \<open>url_parse\<close> exactly, each part in its field and the absent ones NULL.
\<close>

theorem url_parse_render:
  assumes "url_ok v" "malloc_ok malloc" "enough malloc m"
  shows "\<exists>p m'. url_parse malloc (render_url v) m = Inr (Some p, m') \<and> url_at m' p = v"
proof (cases rule: url_parse_cases [OF assms(2), of "render_url v" m])
  case 1
  with url_ok_parts [OF assms(1)] assms(3) show ?thesis by simp
next
  case (2 s w)
  with mem_rel_url_at [OF 2(2)] url_ok_parts [OF assms(1)] show ?thesis by simp
qed

definition sample_url :: url_text where
  "sample_url = [F_scheme \<mapsto> ''ws'', F_username \<mapsto> ''u'', F_password \<mapsto> ''p:w'', F_host \<mapsto> ''[::1]'',
     F_port \<mapsto> ''8080'', F_path \<mapsto> ''a/b'', F_fragment \<mapsto> ''x?'']"

theorem url_parse_render_witness:
  "render_url sample_url = ''ws://u:p:w@[::1]:8080/a/b#x?'' \<and>
   (\<exists>p m'. url_parse first_free (render_url sample_url) no_blocks = Inr (Some p, m') \<and> url_at m' p = sample_url)"
proof
  show "render_url sample_url = ''ws://u:p:w@[::1]:8080/a/b#x?''"
    by (simp add: render_url_def sample_url_def opt_part_def)
  have "url_ok sample_url"
    by (simp add: url_ok_def sample_url_def is_scheme_char_def isalpha_def tolower_def opt_without_def
        without_def host_ok_def)
  then show "\<exists>p m'. url_parse first_free (render_url sample_url) no_blocks = Inr (Some p, m') \<and> url_at m' p = sample_url"
    by (rule url_parse_render [OF _ first_free_ok first_free_enough])
qed

end
