(* ===== verification/Calendar.thy ===== *)
theory Calendar
  imports Prelude
begin

text \<open>
  The calendar functions of the C library that the firmware uses: \<open>struct tm\<close>, \<open>gmtime\<close> and
  \<open>mktime\<close>, for a device whose local time is UTC and for times from 1970 on. \<open>time_t\<close> is an
  integer; \<open>mktime\<close> accepts fields outside of their range as the standard prescribes.
\<close>

record tm =
  tm_sec :: int
  tm_min :: int
  tm_hour :: int
  tm_mday :: int
  tm_mon :: int
  tm_year :: int
  tm_wday :: int
  tm_yday :: int
  tm_isdst :: int

section \<open>Days\<close>

definition leap :: "int \<Rightarrow> bool" where
  "leap y \<longleftrightarrow> y mod 4 = 0 \<and> (y mod 100 \<noteq> 0 \<or> y mod 400 = 0)"

definition year_days :: "int \<Rightarrow> int" where
  "year_days y = (if leap y then 366 else 365)"

text \<open>Days from the start of 1970 to the start of a year, and from there to a month.\<close>

definition days_to_year :: "int \<Rightarrow> int" where
  "days_to_year y = 365 * (y - 1970) + (y - 1969) div 4 - (y - 1901) div 100 + (y - 1601) div 400"

definition days_to_month :: "int \<Rightarrow> int \<Rightarrow> int" where
  "days_to_month y m =
     [0, 31, 59, 90, 120, 151, 181, 212, 243, 273, 304, 334, 365] ! nat m + (if leap y \<and> 1 < m then 1 else 0)"

definition month_days :: "int \<Rightarrow> int \<Rightarrow> int" where
  "month_days y m = days_to_month y (m + 1) - days_to_month y m"

text \<open>The year and the day in it of a day counted from the start of a year, and so for months.\<close>

function find_year :: "int \<Rightarrow> int \<Rightarrow> int \<times> int" where
  "find_year y d = (if d < year_days y then (y, d) else find_year (y + 1) (d - year_days y))"
  by pat_completeness auto
termination by (relation "measure (\<lambda>(y, d). nat d)") (auto simp: year_days_def split: if_splits)

function find_month :: "int \<Rightarrow> int \<Rightarrow> int \<Rightarrow> int \<times> int" where
  "find_month y m d =
     (if 11 \<le> m \<or> d < month_days y m then (m, d) else find_month y (m + 1) (d - month_days y m))"
  by pat_completeness auto
termination by (relation "measure (\<lambda>(y, m, d). nat (11 - m))") auto

declare find_year.simps [simp del] find_month.simps [simp del]

section \<open>The library functions\<close>

definition gmtime :: "int \<Rightarrow> tm" where
  "gmtime t =
     (let days = t div 86400; s = t mod 86400; (y, yd) = find_year 1970 days; (m, d) = find_month y 0 yd in
      \<lparr>tm_sec = s mod 60, tm_min = s div 60 mod 60, tm_hour = s div 3600, tm_mday = d + 1, tm_mon = m,
       tm_year = y - 1900, tm_wday = (days + 4) mod 7, tm_yday = yd, tm_isdst = 0\<rparr>)"

definition day_number :: "tm \<Rightarrow> int" where
  "day_number t =
     (let y = tm_year t + 1900 + tm_mon t div 12 in
      days_to_year y + days_to_month y (tm_mon t mod 12) + tm_mday t - 1)"

definition mktime :: "tm \<Rightarrow> int" where
  "mktime t = ((day_number t * 24 + tm_hour t) * 60 + tm_min t) * 60 + tm_sec t"

section \<open>Facts\<close>

lemma month_cases:
  "0 \<le> m \<Longrightarrow> m < (12::int) \<Longrightarrow>
     m = 0 \<or> m = 1 \<or> m = 2 \<or> m = 3 \<or> m = 4 \<or> m = 5 \<or> m = 6 \<or> m = 7 \<or> m = 8 \<or> m = 9 \<or> m = 10 \<or> m = 11"
proof -
  assume "0 \<le> m" "m < 12"
  then have "m \<in> set [0..11]" by simp
  moreover have "[0..11] = [0, 1, 2, 3, 4, 5, 6, 7, 8, 9, 10, 11 :: int]" by code_simp
  ultimately show ?thesis by auto
qed

lemma days_to_year_Suc: "days_to_year (y + 1) = days_to_year y + year_days y"
proof -
  have step: "(x + 1) div n = x div n + (if (x + 1) mod n = 0 then 1 else 0)" if n: "1 < n" for x n :: int
  proof -
    have d: "(x + 1) div n = x div n + (x mod n + 1) div n" using n by (simp add: div_add1_eq [of x 1 n])
    have m: "(x + 1) mod n = (x mod n + 1) mod n" by (simp add: mod_simps)
    have r: "0 \<le> x mod n" "x mod n + 1 \<le> n" using n by (simp_all add: pos_mod_bound add1_zle_eq)
    show ?thesis
    proof (cases "x mod n + 1 = n")
      case True
      then show ?thesis using n unfolding d m by simp
    next
      case False
      then have "(x mod n + 1) div n = 0" "(x mod n + 1) mod n = x mod n + 1" using r
        by (simp_all add: div_pos_pos_trivial mod_pos_pos_trivial)
      then show ?thesis using r(1) unfolding d m by simp
    qed
  qed
  have a: "(y - 1968) mod 4 = 0 \<longleftrightarrow> y mod 4 = 0" "(y - 1900) mod 100 = 0 \<longleftrightarrow> y mod 100 = 0"
    "(y - 1600) mod 400 = 0 \<longleftrightarrow> y mod 400 = 0"
    using dvd_diff_left_iff [of 4 1968 y] dvd_diff_left_iff [of 100 1900 y] dvd_diff_left_iff [of 400 1600 y]
    by (simp_all add: mod_eq_0_iff_dvd)
  have i: "y mod 400 = 0 \<Longrightarrow> y mod 100 = 0" "y mod 100 = 0 \<Longrightarrow> y mod 4 = 0"
    using dvd_trans [of 100 400 y] dvd_trans [of 4 100 y] by (simp_all add: mod_eq_0_iff_dvd)
  have s: "(y - 1968) div 4 = (y - 1969) div 4 + (if y mod 4 = 0 then 1 else 0)"
    "(y - 1900) div 100 = (y - 1901) div 100 + (if y mod 100 = 0 then 1 else 0)"
    "(y - 1600) div 400 = (y - 1601) div 400 + (if y mod 400 = 0 then 1 else 0)"
  proof -
    have e: "y - 1969 + 1 = y - 1968" "y - 1901 + 1 = y - 1900" "y - 1601 + 1 = y - 1600" by simp_all
    note st = step [of 4 "y - 1969"] step [of 100 "y - 1901"] step [of 400 "y - 1601"]
    show "(y - 1968) div 4 = (y - 1969) div 4 + (if y mod 4 = 0 then 1 else 0)"
      "(y - 1900) div 100 = (y - 1901) div 100 + (if y mod 100 = 0 then 1 else 0)"
      "(y - 1600) div 400 = (y - 1601) div 400 + (if y mod 400 = 0 then 1 else 0)"
      by (rule st [unfolded e a]; simp)+
  qed
  have key: "(if P then 1 else 0) - (if Q then 1 else 0) + (if R then 1 else 0) = (if P \<and> (\<not> Q \<or> R) then 1 else (0 :: int))"
    if "R \<Longrightarrow> Q" "Q \<Longrightarrow> P" for P Q R
    using that by (cases P; cases Q; cases R) simp_all
  have n: "y + 1 - 1970 = y - 1969" "y + 1 - 1969 = y - 1968" "y + 1 - 1901 = y - 1900" "y + 1 - 1601 = y - 1600"
    by simp_all
  have succ: "days_to_year (y + 1) = 365 * (y - 1969) + (y - 1968) div 4 - (y - 1900) div 100 + (y - 1600) div 400"
    unfolding days_to_year_def n by (rule refl)
  have len: "year_days y = 365 + (if y mod 4 = 0 \<and> (y mod 100 \<noteq> 0 \<or> y mod 400 = 0) then 1 else 0)"
    by (simp add: year_days_def leap_def)
  have gen: "e = 365 * (y - 1969) + (a + p) - (b + q) + (c + r) \<Longrightarrow> p - q + r = l \<Longrightarrow>
      e = 365 * (y - 1970) + a - b + c + (365 + l)" for a b c p q r e l :: int
    by (simp add: algebra_simps)
  show ?thesis unfolding days_to_year_def [of y] len by (rule gen [OF succ [unfolded s] key [OF i]])
qed

lemma year_days_pos: "0 < year_days y"
  by (simp add: year_days_def)

lemma find_year_spec:
  assumes "0 \<le> d" "find_year y d = (y', d')"
  shows "0 \<le> d' \<and> d' < year_days y' \<and> days_to_year y' + d' = days_to_year y + d \<and> y \<le> y'"
  using assms
proof (induction y d rule: find_year.induct)
  case (1 y d)
  show ?case
  proof (cases "d < year_days y")
    case True
    with 1 show ?thesis by (simp add: find_year.simps [of y])
  next
    case False
    then have "find_year (y + 1) (d - year_days y) = (y', d')" using 1(3) by (simp add: find_year.simps [of y d])
    with 1(1) False days_to_year_Suc [of y] show ?thesis by auto
  qed
qed

lemma find_month_spec:
  assumes "0 \<le> m" "m \<le> 11" "0 \<le> d" "days_to_month y m + d < year_days y" "find_month y m d = (m', d')"
  shows "m \<le> m' \<and> m' \<le> 11 \<and> 0 \<le> d' \<and> d' < month_days y m' \<and> days_to_month y m' + d' = days_to_month y m + d"
  using assms
proof (induction y m d rule: find_month.induct)
  case (1 y m d)
  show ?case
  proof (cases "11 \<le> m \<or> d < month_days y m")
    case True
    then have e: "m' = m" "d' = d" using 1(6) by (simp_all add: find_month.simps [of y m])
    have "d < month_days y m"
    proof (rule ccontr)
      assume "\<not> d < month_days y m"
      then have "m = 11" "month_days y 11 \<le> d" using True 1(3) by auto
      then show False using 1(5) by (simp add: month_days_def days_to_month_def year_days_def split: if_splits)
    qed
    with e 1 show ?thesis by simp
  next
    case False
    then have "find_month y (m + 1) (d - month_days y m) = (m', d')" using 1(6)
      by (simp add: find_month.simps [of y m])
    moreover have "days_to_month y (m + 1) + (d - month_days y m) = days_to_month y m + d"
      by (simp add: month_days_def)
    ultimately show ?thesis using 1 False by auto
  qed
qed

section \<open>The two functions are inverse to each other\<close>

definition valid_tm :: "tm \<Rightarrow> bool" where
  "valid_tm t \<longleftrightarrow> 0 \<le> tm_sec t \<and> tm_sec t < 60 \<and> 0 \<le> tm_min t \<and> tm_min t < 60 \<and>
     0 \<le> tm_hour t \<and> tm_hour t < 24 \<and> 0 \<le> tm_mon t \<and> tm_mon t < 12 \<and> 70 \<le> tm_year t \<and>
     1 \<le> tm_mday t \<and> tm_mday t \<le> month_days (tm_year t + 1900) (tm_mon t) \<and>
     tm_wday t = (day_number t + 4) mod 7 \<and>
     tm_yday t = day_number t - days_to_year (tm_year t + 1900) \<and> tm_isdst t = 0"

lemma day_number_valid:
  "0 \<le> tm_mon t \<Longrightarrow> tm_mon t < 12 \<Longrightarrow>
     day_number t = days_to_year (tm_year t + 1900) + days_to_month (tm_year t + 1900) (tm_mon t) + tm_mday t - 1"
  by (simp add: day_number_def Let_def)

lemma split_seconds:
  fixes s :: int assumes "0 \<le> s" "s < 86400"
  shows "(s div 3600 * 60 + s div 60 mod 60) * 60 + s mod 60 = s" "0 \<le> s div 3600" "s div 3600 < 24"
proof -
  have "s div 3600 = s div 60 div 60" by (simp add: zdiv_zmult2_eq [of 60 s 60, simplified])
  then show "(s div 3600 * 60 + s div 60 mod 60) * 60 + s mod 60 = s" by (simp add: algebra_simps)
qed (use assms in linarith)+

lemma gmtime_valid:
  assumes "0 \<le> t"
  shows "valid_tm (gmtime t)" "day_number (gmtime t) = t div 86400" "mktime (gmtime t) = t"
proof -
  obtain y yd where y: "find_year 1970 (t div 86400) = (y, yd)" by fastforce
  obtain m d where m: "find_month y 0 yd = (m, d)" by fastforce
  have "days_to_year 1970 = 0" by (simp add: days_to_year_def)
  with find_year_spec [OF _ y] assms
  have ys: "0 \<le> yd" "yd < year_days y" "days_to_year y + yd = t div 86400" "1970 \<le> y"
    by (simp_all add: pos_imp_zdiv_nonneg_iff)
  have "days_to_month y 0 = 0" by (simp add: days_to_month_def)
  with find_month_spec [OF _ _ ys(1) _ m] ys(2)
  have ms: "0 \<le> m" "m < 12" "0 \<le> d" "d < month_days y m" "days_to_month y m + d = yd" by simp_all
  let ?s = "t mod 86400"
  have s: "0 \<le> ?s" "?s < 86400" by simp_all
  have g: "gmtime t = \<lparr>tm_sec = ?s mod 60, tm_min = ?s div 60 mod 60, tm_hour = ?s div 3600, tm_mday = d + 1,
      tm_mon = m, tm_year = y - 1900, tm_wday = (t div 86400 + 4) mod 7, tm_yday = yd, tm_isdst = 0\<rparr>"
    by (simp add: gmtime_def y m Let_def)
  show n: "day_number (gmtime t) = t div 86400" using ms ys by (simp add: day_number_valid g)
  show "valid_tm (gmtime t)" using n ms ys split_seconds(2,3) [OF s] by (simp add: valid_tm_def g)
  have carry: "h * 60 + e = r \<Longrightarrow> (a * 24 * 60 + h) * 60 + e = a * 86400 + r" for a h e r :: int by simp
  have "mktime (gmtime t) = (t div 86400 * 24 * 60 + (?s div 3600 * 60 + ?s div 60 mod 60)) * 60 + ?s mod 60"
    using n by (simp add: mktime_def g algebra_simps)
  also have "\<dots> = t div 86400 * 86400 + ?s" by (rule carry) (rule split_seconds(1) [OF s])
  finally show "mktime (gmtime t) = t" by simp
qed

lemma days_to_month_mono:
  assumes "0 \<le> m" "m < m'" "m' \<le> 12"
  shows "days_to_month y m + month_days y m \<le> days_to_month y m'"
proof -
  have "m = 0 \<or> m = 1 \<or> m = 2 \<or> m = 3 \<or> m = 4 \<or> m = 5 \<or> m = 6 \<or> m = 7 \<or> m = 8 \<or> m = 9 \<or> m = 10 \<or> m = 11"
    using assms by (intro month_cases) simp_all
  moreover have "m' - 1 = 0 \<or> m' - 1 = 1 \<or> m' - 1 = 2 \<or> m' - 1 = 3 \<or> m' - 1 = 4 \<or> m' - 1 = 5 \<or> m' - 1 = 6 \<or>
      m' - 1 = 7 \<or> m' - 1 = 8 \<or> m' - 1 = 9 \<or> m' - 1 = 10 \<or> m' - 1 = 11"
    using assms by (intro month_cases) simp_all
  ultimately show ?thesis using assms(2)
    by (elim disjE) (simp_all add: days_to_month_def month_days_def)
qed

lemma days_to_year_mono:
  "y < y' \<Longrightarrow> days_to_year y + year_days y \<le> days_to_year y'"
proof (induction "nat (y' - y)" arbitrary: y')
  case (Suc n)
  show ?case
  proof (cases "y' = y + 1")
    case False
    with Suc have "days_to_year y + year_days y \<le> days_to_year (y' - 1)" by simp
    then show ?thesis using days_to_year_Suc [of "y' - 1"] year_days_pos [of "y' - 1"] by simp
  qed (simp add: days_to_year_Suc)
qed simp

text \<open>The second of the day, and how a time splits into the day and it.\<close>

definition day_second :: "tm \<Rightarrow> int" where
  "day_second t = (tm_hour t * 60 + tm_min t) * 60 + tm_sec t"

lemma mktime_split: "mktime t = day_number t * 86400 + day_second t"
  by (simp add: mktime_def day_second_def algebra_simps)

lemma day_second_range: "valid_tm t \<Longrightarrow> 0 \<le> day_second t \<and> day_second t < 86400"
  by (simp add: valid_tm_def day_second_def)

lemma mktime_div_mod:
  "valid_tm t \<Longrightarrow> mktime t div 86400 = day_number t" "valid_tm t \<Longrightarrow> mktime t mod 86400 = day_second t"
  using day_second_range [of t] by (simp_all add: mktime_split div_pos_pos_trivial mod_pos_pos_trivial)

lemma days_to_month_nonneg: "0 \<le> m \<Longrightarrow> m < 12 \<Longrightarrow> 0 \<le> days_to_month y m"
  by (drule month_cases, assumption) (elim disjE; simp add: days_to_month_def)

lemma day_number_nonneg: "valid_tm t \<Longrightarrow> 0 \<le> day_number t"
proof -
  assume v: "valid_tm t"
  have z: "days_to_year 1970 = 0" by (simp add: days_to_year_def)
  have "0 \<le> days_to_year (tm_year t + 1900)"
  proof (cases "tm_year t + 1900 = 1970")
    case False
    then have "1970 < tm_year t + 1900" using v by (simp add: valid_tm_def)
    from days_to_year_mono [OF this] z year_days_pos [of 1970] show ?thesis by linarith
  qed (simp add: z)
  moreover have "0 \<le> days_to_month (tm_year t + 1900) (tm_mon t)"
    using v by (intro days_to_month_nonneg) (simp_all add: valid_tm_def)
  ultimately show ?thesis using v by (simp add: day_number_valid valid_tm_def)
qed

lemma valid_tm_year:
  assumes "valid_tm t" shows "tm_yday t < year_days (tm_year t + 1900)" "0 \<le> tm_yday t"
proof -
  let ?y = "tm_year t + 1900"
  have m: "0 \<le> tm_mon t" "tm_mon t < 12" using assms by (simp_all add: valid_tm_def)
  have e: "tm_yday t = days_to_month ?y (tm_mon t) + tm_mday t - 1" "tm_mday t \<le> month_days ?y (tm_mon t)" "1 \<le> tm_mday t"
    using assms m by (simp_all add: valid_tm_def day_number_valid)
  have "days_to_month ?y (tm_mon t) + month_days ?y (tm_mon t) \<le> days_to_month ?y 12"
    using m by (intro days_to_month_mono) simp_all
  also have "\<dots> = year_days ?y" by (simp add: days_to_month_def year_days_def)
  finally show "tm_yday t < year_days ?y" using e by linarith
  have "0 \<le> days_to_month ?y (tm_mon t)" using m by (rule days_to_month_nonneg)
  with e show "0 \<le> tm_yday t" by linarith
qed

lemma day_number_inj:
  assumes "valid_tm t" "valid_tm u" "day_number t = day_number u"
  shows "tm_year t = tm_year u" "tm_mon t = tm_mon u" "tm_mday t = tm_mday u"
proof -
  let ?d = "\<lambda>t. days_to_year (tm_year t + 1900) + tm_yday t"
  have d: "?d t = day_number t" "?d u = day_number u" using assms by (simp_all add: valid_tm_def)
  have ord: False if "valid_tm t" "valid_tm u" "?d t = ?d u" "tm_year t < tm_year u" for t u
    using days_to_year_mono [of "tm_year t + 1900" "tm_year u + 1900"] valid_tm_year that by fastforce
  show y: "tm_year t = tm_year u"
    using ord [OF assms(1,2)] ord [OF assms(2,1)] d assms(3) by (metis linorder_neqE_linordered_idom)
  let ?y = "tm_year u + 1900"
  have m: "days_to_month ?y (tm_mon t) + tm_mday t = days_to_month ?y (tm_mon u) + tm_mday u"
    using assms y by (simp add: day_number_valid valid_tm_def)
  have ordm: False if "valid_tm t" "valid_tm u" "tm_year t + 1900 = y" "tm_year u + 1900 = y"
    "days_to_month y (tm_mon t) + tm_mday t = days_to_month y (tm_mon u) + tm_mday u" "tm_mon t < tm_mon u" for t u y
    using days_to_month_mono [of "tm_mon t" "tm_mon u" y] that by (auto simp: valid_tm_def)
  show "tm_mon t = tm_mon u"
    using ordm [OF assms(1,2), of ?y] ordm [OF assms(2,1), of ?y] m y by (metis linorder_neqE_linordered_idom)
  with m show "tm_mday t = tm_mday u" by simp
qed

lemma day_second_fields:
  assumes "valid_tm t"
  shows "tm_sec t = day_second t mod 60" "tm_min t = day_second t div 60 mod 60" "tm_hour t = day_second t div 60 div 60"
proof -
  have r: "0 \<le> tm_sec t" "tm_sec t < 60" "0 \<le> tm_min t" "tm_min t < 60" using assms by (simp_all add: valid_tm_def)
  have g: "(a * 60 + s) div 60 = a" "(a * 60 + s) mod 60 = s" if "0 \<le> s" "s < 60" for a s :: int
    using that by (simp_all add: div_pos_pos_trivial mod_pos_pos_trivial)
  have "day_second t div 60 = tm_hour t * 60 + tm_min t" "day_second t mod 60 = tm_sec t"
    unfolding day_second_def using r by (simp_all only: g)
  with g [of "tm_min t" "tm_hour t"] r show "tm_sec t = day_second t mod 60" "tm_min t = day_second t div 60 mod 60"
    "tm_hour t = day_second t div 60 div 60"
    by simp_all
qed

lemma day_second_inj:
  assumes "valid_tm t" "valid_tm u" "day_second t = day_second u"
  shows "tm_hour t = tm_hour u" "tm_min t = tm_min u" "tm_sec t = tm_sec u"
  using day_second_fields [OF assms(1)] day_second_fields [OF assms(2)] assms(3) by simp_all

lemma mktime_inj: "valid_tm t \<Longrightarrow> valid_tm u \<Longrightarrow> mktime t = mktime u \<Longrightarrow> t = u"
proof -
  assume v: "valid_tm t" "valid_tm u" and "mktime t = mktime u"
  then have d: "day_number t = day_number u" "day_second t = day_second u"
    using mktime_div_mod [of t] mktime_div_mod [of u] by simp_all
  note day_number_inj [OF v d(1)] day_second_inj [OF v d(2)]
  moreover have "tm_wday t = tm_wday u" "tm_yday t = tm_yday u" "tm_isdst t = tm_isdst u"
    using v d(1) \<open>tm_year t = tm_year u\<close> by (simp_all add: valid_tm_def)
  ultimately show ?thesis by simp
qed

lemma gmtime_mktime: "valid_tm t \<Longrightarrow> gmtime (mktime t) = t"
proof (rule mktime_inj)
  assume v: "valid_tm t"
  have "0 \<le> mktime t" using day_number_nonneg [OF v] day_second_range [OF v] by (simp add: mktime_split)
  from gmtime_valid(1,3) [OF this] show "valid_tm (gmtime (mktime t))" "mktime (gmtime (mktime t)) = mktime t"
    by simp_all
qed

end
