(* ===== verification/Mcp7940x.thy ===== *)
theory Mcp7940x
  imports Calendar
begin

unbundle bit_operations_syntax

text \<open>
  The driver of the external real-time clock MCP7940 (\<open>drv/drv_mcp7940x.c\<close>): the transactions on
  the I2C bus, the subtasks that wait, read and write registers, the task that refreshes and
  updates the registers, and the requests of its users. The I2C peripheral and the system delay
  are a parameter: their answers of one call of the task. The transfers the driver starts are
  logged, and so are the callbacks of the users.
\<close>

section \<open>Data\<close>

datatype t_BUSI2C_STATE =
  BUSI2C_STATE_IDLE | BUSI2C_STATE_PRE_INIT | BUSI2C_STATE_INIT | BUSI2C_STATE_IN_PROGRESS_TX
| BUSI2C_STATE_IN_PROGRESS_RX | BUSI2C_STATE_COMPLETED | BUSI2C_STATE_NAK | BUSI2C_STATE_COLLISION
| BUSI2C_STATE_ERROR

datatype I2C_ERROR = I2C_ERROR_NONE | I2C_ERROR_NACK | I2C_ERROR_BUS_COLLISION

text \<open>The buffers a transfer may point to: the static \<open>sa\<close> of either subtask, and \<open>drvData.sys.s\<close>.\<close>

datatype buffer = NULL | Read_sa | Write_sa | Sys_s

record t_I2C_SM_DATA =
  i2c_tx :: buffer
  txLength :: u32
  i2c_rx :: buffer
  rxLength :: u32
  i2c_state :: t_BUSI2C_STATE
  slaveAddressControlByte :: u16

record t_RW_PARAMS =
  startAddress :: u8
  rw_length :: u8
  rw_data :: buffer

datatype t_MCP7940X_STATES =
  MCP7940X_STATE_INIT | MCP7940X_STATE_IDLE | MCP7940X_STATE_REFRESH_DATA | MCP7940X_STATE_CHECK_ON
| MCP7940X_STATE_TURN_ON | MCP7940X_STATE_REFRESH_FOR_UPDATE | MCP7940X_STATE_UPDATING | MCP7940X_STATE_ERROR

datatype t_MCP7940X_RESPONSES = MCP7940X_RES_SUCCESS | MCP7940X_RES_NOT_READY

record t_MCP7940X_CALL_BACK_CONTEXT =
  res :: t_MCP7940X_RESPONSES
  ts :: int
  reliable :: bool

datatype drv_callback = Init_cb | User_cb u32

text \<open>The nine registers of the union \<open>t_MCP7940X_REGS_DATE\<close> are its byte view.\<close>

record t_MCP7940X_DRV_DATA =
  sm_currentState :: t_MCP7940X_STATES
  rwParams :: t_RW_PARAMS
  sys :: "u8 list"
  ts_local :: tm
  cb :: "drv_callback option"

text \<open>
  A subtask is always given the same context, \<open>timeDelayms\<close> or \<open>rwParams\<close>; the pointer to it is
  left out.
\<close>

datatype sub_task = Sub_task_wait | Sub_task_read_registers | Sub_task_write_registers

record t_SUB_TASK_DATA =
  stateOnSuccessful :: t_MCP7940X_STATES
  stateOnError :: t_MCP7940X_STATES
  subTask :: "sub_task option"
  sub_state :: u32

datatype bus_transfer = Bus_write u16 "u8 list" | Bus_write_read u16 "u8 list" u32

record mcp =
  i2cData :: t_I2C_SM_DATA
  drvData :: t_MCP7940X_DRV_DATA
  subtaskData :: t_SUB_TASK_DATA
  timeDelayms :: u32
  read_sa :: u8
  write_sa :: "u8 list"
  bus :: "bus_transfer list"
  delivered :: "(u32 \<times> t_MCP7940X_CALL_BACK_CONTEXT) list"

text \<open>The answers of the peripheral and of the delay service in one call of the task.\<close>

record i2c_env =
  I2C5_IsBusy :: bool
  I2C5_accepts :: bool
  I2C5_ErrorGet :: I2C_ERROR
  delay_accepted :: bool
  delay_complete :: bool

definition MCP7940X_SLAVE_ADDRESS_CONTROL_BYTE :: u16 where "MCP7940X_SLAVE_ADDRESS_CONTROL_BYTE = 0x6F"
definition MCP7940X_MAX_BYTE_ADDRESS :: nat where "MCP7940X_MAX_BYTE_ADDRESS = 0x1F"
definition REG_SECONDS :: u8 where "REG_SECONDS = 0"

abbreviation upd_i2c :: "(t_I2C_SM_DATA \<Rightarrow> t_I2C_SM_DATA) \<Rightarrow> mcp \<Rightarrow> mcp" where
  "upd_i2c f d \<equiv> d\<lparr>i2cData := f (i2cData d)\<rparr>"
abbreviation upd_drv :: "(t_MCP7940X_DRV_DATA \<Rightarrow> t_MCP7940X_DRV_DATA) \<Rightarrow> mcp \<Rightarrow> mcp" where
  "upd_drv f d \<equiv> d\<lparr>drvData := f (drvData d)\<rparr>"
abbreviation upd_sub :: "(t_SUB_TASK_DATA \<Rightarrow> t_SUB_TASK_DATA) \<Rightarrow> mcp \<Rightarrow> mcp" where
  "upd_sub f d \<equiv> d\<lparr>subtaskData := f (subtaskData d)\<rparr>"

definition set_drv_state :: "t_MCP7940X_STATES \<Rightarrow> mcp \<Rightarrow> mcp" where
  "set_drv_state st = upd_drv (\<lambda>v. v\<lparr>sm_currentState := st\<rparr>)"

section \<open>The I2C transactions\<close>

definition i2c_reset :: "mcp \<Rightarrow> mcp" where
  "i2c_reset = upd_i2c (\<lambda>i. i\<lparr>i2c_rx := NULL, i2c_tx := NULL, rxLength := 0, txLength := 0,
     i2c_state := BUSI2C_STATE_IDLE\<rparr>)"

definition buffer_bytes :: "buffer \<Rightarrow> mcp \<Rightarrow> u8 list" where
  "buffer_bytes b d =
     (case b of NULL \<Rightarrow> [] | Read_sa \<Rightarrow> [read_sa d] | Write_sa \<Rightarrow> write_sa d | Sys_s \<Rightarrow> sys (drvData d))"

definition i2c_task :: "i2c_env \<Rightarrow> mcp \<Rightarrow> mcp" where
  "i2c_task e d =
     (let i = i2cData d; st = (\<lambda>s. upd_i2c (\<lambda>i. i\<lparr>i2c_state := s\<rparr>)) in
      case i2c_state i of
        BUSI2C_STATE_INIT \<Rightarrow>
          if I2C5_IsBusy e then d
          else
            let d = st BUSI2C_STATE_ERROR d; tx = take (unat (txLength i)) (buffer_bytes (i2c_tx i) d) in
            if i2c_tx i \<noteq> NULL \<and> txLength i \<noteq> 0 then
              if i2c_rx i \<noteq> NULL \<and> txLength i \<noteq> 0 then
                if I2C5_accepts e
                then st BUSI2C_STATE_IN_PROGRESS_RX
                       (d\<lparr>bus := bus d @ [Bus_write_read (slaveAddressControlByte i) tx (rxLength i)]\<rparr>)
                else d
              else
                if I2C5_accepts e
                then st BUSI2C_STATE_IN_PROGRESS_TX (d\<lparr>bus := bus d @ [Bus_write (slaveAddressControlByte i) tx]\<rparr>)
                else d
            else d
      | BUSI2C_STATE_IN_PROGRESS_TX \<Rightarrow>
          if \<not> I2C5_IsBusy e then
            (case I2C5_ErrorGet e of
               I2C_ERROR_NONE \<Rightarrow> st BUSI2C_STATE_COMPLETED d
             | I2C_ERROR_BUS_COLLISION \<Rightarrow> st BUSI2C_STATE_COLLISION d
             | I2C_ERROR_NACK \<Rightarrow> st BUSI2C_STATE_NAK d)
          else d
      | BUSI2C_STATE_IN_PROGRESS_RX \<Rightarrow>
          if \<not> I2C5_IsBusy e then
            (case I2C5_ErrorGet e of
               I2C_ERROR_NONE \<Rightarrow> st BUSI2C_STATE_COMPLETED d
             | I2C_ERROR_BUS_COLLISION \<Rightarrow> st BUSI2C_STATE_COLLISION d
             | I2C_ERROR_NACK \<Rightarrow> st BUSI2C_STATE_NAK d)
          else d
      | _ \<Rightarrow> d)"

definition i2c_rw :: "buffer \<Rightarrow> u32 \<Rightarrow> buffer \<Rightarrow> u32 \<Rightarrow> u16 \<Rightarrow> mcp \<Rightarrow> bool \<times> mcp" where
  "i2c_rw txDat txLen rxDat rxLen slaveAddr d =
     (if i2c_state (i2cData d) \<noteq> BUSI2C_STATE_IDLE then (False, d)
      else (True, d\<lparr>i2cData := \<lparr>i2c_tx = txDat, txLength = txLen, i2c_rx = rxDat, rxLength = rxLen,
        i2c_state = BUSI2C_STATE_INIT, slaveAddressControlByte = slaveAddr\<rparr>\<rparr>))"

definition i2c_get_state :: "mcp \<Rightarrow> t_BUSI2C_STATE" where
  "i2c_get_state d = i2c_state (i2cData d)"

text \<open>The peripheral stores received bytes in the buffer of the read, from its start.\<close>

definition i2c_receive :: "u8 list \<Rightarrow> mcp \<Rightarrow> mcp" where
  "i2c_receive bs d =
     (let n = min (length bs) (unat (rxLength (i2cData d))) in
      if i2c_state (i2cData d) = BUSI2C_STATE_IN_PROGRESS_RX \<and> i2c_rx (i2cData d) = Sys_s
      then upd_drv (\<lambda>v. v\<lparr>sys := take n bs @ drop n (sys v)\<rparr>) d else d)"

section \<open>BCD\<close>

definition bcd2dec :: "u8 \<Rightarrow> u8" where
  "bcd2dec b = drop_bit 4 b * 10 + (b AND 0x0F)"

definition dec2bcd :: "u8 \<Rightarrow> u8" where
  "dec2bcd dec = push_bit 4 (dec div 10) OR (dec mod 10)"

section \<open>Subtasks\<close>

definition sub_task_init :: "sub_task \<Rightarrow> t_MCP7940X_STATES \<Rightarrow> t_MCP7940X_STATES \<Rightarrow> mcp \<Rightarrow> mcp" where
  "sub_task_init stf stateOK stateError d =
     d\<lparr>subtaskData := \<lparr>stateOnSuccessful = stateOK, stateOnError = stateError, subTask = Some stf, sub_state = 0\<rparr>\<rparr>"

definition sub_task_end :: "bool \<Rightarrow> mcp \<Rightarrow> mcp" where
  "sub_task_end ok d =
     (let d = i2c_reset (upd_sub (\<lambda>s. s\<lparr>subTask := None\<rparr>) d) in
      set_drv_state (if ok then stateOnSuccessful (subtaskData d) else stateOnError (subtaskData d)) d)"

definition sub_task_next :: "mcp \<Rightarrow> mcp" where
  "sub_task_next = upd_sub (\<lambda>s. s\<lparr>sub_state := sub_state s + 1\<rparr>)"

definition sub_task_previous :: "mcp \<Rightarrow> mcp" where
  "sub_task_previous = upd_sub (\<lambda>s. s\<lparr>sub_state := sub_state s - 1\<rparr>)"

definition sub_task_wait :: "i2c_env \<Rightarrow> mcp \<Rightarrow> mcp" where
  "sub_task_wait e d =
     (if sub_state (subtaskData d) = 0 then
        if \<not> delay_accepted e then sub_task_end False d else sub_task_next d
      else if sub_state (subtaskData d) = 1 then
        if delay_complete e then sub_task_end True d else d
      else d)"

text \<open>State 1 of both register subtasks.\<close>

definition transfer_state :: "mcp \<Rightarrow> mcp" where
  "transfer_state d =
     (case i2c_get_state d of
        BUSI2C_STATE_NAK \<Rightarrow> sub_task_previous d
      | BUSI2C_STATE_COMPLETED \<Rightarrow> sub_task_end True d
      | BUSI2C_STATE_COLLISION \<Rightarrow> sub_task_end False d
      | BUSI2C_STATE_ERROR \<Rightarrow> sub_task_end False d
      | _ \<Rightarrow> d)"

definition sub_task_read_registers :: "i2c_env \<Rightarrow> mcp \<Rightarrow> mcp outcome" where
  "sub_task_read_registers e d =
     (let d = i2c_task e d; p = rwParams (drvData d) in
      if sub_state (subtaskData d) = 0 then
        let d = d\<lparr>read_sa := startAddress p\<rparr>;
            (ok, d) = i2c_rw Read_sa 1 (rw_data p) (ucast (rw_length p)) MCP7940X_SLAVE_ADDRESS_CONTROL_BYTE d
        in Inr (if ok then sub_task_next d else sub_task_end False d)
      else if sub_state (subtaskData d) = 1 then Inr (transfer_state d)
      else Inr d)"

text \<open>\<open>memcpy (&sa[1], data, length)\<close>, with its bounds.\<close>

definition copy_registers :: "t_RW_PARAMS \<Rightarrow> mcp \<Rightarrow> mcp outcome" where
  "copy_registers p d =
     (let n = unat (rw_length p); src = buffer_bytes (rw_data p) d in
      if rw_data p = NULL \<and> 0 < n then Inl Null_Deref
      else if length src < n \<or> length (write_sa d) < n + 1 then Inl Out_Of_Bounds
      else Inr (d\<lparr>write_sa := hd (write_sa d) # take n src @ drop (n + 1) (write_sa d)\<rparr>))"

definition sub_task_write_registers :: "i2c_env \<Rightarrow> mcp \<Rightarrow> mcp outcome" where
  "sub_task_write_registers e d =
     (let d = i2c_task e d; p = rwParams (drvData d) in
      if sub_state (subtaskData d) = 0 then
        seq (copy_registers p (d\<lparr>write_sa := (write_sa d)[0 := startAddress p]\<rparr>)) (\<lambda>d.
        let (ok, d) = i2c_rw Write_sa (ucast (rw_length p) + 1) NULL 0 MCP7940X_SLAVE_ADDRESS_CONTROL_BYTE d
        in Inr (if ok then sub_task_next d else sub_task_end False d))
      else if sub_state (subtaskData d) = 1 then Inr (transfer_state d)
      else Inr d)"

section \<open>The task\<close>

text \<open>The bit fields of the registers: \<open>st\<close>, \<open>vbaten\<close> and \<open>day\<close>, and writing registers.\<close>

definition reg :: "nat \<Rightarrow> mcp \<Rightarrow> u8" where
  "reg n d = sys (drvData d) ! n"

definition upd_reg :: "nat \<Rightarrow> (u8 \<Rightarrow> u8) \<Rightarrow> mcp \<Rightarrow> mcp" where
  "upd_reg n f = upd_drv (\<lambda>v. v\<lparr>sys := (sys v)[n := f (sys v ! n)]\<rparr>)"

definition set_day :: "int \<Rightarrow> u8 \<Rightarrow> u8" where
  "set_day n b = (b AND 0xF8) OR (word_of_int n AND 7)"

text \<open>The part of \<open>CHECK_ON\<close> that decodes the registers into \<open>ts_local\<close>.\<close>

definition decode_registers :: "mcp \<Rightarrow> tm" where
  "decode_registers d =
     (ts_local (drvData d))
       \<lparr>tm_sec := uint (bcd2dec (reg 0 d AND 0x7F)),
        tm_min := uint (bcd2dec (reg 1 d AND 0x7F)),
        tm_hour := uint (bcd2dec (reg 2 d AND 0x3F)),
        tm_wday := uint (reg 3 d AND 7) - 1,
        tm_mday := uint (bcd2dec (reg 4 d AND 0x3F)),
        tm_mon := uint (bcd2dec (reg 5 d AND 0x1F)) - 1,
        tm_year := uint (bcd2dec (reg 6 d)) + 100\<rparr>"

text \<open>Calling \<open>drvData.cb\<close>; the library's own callback forgets itself.\<close>

definition call_cb :: "t_MCP7940X_CALL_BACK_CONTEXT \<Rightarrow> mcp \<Rightarrow> mcp" where
  "call_cb ctx d =
     (case cb (drvData d) of
        None \<Rightarrow> d
      | Some Init_cb \<Rightarrow> upd_drv (\<lambda>v. v\<lparr>cb := None\<rparr>) d
      | Some (User_cb f) \<Rightarrow> d\<lparr>delivered := delivered d @ [(f, ctx)]\<rparr>)"

definition check_on :: "mcp \<Rightarrow> mcp" where
  "check_on d =
     (let d = upd_drv (\<lambda>v. v\<lparr>ts_local := decode_registers d\<rparr>) d in
      if bit (reg 0 d) 7 \<and> bit (reg 3 d) 3 then
        let t = mktime (ts_local (drvData d));
            d = upd_drv (\<lambda>v. v\<lparr>ts_local := gmtime t\<rparr>) d
        in call_cb \<lparr>res = MCP7940X_RES_SUCCESS, ts = t, reliable = True\<rparr> (set_drv_state MCP7940X_STATE_IDLE d)
      else
        call_cb \<lparr>res = MCP7940X_RES_NOT_READY, ts = 0, reliable = False\<rparr> (set_drv_state MCP7940X_STATE_TURN_ON d))"

definition set_params :: "u8 \<Rightarrow> mcp \<Rightarrow> mcp" where
  "set_params n = upd_drv (\<lambda>v. v\<lparr>rwParams := \<lparr>startAddress = REG_SECONDS, rw_length = n, rw_data = Sys_s\<rparr>\<rparr>)"

definition turn_on :: "mcp \<Rightarrow> mcp" where
  "turn_on d =
     (let d = upd_reg 0 (set_bit 7) d;
          d = upd_reg 3 (set_bit 3) d;
          d = upd_reg 7 (set_bit 6) d;
          d = upd_reg 7 (set_bit 0) d;
          d = upd_reg 7 (set_bit 1) d;
          d = upd_reg 7 (unset_bit 2) d;
          d = set_params 8 d
      in sub_task_init Sub_task_write_registers MCP7940X_STATE_IDLE MCP7940X_STATE_ERROR d)"

definition updating :: "mcp \<Rightarrow> mcp" where
  "updating d =
     (let t = ts_local (drvData d);
          d = upd_reg 0 (\<lambda>b. (b AND 0x80) OR dec2bcd (word_of_int (tm_sec t))) d;
          d = upd_reg 1 (\<lambda>b. (b AND 0x80) OR dec2bcd (word_of_int (tm_min t))) d;
          d = upd_reg 2 (\<lambda>b. (b AND 0xC0) OR dec2bcd (word_of_int (tm_hour t))) d;
          d = upd_reg 3 (set_day (tm_wday t + 1)) d;
          d = upd_reg 4 (\<lambda>b. (b AND 0xC0) OR dec2bcd (word_of_int (tm_mday t))) d;
          d = upd_reg 5 (\<lambda>b. (b AND 0xC0) OR dec2bcd (word_of_int (tm_mon t + 1))) d;
          d = upd_reg 6 (\<lambda>_. dec2bcd (word_of_int (tm_year t smod 100))) d;
          d = set_params 7 d
      in sub_task_init Sub_task_write_registers MCP7940X_STATE_IDLE MCP7940X_STATE_ERROR d)"

definition mcp_state :: "mcp \<Rightarrow> mcp" where
  "mcp_state d =
     (let idle = (i2c_get_state d = BUSI2C_STATE_IDLE) in
      case sm_currentState (drvData d) of
        MCP7940X_STATE_INIT \<Rightarrow>
          set_drv_state MCP7940X_STATE_REFRESH_DATA (upd_drv (\<lambda>v. v\<lparr>cb := Some Init_cb\<rparr>) (set_params 9 d))
      | MCP7940X_STATE_IDLE \<Rightarrow> d
      | MCP7940X_STATE_REFRESH_DATA \<Rightarrow>
          if idle then sub_task_init Sub_task_read_registers MCP7940X_STATE_CHECK_ON MCP7940X_STATE_ERROR d else d
      | MCP7940X_STATE_CHECK_ON \<Rightarrow> check_on d
      | MCP7940X_STATE_TURN_ON \<Rightarrow> if idle then turn_on d else d
      | MCP7940X_STATE_REFRESH_FOR_UPDATE \<Rightarrow>
          if idle then sub_task_init Sub_task_read_registers MCP7940X_STATE_UPDATING MCP7940X_STATE_ERROR d else d
      | MCP7940X_STATE_UPDATING \<Rightarrow> if idle then updating d else d
      | MCP7940X_STATE_ERROR \<Rightarrow>
          sub_task_init Sub_task_wait MCP7940X_STATE_INIT MCP7940X_STATE_ERROR (d\<lparr>timeDelayms := 5000\<rparr>))"

definition drv_mcp7940x_tasks :: "i2c_env \<Rightarrow> mcp \<Rightarrow> mcp outcome" where
  "drv_mcp7940x_tasks e d =
     (case subTask (subtaskData d) of
        Some Sub_task_wait \<Rightarrow> Inr (sub_task_wait e d)
      | Some Sub_task_read_registers \<Rightarrow> sub_task_read_registers e d
      | Some Sub_task_write_registers \<Rightarrow> sub_task_write_registers e d
      | None \<Rightarrow> Inr (mcp_state d))"

section \<open>Interface functions\<close>

definition zero_tm :: tm where
  "zero_tm = \<lparr>tm_sec = 0, tm_min = 0, tm_hour = 0, tm_mday = 0, tm_mon = 0, tm_year = 0, tm_wday = 0,
     tm_yday = 0, tm_isdst = 0\<rparr>"

definition drv_mcp7940x_init :: "mcp \<Rightarrow> mcp" where
  "drv_mcp7940x_init d =
     (let d = d\<lparr>drvData := \<lparr>sm_currentState = MCP7940X_STATE_INIT,
            rwParams = \<lparr>startAddress = 0, rw_length = 0, rw_data = NULL\<rparr>, sys = replicate 9 0,
            ts_local = zero_tm, cb = None\<rparr>\<rparr>;
          d = upd_sub (\<lambda>s. s\<lparr>subTask := None\<rparr>) d;
          d = d\<lparr>timeDelayms := 500\<rparr>
      in sub_task_init Sub_task_wait MCP7940X_STATE_INIT MCP7940X_STATE_ERROR d)"

definition mcp7940x_get_state :: "mcp \<Rightarrow> t_MCP7940X_STATES" where
  "mcp7940x_get_state d = sm_currentState (drvData d)"

definition mcp7940x_get_ts :: "drv_callback option \<Rightarrow> mcp \<Rightarrow> int \<times> mcp" where
  "mcp7940x_get_ts f d =
     (if sm_currentState (drvData d) \<noteq> MCP7940X_STATE_IDLE then (- 1, d)
      else (0, set_drv_state MCP7940X_STATE_REFRESH_DATA (upd_drv (\<lambda>v. v\<lparr>cb := f\<rparr>) (set_params 9 d))))"

definition mcp7940x_set_ts :: "tm \<Rightarrow> mcp \<Rightarrow> int \<times> mcp" where
  "mcp7940x_set_ts t d =
     (if sm_currentState (drvData d) \<noteq> MCP7940X_STATE_IDLE then (- 1, d)
      else (0, set_drv_state MCP7940X_STATE_REFRESH_FOR_UPDATE
             (set_params 7 (upd_drv (\<lambda>v. v\<lparr>ts_local := t\<rparr>) d))))"

section \<open>Runs\<close>

datatype mcp_event = Poll i2c_env | Receive "u8 list" | Get_ts u32 | Set_ts tm

definition mcp_step :: "mcp_event \<Rightarrow> mcp \<Rightarrow> mcp outcome" where
  "mcp_step ev d =
     (case ev of
        Poll e \<Rightarrow> drv_mcp7940x_tasks e d
      | Receive bs \<Rightarrow> Inr (i2c_receive bs d)
      | Get_ts f \<Rightarrow> Inr (snd (mcp7940x_get_ts (Some (User_cb f)) d))
      | Set_ts t \<Rightarrow> Inr (snd (mcp7940x_set_ts t d)))"

text \<open>
  The invariant. The buffers keep their lengths and a read fits its buffer; the parameters of a
  transfer are set once the driver has left its first states; a register subtask is in its first
  state exactly while no transaction of its own is under way, or when the transaction ended in a
  NAK; and without a subtask the bus is idle.
\<close>

definition started :: "mcp \<Rightarrow> bool" where
  "started d \<longleftrightarrow> sm_currentState (drvData d) \<noteq> MCP7940X_STATE_INIT \<and> sm_currentState (drvData d) \<noteq> MCP7940X_STATE_ERROR"

definition is_register_task :: "sub_task option \<Rightarrow> bool" where
  "is_register_task s \<longleftrightarrow> s = Some Sub_task_read_registers \<or> s = Some Sub_task_write_registers"

definition mcp_inv :: "mcp \<Rightarrow> bool" where
  "mcp_inv d \<longleftrightarrow>
     length (sys (drvData d)) = 9 \<and> length (write_sa d) = MCP7940X_MAX_BYTE_ADDRESS + 1 \<and>
     rw_length (rwParams (drvData d)) \<le> 9 \<and> rxLength (i2cData d) \<le> 9 \<and>
     (started d \<or> is_register_task (subTask (subtaskData d)) \<longrightarrow> rw_data (rwParams (drvData d)) = Sys_s) \<and>
     sub_state (subtaskData d) \<le> 1 \<and>
     (case subTask (subtaskData d) of
        None \<Rightarrow> i2c_state (i2cData d) = BUSI2C_STATE_IDLE
      | Some Sub_task_wait \<Rightarrow> i2c_state (i2cData d) = BUSI2C_STATE_IDLE \<and> \<not> started d \<and>
          stateOnSuccessful (subtaskData d) = MCP7940X_STATE_INIT \<and> stateOnError (subtaskData d) = MCP7940X_STATE_ERROR
      | Some _ \<Rightarrow> stateOnError (subtaskData d) = MCP7940X_STATE_ERROR \<and> started d \<and>
          stateOnSuccessful (subtaskData d) \<noteq> MCP7940X_STATE_INIT \<and>
          stateOnSuccessful (subtaskData d) \<noteq> MCP7940X_STATE_ERROR \<and>
          (if sub_state (subtaskData d) = 0 then i2c_state (i2cData d) \<in> {BUSI2C_STATE_IDLE, BUSI2C_STATE_NAK}
           else i2c_state (i2cData d) \<in> {BUSI2C_STATE_INIT, BUSI2C_STATE_IN_PROGRESS_TX, BUSI2C_STATE_IN_PROGRESS_RX}))"

lemma sub_state_cases: "sub_state s \<le> 1 \<Longrightarrow> sub_state s = 0 \<or> sub_state s = 1"
  by unat_arith

lemmas mcp_steps = set_drv_state_def i2c_reset_def sub_task_init_def sub_task_end_def sub_task_next_def
  sub_task_previous_def i2c_rw_def i2c_get_state_def transfer_state_def

lemma i2c_task_frame [simp]:
  "drvData (i2c_task e d) = drvData d" "subtaskData (i2c_task e d) = subtaskData d"
  "write_sa (i2c_task e d) = write_sa d" "rxLength (i2cData (i2c_task e d)) = rxLength (i2cData d)"
  "timeDelayms (i2c_task e d) = timeDelayms d" "delivered (i2c_task e d) = delivered d"
  by (auto simp: i2c_task_def Let_def split: t_BUSI2C_STATE.splits I2C_ERROR.splits)

lemma i2c_task_rest: "i2c_state (i2cData d) \<in> {BUSI2C_STATE_IDLE, BUSI2C_STATE_NAK} \<Longrightarrow> i2c_task e d = d"
  by (auto simp: i2c_task_def)

lemma transfer_state_inv:
  assumes "stateOnError (subtaskData d) = MCP7940X_STATE_ERROR" "started d"
    "stateOnSuccessful (subtaskData d) \<noteq> MCP7940X_STATE_INIT" "stateOnSuccessful (subtaskData d) \<noteq> MCP7940X_STATE_ERROR"
    "length (sys (drvData d)) = 9" "length (write_sa d) = MCP7940X_MAX_BYTE_ADDRESS + 1"
    "rw_length (rwParams (drvData d)) \<le> 9" "rxLength (i2cData d) \<le> 9" "rw_data (rwParams (drvData d)) = Sys_s"
    "sub_state (subtaskData d) = 1" "is_register_task (subTask (subtaskData d))"
    "i2c_state (i2cData d) \<noteq> BUSI2C_STATE_IDLE" "i2c_state (i2cData d) \<noteq> BUSI2C_STATE_PRE_INIT"
  shows "mcp_inv (transfer_state d)"
proof -
  have prev: "mcp_inv (sub_task_previous d)" if "i2c_state (i2cData d) = BUSI2C_STATE_NAK"
    using assms that by (auto simp: mcp_inv_def sub_task_previous_def started_def is_register_task_def)
  have finish: "mcp_inv (sub_task_end ok d)" for ok
    using assms by (cases ok) (simp_all add: mcp_inv_def sub_task_end_def i2c_reset_def set_drv_state_def started_def
        is_register_task_def Let_def)
  have stay: "mcp_inv d" if "i2c_state (i2cData d) \<in> {BUSI2C_STATE_INIT, BUSI2C_STATE_IN_PROGRESS_TX, BUSI2C_STATE_IN_PROGRESS_RX}"
    using assms that by (auto simp: mcp_inv_def is_register_task_def)
  show ?thesis using assms(12,13) prev finish stay
    by (cases "i2c_state (i2cData d)") (simp_all add: transfer_state_def i2c_get_state_def)
qed

lemma transfer_inv:
  assumes "mcp_inv d" "is_register_task (subTask (subtaskData d))" "sub_state (subtaskData d) = 1"
  shows "mcp_inv (transfer_state (i2c_task e d))"
proof (rule transfer_state_inv)
  have st: "i2c_state (i2cData d) \<in> {BUSI2C_STATE_INIT, BUSI2C_STATE_IN_PROGRESS_TX, BUSI2C_STATE_IN_PROGRESS_RX}"
    using assms by (auto simp: mcp_inv_def is_register_task_def)
  then show "i2c_state (i2cData (i2c_task e d)) \<noteq> BUSI2C_STATE_IDLE"
    "i2c_state (i2cData (i2c_task e d)) \<noteq> BUSI2C_STATE_PRE_INIT"
    by (auto simp: i2c_task_def Let_def split: I2C_ERROR.splits if_splits)
  show "started (i2c_task e d)" using assms by (auto simp: mcp_inv_def is_register_task_def started_def)
qed (use assms in \<open>auto simp: mcp_inv_def is_register_task_def\<close>)

lemma read_inv:
  assumes "mcp_inv d" "subTask (subtaskData d) = Some Sub_task_read_registers"
  shows "\<exists>d'. sub_task_read_registers e d = Inr d' \<and> mcp_inv d'"
proof (cases "sub_state (subtaskData d) = 0")
  case True
  then have rest: "i2c_task e d = d" using assms by (intro i2c_task_rest) (simp add: mcp_inv_def)
  let ?p = "rwParams (drvData d)"
  let ?r = "i2c_rw Read_sa 1 (rw_data ?p) (ucast (rw_length ?p)) MCP7940X_SLAVE_ADDRESS_CONTROL_BYTE
      (d\<lparr>read_sa := startAddress ?p\<rparr>)"
  let ?e = "if fst ?r then sub_task_next (snd ?r) else sub_task_end False (snd ?r)"
  have "sub_task_read_registers e d = Inr ?e"
    using True by (simp add: sub_task_read_registers_def rest Let_def split_beta)
  moreover have "ucast (rw_length ?p) \<le> (9 :: u32)"
    using assms(1) order_trans [OF take_bit_nat_less_eq_self]
    by (auto simp: mcp_inv_def word_le_nat_alt unsigned_ucast_eq)
  then have "mcp_inv ?e" using assms True
    by (auto simp: mcp_steps mcp_inv_def started_def is_register_task_def)
  ultimately show ?thesis by blast
next
  case False
  then have s: "sub_state (subtaskData d) = 1" using assms(1) sub_state_cases by (auto simp: mcp_inv_def)
  then show ?thesis using transfer_inv [OF assms(1) _ s, of e] assms(2)
    by (simp add: sub_task_read_registers_def is_register_task_def)
qed

lemma copy_registers_ok:
  "rw_data p = Sys_s \<Longrightarrow> unat (rw_length p) \<le> 9 \<Longrightarrow> length (sys (drvData d)) = 9 \<Longrightarrow>
     length (write_sa d) = MCP7940X_MAX_BYTE_ADDRESS + 1 \<Longrightarrow>
     copy_registers p d = Inr (d\<lparr>write_sa := hd (write_sa d) # take (unat (rw_length p)) (sys (drvData d)) @
       drop (unat (rw_length p) + 1) (write_sa d)\<rparr>)"
  by (simp add: copy_registers_def buffer_bytes_def MCP7940X_MAX_BYTE_ADDRESS_def Let_def)

lemma write_inv:
  assumes "mcp_inv d" "subTask (subtaskData d) = Some Sub_task_write_registers"
  shows "\<exists>d'. sub_task_write_registers e d = Inr d' \<and> mcp_inv d'"
proof (cases "sub_state (subtaskData d) = 0")
  case True
  let ?p = "rwParams (drvData d)" and ?d = "d\<lparr>write_sa := (write_sa d)[0 := startAddress (rwParams (drvData d))]\<rparr>"
  let ?w = "hd (write_sa ?d) # take (unat (rw_length ?p)) (sys (drvData d)) @ drop (unat (rw_length ?p) + 1) (write_sa ?d)"
  have rest: "i2c_task e d = d" using assms True by (intro i2c_task_rest) (simp add: mcp_inv_def)
  have p: "rw_data ?p = Sys_s" "unat (rw_length ?p) \<le> 9" "length (sys (drvData ?d)) = 9"
    "length (write_sa ?d) = MCP7940X_MAX_BYTE_ADDRESS + 1"
    using assms by (simp_all add: mcp_inv_def word_le_nat_alt is_register_task_def)
  have w: "length ?w = MCP7940X_MAX_BYTE_ADDRESS + 1" using p by (simp add: MCP7940X_MAX_BYTE_ADDRESS_def)
  let ?r = "i2c_rw Write_sa (ucast (rw_length ?p) + 1) NULL 0 MCP7940X_SLAVE_ADDRESS_CONTROL_BYTE (?d\<lparr>write_sa := ?w\<rparr>)"
  let ?e = "if fst ?r then sub_task_next (snd ?r) else sub_task_end False (snd ?r)"
  have "sub_task_write_registers e d = Inr ?e"
    using copy_registers_ok [OF p] True by (simp add: sub_task_write_registers_def rest Let_def split_beta)
  moreover have "mcp_inv ?e" using assms True w
    by (auto simp: mcp_steps mcp_inv_def started_def is_register_task_def)
  ultimately show ?thesis by blast
next
  case False
  then have s: "sub_state (subtaskData d) = 1" using assms(1) sub_state_cases by (auto simp: mcp_inv_def)
  then show ?thesis using transfer_inv [OF assms(1) _ s, of e] assms(2)
    by (simp add: sub_task_write_registers_def is_register_task_def)
qed

lemma wait_inv: "mcp_inv d \<Longrightarrow> subTask (subtaskData d) = Some Sub_task_wait \<Longrightarrow> mcp_inv (sub_task_wait e d)"
  using sub_state_cases [of "subtaskData d"]
  by (auto simp: sub_task_wait_def mcp_steps mcp_inv_def started_def is_register_task_def)

lemma call_cb_frame [simp]:
  "i2cData (call_cb c d) = i2cData d" "subtaskData (call_cb c d) = subtaskData d" "write_sa (call_cb c d) = write_sa d"
  "sys (drvData (call_cb c d)) = sys (drvData d)" "rwParams (drvData (call_cb c d)) = rwParams (drvData d)"
  "sm_currentState (drvData (call_cb c d)) = sm_currentState (drvData d)"
  by (auto simp: call_cb_def split: option.split drv_callback.split)

lemma mcp_state_inv: "mcp_inv d \<Longrightarrow> subTask (subtaskData d) = None \<Longrightarrow> mcp_inv (mcp_state d)"
  by (cases "sm_currentState (drvData d)")
    (auto simp: mcp_state_def check_on_def turn_on_def updating_def upd_reg_def set_params_def mcp_steps mcp_inv_def
      started_def is_register_task_def Let_def)

lemma mcp_inv_sys:
  "length s = 9 \<Longrightarrow> mcp_inv d \<Longrightarrow> mcp_inv (d\<lparr>drvData := drvData d\<lparr>sys := s\<rparr>\<rparr>)"
  by (auto simp: mcp_inv_def started_def split: option.splits sub_task.splits if_splits)

lemma request_inv:
  assumes "mcp_inv d" shows "mcp_inv (snd (mcp7940x_get_ts f d))" "mcp_inv (snd (mcp7940x_set_ts t d))"
  using assms
  by (cases "sm_currentState (drvData d) = MCP7940X_STATE_IDLE";
      auto simp: mcp7940x_get_ts_def mcp7940x_set_ts_def mcp_inv_def set_params_def set_drv_state_def started_def
        is_register_task_def split: option.splits sub_task.splits if_splits)+

lemma mcp_step_inv:
  assumes "mcp_inv d" shows "\<exists>d'. mcp_step ev d = Inr d' \<and> mcp_inv d'"
proof (cases ev)
  case (Poll e)
  show ?thesis
  proof (cases "subTask (subtaskData d)")
    case None
    with Poll mcp_state_inv [OF assms] show ?thesis by (simp add: mcp_step_def drv_mcp7940x_tasks_def)
  next
    case (Some s)
    with Poll wait_inv [OF assms] read_inv [OF assms] write_inv [OF assms] show ?thesis
      by (cases s) (simp_all add: mcp_step_def drv_mcp7940x_tasks_def)
  qed
next
  case (Receive bs)
  from assms have "rxLength (i2cData d) \<le> 9" "length (sys (drvData d)) = 9" by (simp_all add: mcp_inv_def)
  then have "unat (rxLength (i2cData d)) \<le> 9" by (simp add: word_le_nat_alt)
  then have "mcp_inv (i2c_receive bs d)" using mcp_inv_sys [OF _ assms] assms \<open>length (sys (drvData d)) = 9\<close>
    by (simp add: i2c_receive_def Let_def)
  with Receive show ?thesis by (simp add: mcp_step_def)
next
  case (Get_ts f)
  then show ?thesis using request_inv(1) [OF assms] by (simp add: mcp_step_def)
next
  case (Set_ts t)
  then show ?thesis using request_inv(2) [OF assms] by (simp add: mcp_step_def)
qed


interpretation rtc: safe_task mcp_step mcp_inv
proof
  fix d ev d' assume d: "mcp_inv d"
  from mcp_step_inv [OF this, of ev] show "\<exists>d'. mcp_step ev d = Inr d'" by blast
  from mcp_step_inv [OF d, of ev] show "mcp_step ev d = Inr d' \<Longrightarrow> mcp_inv d'" by auto
qed

text \<open>The static variables before \<open>drv_mcp7940x_init\<close>.\<close>

definition reset_mcp :: mcp where
  "reset_mcp =
     \<lparr>i2cData = \<lparr>i2c_tx = NULL, txLength = 0, i2c_rx = NULL, rxLength = 0, i2c_state = BUSI2C_STATE_IDLE,
        slaveAddressControlByte = 0\<rparr>,
      drvData = \<lparr>sm_currentState = MCP7940X_STATE_INIT, rwParams = \<lparr>startAddress = 0, rw_length = 0, rw_data = NULL\<rparr>,
        sys = replicate 9 0, ts_local = zero_tm, cb = None\<rparr>,
      subtaskData = \<lparr>stateOnSuccessful = MCP7940X_STATE_INIT, stateOnError = MCP7940X_STATE_INIT, subTask = None,
        sub_state = 0\<rparr>,
      timeDelayms = 0, read_sa = 0, write_sa = replicate 32 0, bus = [], delivered = []\<rparr>"

lemma init_inv: "mcp_inv (drv_mcp7940x_init reset_mcp)"
  by (simp add: mcp_inv_def drv_mcp7940x_init_def reset_mcp_def sub_task_init_def started_def
      is_register_task_def MCP7940X_MAX_BYTE_ADDRESS_def)

section \<open>The driver with a clock chip\<close>

text \<open>
  A chip that answers every transfer: its registers are read and written from the address that
  comes first. The flag of a poll says whether the bus is busy; a transfer is carried out when
  the bus is found ready again.
\<close>

definition chip_write :: "u8 \<Rightarrow> u8 list \<Rightarrow> u8 list \<Rightarrow> u8 list" where
  "chip_write a bs chip = take (unat a) chip @ bs @ drop (unat a + length bs) chip"

definition chip_read :: "u8 \<Rightarrow> u32 \<Rightarrow> u8 list \<Rightarrow> u8 list" where
  "chip_read a n chip = take (unat n) (drop (unat a) chip)"

definition serve :: "mcp \<times> u8 list \<Rightarrow> mcp \<times> u8 list" where
  "serve w =
     (case w of (d, chip) \<Rightarrow>
        if i2c_state (i2cData d) = BUSI2C_STATE_IN_PROGRESS_TX then
          (case last (bus d) of Bus_write _ (a # bs) \<Rightarrow> (d, chip_write a bs chip) | _ \<Rightarrow> w)
        else if i2c_state (i2cData d) = BUSI2C_STATE_IN_PROGRESS_RX then
          (case last (bus d) of Bus_write_read _ [a] n \<Rightarrow> (i2c_receive (chip_read a n chip) d, chip) | _ \<Rightarrow> w)
        else w)"

definition good_env :: "bool \<Rightarrow> i2c_env" where
  "good_env busy = \<lparr>I2C5_IsBusy = busy, I2C5_accepts = True, I2C5_ErrorGet = I2C_ERROR_NONE,
     delay_accepted = True, delay_complete = \<not> busy\<rparr>"

definition clock_step :: "bool \<Rightarrow> mcp \<times> u8 list \<Rightarrow> (mcp \<times> u8 list) outcome" where
  "clock_step busy w =
     (let (d, chip) = (if busy then w else serve w)
      in seq (drv_mcp7940x_tasks (good_env busy) d) (\<lambda>d. Inr (d, chip)))"

text \<open>The stages of a read: the subtask is set up, the transfer requested, the transfer started.\<close>

definition at_rest :: "t_MCP7940X_STATES \<Rightarrow> mcp \<Rightarrow> bool" where
  "at_rest st d \<longleftrightarrow> sm_currentState (drvData d) = st \<and> subTask (subtaskData d) = None \<and>
     i2c_state (i2cData d) = BUSI2C_STATE_IDLE \<and> length (sys (drvData d)) = 9 \<and> length (write_sa d) = 32"

definition reading :: "nat \<Rightarrow> u8 \<Rightarrow> t_MCP7940X_STATES \<Rightarrow> mcp \<Rightarrow> bool" where
  "reading k n ok d \<longleftrightarrow> subTask (subtaskData d) = Some Sub_task_read_registers \<and>
     stateOnSuccessful (subtaskData d) = ok \<and> sub_state (subtaskData d) = (if k = 0 then 0 else 1) \<and>
     length (sys (drvData d)) = 9 \<and> length (write_sa d) = 32 \<and>
     rwParams (drvData d) = \<lparr>startAddress = 0, rw_length = n, rw_data = Sys_s\<rparr> \<and>
     (if k = 0 then i2c_state (i2cData d) = BUSI2C_STATE_IDLE
      else read_sa d = 0 \<and> i2c_tx (i2cData d) = Read_sa \<and> txLength (i2cData d) = 1 \<and>
        i2c_rx (i2cData d) = Sys_s \<and> rxLength (i2cData d) = ucast n \<and>
        (if k = 1 then i2c_state (i2cData d) = BUSI2C_STATE_INIT
         else i2c_state (i2cData d) = BUSI2C_STATE_IN_PROGRESS_RX \<and>
           (\<exists>a. last (bus d) = Bus_write_read a [0] (ucast n))))"

definition writing :: "nat \<Rightarrow> u8 \<Rightarrow> u8 list \<Rightarrow> t_MCP7940X_STATES \<Rightarrow> mcp \<Rightarrow> bool" where
  "writing k n regs ok d \<longleftrightarrow> subTask (subtaskData d) = Some Sub_task_write_registers \<and>
     stateOnSuccessful (subtaskData d) = ok \<and> sub_state (subtaskData d) = (if k = 0 then 0 else 1) \<and>
     length (sys (drvData d)) = 9 \<and> length (write_sa d) = 32 \<and> take (unat n) (sys (drvData d)) = regs \<and>
     rwParams (drvData d) = \<lparr>startAddress = 0, rw_length = n, rw_data = Sys_s\<rparr> \<and>
     (if k = 0 then i2c_state (i2cData d) = BUSI2C_STATE_IDLE
      else take (unat n + 1) (write_sa d) = 0 # regs \<and> i2c_tx (i2cData d) = Write_sa \<and>
        txLength (i2cData d) = ucast n + 1 \<and> i2c_rx (i2cData d) = NULL \<and>
        (if k = 1 then i2c_state (i2cData d) = BUSI2C_STATE_INIT
         else i2c_state (i2cData d) = BUSI2C_STATE_IN_PROGRESS_TX \<and>
           (\<exists>a. last (bus d) = Bus_write a (0 # regs))))"

text \<open>What transfers leave alone.\<close>

definition kept :: "mcp \<Rightarrow> tm \<times> drv_callback option \<times> (u32 \<times> t_MCP7940X_CALL_BACK_CONTEXT) list" where
  "kept d = (ts_local (drvData d), cb (drvData d), delivered d)"

lemma good_env_simps [simp]:
  "I2C5_IsBusy (good_env b) = b" "I2C5_accepts (good_env b)" "I2C5_ErrorGet (good_env b) = I2C_ERROR_NONE"
  by (simp_all add: good_env_def)

lemma reading_step:
  assumes "reading k n ok d" "k < 2" "clock_step b (d, chip) = r"
  shows "\<exists>d'. r = Inr (d', chip) \<and> kept d' = kept d \<and>
    (reading (Suc k) n ok d' \<or> b \<and> reading k n ok d')"
proof (cases "k = 0")
  case True
  with assms show ?thesis
    by (auto simp: reading_def clock_step_def serve_def drv_mcp7940x_tasks_def sub_task_read_registers_def
        i2c_task_def i2c_rw_def sub_task_next_def kept_def Let_def)
next
  case False
  then have "k = 1" using assms(2) by simp
  with assms show ?thesis
    by (cases b) (auto simp: reading_def clock_step_def serve_def drv_mcp7940x_tasks_def sub_task_read_registers_def
        i2c_task_def transfer_state_def i2c_get_state_def buffer_bytes_def kept_def Let_def)
qed

lemma reading_last:
  assumes "reading 2 n ok d" "n \<le> 9" "length chip = 32"
  shows "\<exists>d'. clock_step False (d, chip) = Inr (d', chip) \<and> kept d' = kept d \<and> at_rest ok d' \<and>
      take (unat n) (sys (drvData d')) = take (unat n) chip"
    "\<exists>d'. clock_step True (d, chip) = Inr (d', chip) \<and> kept d' = kept d \<and> reading 2 n ok d'"
proof -
  have n: "unat n \<le> 9" "unat (ucast n :: u32) = unat n" using assms(2)
    by (simp_all add: word_le_nat_alt unsigned_ucast_eq take_bit_nat_eq_self unsigned_less [THEN order_less_trans])
  obtain a where l: "last (bus d) = Bus_write_read a [0] (ucast n)"
    "i2c_state (i2cData d) = BUSI2C_STATE_IN_PROGRESS_RX" using assms(1) by (auto simp: reading_def)
  let ?d = "i2c_receive (chip_read 0 (ucast n) chip) d"
  have m: "min (length (chip_read 0 (ucast n) chip)) (unat (ucast n :: u32)) = unat n"
    using n assms(3) by (simp add: chip_read_def)
  have s: "serve (d, chip) = (?d, chip)" using l by (simp add: serve_def)
  have r: "?d = d\<lparr>drvData := drvData d\<lparr>sys := take (unat n) chip @ drop (unat n) (sys (drvData d))\<rparr>\<rparr>"
    using assms(1) l m n by (simp add: i2c_receive_def reading_def Let_def) (simp add: chip_read_def n)
  show "\<exists>d'. clock_step False (d, chip) = Inr (d', chip) \<and> kept d' = kept d \<and> at_rest ok d' \<and>
      take (unat n) (sys (drvData d')) = take (unat n) chip"
    using assms n by (auto simp: clock_step_def s r reading_def drv_mcp7940x_tasks_def sub_task_read_registers_def
        i2c_task_def transfer_state_def i2c_get_state_def sub_task_end_def set_drv_state_def i2c_reset_def kept_def
        at_rest_def Let_def)
  show "\<exists>d'. clock_step True (d, chip) = Inr (d', chip) \<and> kept d' = kept d \<and> reading 2 n ok d'"
    using assms(1) by (auto simp: clock_step_def reading_def drv_mcp7940x_tasks_def sub_task_read_registers_def
        i2c_task_def transfer_state_def i2c_get_state_def kept_def Let_def)
qed

lemma writing_first:
  assumes "writing 0 n regs ok d" "n \<le> 9"
  shows "\<exists>d'. clock_step b (d, chip) = Inr (d', chip) \<and> kept d' = kept d \<and> writing 1 n regs ok d'"
proof -
  let ?p = "rwParams (drvData d)" and ?d = "d\<lparr>write_sa := (write_sa d)[0 := 0]\<rparr>"
  have n: "unat n \<le> 9" using assms(2) by (simp add: word_le_nat_alt)
  have "write_sa d \<noteq> []" using assms(1) by (auto simp: writing_def)
  then have w: "write_sa ?d \<noteq> []" "hd (write_sa ?d) = 0" "serve (d, chip) = (d, chip)"
    using assms(1) by (simp_all add: writing_def serve_def hd_conv_nth)
  have "copy_registers ?p ?d = Inr (?d\<lparr>write_sa := 0 # regs @ drop (unat n + 1) (write_sa ?d)\<rparr>)"
    using copy_registers_ok [of ?p ?d] assms(1) n w by (simp add: writing_def MCP7940X_MAX_BYTE_ADDRESS_def)
  with assms n show ?thesis
    by (cases b) (auto simp: clock_step_def writing_def w(3) drv_mcp7940x_tasks_def sub_task_write_registers_def
        i2c_task_def i2c_rw_def sub_task_next_def kept_def Let_def)
qed

lemma writing_second:
  assumes "writing 1 n regs ok d" "n \<le> 9"
  shows "\<exists>d'. clock_step b (d, chip) = Inr (d', chip) \<and> kept d' = kept d \<and>
    (writing 2 n regs ok d' \<or> b \<and> writing 1 n regs ok d')"
proof -
  have n: "unat (ucast n + 1 :: u32) = unat n + 1" "ucast n + 1 \<noteq> (0 :: u32)"
  proof -
    have u: "unat (ucast n :: u32) = unat n" by (simp add: unsigned_ucast_eq take_bit_nat_eq_self unsigned_less [THEN order_less_trans])
    have "unat n \<le> 9" using assms(2) by (simp add: word_le_nat_alt)
    then show e: "unat (ucast n + 1 :: u32) = unat n + 1" by (simp add: unat_word_ariths u)
    show "ucast n + 1 \<noteq> (0 :: u32)" using e by (metis Suc_eq_plus1 Zero_not_Suc unsigned_0)
  qed
  have "serve (d, chip) = (d, chip)" using assms(1) by (simp add: writing_def serve_def)
  with assms n show ?thesis
    by (cases b) (auto simp: clock_step_def writing_def drv_mcp7940x_tasks_def sub_task_write_registers_def
        i2c_task_def transfer_state_def i2c_get_state_def buffer_bytes_def kept_def Let_def)
qed

lemma writing_last:
  assumes "writing 2 n regs ok d" "length regs = unat n"
  shows "\<exists>d'. clock_step False (d, chip) = Inr (d', regs @ drop (unat n) chip) \<and> kept d' = kept d \<and> at_rest ok d'"
    "\<exists>d'. clock_step True (d, chip) = Inr (d', chip) \<and> kept d' = kept d \<and> writing 2 n regs ok d'"
proof -
  obtain a where l: "last (bus d) = Bus_write a (0 # regs)"
    "i2c_state (i2cData d) = BUSI2C_STATE_IN_PROGRESS_TX" using assms(1) by (auto simp: writing_def)
  have s: "serve (d, chip) = (d, regs @ drop (unat n) chip)" using l assms(2) by (simp add: serve_def chip_write_def)
  show "\<exists>d'. clock_step False (d, chip) = Inr (d', regs @ drop (unat n) chip) \<and> kept d' = kept d \<and> at_rest ok d'"
    using assms(1) by (auto simp: clock_step_def s writing_def drv_mcp7940x_tasks_def sub_task_write_registers_def
        i2c_task_def transfer_state_def i2c_get_state_def sub_task_end_def set_drv_state_def i2c_reset_def kept_def
        at_rest_def Let_def)
  show "\<exists>d'. clock_step True (d, chip) = Inr (d', chip) \<and> kept d' = kept d \<and> writing 2 n regs ok d'"
    using assms(1) by (auto simp: clock_step_def writing_def drv_mcp7940x_tasks_def sub_task_write_registers_def
        i2c_task_def transfer_state_def i2c_get_state_def kept_def Let_def)
qed

section \<open>Setting and reading the time\<close>

text \<open>The registers that hold a time, over old contents, and the time they hold.\<close>

definition encode_tm :: "tm \<Rightarrow> u8 list \<Rightarrow> u8 list" where
  "encode_tm t old =
     [(old ! 0 AND 0x80) OR dec2bcd (word_of_int (tm_sec t)), (old ! 1 AND 0x80) OR dec2bcd (word_of_int (tm_min t)),
      (old ! 2 AND 0xC0) OR dec2bcd (word_of_int (tm_hour t)), set_day (tm_wday t + 1) (old ! 3),
      (old ! 4 AND 0xC0) OR dec2bcd (word_of_int (tm_mday t)), (old ! 5 AND 0xC0) OR dec2bcd (word_of_int (tm_mon t + 1)),
      dec2bcd (word_of_int (tm_year t smod 100))]"

definition decode_tm :: "u8 list \<Rightarrow> tm" where
  "decode_tm r =
     zero_tm\<lparr>tm_sec := uint (bcd2dec (r ! 0 AND 0x7F)), tm_min := uint (bcd2dec (r ! 1 AND 0x7F)),
       tm_hour := uint (bcd2dec (r ! 2 AND 0x3F)), tm_wday := uint (r ! 3 AND 7) - 1,
       tm_mday := uint (bcd2dec (r ! 4 AND 0x3F)), tm_mon := uint (bcd2dec (r ! 5 AND 0x1F)) - 1,
       tm_year := uint (bcd2dec (r ! 6)) + 100\<rparr>"

definition oscillator_on :: "u8 list \<Rightarrow> bool" where
  "oscillator_on r \<longleftrightarrow> bit (r ! 0) 7 \<and> bit (r ! 3) 3"

lemma encode_length [simp]: "length (encode_tm t old) = 7"
  by (simp add: encode_tm_def)

lemma updating_writes:
  assumes "at_rest MCP7940X_STATE_UPDATING d" "take 7 (sys (drvData d)) = take 7 chip" "length chip = 32"
  shows "kept (updating d) = kept d \<and> writing 0 7 (encode_tm (ts_local (drvData d)) chip) MCP7940X_STATE_IDLE (updating d)"
proof -
  obtain s0 s1 s2 s3 s4 s5 s6 s7 s8 where s: "sys (drvData d) = [s0, s1, s2, s3, s4, s5, s6, s7, s8]"
    using assms(1) by (auto simp: at_rest_def numeral_eq_Suc length_Suc_conv)
  have c: "chip ! 0 = s0" "chip ! 1 = s1" "chip ! 2 = s2" "chip ! 3 = s3" "chip ! 4 = s4" "chip ! 5 = s5"
    using arg_cong [OF assms(2), of "\<lambda>l. l ! 0"] arg_cong [OF assms(2), of "\<lambda>l. l ! 1"]
      arg_cong [OF assms(2), of "\<lambda>l. l ! 2"] arg_cong [OF assms(2), of "\<lambda>l. l ! 3"]
      arg_cong [OF assms(2), of "\<lambda>l. l ! 4"] arg_cong [OF assms(2), of "\<lambda>l. l ! 5"] by (simp_all add: s)
  show ?thesis using assms(1)
    by (simp add: updating_def upd_reg_def set_params_def sub_task_init_def writing_def at_rest_def kept_def
        encode_tm_def s c c(2) [unfolded One_nat_def] REG_SECONDS_def Let_def)
qed

definition set_stage :: "tm \<Rightarrow> drv_callback option \<Rightarrow> (u32 \<times> t_MCP7940X_CALL_BACK_CONTEXT) list \<Rightarrow> u8 list \<Rightarrow>
    nat \<Rightarrow> mcp \<times> u8 list \<Rightarrow> bool" where
  "set_stage t c ds chip0 k w \<longleftrightarrow>
     length chip0 = 32 \<and>
     (case w of (d, chip) \<Rightarrow> kept d = (t, c, ds) \<and>
        (if k = 0 then at_rest MCP7940X_STATE_REFRESH_FOR_UPDATE d \<and> chip = chip0 \<and>
           rwParams (drvData d) = \<lparr>startAddress = 0, rw_length = 7, rw_data = Sys_s\<rparr>
         else if k < 4 then reading (k - 1) 7 MCP7940X_STATE_UPDATING d \<and> chip = chip0
         else if k = 4 then at_rest MCP7940X_STATE_UPDATING d \<and> chip = chip0 \<and> take 7 (sys (drvData d)) = take 7 chip
         else if k < 8 then writing (k - 5) 7 (encode_tm t chip0) MCP7940X_STATE_IDLE d \<and> chip = chip0
         else at_rest MCP7940X_STATE_IDLE d \<and> chip = encode_tm t chip0 @ drop 7 chip0))"

lemma serve_rest: "at_rest st d \<Longrightarrow> serve (d, chip) = (d, chip)"
  by (simp add: serve_def at_rest_def)

lemma nat_stages: "k < 8 \<Longrightarrow> k = 0 \<or> k = 1 \<or> k = 2 \<or> k = 3 \<or> k = 4 \<or> k = 5 \<or> k = 6 \<or> k = (7::nat)"
  by linarith

lemma set_stage_step:
  assumes "k < 8" "set_stage t c ds chip0 k w"
  shows "\<exists>w'. clock_step b w = Inr w' \<and> (set_stage t c ds chip0 (Suc k) w' \<or> b \<and> set_stage t c ds chip0 k w')"
proof -
  obtain d chip where w: "w = (d, chip)" by fastforce
  have cases: "k = 0 \<or> k = 1 \<or> k = 2 \<or> k = 3 \<or> k = 4 \<or> k = 5 \<or> k = 6 \<or> k = 7" by (rule nat_stages) fact
  have n: "(7 :: u8) \<le> 9" "unat (7 :: u8) = 7" by simp_all
  have step0: "clock_step b (d, chip) = Inr (mcp_state d, chip)" if "at_rest st d" for st
    using that by (simp add: clock_step_def serve_rest drv_mcp7940x_tasks_def) (simp add: at_rest_def)
  from cases show ?thesis
  proof (elim disjE)
    assume k: "k = 0"
    with assms(2) have "reading 0 7 MCP7940X_STATE_UPDATING (mcp_state d)" "kept (mcp_state d) = kept d"
      by (auto simp: w set_stage_def at_rest_def mcp_state_def i2c_get_state_def sub_task_init_def reading_def kept_def)
    with k assms(2) step0 show ?thesis by (auto simp: w set_stage_def)
  next
    assume k: "k = 1"
    with assms(2) have "reading 0 7 MCP7940X_STATE_UPDATING d" by (simp add: w set_stage_def)
    from reading_step [OF this, of b chip] k assms(2) show ?thesis by (auto simp: w set_stage_def)
  next
    assume k: "k = 2"
    with assms(2) have "reading 1 7 MCP7940X_STATE_UPDATING d" by (simp add: w set_stage_def)
    from reading_step [OF this, of b chip] k assms(2) show ?thesis by (auto simp: w set_stage_def numeral_2_eq_2)
  next
    assume k: "k = 3"
    with assms have "reading 2 7 MCP7940X_STATE_UPDATING d" "length chip = 32" by (simp_all add: w set_stage_def)
    from reading_last [OF this(1) n(1) this(2)] k assms(2) show ?thesis by (cases b) (auto simp: w set_stage_def)
  next
    assume k: "k = 4"
    with assms have r: "at_rest MCP7940X_STATE_UPDATING d" "take 7 (sys (drvData d)) = take 7 chip" "length chip = 32"
      and t: "ts_local (drvData d) = t" "chip = chip0" "kept d = (t, c, ds)" by (simp_all add: w set_stage_def kept_def)
    have "mcp_state d = updating d" using r(1) by (simp add: mcp_state_def at_rest_def i2c_get_state_def)
    with updating_writes [OF r] step0 [OF r(1)] t k r(3) show ?thesis by (auto simp: w set_stage_def)
  next
    assume k: "k = 5"
    with assms(2) have "writing 0 7 (encode_tm t chip0) MCP7940X_STATE_IDLE d" by (simp add: w set_stage_def)
    from writing_first [OF this n(1), of b chip] k assms(2) show ?thesis by (auto simp: w set_stage_def)
  next
    assume k: "k = 6"
    with assms(2) have "writing 1 7 (encode_tm t chip0) MCP7940X_STATE_IDLE d" by (simp add: w set_stage_def)
    from writing_second [OF this n(1), of b chip] k assms(2) show ?thesis by (auto simp: w set_stage_def)
  next
    assume k: "k = 7"
    with assms(2) have "writing 2 7 (encode_tm t chip0) MCP7940X_STATE_IDLE d" by (simp add: w set_stage_def)
    from writing_last [OF this, of chip] k assms(2) show ?thesis by (cases b) (auto simp: w set_stage_def)
  qed
qed

lemma set_stage_rest:
  assumes "set_stage t c ds chip0 8 w"
  shows "\<exists>w'. clock_step b w = Inr w' \<and> set_stage t c ds chip0 8 w'"
proof -
  obtain d chip where w: "w = (d, chip)" by fastforce
  with assms have "at_rest MCP7940X_STATE_IDLE d" by (simp add: set_stage_def)
  then have "clock_step b (d, chip) = Inr (d, chip)"
    by (simp add: clock_step_def serve_rest drv_mcp7940x_tasks_def) (simp add: at_rest_def mcp_state_def)
  with assms w show ?thesis by blast
qed

interpretation set_time: staged_task clock_step "set_stage t c ds chip0" 8
proof
  fix k w assume k: "k < 8" "set_stage t c ds chip0 k w"
  show "\<exists>w'. clock_step False w = Inr w' \<and> set_stage t c ds chip0 (Suc k) w'"
    using set_stage_step [OF k, of False] by blast
  show "\<exists>w'. clock_step True w = Inr w' \<and> (set_stage t c ds chip0 k w' \<or> set_stage t c ds chip0 (Suc k) w')"
    using set_stage_step [OF k, of True] by blast
qed (rule set_stage_rest)

definition get_stage :: "u32 \<Rightarrow> (u32 \<times> t_MCP7940X_CALL_BACK_CONTEXT) list \<Rightarrow> u8 list \<Rightarrow> nat \<Rightarrow> mcp \<times> u8 list \<Rightarrow> bool" where
  "get_stage f ds chip0 k w \<longleftrightarrow>
     length chip0 = 32 \<and> oscillator_on chip0 \<and>
     (case w of (d, chip) \<Rightarrow> chip = chip0 \<and> cb (drvData d) = Some (User_cb f) \<and>
        delivered d = ds @ (if k < 5 then [] else
          [(f, \<lparr>res = MCP7940X_RES_SUCCESS, ts = mktime (decode_tm chip), reliable = True\<rparr>)]) \<and>
        (if k = 0 then at_rest MCP7940X_STATE_REFRESH_DATA d \<and>
           rwParams (drvData d) = \<lparr>startAddress = 0, rw_length = 9, rw_data = Sys_s\<rparr>
         else if k < 4 then reading (k - 1) 9 MCP7940X_STATE_CHECK_ON d
         else if k = 4 then at_rest MCP7940X_STATE_CHECK_ON d \<and> take 9 (sys (drvData d)) = take 9 chip
         else at_rest MCP7940X_STATE_IDLE d))"

lemma kept_D: "kept d' = kept d \<Longrightarrow> cb (drvData d') = cb (drvData d) \<and> delivered d' = delivered d"
  by (simp add: kept_def)

lemma get_stage_step:
  assumes "k < 5" "get_stage f ds chip0 k w"
  shows "\<exists>w'. clock_step b w = Inr w' \<and> (get_stage f ds chip0 (Suc k) w' \<or> b \<and> get_stage f ds chip0 k w')"
proof -
  obtain d chip where w: "w = (d, chip)" by fastforce
  have cases: "k = 0 \<or> k = 1 \<or> k = 2 \<or> k = 3 \<or> k = 4" using assms(1) by linarith
  have n: "(9 :: u8) \<le> 9" "unat (9 :: u8) = 9" by simp_all
  have step0: "clock_step b (d, chip) = Inr (mcp_state d, chip)" if "at_rest st d" for st
    using that by (simp add: clock_step_def serve_rest drv_mcp7940x_tasks_def) (simp add: at_rest_def)
  from cases show ?thesis
  proof (elim disjE)
    assume k: "k = 0"
    with assms(2) have "reading 0 9 MCP7940X_STATE_CHECK_ON (mcp_state d)" "kept (mcp_state d) = kept d"
      by (auto simp: w get_stage_def at_rest_def mcp_state_def i2c_get_state_def sub_task_init_def reading_def kept_def)
    with k assms(2) step0 show ?thesis by (auto simp: w get_stage_def dest!: kept_D)
  next
    assume k: "k = 1"
    with assms(2) have "reading 0 9 MCP7940X_STATE_CHECK_ON d" by (simp add: w get_stage_def)
    from reading_step [OF this, of b chip] k assms(2) show ?thesis by (auto simp: w get_stage_def dest!: kept_D)
  next
    assume k: "k = 2"
    with assms(2) have "reading 1 9 MCP7940X_STATE_CHECK_ON d" by (simp add: w get_stage_def)
    from reading_step [OF this, of b chip] k assms(2) show ?thesis
      by (auto simp: w get_stage_def numeral_2_eq_2 dest!: kept_D)
  next
    assume k: "k = 3"
    with assms have "reading 2 9 MCP7940X_STATE_CHECK_ON d" "length chip = 32" by (simp_all add: w get_stage_def)
    from reading_last [OF this(1) n(1) this(2)] k assms(2) show ?thesis
      by (cases b) (auto simp: w get_stage_def dest!: kept_D)
  next
    assume k: "k = 4"
    with assms(2) have r: "at_rest MCP7940X_STATE_CHECK_ON d" "take 9 (sys (drvData d)) = take 9 chip" "length chip = 32"
      "oscillator_on chip" "cb (drvData d) = Some (User_cb f)" "delivered d = ds" "chip = chip0"
      by (simp_all add: w get_stage_def)
    have g: "sys (drvData d) ! i = chip ! i" if "i < 9" for i
      using arg_cong [OF r(2), of "\<lambda>l. l ! i"] that r(3) by simp
    have m: "mktime (decode_registers d) = mktime (decode_tm chip)"
      by (simp add: decode_registers_def decode_tm_def mktime_def day_number_def reg_def g)
    have "mcp_state d = check_on d" using r(1) by (simp add: mcp_state_def at_rest_def)
    moreover have "at_rest MCP7940X_STATE_IDLE (check_on d)" "cb (drvData (check_on d)) = Some (User_cb f)"
      "delivered (check_on d) = ds @ [(f, \<lparr>res = MCP7940X_RES_SUCCESS, ts = mktime (decode_tm chip), reliable = True\<rparr>)]"
      using r m by (simp_all add: check_on_def oscillator_on_def reg_def g call_cb_def set_drv_state_def at_rest_def Let_def)
    ultimately show ?thesis using step0 [OF r(1)] k assms(2) r(7) by (simp add: w get_stage_def)
  qed
qed

lemma get_stage_rest:
  assumes "get_stage f ds chip0 5 w"
  shows "\<exists>w'. clock_step b w = Inr w' \<and> get_stage f ds chip0 5 w'"
proof -
  obtain d chip where w: "w = (d, chip)" by fastforce
  with assms have "at_rest MCP7940X_STATE_IDLE d" by (simp add: get_stage_def)
  then have "clock_step b (d, chip) = Inr (d, chip)"
    by (simp add: clock_step_def serve_rest drv_mcp7940x_tasks_def) (simp add: at_rest_def mcp_state_def)
  with assms w show ?thesis by blast
qed

interpretation get_time: staged_task clock_step "get_stage f ds chip0" 5
proof
  fix k w assume k: "k < 5" "get_stage f ds chip0 k w"
  show "\<exists>w'. clock_step False w = Inr w' \<and> get_stage f ds chip0 (Suc k) w'"
    using get_stage_step [OF k, of False] by blast
  show "\<exists>w'. clock_step True w = Inr w' \<and> (get_stage f ds chip0 k w' \<or> get_stage f ds chip0 (Suc k) w')"
    using get_stage_step [OF k, of True] by blast
qed (rule get_stage_rest)

section \<open>The codec\<close>

lemma bcd_table:
  "list_all (\<lambda>n. bcd2dec (dec2bcd n) = n \<and> (n < 80 \<longrightarrow> dec2bcd n AND 0x7F = dec2bcd n) \<and>
     (n < 40 \<longrightarrow> dec2bcd n AND 0x3F = dec2bcd n) \<and> (n < 20 \<longrightarrow> dec2bcd n AND 0x1F = dec2bcd n))
   (map word_of_nat [0..<100])"
  by code_simp

lemma bcd_facts:
  fixes n :: int assumes "0 \<le> n" "n < 100"
  shows "uint (bcd2dec (dec2bcd (word_of_int n))) = n"
    "n < 80 \<Longrightarrow> dec2bcd (word_of_int n) AND 0x7F = dec2bcd (word_of_int n)"
    "n < 40 \<Longrightarrow> dec2bcd (word_of_int n) AND 0x3F = dec2bcd (word_of_int n)"
    "n < 20 \<Longrightarrow> dec2bcd (word_of_int n) AND 0x1F = dec2bcd (word_of_int n)"
proof -
  let ?n = "word_of_int n :: u8"
  have "?n = word_of_nat (nat n)" using assms by simp
  moreover have "nat n \<in> set [0..<100]" using assms by auto
  ultimately have "?n \<in> set (map word_of_nat [0..<100])" by auto
  with bcd_table have t: "bcd2dec (dec2bcd ?n) = ?n" "?n < 80 \<longrightarrow> dec2bcd ?n AND 0x7F = dec2bcd ?n"
    "?n < 40 \<longrightarrow> dec2bcd ?n AND 0x3F = dec2bcd ?n" "?n < 20 \<longrightarrow> dec2bcd ?n AND 0x1F = dec2bcd ?n"
    unfolding list_all_iff by blast+
  have u: "uint ?n = n" using assms by (simp add: unsigned_of_int take_bit_int_eq_self)
  then have l: "?n < word_of_nat k \<longleftrightarrow> n < int k" if "k < 256" for k
    using that by (simp add: word_less_def unsigned_of_nat take_bit_nat_eq_self)
  show "uint (bcd2dec (dec2bcd ?n)) = n" using t(1) u by simp
  show "n < 80 \<Longrightarrow> dec2bcd ?n AND 0x7F = dec2bcd ?n" using t(2) l [of 80] by simp
  show "n < 40 \<Longrightarrow> dec2bcd ?n AND 0x3F = dec2bcd ?n" using t(3) l [of 40] by simp
  show "n < 20 \<Longrightarrow> dec2bcd ?n AND 0x1F = dec2bcd ?n" using t(4) l [of 20] by simp
qed

lemma field_mask: "m AND k = 0 \<Longrightarrow> y AND k = y \<Longrightarrow> ((x AND m) OR y) AND k = (y :: u8)"
  by (simp add: bit.conj_disj_distrib2 and.assoc)

definition clock_tm :: "tm \<Rightarrow> bool" where
  "clock_tm t \<longleftrightarrow> 0 \<le> tm_sec t \<and> tm_sec t < 60 \<and> 0 \<le> tm_min t \<and> tm_min t < 60 \<and> 0 \<le> tm_hour t \<and> tm_hour t < 24 \<and>
     1 \<le> tm_mday t \<and> tm_mday t \<le> 31 \<and> 0 \<le> tm_mon t \<and> tm_mon t < 12 \<and> 100 \<le> tm_year t \<and> tm_year t < 200"

lemma decode_encode:
  assumes "clock_tm t"
  shows "mktime (decode_tm (encode_tm t old @ rest)) = mktime t"
proof -
  note r = assms [unfolded clock_tm_def]
  let ?d = "decode_tm (encode_tm t old @ rest)"
  have year: "tm_year t smod 100 = tm_year t - 100"
  proof -
    have "tm_year t smod 100 = tm_year t mod 100" using r by (simp add: smod_int_alt_def sgn_if)
    also have "\<dots> = (tm_year t - 100) mod 100" by (rule minus_mod_self2 [symmetric])
    also have "\<dots> = tm_year t - 100" using r by (intro mod_pos_pos_trivial) simp_all
    finally show ?thesis .
  qed
  have "tm_sec ?d = tm_sec t" "tm_min ?d = tm_min t" "tm_hour ?d = tm_hour t" "tm_mday ?d = tm_mday t"
    using r by (simp_all add: decode_tm_def encode_tm_def field_mask bcd_facts)
  moreover have "tm_mon ?d = tm_mon t" using r bcd_facts [of "tm_mon t + 1"]
    by (simp add: decode_tm_def encode_tm_def field_mask)
  moreover have "tm_year ?d = tm_year t" using r bcd_facts(1) [of "tm_year t - 100"]
    by (simp add: decode_tm_def encode_tm_def year)
  ultimately show ?thesis by (simp add: mktime_def day_number_def)
qed

lemma oscillator_encode:
  "oscillator_on old \<Longrightarrow> oscillator_on (encode_tm t old @ rest)"
  by (simp add: oscillator_on_def encode_tm_def set_day_def bit_or_iff bit_and_iff)

section \<open>Properties\<close>

text \<open>
  C22: The driver is safe: from initialisation on, for all answers of the I2C peripheral and of the
  delay service, all received data and all requests, every call returns without a fault (no copy
  from a NULL buffer or outside of a buffer), and the invariant holds: the buffers keep their
  lengths, no read is longer than the register buffer, a register transfer runs only with its
  parameters set, and the bus is idle whenever no register transfer is under way.
\<close>

theorem rtc_driver_safe:
  "\<exists>d. run mcp_step es (drv_mcp7940x_init reset_mcp) = Inr d \<and> mcp_inv d"
  by (rule rtc.run_safe [OF init_inv])

lemma set_request:
  assumes "at_rest MCP7940X_STATE_IDLE d" "length chip = 32"
  shows "set_stage t (cb (drvData d)) (delivered d) chip 0 (snd (mcp7940x_set_ts t d), chip)"
  using assms by (simp add: set_stage_def mcp7940x_set_ts_def at_rest_def set_params_def set_drv_state_def kept_def
      REG_SECONDS_def)

lemma get_request:
  assumes "at_rest MCP7940X_STATE_IDLE d" "length chip = 32" "oscillator_on chip"
  shows "get_stage f (delivered d) chip 0 (snd (mcp7940x_get_ts (Some (User_cb f)) d), chip)"
  using assms by (simp add: get_stage_def mcp7940x_get_ts_def at_rest_def set_params_def set_drv_state_def
      REG_SECONDS_def)

lemma set_get_run:
  assumes "at_rest MCP7940X_STATE_IDLE d" "length chip = 32" "oscillator_on chip" "clock_tm t"
    and "8 \<le> length (filter Not bs)" "5 \<le> length (filter Not bs')"
  shows "\<exists>d1 chip1 d2.
    run clock_step bs (snd (mcp7940x_set_ts t d), chip) = Inr (d1, chip1) \<and>
    run clock_step bs' (snd (mcp7940x_get_ts (Some (User_cb f)) d1), chip1) = Inr (d2, chip1) \<and>
    delivered d2 = delivered d @ [(f, \<lparr>res = MCP7940X_RES_SUCCESS, ts = mktime t, reliable = True\<rparr>)] \<and>
    mcp7940x_get_state d2 = MCP7940X_STATE_IDLE"
proof -
  from set_time.completes [OF set_request [OF assms(1,2), of t], of bs] assms(5)
  obtain d1 chip1 where 1: "run clock_step bs (snd (mcp7940x_set_ts t d), chip) = Inr (d1, chip1)"
    "at_rest MCP7940X_STATE_IDLE d1" "delivered d1 = delivered d" "chip1 = encode_tm t chip @ drop 7 chip"
    by (auto simp: set_stage_def kept_def)
  have c: "length chip1 = 32" "oscillator_on chip1" using assms(2,3) oscillator_encode by (simp_all add: 1(4))
  from get_time.completes [OF get_request [OF 1(2) c, of f], of bs'] assms(6)
  obtain d2 where 2: "run clock_step bs' (snd (mcp7940x_get_ts (Some (User_cb f)) d1), chip1) = Inr (d2, chip1)"
    "at_rest MCP7940X_STATE_IDLE d2"
    "delivered d2 = delivered d1 @ [(f, \<lparr>res = MCP7940X_RES_SUCCESS, ts = mktime (decode_tm chip1), reliable = True\<rparr>)]"
    by (auto simp: get_stage_def)
  with 1 decode_encode [OF assms(4), of chip "drop 7 chip"] show ?thesis
    by (auto simp: mcp7940x_get_state_def at_rest_def)
qed

text \<open>
  C21: Setting the time and reading it back: with the driver idle and a chip whose oscillator and
  battery bits are on, whatever its registers hold otherwise, a request to set a time of the years
  2000 to 2099 followed by a request to read it calls the caller back exactly once, with success
  and the very time, and the driver is idle again; for every schedule of polls, some of which find
  the bus busy, with eight ready polls for the first request and five for the second.
\<close>

theorem rtc_set_then_get:
  assumes "at_rest MCP7940X_STATE_IDLE d" "length chip = 32" "oscillator_on chip" "clock_tm t"
    and "8 \<le> length (filter Not bs)" "5 \<le> length (filter Not bs')"
  shows "\<exists>d1 chip1 d2.
    run clock_step bs (snd (mcp7940x_set_ts t d), chip) = Inr (d1, chip1) \<and>
    run clock_step bs' (snd (mcp7940x_get_ts (Some (User_cb f)) d1), chip1) = Inr (d2, chip1) \<and>
    delivered d2 = delivered d @ [(f, \<lparr>res = MCP7940X_RES_SUCCESS, ts = mktime t, reliable = True\<rparr>)] \<and>
    mcp7940x_get_state d2 = MCP7940X_STATE_IDLE"
  by (rule set_get_run) (use assms in simp_all)

text \<open>An idle driver and a running chip, and a schedule with busy polls, for the witnesses.\<close>

definition idle_mcp :: mcp where
  "idle_mcp = reset_mcp\<lparr>drvData := (drvData reset_mcp)\<lparr>sm_currentState := MCP7940X_STATE_IDLE,
     rwParams := \<lparr>startAddress = 0, rw_length = 9, rw_data = Sys_s\<rparr>\<rparr>\<rparr>"

definition running_chip :: "u8 list" where
  "running_chip = 0x80 # 0 # 0 # 0x28 # replicate 28 0"

lemma idle_mcp_rest: "at_rest MCP7940X_STATE_IDLE idle_mcp"
  by (simp add: at_rest_def idle_mcp_def reset_mcp_def)

lemma running_chip_on: "oscillator_on running_chip" "length running_chip = 32"
  by (simp_all add: oscillator_on_def running_chip_def)

theorem rtc_set_then_get_witness:
  "\<exists>d1 chip1 d2.
    run clock_step (replicate 8 False) (snd (mcp7940x_set_ts (gmtime 1718000000) idle_mcp), running_chip) = Inr (d1, chip1) \<and>
    run clock_step [True, False, False, True, True, False, False, False]
      (snd (mcp7940x_get_ts (Some (User_cb 7)) d1), chip1) = Inr (d2, chip1) \<and>
    delivered d2 = [(7, \<lparr>res = MCP7940X_RES_SUCCESS, ts = 1718000000, reliable = True\<rparr>)] \<and>
    mcp7940x_get_state d2 = MCP7940X_STATE_IDLE"
proof -
  let ?t = "\<lparr>tm_sec = 20, tm_min = 13, tm_hour = 6, tm_mday = 10, tm_mon = 5, tm_year = 124, tm_wday = 1,
    tm_yday = 161, tm_isdst = 0\<rparr> :: tm"
  have m: "mktime ?t = 1718000000"
    by (simp add: mktime_def day_number_def days_to_year_def days_to_month_def leap_def)
  have "valid_tm ?t"
    by (simp add: valid_tm_def day_number_def days_to_year_def days_to_month_def month_days_def leap_def)
  with gmtime_mktime [of ?t] m have g: "gmtime 1718000000 = ?t" by simp
  have "clock_tm ?t" by (simp add: clock_tm_def)
  from rtc_set_then_get [OF idle_mcp_rest running_chip_on(2,1) this, of "replicate 8 False"
      "[True, False, False, True, True, False, False, False]" 7]
  show ?thesis unfolding g m by (simp add: idle_mcp_def reset_mcp_def)
qed

text \<open>The driver will call no user back, until the next request.\<close>

definition forgot :: "mcp \<Rightarrow> bool" where
  "forgot d \<longleftrightarrow> mcp_inv d \<and> (cb (drvData d) = None \<or> cb (drvData d) = Some Init_cb \<or>
     \<not> started d \<and> \<not> is_register_task (subTask (subtaskData d)))"

fun environment :: "mcp_event \<Rightarrow> bool" where
  "environment (Poll e) = True"
| "environment (Receive bs) = True"
| "environment ev = False"

lemma transfer_frame [simp]:
  "cb (drvData (transfer_state d)) = cb (drvData d)" "delivered (transfer_state d) = delivered d"
  by (auto simp: transfer_state_def sub_task_previous_def sub_task_end_def set_drv_state_def i2c_reset_def Let_def
      split: t_BUSI2C_STATE.split)

lemma i2c_rw_frame:
  "i2c_rw a n b k s d = (ok, d') \<Longrightarrow> cb (drvData d') = cb (drvData d) \<and> delivered d' = delivered d"
  by (auto simp: i2c_rw_def split: if_splits)

lemma sub_task_frame [simp]:
  "cb (drvData (sub_task_next d)) = cb (drvData d)" "delivered (sub_task_next d) = delivered d"
  "cb (drvData (sub_task_end ok d)) = cb (drvData d)" "delivered (sub_task_end ok d) = delivered d"
  by (simp_all add: sub_task_next_def sub_task_end_def set_drv_state_def i2c_reset_def Let_def)

lemma register_task_keeps:
  "sub_task_read_registers e d = Inr d' \<Longrightarrow> cb (drvData d') = cb (drvData d) \<and> delivered d' = delivered d"
  "sub_task_write_registers e d = Inr d' \<Longrightarrow> cb (drvData d') = cb (drvData d) \<and> delivered d' = delivered d"
  by (auto simp: sub_task_read_registers_def sub_task_write_registers_def copy_registers_def seq_eq_Inr_iff Let_def
      dest!: i2c_rw_frame split: if_splits prod.splits)

lemma wait_keeps:
  "cb (drvData (sub_task_wait e d)) = cb (drvData d)" "delivered (sub_task_wait e d) = delivered d"
  by (simp_all add: sub_task_wait_def)

lemma wait_not_started:
  "mcp_inv d \<Longrightarrow> subTask (subtaskData d) = Some Sub_task_wait \<Longrightarrow>
     \<not> started (sub_task_wait e d) \<and> \<not> is_register_task (subTask (subtaskData (sub_task_wait e d)))"
  by (auto simp: sub_task_wait_def mcp_inv_def mcp_steps started_def is_register_task_def)

lemma mcp_state_forgot:
  assumes "cb (drvData d) = None \<or> cb (drvData d) = Some Init_cb \<or> \<not> started d"
  shows "delivered (mcp_state d) = delivered d \<and>
    (cb (drvData (mcp_state d)) = None \<or> cb (drvData (mcp_state d)) = Some Init_cb \<or>
     \<not> started (mcp_state d) \<and> \<not> is_register_task (subTask (subtaskData (mcp_state d))))"
  using assms
  by (cases "sm_currentState (drvData d)")
    (auto simp: mcp_state_def check_on_def call_cb_def turn_on_def updating_def upd_reg_def set_params_def
      set_drv_state_def sub_task_init_def started_def is_register_task_def Let_def)

lemma forgot_step:
  assumes "forgot d" "environment ev" "mcp_step ev d = Inr d'"
  shows "forgot d' \<and> delivered d' = delivered d"
proof -
  have inv: "mcp_inv d" using assms(1) by (simp add: forgot_def)
  then have inv': "mcp_inv d'" using mcp_step_inv [OF inv, of ev] assms(3) by simp
  show ?thesis
  proof (cases ev)
    case (Poll e)
    then have p: "drv_mcp7940x_tasks e d = Inr d'" using assms(3) by (simp add: mcp_step_def)
    show ?thesis
    proof (cases "subTask (subtaskData d)")
      case None
      with p have "d' = mcp_state d" by (simp add: drv_mcp7940x_tasks_def)
      with mcp_state_forgot [of d] assms(1) inv' show ?thesis by (auto simp: forgot_def)
    next
      case (Some s)
      show ?thesis
      proof (cases s)
        case Sub_task_wait
        with Some p have d': "d' = sub_task_wait e d" by (simp add: drv_mcp7940x_tasks_def)
        with wait_not_started [OF inv] Some Sub_task_wait inv' show ?thesis by (simp add: forgot_def wait_keeps)
      next
        case Sub_task_read_registers
        with Some p have "sub_task_read_registers e d = Inr d'" by (simp add: drv_mcp7940x_tasks_def)
        from register_task_keeps(1) [OF this] assms(1) Some Sub_task_read_registers inv' show ?thesis
          by (auto simp: forgot_def is_register_task_def)
      next
        case Sub_task_write_registers
        with Some p have "sub_task_write_registers e d = Inr d'" by (simp add: drv_mcp7940x_tasks_def)
        from register_task_keeps(2) [OF this] assms(1) Some Sub_task_write_registers inv' show ?thesis
          by (auto simp: forgot_def is_register_task_def)
      qed
    qed
  next
    case (Receive bs)
    then have d': "d' = i2c_receive bs d" using assms(3) by (simp add: mcp_step_def)
    have "cb (drvData d') = cb (drvData d)" "delivered d' = delivered d" "subtaskData d' = subtaskData d"
      "started d' = started d" by (simp_all add: d' i2c_receive_def started_def Let_def)
    with assms(1) inv' show ?thesis by (simp add: forgot_def)
  qed (use assms(2) in simp_all)
qed

lemma forgot_run:
  "forgot d \<Longrightarrow> list_all environment es \<Longrightarrow> \<exists>d'. run mcp_step es d = Inr d' \<and> delivered d' = delivered d"
proof (induction es arbitrary: d)
  case (Cons ev es)
  then have "mcp_inv d" by (simp add: forgot_def)
  from mcp_step_inv [OF this, of ev] obtain d1 where d1: "mcp_step ev d = Inr d1" by blast
  with forgot_step [OF Cons.prems(1) _ d1] Cons.prems(2) have "forgot d1" "delivered d1 = delivered d" by simp_all
  with Cons.IH [of d1] Cons.prems(2) d1 show ?case by simp
qed simp

text \<open>
  C24: A transfer that the chip does not acknowledge is not repeated, although the subtask goes back
  to its first state for that: the bus is still in the NAK state then, which the request takes
  for a transfer under way. Two polls after the NAK the driver is in its error state without a
  second transfer, and the request that was being served is lost: whatever the hardware answers
  from then on, nobody is called back, until somebody makes another request.
\<close>

theorem rtc_nak_loses_request:
  assumes "mcp_inv d" "reading 2 n ok d" "\<not> I2C5_IsBusy e" "I2C5_ErrorGet e = I2C_ERROR_NACK"
    and "list_all environment es"
  shows "\<exists>d1 d2. run mcp_step [Poll e, Poll e2] d = Inr d1 \<and>
    mcp7940x_get_state d1 = MCP7940X_STATE_ERROR \<and> bus d1 = bus d \<and>
    run mcp_step es d1 = Inr d2 \<and> delivered d2 = delivered d"
proof -
  let ?i = "(i2cData d)\<lparr>i2c_state := BUSI2C_STATE_NAK\<rparr>"
  let ?d1 = "d\<lparr>i2cData := ?i, subtaskData := (subtaskData d)\<lparr>sub_state := 0\<rparr>\<rparr>"
  have 1: "mcp_step (Poll e) d = Inr ?d1" using assms(2-4)
    by (auto simp: mcp_step_def reading_def drv_mcp7940x_tasks_def sub_task_read_registers_def i2c_task_def
        transfer_state_def i2c_get_state_def sub_task_previous_def Let_def)
  let ?d2 = "sub_task_end False (?d1\<lparr>read_sa := startAddress (rwParams (drvData d))\<rparr>)"
  have 2: "mcp_step (Poll e2) ?d1 = Inr ?d2" using assms(2)
    by (simp add: mcp_step_def reading_def drv_mcp7940x_tasks_def sub_task_read_registers_def i2c_task_def
        i2c_rw_def Let_def)
  have r: "run mcp_step [Poll e, Poll e2] d = Inr ?d2" using 1 2 by simp
  have err: "stateOnError (subtaskData d) = MCP7940X_STATE_ERROR" using assms(1,2) by (simp add: mcp_inv_def reading_def)
  have s: "mcp7940x_get_state ?d2 = MCP7940X_STATE_ERROR" "bus ?d2 = bus d" "delivered ?d2 = delivered d"
    "subTask (subtaskData ?d2) = None"
    using err by (simp_all add: mcp7940x_get_state_def sub_task_end_def set_drv_state_def i2c_reset_def Let_def)
  have "mcp_inv ?d2" using rtc.run_inv [OF assms(1) r] .
  with s(1,4) have "forgot ?d2" by (simp add: forgot_def started_def mcp7940x_get_state_def is_register_task_def)
  from forgot_run [OF this assms(5)] r s show ?thesis by auto
qed

text \<open>The state in which the answer to a request of user 7 is being received.\<close>

definition receiving_mcp :: mcp where
  "receiving_mcp = idle_mcp
     \<lparr>i2cData := \<lparr>i2c_tx = Read_sa, txLength = 1, i2c_rx = Sys_s, rxLength = 9,
        i2c_state = BUSI2C_STATE_IN_PROGRESS_RX, slaveAddressControlByte = MCP7940X_SLAVE_ADDRESS_CONTROL_BYTE\<rparr>,
      drvData := (drvData idle_mcp)\<lparr>sm_currentState := MCP7940X_STATE_REFRESH_DATA, cb := Some (User_cb 7)\<rparr>,
      subtaskData := \<lparr>stateOnSuccessful = MCP7940X_STATE_CHECK_ON, stateOnError = MCP7940X_STATE_ERROR,
        subTask = Some Sub_task_read_registers, sub_state = 1\<rparr>,
      bus := [Bus_write_read MCP7940X_SLAVE_ADDRESS_CONTROL_BYTE [0] 9]\<rparr>"

theorem rtc_nak_loses_request_witness:
  "\<exists>d1 d2. run mcp_step [Poll ((good_env False)\<lparr>I2C5_ErrorGet := I2C_ERROR_NACK\<rparr>), Poll (good_env False)] receiving_mcp = Inr d1 \<and>
    mcp7940x_get_state d1 = MCP7940X_STATE_ERROR \<and> bus d1 = bus receiving_mcp \<and>
    run mcp_step (replicate 20 (Poll (good_env False))) d1 = Inr d2 \<and> delivered d2 = []"
proof -
  have "mcp_inv receiving_mcp"
    by (simp add: mcp_inv_def receiving_mcp_def idle_mcp_def reset_mcp_def started_def is_register_task_def
        MCP7940X_MAX_BYTE_ADDRESS_def)
  moreover have "reading 2 9 MCP7940X_STATE_CHECK_ON receiving_mcp"
    by (simp add: reading_def receiving_mcp_def idle_mcp_def reset_mcp_def)
  moreover have "delivered receiving_mcp = []" by (simp add: receiving_mcp_def idle_mcp_def reset_mcp_def)
  ultimately show ?thesis
    using rtc_nak_loses_request [of receiving_mcp 9 MCP7940X_STATE_CHECK_ON
        "(good_env False)\<lparr>I2C5_ErrorGet := I2C_ERROR_NACK\<rparr>" "replicate 20 (Poll (good_env False))" "good_env False"]
    by (simp add: list_all_iff)
qed

end
