(* ===== verification/Pmz_Time.thy ===== *)
theory Pmz_Time
  imports Mcp7940x
begin

text \<open>
  The system time (\<open>drv/pmz_time.c\<close>): the internal real-time clock with its BCD registers
  (\<open>plib_rtcc.c\<close>), the external clock that is updated with it, and the conversion between UTC and
  local time with daylight saving time. The position of the fields in the two registers is that
  of the device header; the registers do not count by themselves here.
\<close>

section \<open>The internal clock\<close>

text \<open>\<open>plib_rtcc.c\<close>: positions and masks of the fields, and their decimal digits.\<close>

definition RTCTIME_HR10_MASK :: u32 where "RTCTIME_HR10_MASK = push_bit 28 (mask 2)"
definition RTCTIME_HR01_MASK :: u32 where "RTCTIME_HR01_MASK = push_bit 24 (mask 4)"
definition RTCTIME_MIN10_MASK :: u32 where "RTCTIME_MIN10_MASK = push_bit 20 (mask 3)"
definition RTCTIME_MIN01_MASK :: u32 where "RTCTIME_MIN01_MASK = push_bit 16 (mask 4)"
definition RTCTIME_SEC10_MASK :: u32 where "RTCTIME_SEC10_MASK = push_bit 12 (mask 3)"
definition RTCTIME_SEC01_MASK :: u32 where "RTCTIME_SEC01_MASK = push_bit 8 (mask 4)"
definition RTCDATE_YEAR10_MASK :: u32 where "RTCDATE_YEAR10_MASK = push_bit 28 (mask 4)"
definition RTCDATE_YEAR01_MASK :: u32 where "RTCDATE_YEAR01_MASK = push_bit 24 (mask 4)"
definition RTCDATE_MONTH10_MASK :: u32 where "RTCDATE_MONTH10_MASK = push_bit 20 (mask 1)"
definition RTCDATE_MONTH01_MASK :: u32 where "RTCDATE_MONTH01_MASK = push_bit 16 (mask 4)"
definition RTCDATE_DAY10_MASK :: u32 where "RTCDATE_DAY10_MASK = push_bit 12 (mask 2)"
definition RTCDATE_DAY01_MASK :: u32 where "RTCDATE_DAY01_MASK = push_bit 8 (mask 4)"
definition RTCDATE_WDAY01_MASK :: u32 where "RTCDATE_WDAY01_MASK = mask 3"

lemmas rtcc_masks = RTCTIME_HR10_MASK_def RTCTIME_HR01_MASK_def RTCTIME_MIN10_MASK_def RTCTIME_MIN01_MASK_def
  RTCTIME_SEC10_MASK_def RTCTIME_SEC01_MASK_def RTCDATE_YEAR10_MASK_def RTCDATE_YEAR01_MASK_def
  RTCDATE_MONTH10_MASK_def RTCDATE_MONTH01_MASK_def RTCDATE_DAY10_MASK_def RTCDATE_DAY01_MASK_def
  RTCDATE_WDAY01_MASK_def

definition decimaltobcd :: "u32 \<Rightarrow> u32" where
  "decimaltobcd aDecValue =
     (let decValueDiv10 = aDecValue div 10 in push_bit 4 decValueDiv10 + (aDecValue - decValueDiv10 * 10))"

definition bcdtodecimal :: "u32 \<Rightarrow> u32" where
  "bcdtodecimal aBcdValue = 10 * drop_bit 4 (aBcdValue AND 0xF0) + (aBcdValue AND 0x0F)"

record rtcc =
  RTCTIME :: u32
  RTCDATE :: u32

definition RTCC_TimeSet :: "tm \<Rightarrow> rtcc \<Rightarrow> rtcc" where
  "RTCC_TimeSet t r =
     (let timeField = push_bit 24 (decimaltobcd (word_of_int (tm_hour t))) AND (RTCTIME_HR10_MASK OR RTCTIME_HR01_MASK);
          timeField = timeField OR
            (push_bit 16 (decimaltobcd (word_of_int (tm_min t))) AND (RTCTIME_MIN10_MASK OR RTCTIME_MIN01_MASK));
          timeField = timeField OR
            (push_bit 8 (decimaltobcd (word_of_int (tm_sec t))) AND (RTCTIME_SEC10_MASK OR RTCTIME_SEC01_MASK));
          dateField = push_bit 24 (decimaltobcd (word_of_int (tm_year t) mod 100)) AND (RTCDATE_YEAR01_MASK OR RTCDATE_YEAR10_MASK);
          dateField = dateField OR
            (push_bit 16 (decimaltobcd (word_of_int (tm_mon t) + 1)) AND (RTCDATE_MONTH01_MASK OR RTCDATE_MONTH10_MASK));
          dateField = dateField OR
            (push_bit 8 (decimaltobcd (word_of_int (tm_mday t))) AND (RTCDATE_DAY01_MASK OR RTCDATE_DAY10_MASK));
          dateField = dateField OR (decimaltobcd (word_of_int (tm_wday t)) AND RTCDATE_WDAY01_MASK)
      in r\<lparr>RTCTIME := timeField, RTCDATE := dateField\<rparr>)"

definition two_digits :: "u32 \<Rightarrow> u32 \<Rightarrow> nat \<Rightarrow> u32 \<Rightarrow> nat \<Rightarrow> u32" where
  "two_digits data m10 p10 m01 p01 =
     10 * bcdtodecimal (drop_bit p10 (data AND m10)) + bcdtodecimal (drop_bit p01 (data AND m01))"

definition RTCC_TimeGet :: "rtcc \<Rightarrow> tm" where
  "RTCC_TimeGet r =
     \<lparr>tm_sec = sint (two_digits (RTCTIME r) RTCTIME_SEC10_MASK 12 RTCTIME_SEC01_MASK 8),
      tm_min = sint (two_digits (RTCTIME r) RTCTIME_MIN10_MASK 20 RTCTIME_MIN01_MASK 16),
      tm_hour = sint (two_digits (RTCTIME r) RTCTIME_HR10_MASK 28 RTCTIME_HR01_MASK 24),
      tm_mday = sint (two_digits (RTCDATE r) RTCDATE_DAY10_MASK 12 RTCDATE_DAY01_MASK 8),
      tm_mon = sint (two_digits (RTCDATE r) RTCDATE_MONTH10_MASK 20 RTCDATE_MONTH01_MASK 16 - 1),
      tm_year = sint (two_digits (RTCDATE r) RTCDATE_YEAR10_MASK 28 RTCDATE_YEAR01_MASK 24 + 100),
      tm_wday = sint (bcdtodecimal (RTCDATE r AND RTCDATE_WDAY01_MASK)),
      tm_yday = 0, tm_isdst = 0\<rparr>"

section \<open>System time\<close>

record pmz_time =
  utc_t :: tm
  utc_ts :: int
  sysTimeIsReliable :: bool
  rtcc :: rtcc
  external :: mcp

definition isDst :: "tm \<Rightarrow> bool" where
  "isDst t =
     (if tm_mon t < 2 \<or> tm_mon t > 9 then False
      else if tm_mon t > 2 \<and> tm_mon t < 9 then True
      else
        let daysRemainigUntilNextSunday = 7 - tm_wday t;
            remainingDaysOfMonth = 31 - tm_mday t;
            st = tm_hour t * 60 + tm_min t;
            dst = daysRemainigUntilNextSunday > remainingDaysOfMonth \<and>
              (tm_wday t \<noteq> 0 \<or> tm_wday t = 0 \<and> st \<ge> 60)
        in if tm_mon t = 2 \<and> dst then True
           else if tm_mon t = 9 \<and> \<not> dst then True
           else False)"

definition pmz_time_get_s :: "pmz_time \<Rightarrow> tm \<times> pmz_time" where
  "pmz_time_get_s p = (let p = p\<lparr>utc_t := RTCC_TimeGet (rtcc p)\<rparr> in (utc_t p, p))"

text \<open>\<open>mktime\<close> also completes the structure it is given.\<close>

definition pmz_time_get :: "pmz_time \<Rightarrow> int \<times> pmz_time" where
  "pmz_time_get p =
     (let p = p\<lparr>utc_t := RTCC_TimeGet (rtcc p)\<rparr>;
          p = p\<lparr>utc_ts := mktime (utc_t p), utc_t := gmtime (mktime (utc_t p))\<rparr>
      in (utc_ts p, p))"

definition update_external_rtcc :: "pmz_time \<Rightarrow> pmz_time" where
  "update_external_rtcc p =
     (let (t, p) = pmz_time_get_s p in p\<lparr>external := snd (mcp7940x_set_ts t (external p))\<rparr>)"

definition pmz_time_set_s :: "tm \<Rightarrow> pmz_time \<Rightarrow> pmz_time" where
  "pmz_time_set_s t p = update_external_rtcc (p\<lparr>rtcc := RTCC_TimeSet t (rtcc p)\<rparr>)"

definition pmz_time_set :: "int \<Rightarrow> bool \<Rightarrow> pmz_time \<Rightarrow> pmz_time" where
  "pmz_time_set t updateExternalRTCC p =
     (let p = snd (pmz_time_get p);
          p = p\<lparr>utc_t := gmtime t\<rparr>;
          p = p\<lparr>rtcc := RTCC_TimeSet (utc_t p) (rtcc p)\<rparr>;
          p = (if updateExternalRTCC then update_external_rtcc p else p)
      in p\<lparr>sysTimeIsReliable := True\<rparr>)"

definition pmz_time_is_reliable :: "pmz_time \<Rightarrow> bool" where
  "pmz_time_is_reliable p = sysTimeIsReliable p"

definition pmz_time_utc_to_local :: "int \<Rightarrow> int" where
  "pmz_time_utc_to_local utc = (if isDst (gmtime utc) then utc + 7200 else utc + 3600)"

definition pmz_time_local_to_utc :: "int \<Rightarrow> int" where
  "pmz_time_local_to_utc local = (if isDst (gmtime local) then local - 7200 else local - 3600)"

section \<open>Summer time\<close>

text \<open>The last Sunday of a month of 31 days, as a day number, and the summer time of a year.\<close>

definition last_sunday :: "int \<Rightarrow> int \<Rightarrow> int" where
  "last_sunday y m = (let e = days_to_year y + days_to_month y m + 30 in e - (e + 4) mod 7)"

definition dst_start :: "int \<Rightarrow> int" where "dst_start y = last_sunday y 2 * 86400 + 3600"
definition dst_end :: "int \<Rightarrow> int" where "dst_end y = last_sunday y 9 * 86400 + 3600"

definition year_of :: "int \<Rightarrow> int" where "year_of t = tm_year (gmtime t) + 1900"

lemma sunday_test:
  fixes D e :: int
  defines "L \<equiv> e - (e + 4) mod 7" and "w \<equiv> (D + 4) mod 7"
  assumes "D \<le> e"
  shows "7 - w > e - D \<longleftrightarrow> L \<le> D" "L \<le> D \<Longrightarrow> w = 0 \<longleftrightarrow> D = L" "e - 6 \<le> L" "L \<le> e"
proof -
  define q r b where "q = (D + 4) div 7" and "r = (e + 4) div 7" and "b = (e + 4) mod 7"
  have D: "D = 7 * q + w - 4" and e: "e = 7 * r + b - 4" by (simp_all add: q_def r_def b_def w_def)
  have w: "0 \<le> w" "w < 7" and b: "0 \<le> b" "b < 7" by (simp_all add: w_def b_def)
  have L: "L = 7 * r - 4" unfolding L_def b_def [symmetric] using e by simp
  consider "r \<le> q" | "q + 1 \<le> r" by linarith
  then have k: "(7 - w > e - D \<longleftrightarrow> r \<le> q) \<and> (L \<le> D \<longleftrightarrow> r \<le> q)"
  proof cases
    case 1
    with D e L w b have "7 - w > e - D" "L \<le> D" by linarith+
    with 1 show ?thesis by simp
  next
    case 2
    with D e L w b have "\<not> 7 - w > e - D" "\<not> L \<le> D" by linarith+
    with 2 show ?thesis by simp
  qed
  then show "7 - w > e - D \<longleftrightarrow> L \<le> D" by simp
  assume "L \<le> D"
  with k have "r \<le> q" by simp
  moreover have "q \<le> r" using assms(3) D e w b by linarith
  ultimately have "D = L + w" using D L by simp
  then show "w = 0 \<longleftrightarrow> D = L" by simp
next
  define r b where "r = (e + 4) div 7" and "b = (e + 4) mod 7"
  have b: "0 \<le> b" "b < 7" by (simp_all add: b_def)
  have L: "L = e - b" by (simp add: L_def b_def)
  show "e - 6 \<le> L" "L \<le> e" unfolding L using b by simp_all
qed

lemma month_starts:
  "days_to_month y 2 + 31 = days_to_month y 3" "days_to_month y 9 + 31 = days_to_month y 10"
  "days_to_month y 3 + 183 = days_to_month y 9"
  by (simp_all add: days_to_month_def)


lemma isDst_valid:
  assumes v: "valid_tm t"
  defines "y \<equiv> tm_year t + 1900"
  shows "isDst t \<longleftrightarrow> dst_start y \<le> mktime t \<and> mktime t < dst_end y"
proof -
  let ?D = "day_number t" and ?S = "day_second t" and ?Y = "days_to_year y" and ?M = "days_to_month y"
  have m: "0 \<le> tm_mon t" "tm_mon t < 12" "1 \<le> tm_mday t" "tm_mday t \<le> month_days y (tm_mon t)"
    using v by (simp_all add: valid_tm_def y_def)
  have D: "?D = ?Y + ?M (tm_mon t) + tm_mday t - 1" using m by (simp add: day_number_valid y_def)
  have S: "0 \<le> ?S" "?S < 86400" using day_second_range [OF v] by simp_all
  have t: "mktime t = ?D * 86400 + ?S" by (rule mktime_split)
  have wd: "tm_wday t = (?D + 4) mod 7" using v by (simp add: valid_tm_def)
  let ?e = "\<lambda>n. ?Y + ?M n + 30"
  have Ls: "?e n - 6 \<le> last_sunday y n" "last_sunday y n \<le> ?e n" for n
    using sunday_test(3,4) [of "?e n" "?e n"] by (simp_all add: last_sunday_def Let_def)
  have st: "60 \<le> tm_hour t * 60 + tm_min t \<longleftrightarrow> 3600 \<le> ?S"
    using v by (auto simp: day_second_def valid_tm_def)
  have before: "x < c" if "d < e" "0 \<le> r" "r < 86400" "x = d * 86400 + r" "c = e * 86400 + 3600" for x c d e r :: int
    using that by linarith
  have after: "c \<le> x" if "e < d" "0 \<le> r" "r < 86400" "x = d * 86400 + r" "c = e * 86400 + 3600" for x c d e r :: int
    using that by linarith
  have mono: "tm_mon t < n \<Longrightarrow> n \<le> 12 \<Longrightarrow> ?D < ?Y + ?M n" for n
    using days_to_month_mono [of "tm_mon t" n y] m D by linarith
  have mono': "n < tm_mon t \<Longrightarrow> 0 \<le> n \<Longrightarrow> ?Y + ?M n + month_days y n \<le> ?D" for n
    using days_to_month_mono [of n "tm_mon t" y] m D by linarith
  consider "tm_mon t < 2" | "tm_mon t = 2" | "2 < tm_mon t" "tm_mon t < 9" | "tm_mon t = 9" | "9 < tm_mon t" by linarith
  then show ?thesis
  proof cases
    case 1
    then have "?D < last_sunday y 2" using mono [of 2] Ls(1) [of 2] by linarith
    from before [OF this S t dst_start_def] 1 show ?thesis by (simp add: isDst_def)
  next
    case 2
    have len: "month_days y 2 = 31" using month_starts(1) [of y] by (simp add: month_days_def)
    then have De: "?D \<le> ?e 2" using D m 2 by simp
    have rem: "31 - tm_mday t = ?e 2 - ?D" using D 2 by simp
    have "?D < last_sunday y 9" using De Ls(1) [of 9] month_starts [of y] by linarith
    then have up: "mktime t < dst_end y" by (rule before [OF _ S t dst_end_def])
    have L: "last_sunday y 2 = ?e 2 - (?e 2 + 4) mod 7" by (simp add: last_sunday_def Let_def)
    note test = sunday_test(1,2) [OF De, folded L wd]
    show ?thesis
    proof (cases "?D = last_sunday y 2")
      case True
      then have "dst_start y \<le> mktime t \<longleftrightarrow> 3600 \<le> ?S" by (simp add: dst_start_def t)
      then show ?thesis using 2 test True up rem st by (simp add: isDst_def Let_def)
    next
      case False
      have "dst_start y \<le> mktime t \<longleftrightarrow> last_sunday y 2 \<le> ?D"
        using before [OF _ S t dst_start_def, of y] after [OF _ S t dst_start_def, of y] False by linarith
      then show ?thesis using 2 test False up rem by (auto simp: isDst_def Let_def)
    qed
  next
    case 3
    have "last_sunday y 2 < ?D" using Ls(2) [of 2] mono' [of 2] 3 month_starts(1) [of y] by (simp add: month_days_def)
    then have lo: "dst_start y \<le> mktime t" by (rule after [OF _ S t dst_start_def])
    have "?D < last_sunday y 9" using mono [of 9] Ls(1) [of 9] 3 by linarith
    then have "mktime t < dst_end y" by (rule before [OF _ S t dst_end_def])
    with lo 3 show ?thesis by (simp add: isDst_def)
  next
    case 4
    have len: "month_days y 9 = 31" using month_starts(2) [of y] by (simp add: month_days_def)
    then have De: "?D \<le> ?e 9" using D m 4 by simp
    have rem: "31 - tm_mday t = ?e 9 - ?D" using D 4 by simp
    have "last_sunday y 2 < ?D" using D m 4 Ls(2) [of 2] month_starts [of y] by simp
    then have lo: "dst_start y \<le> mktime t" by (rule after [OF _ S t dst_start_def])
    have L: "last_sunday y 9 = ?e 9 - (?e 9 + 4) mod 7" by (simp add: last_sunday_def Let_def)
    note test = sunday_test(1,2) [OF De, folded L wd]
    show ?thesis
    proof (cases "?D = last_sunday y 9")
      case True
      then have "mktime t < dst_end y \<longleftrightarrow> \<not> 3600 \<le> ?S" by (auto simp: dst_end_def t)
      then show ?thesis using 4 test True lo rem st by (simp add: isDst_def Let_def)
    next
      case False
      have "mktime t < dst_end y \<longleftrightarrow> \<not> last_sunday y 9 \<le> ?D"
        using before [OF _ S t dst_end_def, of y] after [OF _ S t dst_end_def, of y] False by linarith
      then show ?thesis using 4 test False lo rem by (auto simp: isDst_def Let_def)
    qed
  next
    case 5
    have "last_sunday y 9 < ?D" using Ls(2) [of 9] mono' [of 9] 5 month_starts(2) [of y] by (simp add: month_days_def)
    from after [OF this S t dst_end_def] 5 show ?thesis by (simp add: isDst_def)
  qed
qed

lemma year_of_bounds:
  assumes "0 \<le> t"
  shows "days_to_year (year_of t) * 86400 \<le> t" "t < days_to_year (year_of t + 1) * 86400"
proof -
  let ?g = "gmtime t"
  have v: "valid_tm ?g" and m: "mktime ?g = t" using gmtime_valid [OF assms] by simp_all
  have "day_number ?g = days_to_year (year_of t) + tm_yday ?g" using v by (simp add: valid_tm_def year_of_def)
  moreover have "0 \<le> tm_yday ?g" "tm_yday ?g < year_days (year_of t)" using valid_tm_year [OF v] by (simp_all add: year_of_def)
  moreover have "days_to_year (year_of t + 1) = days_to_year (year_of t) + year_days (year_of t)" by (rule days_to_year_Suc)
  moreover have "t = day_number ?g * 86400 + day_second ?g" using mktime_split [of ?g] m by simp
  moreover have "0 \<le> day_second ?g" "day_second ?g < 86400" using day_second_range [OF v] by simp_all
  ultimately show "days_to_year (year_of t) * 86400 \<le> t" "t < days_to_year (year_of t + 1) * 86400" by linarith+
qed

lemma days_to_year_le: "y \<le> y' \<Longrightarrow> days_to_year y \<le> days_to_year y'"
  using days_to_year_mono [of y y'] year_days_pos [of y] by (cases "y = y'") simp_all

lemma year_of_mono:
  assumes "0 \<le> t" "t \<le> u" shows "year_of t \<le> year_of u"
proof (rule ccontr)
  assume "\<not> year_of t \<le> year_of u"
  then have "days_to_year (year_of u + 1) \<le> days_to_year (year_of t)" by (intro days_to_year_le) simp
  with year_of_bounds [OF assms(1)] year_of_bounds [of u] assms show False by linarith
qed

lemma dst_in_year:
  "days_to_year y * 86400 + 7200 < dst_start y" "dst_start y + 86400 < dst_end y"
  "dst_end y + 7200 < days_to_year (y + 1) * 86400"
proof -
  let ?L = "last_sunday y"
  have e: "(x + 4) mod 7 \<ge> 0" "(x + 4) mod 7 < (7 :: int)" for x by simp_all
  have L: "?L n \<le> days_to_year y + days_to_month y n + 30" "days_to_year y + days_to_month y n + 24 \<le> ?L n" for n
    using e [of "days_to_year y + days_to_month y n + 30"] by (simp_all add: last_sunday_def Let_def)
  have M: "59 \<le> days_to_month y 2" "days_to_month y 2 + 100 \<le> days_to_month y 9"
    "days_to_month y 9 + 92 = year_days y"
    by (simp_all add: days_to_month_def year_days_def)
  show "days_to_year y * 86400 + 7200 < dst_start y" "dst_start y + 86400 < dst_end y"
    using L [of 2] L [of 9] M unfolding dst_start_def dst_end_def by linarith+
  have "?L 9 + 1 < days_to_year (y + 1)" using L(1) [of 9] M(3) days_to_year_Suc [of y] by linarith
  then show "dst_end y + 7200 < days_to_year (y + 1) * 86400" unfolding dst_end_def by linarith
qed

text \<open>
  C23: Summer time is that of the European Union: the test says yes exactly from the last Sunday of
  March, 01:00 UTC, to the last Sunday of October, 01:00 UTC, for every time from 1970 on.
\<close>

theorem isDst_summer_time:
  assumes "0 \<le> t"
  shows "isDst (gmtime t) \<longleftrightarrow> dst_start (year_of t) \<le> t \<and> t < dst_end (year_of t)"
  using isDst_valid [OF gmtime_valid(1) [OF assms]] gmtime_valid(3) [OF assms] by (simp add: year_of_def)

theorem isDst_summer_time_witness:
  "isDst (gmtime 1718000000) \<longleftrightarrow> dst_start (year_of 1718000000) \<le> 1718000000 \<and> 1718000000 < dst_end (year_of 1718000000)"
  by (rule isDst_summer_time) simp

lemma isDst_iff: "0 \<le> t \<Longrightarrow> isDst (gmtime t) \<longleftrightarrow> dst_start (year_of t) \<le> t \<and> t < dst_end (year_of t)"
  using isDst_valid [OF gmtime_valid(1)] gmtime_valid(3) by (simp add: year_of_def)

text \<open>
  C27: Converting to local time and back gives the time again, except around the changes: in the hour
  before summer time starts it comes back an hour early, and in the two hours before it ends an
  hour late. The way back asks the summer time test with the local time as if it were UTC.
\<close>

theorem local_time_round_trip:
  assumes "0 \<le> t"
  defines "y \<equiv> year_of t"
  shows "pmz_time_local_to_utc (pmz_time_utc_to_local t) =
    (if dst_start y - 3600 \<le> t \<and> t < dst_start y then t - 3600
     else if dst_end y - 7200 \<le> t \<and> t < dst_end y then t + 3600 else t)"
proof -
  let ?l = "pmz_time_utc_to_local t"
  have T: "isDst (gmtime t) \<longleftrightarrow> dst_start y \<le> t \<and> t < dst_end y" using isDst_iff [OF assms(1)] by (simp add: y_def)
  have l: "?l = (if dst_start y \<le> t \<and> t < dst_end y then t + 7200 else t + 3600)"
    by (simp add: pmz_time_utc_to_local_def T)
  then have l0: "0 \<le> ?l" "t \<le> ?l" "?l \<le> t + 7200" using assms(1) by (simp_all split: if_splits)
  note L = isDst_iff [OF l0(1)]
  have yl: "y \<le> year_of ?l" unfolding y_def using assms(1) l0(2) by (rule year_of_mono)
  show ?thesis
  proof (cases "year_of ?l = y")
    case True
    with L l dst_in_year(2) [of y] show ?thesis by (auto simp: pmz_time_local_to_utc_def)
  next
    case False
    then have "days_to_year (y + 1) \<le> days_to_year (year_of ?l)" using yl by (intro days_to_year_le) simp
    then have n: "days_to_year (y + 1) * 86400 \<le> ?l" using year_of_bounds(1) [OF l0(1)] by linarith
    have t: "t < days_to_year (y + 1) * 86400" using year_of_bounds(2) [OF assms(1)] by (simp add: y_def)
    have "\<not> isDst (gmtime ?l)"
    proof -
      have "?l < days_to_year (year_of ?l) * 86400 + 7200"
        using t l0(3) \<open>days_to_year (y + 1) \<le> days_to_year (year_of ?l)\<close> by linarith
      with dst_in_year(1) [of "year_of ?l"] L show ?thesis by simp
    qed
    moreover have "dst_end y \<le> t" using n l0(3) dst_in_year(3) [of y] by linarith
    moreover have "dst_start y < dst_end y" using dst_in_year(2) [of y] by simp
    ultimately show ?thesis using l by (simp add: pmz_time_local_to_utc_def)
  qed
qed

theorem local_time_round_trip_witness:
  "pmz_time_local_to_utc (pmz_time_utc_to_local 1711846799) = 1711843199 \<and>
   pmz_time_local_to_utc (pmz_time_utc_to_local 1718000000) = 1718000000"
proof -
  have z: "find_year 1970 19813 = (2024, 90)" "find_year 1970 19884 = (2024, 161)"
    by (simp_all add: find_year.simps year_days_def leap_def)
  have y: "year_of 1711846799 = 2024" "year_of 1718000000 = 2024"
    using z by (simp_all add: year_of_def gmtime_def Let_def split: prod.split)
  have "dst_start 2024 = 1711846800" "dst_end 2024 = 1729990800"
    by (simp_all add: dst_start_def dst_end_def last_sunday_def days_to_year_def days_to_month_def leap_def Let_def)
  with local_time_round_trip [of 1711846799] local_time_round_trip [of 1718000000] y show ?thesis by simp
qed

section \<open>The registers of the internal clock\<close>

lemma bcd32_table:
  "list_all (\<lambda>n. drop_bit 4 (decimaltobcd n) = n div 10 \<and> decimaltobcd n AND mask 4 = n mod 10 \<and>
     bcdtodecimal (n div 10) = n div 10 \<and> bcdtodecimal (n mod 10) = n mod 10) (map word_of_nat [0..<100])"
  by code_simp

lemma bcd32:
  assumes "k < 100"
  defines "n \<equiv> word_of_nat k :: u32"
  shows "drop_bit 4 (decimaltobcd n) = n div 10" "decimaltobcd n AND mask 4 = n mod 10"
    "bcdtodecimal (n div 10) = n div 10" "bcdtodecimal (n mod 10) = n mod 10"
proof -
  have "n \<in> set (map word_of_nat [0..<100])" using assms by auto
  with bcd32_table show "drop_bit 4 (decimaltobcd n) = n div 10" "decimaltobcd n AND mask 4 = n mod 10"
    "bcdtodecimal (n div 10) = n div 10" "bcdtodecimal (n mod 10) = n mod 10"
    unfolding list_all_iff by blast+
qed

lemma tens_digit:
  "p + 4 + w \<le> 32 \<Longrightarrow> drop_bit (p + 4) (push_bit p b AND push_bit (p + 4) (mask w)) = drop_bit 4 b AND mask w"
  for b :: u32
  by (rule bit_eqI) (auto simp: bit_simps add.commute)

lemma ones_digit:
  "p + 4 \<le> 32 \<Longrightarrow> drop_bit p (push_bit p b AND push_bit p (mask 4)) = b AND mask 4" for b :: u32
  by (rule bit_eqI) (auto simp: bit_simps)

lemma two_digits_field:
  assumes "data AND m10 = push_bit p (decimaltobcd (word_of_nat k)) AND m10"
    and "data AND m01 = push_bit p (decimaltobcd (word_of_nat k)) AND m01"
    and "m10 = push_bit (p + 4) (mask w)" "m01 = push_bit p (mask 4)"
    and "k < 100" "k div 10 < 2 ^ w" "p + 4 + w \<le> 32"
  shows "two_digits data m10 (p + 4) m01 p = word_of_nat k"
proof -
  let ?n = "word_of_nat k :: u32"
  have u: "unat ?n = k" using assms(5) by (simp add: unsigned_of_nat take_bit_nat_eq_self)
  have "unat (?n div 10) = k div 10" by (simp add: unat_div u)
  then have "take_bit w (?n div 10) = ?n div 10" using assms(6)
    unfolding word_unat_eq_iff by (simp add: unsigned_take_bit_eq take_bit_nat_eq_self)
  then have t: "drop_bit 4 (decimaltobcd ?n) AND mask w = ?n div 10"
    unfolding bcd32(1) [OF assms(5)] take_bit_eq_mask .
  have "drop_bit (p + 4) (data AND m10) = ?n div 10"
    unfolding assms(1) unfolding assms(3) tens_digit [OF assms(7)] by (rule t)
  moreover have "drop_bit p (data AND m01) = ?n mod 10"
    unfolding assms(2) unfolding assms(4) using assms(7) bcd32(2) [OF assms(5)] by (simp only: ones_digit)
  ultimately have "two_digits data m10 (p + 4) m01 p = 10 * (?n div 10) + ?n mod 10"
    unfolding two_digits_def by (simp only: bcd32(3,4) [OF assms(5)])
  also have "\<dots> = ?n" by (rule mult_div_mod_eq)
  finally show ?thesis .
qed

lemma mask_values:
  "RTCTIME_HR10_MASK = 0x30000000" "RTCTIME_HR01_MASK = 0x0F000000" "RTCTIME_MIN10_MASK = 0x00700000"
  "RTCTIME_MIN01_MASK = 0x000F0000" "RTCTIME_SEC10_MASK = 0x7000" "RTCTIME_SEC01_MASK = 0xF00"
  "RTCDATE_YEAR10_MASK = 0xF0000000" "RTCDATE_YEAR01_MASK = 0x0F000000" "RTCDATE_MONTH10_MASK = 0x00100000"
  "RTCDATE_MONTH01_MASK = 0x000F0000" "RTCDATE_DAY10_MASK = 0x3000" "RTCDATE_DAY01_MASK = 0xF00"
  "RTCDATE_WDAY01_MASK = 7"
  by (simp_all add: rtcc_masks mask_eq_exp_minus_1 push_bit_eq_mult)

lemma time_fields:
  fixes a b c :: u32
  defines "x \<equiv> ((a AND (RTCTIME_HR10_MASK OR RTCTIME_HR01_MASK)) OR (b AND (RTCTIME_MIN10_MASK OR RTCTIME_MIN01_MASK)))
    OR (c AND (RTCTIME_SEC10_MASK OR RTCTIME_SEC01_MASK))"
  shows "x AND RTCTIME_HR10_MASK = a AND RTCTIME_HR10_MASK" "x AND RTCTIME_HR01_MASK = a AND RTCTIME_HR01_MASK"
    "x AND RTCTIME_MIN10_MASK = b AND RTCTIME_MIN10_MASK" "x AND RTCTIME_MIN01_MASK = b AND RTCTIME_MIN01_MASK"
    "x AND RTCTIME_SEC10_MASK = c AND RTCTIME_SEC10_MASK" "x AND RTCTIME_SEC01_MASK = c AND RTCTIME_SEC01_MASK"
  unfolding x_def mask_values bit.conj_disj_distrib2 and.assoc by simp_all

lemma date_fields:
  fixes a b c d :: u32
  defines "x \<equiv> (((a AND (RTCDATE_YEAR01_MASK OR RTCDATE_YEAR10_MASK)) OR (b AND (RTCDATE_MONTH01_MASK OR RTCDATE_MONTH10_MASK)))
    OR (c AND (RTCDATE_DAY01_MASK OR RTCDATE_DAY10_MASK))) OR (d AND RTCDATE_WDAY01_MASK)"
  shows "x AND RTCDATE_YEAR10_MASK = a AND RTCDATE_YEAR10_MASK" "x AND RTCDATE_YEAR01_MASK = a AND RTCDATE_YEAR01_MASK"
    "x AND RTCDATE_MONTH10_MASK = b AND RTCDATE_MONTH10_MASK" "x AND RTCDATE_MONTH01_MASK = b AND RTCDATE_MONTH01_MASK"
    "x AND RTCDATE_DAY10_MASK = c AND RTCDATE_DAY10_MASK" "x AND RTCDATE_DAY01_MASK = c AND RTCDATE_DAY01_MASK"
    "x AND RTCDATE_WDAY01_MASK = d AND RTCDATE_WDAY01_MASK"
  unfolding x_def mask_values bit.conj_disj_distrib2 and.assoc by simp_all

lemma time_digits:
  fixes a b c :: u32
  assumes "h < 24" "m < 60" "s < 60"
  defines "x \<equiv> ((push_bit 24 (decimaltobcd (word_of_nat h)) AND (RTCTIME_HR10_MASK OR RTCTIME_HR01_MASK))
    OR (push_bit 16 (decimaltobcd (word_of_nat m)) AND (RTCTIME_MIN10_MASK OR RTCTIME_MIN01_MASK)))
    OR (push_bit 8 (decimaltobcd (word_of_nat s)) AND (RTCTIME_SEC10_MASK OR RTCTIME_SEC01_MASK))"
  shows "two_digits x RTCTIME_HR10_MASK 28 RTCTIME_HR01_MASK 24 = word_of_nat h"
    "two_digits x RTCTIME_MIN10_MASK 20 RTCTIME_MIN01_MASK 16 = word_of_nat m"
    "two_digits x RTCTIME_SEC10_MASK 12 RTCTIME_SEC01_MASK 8 = word_of_nat s"
proof -
  have "two_digits x RTCTIME_HR10_MASK (24 + 4) RTCTIME_HR01_MASK 24 = word_of_nat h"
  proof (rule two_digits_field [where w = 2])
    show "x AND RTCTIME_HR10_MASK = push_bit 24 (decimaltobcd (word_of_nat h)) AND RTCTIME_HR10_MASK"
      unfolding x_def by (rule time_fields)
    show "x AND RTCTIME_HR01_MASK = push_bit 24 (decimaltobcd (word_of_nat h)) AND RTCTIME_HR01_MASK"
      unfolding x_def by (rule time_fields)
    show "RTCTIME_HR10_MASK = push_bit (24 + 4) (mask 2)" by (simp add: RTCTIME_HR10_MASK_def)
    show "RTCTIME_HR01_MASK = push_bit 24 (mask 4)" by (rule RTCTIME_HR01_MASK_def)
    show "h < 100" "h div 10 < 2 ^ 2" using assms(1) by simp_all
  qed simp
  then show "two_digits x RTCTIME_HR10_MASK 28 RTCTIME_HR01_MASK 24 = word_of_nat h" by simp
  have "two_digits x RTCTIME_MIN10_MASK (16 + 4) RTCTIME_MIN01_MASK 16 = word_of_nat m"
  proof (rule two_digits_field [where w = 3])
    show "x AND RTCTIME_MIN10_MASK = push_bit 16 (decimaltobcd (word_of_nat m)) AND RTCTIME_MIN10_MASK"
      unfolding x_def by (rule time_fields)
    show "x AND RTCTIME_MIN01_MASK = push_bit 16 (decimaltobcd (word_of_nat m)) AND RTCTIME_MIN01_MASK"
      unfolding x_def by (rule time_fields)
    show "RTCTIME_MIN10_MASK = push_bit (16 + 4) (mask 3)" by (simp add: RTCTIME_MIN10_MASK_def)
    show "RTCTIME_MIN01_MASK = push_bit 16 (mask 4)" by (rule RTCTIME_MIN01_MASK_def)
    show "m < 100" "m div 10 < 2 ^ 3" using assms(2) by simp_all
  qed simp
  then show "two_digits x RTCTIME_MIN10_MASK 20 RTCTIME_MIN01_MASK 16 = word_of_nat m" by simp
  have "two_digits x RTCTIME_SEC10_MASK (8 + 4) RTCTIME_SEC01_MASK 8 = word_of_nat s"
  proof (rule two_digits_field [where w = 3])
    show "x AND RTCTIME_SEC10_MASK = push_bit 8 (decimaltobcd (word_of_nat s)) AND RTCTIME_SEC10_MASK"
      unfolding x_def by (rule time_fields)
    show "x AND RTCTIME_SEC01_MASK = push_bit 8 (decimaltobcd (word_of_nat s)) AND RTCTIME_SEC01_MASK"
      unfolding x_def by (rule time_fields)
    show "RTCTIME_SEC10_MASK = push_bit (8 + 4) (mask 3)" by (simp add: RTCTIME_SEC10_MASK_def)
    show "RTCTIME_SEC01_MASK = push_bit 8 (mask 4)" by (rule RTCTIME_SEC01_MASK_def)
    show "s < 100" "s div 10 < 2 ^ 3" using assms(3) by simp_all
  qed simp
  then show "two_digits x RTCTIME_SEC10_MASK 12 RTCTIME_SEC01_MASK 8 = word_of_nat s" by simp
qed

lemma wday_field:
  assumes "k < 7"
  shows "bcdtodecimal (decimaltobcd (word_of_nat k) AND 7) = word_of_nat k"
proof -
  have "k \<in> {0, 1, 2, 3, 4, 5, 6}" using assms by auto
  then show ?thesis by (auto simp: decimaltobcd_def bcdtodecimal_def)
qed

lemma sint_small: "k < 1000 \<Longrightarrow> sint (word_of_nat k :: u32) = int k"
  by (simp add: signed_of_nat signed_take_bit_int_eq_self)

lemma date_digits:
  assumes "y < 100" "n < 13" "d < 32" "w < 7"
  defines "x \<equiv> (((push_bit 24 (decimaltobcd (word_of_nat y)) AND (RTCDATE_YEAR01_MASK OR RTCDATE_YEAR10_MASK))
    OR (push_bit 16 (decimaltobcd (word_of_nat n)) AND (RTCDATE_MONTH01_MASK OR RTCDATE_MONTH10_MASK)))
    OR (push_bit 8 (decimaltobcd (word_of_nat d)) AND (RTCDATE_DAY01_MASK OR RTCDATE_DAY10_MASK)))
    OR (decimaltobcd (word_of_nat w) AND RTCDATE_WDAY01_MASK)"
  shows "two_digits x RTCDATE_YEAR10_MASK 28 RTCDATE_YEAR01_MASK 24 = word_of_nat y"
    "two_digits x RTCDATE_MONTH10_MASK 20 RTCDATE_MONTH01_MASK 16 = word_of_nat n"
    "two_digits x RTCDATE_DAY10_MASK 12 RTCDATE_DAY01_MASK 8 = word_of_nat d"
    "bcdtodecimal (x AND RTCDATE_WDAY01_MASK) = word_of_nat w"
proof -
  have "two_digits x RTCDATE_YEAR10_MASK (24 + 4) RTCDATE_YEAR01_MASK 24 = word_of_nat y"
  proof (rule two_digits_field [where w = 4])
    show "x AND RTCDATE_YEAR10_MASK = push_bit 24 (decimaltobcd (word_of_nat y)) AND RTCDATE_YEAR10_MASK"
      unfolding x_def by (rule date_fields)
    show "x AND RTCDATE_YEAR01_MASK = push_bit 24 (decimaltobcd (word_of_nat y)) AND RTCDATE_YEAR01_MASK"
      unfolding x_def by (rule date_fields)
    show "RTCDATE_YEAR10_MASK = push_bit (24 + 4) (mask 4)" by (simp add: RTCDATE_YEAR10_MASK_def)
    show "RTCDATE_YEAR01_MASK = push_bit 24 (mask 4)" by (rule RTCDATE_YEAR01_MASK_def)
    show "y < 100" "y div 10 < 2 ^ 4" using assms(1) by simp_all
  qed simp
  then show "two_digits x RTCDATE_YEAR10_MASK 28 RTCDATE_YEAR01_MASK 24 = word_of_nat y" by simp
  have "two_digits x RTCDATE_MONTH10_MASK (16 + 4) RTCDATE_MONTH01_MASK 16 = word_of_nat n"
  proof (rule two_digits_field [where w = 1])
    show "x AND RTCDATE_MONTH10_MASK = push_bit 16 (decimaltobcd (word_of_nat n)) AND RTCDATE_MONTH10_MASK"
      unfolding x_def by (rule date_fields)
    show "x AND RTCDATE_MONTH01_MASK = push_bit 16 (decimaltobcd (word_of_nat n)) AND RTCDATE_MONTH01_MASK"
      unfolding x_def by (rule date_fields)
    show "RTCDATE_MONTH10_MASK = push_bit (16 + 4) (mask 1)" by (simp add: RTCDATE_MONTH10_MASK_def)
    show "RTCDATE_MONTH01_MASK = push_bit 16 (mask 4)" by (rule RTCDATE_MONTH01_MASK_def)
    show "n < 100" "n div 10 < 2 ^ 1" using assms(2) by simp_all
  qed simp
  then show "two_digits x RTCDATE_MONTH10_MASK 20 RTCDATE_MONTH01_MASK 16 = word_of_nat n" by simp
  have "two_digits x RTCDATE_DAY10_MASK (8 + 4) RTCDATE_DAY01_MASK 8 = word_of_nat d"
  proof (rule two_digits_field [where w = 2])
    show "x AND RTCDATE_DAY10_MASK = push_bit 8 (decimaltobcd (word_of_nat d)) AND RTCDATE_DAY10_MASK"
      unfolding x_def by (rule date_fields)
    show "x AND RTCDATE_DAY01_MASK = push_bit 8 (decimaltobcd (word_of_nat d)) AND RTCDATE_DAY01_MASK"
      unfolding x_def by (rule date_fields)
    show "RTCDATE_DAY10_MASK = push_bit (8 + 4) (mask 2)" by (simp add: RTCDATE_DAY10_MASK_def)
    show "RTCDATE_DAY01_MASK = push_bit 8 (mask 4)" by (rule RTCDATE_DAY01_MASK_def)
    show "d < 100" "d div 10 < 2 ^ 2" using assms(3) by simp_all
  qed simp
  then show "two_digits x RTCDATE_DAY10_MASK 12 RTCDATE_DAY01_MASK 8 = word_of_nat d" by simp
  show "bcdtodecimal (x AND RTCDATE_WDAY01_MASK) = word_of_nat w"
    unfolding x_def date_fields(7) using wday_field [OF assms(4)] by (simp add: mask_values)
qed

lemma rtcc_round_trip:
  assumes "clock_tm t" "0 \<le> tm_wday t" "tm_wday t < 7"
  shows "RTCC_TimeGet (RTCC_TimeSet t r) = t\<lparr>tm_yday := 0, tm_isdst := 0\<rparr>"
proof -
  note c = assms(1) [unfolded clock_tm_def]
  define s m h d n y w where "s = nat (tm_sec t)" and "m = nat (tm_min t)" and "h = nat (tm_hour t)"
    and "d = nat (tm_mday t)" and "n = nat (tm_mon t)" and "y = nat (tm_year t - 100)" and "w = nat (tm_wday t)"
  then have f: "tm_sec t = int s" "tm_min t = int m" "tm_hour t = int h" "tm_mday t = int d"
    "tm_mon t = int n" "tm_year t = int y + 100" "tm_wday t = int w" using c assms(2,3) by simp_all
  have b: "s < 60" "m < 60" "h < 24" "d < 32" "n < 12" "y < 100" "w < 7" using c assms(2,3) f by linarith+
  let ?T = "RTCTIME (RTCC_TimeSet t r)" and ?D = "RTCDATE (RTCC_TimeSet t r)"
  have year: "(word_of_int (tm_year t) :: u32) mod 100 = word_of_nat y"
  proof -
    have "unat (word_of_nat (y + 100) :: u32) = y + 100" using b by (intro of_nat_inverse [OF refl]) simp
    then have "unat ((word_of_nat (y + 100) :: u32) mod 100) = y" unfolding unat_mod using b by simp
    moreover have "unat (word_of_nat y :: u32) = y" using b by (simp add: unsigned_of_nat take_bit_nat_eq_self)
    ultimately show ?thesis using f(6) by (simp add: word_unat_eq_iff)
  qed
  have mon: "(word_of_int (tm_mon t) + 1 :: u32) = word_of_nat (n + 1)" using f(5) by simp
  note T = time_digits [OF b(3) b(2) b(1)]
  have "n + 1 < 13" using b(5) by simp
  note D = date_digits [OF b(6) this b(4) b(7)]
  have e: "?T = ((push_bit 24 (decimaltobcd (word_of_nat h)) AND (RTCTIME_HR10_MASK OR RTCTIME_HR01_MASK))
      OR (push_bit 16 (decimaltobcd (word_of_nat m)) AND (RTCTIME_MIN10_MASK OR RTCTIME_MIN01_MASK)))
      OR (push_bit 8 (decimaltobcd (word_of_nat s)) AND (RTCTIME_SEC10_MASK OR RTCTIME_SEC01_MASK))"
    "?D = (((push_bit 24 (decimaltobcd (word_of_nat y)) AND (RTCDATE_YEAR01_MASK OR RTCDATE_YEAR10_MASK))
      OR (push_bit 16 (decimaltobcd (word_of_nat (n + 1))) AND (RTCDATE_MONTH01_MASK OR RTCDATE_MONTH10_MASK)))
      OR (push_bit 8 (decimaltobcd (word_of_nat d)) AND (RTCDATE_DAY01_MASK OR RTCDATE_DAY10_MASK)))
      OR (decimaltobcd (word_of_nat w) AND RTCDATE_WDAY01_MASK)"
    unfolding RTCC_TimeSet_def Let_def year mon by (simp_all add: f)
  have m1: "(word_of_nat (n + 1) - 1 :: u32) = word_of_nat n" "(word_of_nat y + 100 :: u32) = word_of_nat (y + 100)"
    by simp_all
  have sy: "sint (word_of_nat (y + 100) :: u32) = int (y + 100)" using b(6) by (intro sint_small) simp
  show ?thesis using b
    unfolding RTCC_TimeGet_def e T D m1 sy by (intro tm.equality) (simp_all add: sint_small f)
qed


section \<open>Setting the time\<close>

text \<open>The years 2000 to 2099.\<close>

definition this_century :: "int \<Rightarrow> bool" where
  "this_century t \<longleftrightarrow> 946684800 \<le> t \<and> t < 4102444800"

lemma gmtime_clock:
  assumes "this_century t"
  shows "clock_tm (gmtime t)" "0 \<le> tm_wday (gmtime t)" "tm_wday (gmtime t) < 7" "mktime (gmtime t) = t"
proof -
  have t: "0 \<le> t" "946684800 \<le> t" "t < 4102444800" using assms by (simp_all add: this_century_def)
  note v = gmtime_valid [OF t(1)]
  have d: "days_to_year 2000 = 10957" "days_to_year 2100 = 47482" by (simp_all add: days_to_year_def)
  have lo: "2000 \<le> year_of t"
  proof (rule ccontr)
    assume "\<not> 2000 \<le> year_of t"
    then have "days_to_year (year_of t + 1) \<le> days_to_year 2000" by (intro days_to_year_le) simp
    with year_of_bounds(2) [OF t(1)] d(1) t(2) show False by linarith
  qed
  have hi: "year_of t < 2100"
  proof (rule ccontr)
    assume "\<not> year_of t < 2100"
    then have "days_to_year 2100 \<le> days_to_year (year_of t)" by (intro days_to_year_le) simp
    with year_of_bounds(1) [OF t(1)] d(2) t(3) show False by linarith
  qed
  let ?g = "gmtime t"
  have "month_days (tm_year ?g + 1900) (tm_mon ?g) \<le> 31"
    using v(1) month_cases [of "tm_mon ?g"]
    by (auto simp: valid_tm_def month_days_def days_to_month_def)
  with v lo hi show "clock_tm ?g" by (simp add: valid_tm_def clock_tm_def year_of_def)
  show "0 \<le> tm_wday ?g" "tm_wday ?g < 7" "mktime ?g = t" using v by (simp_all add: valid_tm_def)
qed

lemma rtcc_holds:
  assumes "this_century t"
  shows "RTCC_TimeGet (RTCC_TimeSet (gmtime t) r) = (gmtime t)\<lparr>tm_yday := 0, tm_isdst := 0\<rparr>"
    "mktime (RTCC_TimeGet (RTCC_TimeSet (gmtime t) r)) = t"
proof -
  note g = gmtime_clock [OF assms]
  show "RTCC_TimeGet (RTCC_TimeSet (gmtime t) r) = (gmtime t)\<lparr>tm_yday := 0, tm_isdst := 0\<rparr>"
    using g by (intro rtcc_round_trip)
  with g(4) show "mktime (RTCC_TimeGet (RTCC_TimeSet (gmtime t) r)) = t"
    by (simp add: mktime_def day_number_def Let_def)
qed

text \<open>
  The time that is set is the time that is read: for every time of the years 2000 to 2099, whatever
  the state before and whether or not the external clock is updated too, through the calendar, the
  BCD registers of the internal clock and back; and the system time counts as reliable then.
\<close>

lemma pmz_time_set_then_get:
  assumes "this_century t"
  shows "fst (pmz_time_get (pmz_time_set t upd p)) = t \<and> pmz_time_is_reliable (pmz_time_set t upd p)"
  using rtcc_holds [OF assms]
  by (simp add: pmz_time_get_def pmz_time_set_def pmz_time_is_reliable_def update_external_rtcc_def pmz_time_get_s_def Let_def)

lemma pmz_time_set_then_get_witness:
  "\<forall>p. fst (pmz_time_get (pmz_time_set 1718000000 True p)) = 1718000000 \<and>
     pmz_time_is_reliable (pmz_time_set 1718000000 True p)"
proof -
  have "this_century 1718000000" by (simp add: this_century_def)
  from pmz_time_set_then_get [OF this] show ?thesis by blast
qed

text \<open>
  C20: Both clocks agree: setting the time with the update of the external clock, while its driver is
  idle, makes the driver write the registers of the chip, and a later request reads the same time
  back from the chip and hands it to the caller; through the internal registers, the driver's
  subtasks and the chip's own BCD registers.
\<close>

theorem external_clock_holds_time:
  assumes "this_century t" "at_rest MCP7940X_STATE_IDLE (external p)" "length chip = 32" "oscillator_on chip"
    and "8 \<le> length (filter Not bs)" "5 \<le> length (filter Not bs')"
  shows "\<exists>d1 chip1 d2.
    run clock_step bs (external (pmz_time_set t True p), chip) = Inr (d1, chip1) \<and>
    run clock_step bs' (snd (mcp7940x_get_ts (Some (User_cb f)) d1), chip1) = Inr (d2, chip1) \<and>
    delivered d2 = delivered (external p) @ [(f, \<lparr>res = MCP7940X_RES_SUCCESS, ts = t, reliable = True\<rparr>)]"
proof -
  let ?t = "(gmtime t)\<lparr>tm_yday := 0, tm_isdst := 0\<rparr>"
  have e: "external (pmz_time_set t True p) = snd (mcp7940x_set_ts ?t (external p))"
    using rtcc_holds(1) [OF assms(1)]
    by (simp add: pmz_time_set_def update_external_rtcc_def pmz_time_get_s_def pmz_time_get_def Let_def)
  have c: "clock_tm ?t" using gmtime_clock(1) [OF assms(1)] by (simp add: clock_tm_def)
  have m: "mktime ?t = t" using gmtime_clock(4) [OF assms(1)] by (simp add: mktime_def day_number_def Let_def)
  show ?thesis using set_get_run [OF assms(2-4) c assms(5,6), of f] unfolding e m by blast
qed

definition some_pmz_time :: pmz_time where
  "some_pmz_time = \<lparr>utc_t = zero_tm, utc_ts = 0, sysTimeIsReliable = False, rtcc = \<lparr>RTCTIME = 0, RTCDATE = 0x00010100\<rparr>,
     external = idle_mcp\<rparr>"

theorem external_clock_holds_time_witness:
  "\<exists>d1 chip1 d2.
    run clock_step (replicate 9 False) (external (pmz_time_set 1000000000 True some_pmz_time), running_chip) = Inr (d1, chip1) \<and>
    run clock_step (replicate 5 False) (snd (mcp7940x_get_ts (Some (User_cb 3)) d1), chip1) = Inr (d2, chip1) \<and>
    delivered d2 = [(3, \<lparr>res = MCP7940X_RES_SUCCESS, ts = 1000000000, reliable = True\<rparr>)]"
proof -
  have "this_century 1000000000" "at_rest MCP7940X_STATE_IDLE (external some_pmz_time)"
    "delivered (external some_pmz_time) = []"
    using idle_mcp_rest by (simp_all add: this_century_def some_pmz_time_def) (simp add: idle_mcp_def reset_mcp_def)
  from external_clock_holds_time [OF this(1,2) running_chip_on(2,1), of "replicate 9 False" "replicate 5 False" 3] this(3)
  show ?thesis by simp
qed

end
