(* ===== verification/Node_List.thy ===== *)
theory Node_List
  imports Dmem "HOL-Library.While_Combinator"
begin

text \<open>
  The list of messages (\<open>lists.c\<close>, \<open>lists.h\<close>): nodes in dynamic memory, linked by pointers, each
  with a pointer to a copy of its data. The specification is the queue of the messages; a message
  goes in at the end and out at the front. The loops over the pointers are the loops of the code:
  on a cyclic list they would not end, which is the fault \<open>Diverges\<close>.
\<close>

section \<open>Nodes\<close>

text \<open>\<open>dataAttrib\<close> is never written or read.\<close>

record t_LIST_NODE =
  nodeSig :: "nat option"
  dataLength :: u16
  data :: "nat option"

datatype list_block = Node t_LIST_NODE | Bytes "u8 list"

definition node_at :: "list_block dmem \<Rightarrow> nat \<Rightarrow> t_LIST_NODE outcome" where
  "node_at m a = (case blocks m a of Some (Node n) \<Rightarrow> Inr n | _ \<Rightarrow> Inl Out_Of_Bounds)"

section \<open>Operations\<close>

definition list_new_node ::
  "list_block malloc \<Rightarrow> u8 list option \<Rightarrow> u32 \<Rightarrow> list_block dmem \<Rightarrow> (nat option \<times> list_block dmem) outcome" where
  "list_new_node malloc dat len m =
     (case dat of
        None \<Rightarrow> Inr (None, m)
      | Some buf \<Rightarrow>
          if \<not> len > 0 then Inr (None, m)
          else
            (case dmem_create malloc 12 (Node \<lparr>nodeSig = None, dataLength = ucast len, data = None\<rparr>) m of
               (None, m) \<Rightarrow> Inr (None, m)
             | (Some n, m) \<Rightarrow>
                 if length buf < unat len then Inl Out_Of_Bounds
                 else
                   (case dmem_create_w_data malloc (unat len) (Bytes (take (unat len) buf)) m of
                      (None, m) \<Rightarrow> seq (dmem_release (Some n) m) (\<lambda>m. Inr (None, m))
                    | (Some d, m) \<Rightarrow>
                        Inr (Some n, dmem_write n (Node \<lparr>nodeSig = None, dataLength = ucast len, data = Some d\<rparr>) m))))"

text \<open>\<open>while (aux->nodeSig) aux = aux->nodeSig\<close>\<close>

definition next_of :: "list_block dmem \<Rightarrow> nat \<Rightarrow> nat option" where
  "next_of m a = (case blocks m a of Some (Node n) \<Rightarrow> nodeSig n | _ \<Rightarrow> None)"

definition last_node :: "list_block dmem \<Rightarrow> nat \<Rightarrow> nat outcome" where
  "last_node m a =
     (case while_option (\<lambda>a. next_of m a \<noteq> None) (\<lambda>a. the (next_of m a)) a of
        None \<Rightarrow> Inl Diverges | Some b \<Rightarrow> Inr b)"

definition list_push_node ::
  "nat option \<Rightarrow> nat option \<Rightarrow> list_block dmem \<Rightarrow> (nat option \<times> list_block dmem) outcome" where
  "list_push_node lst node m =
     (case lst of
        Some a \<Rightarrow>
          seq (last_node m a) (\<lambda>aux.
          seq (node_at m aux) (\<lambda>n.
          Inr (lst, dmem_write aux (Node (n\<lparr>nodeSig := node\<rparr>)) m)))
      | None \<Rightarrow> Inr (node, m))"

text \<open>The node that is taken out, and the list that is left.\<close>

definition list_pull_node :: "nat option \<Rightarrow> list_block dmem \<Rightarrow> (nat option \<times> nat option) outcome" where
  "list_pull_node lst m =
     (case lst of None \<Rightarrow> Inr (None, None) | Some a \<Rightarrow> seq (node_at m a) (\<lambda>n. Inr (lst, nodeSig n)))"

definition list_delete_node :: "nat option \<Rightarrow> list_block dmem \<Rightarrow> list_block dmem outcome" where
  "list_delete_node node m =
     (case node of
        None \<Rightarrow> Inr m
      | Some a \<Rightarrow>
          seq (node_at m a) (\<lambda>n.
          seq (if data n \<noteq> None
               then seq (dmem_release (data n) m) (\<lambda>m. Inr (dmem_write a (Node (n\<lparr>data := None\<rparr>)) m))
               else Inr m) (\<lambda>m.
          dmem_release node m)))"

definition delete_turn :: "(nat option \<times> list_block dmem) outcome \<Rightarrow> (nat option \<times> list_block dmem) outcome" where
  "delete_turn s =
     seq s (\<lambda>(lst, m).
     seq (list_pull_node lst m) (\<lambda>(nodeAux, lst).
     seq (list_delete_node nodeAux m) (\<lambda>m. Inr (lst, m))))"

definition delete_more :: "(nat option \<times> list_block dmem) outcome \<Rightarrow> bool" where
  "delete_more s = (case s of Inl _ \<Rightarrow> False | Inr (lst, _) \<Rightarrow> lst \<noteq> None)"

definition list_delete :: "nat option \<Rightarrow> list_block dmem \<Rightarrow> list_block dmem outcome" where
  "list_delete lst m =
     (case while_option delete_more delete_turn (Inr (lst, m)) of
        None \<Rightarrow> Inl Diverges | Some s \<Rightarrow> seq s (\<lambda>(_, m). Inr m))"

section \<open>The queue in memory\<close>

type_synonym cell = "nat \<times> nat \<times> u8 list"

fun path :: "list_block dmem \<Rightarrow> nat option \<Rightarrow> cell list \<Rightarrow> bool" where
  "path m p [] \<longleftrightarrow> p = None"
| "path m p ((a, d, bs) # q) \<longleftrightarrow> p = Some a \<and>
     (\<exists>nxt len. blocks m a = Some (Node \<lparr>nodeSig = nxt, dataLength = len, data = Some d\<rparr>) \<and>
       unat len = length bs \<and> blocks m d = Some (Bytes bs) \<and> path m nxt q)"

definition cells :: "cell list \<Rightarrow> nat list" where
  "cells q = concat (map (\<lambda>(a, d, _). [a, d]) q)"

definition messages :: "cell list \<Rightarrow> u8 list list" where
  "messages q = map (\<lambda>(_, _, bs). bs) q"

lemma cells_simps [simp]:
  "cells [] = []" "cells ((a, d, bs) # q) = a # d # cells q" "cells (q @ r) = cells q @ cells r"
  by (simp_all add: cells_def)

lemma messages_simps [simp]:
  "messages [] = []" "messages ((a, d, bs) # q) = bs # messages q" "messages (q @ r) = messages q @ messages r"
  by (simp_all add: messages_def)

definition is_list :: "list_block dmem \<Rightarrow> nat option \<Rightarrow> cell list \<Rightarrow> bool" where
  "is_list m p q \<longleftrightarrow> path m p q \<and> distinct (cells q)"

lemma path_frame:
  "(\<And>x. x \<in> set (cells q) \<Longrightarrow> blocks m' x = blocks m x) \<Longrightarrow> path m' p q = path m p q"
proof (induction q arbitrary: p)
  case (Cons c q)
  obtain a d bs where c: "c = (a, d, bs)" by (cases c)
  have "blocks m' a = blocks m a" "blocks m' d = blocks m d" using Cons.prems by (simp_all add: c)
  moreover have "path m' nxt q = path m nxt q" for nxt using Cons.prems by (intro Cons.IH) (simp add: c)
  ultimately show ?case by (simp add: c)
qed simp

lemma path_live: "path m p q \<Longrightarrow> x \<in> set (cells q) \<Longrightarrow> blocks m x \<noteq> None"
  by (induction q arbitrary: p) auto

section \<open>The operations on a queue\<close>

lemma path_last: "path m p (q @ [(b, d, bs)]) \<Longrightarrow>
    \<exists>len. blocks m b = Some (Node \<lparr>nodeSig = None, dataLength = len, data = Some d\<rparr>) \<and> unat len = length bs \<and>
      blocks m d = Some (Bytes bs)"
  by (induction q arbitrary: p) auto

lemma last_node_path: "path m (Some a) (q @ [(b, d, bs)]) \<Longrightarrow> last_node m a = Inr b"
proof (induction q arbitrary: a)
  case Nil
  then have "next_of m a = None" "a = b" by (auto simp: next_of_def)
  then show ?case by (simp add: last_node_def while_option_unfold)
next
  case (Cons c q)
  obtain a' d' bs' where c: "c = (a', d', bs')" by (cases c)
  with Cons.prems obtain nxt len where n: "blocks m a = Some (Node \<lparr>nodeSig = nxt, dataLength = len, data = Some d'\<rparr>)"
    "path m nxt (q @ [(b, d, bs)])" by auto
  obtain a2 where a2: "nxt = Some a2" using n(2) by (cases q) auto
  have "last_node m a = last_node m a2"
    using n(1) a2 unfolding last_node_def
    by (subst while_option_unfold) (simp add: next_of_def)
  with Cons.IH [of a2] n(2) a2 show ?case by simp
qed

lemma path_snoc:
  assumes "path m p (q @ [(b, d, bs)])" "distinct (cells (q @ [(b, d, bs)]))"
    and "blocks m b = Some (Node n)" "blocks m x = Some (Node \<lparr>nodeSig = None, dataLength = len, data = Some y\<rparr>)"
    and "unat len = length cs" "blocks m y = Some (Bytes cs)" "x \<noteq> b" "y \<noteq> b"
  shows "path (dmem_write b (Node (n\<lparr>nodeSig := Some x\<rparr>)) m) p (q @ [(b, d, bs), (x, y, cs)])"
  using assms
proof (induction q arbitrary: p)
  case Nil
  then show ?case by (auto simp: dmem_write_def)
next
  case (Cons c q)
  obtain a' d' bs' where c: "c = (a', d', bs')" by (cases c)
  with Cons.prems obtain nxt l where h: "p = Some a'"
    "blocks m a' = Some (Node \<lparr>nodeSig = nxt, dataLength = l, data = Some d'\<rparr>)" "unat l = length bs'"
    "blocks m d' = Some (Bytes bs')" "path m nxt (q @ [(b, d, bs)])" by auto
  have "a' \<noteq> b" "d' \<noteq> b" using Cons.prems(2) by (auto simp: c)
  moreover have "path (dmem_write b (Node (n\<lparr>nodeSig := Some x\<rparr>)) m) nxt (q @ [(b, d, bs), (x, y, cs)])"
    using Cons.prems h(5) by (intro Cons.IH) (simp_all add: c)
  ultimately show ?case using h by (simp add: c dmem_write_def)
qed

text \<open>What an operation leaves as it was: the blocks outside of a set.\<close>

definition same_outside :: "nat set \<Rightarrow> list_block dmem \<Rightarrow> list_block dmem \<Rightarrow> bool" where
  "same_outside A m m' \<longleftrightarrow> (\<forall>x. x \<notin> A \<longrightarrow> blocks m' x = blocks m x)"

lemma same_outside_refl [simp]: "same_outside A m m"
  by (simp add: same_outside_def)

lemma same_outside_trans: "same_outside A m m' \<Longrightarrow> same_outside B m' m'' \<Longrightarrow> same_outside (A \<union> B) m m''"
  by (simp add: same_outside_def)

lemma same_outside_mono: "same_outside A m m' \<Longrightarrow> A \<subseteq> B \<Longrightarrow> same_outside B m m'"
  by (auto simp: same_outside_def)

lemma push_node:
  assumes "is_list m p q" "path m (Some n) [(n, d, bs)]" "n \<noteq> d" "n \<notin> set (cells q)" "d \<notin> set (cells q)"
  shows "\<exists>p' m'. list_push_node p (Some n) m = Inr (p', m') \<and> is_list m' p' (q @ [(n, d, bs)]) \<and>
    same_outside (set (cells q)) m m' \<and> aaa m' = aaa m \<and> fff m' = fff m"
proof (cases q rule: rev_cases)
  case Nil
  with assms show ?thesis by (auto simp: is_list_def list_push_node_def)
next
  case (snoc q0 c)
  obtain b d0 bs0 where c: "c = (b, d0, bs0)" by (cases c)
  have pq: "path m p (q0 @ [(b, d0, bs0)])" "distinct (cells (q0 @ [(b, d0, bs0)]))"
    using assms(1) by (simp_all add: is_list_def snoc c)
  obtain a where a: "p = Some a" using pq(1) by (cases q0) auto
  from path_last [OF pq(1)] obtain l where b: "blocks m b = Some (Node \<lparr>nodeSig = None, dataLength = l, data = Some d0\<rparr>)" by blast
  from assms(2) obtain len where x: "blocks m n = Some (Node \<lparr>nodeSig = None, dataLength = len, data = Some d\<rparr>)"
    "unat len = length bs" "blocks m d = Some (Bytes bs)" by auto
  let ?nb = "\<lparr>nodeSig = None, dataLength = l, data = Some d0\<rparr>"
  let ?m = "dmem_write b (Node (?nb\<lparr>nodeSig := Some n\<rparr>)) m"
  have "list_push_node p (Some n) m = Inr (p, ?m)"
    using last_node_path [of m a q0 b d0 bs0] pq(1) b by (simp add: list_push_node_def a node_at_def)
  moreover have "path ?m p (q0 @ [(b, d0, bs0), (n, d, bs)])"
    using path_snoc [OF pq b x] assms(4,5) by (auto simp: snoc c)
  then have "is_list ?m p (q @ [(n, d, bs)])" using assms(1,3-5) by (simp add: is_list_def snoc c)
  moreover have "same_outside (set (cells q)) m ?m" by (auto simp: same_outside_def dmem_write_def snoc c)
  ultimately show ?thesis by (auto simp: dmem_write_def)
qed

lemma pull_node:
  assumes "is_list m p ((a, d, bs) # q)"
  shows "\<exists>nxt. list_pull_node p m = Inr (Some a, nxt) \<and> is_list m nxt q"
  using assms by (auto simp: is_list_def list_pull_node_def node_at_def)

lemma delete_node:
  assumes "path m (Some a) ((a, d, bs) # q)" "a \<noteq> d"
  shows "list_delete_node (Some a) m =
    Inr (m\<lparr>fff := fff m + 2, blocks := (blocks m)(d := None, a := None)\<rparr>)"
  using assms by (auto simp: list_delete_node_def node_at_def dmem_write_def dmem_release_def fun_upd_twist)

lemma delete_turn_cell:
  assumes "is_list m p ((a, d, bs) # q)"
  shows "\<exists>p'. delete_turn (Inr (p, m)) = Inr (p', m\<lparr>fff := fff m + 2, blocks := (blocks m)(d := None, a := None)\<rparr>) \<and>
    is_list (m\<lparr>fff := fff m + 2, blocks := (blocks m)(d := None, a := None)\<rparr>) p' q"
proof -
  have ad: "a \<noteq> d" "path m (Some a) ((a, d, bs) # q)" using assms by (auto simp: is_list_def)
  from pull_node [OF assms] obtain nxt where n: "list_pull_node p m = Inr (Some a, nxt)" "is_list m nxt q" by blast
  let ?m = "m\<lparr>fff := fff m + 2, blocks := (blocks m)(d := None, a := None)\<rparr>"
  have "blocks ?m x = blocks m x" if "x \<in> set (cells q)" for x using that assms by (auto simp: is_list_def)
  then have "is_list ?m nxt q" using n(2) path_frame [of q ?m m nxt] by (simp add: is_list_def)
  with n(1) delete_node [OF ad(2,1)] show ?thesis by (simp add: delete_turn_def)
qed

lemma delete_list:
  assumes "is_list m p q"
  shows "list_delete p m = Inr (m\<lparr>fff := fff m + 2 * int (length q), blocks := blocks m |` (- set (cells q))\<rparr>)"
proof -
  have "while_option delete_more delete_turn (Inr (p, m)) =
      Some (Inr (None, m\<lparr>fff := fff m + 2 * int (length q), blocks := blocks m |` (- set (cells q))\<rparr>))"
    using assms
  proof (induction q arbitrary: p m)
    case Nil
    then have "p = None" by (simp add: is_list_def)
    then show ?case by (simp add: while_option_unfold delete_more_def restrict_map_def)
  next
    case (Cons c q)
    obtain a d bs where c: "c = (a, d, bs)" by (cases c)
    let ?m = "m\<lparr>fff := fff m + 2, blocks := (blocks m)(d := None, a := None)\<rparr>"
    from delete_turn_cell [OF Cons.prems [unfolded c]] obtain p' where
      p': "delete_turn (Inr (p, m)) = Inr (p', ?m)" "is_list ?m p' q" by blast
    have "delete_more (Inr (p, m))" using Cons.prems by (simp add: delete_more_def is_list_def c)
    then have "while_option delete_more delete_turn (Inr (p, m)) = while_option delete_more delete_turn (Inr (p', ?m))"
      using p'(1) by (simp add: while_option_unfold [of _ _ "Inr (p, m)"])
    moreover have "blocks ?m |` (- set (cells q)) = blocks m |` (- set (cells (c # q)))"
      by (auto simp: c restrict_map_def fun_eq_iff)
    then have "?m\<lparr>fff := fff ?m + 2 * int (length q), blocks := blocks ?m |` (- set (cells q))\<rparr> =
        m\<lparr>fff := fff m + 2 * int (length (c # q)), blocks := blocks m |` (- set (cells (c # q)))\<rparr>"
      by (simp add: algebra_simps)
    ultimately show ?case using Cons.IH [OF p'(2)] by (simp only:)
  qed
  then show ?thesis by (simp add: list_delete_def)
qed

lemma new_node:
  assumes "malloc_ok malloc" "0 < len" "length buf = unat len" "unat len < 2 ^ 16"
  obtains m' where "list_new_node malloc (Some buf) len m = Inr (None, m')" "blocks m' = blocks m" "live m' = live m"
  | n d m' where "list_new_node malloc (Some buf) len m = Inr (Some n, m')" "path m' (Some n) [(n, d, buf)]" "n \<noteq> d"
      "blocks m n = None" "blocks m d = None" "same_outside {n, d} m m'" "aaa m' = aaa m + 2" "fff m' = fff m"
proof -
  let ?n0 = "\<lparr>nodeSig = None, dataLength = ucast len, data = None\<rparr> :: t_LIST_NODE"
  have u: "unat (ucast len :: u16) = unat len" using assms(4)
    by (simp add: unsigned_ucast_eq take_bit_nat_eq_self)
  show ?thesis
  proof (cases rule: dmem_create_cases [OF assms(1), of 12 "Node ?n0" m])
    case 1
    with assms(2) show ?thesis by (intro that(1) [of m]) (simp_all add: list_new_node_def)
  next
    case (2 n)
    let ?m1 = "m\<lparr>blocks := (blocks m)(n \<mapsto> Node ?n0), aaa := aaa m + 1\<rparr>"
    show ?thesis
    proof (cases rule: dmem_create_cases [OF assms(1), of "unat len" "Bytes buf" ?m1])
      case 1
      with 2 assms(2,3) show ?thesis
        by (intro that(1) [of "?m1\<lparr>fff := fff m + 1, blocks := blocks m\<rparr>"])
          (auto simp: list_new_node_def dmem_create_w_data_eq dmem_release_def live_def fun_upd_idem)
    next
      case (2 d)
      note n = \<open>dmem_create malloc 12 (Node ?n0) m = (Some n, ?m1)\<close> \<open>blocks m n = None\<close>
      have d: "d \<noteq> n" "blocks m d = None" using 2(2) by (auto split: if_splits)
      let ?m2 = "dmem_write n (Node \<lparr>nodeSig = None, dataLength = ucast len, data = Some d\<rparr>)
          (?m1\<lparr>blocks := (blocks ?m1)(d \<mapsto> Bytes buf), aaa := aaa ?m1 + 1\<rparr>)"
      have "list_new_node malloc (Some buf) len m = Inr (Some n, ?m2)"
        using n 2(1) assms(2,3) by (simp add: list_new_node_def dmem_create_w_data_eq)
      moreover have "path ?m2 (Some n) [(n, d, buf)]" using d(1) u assms(3) by (simp add: dmem_write_def)
      ultimately show ?thesis using n(2) d by (intro that(2) [of n ?m2 d]) (auto simp: same_outside_def dmem_write_def)
    qed
  qed
qed

section \<open>Several queues in one memory\<close>

text \<open>
  What a user of the list does: \<open>enqueue\<close> makes a node of the data and pushes it, \<open>dequeue\<close> pulls
  a node and deletes it (\<open>tcp_client_send\<close> and \<open>tx_task\<close> of the TCP client). \<open>read_bytes\<close> is what a
  callee reads through a pointer into the data of a node.
\<close>

definition enqueue ::
  "list_block malloc \<Rightarrow> u8 list \<Rightarrow> u32 \<Rightarrow> nat option \<Rightarrow> list_block dmem \<Rightarrow> (bool \<times> nat option \<times> list_block dmem) outcome" where
  "enqueue malloc buf len p m =
     seq (list_new_node malloc (Some buf) len m) (\<lambda>(nodeAux, m).
     if nodeAux \<noteq> None
     then seq (list_push_node p nodeAux m) (\<lambda>(p, m). Inr (True, p, m))
     else Inr (False, p, m))"

definition dequeue :: "nat option \<Rightarrow> list_block dmem \<Rightarrow> (nat option \<times> list_block dmem) outcome" where
  "dequeue p m =
     seq (list_pull_node p m) (\<lambda>(nodeAux, p).
     seq (list_delete_node nodeAux m) (\<lambda>m. Inr (p, m)))"

definition read_bytes :: "list_block dmem \<Rightarrow> nat option \<Rightarrow> nat \<Rightarrow> nat \<Rightarrow> u8 list outcome" where
  "read_bytes m p off n =
     (case p of
        None \<Rightarrow> Inl Null_Deref
      | Some d \<Rightarrow>
          (case blocks m d of
             Some (Bytes bs) \<Rightarrow> if off + n \<le> length bs then Inr (take n (drop off bs)) else Inl Out_Of_Bounds
           | _ \<Rightarrow> Inl Out_Of_Bounds))"

text \<open>
  The pointers \<open>ps\<close> hold the queues \<open>qs\<close> in a memory that is otherwise \<open>m0\<close>: no two queues share a
  cell, and nothing else has been allocated and not released.
\<close>

definition stored :: "list_block dmem \<Rightarrow> list_block dmem \<Rightarrow> nat option list \<Rightarrow> cell list list \<Rightarrow> bool" where
  "stored m0 m ps cs \<longleftrightarrow>
     list_all2 (path m) ps cs \<and> distinct (cells (concat cs)) \<and>
     (\<forall>x. x \<notin> set (cells (concat cs)) \<longrightarrow> blocks m x = blocks m0 x) \<and>
     (\<forall>x\<in>set (cells (concat cs)). blocks m0 x = None) \<and>
     live m = live m0 + 2 * int (length (concat cs))"

definition queues :: "list_block dmem \<Rightarrow> nat option list \<times> list_block dmem \<Rightarrow> u8 list list list \<Rightarrow> bool" where
  "queues m0 = (\<lambda>(ps, m) qs. \<exists>cs. stored m0 m ps cs \<and> qs = map messages cs)"

lemma list_all2_path_frame:
  "list_all2 (path m) ps cs \<Longrightarrow> (\<And>x. x \<in> set (cells (concat cs)) \<Longrightarrow> blocks m' x = blocks m x) \<Longrightarrow>
     list_all2 (path m') ps cs"
proof (induction rule: list_all2_induct)
  case (Cons p ps c cs)
  then show ?case using path_frame [of c m' m p] by simp
qed simp

lemma stored_live: "list_all2 (path m) ps cs \<Longrightarrow> x \<in> set (cells (concat cs)) \<Longrightarrow> blocks m x \<noteq> None"
  by (induction rule: list_all2_induct) (auto dest: path_live)

lemma list_new_node_take:
  "unat len \<le> length buf \<Longrightarrow> list_new_node malloc (Some buf) len m = list_new_node malloc (Some (take (unat len) buf)) len m"
  by (simp add: list_new_node_def split: option.split prod.split)

lemma enqueue_stored:
  assumes "malloc_ok malloc" "0 < len" "unat len \<le> length buf" "unat len < 2 ^ 16"
    and st: "stored m0 m (PA @ p # PB) (A @ c # B)" and len: "length PA = length A"
  obtains m' where "enqueue malloc buf len p m = Inr (False, p, m')" "stored m0 m' (PA @ p # PB) (A @ c # B)"
  | p' m' n d where "enqueue malloc buf len p m = Inr (True, p', m')"
      "stored m0 m' (PA @ p' # PB) (A @ (c @ [(n, d, take (unat len) buf)]) # B)"
proof -
  let ?bs = "take (unat len) buf"
  have l: "length ?bs = unat len" using assms(3) by simp
  have new: "list_new_node malloc (Some buf) len m = list_new_node malloc (Some ?bs) len m"
    using assms(3) by (rule list_new_node_take)
  show ?thesis
  proof (cases rule: new_node [OF assms(1,2) l assms(4), of m])
    case (1 m')
    have "stored m0 m' (PA @ p # PB) (A @ c # B)"
      using st 1 list_all2_path_frame [of m "PA @ p # PB" "A @ c # B" m'] by (simp add: stored_def)
    with 1 new show ?thesis by (intro that(1) [of m']) (simp_all add: enqueue_def)
  next
    case (2 n d m1)
    have fresh: "n \<notin> set (cells (concat (A @ c # B)))" "d \<notin> set (cells (concat (A @ c # B)))"
      using 2(4,5) st stored_live unfolding stored_def by blast+
    have fr1: "blocks m1 x = blocks m x" if "x \<in> set (cells (concat (A @ c # B)))" for x
      using that fresh 2(6) by (auto simp: same_outside_def)
    have "list_all2 (path m) (PA @ p # PB) (A @ c # B)" using st by (simp add: stored_def)
    then have all1: "list_all2 (path m1) (PA @ p # PB) (A @ c # B)" by (rule list_all2_path_frame [OF _ fr1])
    then have "is_list m1 p c" using st len by (simp add: is_list_def stored_def list_all2_append)
    from push_node [OF this 2(2,3)] fresh obtain p' m' where
      p': "list_push_node p (Some n) m1 = Inr (p', m')" "is_list m' p' (c @ [(n, d, ?bs)])"
        "same_outside (set (cells c)) m1 m'" "aaa m' = aaa m1" "fff m' = fff m1" by auto
    have ok: "enqueue malloc buf len p m = Inr (True, p', m')" using 2(1) p'(1) new by (simp add: enqueue_def)
    have A: "list_all2 (path m') PA A" and B: "list_all2 (path m') PB B"
      using all1 len p'(3) st
      by (auto simp: list_all2_append stored_def same_outside_def intro!: list_all2_path_frame [of m1])
    have out: "blocks m' x = blocks m0 x" if "x \<notin> set (cells (concat (A @ (c @ [(n, d, ?bs)]) # B)))" for x
      using that 2(6) p'(3) st by (auto simp: stored_def same_outside_def)
    have "stored m0 m' (PA @ p' # PB) (A @ (c @ [(n, d, ?bs)]) # B)"
      unfolding stored_def
    proof (intro conjI)
      show "list_all2 (path m') (PA @ p' # PB) (A @ (c @ [(n, d, ?bs)]) # B)"
        using A B p'(2) len by (simp add: list_all2_append is_list_def)
      show "distinct (cells (concat (A @ (c @ [(n, d, ?bs)]) # B)))"
        using st fresh 2(3) by (auto simp: stored_def)
      show "\<forall>x. x \<notin> set (cells (concat (A @ (c @ [(n, d, ?bs)]) # B))) \<longrightarrow> blocks m' x = blocks m0 x" using out by blast
      show "\<forall>x\<in>set (cells (concat (A @ (c @ [(n, d, ?bs)]) # B))). blocks m0 x = None"
        using st fresh 2(4,5) by (auto simp: stored_def)
      show "live m' = live m0 + 2 * int (length (concat (A @ (c @ [(n, d, ?bs)]) # B)))"
        using st p'(4,5) 2(7,8) by (simp add: stored_def live_def)
    qed
    with ok show ?thesis by (rule that(2))
  qed
qed

lemma dequeue_stored:
  assumes st: "stored m0 m (PA @ p # PB) (A @ ((a, d, bs) # c) # B)" and len: "length PA = length A"
  obtains p' m' where "dequeue p m = Inr (p', m')" "stored m0 m' (PA @ p' # PB) (A @ c # B)"
proof -
  let ?m = "m\<lparr>fff := fff m + 2, blocks := (blocks m)(d := None, a := None)\<rparr>"
  have l: "is_list m p ((a, d, bs) # c)" using st len by (simp add: stored_def is_list_def list_all2_append)
  from pull_node [OF l] obtain p' where p': "list_pull_node p m = Inr (Some a, p')" "is_list m p' c" by blast
  have ad: "path m (Some a) ((a, d, bs) # c)" "a \<noteq> d" using l by (auto simp: is_list_def)
  have ok: "dequeue p m = Inr (p', ?m)" using p'(1) delete_node [OF ad] by (simp add: dequeue_def)
  have all: "list_all2 (path m) (PA @ p' # PB) (A @ c # B)"
    using st len p'(2) by (simp add: stored_def is_list_def list_all2_append)
  have "blocks ?m x = blocks m x" if "x \<in> set (cells (concat (A @ c # B)))" for x
    using that st by (auto simp: stored_def)
  then have "list_all2 (path ?m) (PA @ p' # PB) (A @ c # B)" by (rule list_all2_path_frame [OF all])
  then have "stored m0 ?m (PA @ p' # PB) (A @ c # B)" using st by (auto simp: stored_def live_def)
  with ok show ?thesis by (rule that)
qed

lemma dequeue_empty [simp]: "dequeue None m = Inr (None, m)"
  by (simp add: dequeue_def list_pull_node_def list_delete_node_def)

lemma delete_stored:
  assumes st: "stored m0 m (PA @ p # PB) (A @ c # B)" and len: "length PA = length A"
  obtains m' where "list_delete p m = Inr m'" "stored m0 m' (PA @ None # PB) (A @ [] # B)"
proof -
  let ?m = "m\<lparr>fff := fff m + 2 * int (length c), blocks := blocks m |` (- set (cells c))\<rparr>"
  have ok: "list_delete p m = Inr ?m" using st len
    by (intro delete_list) (simp add: stored_def is_list_def list_all2_append)
  have all: "list_all2 (path m) (PA @ None # PB) (A @ [] # B)"
    using st len by (simp add: stored_def list_all2_append)
  have "blocks ?m x = blocks m x" if "x \<in> set (cells (concat (A @ [] # B)))" for x
    using that st by (auto simp: stored_def restrict_map_def)
  then have "list_all2 (path ?m) (PA @ None # PB) (A @ [] # B)" by (rule list_all2_path_frame [OF all])
  then have "stored m0 ?m (PA @ None # PB) (A @ [] # B)" using st by (auto simp: stored_def live_def restrict_map_def)
  with ok show ?thesis by (rule that)
qed

lemma stored_empty: "stored m0 m0 (replicate n None) (replicate n [])"
  by (auto simp: stored_def list_all2_conv_all_nth)

text \<open>A queue that is empty is a pointer that is \<open>NULL\<close>; the first message is what a reader finds.\<close>

lemma stored_head:
  assumes "stored m0 m (PA @ p # PB) (A @ c # B)" "length PA = length A"
  shows "p = None \<longleftrightarrow> c = []"
    and "c = (a, d, bs) # c' \<Longrightarrow> p = Some a \<and>
      (\<exists>nxt len. node_at m a = Inr \<lparr>nodeSig = nxt, dataLength = len, data = Some d\<rparr> \<and> unat len = length bs) \<and>
      blocks m d = Some (Bytes bs)"
proof -
  have "path m p c" using assms by (simp add: stored_def list_all2_append)
  then show "p = None \<longleftrightarrow> c = []" by (cases c) auto
  show "p = Some a \<and> (\<exists>nxt len. node_at m a = Inr \<lparr>nodeSig = nxt, dataLength = len, data = Some d\<rparr> \<and> unat len = length bs) \<and>
      blocks m d = Some (Bytes bs)" if "c = (a, d, bs) # c'"
    using \<open>path m p c\<close> that by (auto simp: node_at_def)
qed

section \<open>First in, first out\<close>

text \<open>
  The contract of an array of queues: \<open>enq\<close> may refuse an element (memory is full), \<open>deq\<close> gives
  the first. Whatever is done in whatever order, each queue delivers what it accepted, in order.
\<close>

datatype 'x queue_op = Enq nat 'x | Deq nat

definition serve ::
  "(nat \<Rightarrow> 'x \<Rightarrow> 's \<Rightarrow> (bool \<times> 's) outcome) \<Rightarrow> (nat \<Rightarrow> 's \<Rightarrow> ('x option \<times> 's) outcome) \<Rightarrow> 'x queue_op \<Rightarrow>
   's \<times> (nat \<times> 'x) list \<times> (nat \<times> 'x) list \<Rightarrow> ('s \<times> (nat \<times> 'x) list \<times> (nat \<times> 'x) list) outcome" where
  "serve enq deq oper = (\<lambda>(s, ins, outs).
     (case oper of
        Enq i x \<Rightarrow> seq (enq i x s) (\<lambda>(b, t). Inr (t, if b then ins @ [(i, x)] else ins, outs))
      | Deq i \<Rightarrow> seq (deq i s) (\<lambda>(r, t). Inr (t, ins, case r of None \<Rightarrow> outs | Some x \<Rightarrow> outs @ [(i, x)]))))"

definition part :: "nat \<Rightarrow> (nat \<times> 'x) list \<Rightarrow> 'x list" where
  "part i l = map snd (filter (\<lambda>e. fst e = i) l)"

lemma part_simps [simp]: "part i [] = []" "part i (l @ l') = part i l @ part i l'"
    "part i [(j, x)] = (if j = i then [x] else [])"
  by (simp_all add: part_def)

definition op_ok :: "('x \<Rightarrow> bool) \<Rightarrow> nat \<Rightarrow> 'x queue_op \<Rightarrow> bool" where
  "op_ok ok n oper = (case oper of Enq i x \<Rightarrow> i < n \<and> ok x | Deq i \<Rightarrow> i < n)"

locale fifos =
  fixes rep :: "'s \<Rightarrow> 'x list list \<Rightarrow> bool"
    and enq :: "nat \<Rightarrow> 'x \<Rightarrow> 's \<Rightarrow> (bool \<times> 's) outcome"
    and deq :: "nat \<Rightarrow> 's \<Rightarrow> ('x option \<times> 's) outcome"
    and ok :: "'x \<Rightarrow> bool"
  assumes enq_law: "rep s qs \<Longrightarrow> i < length qs \<Longrightarrow> ok x \<Longrightarrow>
      \<exists>b t. enq i x s = Inr (b, t) \<and> rep t (if b then qs[i := qs ! i @ [x]] else qs)"
    and deq_law: "rep s qs \<Longrightarrow> i < length qs \<Longrightarrow>
      \<exists>t. deq i s = Inr (case qs ! i of [] \<Rightarrow> None | x # _ \<Rightarrow> Some x, t) \<and> rep t (qs[i := tl (qs ! i)])"
begin

lemma serve_step:
  assumes "rep s qs" "op_ok ok (length qs) oper"
  shows "\<exists>t ins' outs' qs'. serve enq deq oper (s, ins, outs) = Inr (t, ins @ ins', outs @ outs') \<and> rep t qs' \<and>
    length qs' = length qs \<and> (\<forall>i<length qs. part i outs' @ qs' ! i = qs ! i @ part i ins')"
proof (cases oper)
  case (Enq i x)
  with enq_law [OF assms(1), of i x] assms(2) obtain b t where
    e: "enq i x s = Inr (b, t)" "rep t (if b then qs[i := qs ! i @ [x]] else qs)" by (auto simp: op_ok_def)
  show ?thesis
    by (rule exI [of _ t], rule exI [of _ "if b then [(i, x)] else []"], rule exI [of _ "[]"],
        rule exI [of _ "if b then qs[i := qs ! i @ [x]] else qs"])
      (use e Enq in \<open>auto simp: serve_def nth_list_update\<close>)
next
  case (Deq i)
  with deq_law [OF assms(1), of i] assms(2) obtain t where
    d: "deq i s = Inr (case qs ! i of [] \<Rightarrow> None | x # _ \<Rightarrow> Some x, t)" "rep t (qs[i := tl (qs ! i)])" by (auto simp: op_ok_def)
  show ?thesis
    by (rule exI [of _ t], rule exI [of _ "[]"], rule exI [of _ "case qs ! i of [] \<Rightarrow> [] | x # _ \<Rightarrow> [(i, x)]"],
        rule exI [of _ "qs[i := tl (qs ! i)]"])
      (use d Deq assms(2) in \<open>auto simp: serve_def op_ok_def nth_list_update split: list.splits\<close>)
qed

lemma serve_all:
  "rep s qs \<Longrightarrow> list_all (op_ok ok (length qs)) ops \<Longrightarrow>
     \<exists>t ins' outs' qs'. run (serve enq deq) ops (s, ins, outs) = Inr (t, ins @ ins', outs @ outs') \<and> rep t qs' \<and>
       length qs' = length qs \<and> (\<forall>i<length qs. part i outs' @ qs' ! i = qs ! i @ part i ins')"
proof (induction ops arbitrary: s qs ins outs)
  case Nil
  have "run (serve enq deq) [] (s, ins, outs) = Inr (s, ins @ [], outs @ [])" by simp
  with Nil.prems(1) show ?case by fastforce
next
  case (Cons oper ops)
  from serve_step [of s qs oper ins outs] Cons.prems obtain t i1 o1 q1 where
    1: "serve enq deq oper (s, ins, outs) = Inr (t, ins @ i1, outs @ o1)" "rep t q1" "length q1 = length qs"
      "\<forall>i<length qs. part i o1 @ q1 ! i = qs ! i @ part i i1" by auto
  from Cons.IH [of t q1 "ins @ i1" "outs @ o1"] 1 Cons.prems obtain u i2 o2 q2 where
    2: "run (serve enq deq) ops (t, ins @ i1, outs @ o1) = Inr (u, (ins @ i1) @ i2, (outs @ o1) @ o2)" "rep u q2"
      "length q2 = length qs" "\<forall>i<length qs. part i o2 @ q2 ! i = q1 ! i @ part i i2" by auto
  have "part i (o1 @ o2) @ q2 ! i = qs ! i @ part i (i1 @ i2)" if "i < length qs" for i
  proof -
    have "part i o2 @ q2 ! i = q1 ! i @ part i i2" "part i o1 @ q1 ! i = qs ! i @ part i i1" using 1(4) 2(4) that by auto
    then show ?thesis by (metis append_assoc part_simps(2))
  qed
  with 1(1) 2(1-3) show ?case
    by (intro exI [of _ u] exI [of _ "i1 @ i2"] exI [of _ "o1 @ o2"] exI [of _ q2]) simp
qed

end

text \<open>The lists of messages in memory, with a data buffer of exactly the length given.\<close>

definition push_message ::
  "list_block malloc \<Rightarrow> nat \<Rightarrow> u8 list \<Rightarrow> nat option list \<times> list_block dmem \<Rightarrow>
   (bool \<times> nat option list \<times> list_block dmem) outcome" where
  "push_message malloc i bs = (\<lambda>(ps, m).
     seq (enqueue malloc bs (word_of_nat (length bs)) (ps ! i) m) (\<lambda>(b, p, m). Inr (b, ps[i := p], m)))"

definition pull_message ::
  "nat \<Rightarrow> nat option list \<times> list_block dmem \<Rightarrow> (u8 list option \<times> nat option list \<times> list_block dmem) outcome" where
  "pull_message i = (\<lambda>(ps, m).
     (case ps ! i of
        None \<Rightarrow> Inr (None, ps, m)
      | Some a \<Rightarrow>
          seq (node_at m a) (\<lambda>n.
          seq (read_bytes m (data n) 0 (unat (dataLength n))) (\<lambda>bs.
          seq (dequeue (ps ! i) m) (\<lambda>(p, m). Inr (Some bs, ps[i := p], m))))))"

definition message_ok :: "u8 list \<Rightarrow> bool" where
  "message_ok bs \<longleftrightarrow> bs \<noteq> [] \<and> length bs < 2 ^ 16"

lemma stored_split:
  assumes "stored m0 m ps cs" "i < length cs"
  obtains PA p PB A c B where "ps = PA @ p # PB" "cs = A @ c # B" "length PA = i" "length A = i"
    "ps ! i = p" "cs ! i = c" "\<And>x. ps[i := x] = PA @ x # PB" "\<And>x. cs[i := x] = A @ x # B"
proof
  have l: "length ps = length cs" using assms(1) by (auto simp: stored_def list_all2_lengthD)
  show "ps = take i ps @ ps ! i # drop (Suc i) ps" "cs = take i cs @ cs ! i # drop (Suc i) cs"
    using l assms(2) by (simp_all add: id_take_nth_drop [symmetric])
  show "length (take i ps) = i" "length (take i cs) = i" using l assms(2) by simp_all
  show "ps[i := x] = take i ps @ x # drop (Suc i) ps" for x using l assms(2) by (simp add: upd_conv_take_nth_drop)
  show "cs[i := x] = take i cs @ x # drop (Suc i) cs" for x using assms(2) by (simp add: upd_conv_take_nth_drop)
qed simp_all

lemma push_message_law:
  assumes "malloc_ok malloc" "queues m0 (ps, m) qs" "i < length qs" "message_ok bs"
  shows "\<exists>b t. push_message malloc i bs (ps, m) = Inr (b, t) \<and> queues m0 t (if b then qs[i := qs ! i @ [bs]] else qs)"
proof -
  obtain cs where cs: "stored m0 m ps cs" "qs = map messages cs" using assms(2) by (auto simp: queues_def)
  have il: "i < length cs" using assms(3) cs(2) by simp
  obtain PA p PB A c B where
    s: "ps = PA @ p # PB" "cs = A @ c # B" "length PA = i" "length A = i" "ps ! i = p" "cs ! i = c"
      "\<And>x. ps[i := x] = PA @ x # PB" "\<And>x. cs[i := x] = A @ x # B"
    by (rule stored_split [OF cs(1) il]) (rule that)
  let ?len = "word_of_nat (length bs) :: u32"
  have u: "unat ?len = length bs" using assms(4) by (intro of_nat_inverse [OF refl]) (simp add: message_ok_def)
  with assms(4) have "?len \<noteq> 0" by (metis length_0_conv message_ok_def unat_0)
  with u assms(4) have len: "0 < ?len" "unat ?len \<le> length bs" "unat ?len < 2 ^ 16"
    by (simp_all add: message_ok_def word_gt_0)
  have qs: "qs[i := x] = map messages A @ x # map messages B" "qs ! i = messages c" for x
    by (simp_all add: cs(2) s(2) s(4) [symmetric] nth_append list_update_append)
  show ?thesis
  proof (cases rule: enqueue_stored [OF assms(1) len cs(1) [unfolded s(1,2)] s(3) [folded s(4)]])
    case (1 m')
    have "push_message malloc i bs (ps, m) = Inr (False, PA @ p # PB, m')"
      using 1(1) by (simp add: push_message_def s(5,7))
    moreover have "queues m0 (PA @ p # PB, m') qs" unfolding queues_def using 1(2) cs(2) [unfolded s(2)] by blast
    ultimately show ?thesis by force
  next
    case (2 p' m' n d)
    have "push_message malloc i bs (ps, m) = Inr (True, PA @ p' # PB, m')"
      using 2(1) by (simp add: push_message_def s(5,7))
    moreover have "queues m0 (PA @ p' # PB, m') (qs[i := qs ! i @ [bs]])"
      unfolding queues_def
    proof (simp, intro exI conjI)
      show "stored m0 m' (PA @ p' # PB) (A @ (c @ [(n, d, take (unat ?len) bs)]) # B)" by (rule 2(2))
      show "qs[i := qs ! i @ [bs]] = map messages (A @ (c @ [(n, d, take (unat ?len) bs)]) # B)"
        using qs u by simp
    qed
    ultimately show ?thesis by force
  qed
qed

lemma pull_message_law:
  assumes "queues m0 (ps, m) qs" "i < length qs"
  shows "\<exists>t. pull_message i (ps, m) = Inr (case qs ! i of [] \<Rightarrow> None | x # _ \<Rightarrow> Some x, t) \<and>
    queues m0 t (qs[i := tl (qs ! i)])"
proof -
  obtain cs where cs: "stored m0 m ps cs" "qs = map messages cs" using assms(1) by (auto simp: queues_def)
  have il: "i < length cs" using assms(2) cs(2) by simp
  obtain PA p PB A c B where
    s: "ps = PA @ p # PB" "cs = A @ c # B" "length PA = i" "length A = i" "ps ! i = p" "cs ! i = c"
      "\<And>x. ps[i := x] = PA @ x # PB" "\<And>x. cs[i := x] = A @ x # B"
    by (rule stored_split [OF cs(1) il]) (rule that)
  have qi: "qs ! i = messages c" using il s(6) cs(2) by simp
  note st = cs(1) [unfolded s(1,2)] and len = s(3) [folded s(4)]
  show ?thesis
  proof (cases c)
    case Nil
    then have "p = None" using stored_head(1) [OF st len] by simp
    then have "pull_message i (ps, m) = Inr (None, ps, m)" by (simp add: pull_message_def s(5))
    moreover have "qs[i := tl (qs ! i)] = qs" using assms(2) qi Nil by (simp add: list_update_same_conv)
    ultimately show ?thesis using assms(1) qi Nil by simp
  next
    case (Cons e c')
    obtain a d bs where e: "e = (a, d, bs)" by (cases e)
    from stored_head(2) [OF st len Cons [unfolded e]] obtain nxt l where
      h: "p = Some a" "node_at m a = Inr \<lparr>nodeSig = nxt, dataLength = l, data = Some d\<rparr>" "unat l = length bs"
        "blocks m d = Some (Bytes bs)" by auto
    from dequeue_stored [OF st [unfolded Cons e] len] obtain p' m' where
      dq: "dequeue p m = Inr (p', m')" "stored m0 m' (PA @ p' # PB) (A @ c' # B)" by blast
    have "pull_message i (ps, m) = Inr (Some bs, PA @ p' # PB, m')"
      using h dq(1) by (simp add: pull_message_def s(5,7) read_bytes_def)
    moreover have "queues m0 (PA @ p' # PB, m') (qs[i := tl (qs ! i)])"
      unfolding queues_def
    proof (simp, intro exI conjI)
      show "stored m0 m' (PA @ p' # PB) (A @ c' # B)" by (rule dq(2))
      show "qs[i := tl (qs ! i)] = map messages (A @ c' # B)"
        by (simp add: cs(2) s(2) s(4) [symmetric] Cons e nth_append list_update_append)
    qed
    ultimately show ?thesis using qi by (simp add: Cons e)
  qed
qed

interpretation message_lists: fifos "\<lambda>s qs. malloc_ok malloc \<and> queues m0 s qs" "push_message malloc" pull_message message_ok
  for malloc m0
proof
  show "\<exists>b t. push_message malloc i x s = Inr (b, t) \<and> malloc_ok malloc \<and> queues m0 t (if b then qs[i := qs ! i @ [x]] else qs)"
    if "malloc_ok malloc \<and> queues m0 s qs" "i < length qs" "message_ok x" for s qs i x
    using that push_message_law [of malloc m0 "fst s" "snd s" qs i x] by auto
  show "\<exists>t. pull_message i s = Inr (case qs ! i of [] \<Rightarrow> None | x # _ \<Rightarrow> Some x, t) \<and> malloc_ok malloc \<and> queues m0 t (qs[i := tl (qs ! i)])"
    if "malloc_ok malloc \<and> queues m0 s qs" "i < length qs" for s qs i
    using that pull_message_law [of m0 "fst s" "snd s" qs i] by auto
qed

section \<open>Correctness\<close>

text \<open>
  C4: Several lists of messages in one memory are first in, first out queues. For every behaviour of
  \<open>malloc\<close> and every sequence of pushes of messages of 1 to 65535 bytes and pulls with deletion of
  the node, on any number of lists, nothing faults and no loop over the nodes runs on; each list
  has delivered a beginning of the messages that were accepted for it, in order and byte for byte,
  and holds the rest. Memory holds exactly two blocks for each message that is waiting, so once all
  lists are empty it is as it was before.
\<close>

theorem lists_are_queues:
  assumes "malloc_ok malloc" "list_all (op_ok message_ok n) ops"
  shows "\<exists>ps m ins outs qs.
    run (serve (push_message malloc) pull_message) ops ((replicate n None, m0), [], []) = Inr ((ps, m), ins, outs) \<and>
    length qs = n \<and> (\<forall>i<n. part i outs @ qs ! i = part i ins) \<and> queues m0 (ps, m) qs \<and>
    live m = live m0 + 2 * int (length (concat qs)) \<and> (concat qs = [] \<longrightarrow> blocks m = blocks m0)"
proof -
  have "queues m0 (replicate n None, m0) (replicate n [])"
    using stored_empty [of m0 n] by (auto simp: queues_def messages_def intro!: exI [of _ "replicate n []"])
  with message_lists.serve_all [of malloc m0 "(replicate n None, m0)" "replicate n []" ops "[]" "[]"] assms
  obtain s ins outs qs where r:
    "run (serve (push_message malloc) pull_message) ops ((replicate n None, m0), [], []) = Inr (s, ins, outs)"
    "queues m0 s qs" "length qs = n" "\<forall>i<n. part i outs @ qs ! i = part i ins" by auto
  obtain ps m where s: "s = (ps, m)" by (cases s)
  obtain cs where cs: "stored m0 m ps cs" "qs = map messages cs" using r(2) s by (auto simp: queues_def)
  have "concat qs = messages (concat cs)" unfolding cs(2) messages_def by (simp add: map_concat)
  then have "length (concat qs) = length (concat cs)" by (simp add: messages_def)
  then have "live m = live m0 + 2 * int (length (concat qs))" "concat qs = [] \<longrightarrow> blocks m = blocks m0"
    using cs(1) by (auto simp: stored_def fun_eq_iff simp flip: length_0_conv)
  with r s show ?thesis by blast
qed

theorem lists_are_queues_witness:
  "\<exists>ps m ins outs qs.
    run (serve (push_message first_fit) pull_message)
      [Enq 0 [1, 2], Enq 1 [7], Deq 1, Enq 0 [3], Deq 0, Deq 1] ((replicate 2 None, \<lparr>blocks = Map.empty, aaa = 0, fff = 0\<rparr>), [], []) =
      Inr ((ps, m), ins, outs) \<and>
    length qs = 2 \<and> (\<forall>i<2. part i outs @ qs ! i = part i ins) \<and> queues \<lparr>blocks = Map.empty, aaa = 0, fff = 0\<rparr> (ps, m) qs \<and>
    live m = live \<lparr>blocks = Map.empty :: nat \<rightharpoonup> list_block, aaa = 0, fff = 0\<rparr> + 2 * int (length (concat qs)) \<and>
    (concat qs = [] \<longrightarrow> blocks m = blocks \<lparr>blocks = Map.empty, aaa = 0, fff = 0\<rparr>)"
  by (rule lists_are_queues) (simp_all add: op_ok_def message_ok_def)

end
