(* ===== verification/Tcp_Client.thy ===== *)
theory Tcp_Client
  imports Node_List
begin

text \<open>
  The TCP client (\<open>net/client/tcp_client.c\<close>, \<open>tcp_client.h\<close>): three sessions, each with its state
  machine (name resolution, connection, TLS negotiation, transfer, closing, waiting) and a list of
  messages to send. The network presentation layer, the resolver and the core timer are a
  parameter: for the calls made so far, what they answer next. The calls made for a session are
  logged under its number. The application's callback may call every function of the interface;
  what it calls is decided by a parameter too.
\<close>

section \<open>Data\<close>

datatype t_STREAMS_STATES = STREAM_STATE_IDLE | STREAM_STATE_RECEIVING | STREAM_STATE_SENDING | STREAM_STATE_ERROR

datatype t_CLIENT_EVENTS =
    CLIENT_EVENT_NOTHING | CLIENT_EVENT_CONNECTED | CLIENT_EVENT_TX | CLIENT_EVENT_RX
  | CLIENT_EVENT_DISCONNECTED | CLIENT_EVENT_TIMEOUT | CLIENT_EVENT_ERROR

datatype t_TCP_CLIENT_STATES =
    TCP_CLIENT_STATE_IDLE
  | TCP_CLIENT_STATE_DNS_RESOLVE_HOST_ADDRESS | TCP_CLIENT_STATE_DNS_WAIT
  | TCP_CLIENT_STATE_DNS_TIMEOUT | TCP_CLIENT_STATE_DNS_ERROR
  | TCP_CLIENT_STATE_CONNECTION_INIT | TCP_CLIENT_STATE_CONNECTION_WAITING_FOR
  | TCP_CLIENT_STATE_CONNECTION_SSL_NEGOTIATION_WAIT | TCP_CLIENT_STATE_CONNECTION_STABLISHED
  | TCP_CLIENT_STATE_CONNECTION_TIMEOUT | TCP_CLIENT_STATE_CONNECTION_ERROR
  | TCP_CLIENT_STATE_CONNECTION_CLOSE | TCP_CLIENT_STATE_WAIT_FOR_RETRY

record t_TCP_CLIENT_CONTEXT =
  ev_sid :: int
  ev_event :: t_CLIENT_EVENTS
  ev_dataLength :: u16

record t_STREAM_TX =
  stx_state :: t_STREAMS_STATES
  datNode :: "nat option"
  curDataOffset :: u16

record t_TCP_CLIENT_DATA =
  timeout :: u32
  hostName_s :: string
  dnsResult :: int
  address :: u32
  port :: u16
  hSocket :: int
  tls :: bool
  state :: t_TCP_CLIENT_STATES
  stx :: t_STREAM_TX
  cb :: "nat option"
  cb_ctx :: nat

definition TCP_CLIENT_MAX_SOCKETS :: nat where "TCP_CLIENT_MAX_SOCKETS = 3"
definition INVALID_SOCKET :: int where "INVALID_SOCKET = -1"
definition TCP_NET_MAX_HOSTNAME_STRING_SIZE :: nat where "TCP_NET_MAX_HOSTNAME_STRING_SIZE = 128"
definition TCP_CLIENT_OP_SUCCESS :: int where "TCP_CLIENT_OP_SUCCESS = 0"
definition TCP_CLIENT_OP_ERROR :: int where "TCP_CLIENT_OP_ERROR = -1"
definition TCP_CLIENT_OP_BUSY :: int where "TCP_CLIENT_OP_BUSY = -2"
definition TCP_CLIENT_OP_WORNG_PARAMETERS :: int where "TCP_CLIENT_OP_WORNG_PARAMETERS = -3"
definition TCP_CLIENT_OP_WORNG_ID_CLIENT :: int where "TCP_CLIENT_OP_WORNG_ID_CLIENT = -4"

text \<open>The calls that reach the outside.\<close>

datatype net_call =
    Dns_Resolve string
  | Socket_Open u16 u32
  | Socket_WasReset int
  | Socket_WasDisconnected int
  | Socket_Encrypt int
  | Socket_Write int "u8 list"
  | Socket_Read int u16
  | Socket_Disconnect int
  | Socket_Close int
  | Event nat t_TCP_CLIENT_CONTEXT nat

record tcp_client =
  clientData :: "t_TCP_CLIENT_DATA list"
  mem :: "list_block dmem"
  calls :: "(nat \<times> net_call) list"

text \<open>The functions of the interface that change something, as the application calls them.\<close>

datatype request =
    Send int "u8 list option" u16
  | Close int
  | Open_Host string u16 bool "nat option" nat
  | Open_Ip u32 u16 bool "nat option" nat
  | Get_Rx int u16
  | Reset

text \<open>The results of the resolver.\<close>

definition TCPIP_DNS_RES_OK :: int where "TCPIP_DNS_RES_OK = 0"
definition TCPIP_DNS_RES_PENDING :: int where "TCPIP_DNS_RES_PENDING = 1"
definition TCPIP_DNS_RES_NAME_IS_IPADDRESS :: int where "TCPIP_DNS_RES_NAME_IS_IPADDRESS = 2"
definition TCPIP_DNS_RES_SERVER_TMO :: int where "TCPIP_DNS_RES_SERVER_TMO = -5"

text \<open>
  \<open>dns_is_resolved\<close> and \<open>string_to_ip\<close> give what the address field holds afterwards, given what it
  held before. \<open>app\<close> is the application: what its callback calls, given the event and the state.
\<close>

record net_answers =
  core_timer :: u32
  dns_resolve :: "string \<Rightarrow> int"
  dns_is_resolved :: "string \<Rightarrow> u32 \<Rightarrow> int \<times> u32"
  string_to_ip :: "string \<Rightarrow> u32 \<Rightarrow> u32"
  socket_open :: "u16 \<Rightarrow> u32 \<Rightarrow> int"
  was_reset :: "int \<Rightarrow> bool"
  was_disconnected :: "int \<Rightarrow> bool"
  is_connected :: "int \<Rightarrow> bool"
  encrypt_socket :: "int \<Rightarrow> bool"
  is_negotiating :: "int \<Rightarrow> bool"
  is_secure :: "int \<Rightarrow> bool"
  read_is_ready :: "int \<Rightarrow> u16"
  write_is_ready :: "int \<Rightarrow> u16 \<Rightarrow> u16 \<Rightarrow> u16"
  socket_read :: "int \<Rightarrow> u16 \<Rightarrow> u8 list"
  app :: "nat \<Rightarrow> t_TCP_CLIENT_CONTEXT \<Rightarrow> nat \<Rightarrow> tcp_client \<Rightarrow> request list"

type_synonym network = "(nat \<times> net_call) list \<Rightarrow> net_answers"

section \<open>Access to the sessions\<close>

text \<open>\<open>clientData[sid]\<close>, for any \<open>int32_t\<close>.\<close>

definition session :: "int \<Rightarrow> tcp_client \<Rightarrow> t_TCP_CLIENT_DATA outcome" where
  "session sid s = (if sid < 0 then Inl Out_Of_Bounds else rd (clientData s) (nat sid))"

definition upd :: "nat \<Rightarrow> (t_TCP_CLIENT_DATA \<Rightarrow> t_TCP_CLIENT_DATA) \<Rightarrow> tcp_client \<Rightarrow> tcp_client" where
  "upd i f s = s\<lparr>clientData := (clientData s)[i := f (clientData s ! i)]\<rparr>"

definition called :: "nat \<Rightarrow> net_call \<Rightarrow> tcp_client \<Rightarrow> tcp_client" where
  "called i c s = s\<lparr>calls := calls s @ [(i, c)]\<rparr>"

definition set_state :: "t_TCP_CLIENT_STATES \<Rightarrow> t_TCP_CLIENT_DATA \<Rightarrow> t_TCP_CLIENT_DATA" where
  "set_state st d = d\<lparr>state := st\<rparr>"

definition set_stx :: "t_STREAMS_STATES \<Rightarrow> t_TCP_CLIENT_DATA \<Rightarrow> t_TCP_CLIENT_DATA" where
  "set_stx st d = d\<lparr>stx := (stx d)\<lparr>stx_state := st\<rparr>\<rparr>"

definition set_datNode :: "nat option \<Rightarrow> t_TCP_CLIENT_DATA \<Rightarrow> t_TCP_CLIENT_DATA" where
  "set_datNode p d = d\<lparr>stx := (stx d)\<lparr>datNode := p\<rparr>\<rparr>"

definition set_offset :: "u16 \<Rightarrow> t_TCP_CLIENT_DATA \<Rightarrow> t_TCP_CLIENT_DATA" where
  "set_offset n d = d\<lparr>stx := (stx d)\<lparr>curDataOffset := n\<rparr>\<rparr>"

text \<open>\<open>ELAPSED_MS\<close>: the core timer counts at 100 MHz and wraps.\<close>

definition elapsed_ms :: "net_answers \<Rightarrow> u32 \<Rightarrow> u32" where
  "elapsed_ms a t = (core_timer a - t) div (100000000 div 1000)"

section \<open>Interface functions\<close>

definition session_cleared :: t_TCP_CLIENT_DATA where
  "session_cleared = \<lparr>timeout = 0, hostName_s = [], dnsResult = 0, address = 0, port = 0, hSocket = 0, tls = False,
     state = TCP_CLIENT_STATE_IDLE, stx = \<lparr>stx_state = STREAM_STATE_IDLE, datNode = None, curDataOffset = 0\<rparr>,
     cb = None, cb_ctx = 0\<rparr>"

definition tcp_client_init :: "tcp_client \<Rightarrow> tcp_client" where
  "tcp_client_init s = fold (\<lambda>i. upd i (\<lambda>_. set_state TCP_CLIENT_STATE_IDLE session_cleared)) [0..<TCP_CLIENT_MAX_SOCKETS] s"

definition reset_session :: "nat \<Rightarrow> tcp_client \<Rightarrow> tcp_client outcome" where
  "reset_session i s =
     seq (session (int i) s) (\<lambda>d.
     seq (if hSocket d \<noteq> INVALID_SOCKET
          then seq (if datNode (stx d) \<noteq> None
                    then seq (list_delete (datNode (stx d)) (mem s)) (\<lambda>m.
                         Inr (upd i (set_stx STREAM_STATE_IDLE) (upd i (set_datNode None) (s\<lparr>mem := m\<rparr>))))
                    else Inr s) (\<lambda>s.
               Inr (upd i (\<lambda>d. d\<lparr>hSocket := INVALID_SOCKET\<rparr>) (called i (Socket_Close (hSocket d)) s)))
          else Inr s) (\<lambda>s.
     Inr (upd i (set_state TCP_CLIENT_STATE_IDLE) s)))"

definition tcp_client_reset :: "tcp_client \<Rightarrow> tcp_client outcome" where
  "tcp_client_reset = run reset_session [0..<TCP_CLIENT_MAX_SOCKETS]"

definition tcp_client_get_state :: "int \<Rightarrow> tcp_client \<Rightarrow> t_TCP_CLIENT_STATES outcome" where
  "tcp_client_get_state sid s = seq (session sid s) (\<lambda>d. Inr (state d))"

text \<open>
  \<open>while ((clientData[i].state != IDLE) && (i < MAX)) i++\<close>: the element is read before the index is
  compared.
\<close>

function find_idle :: "nat \<Rightarrow> tcp_client \<Rightarrow> nat outcome" where
  "find_idle i s =
     seq (session (int i) s) (\<lambda>d.
     if state d \<noteq> TCP_CLIENT_STATE_IDLE \<and> i < TCP_CLIENT_MAX_SOCKETS then find_idle (i + 1) s else Inr i)"
  by pat_completeness auto
termination by (relation "measure (\<lambda>(i, s). TCP_CLIENT_MAX_SOCKETS - i)") auto

declare find_idle.simps [simp del]

definition tcp_client_open_host ::
  "string \<Rightarrow> u16 \<Rightarrow> bool \<Rightarrow> nat option \<Rightarrow> nat \<Rightarrow> tcp_client \<Rightarrow> (int \<times> tcp_client) outcome" where
  "tcp_client_open_host host prt tlsb f c s =
     seq (find_idle 0 s) (\<lambda>i.
     if i < TCP_CLIENT_MAX_SOCKETS
     then if length host < TCP_NET_MAX_HOSTNAME_STRING_SIZE
          then Inr (TCP_CLIENT_OP_SUCCESS,
            upd i (set_state TCP_CLIENT_STATE_DNS_RESOLVE_HOST_ADDRESS)
              (upd i (\<lambda>d. d\<lparr>hostName_s := host, port := prt, tls := tlsb, cb := f, cb_ctx := c\<rparr>) s))
          else Inl Out_Of_Bounds
     else Inr (TCP_CLIENT_OP_BUSY, s))"

definition tcp_client_open_ip ::
  "u32 \<Rightarrow> u16 \<Rightarrow> bool \<Rightarrow> nat option \<Rightarrow> nat \<Rightarrow> tcp_client \<Rightarrow> (int \<times> tcp_client) outcome" where
  "tcp_client_open_ip ip prt tlsb f c s =
     seq (find_idle 0 s) (\<lambda>i.
     if i < TCP_CLIENT_MAX_SOCKETS
     then Inr (TCP_CLIENT_OP_SUCCESS,
            upd i (set_state TCP_CLIENT_STATE_CONNECTION_INIT)
              (upd i (\<lambda>d. d\<lparr>address := ip, port := prt, tls := tlsb, cb := f, cb_ctx := c\<rparr>) s))
     else Inr (TCP_CLIENT_OP_BUSY, s))"

definition tcp_client_send ::
  "list_block malloc \<Rightarrow> int \<Rightarrow> u8 list option \<Rightarrow> u16 \<Rightarrow> tcp_client \<Rightarrow> (int \<times> tcp_client) outcome" where
  "tcp_client_send malloc sid dat len s =
     (if sid < int TCP_CLIENT_MAX_SOCKETS
      then seq (session sid s) (\<lambda>d.
           if state d = TCP_CLIENT_STATE_CONNECTION_STABLISHED
           then (case dat of
                   Some buf \<Rightarrow>
                     if len > 0
                     then seq (enqueue malloc buf (ucast len) (datNode (stx d)) (mem s)) (\<lambda>(b, p, m).
                          Inr (if b then TCP_CLIENT_OP_SUCCESS else TCP_CLIENT_OP_ERROR,
                               upd (nat sid) (set_datNode p) (s\<lparr>mem := m\<rparr>)))
                     else Inr (TCP_CLIENT_OP_SUCCESS, s)
                 | None \<Rightarrow> Inr (TCP_CLIENT_OP_SUCCESS, s))
           else Inr (TCP_CLIENT_OP_WORNG_ID_CLIENT, s))
      else Inr (TCP_CLIENT_OP_WORNG_PARAMETERS, s))"

definition tcp_client_peek_rx :: "network \<Rightarrow> int \<Rightarrow> u16 \<Rightarrow> tcp_client \<Rightarrow> u8 list outcome" where
  "tcp_client_peek_rx net sid n s =
     seq (session sid s) (\<lambda>d.
     Inr (if state d = TCP_CLIENT_STATE_CONNECTION_STABLISHED then socket_read (net (calls s)) (hSocket d) n else []))"

definition tcp_client_get_rx :: "network \<Rightarrow> int \<Rightarrow> u16 \<Rightarrow> tcp_client \<Rightarrow> (u8 list \<times> tcp_client) outcome" where
  "tcp_client_get_rx net sid n s =
     seq (session sid s) (\<lambda>d.
     Inr (if state d = TCP_CLIENT_STATE_CONNECTION_STABLISHED
          then (socket_read (net (calls s)) (hSocket d) n, called (nat sid) (Socket_Read (hSocket d) n) s)
          else ([], s)))"

definition tcp_client_close :: "int \<Rightarrow> tcp_client \<Rightarrow> (int \<times> tcp_client) outcome" where
  "tcp_client_close sid s =
     (if sid < int TCP_CLIENT_MAX_SOCKETS
      then seq (session sid s) (\<lambda>d.
           if hSocket d \<noteq> INVALID_SOCKET
           then Inr (TCP_CLIENT_OP_SUCCESS, upd (nat sid) (set_state TCP_CLIENT_STATE_CONNECTION_CLOSE) s)
           else Inr (TCP_CLIENT_OP_WORNG_ID_CLIENT, s))
      else Inr (TCP_CLIENT_OP_WORNG_PARAMETERS, s))"

section \<open>The callback\<close>

definition request :: "list_block malloc \<Rightarrow> network \<Rightarrow> request \<Rightarrow> tcp_client \<Rightarrow> tcp_client outcome" where
  "request malloc net r s =
     (case r of
        Send sid dat len \<Rightarrow> seq (tcp_client_send malloc sid dat len s) (\<lambda>(_, s). Inr s)
      | Close sid \<Rightarrow> seq (tcp_client_close sid s) (\<lambda>(_, s). Inr s)
      | Open_Host host prt tlsb f c \<Rightarrow> seq (tcp_client_open_host host prt tlsb f c s) (\<lambda>(_, s). Inr s)
      | Open_Ip ip prt tlsb f c \<Rightarrow> seq (tcp_client_open_ip ip prt tlsb f c s) (\<lambda>(_, s). Inr s)
      | Get_Rx sid n \<Rightarrow> seq (tcp_client_get_rx net sid n s) (\<lambda>(_, s). Inr s)
      | Reset \<Rightarrow> tcp_client_reset s)"

definition call_back :: "list_block malloc \<Rightarrow> network \<Rightarrow> nat \<Rightarrow> t_CLIENT_EVENTS \<Rightarrow> tcp_client \<Rightarrow> tcp_client outcome" where
  "call_back malloc net i e s =
     seq (session (int i) s) (\<lambda>d.
     (case cb d of
        None \<Rightarrow> Inr s
      | Some f \<Rightarrow>
          let c = \<lparr>ev_sid = int i, ev_event = e, ev_dataLength = read_is_ready (net (calls s)) (hSocket d)\<rparr>;
              rs = app (net (calls s)) f c (cb_ctx d) s
          in run (request malloc net) rs (called i (Event f c (cb_ctx d)) s)))"

section \<open>Sending\<close>

text \<open>\<open>dataLength - curDataOffset\<close> is an \<open>int\<close>; passed on as a length it has 16 bits.\<close>

definition remaining :: "t_LIST_NODE \<Rightarrow> t_STREAM_TX \<Rightarrow> int" where
  "remaining n x = uint (dataLength n) - uint (curDataOffset x)"

definition drop_node :: "nat \<Rightarrow> tcp_client \<Rightarrow> tcp_client outcome" where
  "drop_node i s =
     seq (session (int i) s) (\<lambda>d.
     seq (dequeue (datNode (stx d)) (mem s)) (\<lambda>(p, m).
     Inr (upd i (set_datNode p) (s\<lparr>mem := m\<rparr>))))"

definition stx_sending :: "list_block malloc \<Rightarrow> network \<Rightarrow> nat \<Rightarrow> tcp_client \<Rightarrow> tcp_client outcome" where
  "stx_sending malloc net i s =
     seq (session (int i) s) (\<lambda>d.
     let x = stx d; h = hSocket d in
     (case datNode x of
        None \<Rightarrow> Inl Null_Deref
      | Some a \<Rightarrow>
          seq (node_at (mem s) a) (\<lambda>n.
          let left = word_of_int (remaining n x); capacity = write_is_ready (net (calls s)) h left 1 in
          if capacity > 0
          then if uint capacity < remaining n x
               then seq (read_bytes (mem s) (data n) (unat (curDataOffset x)) (unat capacity)) (\<lambda>bs.
                    Inr (upd i (set_offset (curDataOffset x + capacity)) (called i (Socket_Write h bs) s)))
               else seq (read_bytes (mem s) (data n) (unat (curDataOffset x)) (unat left)) (\<lambda>bs.
                    seq (drop_node i (called i (Socket_Write h bs) s)) (\<lambda>s.
                    seq (call_back malloc net i CLIENT_EVENT_TX s) (\<lambda>s.
                    Inr (upd i (set_stx STREAM_STATE_IDLE) s))))
          else Inr s)))"

definition tx_task :: "list_block malloc \<Rightarrow> network \<Rightarrow> nat \<Rightarrow> tcp_client \<Rightarrow> tcp_client outcome" where
  "tx_task malloc net i s =
     seq (session (int i) s) (\<lambda>d.
     (case stx_state (stx d) of
        STREAM_STATE_IDLE \<Rightarrow>
          Inr (if datNode (stx d) \<noteq> None then upd i (set_stx STREAM_STATE_SENDING) (upd i (set_offset 0) s) else s)
      | STREAM_STATE_SENDING \<Rightarrow> stx_sending malloc net i s
      | _ \<Rightarrow>
          seq (drop_node i s) (\<lambda>s.
          seq (call_back malloc net i CLIENT_EVENT_ERROR s) (\<lambda>s.
          Inr (upd i (set_stx STREAM_STATE_IDLE) s)))))"

section \<open>The task\<close>

definition wait_for_retry :: "network \<Rightarrow> nat \<Rightarrow> tcp_client \<Rightarrow> tcp_client" where
  "wait_for_retry net i s =
     upd i (set_state TCP_CLIENT_STATE_WAIT_FOR_RETRY) (upd i (\<lambda>d. d\<lparr>timeout := core_timer (net (calls s))\<rparr>) s)"

definition case_DNS_RESOLVE :: "network \<Rightarrow> nat \<Rightarrow> t_TCP_CLIENT_DATA \<Rightarrow> tcp_client \<Rightarrow> tcp_client" where
  "case_DNS_RESOLVE net i d s =
     (let r = dns_resolve (net (calls s)) (hostName_s d);
          s = upd i (\<lambda>d. d\<lparr>dnsResult := r\<rparr>) (called i (Dns_Resolve (hostName_s d)) s)
      in if r < 0 then upd i (set_state TCP_CLIENT_STATE_DNS_ERROR) s
         else if r = TCPIP_DNS_RES_NAME_IS_IPADDRESS
         then upd i (set_state TCP_CLIENT_STATE_CONNECTION_INIT)
                (upd i (\<lambda>d. d\<lparr>address := string_to_ip (net (calls s)) (hostName_s d) (address d)\<rparr>) s)
         else upd i (set_state TCP_CLIENT_STATE_DNS_WAIT) s)"

definition case_DNS_WAIT :: "network \<Rightarrow> nat \<Rightarrow> t_TCP_CLIENT_DATA \<Rightarrow> tcp_client \<Rightarrow> tcp_client" where
  "case_DNS_WAIT net i d s =
     (let (r, a) = dns_is_resolved (net (calls s)) (hostName_s d) (address d);
          s = upd i (\<lambda>d. d\<lparr>dnsResult := r, address := a\<rparr>) s
      in if r = TCPIP_DNS_RES_OK then upd i (set_state TCP_CLIENT_STATE_CONNECTION_INIT) s
         else if r = TCPIP_DNS_RES_PENDING then s
         else if r = TCPIP_DNS_RES_SERVER_TMO then upd i (set_state TCP_CLIENT_STATE_DNS_TIMEOUT) s
         else upd i (set_state TCP_CLIENT_STATE_DNS_ERROR) s)"

definition case_report_retry ::
  "list_block malloc \<Rightarrow> network \<Rightarrow> t_CLIENT_EVENTS \<Rightarrow> nat \<Rightarrow> tcp_client \<Rightarrow> tcp_client outcome" where
  "case_report_retry malloc net e i s = seq (call_back malloc net i e s) (\<lambda>s. Inr (wait_for_retry net i s))"

definition case_report_close ::
  "list_block malloc \<Rightarrow> network \<Rightarrow> t_CLIENT_EVENTS \<Rightarrow> nat \<Rightarrow> tcp_client \<Rightarrow> tcp_client outcome" where
  "case_report_close malloc net e i s =
     seq (call_back malloc net i e s) (\<lambda>s. Inr (upd i (set_state TCP_CLIENT_STATE_CONNECTION_CLOSE) s))"

definition case_CONNECTION_INIT ::
  "list_block malloc \<Rightarrow> network \<Rightarrow> nat \<Rightarrow> t_TCP_CLIENT_DATA \<Rightarrow> tcp_client \<Rightarrow> tcp_client outcome" where
  "case_CONNECTION_INIT malloc net i d s =
     (let h = socket_open (net (calls s)) (port d) (address d);
          s = upd i (\<lambda>d. d\<lparr>hSocket := h\<rparr>) (called i (Socket_Open (port d) (address d)) s)
      in if h = INVALID_SOCKET then case_report_retry malloc net CLIENT_EVENT_ERROR i s
         else let s = called i (Socket_WasReset h) s
              in Inr (upd i (set_state TCP_CLIENT_STATE_CONNECTION_WAITING_FOR)
                   (upd i (\<lambda>d. d\<lparr>timeout := core_timer (net (calls s))\<rparr>) s)))"

definition connection_timed_out :: "network \<Rightarrow> nat \<Rightarrow> t_TCP_CLIENT_DATA \<Rightarrow> tcp_client \<Rightarrow> tcp_client" where
  "connection_timed_out net i d s =
     (if elapsed_ms (net (calls s)) (timeout d) > 20000
      then upd i (set_state TCP_CLIENT_STATE_CONNECTION_TIMEOUT) s else s)"

definition established ::
  "list_block malloc \<Rightarrow> network \<Rightarrow> nat \<Rightarrow> tcp_client \<Rightarrow> tcp_client outcome" where
  "established malloc net i s =
     call_back malloc net i CLIENT_EVENT_CONNECTED (upd i (set_state TCP_CLIENT_STATE_CONNECTION_STABLISHED) s)"

definition case_CONNECTION_WAITING_FOR ::
  "list_block malloc \<Rightarrow> network \<Rightarrow> nat \<Rightarrow> t_TCP_CLIENT_DATA \<Rightarrow> tcp_client \<Rightarrow> tcp_client outcome" where
  "case_CONNECTION_WAITING_FOR malloc net i d s =
     (if is_connected (net (calls s)) (hSocket d)
      then let s = upd i (set_stx STREAM_STATE_IDLE) s
           in if tls d
              then let secured = encrypt_socket (net (calls s)) (hSocket d); s = called i (Socket_Encrypt (hSocket d)) s
                   in if secured
                      then Inr (upd i (set_state TCP_CLIENT_STATE_CONNECTION_SSL_NEGOTIATION_WAIT)
                             (upd i (\<lambda>d. d\<lparr>timeout := core_timer (net (calls s))\<rparr>) s))
                      else Inr (upd i (set_state TCP_CLIENT_STATE_CONNECTION_ERROR) s)
              else established malloc net i s
      else Inr (connection_timed_out net i d s))"

definition case_SSL_NEGOTIATION_WAIT ::
  "list_block malloc \<Rightarrow> network \<Rightarrow> nat \<Rightarrow> t_TCP_CLIENT_DATA \<Rightarrow> tcp_client \<Rightarrow> tcp_client outcome" where
  "case_SSL_NEGOTIATION_WAIT malloc net i d s =
     (if is_negotiating (net (calls s)) (hSocket d) then Inr (connection_timed_out net i d s)
      else if is_secure (net (calls s)) (hSocket d) then established malloc net i s
      else Inr (upd i (set_state TCP_CLIENT_STATE_CONNECTION_ERROR) s))"

text \<open>\<open>||\<close> does not ask whether the socket was disconnected when it was reset.\<close>

definition gone :: "network \<Rightarrow> nat \<Rightarrow> int \<Rightarrow> tcp_client \<Rightarrow> bool \<times> tcp_client" where
  "gone net i h s =
     (let r = was_reset (net (calls s)) h; s = called i (Socket_WasReset h) s
      in if r then (True, s) else (was_disconnected (net (calls s)) h, called i (Socket_WasDisconnected h) s))"

definition receive ::
  "list_block malloc \<Rightarrow> network \<Rightarrow> nat \<Rightarrow> tcp_client \<Rightarrow> tcp_client outcome" where
  "receive malloc net i s =
     seq (session (int i) s) (\<lambda>d.
     if read_is_ready (net (calls s)) (hSocket d) \<noteq> 0 then call_back malloc net i CLIENT_EVENT_RX s else Inr s)"

definition case_CONNECTION_STABLISHED ::
  "list_block malloc \<Rightarrow> network \<Rightarrow> nat \<Rightarrow> t_TCP_CLIENT_DATA \<Rightarrow> tcp_client \<Rightarrow> tcp_client outcome" where
  "case_CONNECTION_STABLISHED malloc net i d s =
     (let (g, s) = gone net i (hSocket d) s
      in if g then case_report_close malloc net CLIENT_EVENT_DISCONNECTED i (called i (Socket_Disconnect (hSocket d)) s)
         else seq (tx_task malloc net i s) (receive malloc net i))"

definition case_CONNECTION_CLOSE ::
  "network \<Rightarrow> nat \<Rightarrow> t_TCP_CLIENT_DATA \<Rightarrow> tcp_client \<Rightarrow> tcp_client outcome" where
  "case_CONNECTION_CLOSE net i d s =
     (let s = upd i (\<lambda>d. d\<lparr>hSocket := INVALID_SOCKET\<rparr>) (called i (Socket_Close (hSocket d)) s)
      in seq (list_delete (datNode (stx d)) (mem s)) (\<lambda>m.
         Inr (wait_for_retry net i (upd i (set_datNode None) (s\<lparr>mem := m\<rparr>)))))"

definition case_WAIT_FOR_RETRY :: "network \<Rightarrow> nat \<Rightarrow> t_TCP_CLIENT_DATA \<Rightarrow> tcp_client \<Rightarrow> tcp_client" where
  "case_WAIT_FOR_RETRY net i d s =
     (if elapsed_ms (net (calls s)) (timeout d) > 5000 then upd i (set_state TCP_CLIENT_STATE_IDLE) s else s)"

definition session_task :: "list_block malloc \<Rightarrow> network \<Rightarrow> nat \<Rightarrow> tcp_client \<Rightarrow> tcp_client outcome" where
  "session_task malloc net i s =
     seq (session (int i) s) (\<lambda>d.
     (case state d of
        TCP_CLIENT_STATE_IDLE \<Rightarrow> Inr s
      | TCP_CLIENT_STATE_DNS_RESOLVE_HOST_ADDRESS \<Rightarrow> Inr (case_DNS_RESOLVE net i d s)
      | TCP_CLIENT_STATE_DNS_WAIT \<Rightarrow> Inr (case_DNS_WAIT net i d s)
      | TCP_CLIENT_STATE_DNS_TIMEOUT \<Rightarrow> case_report_retry malloc net CLIENT_EVENT_TIMEOUT i s
      | TCP_CLIENT_STATE_DNS_ERROR \<Rightarrow> case_report_retry malloc net CLIENT_EVENT_ERROR i s
      | TCP_CLIENT_STATE_CONNECTION_INIT \<Rightarrow> case_CONNECTION_INIT malloc net i d s
      | TCP_CLIENT_STATE_CONNECTION_WAITING_FOR \<Rightarrow> case_CONNECTION_WAITING_FOR malloc net i d s
      | TCP_CLIENT_STATE_CONNECTION_SSL_NEGOTIATION_WAIT \<Rightarrow> case_SSL_NEGOTIATION_WAIT malloc net i d s
      | TCP_CLIENT_STATE_CONNECTION_STABLISHED \<Rightarrow> case_CONNECTION_STABLISHED malloc net i d s
      | TCP_CLIENT_STATE_CONNECTION_TIMEOUT \<Rightarrow> case_report_close malloc net CLIENT_EVENT_TIMEOUT i s
      | TCP_CLIENT_STATE_CONNECTION_ERROR \<Rightarrow> case_report_close malloc net CLIENT_EVENT_ERROR i s
      | TCP_CLIENT_STATE_CONNECTION_CLOSE \<Rightarrow> case_CONNECTION_CLOSE net i d s
      | TCP_CLIENT_STATE_WAIT_FOR_RETRY \<Rightarrow> Inr (case_WAIT_FOR_RETRY net i d s)))"

definition tcp_client_task :: "list_block malloc \<Rightarrow> network \<Rightarrow> tcp_client \<Rightarrow> tcp_client outcome" where
  "tcp_client_task malloc net = run (session_task malloc net) [0..<TCP_CLIENT_MAX_SOCKETS]"

end
