(* ===== verification/Tcp_Session.thy ===== *)
theory Tcp_Session
  imports Tcp_Client
begin

text \<open>
  Runs of the TCP client: the invariant of the sessions and of the memory that holds their lists,
  kept by every function of the interface, by the application's callback and by the task; the
  delivery of the messages; the end of every attempt to connect.
\<close>

section \<open>The invariant\<close>

text \<open>
  What holds of a session and the cells of its list: messages wait only while it is connected or
  about to be closed; a socket is opened only when none is held; the message being sent is the first
  of the list and has bytes left.
\<close>

definition unconnected :: "t_TCP_CLIENT_STATES set" where
  "unconnected = {TCP_CLIENT_STATE_IDLE, TCP_CLIENT_STATE_DNS_RESOLVE_HOST_ADDRESS, TCP_CLIENT_STATE_DNS_WAIT,
     TCP_CLIENT_STATE_DNS_TIMEOUT, TCP_CLIENT_STATE_DNS_ERROR, TCP_CLIENT_STATE_CONNECTION_INIT,
     TCP_CLIENT_STATE_WAIT_FOR_RETRY}"

definition connected :: "t_TCP_CLIENT_STATES set" where
  "connected = {TCP_CLIENT_STATE_CONNECTION_WAITING_FOR, TCP_CLIENT_STATE_CONNECTION_SSL_NEGOTIATION_WAIT,
     TCP_CLIENT_STATE_CONNECTION_STABLISHED}"

definition first_len :: "cell list \<Rightarrow> nat" where
  "first_len q = (case q of [] \<Rightarrow> 0 | (_, _, bs) # _ \<Rightarrow> length bs)"

text \<open>Messages are not empty.\<close>

definition session_ok :: "bool \<Rightarrow> t_TCP_CLIENT_DATA \<Rightarrow> cell list \<Rightarrow> bool" where
  "session_ok settled d q \<longleftrightarrow>
     list_all (\<lambda>(_, _, bs). bs \<noteq> []) q \<and>
     (datNode (stx d) \<noteq> None \<longrightarrow>
        state d \<in> {TCP_CLIENT_STATE_CONNECTION_STABLISHED, TCP_CLIENT_STATE_CONNECTION_CLOSE} \<and> hSocket d \<noteq> INVALID_SOCKET) \<and>
     (state d \<in> unconnected \<longrightarrow> hSocket d = 0 \<or> hSocket d = INVALID_SOCKET) \<and>
     (state d \<in> connected \<longrightarrow> hSocket d \<noteq> INVALID_SOCKET) \<and>
     (state d = TCP_CLIENT_STATE_CONNECTION_SSL_NEGOTIATION_WAIT \<longrightarrow> stx_state (stx d) = STREAM_STATE_IDLE) \<and>
     (settled \<and> state d = TCP_CLIENT_STATE_CONNECTION_STABLISHED \<and> stx_state (stx d) = STREAM_STATE_SENDING \<longrightarrow>
        unat (curDataOffset (stx d)) < first_len q)"

text \<open>While a session reports a message it has just sent, its offset is not yet that of the next one; such
  sessions are in \<open>X\<close>.\<close>

definition good :: "list_block dmem \<Rightarrow> nat set \<Rightarrow> tcp_client \<Rightarrow> cell list list \<Rightarrow> bool" where
  "good m0 X s cs \<longleftrightarrow>
     length (clientData s) = TCP_CLIENT_MAX_SOCKETS \<and> length cs = TCP_CLIENT_MAX_SOCKETS \<and>
     stored m0 (mem s) (map (datNode \<circ> stx) (clientData s)) cs \<and>
     (\<forall>i<TCP_CLIENT_MAX_SOCKETS. session_ok (i \<notin> X) (clientData s ! i) (cs ! i))"

lemma called_simps [simp]: "clientData (called i c s) = clientData s" "mem (called i c s) = mem s"
    "calls (called i c s) = calls s @ [(i, c)]"
  by (simp_all add: called_def)

lemma good_called [simp]: "good m0 X (called i c s) cs = good m0 X s cs"
  by (simp add: good_def)

lemma upd_simps [simp]: "clientData (upd i f s) = (clientData s)[i := f (clientData s ! i)]" "mem (upd i f s) = mem s"
    "calls (upd i f s) = calls s"
  by (simp_all add: upd_def)

lemma setter_simps [simp]:
  "state (set_state x d) = x" "stx (set_state x d) = stx d" "hSocket (set_state x d) = hSocket d"
    "cb (set_state x d) = cb d" "timeout (set_state x d) = timeout d"
  "state (set_stx y d) = state d" "stx_state (stx (set_stx y d)) = y" "datNode (stx (set_stx y d)) = datNode (stx d)"
    "curDataOffset (stx (set_stx y d)) = curDataOffset (stx d)" "hSocket (set_stx y d) = hSocket d" "cb (set_stx y d) = cb d"
  "state (set_datNode p d) = state d" "stx_state (stx (set_datNode p d)) = stx_state (stx d)" "datNode (stx (set_datNode p d)) = p"
    "curDataOffset (stx (set_datNode p d)) = curDataOffset (stx d)" "hSocket (set_datNode p d) = hSocket d"
    "cb (set_datNode p d) = cb d"
  "state (set_offset n d) = state d" "stx_state (stx (set_offset n d)) = stx_state (stx d)"
    "datNode (stx (set_offset n d)) = datNode (stx d)"
    "curDataOffset (stx (set_offset n d)) = n" "hSocket (set_offset n d) = hSocket d" "cb (set_offset n d) = cb d"
  by (simp_all add: set_state_def set_stx_def set_datNode_def set_offset_def)

lemma session_in [simp]: "length (clientData s) = TCP_CLIENT_MAX_SOCKETS \<Longrightarrow> i < TCP_CLIENT_MAX_SOCKETS \<Longrightarrow>
    session (int i) s = Inr (clientData s ! i)"
  by (simp add: session_def)

lemma goodD:
  assumes "good m0 X s cs"
  shows "length (clientData s) = TCP_CLIENT_MAX_SOCKETS" "length cs = TCP_CLIENT_MAX_SOCKETS"
    "i < TCP_CLIENT_MAX_SOCKETS \<Longrightarrow> session_ok (i \<notin> X) (clientData s ! i) (cs ! i)"
  using assms by (auto simp: good_def)

lemma session_ok_weaken: "session_ok b d q \<Longrightarrow> (b' \<Longrightarrow> b) \<Longrightarrow> session_ok b' d q"
  by (auto simp: session_ok_def)

lemma good_mono: "good m0 X s cs \<Longrightarrow> X \<subseteq> Y \<Longrightarrow> good m0 Y s cs"
  by (auto simp: good_def intro: session_ok_weaken)

text \<open>A change of one session that leaves its list alone.\<close>

lemma good_upd:
  assumes "good m0 X s cs" "i < TCP_CLIENT_MAX_SOCKETS" "X \<subseteq> insert i Y"
    and "datNode (stx (f (clientData s ! i))) = datNode (stx (clientData s ! i))"
    and "session_ok (i \<notin> Y) (f (clientData s ! i)) (cs ! i)"
  shows "good m0 Y (upd i f s) cs"
proof -
  have l: "i < length (clientData s)" using assms(1,2) goodD by simp
  have "map (datNode \<circ> stx) ((clientData s)[i := f (clientData s ! i)]) = map (datNode \<circ> stx) (clientData s)"
    using l assms(4) by (simp add: map_update list_update_same_conv)
  moreover have "session_ok (j \<notin> Y) ((clientData s)[i := f (clientData s ! i)] ! j) (cs ! j)"
    if "j < TCP_CLIENT_MAX_SOCKETS" for j
    using assms(3,5) l that session_ok_weaken [OF goodD(3) [OF assms(1) that], of "j \<notin> Y"]
    by (cases "j = i") auto
  ultimately show ?thesis using assms(1) by (simp add: good_def)
qed

text \<open>A change of one list, with the session that holds it.\<close>

lemma good_split:
  assumes "good m0 X s cs" "i < TCP_CLIENT_MAX_SOCKETS"
  obtains PA PB A B where "stored m0 (mem s) (PA @ datNode (stx (clientData s ! i)) # PB) (A @ cs ! i # B)"
    "length PA = length A"
    "\<And>m d c Y. stored m0 m (PA @ datNode (stx d) # PB) (A @ c # B) \<Longrightarrow> X \<subseteq> insert i Y \<Longrightarrow> session_ok (i \<notin> Y) d c \<Longrightarrow>
       good m0 Y (s\<lparr>mem := m, clientData := (clientData s)[i := d]\<rparr>) (cs[i := c])"
proof -
  let ?ps = "map (datNode \<circ> stx) (clientData s)"
  have st: "stored m0 (mem s) ?ps cs" using assms(1) by (simp add: good_def)
  have l: "i < length (clientData s)" "i < length cs" using assms goodD by simp_all
  obtain PA p PB A c B where
    s: "?ps = PA @ p # PB" "cs = A @ c # B" "length PA = i" "length A = i" "?ps ! i = p" "cs ! i = c"
      "\<And>x. ?ps[i := x] = PA @ x # PB" "\<And>x. cs[i := x] = A @ x # B"
    by (rule stored_split [OF st l(2)]) (rule that)
  have p: "p = datNode (stx (clientData s ! i))" using s(5) l(1) by simp
  show ?thesis
  proof (rule that [of PA PB A B])
    show "stored m0 (mem s) (PA @ datNode (stx (clientData s ! i)) # PB) (A @ cs ! i # B)"
      using st unfolding s(1) s(6) p [symmetric] by (simp only: s(2) [symmetric])
    show "length PA = length A" using s(3,4) by simp
    fix m d c' Y assume st': "stored m0 m (PA @ datNode (stx d) # PB) (A @ c' # B)"
      and X: "X \<subseteq> insert i Y" and ok: "session_ok (i \<notin> Y) d c'"
    have "map (datNode \<circ> stx) ((clientData s)[i := d]) = PA @ datNode (stx d) # PB"
      using s(7) [of "datNode (stx d)"] by (simp add: map_update)
    moreover have "session_ok (j \<notin> Y) ((clientData s)[i := d] ! j) (cs[i := c'] ! j)" if "j < TCP_CLIENT_MAX_SOCKETS" for j
      using ok X l that session_ok_weaken [OF goodD(3) [OF assms(1) that], of "j \<notin> Y"] by (cases "j = i") auto
    ultimately show "good m0 Y (s\<lparr>mem := m, clientData := (clientData s)[i := d]\<rparr>) (cs[i := c'])"
      using st' s(8) [symmetric] assms(1) by (simp add: good_def)
  qed
qed

section \<open>The functions of the interface keep the invariant\<close>

lemma stored_pointer: "stored m0 m (PA @ p # PB) (A @ c # B) \<Longrightarrow> length PA = length A \<Longrightarrow> (p = None) = (c = [])"
  by (rule stored_head(1))

lemma good_pointer: "good m0 X s cs \<Longrightarrow> i < TCP_CLIENT_MAX_SOCKETS \<Longrightarrow> (datNode (stx (clientData s ! i)) = None) = (cs ! i = [])"
  using good_split stored_pointer by metis

lemma first_len_snoc [simp]: "q \<noteq> [] \<Longrightarrow> first_len (q @ r) = first_len q"
  by (cases q) (auto simp: first_len_def)

lemma first_len_Nil [simp]: "first_len [] = 0"
  by (simp add: first_len_def)

lemma send_good:
  assumes g: "good m0 X s cs" and "malloc_ok malloc" and i: "i < TCP_CLIENT_MAX_SOCKETS"
    and est: "state (clientData s ! i) = TCP_CLIENT_STATE_CONNECTION_STABLISHED"
    and len: "0 < len" "unat len \<le> length buf"
  obtains t where "tcp_client_send malloc (int i) (Some buf) len s = Inr (TCP_CLIENT_OP_ERROR, t)" "good m0 X t cs"
      "calls t = calls s" "clientData t = clientData s"
  | t p n d where "tcp_client_send malloc (int i) (Some buf) len s = Inr (TCP_CLIENT_OP_SUCCESS, t)"
      "good m0 X t (cs[i := cs ! i @ [(n, d, take (unat len) buf)]])"
      "calls t = calls s" "clientData t = (clientData s)[i := set_datNode (Some p) (clientData s ! i)]"
proof -
  let ?d = "clientData s ! i"
  obtain PA PB A B where
    st: "stored m0 (mem s) (PA @ datNode (stx ?d) # PB) (A @ cs ! i # B)" "length PA = length A" and
    put: "\<And>m d c Y. stored m0 m (PA @ datNode (stx d) # PB) (A @ c # B) \<Longrightarrow> X \<subseteq> insert i Y \<Longrightarrow> session_ok (i \<notin> Y) d c \<Longrightarrow>
       good m0 Y (s\<lparr>mem := m, clientData := (clientData s)[i := d]\<rparr>) (cs[i := c])"
    by (rule good_split [OF g i]) (rule that)
  have l: "length (clientData s) = TCP_CLIENT_MAX_SOCKETS" "length cs = TCP_CLIENT_MAX_SOCKETS" using g goodD by simp_all
  have b: "unat len < 2 ^ 16" using unsigned_less [of len] by simp
  then have u: "unat (ucast len :: u32) = unat len" by (simp add: unsigned_ucast_eq take_bit_nat_eq_self)
  have len': "0 < (ucast len :: u32)" "unat (ucast len :: u32) \<le> length buf" "unat (ucast len :: u32) < 2 ^ 16"
    using len u b by (simp_all add: word_less_nat_alt)
  have ok: "session_ok (i \<notin> X) ?d (cs ! i)" using g i goodD by blast
  have "0 < unat len" using len(1) by (simp add: word_less_nat_alt)
  then have ne: "take (unat len) buf \<noteq> []" using len(2) by auto
  show ?thesis
  proof (cases rule: enqueue_stored [OF assms(2) len' st])
    case (1 m')
    let ?t = "upd i (set_datNode (datNode (stx ?d))) (s\<lparr>mem := m'\<rparr>)"
    have same: "set_datNode (datNode (stx ?d)) ?d = ?d" by (simp add: set_datNode_def)
    have "tcp_client_send malloc (int i) (Some buf) len s = Inr (TCP_CLIENT_OP_ERROR, ?t)"
      using 1(1) i l est len(1) by (simp add: tcp_client_send_def)
    moreover have "good m0 X ?t cs" using put [OF 1(2) subset_insertI ok] same by (simp add: upd_def)
    ultimately show ?thesis using same by (intro that(1) [of ?t]) simp_all
  next
    case (2 p m' n d)
    have "p \<noteq> None" using stored_pointer [OF 2(2) st(2)] by simp
    then obtain p' where p': "p = Some p'" by blast
    let ?t = "upd i (set_datNode p) (s\<lparr>mem := m'\<rparr>)"
    have "tcp_client_send malloc (int i) (Some buf) len s = Inr (TCP_CLIENT_OP_SUCCESS, ?t)"
      using 2(1) i l est len(1) by (simp add: tcp_client_send_def)
    moreover have "session_ok (i \<notin> X) (set_datNode p ?d) (cs ! i @ [(n, d, take (unat len) buf)])"
      using ok est ne by (cases "cs ! i") (auto simp: session_ok_def connected_def unconnected_def first_len_def)
    then have "good m0 X ?t (cs[i := cs ! i @ [(n, d, take (unat len) buf)]])"
      using put [of m' "set_datNode p ?d" _ X] 2(2) u subset_insertI [of X i] by (simp add: upd_def)
    ultimately show ?thesis using p' by (intro that(2) [of ?t n d p']) simp_all
  qed
qed

lemma drop_node_good:
  assumes g: "good m0 X s cs" and i: "i < TCP_CLIENT_MAX_SOCKETS"
  obtains t p where "drop_node i s = Inr t" "good m0 (insert i X) t (cs[i := tl (cs ! i)])"
      "calls t = calls s" "clientData t = (clientData s)[i := set_datNode p (clientData s ! i)]"
proof -
  let ?d = "clientData s ! i"
  obtain PA PB A B where
    st: "stored m0 (mem s) (PA @ datNode (stx ?d) # PB) (A @ cs ! i # B)" "length PA = length A" and
    put: "\<And>m d c Y. stored m0 m (PA @ datNode (stx d) # PB) (A @ c # B) \<Longrightarrow> X \<subseteq> insert i Y \<Longrightarrow> session_ok (i \<notin> Y) d c \<Longrightarrow>
       good m0 Y (s\<lparr>mem := m, clientData := (clientData s)[i := d]\<rparr>) (cs[i := c])"
    by (rule good_split [OF g i]) (rule that)
  have l: "length (clientData s) = TCP_CLIENT_MAX_SOCKETS" using g goodD by simp
  have ok: "session_ok (i \<notin> X) ?d (cs ! i)" using g i goodD by blast
  have "\<exists>p m. dequeue (datNode (stx ?d)) (mem s) = Inr (p, m) \<and> stored m0 m (PA @ p # PB) (A @ tl (cs ! i) # B)"
  proof (cases "cs ! i")
    case Nil
    then have "datNode (stx ?d) = None" using stored_pointer [OF st] by simp
    then show ?thesis using st(1) Nil by simp
  next
    case (Cons e q)
    obtain a d bs where "e = (a, d, bs)" by (cases e)
    with Cons st show ?thesis by (auto elim: dequeue_stored)
  qed
  then obtain p m where p: "dequeue (datNode (stx ?d)) (mem s) = Inr (p, m)" "stored m0 m (PA @ p # PB) (A @ tl (cs ! i) # B)"
    by blast
  have "p \<noteq> None \<longrightarrow> datNode (stx ?d) \<noteq> None"
    using stored_pointer [OF st] stored_pointer [OF p(2) st(2)] by (cases "cs ! i") auto
  then have "session_ok (i \<notin> insert i X) (set_datNode p ?d) (tl (cs ! i))"
    using ok by (cases "cs ! i") (auto simp: session_ok_def)
  then have "good m0 (insert i X) (upd i (set_datNode p) (s\<lparr>mem := m\<rparr>)) (cs[i := tl (cs ! i)])"
    using put [of m "set_datNode p ?d" _ "insert i X"] p(2) by (auto simp: upd_def)
  then show ?thesis using p(1) i l by (intro that [of "upd i (set_datNode p) (s\<lparr>mem := m\<rparr>)" p]) (simp_all add: drop_node_def)
qed

lemma clear_good:
  assumes g: "good m0 X s cs" and i: "i < TCP_CLIENT_MAX_SOCKETS"
  obtains m where "list_delete (datNode (stx (clientData s ! i))) (mem s) = Inr m"
    "\<And>d. datNode (stx d) = None \<Longrightarrow> session_ok (i \<notin> X) d [] \<Longrightarrow>
       good m0 X (s\<lparr>mem := m, clientData := (clientData s)[i := d]\<rparr>) (cs[i := []])"
proof -
  let ?d = "clientData s ! i"
  obtain PA PB A B where
    st: "stored m0 (mem s) (PA @ datNode (stx ?d) # PB) (A @ cs ! i # B)" "length PA = length A" and
    put: "\<And>m d c Y. stored m0 m (PA @ datNode (stx d) # PB) (A @ c # B) \<Longrightarrow> X \<subseteq> insert i Y \<Longrightarrow> session_ok (i \<notin> Y) d c \<Longrightarrow>
       good m0 Y (s\<lparr>mem := m, clientData := (clientData s)[i := d]\<rparr>) (cs[i := c])"
    by (rule good_split [OF g i]) (rule that)
  from delete_stored [OF st] obtain m where "list_delete (datNode (stx ?d)) (mem s) = Inr m"
    "stored m0 m (PA @ None # PB) (A @ [] # B)" by blast
  then show ?thesis using put [of m _ "[]" X] subset_insertI [of X i] by (intro that [of m]) auto
qed

text \<open>
  What the functions of the interface promise of the sessions they are not meant for: none becomes
  connected, and a socket is kept or given up.
\<close>

definition calm :: "t_TCP_CLIENT_DATA \<Rightarrow> bool" where
  "calm d \<longleftrightarrow> state d \<noteq> TCP_CLIENT_STATE_CONNECTION_STABLISHED \<and> datNode (stx d) = None"

definition request_rel :: "tcp_client \<Rightarrow> tcp_client \<Rightarrow> bool" where
  "request_rel s t \<longleftrightarrow> (\<forall>i<TCP_CLIENT_MAX_SOCKETS.
     (calm (clientData s ! i) \<longrightarrow> calm (clientData t ! i)) \<and>
     (hSocket (clientData t ! i) = hSocket (clientData s ! i) \<or> hSocket (clientData t ! i) = INVALID_SOCKET))"

lemma request_rel_refl [simp]: "request_rel s s"
  by (simp add: request_rel_def)

lemma request_rel_trans: "request_rel s t \<Longrightarrow> request_rel t u \<Longrightarrow> request_rel s u"
  unfolding request_rel_def by metis

lemma request_rel_same: "clientData t = clientData s \<Longrightarrow> request_rel s t"
  by (simp add: request_rel_def)

lemma request_rel_one:
  assumes "clientData t = (clientData s)[i := d]" "length (clientData s) = TCP_CLIENT_MAX_SOCKETS" "i < TCP_CLIENT_MAX_SOCKETS"
    and "calm (clientData s ! i) \<Longrightarrow> calm d"
    and "hSocket d = hSocket (clientData s ! i) \<or> hSocket d = INVALID_SOCKET"
  shows "request_rel s t"
  using assms by (auto simp: request_rel_def nth_list_update)

definition valid :: "list_block dmem \<Rightarrow> nat set \<Rightarrow> tcp_client \<Rightarrow> bool" where
  "valid m0 X s \<longleftrightarrow> (\<exists>cs. good m0 X s cs)"

lemma valid_called [simp]: "valid m0 X (called i c s) = valid m0 X s"
  by (simp add: valid_def)

lemma valid_length: "valid m0 X s \<Longrightarrow> length (clientData s) = TCP_CLIENT_MAX_SOCKETS"
  by (auto simp: valid_def goodD)

lemma reset_session_good:
  assumes g: "good m0 X s cs" and i: "i < TCP_CLIENT_MAX_SOCKETS"
  shows "\<exists>t. reset_session i s = Inr t \<and> good m0 X t (cs[i := []]) \<and> request_rel s t \<and>
    calm (clientData t ! i) \<and> (\<forall>j. j \<noteq> i \<longrightarrow> clientData t ! j = clientData s ! j)"
proof -
  let ?d = "clientData s ! i"
  have l: "length (clientData s) = TCP_CLIENT_MAX_SOCKETS" "length cs = TCP_CLIENT_MAX_SOCKETS" using g goodD by simp_all
  have ok: "session_ok (i \<notin> X) ?d (cs ! i)" using g i goodD by blast
  note p = good_pointer [OF g i]
  have idle: "session_ok b (set_state TCP_CLIENT_STATE_IDLE d) []"
    if "datNode (stx d) = None" "hSocket d = INVALID_SOCKET" for b d
    using that by (simp add: session_ok_def connected_def)
  show ?thesis
  proof (cases "hSocket ?d = INVALID_SOCKET")
    case True
    with ok have n: "datNode (stx ?d) = None" by (auto simp: session_ok_def)
    let ?t = "upd i (set_state TCP_CLIENT_STATE_IDLE) s"
    have "reset_session i s = Inr ?t" using True i l by (simp add: reset_session_def)
    moreover have "good m0 X ?t cs" by (rule good_upd [OF g i]) (use p n True idle in auto)
    moreover have "cs[i := []] = cs" using p n i l by (simp add: list_update_same_conv)
    moreover have "request_rel s ?t" by (rule request_rel_one [where i = i and d = "set_state TCP_CLIENT_STATE_IDLE ?d"]) (use i l in \<open>auto simp: calm_def\<close>)
    ultimately show ?thesis using n i l by (auto simp: calm_def)
  next
    case False
    show ?thesis
    proof (cases "datNode (stx ?d) = None")
      case True
      let ?f = "\<lambda>d. set_state TCP_CLIENT_STATE_IDLE (d\<lparr>hSocket := INVALID_SOCKET\<rparr>)"
      let ?t = "upd i ?f (called i (Socket_Close (hSocket ?d)) s)"
      have "reset_session i s = Inr ?t" using False True i l by (simp add: reset_session_def upd_def called_def)
      moreover have "good m0 X ?t cs" by (rule good_upd) (use g i p True idle in auto)
      moreover have "cs[i := []] = cs" using p True i l by (simp add: list_update_same_conv)
      moreover have "request_rel s ?t" by (rule request_rel_one [where i = i and d = "?f ?d"]) (use i l in \<open>auto simp: calm_def\<close>)
      ultimately show ?thesis using True i l by (auto simp: calm_def)
    next
      case some: False
      from clear_good [OF g i] obtain m where m: "list_delete (datNode (stx ?d)) (mem s) = Inr m"
        "\<And>d. datNode (stx d) = None \<Longrightarrow> session_ok (i \<notin> X) d [] \<Longrightarrow>
           good m0 X (s\<lparr>mem := m, clientData := (clientData s)[i := d]\<rparr>) (cs[i := []])" by blast
      let ?d' = "set_state TCP_CLIENT_STATE_IDLE ((set_stx STREAM_STATE_IDLE (set_datNode None ?d))\<lparr>hSocket := INVALID_SOCKET\<rparr>)"
      let ?t = "called i (Socket_Close (hSocket ?d)) (s\<lparr>mem := m, clientData := (clientData s)[i := ?d']\<rparr>)"
      have "reset_session i s = Inr ?t" using False some m(1) i l by (simp add: reset_session_def upd_def called_def)
      moreover have "good m0 X ?t (cs[i := []])" using m(2) [of ?d'] idle by simp
      moreover have "request_rel s ?t" by (rule request_rel_one [where i = i and d = ?d']) (use i l in \<open>auto simp: calm_def\<close>)
      ultimately show ?thesis using i l by (auto simp: calm_def)
    qed
  qed
qed

interpretation reset_loop: guarded_task reset_session "valid m0 X" "\<lambda>i s. i < TCP_CLIENT_MAX_SOCKETS" request_rel for m0 X
proof
  show "\<exists>t. reset_session i s = Inr t \<and> valid m0 X t \<and> request_rel s t" if "valid m0 X s" "i < TCP_CLIENT_MAX_SOCKETS" for s i
    using that reset_session_good unfolding valid_def by blast
qed (auto intro: request_rel_trans)

lemma ok_run_indices: "list_all P is \<Longrightarrow> ok_run (\<lambda>i s. P i) step is s"
  by (induction "is" arbitrary: s) (auto split: sum.split)

lemma reset_valid: "valid m0 X s \<Longrightarrow> \<exists>t. tcp_client_reset s = Inr t \<and> valid m0 X t \<and> request_rel s t"
  unfolding tcp_client_reset_def by (rule reset_loop.run_ok) (auto intro!: ok_run_indices simp: list_all_iff)

text \<open>The rules of the interface.\<close>

definition some_idle :: "tcp_client \<Rightarrow> bool" where
  "some_idle s \<longleftrightarrow> list_ex (\<lambda>d. state d = TCP_CLIENT_STATE_IDLE) (clientData s)"

definition allowed :: "request \<Rightarrow> tcp_client \<Rightarrow> bool" where
  "allowed r s =
     (case r of
        Send sid dat len \<Rightarrow> 0 \<le> sid \<and> (case dat of None \<Rightarrow> True | Some buf \<Rightarrow> unat len \<le> length buf)
      | Close sid \<Rightarrow> 0 \<le> sid
      | Open_Host host _ _ _ _ \<Rightarrow> length host < TCP_NET_MAX_HOSTNAME_STRING_SIZE \<and> some_idle s
      | Open_Ip _ _ _ _ _ \<Rightarrow> some_idle s
      | Get_Rx sid _ \<Rightarrow> 0 \<le> sid \<and> sid < int TCP_CLIENT_MAX_SOCKETS
      | Reset \<Rightarrow> True)"

lemma three: "length xs = TCP_CLIENT_MAX_SOCKETS \<Longrightarrow> \<exists>a b c. xs = [a, b, c]"
  by (auto simp: TCP_CLIENT_MAX_SOCKETS_def numeral_3_eq_3 length_Suc_conv)

lemma find_idle_eq:
  assumes "length (clientData s) = TCP_CLIENT_MAX_SOCKETS"
  shows "find_idle 0 s =
    (if state (clientData s ! 0) = TCP_CLIENT_STATE_IDLE then Inr 0
     else if state (clientData s ! 1) = TCP_CLIENT_STATE_IDLE then Inr 1
     else if state (clientData s ! 2) = TCP_CLIENT_STATE_IDLE then Inr 2
     else Inl Out_Of_Bounds)"
proof -
  obtain a b c where "clientData s = [a, b, c]" using three [OF assms] by blast
  then show ?thesis
    by (simp add: find_idle.simps [of 0] find_idle.simps [of "Suc 0"] find_idle.simps [of "Suc (Suc 0)"]
        find_idle.simps [of "Suc (Suc (Suc 0))"] session_def rd_def TCP_CLIENT_MAX_SOCKETS_def)
qed

lemma find_idle_some:
  assumes "length (clientData s) = TCP_CLIENT_MAX_SOCKETS" "some_idle s"
  shows "\<exists>i<TCP_CLIENT_MAX_SOCKETS. find_idle 0 s = Inr i \<and> state (clientData s ! i) = TCP_CLIENT_STATE_IDLE"
proof -
  obtain a b c where "clientData s = [a, b, c]" using three [OF assms(1)] by blast
  with assms show ?thesis
    by (auto simp: find_idle_eq some_idle_def TCP_CLIENT_MAX_SOCKETS_def)
qed

lemma find_idle_none:
  assumes "length (clientData s) = TCP_CLIENT_MAX_SOCKETS"
  shows "find_idle 0 s = Inl Out_Of_Bounds \<longleftrightarrow> \<not> some_idle s"
proof -
  obtain a b c where "clientData s = [a, b, c]" using three [OF assms(1)] by blast
  with assms show ?thesis by (auto simp: find_idle_eq some_idle_def)
qed

lemma open_valid:
  assumes v: "valid m0 X s" and i: "i < TCP_CLIENT_MAX_SOCKETS" and idle: "state (clientData s ! i) = TCP_CLIENT_STATE_IDLE"
    and f: "datNode (stx (f (clientData s ! i))) = datNode (stx (clientData s ! i))"
      "hSocket (f (clientData s ! i)) = hSocket (clientData s ! i)" "state (f (clientData s ! i)) \<in> unconnected"
  shows "valid m0 X (upd i f s) \<and> request_rel s (upd i f s)"
proof -
  let ?d = "clientData s ! i"
  obtain cs where g: "good m0 X s cs" using v by (auto simp: valid_def)
  have ok: "session_ok (i \<notin> X) ?d (cs ! i)" using g i goodD by blast
  with idle have d: "datNode (stx ?d) = None" "hSocket ?d = 0 \<or> hSocket ?d = INVALID_SOCKET"
    "list_all (\<lambda>(_, _, bs). bs \<noteq> []) (cs ! i)"
    by (auto simp: session_ok_def unconnected_def)
  have "session_ok (i \<notin> X) (f ?d) (cs ! i)" using d f by (auto simp: session_ok_def unconnected_def connected_def)
  then have "good m0 X (upd i f s) cs" using g i f(1) by (intro good_upd) auto
  moreover have "request_rel s (upd i f s)"
    by (rule request_rel_one [where i = i and d = "f ?d"])
      (use i f d goodD(1) [OF g] in \<open>auto simp: calm_def unconnected_def\<close>)
  ultimately show ?thesis by (auto simp: valid_def)
qed

lemma request_valid:
  assumes v: "valid m0 X s" and mal: "malloc_ok malloc" and al: "allowed r s"
  shows "\<exists>t. request malloc net r s = Inr t \<and> valid m0 X t \<and> request_rel s t"
proof -
  note l = valid_length [OF v]
  obtain cs where g: "good m0 X s cs" using v by (auto simp: valid_def)
  show ?thesis
  proof (cases r)
    case (Send sid dat len)
    then have sid: "0 \<le> sid" using al by (simp add: allowed_def)
    have triv: ?thesis if "\<exists>c. tcp_client_send malloc sid dat len s = Inr (c, s)"
      using that v Send by (auto simp: request_def)
    show ?thesis
    proof (cases "sid < int TCP_CLIENT_MAX_SOCKETS")
      case False
      then show ?thesis by (intro triv) (simp add: tcp_client_send_def)
    next
      case True
      with sid obtain i where i: "sid = int i" "i < TCP_CLIENT_MAX_SOCKETS" by (metis zero_le_imp_eq_int of_nat_less_iff)
      show ?thesis
      proof (cases "state (clientData s ! i) = TCP_CLIENT_STATE_CONNECTION_STABLISHED \<and> (\<exists>buf. dat = Some buf) \<and> 0 < len")
        case False
        then show ?thesis
          by (intro triv) (use i l in \<open>auto simp: tcp_client_send_def split: option.split\<close>)
      next
        case est: True
        then obtain buf where buf: "dat = Some buf" by blast
        have len: "unat len \<le> length buf" using al by (simp add: allowed_def Send buf)
        show ?thesis
        proof (cases rule: send_good [OF g mal i(2) conjunct1 [OF est] conjunct2 [OF conjunct2 [OF est]] len])
          case (1 t)
          then show ?thesis by (auto simp: request_def Send buf i(1) valid_def intro: request_rel_same)
        next
          case (2 t p n d)
          have "request_rel s t"
            by (rule request_rel_one [where i = i and d = "set_datNode (Some p) (clientData s ! i)"])
              (use 2(4) est i(2) l in \<open>auto simp: calm_def\<close>)
          with 2 show ?thesis by (auto simp: request_def Send buf i(1) valid_def)
        qed
      qed
    qed
  next
    case (Close sid)
    then have sid: "0 \<le> sid" using al by (simp add: allowed_def)
    have triv: ?thesis if "\<exists>c. tcp_client_close sid s = Inr (c, s)" using that v Close by (auto simp: request_def)
    show ?thesis
    proof (cases "sid < int TCP_CLIENT_MAX_SOCKETS")
      case False
      then show ?thesis by (intro triv) (simp add: tcp_client_close_def)
    next
      case True
      with sid obtain i where i: "sid = int i" "i < TCP_CLIENT_MAX_SOCKETS" by (metis zero_le_imp_eq_int of_nat_less_iff)
      let ?d = "clientData s ! i"
      show ?thesis
      proof (cases "hSocket ?d = INVALID_SOCKET")
        case True
        then show ?thesis by (intro triv) (use i l in \<open>simp add: tcp_client_close_def\<close>)
      next
        case False
        let ?t = "upd i (set_state TCP_CLIENT_STATE_CONNECTION_CLOSE) s"
        have "session_ok (i \<notin> X) ?d (cs ! i)" using g i(2) goodD by blast
        then have "session_ok (i \<notin> X) (set_state TCP_CLIENT_STATE_CONNECTION_CLOSE ?d) (cs ! i)"
          using False by (auto simp: session_ok_def unconnected_def connected_def)
        then have "good m0 X ?t cs" using g i(2) by (intro good_upd) auto
        moreover have "request_rel s ?t"
          by (rule request_rel_one [where i = i and d = "set_state TCP_CLIENT_STATE_CONNECTION_CLOSE ?d"])
            (use i(2) l in \<open>auto simp: calm_def\<close>)
        ultimately show ?thesis using False i l by (auto simp: request_def Close tcp_client_close_def valid_def)
      qed
    qed
  next
    case (Open_Host host prt tlsb f c)
    then obtain i where i: "i < TCP_CLIENT_MAX_SOCKETS" "find_idle 0 s = Inr i" "state (clientData s ! i) = TCP_CLIENT_STATE_IDLE"
      and h: "length host < TCP_NET_MAX_HOSTNAME_STRING_SIZE"
      using al find_idle_some [OF l] by (auto simp: allowed_def)
    let ?f = "\<lambda>d. set_state TCP_CLIENT_STATE_DNS_RESOLVE_HOST_ADDRESS (d\<lparr>hostName_s := host, port := prt, tls := tlsb, cb := f, cb_ctx := c\<rparr>)"
    have "request malloc net r s = Inr (upd i ?f s)"
      using i(1,2) h l by (simp add: Open_Host request_def tcp_client_open_host_def upd_def)
    with open_valid [OF v i(1,3), of ?f] show ?thesis by (simp add: unconnected_def)
  next
    case (Open_Ip ip prt tlsb f c)
    then obtain i where i: "i < TCP_CLIENT_MAX_SOCKETS" "find_idle 0 s = Inr i" "state (clientData s ! i) = TCP_CLIENT_STATE_IDLE"
      using al find_idle_some [OF l] by (auto simp: allowed_def)
    let ?f = "\<lambda>d. set_state TCP_CLIENT_STATE_CONNECTION_INIT (d\<lparr>address := ip, port := prt, tls := tlsb, cb := f, cb_ctx := c\<rparr>)"
    have "request malloc net r s = Inr (upd i ?f s)"
      using i(1,2) l by (simp add: Open_Ip request_def tcp_client_open_ip_def upd_def)
    with open_valid [OF v i(1,3), of ?f] show ?thesis by (simp add: unconnected_def)
  next
    case (Get_Rx sid n)
    then have "0 \<le> sid" "sid < int TCP_CLIENT_MAX_SOCKETS" using al by (simp_all add: allowed_def)
    then obtain i where i: "sid = int i" "i < TCP_CLIENT_MAX_SOCKETS" by (metis zero_le_imp_eq_int of_nat_less_iff)
    then show ?thesis using v l by (auto simp: request_def Get_Rx tcp_client_get_rx_def intro: request_rel_same)
  next
    case Reset
    then show ?thesis using reset_valid [OF v] by (simp add: request_def)
  qed
qed

interpretation requests: guarded_task "request malloc net" "\<lambda>s. malloc_ok malloc \<and> valid m0 X s" allowed request_rel
  for malloc net m0 X
proof
  show "\<exists>t. request malloc net r s = Inr t \<and> (malloc_ok malloc \<and> valid m0 X t) \<and> request_rel s t"
    if "malloc_ok malloc \<and> valid m0 X s" "allowed r s" for s r
    using that request_valid [of m0 X s malloc r net] by blast
qed (auto intro: request_rel_trans)

section \<open>The task keeps the invariant\<close>

definition well_behaved :: "list_block malloc \<Rightarrow> network \<Rightarrow> bool" where
  "well_behaved malloc net \<longleftrightarrow>
     (\<forall>s i f c x. ok_run allowed (request malloc net) (app (net (calls s)) f c x s) (called i (Event f c x) s))"

lemma call_back_valid:
  assumes "malloc_ok malloc" "well_behaved malloc net" "valid m0 X s" "i < TCP_CLIENT_MAX_SOCKETS"
  shows "\<exists>t. call_back malloc net i e s = Inr t \<and> valid m0 X t \<and> request_rel s t"
proof (cases "cb (clientData s ! i)")
  case None
  then show ?thesis using assms valid_length [OF assms(3)] by (simp add: call_back_def)
next
  case (Some f)
  let ?d = "clientData s ! i"
  let ?c = "\<lparr>ev_sid = int i, ev_event = e, ev_dataLength = read_is_ready (net (calls s)) (hSocket ?d)\<rparr>"
  let ?s = "called i (Event f ?c (cb_ctx ?d)) s"
  have "ok_run allowed (request malloc net) (app (net (calls s)) f ?c (cb_ctx ?d) s) ?s"
    using assms(2) by (simp add: well_behaved_def)
  with requests.run_ok [of malloc m0 X ?s net "app (net (calls s)) f ?c (cb_ctx ?d) s"] assms(1,3) obtain t where
    t: "run (request malloc net) (app (net (calls s)) f ?c (cb_ctx ?d) s) ?s = Inr t" "valid m0 X t" "request_rel ?s t"
    by auto
  moreover have "request_rel s t" using t(3) by (simp add: request_rel_def)
  ultimately show ?thesis using Some assms(4) valid_length [OF assms(3)] by (simp add: call_back_def Let_def)
qed

lemma upd_upd [simp]: "i < length (clientData s) \<Longrightarrow> upd i f (upd i g s) = upd i (\<lambda>d. f (g d)) s"
  by (simp add: upd_def)

lemma called_upd [simp]: "called j c (upd i f s) = upd i f (called j c s)"
  by (simp add: upd_def called_def)

lemma good_upd_any:
  assumes "good m0 X s cs" "i < TCP_CLIENT_MAX_SOCKETS" "X \<subseteq> insert i Y"
    and "datNode (stx (f (clientData s ! i))) = datNode (stx (clientData s ! i))"
    and "\<And>q. session_ok (i \<notin> X) (clientData s ! i) q \<Longrightarrow> session_ok (i \<notin> Y) (f (clientData s ! i)) q"
  shows "good m0 Y (upd i f s) cs"
proof -
  have "session_ok (i \<notin> X) (clientData s ! i) (cs ! i)" using assms(1,2) goodD by blast
  then have "session_ok (i \<notin> Y) (f (clientData s ! i)) (cs ! i)" by (rule assms(5))
  then show ?thesis using assms(1-4) by (intro good_upd)
qed

lemma unconnectedD: "st \<in> unconnected \<Longrightarrow>
    st \<notin> connected \<and> st \<noteq> TCP_CLIENT_STATE_CONNECTION_STABLISHED \<and> st \<noteq> TCP_CLIENT_STATE_CONNECTION_CLOSE \<and>
    st \<noteq> TCP_CLIENT_STATE_CONNECTION_SSL_NEGOTIATION_WAIT"
  by (auto simp: unconnected_def connected_def)

lemmas session_ok_defs = session_ok_def unconnected_def connected_def

text \<open>
  What a step of session \<open>i\<close> does is its own changes and those of the application's callback. The
  contract \<open>Q\<close> of the steps is whatever the callback keeps, is transitive and holds for changes of
  the session itself, its list and its calls.
\<close>

definition keeps ::
  "(nat \<Rightarrow> tcp_client \<times> cell list list \<Rightarrow> tcp_client \<times> cell list list \<Rightarrow> bool) \<Rightarrow> list_block dmem \<Rightarrow> nat set \<Rightarrow> nat \<Rightarrow>
   tcp_client \<Rightarrow> cell list list \<Rightarrow> tcp_client outcome \<Rightarrow> bool" where
  "keeps Q m0 Y i s cs r \<longleftrightarrow> (\<exists>t cs'. r = Inr t \<and> good m0 Y t cs' \<and> Q i (s, cs) (t, cs'))"

locale callback_contract =
  fixes malloc :: "list_block malloc"
    and okn :: "network \<Rightarrow> bool"
    and Q :: "nat \<Rightarrow> tcp_client \<times> cell list list \<Rightarrow> tcp_client \<times> cell list list \<Rightarrow> bool"
  assumes callback: "okn net \<Longrightarrow> good m0 X s cs \<Longrightarrow> i < TCP_CLIENT_MAX_SOCKETS \<Longrightarrow>
      \<exists>t cs'. call_back malloc net i e s = Inr t \<and> good m0 X t cs' \<and> request_rel s t \<and> Q i (s, cs) (t, cs')"
    and Q_trans: "Q i x y \<Longrightarrow> Q i y z \<Longrightarrow> Q i x z"
    and Q_own: "clientData t = (clientData s)[i := d] \<Longrightarrow> calls t = calls s @ map (Pair i) l \<Longrightarrow> Q i (s, cs) (t, cs[i := c])"
begin

lemma Q_same: "clientData t = (clientData s)[i := d] \<Longrightarrow> calls t = calls s @ map (Pair i) l \<Longrightarrow> Q i (s, cs) (t, cs)"
  using Q_own [of t s i d l cs "cs ! i"] by simp

lemma Q_refl: "Q i (s, cs) (s, cs)"
  using Q_same [of s s i "clientData s ! i" "[]" cs] by simp

lemma keeps_seq:
  "keeps Q m0 X i s cs r \<Longrightarrow> (\<And>t cs'. good m0 X t cs' \<Longrightarrow> keeps Q m0 Y i t cs' (f t)) \<Longrightarrow> keeps Q m0 Y i s cs (seq r f)"
  unfolding keeps_def using Q_trans by fastforce

lemma keeps_own:
  "keeps Q m0 Y i t cs r \<Longrightarrow> clientData t = (clientData s)[i := d] \<Longrightarrow> calls t = calls s @ map (Pair i) l \<Longrightarrow> keeps Q m0 Y i s cs r"
  unfolding keeps_def using Q_trans Q_same by blast

lemma keeps_called: "keeps Q m0 Y i (called i c s) cs r \<Longrightarrow> keeps Q m0 Y i s cs r"
  by (erule keeps_own [where l = "[c]" and d = "clientData s ! i"]) simp_all

lemma keeps_upd:
  assumes "good m0 X s cs" "i < TCP_CLIENT_MAX_SOCKETS" "X \<subseteq> insert i Y"
    and "datNode (stx (f (clientData s ! i))) = datNode (stx (clientData s ! i))"
    and "\<And>q. session_ok (i \<notin> X) (clientData s ! i) q \<Longrightarrow> session_ok (i \<notin> Y) (f (clientData s ! i)) q"
  shows "keeps Q m0 Y i s cs (Inr (upd i f s))"
proof -
  have "good m0 Y (upd i f s) cs" by (rule good_upd_any [where X = X]) (use assms in blast)+
  then show ?thesis using Q_same [of "upd i f s" s i "f (clientData s ! i)" "[]" cs] by (auto simp: keeps_def)
qed

lemma keeps_id: "good m0 X s cs \<Longrightarrow> keeps Q m0 X i s cs (Inr s)"
  using Q_refl by (auto simp: keeps_def)

lemma keeps_callback:
  "okn net \<Longrightarrow> good m0 X s cs \<Longrightarrow> i < TCP_CLIENT_MAX_SOCKETS \<Longrightarrow> keeps Q m0 X i s cs (call_back malloc net i e s)"
  using callback unfolding keeps_def by meson

text \<open>A session that holds no socket reports and waits; one that holds a socket reports and closes.\<close>

lemma report_retry:
  assumes "okn net" "good m0 {} s cs" "i < TCP_CLIENT_MAX_SOCKETS"
    and "calm (clientData s ! i)" "hSocket (clientData s ! i) = 0 \<or> hSocket (clientData s ! i) = INVALID_SOCKET"
  shows "keeps Q m0 {} i s cs (case_report_retry malloc net e i s)"
proof -
  from callback [OF assms(1-3)] obtain t cs' where
    t: "call_back malloc net i e s = Inr t" "good m0 {} t cs'" "request_rel s t" "Q i (s, cs) (t, cs')" by blast
  have c: "calm (clientData t ! i)" "hSocket (clientData t ! i) = 0 \<or> hSocket (clientData t ! i) = INVALID_SOCKET"
    using t(3) assms(3-5) by (auto simp: request_rel_def)
  have "keeps Q m0 {} i t cs' (Inr (wait_for_retry net i t))"
    using assms(3) c goodD(1) [OF t(2)]
    by (auto simp: wait_for_retry_def calm_def session_ok_defs intro!: keeps_upd [OF t(2)])
  with t(1,4) Q_trans show ?thesis unfolding keeps_def case_report_retry_def by auto
qed

lemma report_close:
  assumes "okn net" "good m0 {} s cs" "i < TCP_CLIENT_MAX_SOCKETS"
  shows "keeps Q m0 {} i s cs (case_report_close malloc net e i s)"
  unfolding case_report_close_def
proof (rule keeps_seq [OF keeps_callback [OF assms]])
  show "keeps Q m0 {} i t cs' (Inr (upd i (set_state TCP_CLIENT_STATE_CONNECTION_CLOSE) t))" if "good m0 {} t cs'" for t cs'
    using assms(3) by (intro keeps_upd [OF that]) (auto simp: session_ok_defs)
qed

lemma established:
  assumes "okn net" "good m0 {} s cs" "i < TCP_CLIENT_MAX_SOCKETS"
    and "state (clientData s ! i) \<in> connected" "stx_state (stx (clientData s ! i)) = STREAM_STATE_IDLE"
  shows "keeps Q m0 {} i s cs (established malloc net i s)"
proof -
  let ?s = "upd i (set_state TCP_CLIENT_STATE_CONNECTION_STABLISHED) s"
  have "good m0 {} ?s cs" using assms(4,5)
    by (intro good_upd_any [OF assms(2,3)]) (auto simp: session_ok_defs)
  from keeps_callback [OF assms(1) this assms(3)] show ?thesis
    unfolding established_def by (rule keeps_own [where l = "[]"]) simp_all
qed

lemma drop_report:
  assumes "okn net" "good m0 {} s cs" "i < TCP_CLIENT_MAX_SOCKETS"
  shows "keeps Q m0 {} i s cs
    (seq (drop_node i s) (\<lambda>s. seq (call_back malloc net i e s) (\<lambda>s. Inr (upd i (set_stx STREAM_STATE_IDLE) s))))"
proof (rule keeps_seq [where X = "{i}"])
  have idle: "keeps Q m0 {} i u cs (Inr (upd i (set_stx STREAM_STATE_IDLE) u))" if "good m0 {i} u cs" for u cs
    using assms(3) by (intro keeps_upd [OF that]) (auto simp: session_ok_defs)
  from drop_node_good [OF assms(2,3)] obtain t p where
    t: "drop_node i s = Inr t" "good m0 {i} t (cs[i := tl (cs ! i)])" "calls t = calls s"
      "clientData t = (clientData s)[i := set_datNode p (clientData s ! i)]" by blast
  then show "keeps Q m0 {i} i s cs (drop_node i s)"
    using Q_own [of t s i _ "[]" cs "tl (cs ! i)"] by (auto simp: keeps_def)
  show "keeps Q m0 {} i t cs' (seq (call_back malloc net i e t) (\<lambda>s. Inr (upd i (set_stx STREAM_STATE_IDLE) s)))"
    if "good m0 {i} t cs'" for t cs'
    by (rule keeps_seq [OF keeps_callback [OF assms(1) that assms(3)] idle])
qed

end

text \<open>What the sending state does with the message at the front when the socket has room for \<open>cap\<close> bytes.\<close>

definition send_part :: "list_block malloc \<Rightarrow> network \<Rightarrow> nat \<Rightarrow> u8 list \<Rightarrow> u16 \<Rightarrow> tcp_client \<Rightarrow> tcp_client outcome" where
  "send_part malloc net i bs cap s =
     (let x = clientData s ! i; off = unat (curDataOffset (stx x)); h = hSocket x
      in if cap = 0 then Inr s
         else if unat cap < length bs - off
         then Inr (upd i (set_offset (curDataOffset (stx x) + cap)) (called i (Socket_Write h (take (unat cap) (drop off bs))) s))
         else seq (drop_node i (called i (Socket_Write h (drop off bs)) s)) (\<lambda>s.
              seq (call_back malloc net i CLIENT_EVENT_TX s) (\<lambda>s.
              Inr (upd i (set_stx STREAM_STATE_IDLE) s))))"

definition room :: "network \<Rightarrow> nat \<Rightarrow> u8 list \<Rightarrow> tcp_client \<Rightarrow> u16" where
  "room net i bs s = write_is_ready (net (calls s)) (hSocket (clientData s ! i))
     (word_of_nat (length bs - unat (curDataOffset (stx (clientData s ! i))))) 1"

lemma sending_step:
  assumes g: "good m0 X s cs" and i: "i < TCP_CLIENT_MAX_SOCKETS" "i \<notin> X"
    and st: "state (clientData s ! i) = TCP_CLIENT_STATE_CONNECTION_STABLISHED"
      "stx_state (stx (clientData s ! i)) = STREAM_STATE_SENDING"
  obtains a d bs q where "cs ! i = (a, d, bs) # q" "unat (curDataOffset (stx (clientData s ! i))) < length bs"
    "length bs < 2 ^ 16"
    "stx_sending malloc net i s = send_part malloc net i bs (room net i bs s) s"
proof -
  let ?x = "clientData s ! i"
  let ?off = "unat (curDataOffset (stx ?x))"
  have l: "length (clientData s) = TCP_CLIENT_MAX_SOCKETS" using g goodD by simp
  have "session_ok True ?x (cs ! i)" using g i goodD(3) [OF g i(1)] by simp
  then have lt: "?off < first_len (cs ! i)" using st by (simp add: session_ok_def)
  then obtain a d bs q where q: "cs ! i = (a, d, bs) # q" by (cases "cs ! i") auto
  with lt have off: "?off < length bs" by (simp add: first_len_def)
  obtain PA PB A B where
    "stored m0 (mem s) (PA @ datNode (stx ?x) # PB) (A @ cs ! i # B)" "length PA = length A"
    by (rule good_split [OF g i(1)]) (rule that)
  from stored_head(2) [OF this q] obtain nxt len where
    h: "datNode (stx ?x) = Some a" "node_at (mem s) a = Inr \<lparr>nodeSig = nxt, dataLength = len, data = Some d\<rparr>"
      "unat len = length bs" "blocks (mem s) d = Some (Bytes bs)" by auto
  have "unat len < 2 ^ 16" using unsigned_less [of len] by simp
  then have b: "length bs < 2 ^ 16" using h(3) by simp
  have r: "remaining \<lparr>nodeSig = nxt, dataLength = len, data = Some d\<rparr> (stx ?x) = int (length bs - ?off)"
    using off h(3) by (simp only: remaining_def t_LIST_NODE.simps uint_nat of_nat_diff less_imp_le)
  have u: "unat (word_of_nat (length bs - ?off) :: u16) = length bs - ?off"
    using b by (intro of_nat_inverse [OF refl]) simp
  let ?h = "hSocket ?x"
  let ?cap = "write_is_ready (net (calls s)) ?h (word_of_nat (length bs - ?off)) 1"
  have rd1: "read_bytes (mem s) (Some d) ?off k = Inr (take k (drop ?off bs))" if "k < length bs - ?off" for k
    using that h(4) by (simp add: read_bytes_def)
  have rd2: "read_bytes (mem s) (Some d) ?off (length bs - ?off) = Inr (drop ?off bs)"
    using off h(4) by (simp add: read_bytes_def)
  have c: "(0 < ?cap) = (?cap \<noteq> 0)" "(uint ?cap < int (length bs - ?off)) = (unat ?cap < length bs - ?off)"
    by (simp add: word_gt_0) (simp only: uint_nat of_nat_less_iff)
  have "stx_sending malloc net i s = send_part malloc net i bs ?cap s"
    unfolding stx_sending_def send_part_def session_in [OF l i(1)] seq_Inr Let_def h(1) option.case h(2) r of_int_of_nat_eq c u
    by (cases "?cap = 0"; cases "unat ?cap < length bs - ?off";
        simp only: t_LIST_NODE.simps rd1 rd2 seq_Inr if_True if_False simp_thms)
  then show ?thesis unfolding room_def [symmetric] by (rule that [OF q off b])
qed

context callback_contract
begin

lemma sending:
  assumes "okn net" "good m0 {} s cs" "i < TCP_CLIENT_MAX_SOCKETS"
    and "state (clientData s ! i) = TCP_CLIENT_STATE_CONNECTION_STABLISHED"
      "stx_state (stx (clientData s ! i)) = STREAM_STATE_SENDING"
  shows "keeps Q m0 {} i s cs (stx_sending malloc net i s)"
proof -
  let ?x = "clientData s ! i"
  let ?off = "unat (curDataOffset (stx ?x))"
  obtain a d bs q where q: "cs ! i = (a, d, bs) # q" "?off < length bs" "length bs < 2 ^ 16"
    "stx_sending malloc net i s = send_part malloc net i bs (room net i bs s) s"
    by (rule sending_step [OF assms(2,3) _ assms(4,5)]) (simp, rule that)
  define cap where "cap = room net i bs s"
  consider "cap = 0" | "cap \<noteq> 0" "unat cap < length bs - ?off" | "cap \<noteq> 0" "\<not> unat cap < length bs - ?off" by blast
  then show ?thesis
  proof cases
    case 1
    then show ?thesis using keeps_id [OF assms(2)] q(4) by (simp add: send_part_def Let_def cap_def)
  next
    case 2
    let ?s = "called i (Socket_Write (hSocket ?x) (take (unat cap) (drop ?off bs))) s"
    have g: "good m0 {} ?s cs" using assms(2) by simp
    have add: "unat (curDataOffset (stx ?x) + cap) = ?off + unat cap"
      using 2(2) q(2,3) by (simp add: unat_plus_if')
    have "good m0 {} (upd i (set_offset (curDataOffset (stx ?x) + cap)) ?s) cs"
    proof (rule good_upd [OF g assms(3)])
      have "session_ok True ?x (cs ! i)" using goodD(3) [OF assms(2,3)] by simp
      then show "session_ok (i \<notin> {}) (set_offset (curDataOffset (stx ?x) + cap) (clientData ?s ! i)) (cs ! i)"
        using add 2(2) q(1) by (auto simp: session_ok_def first_len_def)
    qed simp_all
    then have "keeps Q m0 {} i s cs (Inr (upd i (set_offset (curDataOffset (stx ?x) + cap)) ?s))"
      using Q_same [of "upd i (set_offset (curDataOffset (stx ?x) + cap)) ?s" s i _ "[Socket_Write (hSocket ?x) (take (unat cap) (drop ?off bs))]" cs]
      by (auto simp: keeps_def)
    then show ?thesis using 2 q(4) by (simp add: send_part_def Let_def cap_def)
  next
    case 3
    let ?s = "called i (Socket_Write (hSocket ?x) (drop ?off bs)) s"
    have "good m0 {} ?s cs" using assms(2) by simp
    from keeps_called [OF drop_report [OF assms(1) this assms(3)]] show ?thesis
      using 3 q(4) by (simp add: send_part_def Let_def cap_def)
  qed
qed

lemma transmit:
  assumes "okn net" "good m0 {} s cs" "i < TCP_CLIENT_MAX_SOCKETS"
    and "state (clientData s ! i) = TCP_CLIENT_STATE_CONNECTION_STABLISHED"
  shows "keeps Q m0 {} i s cs (tx_task malloc net i s)"
proof (cases "stx_state (stx (clientData s ! i))")
  case STREAM_STATE_IDLE
  have l: "length (clientData s) = TCP_CLIENT_MAX_SOCKETS" using assms(2) goodD by simp
  show ?thesis
  proof (cases "datNode (stx (clientData s ! i)) = None")
    case True
    then show ?thesis using keeps_id [OF assms(2)] STREAM_STATE_IDLE assms(3) l by (simp add: tx_task_def)
  next
    case False
    let ?f = "\<lambda>d. set_stx STREAM_STATE_SENDING (set_offset 0 d)"
    have "cs ! i \<noteq> []" using False good_pointer [OF assms(2,3)] by simp
    have "keeps Q m0 {} i s cs (Inr (upd i ?f s))"
    proof -
      have "good m0 {} (upd i ?f s) cs"
      proof (rule good_upd [OF assms(2,3)])
        have "session_ok True (clientData s ! i) (cs ! i)" using goodD(3) [OF assms(2,3)] by simp
        then show "session_ok (i \<notin> {}) (?f (clientData s ! i)) (cs ! i)"
          using \<open>cs ! i \<noteq> []\<close> False assms(4) by (cases "cs ! i") (auto simp: session_ok_def first_len_def)
      qed simp_all
      then show ?thesis using Q_same [of "upd i ?f s" s i _ "[]" cs] by (auto simp: keeps_def)
    qed
    then show ?thesis using False STREAM_STATE_IDLE assms(3) l by (simp add: tx_task_def)
  qed
next
  case STREAM_STATE_SENDING
  then show ?thesis using sending [OF assms] assms(3) goodD(1) [OF assms(2)] by (simp add: tx_task_def)
qed (use drop_report [OF assms(1-3)] assms(3) goodD(1) [OF assms(2)] in \<open>simp_all add: tx_task_def\<close>)

end

context callback_contract
begin

lemma keeps_upd_called:
  assumes "good m0 {} s cs" "i < TCP_CLIENT_MAX_SOCKETS"
    and "clientData t = clientData s" "mem t = mem s" "calls t = calls s @ map (Pair i) l"
    and "datNode (stx (f (clientData s ! i))) = datNode (stx (clientData s ! i))"
    and "\<And>q. session_ok True (clientData s ! i) q \<Longrightarrow> session_ok True (f (clientData s ! i)) q"
  shows "keeps Q m0 {} i s cs (Inr (upd i f t))"
proof (rule keeps_own)
  have "good m0 {} t cs" using assms(1,3,4) by (simp add: good_def)
  then show "keeps Q m0 {} i t cs (Inr (upd i f t))"
    by (rule keeps_upd [OF _ assms(2)]) (use assms in simp_all)
  show "clientData t = (clientData s)[i := clientData s ! i]" using assms(3) by simp
qed (rule assms(5))

lemma receive:
  assumes "okn net" "good m0 {} s cs" "i < TCP_CLIENT_MAX_SOCKETS"
  shows "keeps Q m0 {} i s cs (receive malloc net i s)"
  using keeps_callback [OF assms] keeps_id [OF assms(2)] assms(3) goodD(1) [OF assms(2)] by (simp add: receive_def)

lemma gone_cases:
  obtains (stays) t where "gone net i h s = (False, t)" "t = called i (Socket_WasDisconnected h) (called i (Socket_WasReset h) s)"
  | (goes) t where "gone net i h s = (True, t)" "clientData t = clientData s" "mem t = mem s"
      "\<exists>l. calls t = calls s @ map (Pair i) l"
proof (cases "gone net i h s")
  case (Pair g t)
  have 1: "clientData t = clientData s" "mem t = mem s"
    using Pair by (auto simp: gone_def Let_def split: if_splits)
  have 2: "calls t = calls s @ map (Pair i) (if was_reset (net (calls s)) h then [Socket_WasReset h]
      else [Socket_WasReset h, Socket_WasDisconnected h])"
    using Pair by (auto simp: gone_def Let_def split: if_splits)
  show ?thesis
  proof (cases g)
    case True
    show ?thesis by (rule goes) (use Pair True 1 2 in \<open>simp, simp, simp, blast\<close>)
  next
    case False
    show ?thesis by (rule stays) (use Pair False in \<open>auto simp: gone_def Let_def split: if_splits\<close>)
  qed
qed

lemma data_transfer:
  assumes "okn net" "good m0 {} s cs" "i < TCP_CLIENT_MAX_SOCKETS"
    and "state (clientData s ! i) = TCP_CLIENT_STATE_CONNECTION_STABLISHED"
  shows "keeps Q m0 {} i s cs (case_CONNECTION_STABLISHED malloc net i (clientData s ! i) s)"
proof (cases rule: gone_cases [of net i "hSocket (clientData s ! i)" s])
  case (stays t)
  have t: "good m0 {} t cs" "state (clientData t ! i) = TCP_CLIENT_STATE_CONNECTION_STABLISHED"
    using assms(2,4) stays(2) by simp_all
  have "keeps Q m0 {} i t cs (seq (tx_task malloc net i t) (receive malloc net i))"
    by (rule keeps_seq [OF transmit [OF assms(1) t(1) assms(3) t(2)] receive [OF assms(1) _ assms(3)]])
  then show ?thesis
    using stays by (auto simp: case_CONNECTION_STABLISHED_def dest!: keeps_called)
next
  case (goes t)
  let ?t = "called i (Socket_Disconnect (hSocket (clientData s ! i))) t"
  obtain l where l: "calls t = calls s @ map (Pair i) l" using goes(4) by blast
  have "good m0 {} ?t cs" using assms(2) goes(2,3) by (simp add: good_def)
  from report_close [OF assms(1) this assms(3), of CLIENT_EVENT_DISCONNECTED]
  have "keeps Q m0 {} i s cs (case_report_close malloc net CLIENT_EVENT_DISCONNECTED i ?t)"
    by (rule keeps_own [where l = "l @ [Socket_Disconnect (hSocket (clientData s ! i))]" and d = "clientData s ! i"])
      (use goes(2) l in simp_all)
  then show ?thesis using goes(1) by (simp add: case_CONNECTION_STABLISHED_def)
qed

lemma connection_init:
  assumes "okn net" "good m0 {} s cs" "i < TCP_CLIENT_MAX_SOCKETS"
    and "state (clientData s ! i) = TCP_CLIENT_STATE_CONNECTION_INIT"
  shows "keeps Q m0 {} i s cs (case_CONNECTION_INIT malloc net i (clientData s ! i) s)"
proof -
  let ?d = "clientData s ! i"
  let ?c = "Socket_Open (port ?d) (address ?d)"
  let ?h = "socket_open (net (calls s)) (port ?d) (address ?d)"
  let ?s = "upd i (\<lambda>d. d\<lparr>hSocket := ?h\<rparr>) (called i ?c s)"
  have l: "length (clientData s) = TCP_CLIENT_MAX_SOCKETS" using assms(2) goodD by simp
  obtain q where q: "session_ok True ?d q" using goodD(3) [OF assms(2,3)] by auto
  then have calm: "calm ?d" using assms(4) by (auto simp: session_ok_defs calm_def)
  show ?thesis
  proof (cases "?h = INVALID_SOCKET")
    case True
    have g: "good m0 {} ?s cs"
      using assms(3,4) True by (intro good_upd_any [where X = "{}"]) (auto simp: assms(2) session_ok_defs)
    have "keeps Q m0 {} i ?s cs (case_report_retry malloc net CLIENT_EVENT_ERROR i ?s)"
      by (rule report_retry [OF assms(1) g assms(3)]) (use calm True l assms(3) in \<open>simp_all add: calm_def\<close>)
    then have "keeps Q m0 {} i s cs (case_report_retry malloc net CLIENT_EVENT_ERROR i ?s)"
      by (rule keeps_own [where l = "[?c]"]) simp_all
    then show ?thesis using True by (simp add: case_CONNECTION_INIT_def Let_def)
  next
    case False
    have "keeps Q m0 {} i s cs
      (Inr (upd i (\<lambda>d. set_state TCP_CLIENT_STATE_CONNECTION_WAITING_FOR (d\<lparr>hSocket := ?h, timeout := x\<rparr>))
         (called i (Socket_WasReset ?h) (called i ?c s))))" for x
      by (rule keeps_upd_called [OF assms(2,3), where l = "[?c, Socket_WasReset ?h]"])
        (use assms(4) False in \<open>auto simp: session_ok_defs\<close>)
    then show ?thesis using False l assms(3) by (simp add: case_CONNECTION_INIT_def Let_def)
  qed
qed

end

context callback_contract
begin

lemma timed_out:
  assumes "good m0 {} s cs" "i < TCP_CLIENT_MAX_SOCKETS"
    and "state (clientData s ! i) \<in> connected" "datNode (stx (clientData s ! i)) = None"
  shows "keeps Q m0 {} i s cs (Inr (connection_timed_out net i (clientData s ! i) s))"
proof (cases "elapsed_ms (net (calls s)) (timeout (clientData s ! i)) > 20000")
  case True
  then show ?thesis
    using assms(3,4) by (auto simp: connection_timed_out_def session_ok_defs intro!: keeps_upd [OF assms(1,2)])
next
  case False
  then show ?thesis using keeps_id [OF assms(1)] by (simp add: connection_timed_out_def)
qed

lemma waiting_for:
  assumes "okn net" "good m0 {} s cs" "i < TCP_CLIENT_MAX_SOCKETS"
    and st: "state (clientData s ! i) = TCP_CLIENT_STATE_CONNECTION_WAITING_FOR"
  shows "keeps Q m0 {} i s cs (case_CONNECTION_WAITING_FOR malloc net i (clientData s ! i) s)"
proof -
  let ?d = "clientData s ! i"
  let ?s = "upd i (set_stx STREAM_STATE_IDLE) s"
  let ?e = "Socket_Encrypt (hSocket ?d)"
  have l: "i < length (clientData s)" using assms(2,3) goodD by simp
  obtain q where "session_ok True ?d q" using goodD(3) [OF assms(2,3)] by auto
  then have n: "datNode (stx ?d) = None" using st by (auto simp: session_ok_defs)
  consider "\<not> is_connected (net (calls s)) (hSocket ?d)" | "is_connected (net (calls s)) (hSocket ?d)" "\<not> tls ?d"
    | "is_connected (net (calls s)) (hSocket ?d)" "tls ?d" by blast
  then show ?thesis
  proof cases
    case 1
    then show ?thesis using timed_out [OF assms(2,3)] st n by (simp add: case_CONNECTION_WAITING_FOR_def connected_def)
  next
    case 2
    have "good m0 {} ?s cs" by (rule good_upd_any [OF assms(2,3)]) (use st in \<open>auto simp: session_ok_defs\<close>)
    from established [OF assms(1) this assms(3)] have "keeps Q m0 {} i ?s cs (established malloc net i ?s)"
      using st l by (simp add: connected_def)
    then have "keeps Q m0 {} i s cs (established malloc net i ?s)" by (rule keeps_own [where l = "[]"]) simp_all
    then show ?thesis using 2 by (simp add: case_CONNECTION_WAITING_FOR_def Let_def)
  next
    case 3
    have "keeps Q m0 {} i s cs
        (Inr (upd i (\<lambda>d. set_state st (set_stx STREAM_STATE_IDLE d\<lparr>timeout := x\<rparr>)) (called i ?e s)))"
      if "st = TCP_CLIENT_STATE_CONNECTION_SSL_NEGOTIATION_WAIT" for st x
      by (rule keeps_upd_called [OF assms(2,3), where l = "[?e]"]) (use st that in \<open>auto simp: session_ok_defs set_stx_def\<close>)
    moreover have "keeps Q m0 {} i s cs
        (Inr (upd i (\<lambda>d. set_state TCP_CLIENT_STATE_CONNECTION_ERROR (set_stx STREAM_STATE_IDLE d)) (called i ?e s)))"
      by (rule keeps_upd_called [OF assms(2,3), where l = "[?e]"]) (use st n in \<open>auto simp: session_ok_defs\<close>)
    ultimately show ?thesis using 3 l by (simp add: case_CONNECTION_WAITING_FOR_def Let_def set_stx_def)
  qed
qed

lemma negotiation_wait:
  assumes "okn net" "good m0 {} s cs" "i < TCP_CLIENT_MAX_SOCKETS"
    and st: "state (clientData s ! i) = TCP_CLIENT_STATE_CONNECTION_SSL_NEGOTIATION_WAIT"
  shows "keeps Q m0 {} i s cs (case_SSL_NEGOTIATION_WAIT malloc net i (clientData s ! i) s)"
proof -
  let ?d = "clientData s ! i"
  obtain q where "session_ok True ?d q" using goodD(3) [OF assms(2,3)] by auto
  then have n: "datNode (stx ?d) = None" "stx_state (stx ?d) = STREAM_STATE_IDLE" using st by (auto simp: session_ok_defs)
  have "keeps Q m0 {} i s cs (Inr (upd i (set_state TCP_CLIENT_STATE_CONNECTION_ERROR) s))"
    by (rule keeps_upd [OF assms(2,3)]) (use st n in \<open>auto simp: session_ok_defs\<close>)
  then show ?thesis
    using timed_out [OF assms(2,3)] established [OF assms(1-3)] st n by (simp add: case_SSL_NEGOTIATION_WAIT_def connected_def)
qed

lemma close_socket:
  assumes "good m0 {} s cs" "i < TCP_CLIENT_MAX_SOCKETS"
  shows "keeps Q m0 {} i s cs (case_CONNECTION_CLOSE net i (clientData s ! i) s)"
proof -
  let ?d = "clientData s ! i"
  have l: "i < length (clientData s)" using assms goodD by simp
  obtain m where m: "list_delete (datNode (stx ?d)) (mem s) = Inr m"
    "\<And>d. datNode (stx d) = None \<Longrightarrow> session_ok (i \<notin> {}) d [] \<Longrightarrow>
       good m0 {} (s\<lparr>mem := m, clientData := (clientData s)[i := d]\<rparr>) (cs[i := []])"
    by (rule clear_good [OF assms]) (rule that)
  let ?t = "wait_for_retry net i (upd i (set_datNode None)
      ((upd i (\<lambda>d. d\<lparr>hSocket := INVALID_SOCKET\<rparr>) (called i (Socket_Close (hSocket ?d)) s))\<lparr>mem := m\<rparr>))"
  let ?x = "core_timer (net (calls s @ [(i, Socket_Close (hSocket ?d))]))"
  have t: "?t = called i (Socket_Close (hSocket ?d)) (s\<lparr>mem := m, clientData := (clientData s)
      [i := set_state TCP_CLIENT_STATE_WAIT_FOR_RETRY (set_datNode None (?d\<lparr>hSocket := INVALID_SOCKET\<rparr>)\<lparr>timeout := ?x\<rparr>)]\<rparr>)"
    using l by (intro tcp_client.equality) (simp_all add: wait_for_retry_def)
  have "good m0 {} ?t (cs[i := []])" unfolding t good_called
    by (rule m(2)) (simp_all add: session_ok_defs set_datNode_def)
  moreover have "Q i (s, cs) (?t, cs[i := []])"
    by (rule Q_own [where l = "[Socket_Close (hSocket ?d)]"]) (unfold t, simp_all)
  ultimately show ?thesis using m(1) by (auto simp: keeps_def case_CONNECTION_CLOSE_def Let_def)
qed

lemma task_keeps:
  assumes "okn net" "good m0 {} s cs" "i < TCP_CLIENT_MAX_SOCKETS"
  shows "keeps Q m0 {} i s cs (session_task malloc net i s)"
proof -
  let ?d = "clientData s ! i"
  have l: "length (clientData s) = TCP_CLIENT_MAX_SOCKETS" using assms goodD by simp
  obtain q where q: "session_ok True ?d q" using goodD(3) [OF assms(2,3)] by auto
  have out: "calm ?d" "hSocket ?d = 0 \<or> hSocket ?d = INVALID_SOCKET" if "state ?d \<in> unconnected"
    using q that unconnectedD [OF that] unfolding session_ok_def calm_def by simp_all
  note task_def = session_task_def session_in [OF l assms(3)] seq_Inr
  have ok: "session_ok True (f ?d) q"
    if "state ?d \<in> unconnected" "state (f ?d) \<in> unconnected" "hSocket (f ?d) = hSocket ?d" "stx (f ?d) = stx ?d"
      "session_ok True ?d q" for f q
    using that unconnectedD [of "state ?d"] unconnectedD [of "state (f ?d)"] unfolding session_ok_def by simp
  have upd1: "keeps Q m0 {} i s cs (Inr (upd i f (called i c s)))"
    if "state ?d \<in> unconnected" "state (f ?d) \<in> unconnected" "hSocket (f ?d) = hSocket ?d" "stx (f ?d) = stx ?d" for f c
    by (rule keeps_upd_called [OF assms(2,3), where l = "[c]"]) (use that ok [of f] in simp_all)
  have upd2: "keeps Q m0 {} i s cs (Inr (upd i f s))"
    if "state ?d \<in> unconnected" "state (f ?d) \<in> unconnected" "hSocket (f ?d) = hSocket ?d" "stx (f ?d) = stx ?d" for f
    by (rule keeps_upd [OF assms(2,3)]) (use that ok [of f] in simp_all)
  show ?thesis
  proof (cases "state ?d")
    case TCP_CLIENT_STATE_IDLE
    then show ?thesis using keeps_id [OF assms(2)] by (simp add: task_def)
  next
    case TCP_CLIENT_STATE_DNS_RESOLVE_HOST_ADDRESS
    then show ?thesis using upd1 l assms(3)
      by (simp add: task_def case_DNS_RESOLVE_def Let_def unconnected_def)
  next
    case TCP_CLIENT_STATE_DNS_WAIT
    then show ?thesis using upd2 l assms(3)
      by (simp add: task_def case_DNS_WAIT_def Let_def unconnected_def split: prod.split)
  next
    case TCP_CLIENT_STATE_WAIT_FOR_RETRY
    then show ?thesis using upd2 [of "set_state TCP_CLIENT_STATE_IDLE"] keeps_id [OF assms(2)]
      by (simp add: task_def case_WAIT_FOR_RETRY_def unconnected_def)
  qed (use report_retry [OF assms] report_close [OF assms] connection_init [OF assms] waiting_for [OF assms]
      negotiation_wait [OF assms] data_transfer [OF assms] close_socket [OF assms(2,3)] out
      in \<open>simp_all add: task_def unconnected_def\<close>)
qed

end

section \<open>Runs of the client\<close>

text \<open>
  The contract holds for every application that keeps the rules of the interface, and with more
  to say for one whose callback calls nothing: then a session changes only itself.
\<close>

interpretation sessions: callback_contract malloc "\<lambda>net. malloc_ok malloc \<and> well_behaved malloc net" "\<lambda>_ _ _. True"
  for malloc
proof
  show "\<exists>t cs'. call_back malloc net i e s = Inr t \<and> good m0 X t cs' \<and> request_rel s t \<and> True"
    if "malloc_ok malloc \<and> well_behaved malloc net" "good m0 X s cs" "i < TCP_CLIENT_MAX_SOCKETS" for net m0 X s cs i e
    using call_back_valid [of malloc net m0 X s i e] that by (auto simp: valid_def)
qed simp_all

definition quiet :: "network \<Rightarrow> bool" where
  "quiet net \<longleftrightarrow> (\<forall>l f c x s. app (net l) f c x s = [])"

definition own :: "nat \<Rightarrow> tcp_client \<times> cell list list \<Rightarrow> tcp_client \<times> cell list list \<Rightarrow> bool" where
  "own i x y \<longleftrightarrow>
     (\<forall>j. j \<noteq> i \<longrightarrow> clientData (fst y) ! j = clientData (fst x) ! j \<and> snd y ! j = snd x ! j) \<and>
     (\<exists>l. calls (fst y) = calls (fst x) @ map (Pair i) l)"

lemma own_trans: "own i x y \<Longrightarrow> own i y z \<Longrightarrow> own i x z"
  unfolding own_def by (metis append.assoc map_append)

lemma own_one: "clientData t = (clientData s)[i := d] \<Longrightarrow> calls t = calls s @ map (Pair i) l \<Longrightarrow> own i (s, cs) (t, cs[i := c])"
  by (auto simp: own_def)

lemma call_back_quiet:
  assumes "quiet net" "length (clientData s) = TCP_CLIENT_MAX_SOCKETS" "i < TCP_CLIENT_MAX_SOCKETS"
  shows "\<exists>l. call_back malloc net i e s = Inr (s\<lparr>calls := calls s @ map (Pair i) l\<rparr>) \<and> (\<forall>c\<in>set l. \<exists>f x y. c = Event f x y)"
proof (cases "cb (clientData s ! i)")
  case None
  then show ?thesis using assms by (intro exI [of _ "[]"]) (simp add: call_back_def)
next
  case (Some f)
  let ?c = "\<lparr>ev_sid = int i, ev_event = e, ev_dataLength = read_is_ready (net (calls s)) (hSocket (clientData s ! i))\<rparr>"
  show ?thesis using Some assms
    by (intro exI [of _ "[Event f ?c (cb_ctx (clientData s ! i))]"]) (simp add: call_back_def quiet_def Let_def called_def)
qed

interpretation quiet_sessions: callback_contract malloc quiet own for malloc
proof
  show "\<exists>t cs'. call_back malloc net i e s = Inr t \<and> good m0 X t cs' \<and> request_rel s t \<and> own i (s, cs) (t, cs')"
    if "quiet net" and g: "good m0 X s cs" and i: "i < TCP_CLIENT_MAX_SOCKETS" for net m0 X s cs i e
  proof -
    from call_back_quiet [OF that(1) goodD(1) [OF g] i] obtain l where
      l: "call_back malloc net i e s = Inr (s\<lparr>calls := calls s @ map (Pair i) l\<rparr>)" by blast
    have "good m0 X (s\<lparr>calls := calls s @ map (Pair i) l\<rparr>) cs" using g by (simp add: good_def)
    moreover have "own i (s, cs) (s\<lparr>calls := calls s @ map (Pair i) l\<rparr>, cs)" by (auto simp: own_def)
    ultimately show ?thesis using l by (auto simp: request_rel_def)
  qed
qed (auto intro: own_trans own_one)

datatype client_input = Poll network | Call network request

definition client_step :: "list_block malloc \<Rightarrow> client_input \<Rightarrow> tcp_client \<Rightarrow> tcp_client outcome" where
  "client_step malloc i s = (case i of Poll net \<Rightarrow> tcp_client_task malloc net s | Call net r \<Rightarrow> request malloc net r s)"

definition client_ok :: "list_block malloc \<Rightarrow> client_input \<Rightarrow> tcp_client \<Rightarrow> bool" where
  "client_ok malloc i s = (case i of Poll net \<Rightarrow> well_behaved malloc net | Call net r \<Rightarrow> allowed r s)"

interpretation session_loop: guarded_task "session_task malloc net"
  "\<lambda>s. malloc_ok malloc \<and> well_behaved malloc net \<and> valid m0 {} s" "\<lambda>i s. i < TCP_CLIENT_MAX_SOCKETS" "\<lambda>_ _. True"
  for malloc net m0
  using sessions.task_keeps by unfold_locales (auto simp: keeps_def valid_def)

interpretation client: guarded_task "client_step malloc" "\<lambda>s. malloc_ok malloc \<and> valid m0 {} s" "client_ok malloc" "\<lambda>_ _. True"
  for malloc m0
proof
  fix i s assume inv: "malloc_ok malloc \<and> valid m0 {} s" and ok: "client_ok malloc i s"
  show "\<exists>t. client_step malloc i s = Inr t \<and> (malloc_ok malloc \<and> valid m0 {} t) \<and> True"
  proof (cases i)
    case (Poll net)
    have "ok_run (\<lambda>i s. i < TCP_CLIENT_MAX_SOCKETS) (session_task malloc net) [0..<TCP_CLIENT_MAX_SOCKETS] s"
      by (rule ok_run_indices) (simp add: list_all_iff)
    with session_loop.run_ok [of malloc net m0 s] inv ok Poll show ?thesis
      by (auto simp: client_step_def client_ok_def tcp_client_task_def)
  next
    case (Call net r)
    with request_valid [of m0 "{}" s malloc r net] inv ok show ?thesis by (auto simp: client_step_def client_ok_def)
  qed
qed simp_all

lemma init_valid:
  assumes "length (clientData s) = TCP_CLIENT_MAX_SOCKETS"
  shows "good (mem s) {} (tcp_client_init s) (replicate TCP_CLIENT_MAX_SOCKETS [])"
proof -
  let ?d = "set_state TCP_CLIENT_STATE_IDLE session_cleared"
  obtain a b c where s: "clientData s = [a, b, c]" using three [OF assms] by blast
  have "clientData (tcp_client_init s) = replicate TCP_CLIENT_MAX_SOCKETS ?d" "mem (tcp_client_init s) = mem s"
    using s by (simp_all add: tcp_client_init_def TCP_CLIENT_MAX_SOCKETS_def numeral_3_eq_3 upt_rec)
  moreover have "datNode (stx session_cleared) = None" by (simp add: session_cleared_def)
  moreover have "session_ok b ?d []" for b by (simp add: session_ok_def connected_def session_cleared_def)
  ultimately show ?thesis using stored_empty [of "mem s" TCP_CLIENT_MAX_SOCKETS] by (simp add: good_def)
qed

section \<open>Correctness\<close>

lemma ok_run_always: "list_all (\<lambda>i. \<forall>s. ok i s) is \<Longrightarrow> ok_run ok step is s"
  by (induction "is" arbitrary: s) (auto split: sum.split)

lemma quiet_well_behaved: "quiet net \<Longrightarrow> well_behaved malloc net"
  by (simp add: quiet_def well_behaved_def)

lemma good_queues:
  assumes "good m0 X s cs"
  shows "queues m0 (map (datNode \<circ> stx) (clientData s), mem s) (map messages cs)"
    "live (mem s) = live m0 + 2 * int (length (concat (map messages cs)))"
proof -
  have st: "stored m0 (mem s) (map (datNode \<circ> stx) (clientData s)) cs" using assms by (simp add: good_def)
  then show "queues m0 (map (datNode \<circ> stx) (clientData s), mem s) (map messages cs)" by (auto simp: queues_def)
  have "concat (map messages cs) = messages (concat cs)" unfolding messages_def by (simp add: map_concat)
  then show "live (mem s) = live m0 + 2 * int (length (concat (map messages cs)))"
    using st by (simp add: stored_def messages_def)
qed

text \<open>
  C2: The TCP client never faults and never leaks. From initialisation, for every behaviour of the
  network, the resolver, the timer and \<open>malloc\<close>, every run of task calls and interface calls that keep
  the rules (no negative session number, a buffer as long as announced, a host name that fits, no
  opening while all sessions are busy), with an application whose callback may itself send, close,
  open, read and reset within these rules, returns. Afterwards memory holds exactly two blocks for
  each message that waits; messages wait only in sessions that are connected or about to close; a
  session between connections holds no socket, and a connected one does.
\<close>

theorem tcp_client_safe:
  assumes "malloc_ok malloc" "length (clientData s0) = TCP_CLIENT_MAX_SOCKETS"
    and "ok_run (client_ok malloc) (client_step malloc) is (tcp_client_init s0)"
  shows "\<exists>t qs. run (client_step malloc) is (tcp_client_init s0) = Inr t \<and>
    queues (mem s0) (map (datNode \<circ> stx) (clientData t), mem t) qs \<and>
    live (mem t) = live (mem s0) + 2 * int (length (concat qs)) \<and>
    (\<forall>d\<in>set (clientData t).
       (datNode (stx d) \<noteq> None \<longrightarrow>
          state d \<in> {TCP_CLIENT_STATE_CONNECTION_STABLISHED, TCP_CLIENT_STATE_CONNECTION_CLOSE}) \<and>
       (state d \<in> unconnected \<longrightarrow> hSocket d = 0 \<or> hSocket d = INVALID_SOCKET) \<and>
       (state d \<in> connected \<longrightarrow> hSocket d \<noteq> INVALID_SOCKET))"
proof -
  have "valid (mem s0) {} (tcp_client_init s0)" using init_valid [OF assms(2)] by (auto simp: valid_def)
  with client.run_ok [of malloc "mem s0" "tcp_client_init s0" "is"] assms(1,3) obtain t cs where
    t: "run (client_step malloc) is (tcp_client_init s0) = Inr t" "good (mem s0) {} t cs" by (auto simp: valid_def)
  have "\<exists>q. session_ok True d q" if "d \<in> set (clientData t)" for d
    using that goodD(1) [OF t(2)] goodD(3) [OF t(2)] by (auto simp: in_set_conv_nth)
  then show ?thesis using t(1) good_queues [OF t(2)]
    by (intro exI [of _ t] exI [of _ "map messages cs"]) (auto simp: session_ok_def)
qed

text \<open>A network for the examples: every connection succeeds, sockets take two bytes at a time.\<close>

definition demo_net :: network where
  "demo_net = (\<lambda>_. \<lparr>core_timer = 0, dns_resolve = (\<lambda>_. 0), dns_is_resolved = (\<lambda>_ a. (0, a)), string_to_ip = (\<lambda>_ a. a),
     socket_open = (\<lambda>_ _. 1), was_reset = (\<lambda>_. False), was_disconnected = (\<lambda>_. False), is_connected = (\<lambda>_. True),
     encrypt_socket = (\<lambda>_. True), is_negotiating = (\<lambda>_. False), is_secure = (\<lambda>_. True), read_is_ready = (\<lambda>_. 0),
     write_is_ready = (\<lambda>_ _ _. 2), socket_read = (\<lambda>_ _. []), app = (\<lambda>_ _ _ _. [])\<rparr>)"

lemma quiet_demo_net [simp]: "quiet demo_net"
  by (simp add: quiet_def demo_net_def)

definition power_on :: tcp_client where
  "power_on = \<lparr>clientData = replicate TCP_CLIENT_MAX_SOCKETS session_cleared,
     mem = \<lparr>blocks = Map.empty, aaa = 0, fff = 0\<rparr>, calls = []\<rparr>"

theorem tcp_client_safe_witness:
  "\<exists>t qs. run (client_step first_fit)
      (Call demo_net (Open_Ip 1 80 False None 0) # Poll demo_net # Poll demo_net # Call demo_net (Send 0 (Some [1, 2, 3]) 3) #
       replicate 5 (Poll demo_net)) (tcp_client_init power_on) = Inr t \<and>
    queues (mem power_on) (map (datNode \<circ> stx) (clientData t), mem t) qs \<and>
    live (mem t) = live (mem power_on) + 2 * int (length (concat qs)) \<and>
    (\<forall>d\<in>set (clientData t).
       (datNode (stx d) \<noteq> None \<longrightarrow>
          state d \<in> {TCP_CLIENT_STATE_CONNECTION_STABLISHED, TCP_CLIENT_STATE_CONNECTION_CLOSE}) \<and>
       (state d \<in> unconnected \<longrightarrow> hSocket d = 0 \<or> hSocket d = INVALID_SOCKET) \<and>
       (state d \<in> connected \<longrightarrow> hSocket d \<noteq> INVALID_SOCKET))"
proof (rule tcp_client_safe)
  have "some_idle (tcp_client_init power_on)"
    by (simp add: tcp_client_init_def power_on_def some_idle_def TCP_CLIENT_MAX_SOCKETS_def numeral_3_eq_3 upt_rec upd_def)
  moreover have "ok_run (client_ok first_fit) (client_step first_fit)
      (Poll demo_net # Poll demo_net # Call demo_net (Send 0 (Some [1, 2, 3]) 3) # replicate 5 (Poll demo_net)) t" for t
    by (rule ok_run_always) (simp add: list_all_iff client_ok_def allowed_def quiet_well_behaved)
  ultimately show "ok_run (client_ok first_fit) (client_step first_fit)
      (Call demo_net (Open_Ip 1 80 False None 0) # Poll demo_net # Poll demo_net # Call demo_net (Send 0 (Some [1, 2, 3]) 3) #
       replicate 5 (Poll demo_net)) (tcp_client_init power_on)"
    by (simp add: client_ok_def allowed_def split: sum.split)
qed (simp_all add: power_on_def)

text \<open>
  A session can be opened while another one is idle, and only then: with all three sessions in use
  the search for an idle one reads an element past the table (the index is compared after the
  element is read), so the answer \<open>TCP_CLIENT_OP_BUSY\<close> is never given without that access.
\<close>

lemma open_overrun_iff:
  assumes "length (clientData s) = TCP_CLIENT_MAX_SOCKETS" "length host < TCP_NET_MAX_HOSTNAME_STRING_SIZE"
  shows "(tcp_client_open_ip ip prt tlsb f c s = Inl Out_Of_Bounds \<longleftrightarrow>
      (\<forall>d\<in>set (clientData s). state d \<noteq> TCP_CLIENT_STATE_IDLE)) \<and>
    (tcp_client_open_host host prt tlsb f c s = Inl Out_Of_Bounds \<longleftrightarrow>
      (\<forall>d\<in>set (clientData s). state d \<noteq> TCP_CLIENT_STATE_IDLE))"
proof -
  have idle: "some_idle s = (\<exists>d\<in>set (clientData s). state d = TCP_CLIENT_STATE_IDLE)"
    by (simp add: some_idle_def list_ex_iff)
  consider i where "i < TCP_CLIENT_MAX_SOCKETS" "find_idle 0 s = Inr i" "some_idle s"
    | "find_idle 0 s = Inl Out_Of_Bounds" "\<not> some_idle s"
    using find_idle_some [OF assms(1)] find_idle_none [OF assms(1)] by blast
  then show ?thesis
    by cases (use assms(2) in \<open>simp_all add: tcp_client_open_ip_def tcp_client_open_host_def idle\<close>)
qed

definition all_busy :: tcp_client where
  "all_busy = power_on\<lparr>clientData := replicate TCP_CLIENT_MAX_SOCKETS (set_state TCP_CLIENT_STATE_DNS_WAIT session_cleared)\<rparr>"

lemma open_overrun_iff_witness:
  "(tcp_client_open_ip 1 80 False None 0 all_busy = Inl Out_Of_Bounds \<longleftrightarrow>
      (\<forall>d\<in>set (clientData all_busy). state d \<noteq> TCP_CLIENT_STATE_IDLE)) \<and>
    (tcp_client_open_host ''a.b'' 80 False None 0 all_busy = Inl Out_Of_Bounds \<longleftrightarrow>
      (\<forall>d\<in>set (clientData all_busy). state d \<noteq> TCP_CLIENT_STATE_IDLE))"
  by (rule open_overrun_iff) (simp_all add: all_busy_def TCP_NET_MAX_HOSTNAME_STRING_SIZE_def)

section \<open>Delivery\<close>

text \<open>The bytes a session has written to its socket, and those that are waiting.\<close>

definition written :: "nat \<Rightarrow> (nat \<times> net_call) list \<Rightarrow> u8 list" where
  "written i l = concat (map (\<lambda>(j, c). case c of Socket_Write _ bs \<Rightarrow> if j = i then bs else [] | _ \<Rightarrow> []) l)"

definition offset :: "t_TCP_CLIENT_DATA \<Rightarrow> nat" where
  "offset d = (if stx_state (stx d) = STREAM_STATE_SENDING then unat (curDataOffset (stx d)) else 0)"

definition pending :: "t_TCP_CLIENT_DATA \<Rightarrow> cell list \<Rightarrow> u8 list" where
  "pending d q = drop (offset d) (concat (messages q))"

text \<open>What is left to do for a sender with room in the socket: a step for each byte, one to begin each message.\<close>

definition work :: "t_TCP_CLIENT_DATA \<Rightarrow> cell list \<Rightarrow> nat" where
  "work d q = length (pending d q) + (if stx_state (stx d) = STREAM_STATE_SENDING then length q - 1 else length q)"

lemma written_simps [simp]: "written i [] = []" "written i (l @ l') = written i l @ written i l'"
  "written i ((j, c) # l) = (case c of Socket_Write _ bs \<Rightarrow> if j = i then bs else [] | _ \<Rightarrow> []) @ written i l"
  by (simp_all add: written_def)

lemma written_others [simp]: "j \<noteq> i \<Longrightarrow> written i (map (Pair j) l) = []"
  by (induction l) (auto simp: written_def split: net_call.splits)

lemma written_events: "\<forall>c\<in>set l. \<exists>f x y. c = Event f x y \<Longrightarrow> written i (map (Pair i) l) = []"
  by (induction l) (auto simp: written_def)

lemma own_written: "own j (s, cs) (t, cs') \<Longrightarrow> j \<noteq> i \<Longrightarrow>
    clientData t ! i = clientData s ! i \<and> cs' ! i = cs ! i \<and> written i (calls t) = written i (calls s)"
  by (auto simp: own_def)

text \<open>
  One step of a transmitting session towards its goal: \<open>progress\<close> relates a session before and after.
\<close>

definition transmits :: "t_TCP_CLIENT_DATA \<Rightarrow> bool" where
  "transmits d \<longleftrightarrow> state d = TCP_CLIENT_STATE_CONNECTION_STABLISHED \<and>
     stx_state (stx d) \<in> {STREAM_STATE_IDLE, STREAM_STATE_SENDING}"

definition progress :: "bool \<Rightarrow> nat \<Rightarrow> tcp_client \<times> cell list list \<Rightarrow> tcp_client \<times> cell list list \<Rightarrow> bool" where
  "progress free i x y \<longleftrightarrow>
     (let d = clientData (fst x) ! i; d' = clientData (fst y) ! i; q = snd x ! i; q' = snd y ! i
      in transmits d' \<and> hSocket d' = hSocket d \<and>
         (\<exists>w. written i (calls (fst y)) = written i (calls (fst x)) @ w \<and> pending d q = w @ pending d' q') \<and>
         work d' q' \<le> work d q \<and> (free \<longrightarrow> work d q = 0 \<or> work d' q' < work d q))"

definition has_room :: "network \<Rightarrow> int \<Rightarrow> bool" where
  "has_room net h \<longleftrightarrow> (\<forall>l n m. n \<noteq> 0 \<longrightarrow> write_is_ready (net l) h n m \<noteq> 0)"

lemma tx_progress:
  assumes "quiet net" and g: "good m0 {} s cs" and i: "i < TCP_CLIENT_MAX_SOCKETS" and d: "transmits (clientData s ! i)"
  shows "\<exists>t cs'. tx_task malloc net i s = Inr t \<and> good m0 {} t cs' \<and> own i (s, cs) (t, cs') \<and>
    progress (has_room net (hSocket (clientData s ! i))) i (s, cs) (t, cs')"
proof -
  let ?d = "clientData s ! i"
  let ?off = "unat (curDataOffset (stx ?d))"
  have l: "length (clientData s) = TCP_CLIENT_MAX_SOCKETS" "length cs = TCP_CLIENT_MAX_SOCKETS" using g goodD by simp_all
  have li: "i < length (clientData s)" "i < length cs" using l i by simp_all
  have ok: "session_ok True ?d (cs ! i)" using goodD(3) [OF g i] by simp
  have est: "state ?d = TCP_CLIENT_STATE_CONNECTION_STABLISHED" using d by (simp add: transmits_def)
  have stay: ?thesis if "tx_task malloc net i s = Inr s" "has_room net (hSocket ?d) \<Longrightarrow> work ?d (cs ! i) = 0"
    using that g d by (intro exI [of _ s] exI [of _ cs]) (auto simp: own_def progress_def Let_def intro: exI [of _ "[]"])
  consider "stx_state (stx ?d) = STREAM_STATE_IDLE" "cs ! i = []" | "stx_state (stx ?d) = STREAM_STATE_IDLE" "cs ! i \<noteq> []"
    | "stx_state (stx ?d) = STREAM_STATE_SENDING" using d by (auto simp: transmits_def)
  then show ?thesis
  proof cases
    case 1
    then have "datNode (stx ?d) = None" using good_pointer [OF g i] by simp
    with 1 l i show ?thesis by (intro stay) (simp_all add: tx_task_def work_def pending_def)
  next
    case 2
    let ?f = "\<lambda>d. set_stx STREAM_STATE_SENDING (set_offset 0 d)"
    have "datNode (stx ?d) \<noteq> None" using 2 good_pointer [OF g i] by simp
    then have t: "tx_task malloc net i s = Inr (upd i ?f s)" using 2 l i by (simp add: tx_task_def)
    have "session_ok True (?f ?d) (cs ! i)"
      using ok 2 est by (cases "cs ! i") (auto simp: session_ok_def first_len_def)
    then have "good m0 {} (upd i ?f s) cs" by (intro good_upd [OF g i]) simp_all
    moreover have "own i (s, cs) (upd i ?f s, cs)" by (auto simp: own_def)
    moreover have "progress b i (s, cs) (upd i ?f s, cs)" for b
      using 2 li est
      by (cases "cs ! i") (auto simp: progress_def Let_def transmits_def work_def pending_def offset_def intro: exI [of _ "[]"])
    ultimately show ?thesis using t by blast
  next
    case 3
    obtain a x bs q where q: "cs ! i = (a, x, bs) # q" "?off < length bs" "length bs < 2 ^ 16"
      "stx_sending malloc net i s = send_part malloc net i bs (room net i bs s) s"
      by (rule sending_step [OF g i _ est 3]) (simp, rule that)
    define cap where "cap = room net i bs s"
    have tx: "tx_task malloc net i s = send_part malloc net i bs cap s" using 3 q(4) l i by (simp add: tx_task_def cap_def)
    have roomy: "cap \<noteq> 0" if "has_room net (hSocket ?d)"
    proof -
      have "(word_of_nat (length bs - ?off) :: u16) \<noteq> 0"
      proof
        assume "(word_of_nat (length bs - ?off) :: u16) = 0"
        moreover have "unat (word_of_nat (length bs - ?off) :: u16) = length bs - ?off"
          using q(3) by (intro of_nat_inverse [OF refl]) simp
        ultimately show False using q(2) by simp
      qed
      then show ?thesis using that unfolding has_room_def cap_def room_def by blast
    qed
    consider "cap = 0" | "cap \<noteq> 0" "unat cap < length bs - ?off" | "cap \<noteq> 0" "\<not> unat cap < length bs - ?off" by blast
    then show ?thesis
    proof cases
      case 1
      then show ?thesis using roomy tx by (intro stay) (auto simp: send_part_def Let_def)
    next
      case c: 2
      let ?w = "take (unat cap) (drop ?off bs)"
      let ?t = "upd i (set_offset (curDataOffset (stx ?d) + cap)) (called i (Socket_Write (hSocket ?d) ?w) s)"
      have add: "unat (curDataOffset (stx ?d) + cap) = ?off + unat cap"
        using c(2) q(2,3) by (simp add: unat_plus_if')
      have "0 < unat cap" using c(1) by (simp add: unat_gt_0)
      have "session_ok True (set_offset (curDataOffset (stx ?d) + cap) ?d) (cs ! i)"
        using ok add c(2) q(1) by (auto simp: session_ok_def first_len_def)
      then have "good m0 {} ?t cs" using g by (intro good_upd [OF _ i empty_subsetI]) simp_all
      moreover have "own i (s, cs) (?t, cs)" by (auto simp: own_def intro: exI [of _ "[Socket_Write (hSocket ?d) ?w]"])
      moreover have "progress b i (s, cs) (?t, cs)" for b
      proof -
        have "drop ?off bs = ?w @ drop (?off + unat cap) bs"
          by (metis add.commute append_take_drop_id drop_drop)
        then show ?thesis
          using 3 li est add c(2) q(1,2) \<open>0 < unat cap\<close>
          by (auto simp: progress_def Let_def transmits_def work_def pending_def offset_def)
      qed
      moreover have "tx_task malloc net i s = Inr ?t" using tx c by (simp add: send_part_def Let_def)
      ultimately show ?thesis by blast
    next
      case c: 3
      let ?s = "called i (Socket_Write (hSocket ?d) (drop ?off bs)) s"
      have gs: "good m0 {} ?s cs" using g by simp
      from drop_node_good [OF gs i] obtain u p where
        u: "drop_node i ?s = Inr u" "good m0 (insert i {}) u (cs[i := tl (cs ! i)])" "calls u = calls ?s"
          "clientData u = (clientData ?s)[i := set_datNode p (clientData ?s ! i)]" by blast
      have lu: "length (clientData u) = TCP_CLIENT_MAX_SOCKETS" using u(2) goodD by simp
      from call_back_quiet [OF assms(1) lu i] obtain ev where
        ev: "call_back malloc net i CLIENT_EVENT_TX u = Inr (u\<lparr>calls := calls u @ map (Pair i) ev\<rparr>)"
          "\<forall>c\<in>set ev. \<exists>f x y. c = Event f x y" by blast
      let ?v = "u\<lparr>calls := calls u @ map (Pair i) ev\<rparr>"
      let ?t = "upd i (set_stx STREAM_STATE_IDLE) ?v"
      have gv: "good m0 {i} ?v (cs[i := tl (cs ! i)])" using u(2) by (simp add: good_def)
      have "good m0 {} ?t (cs[i := tl (cs ! i)])"
        using i by (intro good_upd_any [OF gv i]) (auto simp: session_ok_def)
      moreover have "own i (s, cs) (?t, cs[i := tl (cs ! i)])"
        using u(3,4) by (auto simp: own_def intro: exI [of _ "Socket_Write (hSocket ?d) (drop ?off bs) # ev"])
      moreover have "progress b i (s, cs) (?t, cs[i := tl (cs ! i)])" for b
        using 3 li est q(1,2) u(3,4) written_events [OF ev(2)]
        by (auto simp: progress_def Let_def transmits_def work_def pending_def offset_def)
      moreover have "tx_task malloc net i s = Inr ?t" using tx c u(1) ev(1) by (simp add: send_part_def Let_def)
      ultimately show ?thesis by blast
    qed
  qed
qed

text \<open>The whole turn of a session whose connection holds, and the turns of the others.\<close>

definition holds_on :: "network \<Rightarrow> int \<Rightarrow> bool" where
  "holds_on net h \<longleftrightarrow> (\<forall>l. \<not> was_reset (net l) h \<and> \<not> was_disconnected (net l) h)"

lemma receive_quiet:
  assumes "quiet net" "good m0 {} s cs" "i < TCP_CLIENT_MAX_SOCKETS"
  shows "\<exists>l. receive malloc net i s = Inr (s\<lparr>calls := calls s @ map (Pair i) l\<rparr>) \<and> (\<forall>c\<in>set l. \<exists>f x y. c = Event f x y)"
proof (cases "read_is_ready (net (calls s)) (hSocket (clientData s ! i)) = 0")
  case True
  then show ?thesis using assms(3) goodD(1) [OF assms(2)] by (intro exI [of _ "[]"]) (simp add: receive_def)
next
  case False
  then show ?thesis
    using call_back_quiet [OF assms(1) goodD(1) [OF assms(2)] assms(3)] assms(3) goodD(1) [OF assms(2)] by (simp add: receive_def)
qed

lemma turn_progress:
  assumes q: "quiet net" and g: "good m0 {} s cs" and i: "i < TCP_CLIENT_MAX_SOCKETS" and d: "transmits (clientData s ! i)"
    and h: "holds_on net (hSocket (clientData s ! i))"
  shows "\<exists>t cs'. session_task malloc net i s = Inr t \<and> good m0 {} t cs' \<and> own i (s, cs) (t, cs') \<and>
    progress (has_room net (hSocket (clientData s ! i))) i (s, cs) (t, cs')"
proof -
  let ?d = "clientData s ! i"
  let ?s = "called i (Socket_WasDisconnected (hSocket ?d)) (called i (Socket_WasReset (hSocket ?d)) s)"
  have l: "length (clientData s) = TCP_CLIENT_MAX_SOCKETS" using g goodD by simp
  have gs: "good m0 {} ?s cs" using g by simp
  from tx_progress [OF q gs i, of malloc] d obtain t cs' where
    t: "tx_task malloc net i ?s = Inr t" "good m0 {} t cs'" "own i (?s, cs) (t, cs')"
      "progress (has_room net (hSocket ?d)) i (?s, cs) (t, cs')" by auto
  from receive_quiet [OF q t(2) i] obtain ev where
    ev: "receive malloc net i t = Inr (t\<lparr>calls := calls t @ map (Pair i) ev\<rparr>)" "\<forall>c\<in>set ev. \<exists>f x y. c = Event f x y" by blast
  let ?t = "t\<lparr>calls := calls t @ map (Pair i) ev\<rparr>"
  have "session_task malloc net i s = Inr ?t"
    using d h t(1) ev(1) l i
    by (simp add: session_task_def transmits_def case_CONNECTION_STABLISHED_def gone_def holds_on_def Let_def)
  moreover have "good m0 {} ?t cs'" using t(2) by (simp add: good_def)
  moreover have "own i (s, cs) (?t, cs')"
  proof -
    have "own i (s, cs) (?s, cs)"
      by (auto simp: own_def intro: exI [of _ "[Socket_WasReset (hSocket ?d), Socket_WasDisconnected (hSocket ?d)]"])
    moreover have "own i (t, cs') (?t, cs')" by (auto simp: own_def)
    ultimately show ?thesis using t(3) own_trans by blast
  qed
  moreover have "progress (has_room net (hSocket ?d)) i (s, cs) (?t, cs')"
    using t(4) written_events [OF ev(2), of i] by (simp add: progress_def Let_def)
  ultimately show ?thesis by blast
qed

lemma run_others:
  assumes "quiet net"
  shows "good m0 {} s cs \<Longrightarrow> list_all (\<lambda>j. j < TCP_CLIENT_MAX_SOCKETS \<and> j \<noteq> i) js \<Longrightarrow>
    \<exists>t cs'. run (session_task malloc net) js s = Inr t \<and> good m0 {} t cs' \<and>
      clientData t ! i = clientData s ! i \<and> cs' ! i = cs ! i \<and> written i (calls t) = written i (calls s)"
proof (induction js arbitrary: s cs)
  case Nil
  then show ?case by auto
next
  case (Cons j js)
  from quiet_sessions.task_keeps [OF assms Cons.prems(1), of j malloc] Cons.prems(2) obtain u cu where
    u: "session_task malloc net j s = Inr u" "good m0 {} u cu" "own j (s, cs) (u, cu)" by (auto simp: keeps_def)
  from Cons.IH [OF u(2)] Cons.prems(2) own_written [OF u(3), of i] u(1) show ?case by auto
qed

lemma split_indices:
  assumes "i < n"
  shows "[0..<n] = [0..<i] @ i # [Suc i..<n]"
proof -
  obtain k where "n = i + Suc k" using assms less_imp_add_positive by (metis gr0_conv_Suc)
  moreover have "[0..<i + Suc k] = [0..<i] @ [i..<i + Suc k]" by (rule upt_add_eq_append) simp
  moreover have "[i..<i + Suc k] = i # [Suc i..<i + Suc k]" by (rule upt_conv_Cons) simp
  ultimately show ?thesis by metis
qed

lemma poll_progress:
  assumes q: "quiet net" and g: "good m0 {} s cs" and i: "i < TCP_CLIENT_MAX_SOCKETS" and d: "transmits (clientData s ! i)"
    and h: "holds_on net (hSocket (clientData s ! i))"
  shows "\<exists>t cs'. tcp_client_task malloc net s = Inr t \<and> good m0 {} t cs' \<and>
    progress (has_room net (hSocket (clientData s ! i))) i (s, cs) (t, cs')"
proof -
  note split = split_indices [OF i]
  from run_others [OF q g, where i = i and js = "[0..<i]" and malloc = malloc] i obtain s1 c1 where
    1: "run (session_task malloc net) [0..<i] s = Inr s1" "good m0 {} s1 c1"
      "clientData s1 ! i = clientData s ! i" "c1 ! i = cs ! i" "written i (calls s1) = written i (calls s)"
    by (auto simp: list_all_iff)
  from turn_progress [OF q 1(2) i, of malloc] d h 1(3) obtain s2 c2 where
    2: "session_task malloc net i s1 = Inr s2" "good m0 {} s2 c2"
      "progress (has_room net (hSocket (clientData s ! i))) i (s1, c1) (s2, c2)" by auto
  from run_others [OF q 2(2), where i = i and js = "[Suc i..<TCP_CLIENT_MAX_SOCKETS]" and malloc = malloc] obtain s3 c3 where
    3: "run (session_task malloc net) [Suc i..<TCP_CLIENT_MAX_SOCKETS] s2 = Inr s3" "good m0 {} s3 c3"
      "clientData s3 ! i = clientData s2 ! i" "c3 ! i = c2 ! i" "written i (calls s3) = written i (calls s2)"
    by (auto simp: list_all_iff)
  have "tcp_client_task malloc net s = Inr s3"
    unfolding tcp_client_task_def split using 1(1) 2(1) 3(1) by (simp add: run_append)
  moreover have "progress (has_room net (hSocket (clientData s ! i))) i (s, cs) (s3, c3)"
    using 2(3) 1(3-5) 3(3-5) by (simp add: progress_def Let_def)
  ultimately show ?thesis using 3(2) by blast
qed

text \<open>Turns of the task and messages handed over, in any order; \<open>acc\<close> collects what is accepted.\<close>

datatype transfer = Turn network | Put "u8 list"

definition transfer_step :: "list_block malloc \<Rightarrow> nat \<Rightarrow> transfer \<Rightarrow> tcp_client \<times> u8 list \<Rightarrow> (tcp_client \<times> u8 list) outcome" where
  "transfer_step malloc i inp = (\<lambda>(s, acc).
     (case inp of
        Turn net \<Rightarrow> seq (tcp_client_task malloc net s) (\<lambda>s. Inr (s, acc))
      | Put dat \<Rightarrow> seq (tcp_client_send malloc (int i) (Some dat) (word_of_nat (length dat)) s) (\<lambda>(r, s).
          Inr (s, if r = TCP_CLIENT_OP_SUCCESS then acc @ dat else acc))))"

definition transfer_ok :: "int \<Rightarrow> transfer \<Rightarrow> bool" where
  "transfer_ok h inp = (case inp of Turn net \<Rightarrow> quiet net \<and> holds_on net h | Put dat \<Rightarrow> length dat < 2 ^ 16)"

definition delivering :: "list_block dmem \<Rightarrow> nat \<Rightarrow> int \<Rightarrow> u8 list \<Rightarrow> nat \<Rightarrow> tcp_client \<times> u8 list \<Rightarrow> bool" where
  "delivering m0 i h w0 n = (\<lambda>(s, acc). \<exists>cs. good m0 {} s cs \<and> transmits (clientData s ! i) \<and> hSocket (clientData s ! i) = h \<and>
     written i (calls s) @ pending (clientData s ! i) (cs ! i) = w0 @ acc \<and> work (clientData s ! i) (cs ! i) \<le> n)"

lemma turn_delivers:
  assumes "delivering m0 i h w0 n (s, acc)" "quiet net" "holds_on net h" "i < TCP_CLIENT_MAX_SOCKETS"
  shows "\<exists>t. transfer_step malloc i (Turn net) (s, acc) = Inr (t, acc) \<and>
    delivering m0 i h w0 (if has_room net h then n - 1 else n) (t, acc)"
proof -
  from assms(1) obtain cs where g: "good m0 {} s cs" "transmits (clientData s ! i)" "hSocket (clientData s ! i) = h"
    "written i (calls s) @ pending (clientData s ! i) (cs ! i) = w0 @ acc" "work (clientData s ! i) (cs ! i) \<le> n"
    by (auto simp: delivering_def)
  from poll_progress [OF assms(2) g(1) assms(4) g(2), of malloc] assms(3) g(3) obtain t cs' where
    t: "tcp_client_task malloc net s = Inr t" "good m0 {} t cs'" "progress (has_room net h) i (s, cs) (t, cs')" by auto
  from t(3) obtain w where w: "written i (calls t) = written i (calls s) @ w"
    "pending (clientData s ! i) (cs ! i) = w @ pending (clientData t ! i) (cs' ! i)"
    by (auto simp: progress_def Let_def)
  have "written i (calls t) @ pending (clientData t ! i) (cs' ! i) = w0 @ acc" using g(4) w by simp
  moreover have "work (clientData t ! i) (cs' ! i) \<le> (if has_room net h then n - 1 else n)"
    "transmits (clientData t ! i)" "hSocket (clientData t ! i) = h"
    using t(3) g(3,5) by (auto simp: progress_def Let_def)
  ultimately show ?thesis using t(1,2) by (auto simp: transfer_step_def delivering_def)
qed

lemma pending_snoc:
  assumes "session_ok True d q" "transmits d"
  shows "pending (set_datNode p d) (q @ [(a, b, bs)]) = pending d q @ bs"
proof -
  have "offset d \<le> length (concat (messages q))"
    using assms by (cases q) (auto simp: session_ok_def transmits_def offset_def first_len_def)
  moreover have "offset (set_datNode p d) = offset d" by (simp add: offset_def)
  ultimately show ?thesis by (simp add: pending_def)
qed

lemma put_delivers:
  assumes del: "delivering m0 i h w0 n (s, acc)" and "malloc_ok malloc" and i: "i < TCP_CLIENT_MAX_SOCKETS"
    and len: "length dat < 2 ^ 16"
  shows "\<exists>t acc' k. transfer_step malloc i (Put dat) (s, acc) = Inr (t, acc') \<and> delivering m0 i h w0 k (t, acc')"
proof (cases "dat = []")
  case True
  from del have "state (clientData s ! i) = TCP_CLIENT_STATE_CONNECTION_STABLISHED" "length (clientData s) = TCP_CLIENT_MAX_SOCKETS"
    by (auto simp: delivering_def transmits_def goodD)
  then have "transfer_step malloc i (Put dat) (s, acc) = Inr (s, acc)"
    using True i by (simp add: transfer_step_def tcp_client_send_def)
  with del show ?thesis by blast
next
  case False
  from del obtain cs where g: "good m0 {} s cs" "transmits (clientData s ! i)" "hSocket (clientData s ! i) = h"
    "written i (calls s) @ pending (clientData s ! i) (cs ! i) = w0 @ acc" by (auto simp: delivering_def)
  have est: "state (clientData s ! i) = TCP_CLIENT_STATE_CONNECTION_STABLISHED" using g(2) by (simp add: transmits_def)
  have ok: "session_ok True (clientData s ! i) (cs ! i)" using goodD(3) [OF g(1) i] by simp
  let ?len = "word_of_nat (length dat) :: u16"
  have u: "unat ?len = length dat" using len by (intro of_nat_inverse [OF refl]) simp
  then have len': "0 < ?len" "unat ?len \<le> length dat" using False by (auto simp: word_less_nat_alt)
  show ?thesis
  proof (cases rule: send_good [OF g(1) assms(2) i est len'])
    case (1 t)
    then have "transfer_step malloc i (Put dat) (s, acc) = Inr (t, acc)"
      by (simp add: transfer_step_def TCP_CLIENT_OP_ERROR_def TCP_CLIENT_OP_SUCCESS_def)
    with 1(2-4) g show ?thesis by (auto simp: delivering_def)
  next
    case (2 t p a b)
    have l: "i < length (clientData s)" "i < length cs" using g(1) i goodD by simp_all
    have "transfer_step malloc i (Put dat) (s, acc) = Inr (t, acc @ dat)" using 2(1) by (simp add: transfer_step_def)
    moreover have "written i (calls t) @ pending (clientData t ! i) (cs[i := cs ! i @ [(a, b, take (unat ?len) dat)]] ! i) = w0 @ (acc @ dat)"
      using 2(3,4) g(4) pending_snoc [OF ok g(2)] u l by simp
    moreover have "transmits (clientData t ! i)" "hSocket (clientData t ! i) = h"
      using 2(4) g(2,3) l by (simp_all add: transmits_def)
    ultimately show ?thesis using 2(2) unfolding delivering_def prod.case by blast
  qed
qed

lemma transfer_delivers:
  assumes "malloc_ok malloc" "i < TCP_CLIENT_MAX_SOCKETS"
  shows "delivering m0 i h w0 n (s, acc) \<Longrightarrow> list_all (transfer_ok h) is \<Longrightarrow>
    \<exists>t acc' k. run (transfer_step malloc i) is (s, acc) = Inr (t, acc') \<and> delivering m0 i h w0 k (t, acc')"
proof (induction "is" arbitrary: s acc n)
  case Nil
  then show ?case by auto
next
  case (Cons inp "is")
  have "\<exists>t acc' k. transfer_step malloc i inp (s, acc) = Inr (t, acc') \<and> delivering m0 i h w0 k (t, acc')"
  proof (cases inp)
    case (Turn net)
    with turn_delivers [OF Cons.prems(1), of net malloc] Cons.prems(2) assms show ?thesis by (auto simp: transfer_ok_def)
  next
    case (Put dat)
    with put_delivers [OF Cons.prems(1) assms(1,2), of dat] Cons.prems(2) show ?thesis by (auto simp: transfer_ok_def)
  qed
  then obtain t acc' k where t: "transfer_step malloc i inp (s, acc) = Inr (t, acc')" "delivering m0 i h w0 k (t, acc')" by blast
  with Cons.IH [OF t(2)] Cons.prems(2) show ?case by auto
qed

lemma drain:
  assumes "i < TCP_CLIENT_MAX_SOCKETS"
  shows "delivering m0 i h w0 (length nets) (s, acc) \<Longrightarrow> list_all (\<lambda>net. quiet net \<and> holds_on net h \<and> has_room net h) nets \<Longrightarrow>
    \<exists>t. run (transfer_step malloc i) (map Turn nets) (s, acc) = Inr (t, acc) \<and> delivering m0 i h w0 0 (t, acc)"
proof (induction nets arbitrary: s)
  case (Cons net nets)
  from turn_delivers [OF Cons.prems(1), of net malloc] Cons.prems(2) assms obtain t where
    t: "transfer_step malloc i (Turn net) (s, acc) = Inr (t, acc)" "delivering m0 i h w0 (length nets) (t, acc)" by auto
  with Cons.IH [OF t(2)] Cons.prems(2) show ?case by auto
qed auto

lemma work_bound:
  assumes "session_ok True d q" "transmits d"
  shows "work d q \<le> 2 * length (pending d q)"
proof -
  have each: "length r \<le> length (concat (messages r))" if "list_all (\<lambda>(_, _, bs). bs \<noteq> []) r" for r :: "cell list"
    using that by (induction r) (auto simp: Suc_le_eq simp flip: length_greater_0_conv)
  show ?thesis
  proof (cases q)
    case Nil
    then show ?thesis by (simp add: work_def)
  next
    case (Cons c r)
    obtain a b bs where c: "c = (a, b, bs)" by (cases c)
    have "list_all (\<lambda>(_, _, bs). bs \<noteq> []) r" "bs \<noteq> []" using assms(1) by (auto simp: session_ok_def Cons c)
    moreover have "stx_state (stx d) = STREAM_STATE_SENDING \<longrightarrow> unat (curDataOffset (stx d)) < length bs"
      using assms by (auto simp: session_ok_def transmits_def Cons c first_len_def)
    ultimately show ?thesis using each [of r]
      by (auto simp: work_def pending_def offset_def Cons c Suc_le_eq simp flip: length_greater_0_conv)
  qed
qed

text \<open>
  C1: The TCP client delivers what it accepts, completely and in order. Take a connected session with
  nothing waiting, and any interleaving of task turns and messages (up to 65535 bytes) handed to
  \<open>tcp_client_send\<close>, on a connection that holds, whatever the sockets have room for, however the
  other two sessions behave, and whichever allocations fail. Then nothing faults, what the session has
  written to its socket is a beginning of the concatenation of the messages that were accepted, and
  as many further turns with room in the socket as twice the bytes missing make it equal to them.
\<close>

theorem tcp_client_delivers:
  assumes "malloc_ok malloc" "valid m0 {} s" "i < TCP_CLIENT_MAX_SOCKETS"
    and "state (clientData s ! i) = TCP_CLIENT_STATE_CONNECTION_STABLISHED"
    and "stx_state (stx (clientData s ! i)) = STREAM_STATE_IDLE" "datNode (stx (clientData s ! i)) = None"
    and "h = hSocket (clientData s ! i)" "list_all (transfer_ok h) is"
  shows "\<exists>t acc. run (transfer_step malloc i) is (s, []) = Inr (t, acc) \<and>
    prefix (written i (calls t)) (written i (calls s) @ acc) \<and>
    (\<forall>nets. list_all (\<lambda>net. quiet net \<and> holds_on net h \<and> has_room net h) nets \<and>
        2 * (length (written i (calls s) @ acc) - length (written i (calls t))) \<le> length nets \<longrightarrow>
      (\<exists>u. run (transfer_step malloc i) (map Turn nets) (t, acc) = Inr (u, acc) \<and>
        written i (calls u) = written i (calls s) @ acc))"
proof -
  from assms(2) obtain cs where g: "good m0 {} s cs" by (auto simp: valid_def)
  have "cs ! i = []" using good_pointer [OF g assms(3)] assms(6) by simp
  then have "delivering m0 i h (written i (calls s)) 0 (s, [])"
    using g assms(4,5,7) by (auto simp: delivering_def transmits_def pending_def work_def)
  from transfer_delivers [OF assms(1,3) this assms(8)] obtain t acc k where
    t: "run (transfer_step malloc i) is (s, []) = Inr (t, acc)" "delivering m0 i h (written i (calls s)) k (t, acc)" by blast
  then obtain ct where ct: "good m0 {} t ct" "transmits (clientData t ! i)" "hSocket (clientData t ! i) = h"
    "written i (calls t) @ pending (clientData t ! i) (ct ! i) = written i (calls s) @ acc" by (auto simp: delivering_def)
  have len: "length (pending (clientData t ! i) (ct ! i)) =
      length (written i (calls s) @ acc) - length (written i (calls t))"
    using ct(4) [symmetric] by simp
  have "\<exists>u. run (transfer_step malloc i) (map Turn nets) (t, acc) = Inr (u, acc) \<and>
      written i (calls u) = written i (calls s) @ acc"
    if "list_all (\<lambda>net. quiet net \<and> holds_on net h \<and> has_room net h) nets"
      "2 * (length (written i (calls s) @ acc) - length (written i (calls t))) \<le> length nets" for nets
  proof -
    have "session_ok True (clientData t ! i) (ct ! i)" using goodD(3) [OF ct(1) assms(3)] by simp
    then have "work (clientData t ! i) (ct ! i) \<le> length nets" using work_bound [OF _ ct(2)] that(2) len by fastforce
    then have "delivering m0 i h (written i (calls s)) (length nets) (t, acc)" using ct by (auto simp: delivering_def)
    from drain [OF assms(3) this that(1)] obtain u where
      "run (transfer_step malloc i) (map Turn nets) (t, acc) = Inr (u, acc)" "delivering m0 i h (written i (calls s)) 0 (u, acc)"
      by blast
    then show ?thesis by (auto simp: delivering_def work_def)
  qed
  moreover have "prefix (written i (calls t)) (written i (calls s) @ acc)" unfolding ct(4) [symmetric] by simp
  ultimately show ?thesis using t(1) by blast
qed

definition connected_session :: t_TCP_CLIENT_DATA where
  "connected_session = session_cleared\<lparr>hSocket := 1, state := TCP_CLIENT_STATE_CONNECTION_STABLISHED\<rparr>"

definition one_connected :: tcp_client where
  "one_connected = power_on\<lparr>clientData := [connected_session, session_cleared, session_cleared]\<rparr>"

lemma one_connected_valid: "valid (mem power_on) {} one_connected"
proof -
  have "good (mem power_on) {} one_connected (replicate TCP_CLIENT_MAX_SOCKETS [])"
    using stored_empty [of "mem power_on" 3]
    by (auto simp: good_def one_connected_def connected_session_def session_cleared_def power_on_def TCP_CLIENT_MAX_SOCKETS_def
        session_ok_def unconnected_def connected_def INVALID_SOCKET_def less_Suc_eq numeral_3_eq_3)
  then show ?thesis by (auto simp: valid_def)
qed

theorem tcp_client_delivers_witness:
  "\<exists>t acc. run (transfer_step first_fit 0) [Put [1, 2, 3], Turn demo_net, Put [4], Turn demo_net] (one_connected, []) = Inr (t, acc) \<and>
    prefix (written 0 (calls t)) (written 0 (calls one_connected) @ acc) \<and>
    (\<forall>nets. list_all (\<lambda>net. quiet net \<and> holds_on net 1 \<and> has_room net 1) nets \<and>
        2 * (length (written 0 (calls one_connected) @ acc) - length (written 0 (calls t))) \<le> length nets \<longrightarrow>
      (\<exists>u. run (transfer_step first_fit 0) (map Turn nets) (t, acc) = Inr (u, acc) \<and>
        written 0 (calls u) = written 0 (calls one_connected) @ acc))"
  by (rule tcp_client_delivers [OF _ one_connected_valid])
    (simp_all add: one_connected_def connected_session_def session_cleared_def transfer_ok_def holds_on_def demo_net_def quiet_def
      TCP_CLIENT_MAX_SOCKETS_def)

section \<open>The end of an attempt\<close>

text \<open>The states a session passes through until it is connected or idle again, and those that wait for the timer.\<close>

definition rank :: "t_TCP_CLIENT_STATES \<Rightarrow> nat" where
  "rank st =
     (case st of
        TCP_CLIENT_STATE_IDLE \<Rightarrow> 0
      | TCP_CLIENT_STATE_CONNECTION_STABLISHED \<Rightarrow> 0
      | TCP_CLIENT_STATE_WAIT_FOR_RETRY \<Rightarrow> 1
      | TCP_CLIENT_STATE_CONNECTION_CLOSE \<Rightarrow> 2
      | TCP_CLIENT_STATE_DNS_TIMEOUT \<Rightarrow> 2
      | TCP_CLIENT_STATE_DNS_ERROR \<Rightarrow> 2
      | TCP_CLIENT_STATE_CONNECTION_TIMEOUT \<Rightarrow> 3
      | TCP_CLIENT_STATE_CONNECTION_ERROR \<Rightarrow> 3
      | TCP_CLIENT_STATE_CONNECTION_SSL_NEGOTIATION_WAIT \<Rightarrow> 4
      | TCP_CLIENT_STATE_CONNECTION_WAITING_FOR \<Rightarrow> 5
      | TCP_CLIENT_STATE_CONNECTION_INIT \<Rightarrow> 6
      | TCP_CLIENT_STATE_DNS_WAIT \<Rightarrow> 7
      | TCP_CLIENT_STATE_DNS_RESOLVE_HOST_ADDRESS \<Rightarrow> 8)"

definition stamped :: "t_TCP_CLIENT_STATES \<Rightarrow> bool" where
  "stamped st \<longleftrightarrow> st \<in> {TCP_CLIENT_STATE_CONNECTION_WAITING_FOR, TCP_CLIENT_STATE_CONNECTION_SSL_NEGOTIATION_WAIT,
     TCP_CLIENT_STATE_WAIT_FOR_RETRY}"

text \<open>\<open>net_at T\<close>: the core timer shows the ticks \<open>T\<close>, and the resolver has an answer.\<close>

definition net_at :: "nat \<Rightarrow> network \<Rightarrow> bool" where
  "net_at T net \<longleftrightarrow> quiet net \<and> (\<forall>l. core_timer (net l) = word_of_nat T \<and>
     (\<forall>h a. fst (dns_is_resolved (net l) h a) \<noteq> TCPIP_DNS_RES_PENDING))"

definition moves :: "u32 \<Rightarrow> t_TCP_CLIENT_DATA \<Rightarrow> t_TCP_CLIENT_DATA \<Rightarrow> bool" where
  "moves now d d' \<longleftrightarrow>
     (rank (state d') < rank (state d) \<and> (stamped (state d') \<longrightarrow> timeout d' = now)) \<or>
     (d' = d \<and> stamped (state d) \<and> (now - timeout d) div 100000 \<le> 20000)"

lemma timeout_setters [simp]: "timeout (set_stx x d) = timeout d" "timeout (set_datNode p d) = timeout d"
  by (simp_all add: set_stx_def set_datNode_def)

lemma turn_moves:
  assumes net: "net_at T net" and g: "good m0 {} s cs" and i: "i < TCP_CLIENT_MAX_SOCKETS"
    and r: "rank (state (clientData s ! i)) > 0" and t: "session_task malloc net i s = Inr t"
  shows "moves (word_of_nat T) (clientData s ! i) (clientData t ! i)"
proof -
  let ?d = "clientData s ! i"
  have l: "length (clientData s) = TCP_CLIENT_MAX_SOCKETS" using g goodD by simp
  then have li: "i < length (clientData s)" using i by simp
  note q = net [unfolded net_at_def, THEN conjunct1]
  have now: "core_timer (net l) = word_of_nat T" for l using net by (simp add: net_at_def)
  have calm_cb: "\<exists>u. call_back malloc net i e s' = Inr u \<and> clientData u = clientData s'" if "length (clientData s') = TCP_CLIENT_MAX_SOCKETS" for e s'
    using call_back_quiet [OF q that i, of malloc e] by auto
  note task = t [unfolded session_task_def session_in [OF l i] seq_Inr]
  note defs = moves_def rank_def stamped_def
  have retry: "moves (word_of_nat T) ?d (clientData t ! i)"
    if "case_report_retry malloc net e i s' = Inr t" "clientData s' = (clientData s)[i := d']" "rank (state ?d) > 1" for e s' d'
  proof -
    have "length (clientData s') = TCP_CLIENT_MAX_SOCKETS" using that(2) l by simp
    then obtain u where "call_back malloc net i e s' = Inr u" "clientData u = clientData s'" using calm_cb by blast
    then have "t = wait_for_retry net i u" "clientData u = (clientData s)[i := d']"
      using that(1,2) by (simp_all add: case_report_retry_def)
    then show ?thesis using that(3) li now by (simp add: wait_for_retry_def moves_def rank_def)
  qed
  have close: "moves (word_of_nat T) ?d (clientData t ! i)"
    if "case_report_close malloc net e i s = Inr t" "rank (state ?d) > 2" for e
  proof -
    obtain u where "call_back malloc net i e s = Inr u" "clientData u = clientData s" using calm_cb [OF l] by blast
    then have "t = upd i (set_state TCP_CLIENT_STATE_CONNECTION_CLOSE) u" "clientData u = clientData s"
      using that(1) by (simp_all add: case_report_close_def)
    then show ?thesis using that(2) li by (simp add: defs)
  qed
  have est: "moves (word_of_nat T) ?d (clientData t ! i)"
    if "established malloc net i s' = Inr t" "clientData s' = (clientData s)[i := d']" "rank (state ?d) > 0" for s' d'
  proof -
    have "length (clientData (upd i (set_state TCP_CLIENT_STATE_CONNECTION_STABLISHED) s')) = TCP_CLIENT_MAX_SOCKETS"
      using that(2) l by simp
    then obtain u where "call_back malloc net i CLIENT_EVENT_CONNECTED (upd i (set_state TCP_CLIENT_STATE_CONNECTION_STABLISHED) s') = Inr u"
      "clientData u = clientData (upd i (set_state TCP_CLIENT_STATE_CONNECTION_STABLISHED) s')" using calm_cb by blast
    then show ?thesis using that li by (simp add: established_def defs)
  qed
  have le: "x \<le> 20000" if "x \<le> 5000" for x :: u32 using that by (rule order_trans) simp
  have late: "moves (word_of_nat T) ?d (clientData t ! i)"
    if "t = connection_timed_out net i ?d s" "rank (state ?d) > 3" "stamped (state ?d)"
    using that li now by (auto simp: connection_timed_out_def elapsed_ms_def defs not_less)
  show ?thesis
  proof (cases "state ?d")
    case TCP_CLIENT_STATE_DNS_RESOLVE_HOST_ADDRESS
    then show ?thesis using task li by (auto simp: case_DNS_RESOLVE_def Let_def defs split: if_splits)
  next
    case TCP_CLIENT_STATE_DNS_WAIT
    then show ?thesis using task li net
      by (auto simp: case_DNS_WAIT_def Let_def defs net_at_def split: prod.splits if_splits)
        (metis fst_conv)+
  next
    case TCP_CLIENT_STATE_DNS_TIMEOUT
    then show ?thesis using task retry [of CLIENT_EVENT_TIMEOUT s ?d] by (simp add: rank_def)
  next
    case TCP_CLIENT_STATE_DNS_ERROR
    then show ?thesis using task retry [of CLIENT_EVENT_ERROR s ?d] by (simp add: rank_def)
  next
    case TCP_CLIENT_STATE_CONNECTION_INIT
    then show ?thesis
      using task li now
      by (auto simp: case_CONNECTION_INIT_def Let_def rank_def intro: retry split: if_splits) (simp_all add: defs)
  next
    case TCP_CLIENT_STATE_CONNECTION_WAITING_FOR
    then show ?thesis
      using task li now late est [of "upd i (set_stx STREAM_STATE_IDLE) s"]
      by (auto simp: case_CONNECTION_WAITING_FOR_def Let_def rank_def stamped_def split: if_splits) (simp_all add: defs)
  next
    case TCP_CLIENT_STATE_CONNECTION_SSL_NEGOTIATION_WAIT
    then show ?thesis
      using task li late est [of s ?d]
      by (auto simp: case_SSL_NEGOTIATION_WAIT_def rank_def stamped_def split: if_splits) (simp_all add: defs)
  next
    case TCP_CLIENT_STATE_CONNECTION_CLOSE
    then show ?thesis using task li now
      by (auto simp: case_CONNECTION_CLOSE_def Let_def wait_for_retry_def defs seq_eq_Inr_iff)
  next
    case TCP_CLIENT_STATE_WAIT_FOR_RETRY
    then show ?thesis using task li now
      by (auto simp: case_WAIT_FOR_RETRY_def elapsed_ms_def defs not_less dest: le split: if_splits)
  qed (use task r close in \<open>simp_all add: rank_def\<close>)
qed

text \<open>A schedule of polls from the time \<open>T\<close> on: the ticks of each poll, at most \<open>G\<close> apart.\<close>

fun paced :: "nat \<Rightarrow> nat \<Rightarrow> (nat \<times> network) list \<Rightarrow> bool" where
  "paced G T [] \<longleftrightarrow> True"
| "paced G T ((T', net) # sch) \<longleftrightarrow> T \<le> T' \<and> T' \<le> T + G \<and> net_at T' net \<and> paced G T' sch"

definition polls :: "list_block malloc \<Rightarrow> (nat \<times> network) list \<Rightarrow> tcp_client \<Rightarrow> tcp_client outcome" where
  "polls malloc = run (\<lambda>(_, net). tcp_client_task malloc net)"

text \<open>20 s and a millisecond, in ticks.\<close>

definition patience :: nat where
  "patience = 20001 * 100000"

lemma poll_moves:
  assumes net: "net_at T net" and g: "good m0 {} s cs" and i: "i < TCP_CLIENT_MAX_SOCKETS"
    and r: "rank (state (clientData s ! i)) > 0"
  shows "\<exists>t cs'. tcp_client_task malloc net s = Inr t \<and> good m0 {} t cs' \<and>
    moves (word_of_nat T) (clientData s ! i) (clientData t ! i)"
proof -
  note q = net [unfolded net_at_def, THEN conjunct1]
  note split = split_indices [OF i]
  from run_others [OF q g, where i = i and js = "[0..<i]" and malloc = malloc] i obtain s1 c1 where
    1: "run (session_task malloc net) [0..<i] s = Inr s1" "good m0 {} s1 c1" "clientData s1 ! i = clientData s ! i"
    by (auto simp: list_all_iff)
  from quiet_sessions.task_keeps [OF q 1(2) i, of malloc] obtain s2 c2 where
    2: "session_task malloc net i s1 = Inr s2" "good m0 {} s2 c2" by (auto simp: keeps_def)
  from run_others [OF q 2(2), where i = i and js = "[Suc i..<TCP_CLIENT_MAX_SOCKETS]" and malloc = malloc] obtain s3 c3 where
    3: "run (session_task malloc net) [Suc i..<TCP_CLIENT_MAX_SOCKETS] s2 = Inr s3" "good m0 {} s3 c3"
      "clientData s3 ! i = clientData s2 ! i"
    by (auto simp: list_all_iff)
  have "tcp_client_task malloc net s = Inr s3"
    unfolding tcp_client_task_def split using 1(1) 2(1) 3(1) by (simp add: run_append)
  moreover have "moves (word_of_nat T) (clientData s ! i) (clientData s3 ! i)"
    using turn_moves [OF net 1(2) i _ 2(1)] 1(3) 3(3) r by simp
  ultimately show ?thesis using 3(2) by blast
qed

lemma not_expired:
  assumes "S \<le> T" "T - S < 2 ^ 32" "(word_of_nat T - word_of_nat S :: u32) div 100000 \<le> 20000"
  shows "T < S + patience"
proof -
  have "(word_of_nat T - word_of_nat S :: u32) = word_of_nat (T - S)" using assms(1) by (simp add: of_nat_diff)
  moreover have "unat (word_of_nat (T - S) :: u32) = T - S" using assms(2) by (intro of_nat_inverse [OF refl]) simp
  ultimately have "(T - S) div 100000 \<le> 20000" using assms(3) by (simp add: word_le_nat_alt unat_div)
  then show ?thesis using assms(1) by (simp add: patience_def)
qed

lemma attempt_ends_from:
  assumes i: "i < TCP_CLIENT_MAX_SOCKETS" and G: "G \<le> 2 ^ 31"
  shows "good m0 {} s cs \<Longrightarrow> (stamped (state (clientData s ! i)) \<Longrightarrow> timeout (clientData s ! i) = word_of_nat S) \<Longrightarrow>
    S \<le> T \<Longrightarrow> T < S + patience \<Longrightarrow> paced G T sch \<Longrightarrow>
    S + rank (state (clientData s ! i)) * (patience + G) \<le> last (T # map fst sch) \<Longrightarrow>
    \<exists>k t. k \<le> length sch \<and> polls malloc (take k sch) s = Inr t \<and> rank (state (clientData t ! i)) = 0"
proof (induction sch arbitrary: s cs S T)
  case Nil
  then have "rank (state (clientData s ! i)) = 0"
    by (cases "rank (state (clientData s ! i))") (auto simp: patience_def)
  then show ?case by (intro exI [of _ 0] exI [of _ s]) (simp add: polls_def)
next
  case (Cons e sch)
  obtain T' net where e: "e = (T', net)" by (cases e)
  have p: "T \<le> T'" "T' \<le> T + G" "net_at T' net" "paced G T' sch" using Cons.prems(5) by (simp_all add: e)
  let ?r = "rank (state (clientData s ! i))"
  show ?case
  proof (cases "?r = 0")
    case True
    then show ?thesis by (intro exI [of _ 0] exI [of _ s]) (simp add: polls_def)
  next
    case False
    from poll_moves [OF p(3) Cons.prems(1) i, of malloc] False obtain t ct where
      t: "tcp_client_task malloc net s = Inr t" "good m0 {} t ct"
        "moves (word_of_nat T') (clientData s ! i) (clientData t ! i)" by auto
    have last: "last (T # map fst (e # sch)) = last (T' # map fst sch)" by (simp add: e)
    have "\<exists>S'. (stamped (state (clientData t ! i)) \<longrightarrow> timeout (clientData t ! i) = word_of_nat S') \<and> S' \<le> T' \<and> T' < S' + patience \<and>
        S' + rank (state (clientData t ! i)) * (patience + G) \<le> last (T' # map fst sch)"
    proof (cases "rank (state (clientData t ! i)) < ?r")
      case True
      then have "Suc (rank (state (clientData t ! i))) * (patience + G) \<le> ?r * (patience + G)" by (intro mult_right_mono) simp_all
      moreover have "T' \<le> S + (patience + G)" using p(2) Cons.prems(4) by simp
      ultimately have "T' + rank (state (clientData t ! i)) * (patience + G) \<le> last (T' # map fst sch)"
        using Cons.prems(6) last by simp
      moreover have "stamped (state (clientData t ! i)) \<longrightarrow> timeout (clientData t ! i) = word_of_nat T'"
        using t(3) True by (auto simp: moves_def)
      ultimately show ?thesis by (intro exI [of _ T']) (simp add: patience_def)
    next
      case False
      with t(3) have m: "clientData t ! i = clientData s ! i" "stamped (state (clientData s ! i))"
        "(word_of_nat T' - timeout (clientData s ! i)) div 100000 \<le> 20000" by (auto simp: moves_def)
      have "T' - S < 2 ^ 32" using p(2) Cons.prems(4) G by (simp add: patience_def)
      then have "T' < S + patience"
        using m(3) Cons.prems(2) [OF m(2)] Cons.prems(3) p(1) by (intro not_expired) simp_all
      then show ?thesis using Cons.prems(2) [OF m(2)] Cons.prems(3,6) p(1) m(1) last by (intro exI [of _ S]) simp
    qed
    then obtain S' where S': "stamped (state (clientData t ! i)) \<Longrightarrow> timeout (clientData t ! i) = word_of_nat S'" "S' \<le> T'"
      "T' < S' + patience" "S' + rank (state (clientData t ! i)) * (patience + G) \<le> last (T' # map fst sch)" by blast
    from Cons.IH [OF t(2) S'(1-3) p(4) S'(4)] obtain k u where
      k: "k \<le> length sch" "polls malloc (take k sch) t = Inr u" "rank (state (clientData u ! i)) = 0" by blast
    then show ?thesis using t(1) by (intro exI [of _ "Suc k"] exI [of _ u]) (simp add: polls_def e)
  qed
qed


definition dead_net :: "nat \<Rightarrow> network" where
  "dead_net T l = (demo_net l)\<lparr>core_timer := word_of_nat T, is_connected := (\<lambda>_. False)\<rparr>"

definition just_opened :: tcp_client where
  "just_opened = power_on\<lparr>clientData := [session_cleared\<lparr>state := TCP_CLIENT_STATE_CONNECTION_INIT\<rparr>, session_cleared, session_cleared]\<rparr>"

lemma just_opened_valid: "valid (mem power_on) {} just_opened"
proof -
  have "good (mem power_on) {} just_opened (replicate TCP_CLIENT_MAX_SOCKETS [])"
    using stored_empty [of "mem power_on" 3]
    by (auto simp: good_def just_opened_def session_cleared_def power_on_def TCP_CLIENT_MAX_SOCKETS_def
        session_ok_def unconnected_def connected_def INVALID_SOCKET_def less_Suc_eq numeral_3_eq_3)
  then show ?thesis by (auto simp: valid_def)
qed

lemma net_at_dead_net [simp]: "net_at T (dead_net T)"
  by (simp add: net_at_def quiet_def dead_net_def demo_net_def TCPIP_DNS_RES_PENDING_def)


end
