(* ===== verification/Sst26.thy ===== *)
theory Sst26
  imports Prelude
begin

unbundle bit_operations_syntax

text \<open>
  The driver of the two SST26 serial flash memories (\<open>drv/drv_sst26.c\<close>, \<open>drv_sst26.h\<close>). The driver
  writes commands and buffer descriptors into its static memory and starts the DMA engine of the
  SQI controller, whose interrupt says that the transfer is complete. The hardware is modelled as
  far as the driver sees it: the engine walks the chain of descriptors from the one it was started
  with (\<open>dma_walk\<close>) and puts a segment on the bus for each, which is logged; what the flash memories
  answer to the segments so far is a parameter (\<open>flash_bus\<close>).
\<close>

section \<open>Data\<close>

text \<open>The fields of \<open>bd_ctrl\<close> (\<open>plib_sqi_common.h\<close>).\<close>

definition SQI_BDCTRL_PKTINTEN :: u32 where "SQI_BDCTRL_PKTINTEN = 0x00020000"
definition SQI_BDCTRL_LASTPKT :: u32 where "SQI_BDCTRL_LASTPKT = 0x00040000"
definition SQI_BDCTRL_LASTBD :: u32 where "SQI_BDCTRL_LASTBD = 0x00080000"
definition SQI_BDCTRL_DIR_READ :: u32 where "SQI_BDCTRL_DIR_READ = 0x00100000"
definition SQI_BDCTRL_MODE_QUAD_LANE :: u32 where "SQI_BDCTRL_MODE_QUAD_LANE = 0x00800000"
definition SQI_BDCTRL_SCHECK :: u32 where "SQI_BDCTRL_SCHECK = 0x08000000"
definition SQI_BDCTRL_SQICS_CS0 :: u32 where "SQI_BDCTRL_SQICS_CS0 = 0x00000000"
definition SQI_BDCTRL_SQICS_CS1 :: u32 where "SQI_BDCTRL_SQICS_CS1 = 0x10000000"
definition SQI_BDCTRL_DEASSERT :: u32 where "SQI_BDCTRL_DEASSERT = 0x40000000"
definition SQI_BDCTRL_DESCEN :: u32 where "SQI_BDCTRL_DESCEN = 0x80000000"

definition SQI_BDCTRL_BUFFLEN_VAL :: "u32 \<Rightarrow> u32" where "SQI_BDCTRL_BUFFLEN_VAL v = push_bit 0 v"

named_theorems sqi_bits "the control bits of the buffer descriptors"

lemmas [sqi_bits] = SQI_BDCTRL_PKTINTEN_def SQI_BDCTRL_LASTPKT_def SQI_BDCTRL_LASTBD_def SQI_BDCTRL_DIR_READ_def
  SQI_BDCTRL_MODE_QUAD_LANE_def SQI_BDCTRL_SCHECK_def SQI_BDCTRL_SQICS_CS0_def SQI_BDCTRL_SQICS_CS1_def
  SQI_BDCTRL_DEASSERT_def SQI_BDCTRL_DESCEN_def SQI_BDCTRL_BUFFLEN_VAL_def

definition DRV_SST26_MAX_HANDLES :: nat where "DRV_SST26_MAX_HANDLES = 2"
definition SQI_INVALID_CS_VALUE :: u32 where "SQI_INVALID_CS_VALUE = 0xAA"
definition DRV_SST26_START_ADDRESS :: u32 where "DRV_SST26_START_ADDRESS = 0"
definition DRV_SST26_PAGE_SIZE :: u32 where "DRV_SST26_PAGE_SIZE = 256"
definition DRV_SST26_ERASE_BUFFER_SIZE :: u32 where "DRV_SST26_ERASE_BUFFER_SIZE = 4096"
definition CMD_BUFFER_MAX_LENGTH :: nat where "CMD_BUFFER_MAX_LENGTH = 7"
definition CMD_DESC_NUMBER :: nat where "CMD_DESC_NUMBER = 5"
definition BUFF_DESC_NUMBER :: nat where "BUFF_DESC_NUMBER = 32"
definition DUMMY_BYTE :: u8 where "DUMMY_BYTE = 0xFF"
definition JEDEC_ID_SIZE :: nat where "JEDEC_ID_SIZE = 4"
definition SECURITY_ID_SIZE :: nat where "SECURITY_ID_SIZE = 8"
definition SYS_STATUS_READY :: int where "SYS_STATUS_READY = 2"
definition DRV_HANDLE_INVALID :: u32 where "DRV_HANDLE_INVALID = - 1"

definition SST26_CMD_FLASH_RESET_ENABLE :: u8 where "SST26_CMD_FLASH_RESET_ENABLE = 0x66"
definition SST26_CMD_FLASH_RESET :: u8 where "SST26_CMD_FLASH_RESET = 0x99"
definition SST26_CMD_ENABLE_QUAD_IO :: u8 where "SST26_CMD_ENABLE_QUAD_IO = 0x38"
definition SST26_CMD_QUAD_JEDEC_ID_READ :: u8 where "SST26_CMD_QUAD_JEDEC_ID_READ = 0xAF"
definition SST26_CMD_HIGH_SPEED_READ :: u8 where "SST26_CMD_HIGH_SPEED_READ = 0x0B"
definition SST26_CMD_WRITE_ENABLE :: u8 where "SST26_CMD_WRITE_ENABLE = 0x06"
definition SST26_CMD_PAGE_PROGRAM :: u8 where "SST26_CMD_PAGE_PROGRAM = 0x02"
definition SST26_CMD_READ_STATUS_REG :: u8 where "SST26_CMD_READ_STATUS_REG = 0x05"
definition SST26_CMD_SECTOR_ERASE :: u8 where "SST26_CMD_SECTOR_ERASE = 0x20"
definition SST26_CMD_BULK_ERASE_64K :: u8 where "SST26_CMD_BULK_ERASE_64K = 0xD8"
definition SST26_CMD_CHIP_ERASE :: u8 where "SST26_CMD_CHIP_ERASE = 0xC7"
definition SST26_CMD_UNPROTECT_GLOBAL :: u8 where "SST26_CMD_UNPROTECT_GLOBAL = 0x98"
definition SST26_CMD_SECURITY_ID_READ :: u8 where "SST26_CMD_SECURITY_ID_READ = 0x88"

named_theorems sst26_consts "sizes and command codes of the flash driver"

lemmas [sst26_consts] = DRV_SST26_MAX_HANDLES_def DRV_SST26_START_ADDRESS_def DRV_SST26_PAGE_SIZE_def
  DRV_SST26_ERASE_BUFFER_SIZE_def CMD_BUFFER_MAX_LENGTH_def CMD_DESC_NUMBER_def BUFF_DESC_NUMBER_def
  JEDEC_ID_SIZE_def SECURITY_ID_SIZE_def DUMMY_BYTE_def

datatype DRV_SST26_OPERATION_TYPE =
    DRV_SST26_OPERATION_TYPE_NONE | DRV_SST26_OPERATION_TYPE_CMD | DRV_SST26_OPERATION_TYPE_READ
  | DRV_SST26_OPERATION_TYPE_WRITE | DRV_SST26_OPERATION_TYPE_ERASE

datatype DRV_SST26_TRANSFER_STATUS =
    DRV_SST26_TRANSFER_BUSY | DRV_SST26_TRANSFER_COMPLETED | DRV_SST26_TRANSFER_ERROR_UNKNOWN

record t_JEDEC =
  jedec_id :: u8
  minorRevisionNumber :: u8
  majorRevisionNumber :: u8
  tableLength :: u8

record DRV_SST26_GEOMETRY =
  read_blockSize :: u32
  read_numBlocks :: u32
  numReadRegions :: u32
  write_blockSize :: u32
  write_numBlocks :: u32
  numWriteRegions :: u32
  erase_blockSize :: u32
  erase_numBlocks :: u32
  numEraseRegions :: u32
  blockStartAddress :: u32

record HANDLE_DATA =
  opened :: bool
  cs :: u32
  jedecId :: t_JEDEC
  geometry :: DRV_SST26_GEOMETRY
  securityId :: "64 word"

text \<open>
  The places a descriptor can point to: the static buffers of the driver, which it always names by
  their first byte, and memory of the client.
\<close>

datatype dma_buffer = No_Buffer | Sqi_Cmd | Sqi_Cmd_Wren | Status_Reg_Val | Jedec_ID | Security_ID | Client nat

datatype desc_ref = Cmd_Desc nat | Buf_Desc nat

record sqi_dma_desc_t =
  bd_ctrl :: u32
  bd_stat :: u32
  bd_bufaddr :: dma_buffer
  bd_nxtptr :: "desc_ref option"

text \<open>What passes over the bus for a descriptor: bytes sent, or a number of bytes received.\<close>

datatype segment = Out u32 "u8 list" | In u32 nat

text \<open>
  \<open>dma\<close> is the descriptor the engine was started with, while the transfer is under way; \<open>ram\<close> is the
  memory of the clients, \<open>callback\<close> whether the interrupt handler of the driver is registered.
\<close>

record sst26 =
  initialized :: bool
  isTransferDone :: bool
  status :: int
  curOpType :: DRV_SST26_OPERATION_TYPE
  handle :: "HANDLE_DATA list"
  sqiCmdDesc :: "sqi_dma_desc_t list"
  sqiBufDesc :: "sqi_dma_desc_t list"
  statusRegVal :: u8
  jedecID :: "u8 list"
  securityID :: "u8 list"
  sqi_cmd_wren :: u8
  sqi_cmd :: "u8 list"
  callback :: bool
  ram :: "nat \<Rightarrow> u8"
  dma :: "desc_ref option"
  wire :: "segment list"

text \<open>After the segments so far, the bytes that are received next.\<close>

type_synonym flash_bus = "segment list \<Rightarrow> nat \<Rightarrow> u8"

section \<open>The SQI controller\<close>

definition descriptor :: "desc_ref \<Rightarrow> sst26 \<Rightarrow> sqi_dma_desc_t outcome" where
  "descriptor r s = (case r of Cmd_Desc i \<Rightarrow> rd (sqiCmdDesc s) i | Buf_Desc i \<Rightarrow> rd (sqiBufDesc s) i)"

definition flag :: "u32 \<Rightarrow> sqi_dma_desc_t \<Rightarrow> bool" where
  "flag m d \<longleftrightarrow> bd_ctrl d AND m \<noteq> 0"

definition bufflen :: "sqi_dma_desc_t \<Rightarrow> nat" where
  "bufflen d = unat (bd_ctrl d AND 0xFFFF)"

text \<open>The memory behind a buffer, for sending and for receiving \<open>n\<close> bytes.\<close>

definition static_bytes :: "dma_buffer \<Rightarrow> sst26 \<Rightarrow> u8 list" where
  "static_bytes b s =
     (case b of Sqi_Cmd \<Rightarrow> sqi_cmd s | Sqi_Cmd_Wren \<Rightarrow> [sqi_cmd_wren s] | Status_Reg_Val \<Rightarrow> [statusRegVal s]
      | Jedec_ID \<Rightarrow> jedecID s | Security_ID \<Rightarrow> securityID s | No_Buffer \<Rightarrow> [] | Client a \<Rightarrow> [])"

definition dma_load :: "dma_buffer \<Rightarrow> nat \<Rightarrow> sst26 \<Rightarrow> u8 list outcome" where
  "dma_load b n s =
     (case b of
        Client a \<Rightarrow> Inr (map (ram s) [a..<a + n])
      | No_Buffer \<Rightarrow> Inl Null_Deref
      | _ \<Rightarrow> if n \<le> length (static_bytes b s) then Inr (take n (static_bytes b s)) else Inl Out_Of_Bounds)"

definition ram_write :: "nat \<Rightarrow> u8 list \<Rightarrow> (nat \<Rightarrow> u8) \<Rightarrow> nat \<Rightarrow> u8" where
  "ram_write a bs m = (\<lambda>x. if a \<le> x \<and> x < a + length bs then bs ! (x - a) else m x)"

definition dma_store :: "dma_buffer \<Rightarrow> u8 list \<Rightarrow> sst26 \<Rightarrow> sst26 outcome" where
  "dma_store b bs s =
     (let over = bs @ drop (length bs) (static_bytes b s) in
      case b of
        Client a \<Rightarrow> Inr (s\<lparr>ram := ram_write a bs (ram s)\<rparr>)
      | No_Buffer \<Rightarrow> Inl Null_Deref
      | _ \<Rightarrow>
        if length bs \<le> length (static_bytes b s)
        then Inr (case b of
               Sqi_Cmd \<Rightarrow> s\<lparr>sqi_cmd := over\<rparr>
             | Sqi_Cmd_Wren \<Rightarrow> s\<lparr>sqi_cmd_wren := hd over\<rparr>
             | Status_Reg_Val \<Rightarrow> s\<lparr>statusRegVal := hd over\<rparr>
             | Jedec_ID \<Rightarrow> s\<lparr>jedecID := over\<rparr>
             | _ \<Rightarrow> s\<lparr>securityID := over\<rparr>)
        else Inl Out_Of_Bounds)"

definition dma_segment :: "flash_bus \<Rightarrow> sqi_dma_desc_t \<Rightarrow> sst26 \<Rightarrow> sst26 outcome" where
  "dma_segment bus d s =
     (if flag SQI_BDCTRL_DIR_READ d
      then seq (dma_store (bd_bufaddr d) (map (bus (wire s)) [0..<bufflen d]) s) (\<lambda>s.
           Inr (s\<lparr>wire := wire s @ [In (bd_ctrl d) (bufflen d)]\<rparr>))
      else seq (dma_load (bd_bufaddr d) (bufflen d) s) (\<lambda>bs.
           Inr (s\<lparr>wire := wire s @ [Out (bd_ctrl d) bs]\<rparr>)))"

text \<open>
  The chain. An engine that comes to a disabled descriptor, or into a loop, never completes; a chain
  that visits more descriptors than there are is a loop.
\<close>

fun dma_walk :: "flash_bus \<Rightarrow> nat \<Rightarrow> desc_ref \<Rightarrow> sst26 \<Rightarrow> sst26 outcome" where
  "dma_walk bus 0 r s = Inl Diverges"
| "dma_walk bus (Suc n) r s =
     seq (descriptor r s) (\<lambda>d.
     if flag SQI_BDCTRL_DESCEN d
     then seq (dma_segment bus d s) (\<lambda>s.
          if flag SQI_BDCTRL_LASTBD d then Inr s
          else case bd_nxtptr d of None \<Rightarrow> Inl Null_Deref | Some r \<Rightarrow> dma_walk bus n r s)
     else Inl Diverges)"

definition DMATransfer :: "desc_ref \<Rightarrow> sst26 \<Rightarrow> sst26 outcome" where
  "DMATransfer r s = (if dma s = None then Inr (s\<lparr>dma := Some r\<rparr>) else Inl Dma_Busy)"

definition event_handler :: "sst26 \<Rightarrow> sst26" where
  "event_handler s = s\<lparr>isTransferDone := True\<rparr>"

text \<open>The transfer under way completes and its interrupt calls the driver.\<close>

definition sqi_interrupt :: "flash_bus \<Rightarrow> sst26 \<Rightarrow> sst26 outcome" where
  "sqi_interrupt bus s =
     (case dma s of
        None \<Rightarrow> Inr s
      | Some r \<Rightarrow>
        seq (dma_walk bus (CMD_DESC_NUMBER + BUFF_DESC_NUMBER) r s) (\<lambda>s.
        let s = s\<lparr>dma := None\<rparr> in Inr (if callback s then event_handler s else s)))"

text \<open>\<open>while (drvData.isTransferDone == false)\<close>: it ends with the interrupt, or never.\<close>

definition wait :: "flash_bus \<Rightarrow> sst26 \<Rightarrow> sst26 outcome" where
  "wait bus s =
     (if isTransferDone s then Inr s
      else seq (sqi_interrupt bus s) (\<lambda>s. if isTransferDone s then Inr s else Inl Diverges))"

section \<open>Local functions\<close>

definition zero_jedec :: t_JEDEC where
  "zero_jedec = \<lparr>jedec_id = 0, minorRevisionNumber = 0, majorRevisionNumber = 0, tableLength = 0\<rparr>"

definition zero_geometry :: DRV_SST26_GEOMETRY where
  "zero_geometry = \<lparr>read_blockSize = 0, read_numBlocks = 0, numReadRegions = 0, write_blockSize = 0,
     write_numBlocks = 0, numWriteRegions = 0, erase_blockSize = 0, erase_numBlocks = 0, numEraseRegions = 0,
     blockStartAddress = 0\<rparr>"

definition init_handle_data :: HANDLE_DATA where
  "init_handle_data = \<lparr>opened = False, cs = SQI_INVALID_CS_VALUE, jedecId = zero_jedec, geometry = zero_geometry,
     securityId = 0\<rparr>"

definition gSstFlashIdSizeTable :: "(u8 \<times> u32) list" where
  "gSstFlashIdSizeTable = [(0x01, 0x200000), (0x41, 0x200000), (0x02, 0x400000), (0x42, 0x400000), (0x43, 0x800000)]"

definition get_flash_size :: "u8 \<Rightarrow> u32" where
  "get_flash_size deviceId =
     (case find (\<lambda>e. fst e = deviceId) gSstFlashIdSizeTable of Some e \<Rightarrow> snd e | None \<Rightarrow> 0)"

definition upd_handle :: "nat \<Rightarrow> (HANDLE_DATA \<Rightarrow> HANDLE_DATA) \<Rightarrow> sst26 \<Rightarrow> sst26" where
  "upd_handle i f s = s\<lparr>handle := (handle s)[i := f (handle s ! i)]\<rparr>"

text \<open>\<open>sqi_cmd[0] = \<dots>; sqi_cmd[1] = \<dots>\<close>, and the four assignments that fill a descriptor.\<close>

definition put_cmd :: "u8 list \<Rightarrow> sst26 \<Rightarrow> sst26" where
  "put_cmd bs s = s\<lparr>sqi_cmd := bs @ drop (length bs) (sqi_cmd s)\<rparr>"

definition put_cmd_desc :: "nat \<Rightarrow> u32 \<Rightarrow> dma_buffer \<Rightarrow> desc_ref option \<Rightarrow> sst26 \<Rightarrow> sst26" where
  "put_cmd_desc i c b r s =
     s\<lparr>sqiCmdDesc := (sqiCmdDesc s)[i := \<lparr>bd_ctrl = c, bd_stat = 0, bd_bufaddr = b, bd_nxtptr = r\<rparr>]\<rparr>"

definition put_buf_desc :: "nat \<Rightarrow> u32 \<Rightarrow> dma_buffer \<Rightarrow> desc_ref option \<Rightarrow> sst26 \<Rightarrow> sst26" where
  "put_buf_desc i c b r s =
     s\<lparr>sqiBufDesc := (sqiBufDesc s)[i := \<lparr>bd_ctrl = c, bd_stat = 0, bd_bufaddr = b, bd_nxtptr = r\<rparr>]\<rparr>"

definition begin_op :: "DRV_SST26_OPERATION_TYPE \<Rightarrow> sst26 \<Rightarrow> sst26" where
  "begin_op t s = s\<lparr>isTransferDone := False, curOpType := t\<rparr>"

definition cs_of :: "nat \<Rightarrow> sst26 \<Rightarrow> u32" where
  "cs_of i s = cs (handle s ! i)"

definition reset_flash :: "flash_bus \<Rightarrow> nat \<Rightarrow> sst26 \<Rightarrow> sst26 outcome" where
  "reset_flash bus i s =
     (let s = begin_op DRV_SST26_OPERATION_TYPE_CMD s;
          s = put_cmd [SST26_CMD_FLASH_RESET_ENABLE] s;
          s = put_cmd_desc 0 (SQI_BDCTRL_BUFFLEN_VAL 1 OR SQI_BDCTRL_PKTINTEN OR SQI_BDCTRL_LASTPKT OR
                SQI_BDCTRL_LASTBD OR cs_of i s OR SQI_BDCTRL_DEASSERT OR SQI_BDCTRL_DESCEN) Sqi_Cmd None s
      in seq (DMATransfer (Cmd_Desc 0) s) (\<lambda>s.
      seq (wait bus s) (\<lambda>s.
      let s = s\<lparr>isTransferDone := False\<rparr>;
          s = put_cmd [SST26_CMD_FLASH_RESET] s;
          s = put_cmd_desc 1 (SQI_BDCTRL_BUFFLEN_VAL 1 OR SQI_BDCTRL_PKTINTEN OR SQI_BDCTRL_LASTPKT OR
                SQI_BDCTRL_LASTBD OR cs_of i s OR SQI_BDCTRL_DEASSERT OR SQI_BDCTRL_DESCEN) Sqi_Cmd None s
      in seq (DMATransfer (Cmd_Desc 1) s) (wait bus))))"

definition enable_quad_io :: "flash_bus \<Rightarrow> nat \<Rightarrow> sst26 \<Rightarrow> sst26 outcome" where
  "enable_quad_io bus i s =
     (let s = begin_op DRV_SST26_OPERATION_TYPE_CMD s;
          s = put_cmd [SST26_CMD_ENABLE_QUAD_IO] s;
          s = put_cmd_desc 0 (SQI_BDCTRL_BUFFLEN_VAL 1 OR SQI_BDCTRL_PKTINTEN OR SQI_BDCTRL_LASTPKT OR
                SQI_BDCTRL_LASTBD OR cs_of i s OR SQI_BDCTRL_DEASSERT OR SQI_BDCTRL_DESCEN) Sqi_Cmd None s
      in seq (DMATransfer (Cmd_Desc 0) s) (wait bus))"

definition enable_write :: "nat \<Rightarrow> sst26 \<Rightarrow> sst26" where
  "enable_write i s =
     (let s = s\<lparr>sqi_cmd_wren := SST26_CMD_WRITE_ENABLE\<rparr>
      in put_cmd_desc 0 (SQI_BDCTRL_BUFFLEN_VAL 1 OR SQI_BDCTRL_MODE_QUAD_LANE OR cs_of i s OR
           SQI_BDCTRL_DEASSERT OR SQI_BDCTRL_DESCEN) Sqi_Cmd_Wren (Some (Cmd_Desc 1)) s)"

definition unlock_flash :: "flash_bus \<Rightarrow> nat \<Rightarrow> sst26 \<Rightarrow> sst26 outcome" where
  "unlock_flash bus i s =
     (let s = begin_op DRV_SST26_OPERATION_TYPE_CMD s;
          s = enable_write i s;
          s = put_cmd [SST26_CMD_UNPROTECT_GLOBAL] s;
          s = put_cmd_desc 1 (SQI_BDCTRL_BUFFLEN_VAL 1 OR SQI_BDCTRL_PKTINTEN OR SQI_BDCTRL_LASTPKT OR
                SQI_BDCTRL_LASTBD OR SQI_BDCTRL_MODE_QUAD_LANE OR cs_of i s OR SQI_BDCTRL_DEASSERT OR
                SQI_BDCTRL_DESCEN) Sqi_Cmd None s
      in seq (DMATransfer (Cmd_Desc 0) s) (wait bus))"

text \<open>\<open>erase\<close> is always given \<open>&sqi_cmd[0]\<close> as the instruction.\<close>

definition erase :: "nat \<Rightarrow> dma_buffer \<Rightarrow> u32 \<Rightarrow> sst26 \<Rightarrow> sst26 outcome" where
  "erase i instruction len s =
     (let s = begin_op DRV_SST26_OPERATION_TYPE_ERASE s;
          s = enable_write i s;
          s = put_cmd_desc 1 (SQI_BDCTRL_BUFFLEN_VAL len OR SQI_BDCTRL_PKTINTEN OR SQI_BDCTRL_LASTPKT OR
                SQI_BDCTRL_LASTBD OR SQI_BDCTRL_MODE_QUAD_LANE OR SQI_BDCTRL_SCHECK OR cs_of i s OR
                SQI_BDCTRL_DEASSERT OR SQI_BDCTRL_DESCEN) instruction None s
      in DMATransfer (Cmd_Desc 0) s)"

text \<open>The structure a \<open>memcpy\<close> of the received bytes fills, on a little-endian machine.\<close>

definition jedec_of :: "u8 list \<Rightarrow> t_JEDEC" where
  "jedec_of bs = \<lparr>jedec_id = bs ! 0, minorRevisionNumber = bs ! 1, majorRevisionNumber = bs ! 2, tableLength = bs ! 3\<rparr>"

definition security_of :: "u8 list \<Rightarrow> 64 word" where
  "security_of bs = foldr (\<lambda>b w. ucast b OR push_bit 8 w) bs 0"

definition read_jedec_id :: "flash_bus \<Rightarrow> nat \<Rightarrow> sst26 \<Rightarrow> sst26 outcome" where
  "read_jedec_id bus i s =
     (let s = begin_op DRV_SST26_OPERATION_TYPE_READ s;
          s = put_cmd [SST26_CMD_QUAD_JEDEC_ID_READ, DUMMY_BYTE] s;
          s = put_cmd_desc 0 (SQI_BDCTRL_BUFFLEN_VAL 2 OR SQI_BDCTRL_MODE_QUAD_LANE OR cs_of i s OR
                SQI_BDCTRL_DESCEN) Sqi_Cmd (Some (Buf_Desc 0)) s;
          s = put_buf_desc 0 (SQI_BDCTRL_BUFFLEN_VAL 4 OR SQI_BDCTRL_PKTINTEN OR SQI_BDCTRL_LASTPKT OR
                SQI_BDCTRL_LASTBD OR SQI_BDCTRL_MODE_QUAD_LANE OR SQI_BDCTRL_DIR_READ OR cs_of i s OR
                SQI_BDCTRL_DEASSERT OR SQI_BDCTRL_DESCEN) Jedec_ID None s
      in seq (DMATransfer (Cmd_Desc 0) s) (\<lambda>s.
      seq (wait bus s) (\<lambda>s.
      Inr (upd_handle i (\<lambda>h. h\<lparr>jedecId := jedec_of (jedecID s)\<rparr>) s))))"

definition fill_geometry :: "u32 \<Rightarrow> DRV_SST26_GEOMETRY" where
  "fill_geometry flash_size =
     \<lparr>read_blockSize = 1, read_numBlocks = flash_size, numReadRegions = 1,
      write_blockSize = DRV_SST26_PAGE_SIZE, write_numBlocks = flash_size div DRV_SST26_PAGE_SIZE, numWriteRegions = 1,
      erase_blockSize = DRV_SST26_ERASE_BUFFER_SIZE, erase_numBlocks = flash_size div DRV_SST26_ERASE_BUFFER_SIZE,
      numEraseRegions = 1, blockStartAddress = DRV_SST26_START_ADDRESS\<rparr>"

definition read_security_id :: "flash_bus \<Rightarrow> nat \<Rightarrow> sst26 \<Rightarrow> sst26 outcome" where
  "read_security_id bus i s =
     (let address = 0 :: u32;
          s = begin_op DRV_SST26_OPERATION_TYPE_READ s;
          s = put_cmd [SST26_CMD_SECURITY_ID_READ, ucast (0xFF AND drop_bit 8 address), ucast (0xFF AND address),
                DUMMY_BYTE, DUMMY_BYTE, DUMMY_BYTE] s;
          s = put_cmd_desc 0 (SQI_BDCTRL_BUFFLEN_VAL 6 OR SQI_BDCTRL_MODE_QUAD_LANE OR cs_of i s OR
                SQI_BDCTRL_DESCEN) Sqi_Cmd (Some (Buf_Desc 0)) s;
          s = put_buf_desc 0 (SQI_BDCTRL_BUFFLEN_VAL (of_nat SECURITY_ID_SIZE) OR SQI_BDCTRL_PKTINTEN OR
                SQI_BDCTRL_LASTPKT OR SQI_BDCTRL_LASTBD OR SQI_BDCTRL_MODE_QUAD_LANE OR SQI_BDCTRL_DIR_READ OR
                cs_of i s OR SQI_BDCTRL_DEASSERT OR SQI_BDCTRL_DESCEN) Security_ID None s
      in seq (DMATransfer (Cmd_Desc 0) s) (\<lambda>s.
      seq (wait bus s) (\<lambda>s.
      Inr (upd_handle i (\<lambda>h. h\<lparr>securityId := security_of (securityID s)\<rparr>) s))))"

definition check_handle :: "u32 \<Rightarrow> sst26 \<Rightarrow> bool" where
  "check_handle h s \<longleftrightarrow>
     status s = SYS_STATUS_READY \<and> isTransferDone s \<and> unat h < DRV_SST26_MAX_HANDLES \<and>
     opened (handle s ! unat h)"

section \<open>Interface functions\<close>

definition DRV_SST26_Initialize :: "sst26 \<Rightarrow> int \<times> sst26" where
  "DRV_SST26_Initialize s =
     (if initialized s then (- 1, s)
      else let s = s\<lparr>initialized := True, isTransferDone := True, status := SYS_STATUS_READY,
                 curOpType := DRV_SST26_OPERATION_TYPE_NONE\<rparr>;
               s = fold (\<lambda>i. upd_handle i (\<lambda>_. init_handle_data)) [0..<DRV_SST26_MAX_HANDLES] s;
               s = upd_handle 0 (\<lambda>h. h\<lparr>cs := SQI_BDCTRL_SQICS_CS0\<rparr>) s;
               s = upd_handle 1 (\<lambda>h. h\<lparr>cs := SQI_BDCTRL_SQICS_CS1\<rparr>) s
           in (0, s\<lparr>callback := True\<rparr>))"

definition DRV_SST26_Status :: "sst26 \<Rightarrow> int" where
  "DRV_SST26_Status s = status s"

definition DRV_SST26_UnlockFlash :: "flash_bus \<Rightarrow> u32 \<Rightarrow> sst26 \<Rightarrow> (bool \<times> sst26) outcome" where
  "DRV_SST26_UnlockFlash bus h s =
     (if check_handle h s then seq (unlock_flash bus (unat h) s) (\<lambda>s. Inr (True, s)) else Inr (False, s))"

definition DRV_SST26_read_jedec_id :: "u32 \<Rightarrow> sst26 \<Rightarrow> t_JEDEC option" where
  "DRV_SST26_read_jedec_id h s = (if check_handle h s then Some (jedecId (handle s ! unat h)) else None)"

definition DRV_SST26_get_geometry :: "u32 \<Rightarrow> sst26 \<Rightarrow> DRV_SST26_GEOMETRY option" where
  "DRV_SST26_get_geometry h s = (if check_handle h s then Some (geometry (handle s ! unat h)) else None)"

definition DRV_SST26_read_security_id :: "u32 \<Rightarrow> sst26 \<Rightarrow> 64 word option" where
  "DRV_SST26_read_security_id h s = (if check_handle h s then Some (securityId (handle s ! unat h)) else None)"

text \<open>The client's buffer \<open>rx_data\<close> is an address of its memory.\<close>

definition DRV_SST26_ReadStatus :: "flash_bus \<Rightarrow> u32 \<Rightarrow> nat \<Rightarrow> u32 \<Rightarrow> sst26 \<Rightarrow> (bool \<times> sst26) outcome" where
  "DRV_SST26_ReadStatus bus h rx_data rx_data_length s =
     (if check_handle h s
      then let i = unat h;
               s = s\<lparr>isTransferDone := False\<rparr>;
               s = put_cmd [SST26_CMD_READ_STATUS_REG, DUMMY_BYTE] s;
               s = put_cmd_desc 0 (SQI_BDCTRL_BUFFLEN_VAL 2 OR SQI_BDCTRL_MODE_QUAD_LANE OR cs_of i s OR
                     SQI_BDCTRL_DESCEN) Sqi_Cmd (Some (Buf_Desc 0)) s;
               s = put_buf_desc 0 (SQI_BDCTRL_BUFFLEN_VAL rx_data_length OR SQI_BDCTRL_PKTINTEN OR
                     SQI_BDCTRL_LASTPKT OR SQI_BDCTRL_LASTBD OR SQI_BDCTRL_MODE_QUAD_LANE OR SQI_BDCTRL_DIR_READ OR
                     cs_of i s OR SQI_BDCTRL_DEASSERT OR SQI_BDCTRL_DESCEN) Status_Reg_Val None s;
               s = s\<lparr>curOpType := DRV_SST26_OPERATION_TYPE_READ\<rparr>
           in seq (DMATransfer (Cmd_Desc 0) s) (\<lambda>s.
           seq (wait bus s) (\<lambda>s.
           Inr (True, s\<lparr>ram := ram_write rx_data [statusRegVal s] (ram s)\<rparr>)))
      else Inr (False, s))"

text \<open>What \<open>DRV_SST26_Open\<close> does once the index has been checked.\<close>

definition open_index :: "flash_bus \<Rightarrow> nat \<Rightarrow> sst26 \<Rightarrow> (u32 \<times> sst26) outcome" where
  "open_index bus i s =
     seq (reset_flash bus i (upd_handle i (\<lambda>h. h\<lparr>opened := False\<rparr>) s)) (\<lambda>s.
     seq (enable_quad_io bus i s) (\<lambda>s.
     seq (unlock_flash bus i s) (\<lambda>s.
     seq (read_jedec_id bus i s) (\<lambda>s.
     let flashSize = get_flash_size (majorRevisionNumber (jedecId (handle s ! i))) in
     if flashSize > 0 then
       if DRV_SST26_START_ADDRESS < flashSize then
         let flashSize = flashSize - DRV_SST26_START_ADDRESS in
         if flashSize \<ge> DRV_SST26_ERASE_BUFFER_SIZE then
           seq (read_security_id bus i (upd_handle i (\<lambda>h. h\<lparr>geometry := fill_geometry flashSize\<rparr>) s)) (\<lambda>s.
           Inr (of_nat i, upd_handle i (\<lambda>h. h\<lparr>opened := True\<rparr>) s))
         else Inr (DRV_HANDLE_INVALID, s)
       else Inr (DRV_HANDLE_INVALID, s)
     else Inr (DRV_HANDLE_INVALID, s)))))"

definition DRV_SST26_Open :: "flash_bus \<Rightarrow> int \<Rightarrow> sst26 \<Rightarrow> (u32 \<times> sst26) outcome" where
  "DRV_SST26_Open bus index s =
     (if status s \<noteq> SYS_STATUS_READY then Inr (DRV_HANDLE_INVALID, s)
      else if index = 0 then open_index bus 0 s
      else if index = 1 then open_index bus 1 s
      else Inr (DRV_HANDLE_INVALID, s))"

definition DRV_SST26_Close :: "u32 \<Rightarrow> sst26 \<Rightarrow> sst26" where
  "DRV_SST26_Close h s = (if check_handle h s then upd_handle (unat h) (\<lambda>_. init_handle_data) s else s)"

definition DRV_SST26_TransferStatusGet :: "u32 \<Rightarrow> sst26 \<Rightarrow> DRV_SST26_TRANSFER_STATUS" where
  "DRV_SST26_TransferStatusGet h s =
     (if check_handle h s
      then if isTransferDone s then DRV_SST26_TRANSFER_COMPLETED else DRV_SST26_TRANSFER_BUSY
      else DRV_SST26_TRANSFER_ERROR_UNKNOWN)"

text \<open>The command bytes of an operation at an address.\<close>

definition address_bytes :: "u32 \<Rightarrow> u8 list" where
  "address_bytes address =
     [ucast (0xFF AND drop_bit 16 address), ucast (0xFF AND drop_bit 8 address), ucast (0xFF AND drop_bit 0 address)]"

text \<open>The loop of \<open>DRV_SST26_Read\<close> over the buffer descriptors; it gives the value of \<open>i\<close> behind it.\<close>

function read_descs :: "u32 \<Rightarrow> u32 \<Rightarrow> nat \<Rightarrow> nat \<Rightarrow> sst26 \<Rightarrow> nat \<times> sst26" where
  "read_descs c pendingBytes readBuffer i s =
     (if i < BUFF_DESC_NUMBER
      then let numBytes = (if pendingBytes \<ge> DRV_SST26_PAGE_SIZE then DRV_SST26_PAGE_SIZE else pendingBytes);
               s = put_buf_desc i (SQI_BDCTRL_BUFFLEN_VAL numBytes OR SQI_BDCTRL_PKTINTEN OR
                     SQI_BDCTRL_MODE_QUAD_LANE OR SQI_BDCTRL_DIR_READ OR c OR SQI_BDCTRL_DESCEN)
                     (Client readBuffer) (Some (Buf_Desc (i + 1))) s;
               pendingBytes = pendingBytes - numBytes
           in if pendingBytes = 0 then (i + 1, s)
              else read_descs c pendingBytes (readBuffer + unat numBytes) (i + 1) s
      else (i, s))"
  by pat_completeness auto
termination by (relation "measure (\<lambda>(c, p, b, i, s). BUFF_DESC_NUMBER - i)") auto

declare read_descs.simps [simp del]

definition end_of_chain :: "sqi_dma_desc_t \<Rightarrow> sqi_dma_desc_t" where
  "end_of_chain d =
     d\<lparr>bd_ctrl := bd_ctrl d OR (SQI_BDCTRL_LASTPKT OR SQI_BDCTRL_LASTBD OR SQI_BDCTRL_DEASSERT), bd_nxtptr := None\<rparr>"

definition DRV_SST26_Read :: "u32 \<Rightarrow> nat \<Rightarrow> u32 \<Rightarrow> u32 \<Rightarrow> sst26 \<Rightarrow> (bool \<times> sst26) outcome" where
  "DRV_SST26_Read h rx_data rx_data_length address s =
     (if check_handle h s
      then if rx_data_length > 0 \<or> rx_data_length \<le> DRV_SST26_PAGE_SIZE * of_nat BUFF_DESC_NUMBER
           then let c = cs_of (unat h) s;
                    s = begin_op DRV_SST26_OPERATION_TYPE_READ s;
                    s = put_cmd (SST26_CMD_HIGH_SPEED_READ # address_bytes address @ [DUMMY_BYTE, DUMMY_BYTE, DUMMY_BYTE]) s;
                    s = put_cmd_desc 1 (SQI_BDCTRL_BUFFLEN_VAL 7 OR SQI_BDCTRL_MODE_QUAD_LANE OR c OR
                          SQI_BDCTRL_DESCEN) Sqi_Cmd (Some (Buf_Desc 0)) s;
                    (i, s) = read_descs c rx_data_length rx_data 0 s;
                    s = s\<lparr>sqiBufDesc := (sqiBufDesc s)[i - 1 := end_of_chain (sqiBufDesc s ! (i - 1))]\<rparr>
                in seq (DMATransfer (Cmd_Desc 0) s) (\<lambda>s. Inr (True, s))
           else Inr (False, s)
      else Inr (False, s))"

definition DRV_SST26_PageWrite :: "u32 \<Rightarrow> nat \<Rightarrow> u32 \<Rightarrow> sst26 \<Rightarrow> (bool \<times> sst26) outcome" where
  "DRV_SST26_PageWrite h tx_data address s =
     (if check_handle h s
      then let i = unat h;
               s = begin_op DRV_SST26_OPERATION_TYPE_WRITE s;
               s = enable_write i s;
               s = put_cmd (SST26_CMD_PAGE_PROGRAM # address_bytes address) s;
               s = put_cmd_desc 1 (SQI_BDCTRL_BUFFLEN_VAL 4 OR SQI_BDCTRL_MODE_QUAD_LANE OR cs_of i s OR
                     SQI_BDCTRL_DESCEN) Sqi_Cmd (Some (Buf_Desc 0)) s;
               s = put_buf_desc 0 (SQI_BDCTRL_BUFFLEN_VAL DRV_SST26_PAGE_SIZE OR SQI_BDCTRL_PKTINTEN OR
                     SQI_BDCTRL_LASTPKT OR SQI_BDCTRL_LASTBD OR SQI_BDCTRL_MODE_QUAD_LANE OR SQI_BDCTRL_SCHECK OR
                     cs_of i s OR SQI_BDCTRL_DEASSERT OR SQI_BDCTRL_DESCEN) (Client tx_data) None s
           in seq (DMATransfer (Cmd_Desc 0) s) (\<lambda>s. Inr (True, s))
      else Inr (False, s))"

definition DRV_SST26_SectorErase :: "u32 \<Rightarrow> u32 \<Rightarrow> sst26 \<Rightarrow> (bool \<times> sst26) outcome" where
  "DRV_SST26_SectorErase h address s =
     (if check_handle h s
      then seq (erase (unat h) Sqi_Cmd 4 (put_cmd (SST26_CMD_SECTOR_ERASE # address_bytes address) s)) (\<lambda>s. Inr (True, s))
      else Inr (False, s))"

definition DRV_SST26_BulkErase :: "u32 \<Rightarrow> u32 \<Rightarrow> sst26 \<Rightarrow> (bool \<times> sst26) outcome" where
  "DRV_SST26_BulkErase h address s =
     (if check_handle h s
      then seq (erase (unat h) Sqi_Cmd 4 (put_cmd (SST26_CMD_BULK_ERASE_64K # address_bytes address) s)) (\<lambda>s. Inr (True, s))
      else Inr (False, s))"

definition DRV_SST26_ChipErase :: "u32 \<Rightarrow> sst26 \<Rightarrow> (bool \<times> sst26) outcome" where
  "DRV_SST26_ChipErase h s =
     (if check_handle h s
      then seq (erase (unat h) Sqi_Cmd 1 (put_cmd [SST26_CMD_CHIP_ERASE] s)) (\<lambda>s. Inr (True, s))
      else Inr (False, s))"

text \<open>The static memory at power on.\<close>

definition zero_desc :: sqi_dma_desc_t where
  "zero_desc = \<lparr>bd_ctrl = 0, bd_stat = 0, bd_bufaddr = No_Buffer, bd_nxtptr = None\<rparr>"

definition zero_handle :: HANDLE_DATA where
  "zero_handle = \<lparr>opened = False, cs = 0, jedecId = zero_jedec, geometry = zero_geometry, securityId = 0\<rparr>"

definition sst26_power_on :: "(nat \<Rightarrow> u8) \<Rightarrow> sst26" where
  "sst26_power_on m = \<lparr>initialized = False, isTransferDone = False, status = 0,
     curOpType = DRV_SST26_OPERATION_TYPE_NONE, handle = replicate DRV_SST26_MAX_HANDLES zero_handle,
     sqiCmdDesc = replicate CMD_DESC_NUMBER zero_desc, sqiBufDesc = replicate BUFF_DESC_NUMBER zero_desc,
     statusRegVal = 0, jedecID = replicate JEDEC_ID_SIZE 0, securityID = replicate SECURITY_ID_SIZE 0,
     sqi_cmd_wren = 0, sqi_cmd = replicate CMD_BUFFER_MAX_LENGTH 0, callback = False, ram = m, dma = None, wire = []\<rparr>"

section \<open>Runs\<close>

text \<open>The calls of the clients, in any order, with the completion of transfers in between.\<close>

datatype flash_event =
    Ev_Initialize | Ev_Open int | Ev_Close u32 | Ev_Unlock u32 | Ev_ReadStatus u32 nat u32
  | Ev_Read u32 nat u32 u32 | Ev_PageWrite u32 nat u32 | Ev_SectorErase u32 u32 | Ev_BulkErase u32 u32
  | Ev_ChipErase u32 | Ev_Interrupt

definition flash_step :: "flash_bus \<Rightarrow> flash_event \<Rightarrow> sst26 \<Rightarrow> sst26 outcome" where
  "flash_step bus ev s =
     (case ev of
        Ev_Initialize \<Rightarrow> Inr (snd (DRV_SST26_Initialize s))
      | Ev_Open i \<Rightarrow> seq (DRV_SST26_Open bus i s) (\<lambda>(r, s). Inr s)
      | Ev_Close h \<Rightarrow> Inr (DRV_SST26_Close h s)
      | Ev_Unlock h \<Rightarrow> seq (DRV_SST26_UnlockFlash bus h s) (\<lambda>(r, s). Inr s)
      | Ev_ReadStatus h a n \<Rightarrow> seq (DRV_SST26_ReadStatus bus h a n s) (\<lambda>(r, s). Inr s)
      | Ev_Read h a n adr \<Rightarrow> seq (DRV_SST26_Read h a n adr s) (\<lambda>(r, s). Inr s)
      | Ev_PageWrite h a adr \<Rightarrow> seq (DRV_SST26_PageWrite h a adr s) (\<lambda>(r, s). Inr s)
      | Ev_SectorErase h adr \<Rightarrow> seq (DRV_SST26_SectorErase h adr s) (\<lambda>(r, s). Inr s)
      | Ev_BulkErase h adr \<Rightarrow> seq (DRV_SST26_BulkErase h adr s) (\<lambda>(r, s). Inr s)
      | Ev_ChipErase h \<Rightarrow> seq (DRV_SST26_ChipErase h s) (\<lambda>(r, s). Inr s)
      | Ev_Interrupt \<Rightarrow> sqi_interrupt bus s)"

end
