(* ===== verification/Flash_Memory.thy ===== *)
theory Flash_Memory
  imports Sst26
begin

text \<open>
  Proofs about the flash driver: no request makes it fault or wait for ever while its clients keep
  two rules; seen through the commands that reach the chips it is an array of bytes with an erase
  and a program operation, as long as a read follows an operation that writes; and where this fails.
\<close>

section \<open>Transfers\<close>

definition arrays :: "sst26 \<Rightarrow> bool" where
  "arrays s \<longleftrightarrow> length (handle s) = 2 \<and> length (sqiCmdDesc s) = 5 \<and> length (sqiBufDesc s) = 32 \<and>
     length (jedecID s) = 4 \<and> length (securityID s) = 8 \<and> length (sqi_cmd s) = 7"

definition ready :: "sst26 \<Rightarrow> bool" where
  "ready s \<longleftrightarrow> arrays s \<and> initialized s \<and> status s = SYS_STATUS_READY \<and> callback s"

definition idle :: "sst26 \<Rightarrow> bool" where
  "idle s \<longleftrightarrow> ready s \<and> isTransferDone s \<and> dma s = None"

definition chip_select :: "u32 \<Rightarrow> bool" where
  "chip_select c \<longleftrightarrow> c = SQI_BDCTRL_SQICS_CS0 \<or> c = SQI_BDCTRL_SQICS_CS1"

lemmas sqi_commands = SST26_CMD_FLASH_RESET_ENABLE_def SST26_CMD_FLASH_RESET_def SST26_CMD_ENABLE_QUAD_IO_def
  SST26_CMD_QUAD_JEDEC_ID_READ_def SST26_CMD_HIGH_SPEED_READ_def SST26_CMD_WRITE_ENABLE_def
  SST26_CMD_PAGE_PROGRAM_def SST26_CMD_READ_STATUS_REG_def SST26_CMD_SECTOR_ERASE_def
  SST26_CMD_BULK_ERASE_64K_def SST26_CMD_CHIP_ERASE_def SST26_CMD_UNPROTECT_GLOBAL_def
  SST26_CMD_SECURITY_ID_READ_def

lemma walk_fuel: "CMD_DESC_NUMBER + BUFF_DESC_NUMBER = 37"
  by (simp add: sst26_consts)

lemmas dma_walk_numeral = dma_walk.simps(2) [of _ "pred_numeral k" for k, folded numeral_eq_Suc]

text \<open>Sequences are evaluated from the left.\<close>

lemma seq_weak_cong: "m = m' \<Longrightarrow> seq m f = seq m' f"
  by simp

lemma dma_segment_dma:
  "dma_segment bus d (s\<lparr>dma := x\<rparr>) = seq (dma_segment bus d s) (\<lambda>t. Inr (t\<lparr>dma := x\<rparr>))"
  by (auto simp: dma_segment_def dma_load_def dma_store_def static_bytes_def Let_def
      split: dma_buffer.splits)

lemma descriptor_dma [simp]: "descriptor r (s\<lparr>dma := x\<rparr>) = descriptor r s"
  by (simp add: descriptor_def split: desc_ref.split)

lemma dma_walk_dma: "dma_walk bus n r (s\<lparr>dma := x\<rparr>) = seq (dma_walk bus n r s) (\<lambda>t. Inr (t\<lparr>dma := x\<rparr>))"
proof (induction n arbitrary: r s)
  case (Suc n)
  then show ?case
    by (auto simp: dma_segment_dma seq_def split: sum.splits option.splits)
qed simp


text \<open>A transfer changes the memory it receives into and the log of the bus, nothing else.\<close>

definition same_control :: "sst26 \<Rightarrow> sst26 \<Rightarrow> bool" where
  "same_control s t \<longleftrightarrow> initialized t = initialized s \<and> isTransferDone t = isTransferDone s \<and>
     status t = status s \<and> curOpType t = curOpType s \<and> handle t = handle s \<and> sqiCmdDesc t = sqiCmdDesc s \<and>
     sqiBufDesc t = sqiBufDesc s \<and> callback t = callback s \<and> dma t = dma s \<and> arrays t = arrays s"

lemma dma_segment_control: "dma_segment bus d s = Inr t \<Longrightarrow> same_control s t"
  by (auto simp: dma_segment_def dma_load_def dma_store_def static_bytes_def same_control_def arrays_def seq_eq_Inr_iff
      Let_def split: dma_buffer.splits if_splits)

lemma same_control_trans: "same_control s t \<Longrightarrow> same_control t u \<Longrightarrow> same_control s u"
  by (simp add: same_control_def)

lemma dma_walk_control: "dma_walk bus n r s = Inr t \<Longrightarrow> same_control s t"
proof (induction n arbitrary: r s)
  case (Suc n)
  from Suc.prems obtain d u where d: "dma_segment bus d s = Inr u"
    and r: "u = t \<or> (\<exists>r. dma_walk bus n r u = Inr t)"
    by (auto simp: seq_eq_Inr_iff split: if_splits option.splits)
  from r show ?case
  proof
    assume "u = t"
    with d show ?thesis by (simp add: dma_segment_control)
  next
    assume "\<exists>r. dma_walk bus n r u = Inr t"
    then obtain r where "dma_walk bus n r u = Inr t" ..
    from same_control_trans [OF dma_segment_control [OF d] Suc.IH [OF this]] show ?thesis .
  qed
qed simp

lemma interrupt_transfer:
  assumes "dma s = Some r" "callback s"
  shows "sqi_interrupt bus s =
    seq (dma_walk bus (CMD_DESC_NUMBER + BUFF_DESC_NUMBER) r (s\<lparr>dma := None\<rparr>)) (\<lambda>t. Inr (t\<lparr>isTransferDone := True\<rparr>))"
proof -
  have s: "s = (s\<lparr>dma := None\<rparr>)\<lparr>dma := Some r\<rparr>" using assms(1) by simp
  show ?thesis
  proof (cases "dma_walk bus (CMD_DESC_NUMBER + BUFF_DESC_NUMBER) r (s\<lparr>dma := None\<rparr>)")
    case (Inl e)
    then have "dma_walk bus (CMD_DESC_NUMBER + BUFF_DESC_NUMBER) r s = Inl e"
      by (subst s) (simp only: dma_walk_dma seq_Inl)
    with Inl assms show ?thesis by (simp add: sqi_interrupt_def)
  next
    case (Inr t)
    then have "dma_walk bus (CMD_DESC_NUMBER + BUFF_DESC_NUMBER) r s = Inr (t\<lparr>dma := Some r\<rparr>)"
      by (subst s) (simp only: dma_walk_dma seq_Inr)
    moreover have "callback t" "dma t = None" using dma_walk_control [OF Inr] assms(2) by (simp_all add: same_control_def)
    moreover from this(2) have "t\<lparr>dma := None\<rparr> = t" by simp
    ultimately show ?thesis using Inr assms by (simp add: sqi_interrupt_def event_handler_def Let_def)
  qed
qed

lemma transfer:
  assumes "dma s = None" "\<not> isTransferDone s" "callback s"
  shows "seq (DMATransfer r s) (wait bus) =
    seq (dma_walk bus (37) r s) (\<lambda>t. Inr (t\<lparr>isTransferDone := True\<rparr>))"
proof -
  have n: "CMD_DESC_NUMBER + BUFF_DESC_NUMBER = 37" by (simp add: sst26_consts)
  have s: "s\<lparr>dma := None\<rparr> = s" using assms(1) by simp
  have "seq (DMATransfer r s) (wait bus) = seq (sqi_interrupt bus (s\<lparr>dma := Some r\<rparr>)) (\<lambda>s. if isTransferDone s then Inr s else Inl Diverges)"
    using assms by (simp add: DMATransfer_def wait_def)
  also have "\<dots> = seq (dma_walk bus (37) r s) (\<lambda>t. Inr (t\<lparr>isTransferDone := True\<rparr>))"
    unfolding interrupt_transfer [of "s\<lparr>dma := Some r\<rparr>" r bus, simplified, OF assms(3)]
    unfolding n by (cases "dma_walk bus (37) r s") (simp_all add: s)
  finally show ?thesis .
qed

lemma transfer_then:
  assumes "dma s = None" "\<not> isTransferDone s" "callback s"
  shows "seq (DMATransfer r s) (\<lambda>s. seq (wait bus s) f) =
    seq (dma_walk bus (37) r s) (\<lambda>t. f (t\<lparr>isTransferDone := True\<rparr>))"
proof -
  have "seq (DMATransfer r s) (\<lambda>s. seq (wait bus s) f) = seq (seq (DMATransfer r s) (wait bus)) f"
    by (simp add: seq_assoc)
  also have "\<dots> = seq (dma_walk bus (37) r s) (\<lambda>t. f (t\<lparr>isTransferDone := True\<rparr>))"
    unfolding transfer [OF assms] by (simp add: seq_assoc)
  finally show ?thesis .
qed

lemmas sqi_eval = begin_op_def put_cmd_def put_cmd_desc_def put_buf_desc_def enable_write_def cs_of_def upd_handle_def
  descriptor_def dma_load_def dma_store_def static_bytes_def flag_def bufflen_def sqi_bits Let_def

lemmas sqi_run = sqi_eval sqi_commands sst26_consts transfer transfer_then dma_walk_numeral dma_segment_def

section \<open>Frames\<close>

text \<open>
  What a chip sees: while its select line is asserted it receives bytes, on one or four lanes, and
  then sends some.
\<close>

datatype frame = Frame u32 bool "u8 list" nat

definition chip_of :: "u32 \<Rightarrow> u32" where
  "chip_of ctrl = ctrl AND SQI_BDCTRL_SQICS_CS1"

definition quad_of :: "u32 \<Rightarrow> bool" where
  "quad_of ctrl \<longleftrightarrow> ctrl AND SQI_BDCTRL_MODE_QUAD_LANE \<noteq> 0"

fun extend_frame :: "segment \<Rightarrow> frame \<Rightarrow> frame" where
  "extend_frame (Out ctrl bs) (Frame c q ss n) = Frame c q (ss @ bs) n"
| "extend_frame (In ctrl k) (Frame c q ss n) = Frame c q ss (n + k)"

fun segment_ctrl :: "segment \<Rightarrow> u32" where
  "segment_ctrl (Out ctrl bs) = ctrl"
| "segment_ctrl (In ctrl k) = ctrl"

fun frame_chip :: "frame \<Rightarrow> u32" where
  "frame_chip (Frame c q ss n) = c"

definition new_frame :: "u32 \<Rightarrow> frame" where
  "new_frame ctrl = Frame (chip_of ctrl) (quad_of ctrl) [] 0"

text \<open>The complete frames and the one that is under way; another select line ends a frame.\<close>

definition add_segment :: "segment \<Rightarrow> frame list \<times> frame option \<Rightarrow> frame list \<times> frame option" where
  "add_segment x p =
     (let ctrl = segment_ctrl x;
          (fs, f) = (case snd p of
                       None \<Rightarrow> (fst p, new_frame ctrl)
                     | Some f \<Rightarrow> if frame_chip f = chip_of ctrl then (fst p, f) else (fst p @ [f], new_frame ctrl));
          f = extend_frame x f
      in if ctrl AND SQI_BDCTRL_DEASSERT \<noteq> 0 then (fs @ [f], None) else (fs, Some f))"

definition traffic :: "segment list \<Rightarrow> frame list \<times> frame option" where
  "traffic w = fold add_segment w ([], None)"

lemma traffic_append: "traffic (w @ xs) = fold add_segment xs (traffic w)"
  by (simp add: traffic_def)

lemmas traffic_eval = traffic_append add_segment_def new_frame_def chip_of_def quad_of_def

text \<open>The driver is at rest, and these are the frames so far.\<close>

definition calm :: "frame list \<Rightarrow> sst26 \<Rightarrow> bool" where
  "calm fs s \<longleftrightarrow> idle s \<and> traffic (wire s) = (fs, None)"

lemmas calm_eval = calm_def idle_def ready_def arrays_def

section \<open>Blocking operations\<close>

text \<open>The first command descriptor, as the operations leave it behind.\<close>

definition stale_command :: "u32 \<Rightarrow> u32 \<Rightarrow> sst26 \<Rightarrow> bool" where
  "stale_command n c s \<longleftrightarrow> sqiCmdDesc s ! 0 =
     \<lparr>bd_ctrl = n OR SQI_BDCTRL_MODE_QUAD_LANE OR c OR SQI_BDCTRL_DESCEN, bd_stat = 0, bd_bufaddr = Sqi_Cmd,
      bd_nxtptr = Some (Buf_Desc 0)\<rparr>"

definition write_first :: "u32 \<Rightarrow> sst26 \<Rightarrow> bool" where
  "write_first c s \<longleftrightarrow> sqi_cmd_wren s = SST26_CMD_WRITE_ENABLE \<and> sqiCmdDesc s ! 0 =
     \<lparr>bd_ctrl = 1 OR SQI_BDCTRL_MODE_QUAD_LANE OR c OR SQI_BDCTRL_DEASSERT OR SQI_BDCTRL_DESCEN, bd_stat = 0,
      bd_bufaddr = Sqi_Cmd_Wren, bd_nxtptr = Some (Cmd_Desc 1)\<rparr>"

lemma chip_select_cases: "chip_select c \<Longrightarrow> (c = 0 \<Longrightarrow> P) \<Longrightarrow> (c = 0x10000000 \<Longrightarrow> P) \<Longrightarrow> P"
  by (auto simp: chip_select_def sqi_bits)

lemma reset_flash_ok:
  assumes "calm fs s" "chip_select (cs_of i s)"
  shows "\<exists>t. reset_flash bus i s = Inr t \<and> handle t = handle s \<and> ram t = ram s \<and>
    calm (fs @ [Frame (cs_of i s) False [0x66] 0, Frame (cs_of i s) False [0x99] 0]) t"
  using assms(2)
  by (rule chip_select_cases; use assms(1) in
      \<open>simp add: reset_flash_def calm_eval sqi_run traffic_eval cong: seq_weak_cong\<close>)

lemma enable_quad_io_ok:
  assumes "calm fs s" "chip_select (cs_of i s)"
  shows "\<exists>t. enable_quad_io bus i s = Inr t \<and> handle t = handle s \<and> ram t = ram s \<and>
    calm (fs @ [Frame (cs_of i s) False [0x38] 0]) t"
  using assms(2)
  by (rule chip_select_cases; use assms(1) in
      \<open>simp add: enable_quad_io_def calm_eval sqi_run traffic_eval cong: seq_weak_cong\<close>)

lemma unlock_flash_ok:
  assumes "calm fs s" "chip_select (cs_of i s)"
  shows "\<exists>t. unlock_flash bus i s = Inr t \<and> handle t = handle s \<and> ram t = ram s \<and> write_first (cs_of i s) t \<and>
    calm (fs @ [Frame (cs_of i s) True [0x06] 0, Frame (cs_of i s) True [0x98] 0]) t"
  using assms(2)
  by (rule chip_select_cases; use assms(1) in
      \<open>simp add: unlock_flash_def calm_eval sqi_run traffic_eval write_first_def cong: seq_weak_cong\<close>)

lemma read_jedec_id_ok:
  assumes "calm fs s" "chip_select (cs_of i s)" "i < 2"
  shows "\<exists>t w. read_jedec_id bus i s = Inr t \<and>
    handle t = (handle s)[i := (handle s ! i)\<lparr>jedecId := jedec_of (map (bus w) [0..<4])\<rparr>] \<and>
    traffic w = (fs, Some (Frame (cs_of i s) True [0xAF, 0xFF] 0)) \<and>
    ram t = ram s \<and> stale_command 2 (cs_of i s) t \<and> calm (fs @ [Frame (cs_of i s) True [0xAF, 0xFF] 4]) t"
  using assms(2)
  by (rule chip_select_cases; use assms(1,3) in
      \<open>simp add: read_jedec_id_def calm_eval sqi_run traffic_eval stale_command_def cong: seq_weak_cong\<close>)
    (rule exI, rule conjI [OF refl], simp add: traffic_eval sqi_bits)+

lemma read_security_id_ok:
  assumes "calm fs s" "chip_select (cs_of i s)" "i < 2"
  shows "\<exists>t j. read_security_id bus i s = Inr t \<and> handle t = (handle s)[i := (handle s ! i)\<lparr>securityId := j\<rparr>] \<and>
    ram t = ram s \<and> stale_command 6 (cs_of i s) t \<and>
    calm (fs @ [Frame (cs_of i s) True [0x88, 0, 0, 0xFF, 0xFF, 0xFF] 8]) t"
  using assms(2)
  by (rule chip_select_cases; use assms(1,3) in
      \<open>simp add: read_security_id_def calm_eval sqi_run traffic_eval stale_command_def cong: seq_weak_cong\<close>) blast+

lemma read_status_ok:
  assumes "calm fs s" "check_handle h s" "chip_select (cs_of (unat h) s)"
  shows "\<exists>t b. DRV_SST26_ReadStatus bus h a 1 s = Inr (True, t) \<and> handle t = handle s \<and>
    ram t = ram_write a [b] (ram s) \<and> stale_command 2 (cs_of (unat h) s) t \<and>
    calm (fs @ [Frame (cs_of (unat h) s) True [0x05, 0xFF] 1]) t"
  using assms(3)
  by (rule chip_select_cases; use assms(1,2) in
      \<open>simp add: DRV_SST26_ReadStatus_def calm_eval sqi_run traffic_eval stale_command_def cong: seq_weak_cong\<close>) blast+

section \<open>Opening\<close>

definition identify_frames :: "u32 \<Rightarrow> frame list" where
  "identify_frames c = [Frame c False [0x66] 0, Frame c False [0x99] 0, Frame c False [0x38] 0, Frame c True [0x06] 0,
     Frame c True [0x98] 0]"

text \<open>The third byte of the identification the chip answers.\<close>

definition device_code :: "flash_bus \<Rightarrow> frame list \<Rightarrow> u32 \<Rightarrow> u8 \<Rightarrow> bool" where
  "device_code bus fs c b \<longleftrightarrow> (\<exists>w. traffic w = (fs @ identify_frames c, Some (Frame c True [0xAF, 0xFF] 0)) \<and> b = bus w 2)"

definition opening_frames :: "u32 \<Rightarrow> frame list" where
  "opening_frames c = identify_frames c @ [Frame c True [0xAF, 0xFF] 4]"

lemma get_flash_size_cases: "get_flash_size b \<in> {0, 0x200000, 0x400000, 0x800000}"
  by (auto simp: get_flash_size_def gSstFlashIdSizeTable_def)

lemma flash_size_enough: "0 < get_flash_size b \<Longrightarrow> DRV_SST26_ERASE_BUFFER_SIZE \<le> get_flash_size b"
  using get_flash_size_cases [of b] by (auto simp: sst26_consts)

text \<open>
  Opening sends each chip the commands of the data sheet and gives a handle exactly if the device
  is in the table of sizes; the other handle does not change.
\<close>

lemma open_index_ok:
  assumes "calm fs s" "chip_select (cs_of i s)" "i < 2"
  shows "\<exists>r t hd. open_index bus i s = Inr (r, t) \<and> handle t = (handle s)[i := hd] \<and> cs hd = cs_of i s \<and> ram t = ram s \<and>
    device_code bus fs (cs_of i s) (majorRevisionNumber (jedecId hd)) \<and>
    (if get_flash_size (majorRevisionNumber (jedecId hd)) = 0
     then r = DRV_HANDLE_INVALID \<and> \<not> opened hd \<and> stale_command 2 (cs_of i s) t \<and>
       calm (fs @ opening_frames (cs_of i s)) t
     else r = of_nat i \<and> opened hd \<and> stale_command 6 (cs_of i s) t \<and>
       geometry hd = fill_geometry (get_flash_size (majorRevisionNumber (jedecId hd))) \<and>
       calm (fs @ opening_frames (cs_of i s) @ [Frame (cs_of i s) True [0x88, 0, 0, 0xFF, 0xFF, 0xFF] 8]) t)"
proof -
  let ?s = "upd_handle i (\<lambda>h. h\<lparr>opened := False\<rparr>) s" and ?c = "cs_of i s"
  have l: "length (handle s) = 2" using assms(1) by (simp add: calm_eval)
  have s: "calm fs ?s" "handle ?s = (handle s)[i := (handle s ! i)\<lparr>opened := False\<rparr>]" "ram ?s = ram s"
    using assms(1) by (simp_all add: calm_eval upd_handle_def)
  have c: "cs_of i u = ?c" if "handle u = handle ?s" for u
    using that l assms(3) by (simp add: cs_of_def s(2))
  from reset_flash_ok [OF s(1), of i bus] assms(2) c [OF refl] obtain s1 where
    s1: "reset_flash bus i ?s = Inr s1" "handle s1 = handle ?s" "ram s1 = ram s"
      "calm (fs @ [Frame ?c False [0x66] 0, Frame ?c False [0x99] 0]) s1" using s(3) by auto
  from enable_quad_io_ok [OF s1(4), of i bus] assms(2) c [OF s1(2)] obtain s2 where
    s2: "enable_quad_io bus i s1 = Inr s2" "handle s2 = handle ?s" "ram s2 = ram s"
      "calm (fs @ [Frame ?c False [0x66] 0, Frame ?c False [0x99] 0, Frame ?c False [0x38] 0]) s2"
    using s1(2,3) by auto
  from unlock_flash_ok [OF s2(4), of i bus] assms(2) c [OF s2(2)] obtain s3 where
    s3: "unlock_flash bus i s2 = Inr s3" "handle s3 = handle ?s" "ram s3 = ram s"
      "calm (fs @ [Frame ?c False [0x66] 0, Frame ?c False [0x99] 0, Frame ?c False [0x38] 0, Frame ?c True [0x06] 0,
         Frame ?c True [0x98] 0]) s3"
    using s2(2,3) by auto
  have c3: "chip_select (cs_of i s3)" "cs_of i s3 = ?c" using assms(2) c [OF s3(2)] by simp_all
  from read_jedec_id_ok [OF s3(4) c3(1) assms(3), of bus] obtain s4 w j where
    r: "read_jedec_id bus i s3 = Inr s4" "handle s4 = (handle s3)[i := (handle s3 ! i)\<lparr>jedecId := j\<rparr>]"
      "j = jedec_of (map (bus w) [0..<4])" "ram s4 = ram s3" "stale_command 2 (cs_of i s3) s4"
      "calm ((fs @ identify_frames ?c) @ [Frame (cs_of i s3) True [0xAF, 0xFF] 4]) s4"
    and w: "traffic w = (fs @ identify_frames ?c, Some (Frame (cs_of i s3) True [0xAF, 0xFF] 0))"
    unfolding identify_frames_def by blast
  have s4a: "device_code bus fs ?c (majorRevisionNumber j)"
    unfolding device_code_def using w c3(2) by (intro exI [of _ w]) (simp add: r(3) jedec_of_def eval_nat_numeral)
  have s4: "read_jedec_id bus i s3 = Inr s4" "handle s4 = (handle s)[i := (handle s ! i)\<lparr>opened := False, jedecId := j\<rparr>]"
      "ram s4 = ram s" "stale_command 2 ?c s4" "calm (fs @ opening_frames ?c) s4"
    using r c3(2) s3(2,3) s(2) l assms(3) by (simp_all add: opening_frames_def)
  let ?n = "get_flash_size (majorRevisionNumber j)"
  have j: "jedecId (handle s4 ! i) = j" using l assms(3) by (simp add: s4(2))
  show ?thesis
  proof (cases "?n = 0")
    case True
    then show ?thesis using s1(1) s2(1) s3(1) s4 j l assms(3)
      s4a by (simp add: open_index_def Let_def) (force simp: cs_of_def)
  next
    case False
    let ?u = "upd_handle i (\<lambda>h. h\<lparr>geometry := fill_geometry ?n\<rparr>) s4"
    from False have n: "0 < ?n" "DRV_SST26_ERASE_BUFFER_SIZE \<le> ?n"
      by (simp_all add: word_gt_0 flash_size_enough)
    have u: "calm (fs @ opening_frames ?c) ?u" "cs_of i ?u = ?c"
      using s4(2,5) l assms(3) by (simp_all add: calm_eval upd_handle_def cs_of_def)
    from read_security_id_ok [OF u(1) _ assms(3), of bus] assms(2) u(2) obtain s5 w where
      s5: "read_security_id bus i ?u = Inr s5"
        "handle s5 = (handle s)[i := (handle s ! i)\<lparr>opened := False, jedecId := j, geometry := fill_geometry ?n, securityId := w\<rparr>]"
        "ram s5 = ram s" "stale_command 6 ?c s5"
        "calm (fs @ opening_frames ?c @ [Frame ?c True [0x88, 0, 0, 0xFF, 0xFF, 0xFF] 8]) s5"
      using s4(2,3) l assms(3) by (auto simp: upd_handle_def)
    let ?t = "upd_handle i (\<lambda>h. h\<lparr>opened := True\<rparr>) s5"
    have "open_index bus i s = Inr (of_nat i, ?t)"
      using s1(1) s2(1) s3(1) s4(1) s5(1) j n by (simp add: open_index_def Let_def sst26_consts)
    moreover have "handle ?t = (handle s)[i := (handle s ! i)\<lparr>jedecId := j, geometry := fill_geometry ?n, securityId := w, opened := True\<rparr>]"
      using s5(2) l assms(3) by (simp add: upd_handle_def)
    moreover have "ram ?t = ram s" "stale_command 6 ?c ?t"
      "calm (fs @ opening_frames ?c @ [Frame ?c True [0x88, 0, 0, 0xFF, 0xFF, 0xFF] 8]) ?t"
      using s5(3,4,5) by (simp_all add: upd_handle_def stale_command_def calm_eval)
    ultimately show ?thesis using False s4a by (force simp: cs_of_def)
  qed
qed


section \<open>Erasing and programming\<close>

text \<open>A transfer is under way; when it completes, whatever the chips answer, \<open>P\<close> holds.\<close>

definition pending :: "(flash_bus \<Rightarrow> sst26 \<Rightarrow> bool) \<Rightarrow> sst26 \<Rightarrow> bool" where
  "pending P s \<longleftrightarrow> ready s \<and> \<not> isTransferDone s \<and> dma s \<noteq> None \<and> (\<forall>bus. \<exists>t. sqi_interrupt bus s = Inr t \<and> P bus t)"

lemma pendingI:
  assumes "ready s" "\<not> isTransferDone s" "dma s = Some r"
    and "\<And>bus. \<exists>t. dma_walk bus 37 r (s\<lparr>dma := None\<rparr>) = Inr t \<and> P bus (t\<lparr>isTransferDone := True\<rparr>)"
  shows "pending P s"
proof -
  have "\<exists>t. sqi_interrupt bus s = Inr t \<and> P bus t" for bus
    using assms(4) [of bus] interrupt_transfer [OF assms(3), of bus] assms(1) by (auto simp: ready_def walk_fuel)
  then show ?thesis using assms(1-3) by (simp add: pending_def)
qed

lemma length_address_bytes [simp]: "length (address_bytes a) = 3"
  by (simp add: address_bytes_def)

definition write_enable_frame :: "u32 \<Rightarrow> frame" where
  "write_enable_frame c = Frame c True [0x06] 0"

text \<open>When a command that writes completes, the chip has got the write enable and the command.\<close>

definition written :: "frame list \<Rightarrow> u32 \<Rightarrow> u8 list \<Rightarrow> sst26 \<Rightarrow> flash_bus \<Rightarrow> sst26 \<Rightarrow> bool" where
  "written fs c bs s bus t \<longleftrightarrow> handle t = handle s \<and> ram t = ram s \<and> write_first c t \<and>
     calm (fs @ [write_enable_frame c, Frame c True bs 0]) t"

lemmas written_eval = written_def write_enable_frame_def write_first_def

lemma sector_erase_ok:
  assumes "calm fs s" "check_handle h s" "chip_select (cs_of (unat h) s)"
  shows "\<exists>t. DRV_SST26_SectorErase h a s = Inr (True, t) \<and> handle t = handle s \<and> ram t = ram s \<and>
    pending (written fs (cs_of (unat h) s) (0x20 # address_bytes a) s) t"
  using assms(3)
  by (rule chip_select_cases; use assms(1,2) in
     \<open>simp add: DRV_SST26_SectorErase_def erase_def calm_eval sqi_eval sqi_commands DMATransfer_def;
      intro pendingI [where r = "Cmd_Desc 0"];
      simp add: calm_eval sqi_run traffic_eval written_eval cong: seq_weak_cong\<close>)

lemma bulk_erase_ok:
  assumes "calm fs s" "check_handle h s" "chip_select (cs_of (unat h) s)"
  shows "\<exists>t. DRV_SST26_BulkErase h a s = Inr (True, t) \<and> handle t = handle s \<and> ram t = ram s \<and>
    pending (written fs (cs_of (unat h) s) (0xD8 # address_bytes a) s) t"
  using assms(3)
  by (rule chip_select_cases; use assms(1,2) in
     \<open>simp add: DRV_SST26_BulkErase_def erase_def calm_eval sqi_eval sqi_commands DMATransfer_def;
      intro pendingI [where r = "Cmd_Desc 0"];
      simp add: calm_eval sqi_run traffic_eval written_eval cong: seq_weak_cong\<close>)

lemma chip_erase_ok:
  assumes "calm fs s" "check_handle h s" "chip_select (cs_of (unat h) s)"
  shows "\<exists>t. DRV_SST26_ChipErase h s = Inr (True, t) \<and> handle t = handle s \<and> ram t = ram s \<and>
    pending (written fs (cs_of (unat h) s) [0xC7] s) t"
  using assms(3)
  by (rule chip_select_cases; use assms(1,2) in
     \<open>simp add: DRV_SST26_ChipErase_def erase_def calm_eval sqi_eval sqi_commands DMATransfer_def;
      intro pendingI [where r = "Cmd_Desc 0"];
      simp add: calm_eval sqi_run traffic_eval written_eval cong: seq_weak_cong\<close>)

lemma page_write_ok:
  assumes "calm fs s" "check_handle h s" "chip_select (cs_of (unat h) s)"
  shows "\<exists>t. DRV_SST26_PageWrite h b a s = Inr (True, t) \<and> handle t = handle s \<and> ram t = ram s \<and>
    pending (written fs (cs_of (unat h) s) (0x02 # address_bytes a @ map (ram s) [b..<b + 256]) s) t"
  using assms(3)
  by (rule chip_select_cases; use assms(1,2) in
     \<open>simp add: DRV_SST26_PageWrite_def calm_eval sqi_eval sqi_commands sst26_consts DMATransfer_def;
      intro pendingI [where r = "Cmd_Desc 0"];
      simp add: calm_eval sqi_run traffic_eval written_eval cong: seq_weak_cong\<close>)


section \<open>Reading\<close>

lemma low_half: "unat (n :: u32) < 65536 \<Longrightarrow> n AND 0xFFFF = n"
proof -
  assume n: "unat n < 65536"
  have "unat (take_bit 16 n) = unat n" using n by (simp add: unsigned_take_bit_eq take_bit_nat_eq_self)
  then have "n AND mask 16 = n" by (simp only: take_bit_eq_mask word_unat_eq_iff)
  then show ?thesis by (simp add: mask_eq_exp_minus_1)
qed

lemma ctrl_length: "unat (n :: u32) < 65536 \<Longrightarrow> x AND 0xFFFF = 0 \<Longrightarrow> (n OR x) AND 0xFFFF = n"
  by (simp add: bit.conj_disj_distrib2 low_half)

lemma ctrl_flag: "unat (n :: u32) < 65536 \<Longrightarrow> m AND 0xFFFF = 0 \<Longrightarrow> (n OR x) AND m = x AND m"
proof -
  assume n: "unat n < 65536" and m: "m AND 0xFFFF = 0"
  have "n AND m = n AND 0xFFFF AND m" using low_half [OF n] by (simp add: and.assoc [symmetric])
  also have "\<dots> = 0" using m by (simp add: and.commute)
  finally show ?thesis by (simp add: bit.conj_disj_distrib2)
qed

text \<open>The number of bytes of the descriptor \<open>j\<close>, its contents, and the number of descriptors used.\<close>

definition chunk :: "u32 \<Rightarrow> nat \<Rightarrow> nat" where
  "chunk len j = min 256 (unat len - 256 * j)"

definition read_desc :: "u32 \<Rightarrow> u32 \<Rightarrow> nat \<Rightarrow> nat \<Rightarrow> sqi_dma_desc_t" where
  "read_desc c len buf j =
     \<lparr>bd_ctrl = of_nat (chunk len j) OR SQI_BDCTRL_PKTINTEN OR SQI_BDCTRL_MODE_QUAD_LANE OR SQI_BDCTRL_DIR_READ OR c OR
        SQI_BDCTRL_DESCEN, bd_stat = 0, bd_bufaddr = Client (buf + 256 * j), bd_nxtptr = Some (Buf_Desc (j + 1))\<rparr>"

definition chunks :: "u32 \<Rightarrow> nat" where
  "chunks len = min 32 ((unat len + 255) div 256)"

lemma chunks_bounds: "0 < len \<Longrightarrow> 0 < chunks len" "chunks len \<le> 32"
  using unat_gt_0 [of len] by (simp_all add: chunks_def div_greater_zero_iff word_neq_0_conv)

lemma read_descs_spec:
  assumes "i < 32" "256 * i < unat len" "unat p = unat len - 256 * i" "length (sqiBufDesc s) = 32"
  shows "\<exists>D. read_descs c p (buf + 256 * i) i s = (chunks len, s\<lparr>sqiBufDesc := D\<rparr>) \<and> length D = 32 \<and>
    (\<forall>j<32. D ! j = (if i \<le> j \<and> j < chunks len then read_desc c len buf j else sqiBufDesc s ! j))"
  using assms
proof (induction "32 - i" arbitrary: i p s)
  case 0
  then show ?case by simp
next
  case (Suc n)
  let ?n = "if p \<ge> 256 then 256 else p"
  let ?s = "put_buf_desc i (SQI_BDCTRL_BUFFLEN_VAL ?n OR SQI_BDCTRL_PKTINTEN OR
                     SQI_BDCTRL_MODE_QUAD_LANE OR SQI_BDCTRL_DIR_READ OR c OR SQI_BDCTRL_DESCEN)
                     (Client (buf + 256 * i)) (Some (Buf_Desc (i + 1))) s"
  have p: "(p \<ge> 256) = (unat p \<ge> 256)" by (simp add: word_le_nat_alt)
  have n: "?n = of_nat (chunk len i)" "unat ?n = chunk len i"
    using Suc.prems(3) by (auto simp: chunk_def p word_unat_eq_iff unat_of_nat)
  have s: "?s = s\<lparr>sqiBufDesc := (sqiBufDesc s)[i := read_desc c len buf i]\<rparr>"
    using n(1) by (simp add: put_buf_desc_def read_desc_def SQI_BDCTRL_BUFFLEN_VAL_def)
  have step: "read_descs c p (buf + 256 * i) i s =
    (if p - ?n = 0 then (i + 1, ?s) else read_descs c (p - ?n) (buf + 256 * i + unat ?n) (i + 1) ?s)"
    using Suc.prems(1) by (subst read_descs.simps) (simp only: sst26_consts Let_def if_True)
  have d: "unat (p - ?n) = unat len - 256 * (i + 1)"
    using Suc.prems(3) p by (simp add: unat_sub word_le_nat_alt) arith
  have stop: ?case if r: "read_descs c p (buf + 256 * i) i s = (i + 1, ?s)" and k: "chunks len = i + 1"
  proof -
    have "((sqiBufDesc s)[i := read_desc c len buf i]) ! j =
      (if i \<le> j \<and> j < chunks len then read_desc c len buf j else sqiBufDesc s ! j)" if "j < 32" for j
      using that k Suc.prems(1,4) by (cases j i rule: linorder_cases) simp_all
    then show ?thesis using r k Suc.prems(4) unfolding s
      by (intro exI [of _ "(sqiBufDesc s)[i := read_desc c len buf i]"]) simp
  qed
  show ?case
  proof (cases "p - ?n = 0")
    case True
    with d have "unat len \<le> 256 * (i + 1)" by simp
    with Suc.prems(1,2) have k: "chunks len = i + 1" by (simp add: chunks_def)
    show ?thesis using step k by (intro stop) (simp_all only: True if_True refl)
  next
    case False
    with d have more: "256 * (i + 1) < unat len" by (metis linorder_not_less diff_is_0_eq unat_eq_zero)
    then have b: "buf + 256 * i + unat ?n = buf + 256 * (i + 1)" using n(2) by (simp add: chunk_def)
    show ?thesis
    proof (cases "i + 1 < 32")
      case True
      have l: "length (sqiBufDesc ?s) = 32" using Suc.prems(4) by (simp add: put_buf_desc_def)
      have "n = 32 - (i + 1)" using Suc.hyps(2) by simp
      from Suc.hyps(1) [OF this True more d l] obtain D where
        D: "read_descs c (p - ?n) (buf + 256 * (i + 1)) (i + 1) ?s = (chunks len, ?s\<lparr>sqiBufDesc := D\<rparr>)" "length D = 32"
        "\<forall>j<32. D ! j = (if i + 1 \<le> j \<and> j < chunks len then read_desc c len buf j else sqiBufDesc ?s ! j)"
        by (elim exE conjE) (rule that)
      have i: "i < chunks len" using more True by (simp add: chunks_def)
      have "read_descs c p (buf + 256 * i) i s = (chunks len, s\<lparr>sqiBufDesc := D\<rparr>)"
      proof -
        have "read_descs c p (buf + 256 * i) i s = (chunks len, ?s\<lparr>sqiBufDesc := D\<rparr>)"
          using step D(1) by (simp only: False if_False b)
        then show ?thesis by (simp add: put_buf_desc_def)
      qed
      moreover have "D ! j = (if i \<le> j \<and> j < chunks len then read_desc c len buf j else sqiBufDesc s ! j)" if "j < 32" for j
        using D(3) that i Suc.prems(1,4) unfolding s by (cases j i rule: linorder_cases) simp_all
      ultimately show ?thesis using D(2) by blast
    next
      case False': False
      then have i: "i + 1 = 32" using Suc.prems(1) by simp
      with more have k: "chunks len = i + 1" by (simp add: chunks_def)
      have "read_descs c q b 32 u = (32, u)" for q b u by (subst read_descs.simps) (simp add: sst26_consts)
      with step k show ?thesis by (intro stop) (simp_all only: False if_False i refl)
    qed
  qed
qed

text \<open>The byte that the chip answers at the position \<open>k\<close> of a frame.\<close>

definition answered :: "flash_bus \<Rightarrow> frame list \<Rightarrow> u32 \<Rightarrow> u8 list \<Rightarrow> nat \<Rightarrow> u8 \<Rightarrow> bool" where
  "answered bus fs c bs k b \<longleftrightarrow> (\<exists>w m i. traffic w = (fs, Some (Frame c True bs m)) \<and> m + i = k \<and> b = bus w i)"

definition read_length :: "u32 \<Rightarrow> nat" where
  "read_length len = min 8192 (unat len)"

lemma chunk_le: "chunk len j \<le> 256"
  by (simp add: chunk_def)

lemma unat_chunk: "unat (of_nat (chunk len j) :: u32) = chunk len j"
  using chunk_le [of len j] by (simp add: unat_of_nat)

lemma read_desc_fields:
  assumes "chip_select c"
  shows "flag SQI_BDCTRL_DESCEN (read_desc c len buf j)" "flag SQI_BDCTRL_DIR_READ (read_desc c len buf j)"
    "\<not> flag SQI_BDCTRL_LASTBD (read_desc c len buf j)" "bufflen (read_desc c len buf j) = chunk len j"
    "chip_of (bd_ctrl (read_desc c len buf j)) = c" "bd_ctrl (read_desc c len buf j) AND SQI_BDCTRL_DEASSERT = 0"
  using assms unat_chunk [of len j] chunk_le [of len j]
  by (auto elim!: chip_select_cases simp: read_desc_def flag_def bufflen_def chip_of_def sqi_bits ctrl_flag ctrl_length)

lemma end_of_chain_fields:
  assumes "chip_select c" and d_def: "d = end_of_chain (read_desc c len buf j)"
  shows "flag SQI_BDCTRL_DESCEN d" "flag SQI_BDCTRL_DIR_READ d" "flag SQI_BDCTRL_LASTBD d" "bufflen d = chunk len j"
    "chip_of (bd_ctrl d) = c" "bd_ctrl d AND SQI_BDCTRL_DEASSERT \<noteq> 0"
  using assms(1) unat_chunk [of len j] chunk_le [of len j]
  by (auto elim!: chip_select_cases simp: d_def read_desc_def end_of_chain_def flag_def bufflen_def chip_of_def sqi_bits
      or.assoc ctrl_flag ctrl_length)

text \<open>The descriptors of a read, in place.\<close>

definition read_chain :: "u32 \<Rightarrow> u32 \<Rightarrow> nat \<Rightarrow> sst26 \<Rightarrow> bool" where
  "read_chain c len buf s \<longleftrightarrow> length (sqiBufDesc s) = 32 \<and>
     (\<forall>j < chunks len. sqiBufDesc s ! j =
        (if j + 1 < chunks len then read_desc c len buf j else end_of_chain (read_desc c len buf j)))"

lemma read_segment:
  assumes "traffic (wire s) = (fs, Some (Frame c True bs m))" "flag SQI_BDCTRL_DIR_READ d"
    "chip_of (bd_ctrl d) = c" "bd_bufaddr d = Client a"
  shows "\<exists>t. dma_segment bus d s = Inr t \<and> same_control s t \<and> sqi_cmd_wren t = sqi_cmd_wren s \<and>
    traffic (wire t) = (if bd_ctrl d AND SQI_BDCTRL_DEASSERT \<noteq> 0 then (fs @ [Frame c True bs (m + bufflen d)], None)
      else (fs, Some (Frame c True bs (m + bufflen d)))) \<and>
    (\<forall>k. m \<le> k \<and> k < m + bufflen d \<longrightarrow> answered bus fs c bs k (ram t (a + (k - m)))) \<and>
    (\<forall>x. \<not> (a \<le> x \<and> x < a + bufflen d) \<longrightarrow> ram t x = ram s x)"
proof -
  let ?t = "s\<lparr>ram := ram_write a (map (bus (wire s)) [0..<bufflen d]) (ram s), wire := wire s @ [In (bd_ctrl d) (bufflen d)]\<rparr>"
  have "dma_segment bus d s = Inr ?t" using assms(2,4) by (simp add: dma_segment_def dma_store_def)
  moreover have "answered bus fs c bs k (ram ?t (a + (k - m)))" if "m \<le> k" "k < m + bufflen d" for k
  proof -
    have "k - m < bufflen d" using that by simp
    then have "ram_write a (map (bus (wire s)) [0..<bufflen d]) (ram s) (a + (k - m)) = bus (wire s) (k - m)"
      by (simp add: ram_write_def del: add_diff_assoc diff_add_assoc)
    then    have "traffic (wire s) = (fs, Some (Frame c True bs m)) \<and> m + (k - m) = k \<and> ram ?t (a + (k - m)) = bus (wire s) (k - m)"
      using that by (simp add: assms(1) del: add_diff_assoc)
    then show ?thesis unfolding answered_def by blast
  qed
  moreover have "same_control s ?t" by (simp add: same_control_def arrays_def)
  ultimately show ?thesis using assms(1,3) by (simp add: traffic_append add_segment_def ram_write_def)
qed

lemma walk_read_chain:
  assumes "read_chain c len buf s" "chip_select c" "0 < len" "j < chunks len" "chunks len \<le> j + n"
    "traffic (wire s) = (fs, Some (Frame c True bs (256 * j)))"
  shows "\<exists>t. dma_walk bus n (Buf_Desc j) s = Inr t \<and> same_control s t \<and> sqi_cmd_wren t = sqi_cmd_wren s \<and>
    traffic (wire t) = (fs @ [Frame c True bs (read_length len)], None) \<and>
    (\<forall>k. 256 * j \<le> k \<and> k < read_length len \<longrightarrow> answered bus fs c bs k (ram t (buf + k))) \<and>
    (\<forall>x. \<not> (buf + 256 * j \<le> x \<and> x < buf + read_length len) \<longrightarrow> ram t x = ram s x)"
  using assms
proof (induction n arbitrary: j s)
  case 0
  then show ?case by simp
next
  case (Suc n)
  let ?d = "sqiBufDesc s ! j"
  have l: "length (sqiBufDesc s) = 32" and j: "j < 32"
    using Suc.prems(1,4) chunks_bounds(2) [of len] by (simp_all add: read_chain_def)
  have r: "descriptor (Buf_Desc j) s = Inr ?d" using l j by (simp add: descriptor_def)
  have d: "?d = (if j + 1 < chunks len then read_desc c len buf j else end_of_chain (read_desc c len buf j))"
    using Suc.prems(1,4) by (simp add: read_chain_def)
  have f: "flag SQI_BDCTRL_DIR_READ ?d" "chip_of (bd_ctrl ?d) = c" "bufflen ?d = chunk len j" "flag SQI_BDCTRL_DESCEN ?d"
    "bd_bufaddr ?d = Client (buf + 256 * j)"
    unfolding d using read_desc_fields [OF Suc.prems(2)] end_of_chain_fields [OF Suc.prems(2) refl]
    by (simp_all add: read_desc_def end_of_chain_def)
  from read_segment [OF Suc.prems(6) f(1,2,5), of bus] obtain u where
    u: "dma_segment bus ?d s = Inr u" "same_control s u" "sqi_cmd_wren u = sqi_cmd_wren s"
      "traffic (wire u) = (if bd_ctrl ?d AND SQI_BDCTRL_DEASSERT \<noteq> 0 then (fs @ [Frame c True bs (256 * j + chunk len j)], None)
        else (fs, Some (Frame c True bs (256 * j + chunk len j))))"
      "\<And>k. 256 * j \<le> k \<Longrightarrow> k < 256 * j + chunk len j \<Longrightarrow> answered bus fs c bs k (ram u (buf + k))"
      "\<And>x. \<not> (buf + 256 * j \<le> x \<and> x < buf + 256 * j + chunk len j) \<Longrightarrow> ram u x = ram s x"
    unfolding f(3) by (auto simp: add.assoc)
  show ?case
  proof (cases "j + 1 < chunks len")
    case False
    then have e: "?d = end_of_chain (read_desc c len buf j)" and k: "chunks len = j + 1" using d Suc.prems(4) by simp_all
    have "256 * j + chunk len j = read_length len"
      using k Suc.prems(3) unat_gt_0 [of len] by (auto simp: chunks_def chunk_def read_length_def min_def word_neq_0_conv split: if_splits)
    moreover have "dma_walk bus (Suc n) (Buf_Desc j) s = Inr u"
      using r f(4) u(1) end_of_chain_fields(3) [OF Suc.prems(2) refl] e by simp
    ultimately show ?thesis using u(2-6) e end_of_chain_fields(6) [OF Suc.prems(2) refl] by (auto simp: add.assoc)
  next
    case True
    then have e: "?d = read_desc c len buf j" using d by simp
    from True have k: "chunk len j = 256" "256 * j + 256 = 256 * (j + 1)" "256 * (j + 1) < read_length len"
      by (auto simp: chunks_def chunk_def read_length_def min_def split: if_splits)
    have w: "dma_walk bus (Suc n) (Buf_Desc j) s = dma_walk bus n (Buf_Desc (j + 1)) u"
      using r f(4) u(1) read_desc_fields(3) [OF Suc.prems(2)] e by (simp add: read_desc_def)
    have c: "read_chain c len buf u" using Suc.prems(1) u(2) by (simp add: read_chain_def same_control_def)
    have t: "traffic (wire u) = (fs, Some (Frame c True bs (256 * (j + 1))))"
      using u(4) e read_desc_fields(6) [OF Suc.prems(2)] k by simp
    have n: "chunks len \<le> (j + 1) + n" using Suc.prems(5) by simp
    from Suc.IH [OF c Suc.prems(2,3) True n t] obtain v where
      v: "dma_walk bus n (Buf_Desc (j + 1)) u = Inr v" "same_control u v" "sqi_cmd_wren v = sqi_cmd_wren u"
        "traffic (wire v) = (fs @ [Frame c True bs (read_length len)], None)"
        "\<forall>k. 256 * (j + 1) \<le> k \<and> k < read_length len \<longrightarrow> answered bus fs c bs k (ram v (buf + k))"
        "\<forall>x. \<not> (buf + 256 * (j + 1) \<le> x \<and> x < buf + read_length len) \<longrightarrow> ram v x = ram u x"
      by (elim exE conjE) (rule that)
    have "answered bus fs c bs k (ram v (buf + k))" if "256 * j \<le> k" "k < read_length len" for k
    proof (cases "256 * (j + 1) \<le> k")
      case True
      then show ?thesis using that v(5) by simp
    next
      case False
      then have "ram v (buf + k) = ram u (buf + k)" using v(6) by simp
      then show ?thesis using u(5) [of k] that(1) False k by simp
    qed
    moreover have "ram v x = ram s x" if "\<not> (buf + 256 * j \<le> x \<and> x < buf + read_length len)" for x
      using that spec [OF v(6), of x] u(6) [of x] k by auto
    ultimately show ?thesis using w v(1,3,4) u(3) same_control_trans [OF u(2) v(2)] by auto
  qed
qed


text \<open>Whatever frame is under way, the descriptors of a read end it.\<close>

lemma read_segment_any:
  assumes "flag SQI_BDCTRL_DIR_READ d" "bd_bufaddr d = Client a"
  shows "\<exists>t. dma_segment bus d s = Inr t \<and> same_control s t \<and> sqi_cmd_wren t = sqi_cmd_wren s \<and>
    (bd_ctrl d AND SQI_BDCTRL_DEASSERT \<noteq> 0 \<longrightarrow> (\<exists>fs. traffic (wire t) = (fs, None)))"
  using assms by (auto simp: dma_segment_def dma_store_def same_control_def arrays_def traffic_append add_segment_def Let_def
      split: option.split prod.split)

lemma walk_read_any:
  assumes "read_chain c len buf s" "chip_select c" "j < chunks len" "chunks len \<le> j + n"
  shows "\<exists>t fs. dma_walk bus n (Buf_Desc j) s = Inr t \<and> same_control s t \<and> sqi_cmd_wren t = sqi_cmd_wren s \<and>
    traffic (wire t) = (fs, None)"
  using assms
proof (induction n arbitrary: j s)
  case 0
  then show ?case by simp
next
  case (Suc n)
  let ?d = "sqiBufDesc s ! j"
  have r: "descriptor (Buf_Desc j) s = Inr ?d"
    using Suc.prems(1,3) chunks_bounds(2) [of len] by (simp add: read_chain_def descriptor_def)
  have d: "?d = (if j + 1 < chunks len then read_desc c len buf j else end_of_chain (read_desc c len buf j))"
    using Suc.prems(1,3) by (simp add: read_chain_def)
  have f: "flag SQI_BDCTRL_DIR_READ ?d" "flag SQI_BDCTRL_DESCEN ?d" "bd_bufaddr ?d = Client (buf + 256 * j)"
    unfolding d using read_desc_fields [OF Suc.prems(2)] end_of_chain_fields [OF Suc.prems(2) refl]
    by (simp_all add: read_desc_def end_of_chain_def)
  from read_segment_any [OF f(1,3), of bus s] obtain u where
    u: "dma_segment bus ?d s = Inr u" "same_control s u" "sqi_cmd_wren u = sqi_cmd_wren s"
      "bd_ctrl ?d AND SQI_BDCTRL_DEASSERT \<noteq> 0 \<longrightarrow> (\<exists>fs. traffic (wire u) = (fs, None))"
    by (elim exE conjE) (rule that)
  show ?case
  proof (cases "j + 1 < chunks len")
    case False
    then have "?d = end_of_chain (read_desc c len buf j)" using d by simp
    then show ?thesis using r f(2) u end_of_chain_fields(3,6) [OF Suc.prems(2) refl] by auto
  next
    case True
    then have e: "?d = read_desc c len buf j" using d by simp
    have w: "dma_walk bus (Suc n) (Buf_Desc j) s = dma_walk bus n (Buf_Desc (j + 1)) u"
      using r f(2) u(1) read_desc_fields(3) [OF Suc.prems(2)] e by (simp add: read_desc_def)
    have c: "read_chain c len buf u" using Suc.prems(1) u(2) by (simp add: read_chain_def same_control_def)
    have n: "chunks len \<le> (j + 1) + n" using Suc.prems(4) by simp
    from Suc.IH [OF c Suc.prems(2) True n] obtain v fs where
      v: "dma_walk bus n (Buf_Desc (j + 1)) u = Inr v" "same_control u v" "sqi_cmd_wren v = sqi_cmd_wren u"
        "traffic (wire v) = (fs, None)" by (elim exE conjE) (rule that)
    then show ?thesis using w u(3) same_control_trans [OF u(2) v(2)] by auto
  qed
qed

text \<open>The state in which a read leaves the driver before the transfer: the chain behind the old first descriptor.\<close>

definition read_command :: "u32 \<Rightarrow> u8 list" where
  "read_command a = SST26_CMD_HIGH_SPEED_READ # address_bytes a @ [DUMMY_BYTE, DUMMY_BYTE, DUMMY_BYTE]"

definition read_started :: "u32 \<Rightarrow> u32 \<Rightarrow> nat \<Rightarrow> u32 \<Rightarrow> sst26 \<Rightarrow> sst26 \<Rightarrow> bool" where
  "read_started c len buf a s t \<longleftrightarrow> ready t \<and> \<not> isTransferDone t \<and> dma t = Some (Cmd_Desc 0) \<and> handle t = handle s \<and>
     ram t = ram s \<and> wire t = wire s \<and> sqi_cmd_wren t = sqi_cmd_wren s \<and> sqi_cmd t = read_command a \<and>
     sqiCmdDesc t ! 0 = sqiCmdDesc s ! 0 \<and> read_chain c len buf t \<and> sqiCmdDesc t ! 1 =
     \<lparr>bd_ctrl = 7 OR SQI_BDCTRL_MODE_QUAD_LANE OR c OR SQI_BDCTRL_DESCEN, bd_stat = 0, bd_bufaddr = Sqi_Cmd,
      bd_nxtptr = Some (Buf_Desc 0)\<rparr>"

lemma read_starts:
  assumes "calm fs s" "check_handle h s" "0 < len"
  shows "\<exists>t. DRV_SST26_Read h buf len a s = Inr (True, t) \<and> read_started (cs_of (unat h) s) len buf a s t"
proof -
  let ?c = "cs_of (unat h) s"
  let ?s = "put_cmd_desc 1 (SQI_BDCTRL_BUFFLEN_VAL 7 OR SQI_BDCTRL_MODE_QUAD_LANE OR ?c OR SQI_BDCTRL_DESCEN) Sqi_Cmd
    (Some (Buf_Desc 0)) (put_cmd (read_command a) (begin_op DRV_SST26_OPERATION_TYPE_READ s))"
  have l: "length (sqiBufDesc ?s) = 32" using assms(1) by (simp add: put_cmd_desc_def put_cmd_def begin_op_def calm_eval)
  have len: "256 * 0 < unat len" "unat len = unat len - 256 * 0" using assms(3) unat_gt_0 [of len] by (simp_all add: word_neq_0_conv)
  from read_descs_spec [OF _ len l, of ?c buf] obtain D where
    D: "read_descs ?c len (buf + 256 * 0) 0 ?s = (chunks len, ?s\<lparr>sqiBufDesc := D\<rparr>)" "length D = 32"
      "\<forall>j<32. D ! j = (if 0 \<le> j \<and> j < chunks len then read_desc ?c len buf j else sqiBufDesc ?s ! j)"
    by auto
  let ?D = "D[chunks len - 1 := end_of_chain (D ! (chunks len - 1))]"
  let ?t = "?s\<lparr>sqiBufDesc := ?D, dma := Some (Cmd_Desc 0)\<rparr>"
  have "DRV_SST26_Read h buf len a s = Inr (True, ?t)"
    using assms(1-3) D(1) by (simp add: DRV_SST26_Read_def read_command_def DMATransfer_def put_cmd_desc_def put_cmd_def begin_op_def calm_eval)
  moreover have "read_chain ?c len buf ?t"
    unfolding read_chain_def using D(2,3) chunks_bounds [of len] assms(3) by (auto simp: nth_list_update)
  moreover have "ready ?t" "sqi_cmd ?t = read_command a" "sqiCmdDesc ?t ! 0 = sqiCmdDesc s ! 0"
    using assms(1) D(2) by (simp_all add: put_cmd_desc_def put_cmd_def begin_op_def calm_eval read_command_def)
  ultimately show ?thesis using assms(1)
    by (intro exI [of _ ?t]) (simp add: read_started_def put_cmd_desc_def put_cmd_def begin_op_def calm_eval SQI_BDCTRL_BUFFLEN_VAL_def)
qed

text \<open>When a read completes.\<close>

definition read_done :: "frame list \<Rightarrow> u32 \<Rightarrow> u8 list \<Rightarrow> u32 \<Rightarrow> nat \<Rightarrow> sst26 \<Rightarrow> flash_bus \<Rightarrow> sst26 \<Rightarrow> bool" where
  "read_done fs c bs len buf s bus t \<longleftrightarrow> handle t = handle s \<and> sqi_cmd_wren t = sqi_cmd_wren s \<and>
     sqiCmdDesc t ! 0 = sqiCmdDesc s ! 0 \<and> calm (fs @ [Frame c True bs (read_length len)]) t \<and>
     (\<forall>k < read_length len. answered bus fs c bs k (ram t (buf + k))) \<and>
     (\<forall>x. \<not> (buf \<le> x \<and> x < buf + read_length len) \<longrightarrow> ram t x = ram s x)"


lemma dma_walk_37: "dma_walk bus 37 r s =
    seq (descriptor r s) (\<lambda>d. if flag SQI_BDCTRL_DESCEN d
      then seq (dma_segment bus d s) (\<lambda>s. if flag SQI_BDCTRL_LASTBD d then Inr s
           else case bd_nxtptr d of None \<Rightarrow> Inl Null_Deref | Some r \<Rightarrow> dma_walk bus 36 r s)
      else Inl Diverges)"
  using dma_walk.simps(2) [of bus 36 r s] by (simp del: dma_walk.simps)

lemma dma_walk_36: "dma_walk bus 36 r s =
    seq (descriptor r s) (\<lambda>d. if flag SQI_BDCTRL_DESCEN d
      then seq (dma_segment bus d s) (\<lambda>s. if flag SQI_BDCTRL_LASTBD d then Inr s
           else case bd_nxtptr d of None \<Rightarrow> Inl Null_Deref | Some r \<Rightarrow> dma_walk bus 35 r s)
      else Inl Diverges)"
  using dma_walk.simps(2) [of bus 35 r s] by (simp del: dma_walk.simps)

lemma length_read_command [simp]: "length (read_command a) = 7"
  by (simp add: read_command_def)

lemma stale_lengths: "n = 2 \<or> n = 6 \<Longrightarrow> unat (n :: u32) = 2 \<or> unat n = 6"
  by auto

text \<open>The engine at the chain of the read, for each descriptor that can be in front of it.\<close>

lemma walk_stale:
  assumes "read_started c len buf a s t" "stale_command n c' s" "n = 2 \<or> n = 6" "chip_select c'"
    and x: "x = bd_ctrl (sqiCmdDesc s ! 0)"
  shows "dma_walk bus 37 (Cmd_Desc 0) (t\<lparr>dma := None\<rparr>) = dma_walk bus 36 (Buf_Desc 0)
      (t\<lparr>dma := None, wire := wire s @ [Out x (take (unat n) (read_command a))]\<rparr>)"
    and "chip_of x = c'" "quad_of x" "x AND SQI_BDCTRL_DEASSERT = 0"
proof -
  have d: "descriptor (Cmd_Desc 0) (t\<lparr>dma := None\<rparr>) = Inr (sqiCmdDesc s ! 0)"
    using assms(1) by (simp add: read_started_def ready_def arrays_def descriptor_def)
  note eval = dma_walk_37 stale_command_def dma_segment_def dma_load_def static_bytes_def read_started_def
      flag_def bufflen_def sqi_bits chip_of_def quad_of_def x
  show "dma_walk bus 37 (Cmd_Desc 0) (t\<lparr>dma := None\<rparr>) = dma_walk bus 36 (Buf_Desc 0)
      (t\<lparr>dma := None, wire := wire s @ [Out x (take (unat n) (read_command a))]\<rparr>)"
    by (rule chip_select_cases [OF assms(4)]; rule disjE [OF assms(3)]; use assms(1,2) d in
        \<open>simp add: eval cong: seq_weak_cong\<close>)
  show "chip_of x = c'" "quad_of x" "x AND SQI_BDCTRL_DEASSERT = 0"
    by (rule chip_select_cases [OF assms(4)]; rule disjE [OF assms(3)]; use assms(2) in \<open>simp add: eval\<close>)+
qed

lemma walk_write_first:
  assumes "read_started c len buf a s t" "write_first c' s" "chip_select c'" "chip_select c"
    and x: "x = bd_ctrl (sqiCmdDesc s ! 0)" and y: "y = bd_ctrl (sqiCmdDesc t ! 1)"
  shows "dma_walk bus 37 (Cmd_Desc 0) (t\<lparr>dma := None\<rparr>) = dma_walk bus 35 (Buf_Desc 0)
      (t\<lparr>dma := None, wire := wire s @ [Out x [0x06], Out y (read_command a)]\<rparr>)"
    and "chip_of x = c'" "quad_of x" "x AND SQI_BDCTRL_DEASSERT \<noteq> 0"
    and "chip_of y = c" "quad_of y" "y AND SQI_BDCTRL_DEASSERT = 0"
proof -
  have d: "descriptor (Cmd_Desc 0) (t\<lparr>dma := None\<rparr>) = Inr (sqiCmdDesc s ! 0)"
    "descriptor (Cmd_Desc 1) (t\<lparr>dma := None, wire := w\<rparr>) = Inr (sqiCmdDesc t ! 1)" for w
    using assms(1) by (simp_all add: read_started_def ready_def arrays_def descriptor_def)
  note eval = dma_walk_37 dma_walk_36 write_first_def dma_segment_def dma_load_def static_bytes_def read_started_def
      flag_def bufflen_def sqi_bits sqi_commands chip_of_def quad_of_def x y
  show "dma_walk bus 37 (Cmd_Desc 0) (t\<lparr>dma := None\<rparr>) = dma_walk bus 35 (Buf_Desc 0)
      (t\<lparr>dma := None, wire := wire s @ [Out x [0x06], Out y (read_command a)]\<rparr>)"
    by (rule chip_select_cases [OF assms(3)]; rule chip_select_cases [OF assms(4)]; use assms(1,2) d in
        \<open>simp add: eval cong: seq_weak_cong\<close>)
  show "chip_of x = c'" "quad_of x" "x AND SQI_BDCTRL_DEASSERT \<noteq> 0"
    by (rule chip_select_cases [OF assms(3)]; use assms(2) in \<open>simp add: eval\<close>)+
  show "chip_of y = c" "quad_of y" "y AND SQI_BDCTRL_DEASSERT = 0"
    by (rule chip_select_cases [OF assms(4)]; use assms(1) in \<open>simp add: eval\<close>)+
qed


lemma read_chain_frame [simp]: "read_chain c len buf (t\<lparr>dma := x, wire := w\<rparr>) = read_chain c len buf t"
  by (simp add: read_chain_def)

text \<open>The chain has been walked: what the driver finds when the interrupt comes.\<close>

lemma read_completes:
  assumes t: "read_started c len buf a s t" and c: "chip_select c" and len: "0 < len"
    and w: "traffic w = (fs, Some (Frame c True bs 0))" and n: "32 \<le> n"
  shows "\<exists>u. dma_walk bus n (Buf_Desc 0) (t\<lparr>dma := None, wire := w\<rparr>) = Inr u \<and>
    read_done fs c bs len buf s bus (u\<lparr>isTransferDone := True\<rparr>)"
proof -
  let ?v = "t\<lparr>dma := None, wire := w\<rparr>"
  have ch: "read_chain c len buf ?v" using t by (simp add: read_started_def)
  have k: "0 < chunks len" "chunks len \<le> 0 + n" using chunks_bounds [of len] len n by simp_all
  have f: "traffic (wire ?v) = (fs, Some (Frame c True bs (256 * 0)))" using w by simp
  from walk_read_chain [OF ch c len k f, of bus] obtain u where
    u: "dma_walk bus n (Buf_Desc 0) ?v = Inr u" "same_control ?v u" "sqi_cmd_wren u = sqi_cmd_wren ?v"
      "traffic (wire u) = (fs @ [Frame c True bs (read_length len)], None)"
      "\<forall>k. 256 * 0 \<le> k \<and> k < read_length len \<longrightarrow> answered bus fs c bs k (ram u (buf + k))"
      "\<forall>x. \<not> (buf + 256 * 0 \<le> x \<and> x < buf + read_length len) \<longrightarrow> ram u x = ram ?v x"
    by (elim exE conjE) (rule that)
  have "read_done fs c bs len buf s bus (u\<lparr>isTransferDone := True\<rparr>)"
    using u(2-6) t unfolding read_done_def
    by (auto simp: same_control_def read_started_def calm_def idle_def ready_def arrays_def)
  with u(1) show ?thesis by blast
qed

lemma read_after_write:
  assumes s: "calm fs s" and c: "chip_select c" and len: "0 < len" and first: "write_first c s"
    and t: "read_started c len buf a s t"
  shows "pending (read_done (fs @ [write_enable_frame c]) c (read_command a) len buf s) t"
proof (rule pendingI [where r = "Cmd_Desc 0"])
  show "ready t" "\<not> isTransferDone t" "dma t = Some (Cmd_Desc 0)" using t by (simp_all add: read_started_def)
  fix bus
  let ?x = "bd_ctrl (sqiCmdDesc s ! 0)" and ?y = "bd_ctrl (sqiCmdDesc t ! 1)"
  note w = walk_write_first [OF t first c c refl refl]
  have "traffic (wire s @ [Out ?x [0x06], Out ?y (read_command a)])
    = (fs @ [write_enable_frame c], Some (Frame c True (read_command a) 0))"
    using s w(2-7) by (simp add: calm_def traffic_append add_segment_def new_frame_def write_enable_frame_def)
  from read_completes [OF t c len this, of 35 bus]
  show "\<exists>u. dma_walk bus 37 (Cmd_Desc 0) (t\<lparr>dma := None\<rparr>) = Inr u \<and>
    read_done (fs @ [write_enable_frame c]) c (read_command a) len buf s bus (u\<lparr>isTransferDone := True\<rparr>)"
    unfolding w(1) by simp
qed

lemma read_after_read:
  assumes s: "calm fs s" and c: "chip_select c" and len: "0 < len" and first: "stale_command n c s" "n = 2 \<or> n = 6"
    and t: "read_started c len buf a s t"
  shows "pending (read_done fs c (take (unat n) (read_command a)) len buf s) t"
proof (rule pendingI [where r = "Cmd_Desc 0"])
  show "ready t" "\<not> isTransferDone t" "dma t = Some (Cmd_Desc 0)" using t by (simp_all add: read_started_def)
  fix bus
  let ?x = "bd_ctrl (sqiCmdDesc s ! 0)"
  note w = walk_stale [OF t first c refl]
  have "traffic (wire s @ [Out ?x (take (unat n) (read_command a))])
    = (fs, Some (Frame c True (take (unat n) (read_command a)) 0))"
    using s w(2-4) by (simp add: calm_def traffic_append add_segment_def new_frame_def)
  from read_completes [OF t c len this, of 36 bus]
  show "\<exists>u. dma_walk bus 37 (Cmd_Desc 0) (t\<lparr>dma := None\<rparr>) = Inr u \<and>
    read_done fs c (take (unat n) (read_command a)) len buf s bus (u\<lparr>isTransferDone := True\<rparr>)"
    unfolding w(1) by simp
qed

text \<open>
  In general the first descriptor was left behind by an operation on either chip; then all that can
  be said is that the read ends.
\<close>

definition linked :: "sst26 \<Rightarrow> bool" where
  "linked s \<longleftrightarrow> (\<exists>c. chip_select c \<and> (write_first c s \<or> stale_command 2 c s \<or> stale_command 6 c s))"

definition ended :: "sst26 \<Rightarrow> flash_bus \<Rightarrow> sst26 \<Rightarrow> bool" where
  "ended s bus t \<longleftrightarrow> handle t = handle s \<and> linked t \<and> (\<exists>fs. calm fs t)"

lemma read_ends:
  assumes c: "chip_select c" and len: "0 < len" and first: "linked s"
    and t: "read_started c len buf a s t"
  shows "pending (ended s) t"
proof (rule pendingI [where r = "Cmd_Desc 0"])
  show "ready t" "\<not> isTransferDone t" "dma t = Some (Cmd_Desc 0)" using t by (simp_all add: read_started_def)
  fix bus
  obtain n w where n: "32 \<le> n"
    and w: "dma_walk bus 37 (Cmd_Desc 0) (t\<lparr>dma := None\<rparr>) = dma_walk bus n (Buf_Desc 0) (t\<lparr>dma := None, wire := w\<rparr>)"
  proof -
    from first obtain c' where "chip_select c'"
      and "write_first c' s \<or> (\<exists>m. stale_command m c' s \<and> (m = 2 \<or> m = 6))" unfolding linked_def by blast
    then show ?thesis
      using that [OF _ walk_write_first(1) [OF t _ _ c refl refl]] that [OF _ walk_stale(1) [OF t _ _ _ refl]] by fastforce
  qed
  let ?v = "t\<lparr>dma := None, wire := w\<rparr>"
  have ch: "read_chain c len buf ?v" using t by (simp add: read_started_def)
  have k: "0 < chunks len" "chunks len \<le> 0 + n" using chunks_bounds [of len] len n by simp_all
  from walk_read_any [OF ch c k, of bus] obtain u fs where
    u: "dma_walk bus n (Buf_Desc 0) ?v = Inr u" "same_control ?v u" "sqi_cmd_wren u = sqi_cmd_wren ?v"
      "traffic (wire u) = (fs, None)"
    by (elim exE conjE) (rule that)
  have "calm fs (u\<lparr>isTransferDone := True\<rparr>)" "handle u = handle s" "sqiCmdDesc u ! 0 = sqiCmdDesc s ! 0"
    "sqi_cmd_wren u = sqi_cmd_wren s"
    using u(2-4) t by (auto simp: same_control_def read_started_def calm_eval)
  then have "ended s bus (u\<lparr>isTransferDone := True\<rparr>)"
    using first by (auto simp: ended_def linked_def write_first_def stale_command_def)
  then show "\<exists>u. dma_walk bus 37 (Cmd_Desc 0) (t\<lparr>dma := None\<rparr>) = Inr u \<and> ended s bus (u\<lparr>isTransferDone := True\<rparr>)"
    using u(1) w by auto
qed


section \<open>Safety\<close>

definition handle_ok :: "HANDLE_DATA \<Rightarrow> bool" where
  "handle_ok h \<longleftrightarrow> (opened h \<longrightarrow> chip_select (cs h) \<and>
     (\<exists>n. n \<in> {0x200000, 0x400000, 0x800000} \<and> geometry h = fill_geometry n))"

definition flash_inv :: "sst26 \<Rightarrow> bool" where
  "flash_inv s \<longleftrightarrow> (\<forall>i<2. handle_ok (handle s ! i)) \<and>
     (if dma s = None then (\<exists>fs. calm fs s) \<and> ((\<exists>i<2. opened (handle s ! i)) \<longrightarrow> linked s)
      else pending (ended s) s)"

text \<open>
  The rules of the clients: an index is opened while no transfer is under way, and never again once
  its handle has been closed; the status is one byte; a read has a length.
\<close>

definition flash_ok :: "flash_event \<Rightarrow> sst26 \<Rightarrow> bool" where
  "flash_ok ev s \<longleftrightarrow>
     (case ev of
        Ev_Open i \<Rightarrow> dma s = None \<and> (\<forall>k<2. i = int k \<longrightarrow> cs_of k s \<noteq> SQI_INVALID_CS_VALUE)
      | Ev_ReadStatus h a n \<Rightarrow> n = 1
      | Ev_Read h a n adr \<Rightarrow> n \<noteq> 0
      | _ \<Rightarrow> True)"

text \<open>A step leaves the select line of an index alone, or loses it for ever.\<close>

definition selects :: "sst26 \<Rightarrow> bool" where
  "selects s \<longleftrightarrow> (\<forall>i<2. chip_select (cs (handle s ! i)) \<or> cs (handle s ! i) = SQI_INVALID_CS_VALUE)"

definition keeps_selects :: "sst26 \<Rightarrow> sst26 \<Rightarrow> bool" where
  "keeps_selects s t \<longleftrightarrow> (\<forall>i<2. cs (handle t ! i) = cs (handle s ! i) \<or> cs (handle t ! i) = SQI_INVALID_CS_VALUE)"

lemma keeps_selects_handle: "handle t = handle s \<Longrightarrow> keeps_selects s t"
  by (simp add: keeps_selects_def)

lemma pending_mono: "pending P t \<Longrightarrow> (\<And>bus u. P bus u \<Longrightarrow> Q bus u) \<Longrightarrow> pending Q t"
  unfolding pending_def by blast

lemma flash_inv_calm: "flash_inv s \<Longrightarrow> check_handle h s \<Longrightarrow>
  \<exists>fs. calm fs s \<and> chip_select (cs_of (unat h) s) \<and> linked s"
  by (auto simp: flash_inv_def check_handle_def pending_def handle_ok_def cs_of_def sst26_consts split: if_splits)

lemma write_first_linked: "write_first c s \<Longrightarrow> chip_select c \<Longrightarrow> linked s"
  and stale_linked: "stale_command 2 c s \<Longrightarrow> chip_select c \<Longrightarrow> linked s"
  unfolding linked_def by blast+

text \<open>The requests that wait, and the ones that leave a transfer behind.\<close>

lemma flash_inv_waited:
  "flash_inv s \<Longrightarrow> handle t = handle s \<Longrightarrow> calm fs t \<Longrightarrow> linked t \<Longrightarrow> flash_inv t \<and> keeps_selects s t"
  by (auto simp: flash_inv_def keeps_selects_def calm_def idle_def)

lemma flash_inv_started:
  "flash_inv s \<Longrightarrow> handle t = handle s \<Longrightarrow> pending (ended s) t \<Longrightarrow> flash_inv t \<and> keeps_selects s t"
  by (auto simp: flash_inv_def keeps_selects_def pending_def ended_def)

lemma written_ended: "written fs c bs s bus t \<Longrightarrow> chip_select c \<Longrightarrow> ended s bus t"
  by (auto simp: written_def ended_def linked_def)

lemma write_event:
  assumes s: "flash_inv s"
    and op: "\<And>fs. calm fs s \<Longrightarrow> check_handle h s \<Longrightarrow> chip_select (cs_of (unat h) s) \<Longrightarrow>
      \<exists>t. X = Inr (True, t) \<and> handle t = handle s \<and> ram t = ram s \<and> pending (written fs (cs_of (unat h) s) bs s) t"
    and no: "\<not> check_handle h s \<Longrightarrow> X = Inr (False, s)"
  shows "\<exists>t. seq X (\<lambda>(r, s). Inr s) = Inr t \<and> flash_inv t \<and> keeps_selects s t"
proof (cases "check_handle h s")
  case True
  from flash_inv_calm [OF s True] obtain fs where fs: "calm fs s" "chip_select (cs_of (unat h) s)" by blast
  from op [OF fs(1) True fs(2)] obtain t where t: "X = Inr (True, t)" "handle t = handle s"
    "pending (written fs (cs_of (unat h) s) bs s) t" by blast
  from t(3) written_ended [OF _ fs(2)] have "pending (ended s) t" by (rule pending_mono)
  from flash_inv_started [OF s t(2) this] t(1) show ?thesis by simp
next
  case False
  with no s show ?thesis by (simp add: keeps_selects_def)
qed

lemma open_inv:
  assumes s: "flash_inv s" "dma s = None" and i: "i < 2" "chip_select (cs_of i s)"
  shows "\<exists>r t. open_index bus i s = Inr (r, t) \<and> flash_inv t \<and> keeps_selects s t"
proof -
  from s obtain fs where fs: "calm fs s" by (auto simp: flash_inv_def)
  from open_index_ok [OF fs i(2,1), of bus] obtain r t hd where
    t: "open_index bus i s = Inr (r, t)" "handle t = (handle s)[i := hd]" "cs hd = cs_of i s"
    "if get_flash_size (majorRevisionNumber (jedecId hd)) = 0
     then r = DRV_HANDLE_INVALID \<and> \<not> opened hd \<and> stale_command 2 (cs_of i s) t \<and>
       calm (fs @ opening_frames (cs_of i s)) t
     else r = of_nat i \<and> opened hd \<and> stale_command 6 (cs_of i s) t \<and>
       geometry hd = fill_geometry (get_flash_size (majorRevisionNumber (jedecId hd))) \<and>
       calm (fs @ opening_frames (cs_of i s) @ [Frame (cs_of i s) True [0x88, 0, 0, 0xFF, 0xFF, 0xFF] 8]) t"
    by (elim exE conjE) (rule that)
  have l: "length (handle s) = 2" using fs by (simp add: calm_eval)
  have hd: "handle_ok hd" using t(3,4) i(2) get_flash_size_cases [of "majorRevisionNumber (jedecId hd)"]
    by (auto simp: handle_ok_def split: if_splits)
  have calm: "\<exists>fs. calm fs t" and "linked t" using t(4) i(2) by (auto simp: linked_def split: if_splits)
  moreover have "handle_ok (handle t ! j)" if "j < 2" for j
    using that s(1) hd l i(1) by (cases "j = i") (auto simp: t(2) flash_inv_def)
  moreover have "keeps_selects s t"
    using l i(1) t(3) by (auto simp: keeps_selects_def t(2) cs_of_def nth_list_update)
  moreover have "dma t = None" using calm by (auto simp: calm_def idle_def)
  ultimately have "flash_inv t \<and> keeps_selects s t" by (simp add: flash_inv_def)
  with t(1) show ?thesis by blast
qed

lemma flash_step_ok:
  assumes s: "flash_inv s" "selects s" and ok: "flash_ok ev s"
  shows "\<exists>t. flash_step bus ev s = Inr t \<and> flash_inv t \<and> keeps_selects s t"
proof -
  have same: "flash_inv s \<and> keeps_selects s s" using s by (simp add: keeps_selects_def)
  have init: "initialized s" using s(1) by (auto simp: flash_inv_def pending_def calm_eval split: if_splits)
  have "\<exists>r t. X = Inr (r, t) \<and> flash_inv t \<and> keeps_selects s t \<Longrightarrow> \<exists>t. seq X (\<lambda>(r, s). Inr s) = Inr t \<and> flash_inv t \<and> keeps_selects s t"
    for X :: "('r \<times> sst26) outcome" by auto
  note ends = this
  show ?thesis
  proof (cases ev)
    case Ev_Initialize
    then show ?thesis using same init by (simp add: flash_step_def DRV_SST26_Initialize_def)
  next
    case (Ev_Open i)
    have cs: "chip_select (cs_of k s)" if "i = int k" "k < 2" for k
      using that ok s(2) Ev_Open by (auto simp: flash_ok_def selects_def cs_of_def)
    have free: "dma s = None" using ok Ev_Open by (simp add: flash_ok_def)
    have "\<exists>r t. DRV_SST26_Open bus i s = Inr (r, t) \<and> flash_inv t \<and> keeps_selects s t"
      using open_inv [OF s(1) free, of 0 bus] open_inv [OF s(1) free, of 1 bus] cs [of 0] cs [of 1] same
      by (simp add: DRV_SST26_Open_def)
    then show ?thesis using Ev_Open ends by (simp add: flash_step_def)
  next
    case (Ev_Close h)
    show ?thesis
    proof (cases "check_handle h s")
      case True
      with s(1) obtain fs where fs: "calm fs s" "linked s" using flash_inv_calm by blast
      let ?t = "upd_handle (unat h) (\<lambda>_. init_handle_data) s"
      have "calm fs ?t" "linked ?t" using fs
        by (auto simp: calm_eval upd_handle_def linked_def write_first_def stale_command_def)
      moreover from this have "dma ?t = None" by (simp add: calm_def idle_def)
      moreover have "handle_ok (handle ?t ! j)" if "j < 2" for j
      proof (cases "j = unat h")
        case True
        then have "handle ?t ! j = init_handle_data" using that fs(1) by (simp add: upd_handle_def calm_eval)
        then show ?thesis by (simp add: handle_ok_def init_handle_data_def)
      next
        case False
        then show ?thesis using that s(1) by (simp add: upd_handle_def flash_inv_def)
      qed
      moreover have "cs (handle ?t ! j) = cs (handle s ! j) \<or> cs (handle ?t ! j) = SQI_INVALID_CS_VALUE" if "j < 2" for j
        using that fs(1) by (cases "j = unat h") (simp_all add: upd_handle_def calm_eval init_handle_data_def)
      then have "keeps_selects s ?t" by (simp add: keeps_selects_def)
      ultimately show ?thesis using Ev_Close True by (auto simp: flash_step_def DRV_SST26_Close_def flash_inv_def)
    qed (use same Ev_Close in \<open>simp add: flash_step_def DRV_SST26_Close_def\<close>)
  next
    case Ev_Interrupt
    then show ?thesis
    proof (cases "dma s = None")
      case True
      then show ?thesis using same Ev_Interrupt by (simp add: flash_step_def sqi_interrupt_def)
    next
      case False
      with s(1) obtain t where t: "sqi_interrupt bus s = Inr t" "ended s bus t" by (auto simp: flash_inv_def pending_def)
      then show ?thesis using Ev_Interrupt flash_inv_waited [OF s(1)] by (auto simp: flash_step_def ended_def)
    qed
  next
    case (Ev_Unlock h)
    show ?thesis
    proof (cases "check_handle h s")
      case True
      with s(1) obtain fs where fs: "calm fs s" "chip_select (cs_of (unat h) s)" using flash_inv_calm by blast
      from unlock_flash_ok [OF this, of bus] obtain t fs' where
        t: "unlock_flash bus (unat h) s = Inr t" "handle t = handle s" "write_first (cs_of (unat h) s) t" "calm fs' t"
        by blast
      from flash_inv_waited [OF s(1) t(2,4) write_first_linked [OF t(3) fs(2)]] show ?thesis
        using True Ev_Unlock t(1) by (simp add: flash_step_def DRV_SST26_UnlockFlash_def)
    qed (use same Ev_Unlock in \<open>simp add: flash_step_def DRV_SST26_UnlockFlash_def\<close>)
  next
    case (Ev_ReadStatus h a n)
    show ?thesis
    proof (cases "check_handle h s")
      case True
      with s(1) obtain fs where fs: "calm fs s" "chip_select (cs_of (unat h) s)" using flash_inv_calm by blast
      from read_status_ok [OF fs(1) True fs(2), of bus a] obtain t fs' where
        t: "DRV_SST26_ReadStatus bus h a 1 s = Inr (True, t)" "handle t = handle s" "stale_command 2 (cs_of (unat h) s) t"
          "calm fs' t" by blast
      from flash_inv_waited [OF s(1) t(2,4) stale_linked [OF t(3) fs(2)]] show ?thesis
        using ok Ev_ReadStatus t(1) by (simp add: flash_step_def flash_ok_def)
    qed (use same Ev_ReadStatus in \<open>simp add: flash_step_def DRV_SST26_ReadStatus_def\<close>)
  next
    case (Ev_Read h a n adr)
    show ?thesis
    proof (cases "check_handle h s")
      case True
      with s(1) obtain fs where fs: "calm fs s" "chip_select (cs_of (unat h) s)" "linked s" using flash_inv_calm by blast
      have n: "0 < n" using ok Ev_Read by (simp add: flash_ok_def word_neq_0_conv)
      from read_starts [OF fs(1) True n, of a adr] obtain t where
        t: "DRV_SST26_Read h a n adr s = Inr (True, t)" "read_started (cs_of (unat h) s) n a adr s t" by blast
      from read_ends [OF fs(2) n fs(3) t(2)] have "pending (ended s) t" .
      moreover have "handle t = handle s" using t(2) by (simp add: read_started_def)
      ultimately show ?thesis using flash_inv_started [OF s(1)] t(1) Ev_Read by (auto simp: flash_step_def)
    qed (use same Ev_Read in \<open>simp add: flash_step_def DRV_SST26_Read_def\<close>)
  next
    case (Ev_PageWrite h a adr)
    show ?thesis unfolding Ev_PageWrite flash_step_def flash_event.case
      by (rule write_event [OF s(1) page_write_ok [of _ s h a adr]]) (auto simp: DRV_SST26_PageWrite_def)
  next
    case (Ev_SectorErase h adr)
    show ?thesis unfolding Ev_SectorErase flash_step_def flash_event.case
      by (rule write_event [OF s(1) sector_erase_ok [of _ s h adr]]) (auto simp: DRV_SST26_SectorErase_def)
  next
    case (Ev_BulkErase h adr)
    show ?thesis unfolding Ev_BulkErase flash_step_def flash_event.case
      by (rule write_event [OF s(1) bulk_erase_ok [of _ s h adr]]) (auto simp: DRV_SST26_BulkErase_def)
  next
    case (Ev_ChipErase h)
    show ?thesis unfolding Ev_ChipErase flash_step_def flash_event.case
      by (rule write_event [OF s(1) chip_erase_ok [of _ s h]]) (auto simp: DRV_SST26_ChipErase_def)
  qed
qed

lemma keeps_selects_selects: "selects s \<Longrightarrow> keeps_selects s t \<Longrightarrow> selects t"
  unfolding selects_def keeps_selects_def by metis

lemma keeps_selects_trans: "keeps_selects s t \<Longrightarrow> keeps_selects t u \<Longrightarrow> keeps_selects s u"
  unfolding keeps_selects_def by metis

text \<open>The driver is a task that is safe for clients that keep the rules, whatever the chips answer.\<close>

interpretation flash: guarded_task "flash_step bus" "\<lambda>s. flash_inv s \<and> selects s" flash_ok keeps_selects for bus
proof
  fix s ev
  assume "flash_inv s \<and> selects s" "flash_ok ev s"
  then show "\<exists>t. flash_step bus ev s = Inr t \<and> (flash_inv t \<and> selects t) \<and> keeps_selects s t"
    using flash_step_ok [of s ev bus] keeps_selects_selects [of s] by blast
qed (rule keeps_selects_handle [OF refl], rule keeps_selects_trans)

definition flash_initialized :: "(nat \<Rightarrow> u8) \<Rightarrow> sst26" where
  "flash_initialized m = snd (DRV_SST26_Initialize (sst26_power_on m))"

lemma flash_initialized_eq: "flash_initialized m = (sst26_power_on m)\<lparr>initialized := True, isTransferDone := True,
    status := SYS_STATUS_READY, handle := [init_handle_data\<lparr>cs := SQI_BDCTRL_SQICS_CS0\<rparr>,
      init_handle_data\<lparr>cs := SQI_BDCTRL_SQICS_CS1\<rparr>], callback := True\<rparr>"
  by (simp add: flash_initialized_def DRV_SST26_Initialize_def sst26_power_on_def upd_handle_def sst26_consts
      eval_nat_numeral Let_def)

lemma flash_initialized_inv: "flash_inv (flash_initialized m)" "selects (flash_initialized m)" "calm [] (flash_initialized m)"
proof -
  show c: "calm [] (flash_initialized m)"
    by (simp add: flash_initialized_eq sst26_power_on_def calm_eval sst26_consts traffic_def)
  show "selects (flash_initialized m)"
    by (simp add: flash_initialized_eq sst26_power_on_def selects_def chip_select_def less_2_cases_iff)
  show "flash_inv (flash_initialized m)"
    using c by (auto simp: flash_inv_def handle_ok_def flash_initialized_eq sst26_power_on_def init_handle_data_def less_2_cases_iff)
qed

text \<open>
  C12: As long as its clients keep three rules, the flash driver neither waits for ever nor lets the
  DMA engine leave its buffers, and always has whatever transfer is under way completed, for all
  answers of the chips: after initialisation, for every sequence of calls and interrupts in which
  an index is opened only while no transfer is under way and not again after it was closed, the
  status is read into one byte and reads have a length. An opened handle has a select line and
  the geometry of one of the known devices.
\<close>

theorem flash_driver_safe:
  assumes "ok_run flash_ok (flash_step bus) evs (flash_initialized m)"
  shows "\<exists>t. run (flash_step bus) evs (flash_initialized m) = Inr t \<and>
    (\<forall>r. dma t = Some r \<longrightarrow> (\<exists>u. sqi_interrupt bus t = Inr u \<and> dma u = None \<and> isTransferDone u)) \<and>
    (dma t = None \<longrightarrow> isTransferDone t) \<and>
    (\<forall>i<2. opened (handle t ! i) \<longrightarrow> cs (handle t ! i) = (if i = 0 then SQI_BDCTRL_SQICS_CS0 else SQI_BDCTRL_SQICS_CS1) \<and>
      (\<exists>n \<in> {0x200000, 0x400000, 0x800000}. geometry (handle t ! i) = fill_geometry n))"
proof -
  from flash.run_ok [OF _ assms] flash_initialized_inv obtain t where
    t: "run (flash_step bus) evs (flash_initialized m) = Inr t" "flash_inv t" "keeps_selects (flash_initialized m) t"
    by blast
  have "opened (handle t ! i) \<longrightarrow> cs (handle t ! i) = (if i = 0 then SQI_BDCTRL_SQICS_CS0 else SQI_BDCTRL_SQICS_CS1) \<and>
      (\<exists>n \<in> {0x200000, 0x400000, 0x800000}. geometry (handle t ! i) = fill_geometry n)" if i: "i < 2" for i
  proof
    assume o: "opened (handle t ! i)"
    from t(2) i have "handle_ok (handle t ! i)" by (simp add: flash_inv_def)
    with o have h: "chip_select (cs (handle t ! i))"
      "\<exists>n \<in> {0x200000, 0x400000, 0x800000}. geometry (handle t ! i) = fill_geometry n"
      by (auto simp: handle_ok_def)
    from h(1) have "cs (handle t ! i) \<noteq> SQI_INVALID_CS_VALUE" by (auto simp: chip_select_def sqi_bits SQI_INVALID_CS_VALUE_def)
    with t(3) i have "cs (handle t ! i) = cs (handle (flash_initialized m) ! i)" unfolding keeps_selects_def by blast
    also have "\<dots> = (if i = 0 then SQI_BDCTRL_SQICS_CS0 else SQI_BDCTRL_SQICS_CS1)"
      using i by (simp add: flash_initialized_eq less_2_cases_iff) auto
    finally show "cs (handle t ! i) = (if i = 0 then SQI_BDCTRL_SQICS_CS0 else SQI_BDCTRL_SQICS_CS1) \<and>
      (\<exists>n \<in> {0x200000, 0x400000, 0x800000}. geometry (handle t ! i) = fill_geometry n)" using h(2) by simp
  qed
  moreover have "\<exists>u. sqi_interrupt bus t = Inr u \<and> dma u = None \<and> isTransferDone u" if "dma t = Some r" for r
    using t(2) that by (auto simp: flash_inv_def pending_def ended_def calm_def idle_def)
  moreover have "dma t = None \<longrightarrow> isTransferDone t" using t(2) by (auto simp: flash_inv_def calm_def idle_def)
  ultimately show ?thesis by (rule_tac exI [of _ t]) (intro conjI allI impI; simp add: t(1))
qed


section \<open>The flash memory as an array of bytes\<close>

text \<open>
  What the driver relies on, from the data sheet of the chip: \<open>cells fs\<close> are its contents after the
  frames \<open>fs\<close>, in which it has been opened. A high speed read, three address bytes and three dummy
  bytes long in quad mode, answers the contents from the address on; after a write enable an erase
  command sets a sector of 4096 bytes or the chip to ones and a page program command clears bits of
  a page of 256.
\<close>

definition address :: "u8 list \<Rightarrow> nat" where
  "address adr = unat (adr ! 0) * 65536 + unat (adr ! 1) * 256 + unat (adr ! 2)"

definition erase_sector :: "nat \<Rightarrow> (nat \<Rightarrow> u8) \<Rightarrow> nat \<Rightarrow> u8" where
  "erase_sector a m = (\<lambda>x. if x div 4096 = a div 4096 then 0xFF else m x)"

definition program_page :: "nat \<Rightarrow> u8 list \<Rightarrow> (nat \<Rightarrow> u8) \<Rightarrow> nat \<Rightarrow> u8" where
  "program_page a bs m = (\<lambda>x. if a \<le> x \<and> x < a + 256 then m x AND bs ! (x - a) else m x)"

definition flash_memory :: "u32 \<Rightarrow> nat \<Rightarrow> frame list \<Rightarrow> flash_bus \<Rightarrow> (frame list \<Rightarrow> nat \<Rightarrow> u8) \<Rightarrow> bool" where
  "flash_memory c cap f0 bus cells \<longleftrightarrow>
     (\<forall>w fs adr d m k. prefix f0 fs \<and> traffic w = (fs, Some (Frame c True (0x0B # adr @ d) m)) \<and>
        length adr = 3 \<and> length d = 3 \<and> address adr + m + k < cap \<longrightarrow> bus w k = cells fs (address adr + m + k)) \<and>
     (\<forall>fs. prefix f0 fs \<longrightarrow> cells (fs @ [write_enable_frame c]) = cells fs) \<and>
     (\<forall>fs adr. prefix f0 fs \<and> length adr = 3 \<longrightarrow>
        cells (fs @ [write_enable_frame c, Frame c True (0x20 # adr) 0]) = erase_sector (address adr) (cells fs)) \<and>
     (\<forall>fs. prefix f0 fs \<longrightarrow> cells (fs @ [write_enable_frame c, Frame c True [0xC7] 0]) = (\<lambda>x. 0xFF)) \<and>
     (\<forall>fs adr bs. prefix f0 fs \<and> length adr = 3 \<and> address adr mod 256 = 0 \<and> length bs = 256 \<longrightarrow>
        cells (fs @ [write_enable_frame c, Frame c True (0x02 # adr @ bs) 0]) = program_page (address adr) bs (cells fs))"

text \<open>The operations that write, what they do to the array, and the calls that carry them out.\<close>

datatype flash_write = Erase_Sector u32 | Erase_Chip | Program_Page u32 nat

fun apply_write :: "(nat \<Rightarrow> u8) \<Rightarrow> flash_write \<Rightarrow> (nat \<Rightarrow> u8) \<Rightarrow> nat \<Rightarrow> u8" where
  "apply_write r (Erase_Sector a) m = erase_sector (unat a) m"
| "apply_write r Erase_Chip m = (\<lambda>x. 0xFF)"
| "apply_write r (Program_Page a b) m = program_page (unat a) (map r [b..<b + 256]) m"

fun write_calls :: "u32 \<Rightarrow> flash_write \<Rightarrow> flash_event list" where
  "write_calls h (Erase_Sector a) = [Ev_SectorErase h a, Ev_Interrupt]"
| "write_calls h Erase_Chip = [Ev_ChipErase h, Ev_Interrupt]"
| "write_calls h (Program_Page a b) = [Ev_PageWrite h b a, Ev_Interrupt]"

fun write_fits :: "flash_write \<Rightarrow> bool" where
  "write_fits (Erase_Sector a) \<longleftrightarrow> unat a < 2 ^ 24"
| "write_fits Erase_Chip \<longleftrightarrow> True"
| "write_fits (Program_Page a b) \<longleftrightarrow> unat a < 2 ^ 24 \<and> unat a mod 256 = 0"

lemma address_bytes_value: "unat a < 2 ^ 24 \<Longrightarrow> address (address_bytes a) = unat a"
proof -
  assume a: "unat a < 2 ^ 24"
  have b: "unat (ucast (0xFF AND drop_bit n a) :: u8) = unat a div 2 ^ n mod 256" for n
  proof -
    have "(ucast (0xFF AND drop_bit n a) :: u8) = ucast (drop_bit n a)"
    proof -
      have m: "(0xFF :: u32) = mask 8" by (simp add: mask_eq_exp_minus_1)
      show ?thesis by (rule bit_word_eqI) (auto simp only: m bit_simps, auto)
    qed
    moreover have "unat (drop_bit n a) = unat a div 2 ^ n"
      unfolding unat_drop_bit_eq by (rule drop_bit_eq_div)
    ultimately show ?thesis by (simp add: unsigned_ucast_eq take_bit_eq_mod del: drop_bit_eq_div)
  qed
  have "address (address_bytes a) = unat a div 65536 mod 256 * 65536 + unat a div 256 mod 256 * 256 + unat a mod 256"
    using b [of 16] b [of 8] b [of 0] by (simp add: address_def address_bytes_def)
  also have "\<dots> = unat a"
  proof -
    have "unat a div 65536 < 256" using a by (simp add: less_mult_imp_div_less)
    then have "unat a div 65536 mod 256 = unat a div 65536" by simp
    moreover have "unat a div 256 div 256 = unat a div 65536" by (simp add: div_mult2_eq [symmetric])
    moreover have digits: "D * 256 + C = x \<Longrightarrow> A * 256 + B = D \<Longrightarrow> A * 65536 + B * 256 + C = x" for A B C D x :: nat by simp
    ultimately show ?thesis
      using digits [OF div_mult_mod_eq [of "unat a" 256] div_mult_mod_eq [of "unat a div 256" 256]] by simp
  qed
  finally show ?thesis .
qed

lemma check_handle_calm: "check_handle h s \<Longrightarrow> calm fs t \<Longrightarrow> handle t = handle s \<Longrightarrow> check_handle h t"
  by (simp add: check_handle_def calm_eval)

lemma pending_interrupt: "pending P t \<Longrightarrow> \<exists>u. flash_step bus Ev_Interrupt t = Inr u \<and> P bus u"
  by (auto simp: pending_def flash_step_def)

text \<open>One operation that writes, with the transfer.\<close>

lemma write_call:
  assumes s: "calm fs s" "check_handle h s" "chip_select c" "cs_of (unat h) s = c"
    and m: "flash_memory c cap f0 bus cells" "prefix f0 fs" and w: "write_fits w"
  shows "\<exists>t fs'. run (flash_step bus) (write_calls h w) s = Inr t \<and> calm fs' t \<and> prefix f0 fs' \<and> check_handle h t \<and>
    cs_of (unat h) t = c \<and> ram t = ram s \<and> write_first c t \<and> cells fs' = apply_write (ram s) w (cells fs)"
proof -
  have "\<exists>bs. (\<exists>t. run (flash_step bus) (write_calls h w) s = Inr t \<and> written fs c bs s bus t) \<and>
    cells (fs @ [write_enable_frame c, Frame c True bs 0]) = apply_write (ram s) w (cells fs)"
  proof (cases w)
    case (Erase_Sector a)
    from sector_erase_ok [OF s(1,2), of a] s(3,4) obtain t where
      t: "DRV_SST26_SectorErase h a s = Inr (True, t)" "pending (written fs c (0x20 # address_bytes a) s) t" by auto
    from pending_interrupt [OF t(2), of bus] t(1) have
      "\<exists>u. run (flash_step bus) (write_calls h w) s = Inr u \<and> written fs c (0x20 # address_bytes a) s bus u"
      using Erase_Sector by (auto simp: flash_step_def)
    moreover have "cells (fs @ [write_enable_frame c, Frame c True (0x20 # address_bytes a) 0]) = apply_write (ram s) w (cells fs)"
      using m w Erase_Sector by (simp add: flash_memory_def address_bytes_value)
    ultimately show ?thesis by blast
  next
    case Erase_Chip
    from chip_erase_ok [OF s(1,2)] s(3,4) obtain t where
      t: "DRV_SST26_ChipErase h s = Inr (True, t)" "pending (written fs c [0xC7] s) t" by auto
    from pending_interrupt [OF t(2), of bus] t(1) have
      "\<exists>u. run (flash_step bus) (write_calls h w) s = Inr u \<and> written fs c [0xC7] s bus u"
      using Erase_Chip by (auto simp: flash_step_def)
    moreover have "cells (fs @ [write_enable_frame c, Frame c True [0xC7] 0]) = apply_write (ram s) w (cells fs)"
      using m Erase_Chip by (simp add: flash_memory_def)
    ultimately show ?thesis by blast
  next
    case (Program_Page a b)
    let ?bs = "0x02 # address_bytes a @ map (ram s) [b..<b + 256]"
    from page_write_ok [OF s(1,2), of b a] s(3,4) obtain t where
      t: "DRV_SST26_PageWrite h b a s = Inr (True, t)" "pending (written fs c ?bs s) t" by auto
    from pending_interrupt [OF t(2), of bus] t(1) have
      "\<exists>u. run (flash_step bus) (write_calls h w) s = Inr u \<and> written fs c ?bs s bus u"
      using Program_Page by (auto simp: flash_step_def)
    moreover have "cells (fs @ [write_enable_frame c, Frame c True ?bs 0]) = apply_write (ram s) w (cells fs)"
      using m w Program_Page by (simp add: flash_memory_def address_bytes_value)
    ultimately show ?thesis by blast
  qed
  then obtain bs t where t: "run (flash_step bus) (write_calls h w) s = Inr t" "written fs c bs s bus t"
    "cells (fs @ [write_enable_frame c, Frame c True bs 0]) = apply_write (ram s) w (cells fs)" by blast
  have "cs_of (unat h) t = c" "prefix f0 (fs @ [write_enable_frame c, Frame c True bs 0])"
    using t(2) s(4) m(2) by (auto simp: written_def cs_of_def)
  then show ?thesis using t check_handle_calm [OF s(2)] unfolding written_def by blast
qed

lemma write_calls_run:
  assumes "calm fs s" "check_handle h s" "chip_select c" "cs_of (unat h) s = c"
    "flash_memory c cap f0 bus cells" "prefix f0 fs" "list_all write_fits ws" "ws \<noteq> []"
  shows "\<exists>t fs'. run (flash_step bus) (concat (map (write_calls h) ws)) s = Inr t \<and> calm fs' t \<and> prefix f0 fs' \<and>
    check_handle h t \<and> cs_of (unat h) t = c \<and> ram t = ram s \<and> write_first c t \<and>
    cells fs' = fold (apply_write (ram s)) ws (cells fs)"
  using assms
proof (induction ws arbitrary: fs s)
  case (Cons w ws)
  from write_call [OF Cons.prems(1-6), of w] Cons.prems(7) obtain t fs' where
    t: "run (flash_step bus) (write_calls h w) s = Inr t" "calm fs' t" "prefix f0 fs'" "check_handle h t"
      "cs_of (unat h) t = c" "ram t = ram s" "write_first c t" "cells fs' = apply_write (ram s) w (cells fs)"
    by (auto simp del: write_calls.simps)
  show ?case
  proof (cases "ws = []")
    case True
    then show ?thesis using t by auto
  next
    case False
    have ws: "list_all write_fits ws" using Cons.prems(7) by simp
    from Cons.IH [OF t(2,4) Cons.prems(3) t(5) Cons.prems(5) t(3) ws False] show ?thesis
      using t(1,6,8) by (auto simp: run_append simp del: write_calls.simps)
  qed
qed simp


text \<open>An index that has been opened after initialisation.\<close>

lemma opened_index:
  assumes "i < 2" and o: "DRV_SST26_Open bus (int i) (flash_initialized m) = Inr (h, s)" "h \<noteq> DRV_HANDLE_INVALID"
  shows "h = of_nat i" "unat h = i" "chip_select (cs_of i s)" "check_handle h s" "ram s = m"
    "stale_command 6 (cs_of i s) s" "calm (fst (traffic (wire s))) s" "flash_inv s" "opened (handle s ! i)"
    "cs_of i s = (if i = 0 then SQI_BDCTRL_SQICS_CS0 else SQI_BDCTRL_SQICS_CS1)"
proof -
  let ?s0 = "flash_initialized m" and ?c = "cs_of i (flash_initialized m)"
  have c: "chip_select ?c" using assms(1)
    by (auto simp: flash_initialized_eq sst26_power_on_def cs_of_def chip_select_def less_2_cases_iff)
  have "DRV_SST26_Open bus (int i) ?s0 = open_index bus i ?s0"
    using assms(1) by (auto simp: DRV_SST26_Open_def less_2_cases_iff flash_initialized_eq sst26_power_on_def)
  with o(1) have o': "open_index bus i ?s0 = Inr (h, s)" by simp
  from open_index_ok [OF flash_initialized_inv(3) c assms(1), of bus] obtain r t hd where
    x: "open_index bus i ?s0 = Inr (r, t)" "handle t = (handle ?s0)[i := hd]" "cs hd = ?c" "ram t = ram ?s0"
    "device_code bus [] ?c (majorRevisionNumber (jedecId hd))"
    "if get_flash_size (majorRevisionNumber (jedecId hd)) = 0
     then r = DRV_HANDLE_INVALID \<and> \<not> opened hd \<and> stale_command 2 ?c t \<and> calm ([] @ opening_frames ?c) t
     else r = of_nat i \<and> opened hd \<and> stale_command 6 ?c t \<and>
       geometry hd = fill_geometry (get_flash_size (majorRevisionNumber (jedecId hd))) \<and>
       calm ([] @ opening_frames ?c @ [Frame ?c True [0x88, 0, 0, 0xFF, 0xFF, 0xFF] 8]) t"
    by (elim exE conjE) (rule that)
  with o' have rt: "r = h" "t = s" by simp_all
  note t = x(2,3,4,6) [unfolded rt]
  have l: "length (handle ?s0) = 2" by (simp add: flash_initialized_eq)
  from t(4) o(2) have d: "h = of_nat i" "opened hd" "stale_command 6 ?c s" "\<exists>fs. calm fs s"
    by (auto split: if_splits)
  then show "h = of_nat i" by simp
  show u: "unat h = i" using d(1) assms(1) by (simp add: unat_of_nat)
  have cs: "cs_of i s = ?c" using t(1,2) l assms(1) by (simp add: cs_of_def)
  show "chip_select (cs_of i s)" "stale_command 6 (cs_of i s) s" using c d(3) cs by simp_all
  show "cs_of i s = (if i = 0 then SQI_BDCTRL_SQICS_CS0 else SQI_BDCTRL_SQICS_CS1)"
    using assms(1) unfolding cs by (auto simp: flash_initialized_eq sst26_power_on_def cs_of_def less_2_cases_iff)
  show "opened (handle s ! i)" using t(1) l assms(1) d(2) by simp
  then show "check_handle h s" using u d(4) assms(1) by (auto simp: check_handle_def calm_eval sst26_consts)
  show "ram s = m" using t(3) by (simp add: flash_initialized_eq sst26_power_on_def)
  show "calm (fst (traffic (wire s))) s" using d(4) by (auto simp: calm_def)
  have "dma ?s0 = None" by (simp add: flash_initialized_eq sst26_power_on_def)
  from open_inv [OF flash_initialized_inv(1) this assms(1) c, of bus] o' show "flash_inv s" by auto
qed

lemma read_call:
  assumes "calm fs s" "check_handle h s" "0 < len"
    and "\<And>t. read_started (cs_of (unat h) s) len buf a s t \<Longrightarrow> pending P t"
  shows "\<exists>t. run (flash_step bus) [Ev_Read h buf len a, Ev_Interrupt] s = Inr t \<and> P bus t"
proof -
  from read_starts [OF assms(1-3), of buf a] obtain t where
    t: "DRV_SST26_Read h buf len a s = Inr (True, t)" "read_started (cs_of (unat h) s) len buf a s t" by blast
  from pending_interrupt [OF assms(4) [OF t(2)], of bus] t(1) show ?thesis by (auto simp: flash_step_def)
qed

lemma read_command_bytes: "read_command a = 0x0B # address_bytes a @ [0xFF, 0xFF, 0xFF]"
  by (simp add: read_command_def sqi_commands sst26_consts)

lemma flash_memory_read:
  assumes "flash_memory c cap f0 bus cells" "prefix f0 fs" "traffic w = (fs, Some (Frame c True (read_command a) m))"
    and "unat a < 2 ^ 24" "unat a + m + k < cap"
  shows "bus w k = cells fs (unat a + m + k)"
proof -
  have "prefix f0 fs \<and> traffic w = (fs, Some (Frame c True (0x0B # address_bytes a @ [0xFF, 0xFF, 0xFF]) m)) \<and>
      length (address_bytes a) = 3 \<and> length [0xFF, 0xFF, 0xFF :: u8] = 3 \<and> address (address_bytes a) + m + k < cap \<longrightarrow>
      bus w k = cells fs (address (address_bytes a) + m + k)"
    using assms(1) unfolding flash_memory_def by blast
  then show ?thesis using assms(2-5) by (simp add: address_bytes_value read_command_bytes)
qed


text \<open>
  C25: A read that does not follow an operation that writes does not send its command. The transfer
  is started at the first command descriptor, which the read does not fill in, so that its length
  is the one the last operation left: right after an index has been opened the chip gets six of the
  seven bytes, without the last dummy byte, and after the status has been read the command code and
  a third of the address.
\<close>

theorem read_command_truncated:
  assumes "i < 2" "DRV_SST26_Open bus (int i) (flash_initialized m) = Inr (h, s)" "h \<noteq> DRV_HANDLE_INVALID" "0 < len"
  shows "(\<exists>t. run (flash_step bus) [Ev_Read h buf len a, Ev_Interrupt] s = Inr t \<and>
      fst (traffic (wire t)) = fst (traffic (wire s)) @
        [Frame (cs_of i s) True (0x0B # address_bytes a @ [0xFF, 0xFF]) (min 8192 (unat len))]) \<and>
    (\<exists>t. run (flash_step bus) [Ev_ReadStatus h p 1, Ev_Read h buf len a, Ev_Interrupt] s = Inr t \<and>
      fst (traffic (wire t)) = fst (traffic (wire s)) @
        [Frame (cs_of i s) True [0x05, 0xFF] 1,
         Frame (cs_of i s) True [0x0B, hd (address_bytes a)] (min 8192 (unat len))])"
proof -
  let ?fs = "fst (traffic (wire s))" and ?c = "cs_of i s"
  note o = opened_index [OF assms(1-3)]
  have c: "cs_of (unat h) s = ?c" by (simp add: o(2))
  have six: "take (unat (6 :: u32)) (read_command a) = 0x0B # address_bytes a @ [0xFF, 0xFF]"
    by (simp add: read_command_bytes address_bytes_def)
  have two: "take (unat (2 :: u32)) (read_command a) = [0x0B, hd (address_bytes a)]"
    by (simp add: read_command_bytes address_bytes_def)
  have "pending (read_done ?fs ?c (take (unat (6 :: u32)) (read_command a)) len buf s) t"
    if "read_started (cs_of (unat h) s) len buf a s t" for t
    using read_after_read [OF o(7,3) assms(4) o(6) _ that [unfolded c]] by simp
  from read_call [OF o(7,4) assms(4) this, where bus = bus] obtain t where
    "run (flash_step bus) [Ev_Read h buf len a, Ev_Interrupt] s = Inr t"
      "read_done ?fs ?c (take (unat (6 :: u32)) (read_command a)) len buf s bus t" by blast
  then have "\<exists>t. run (flash_step bus) [Ev_Read h buf len a, Ev_Interrupt] s = Inr t \<and>
      fst (traffic (wire t)) = ?fs @ [Frame ?c True (0x0B # address_bytes a @ [0xFF, 0xFF]) (min 8192 (unat len))]"
    unfolding six by (auto simp: read_done_def calm_def read_length_def simp del: run.simps)
  moreover
  from read_status_ok [OF o(7,4), of bus p] c o(3) obtain u b where
    u: "DRV_SST26_ReadStatus bus h p 1 s = Inr (True, u)" "handle u = handle s" "stale_command 2 ?c u"
      "calm (?fs @ [Frame ?c True [0x05, 0xFF] 1]) u" by auto
  have cu: "cs_of (unat h) u = ?c" using u(2) c by (simp add: cs_of_def)
  have "pending (read_done (?fs @ [Frame ?c True [0x05, 0xFF] 1]) ?c (take (unat (2 :: u32)) (read_command a)) len buf u) t"
    if "read_started (cs_of (unat h) u) len buf a u t" for t
    using read_after_read [OF u(4) o(3) assms(4) u(3) _ that [unfolded cu]] by simp
  from read_call [OF u(4) check_handle_calm [OF o(4) u(4,2)] assms(4) this, where bus = bus] obtain t where
    "run (flash_step bus) [Ev_Read h buf len a, Ev_Interrupt] u = Inr t"
      "read_done (?fs @ [Frame ?c True [0x05, 0xFF] 1]) ?c (take (unat (2 :: u32)) (read_command a)) len buf u bus t" by blast
  then have "\<exists>t. run (flash_step bus) [Ev_ReadStatus h p 1, Ev_Read h buf len a, Ev_Interrupt] s = Inr t \<and>
      fst (traffic (wire t)) = ?fs @ [Frame ?c True [0x05, 0xFF] 1,
         Frame ?c True [0x0B, hd (address_bytes a)] (min 8192 (unat len))]"
    using u(1) unfolding two by (auto simp: read_done_def calm_def read_length_def flash_step_def)
  ultimately show ?thesis by (rule conjI)
qed

text \<open>
  A handle that has been closed cannot be opened again. Closing replaces the select bits of the
  index by a marker that is not a select line, and opening does not restore them: the marker is
  joined to the control word of the first descriptor, whose length becomes 171, and the DMA engine
  reads past the end of the 7 byte command buffer.
\<close>

lemma reopen_overruns:
  assumes "i < 2" "DRV_SST26_Open bus (int i) (flash_initialized m) = Inr (h, s)" "h \<noteq> DRV_HANDLE_INVALID"
  shows "run (flash_step bus) [Ev_Close h, Ev_Open (int i)] s = Inl Out_Of_Bounds"
proof -
  note o = opened_index [OF assms(1-3)]
  let ?s = "upd_handle i (\<lambda>_. init_handle_data) s"
  have cl: "DRV_SST26_Close h s = ?s" using o(2,4) by (simp add: DRV_SST26_Close_def)
  have l: "length (handle s) = 2" using o(7) by (simp add: calm_eval)
  have "cs (handle ?s ! i) = 0xAA" using l assms(1) by (simp add: upd_handle_def init_handle_data_def SQI_INVALID_CS_VALUE_def)
  then have "reset_flash bus i (upd_handle i (\<lambda>h. h\<lparr>opened := False\<rparr>) ?s) = Inl Out_Of_Bounds"
    using o(7) assms(1) l
    by (simp add: reset_flash_def calm_eval sqi_run init_handle_data_def SQI_INVALID_CS_VALUE_def cong: seq_weak_cong)
  then have "open_index bus i ?s = Inl Out_Of_Bounds" by (simp add: open_index_def)
  moreover have "status ?s = SYS_STATUS_READY" using o(7) by (simp add: calm_eval upd_handle_def)
  ultimately show ?thesis using assms(1) cl by (auto simp: flash_step_def DRV_SST26_Open_def less_2_cases_iff)
qed


section \<open>A chip that keeps the data sheet\<close>

text \<open>
  A memory of 8 megabytes behind the select line \<open>c\<close>, with its write enable latch, that starts with
  the contents \<open>m\<close>: the laws can hold, and the driver opens it.
\<close>

fun chip_frame :: "u32 \<Rightarrow> frame \<Rightarrow> bool \<times> (nat \<Rightarrow> u8) \<Rightarrow> bool \<times> (nat \<Rightarrow> u8)" where
  "chip_frame c (Frame d q bs n) (wel, m) =
     (if d \<noteq> c then (wel, m)
      else if bs = [0x06] then (True, m)
      else if wel \<and> length bs = 4 \<and> hd bs = 0x20 then (False, erase_sector (address (tl bs)) m)
      else if wel \<and> bs = [0xC7] then (False, \<lambda>x. 0xFF)
      else if wel \<and> length bs = 260 \<and> hd bs = 0x02 then (False, program_page (address (take 3 (tl bs))) (drop 4 bs) m)
      else (wel, m))"

definition chip_cells :: "u32 \<Rightarrow> (nat \<Rightarrow> u8) \<Rightarrow> frame list \<Rightarrow> nat \<Rightarrow> u8" where
  "chip_cells c m fs = snd (fold (chip_frame c) fs (False, m))"

definition chip_bus :: "u32 \<Rightarrow> (nat \<Rightarrow> u8) \<Rightarrow> flash_bus" where
  "chip_bus c m w k =
     (case snd (traffic w) of
        Some (Frame d q bs n) \<Rightarrow>
          if length bs = 7 then chip_cells c m (fst (traffic w)) (address (take 3 (tl bs)) + n + k)
          else if bs = [0xAF, 0xFF] then [0xBF, 0x26, 0x43, 0x00] ! (n + k) else 0
      | None \<Rightarrow> 0)"

lemma chip_flash_memory: "flash_memory c cap f0 (chip_bus c m) (chip_cells c m)"
proof -
  have 1: "chip_bus c m w k = chip_cells c m fs (address adr + n + k)"
    if "traffic w = (fs, Some (Frame c True (0x0B # adr @ d) n))" "length adr = 3" "length d = 3" for w fs adr d n k
    using that by (simp add: chip_bus_def)
  have 2: "chip_cells c m (fs @ [write_enable_frame c]) = chip_cells c m fs" for fs
    by (cases "fold (chip_frame c) fs (False, m)") (auto simp: chip_cells_def write_enable_frame_def)
  have 3: "chip_cells c m (fs @ [write_enable_frame c, Frame c True (0x20 # adr) 0]) = erase_sector (address adr) (chip_cells c m fs)"
    if "length adr = 3" for fs adr
    using that by (cases "fold (chip_frame c) fs (False, m)") (auto simp: chip_cells_def write_enable_frame_def)
  have 4: "chip_cells c m (fs @ [write_enable_frame c, Frame c True [0xC7] 0]) = (\<lambda>x. 0xFF)" for fs
    by (cases "fold (chip_frame c) fs (False, m)") (auto simp: chip_cells_def write_enable_frame_def)
  have 5: "chip_cells c m (fs @ [write_enable_frame c, Frame c True (0x02 # adr @ bs) 0]) =
      program_page (address adr) bs (chip_cells c m fs)" if "length adr = 3" "length bs = 256" for fs adr bs
    using that by (cases "fold (chip_frame c) fs (False, m)") (auto simp: chip_cells_def write_enable_frame_def)
  show ?thesis unfolding flash_memory_def using 1 2 3 4 5 by blast
qed

lemma chip_opens:
  assumes "i < 2"
  shows "\<exists>s. DRV_SST26_Open (chip_bus c n) (int i) (flash_initialized m) = Inr (of_nat i, s)"
proof -
  let ?s0 = "flash_initialized m"
  have c: "chip_select (cs_of i ?s0)" using assms(1)
    by (auto simp: flash_initialized_eq sst26_power_on_def cs_of_def chip_select_def less_2_cases_iff)
  from open_index_ok [OF flash_initialized_inv(3) c assms, of "chip_bus c n"] obtain r t hd where
    x: "open_index (chip_bus c n) i ?s0 = Inr (r, t)" "handle t = (handle ?s0)[i := hd]" "cs hd = cs_of i ?s0" "ram t = ram ?s0"
    "device_code (chip_bus c n) [] (cs_of i ?s0) (majorRevisionNumber (jedecId hd))"
    "if get_flash_size (majorRevisionNumber (jedecId hd)) = 0
     then r = DRV_HANDLE_INVALID \<and> \<not> opened hd \<and> stale_command 2 (cs_of i ?s0) t \<and> calm ([] @ opening_frames (cs_of i ?s0)) t
     else r = of_nat i \<and> opened hd \<and> stale_command 6 (cs_of i ?s0) t \<and>
       geometry hd = fill_geometry (get_flash_size (majorRevisionNumber (jedecId hd))) \<and>
       calm ([] @ opening_frames (cs_of i ?s0) @ [Frame (cs_of i ?s0) True [0x88, 0, 0, 0xFF, 0xFF, 0xFF] 8]) t"
    by (elim exE conjE) (rule that)
  have "majorRevisionNumber (jedecId hd) = 0x43" using x(5) by (auto simp: device_code_def chip_bus_def)
  then have "get_flash_size (majorRevisionNumber (jedecId hd)) = 0x800000"
    by (simp add: get_flash_size_def gSstFlashIdSizeTable_def)
  with x(6) have "r = of_nat i" by simp
  moreover have "DRV_SST26_Open (chip_bus c n) (int i) ?s0 = open_index (chip_bus c n) i ?s0"
    using assms(1) by (auto simp: DRV_SST26_Open_def less_2_cases_iff flash_initialized_eq sst26_power_on_def)
  ultimately show ?thesis using x(1) by (intro exI [of _ t]) simp
qed




theorem flash_driver_safe_witness:
  "\<exists>t. run (flash_step (chip_bus SQI_BDCTRL_SQICS_CS0 (\<lambda>x. 0))) [Ev_Open 0, Ev_Read 0 1000 20 0, Ev_Interrupt] (flash_initialized of_nat)
      = Inr t \<and> (dma t = None \<longrightarrow> isTransferDone t)"
proof -
  let ?bus = "chip_bus SQI_BDCTRL_SQICS_CS0 (\<lambda>x. 0)"
  have "ok_run flash_ok (flash_step ?bus) [Ev_Open 0, Ev_Read 0 1000 20 0, Ev_Interrupt] (flash_initialized of_nat)"
    by (auto simp: flash_ok_def flash_initialized_eq sst26_power_on_def cs_of_def sqi_bits SQI_INVALID_CS_VALUE_def
      less_2_cases_iff split: sum.split)
  from flash_driver_safe [OF this] show ?thesis by (elim exE conjE) (intro exI conjI)
qed

theorem read_command_truncated_witness:
  "\<exists>s t. DRV_SST26_Open (chip_bus SQI_BDCTRL_SQICS_CS0 (\<lambda>x. 0)) 0 (flash_initialized of_nat) = Inr (0, s) \<and>
    run (flash_step (chip_bus SQI_BDCTRL_SQICS_CS0 (\<lambda>x. 0))) [Ev_Read 0 1000 20 0x123456, Ev_Interrupt] s = Inr t \<and>
    fst (traffic (wire t)) = fst (traffic (wire s)) @ [Frame SQI_BDCTRL_SQICS_CS0 True [0x0B, 0x12, 0x34, 0x56, 0xFF, 0xFF] 20]"
proof -
  let ?bus = "chip_bus SQI_BDCTRL_SQICS_CS0 (\<lambda>x. 0)"
  obtain s where s: "DRV_SST26_Open ?bus (int 0) (flash_initialized of_nat) = Inr (0, s)"
    using chip_opens [of 0 _ "\<lambda>x. 0" of_nat] by auto
  have i: "(0 :: nat) < 2" and h: "(0 :: u32) \<noteq> DRV_HANDLE_INVALID" and n: "(0 :: u32) < 20"
    by (simp_all add: DRV_HANDLE_INVALID_def)
  from conjunct1 [OF read_command_truncated [OF i s h n, of 1000 "0x123456"]] obtain t where
    "run (flash_step ?bus) [Ev_Read 0 1000 20 0x123456, Ev_Interrupt] s = Inr t"
    "fst (traffic (wire t)) = fst (traffic (wire s)) @
       [Frame (cs_of 0 s) True (0x0B # address_bytes 0x123456 @ [0xFF, 0xFF]) (min 8192 (unat (20 :: u32)))]" by blast
  moreover have "cs_of 0 s = SQI_BDCTRL_SQICS_CS0" using opened_index(10) [OF i s h] by simp
  ultimately show ?thesis using s by (auto simp: address_bytes_def simp del: run.simps)
qed

lemma reopen_overruns_witness:
  "\<exists>s. DRV_SST26_Open (chip_bus SQI_BDCTRL_SQICS_CS0 (\<lambda>x. 0)) 0 (flash_initialized of_nat) = Inr (0, s) \<and>
    run (flash_step (chip_bus SQI_BDCTRL_SQICS_CS0 (\<lambda>x. 0))) [Ev_Close 0, Ev_Open 0] s = Inl Out_Of_Bounds"
proof -
  obtain s where s: "DRV_SST26_Open (chip_bus SQI_BDCTRL_SQICS_CS0 (\<lambda>x. 0)) (int 0) (flash_initialized of_nat) = Inr (0, s)"
    using chip_opens [of 0 _ "\<lambda>x. 0" of_nat] by auto
  have i: "(0 :: nat) < 2" and h: "(0 :: u32) \<noteq> DRV_HANDLE_INVALID" by (simp_all add: DRV_HANDLE_INVALID_def)
  from reopen_overruns [OF i s h] s show ?thesis by auto
qed

end
