(* ===== verification/Storage.thy ===== *)
theory Storage
  imports Flash_Memory
begin

text \<open>
  The storage module (\<open>storage/pmz_storage.c\<close>, \<open>storage_flash.c\<close>, \<open>storage_eeram.c\<close>) and the driver of
  the EERAM (\<open>drv/drv_47xxx.c\<close>) that it starts. The flash task is a client of the flash driver and
  opens its two devices; the EERAM task asks for the status register once. The I2C master library
  is a parameter as far as it answers (is it busy), and the transfers it is asked for are logged.
\<close>

section \<open>The EERAM driver\<close>

record i2c_transfer =
  i2c_address :: u16
  i2c_written :: "u8 list"
  i2c_read_length :: nat

record drv_47xxx =
  readBuff :: "u8 list"
  writeBuff :: "u8 list"
  i2c_callback :: bool
  transfers :: "i2c_transfer list"

definition I2C_OP_CODE_CONTROL_REGISTER :: u8 where "I2C_OP_CODE_CONTROL_REGISTER = 0x30"

definition drv_47xxx_initialize :: "drv_47xxx \<Rightarrow> drv_47xxx" where
  "drv_47xxx_initialize d = d\<lparr>i2c_callback := True\<rparr>"

text \<open>
  \<open>I2C1_WriteRead\<close> only starts the transfer: the byte it reads arrives with an interrupt of the
  library (\<open>i2c_arrives\<close>), after the function has returned.
\<close>

definition drv_47xxx_status :: "bool \<Rightarrow> u8 \<Rightarrow> drv_47xxx \<Rightarrow> u8 \<times> drv_47xxx" where
  "drv_47xxx_status busy a2a1_addr d =
     (let control_byte = drop_bit 1 I2C_OP_CODE_CONTROL_REGISTER OR a2a1_addr;
          d = d\<lparr>readBuff := (readBuff d)[0 := 0xFF], writeBuff := (writeBuff d)[0 := 0x00]\<rparr>;
          d = (if busy then d
               else d\<lparr>transfers := transfers d @
                 [\<lparr>i2c_address = ucast control_byte, i2c_written = take 1 (writeBuff d), i2c_read_length = 1\<rparr>]\<rparr>)
      in (readBuff d ! 0, d))"

definition i2c_arrives :: "u8 \<Rightarrow> drv_47xxx \<Rightarrow> drv_47xxx" where
  "i2c_arrives b d = d\<lparr>readBuff := (readBuff d)[0 := b]\<rparr>"

section \<open>The storage tasks\<close>

datatype EERAM_STATES = EERAM_STATE_INIT | EERAM_STATE_OPEN_DRIVER | EERAM_STATE_IDLE | EERAM_STATE_ERROR

datatype APP_STATES = APP_STATE_INIT | APP_STATE_OPEN_DRIVER | APP_STATE_ERROR | APP_STATE_IDLE

text \<open>\<open>mmm\<close> is the static variable of \<open>storage_flash_task\<close>; the buffers of \<open>APP_DATA\<close> are not used.\<close>

record storage =
  app_state :: APP_STATES
  app_handle :: "u32 list"
  mmm :: nat
  flash :: sst26
  eeram_state :: EERAM_STATES
  eeram :: drv_47xxx

definition MEM_NUM :: nat where "MEM_NUM = 2"
definition DRV_SST26_MEM_IC_MAX :: nat where "DRV_SST26_MEM_IC_MAX = 2"

definition storage_flash_init :: "storage \<Rightarrow> storage" where
  "storage_flash_init s =
     (let s = s\<lparr>flash := snd (DRV_SST26_Initialize (flash s))\<rparr>;
          s = fold (\<lambda>i s. s\<lparr>app_handle := (app_handle s)[i := DRV_HANDLE_INVALID]\<rparr>) [0..<MEM_NUM] s
      in s\<lparr>app_state := APP_STATE_INIT\<rparr>)"

definition store_handle :: "nat \<Rightarrow> u32 \<Rightarrow> storage \<Rightarrow> storage outcome" where
  "store_handle i h s =
     (if i < length (app_handle s) then Inr (s\<lparr>app_handle := (app_handle s)[i := h]\<rparr>) else Inl Out_Of_Bounds)"

definition storage_flash_task :: "flash_bus \<Rightarrow> storage \<Rightarrow> storage outcome" where
  "storage_flash_task bus s =
     (case app_state s of
        APP_STATE_INIT \<Rightarrow>
          Inr (if DRV_SST26_Status (flash s) = SYS_STATUS_READY then s\<lparr>app_state := APP_STATE_OPEN_DRIVER\<rparr>
               else s\<lparr>app_state := APP_STATE_ERROR\<rparr>)
      | APP_STATE_OPEN_DRIVER \<Rightarrow>
          seq (DRV_SST26_Open bus (int (mmm s)) (flash s)) (\<lambda>(h, d).
          seq (store_handle (mmm s) h (s\<lparr>flash := d\<rparr>)) (\<lambda>s.
          seq (rd (app_handle s) (mmm s)) (\<lambda>h.
          Inr (if h \<noteq> DRV_HANDLE_INVALID
               then if mmm s < DRV_SST26_MEM_IC_MAX then s\<lparr>mmm := mmm s + 1, app_state := APP_STATE_OPEN_DRIVER\<rparr>
                    else s\<lparr>app_state := APP_STATE_IDLE\<rparr>
               else s\<lparr>app_state := APP_STATE_ERROR\<rparr>))))
      | APP_STATE_IDLE \<Rightarrow> Inr s
      | APP_STATE_ERROR \<Rightarrow> Inr s)"

definition storage_eeram_init :: "storage \<Rightarrow> storage" where
  "storage_eeram_init s = s\<lparr>eeram_state := EERAM_STATE_INIT\<rparr>"

definition storage_eeram_task :: "bool \<Rightarrow> storage \<Rightarrow> storage" where
  "storage_eeram_task busy s =
     (case eeram_state s of
        EERAM_STATE_INIT \<Rightarrow> s\<lparr>eeram := drv_47xxx_initialize (eeram s), eeram_state := EERAM_STATE_OPEN_DRIVER\<rparr>
      | EERAM_STATE_OPEN_DRIVER \<Rightarrow> s\<lparr>eeram := snd (drv_47xxx_status busy 0 (eeram s)), eeram_state := EERAM_STATE_IDLE\<rparr>
      | EERAM_STATE_IDLE \<Rightarrow> s
      | EERAM_STATE_ERROR \<Rightarrow> s)"

definition storage_init :: "storage \<Rightarrow> storage" where
  "storage_init s = storage_flash_init (storage_eeram_init s)"

definition storage_task :: "flash_bus \<Rightarrow> bool \<Rightarrow> storage \<Rightarrow> storage outcome" where
  "storage_task bus busy s = storage_flash_task bus (storage_eeram_task busy s)"

definition storage_power_on :: "(nat \<Rightarrow> u8) \<Rightarrow> storage" where
  "storage_power_on m = \<lparr>app_state = APP_STATE_INIT, app_handle = [0, 0], mmm = 0, flash = sst26_power_on m,
     eeram_state = EERAM_STATE_INIT,
     eeram = \<lparr>readBuff = replicate 10 0, writeBuff = replicate 10 0, i2c_callback = False, transfers = []\<rparr>\<rparr>"

section \<open>What the tasks reach\<close>

lemma storage_eeram_task_frame [simp]:
  "app_state (storage_eeram_task b s) = app_state s" "app_handle (storage_eeram_task b s) = app_handle s"
  "mmm (storage_eeram_task b s) = mmm s" "flash (storage_eeram_task b s) = flash s"
  by (simp_all add: storage_eeram_task_def split: EERAM_STATES.split)

lemma control_byte: "ucast (drop_bit (Suc 0) I2C_OP_CODE_CONTROL_REGISTER) = (0x18 :: u16)"
  by (simp add: I2C_OP_CODE_CONTROL_REGISTER_def)

text \<open>The EERAM side does not depend on the flash side: two polls, one transfer.\<close>

lemma eeram_reaches_idle:
  "eeram_state (storage_eeram_task b1 (storage_eeram_task b0 (storage_init (storage_power_on m)))) = EERAM_STATE_IDLE \<and>
   transfers (eeram (storage_eeram_task b1 (storage_eeram_task b0 (storage_init (storage_power_on m))))) =
     (if b1 then [] else [\<lparr>i2c_address = 0x18, i2c_written = [0], i2c_read_length = 1\<rparr>])"
proof -
  have "replicate 10 (0 :: u8) = 0 # replicate 9 0" by (simp add: numeral_eq_Suc)
  moreover have "[0..<2] = [0, 1]" by (simp add: upt_rec)
  ultimately show ?thesis
    by (simp add: storage_eeram_task_def storage_init_def storage_eeram_init_def storage_flash_init_def storage_power_on_def
        drv_47xxx_initialize_def drv_47xxx_status_def MEM_NUM_def control_byte Let_def del: drop_bit_eq_div)
qed

text \<open>
  The status register of the EERAM is never reported. \<open>drv_47xxx_status\<close> returns the byte it has
  just preset, all ones, whether or not a transfer was started and whatever the memory answers to
  it later.
\<close>

lemma eeram_status_is_preset:
  assumes "readBuff d \<noteq> []" "drv_47xxx_status busy adr d = (v, e)"
  shows "v = 0xFF \<and> (busy \<or> transfers e \<noteq> transfers d) \<and> fst (drv_47xxx_status busy adr (i2c_arrives b e)) = 0xFF"
  using assms by (cases "readBuff d") (auto simp: drv_47xxx_status_def i2c_arrives_def Let_def split: if_splits)

lemma eeram_status_is_preset_witness:
  "fst (drv_47xxx_status False 0 (eeram (storage_power_on (\<lambda>x. 0)))) = 0xFF"
proof -
  let ?d = "eeram (storage_power_on (\<lambda>x. 0))"
  have "readBuff ?d \<noteq> []" by (simp add: storage_power_on_def)
  from eeram_status_is_preset [OF this prod.collapse [symmetric], of False 0] show ?thesis by simp
qed

text \<open>The polls of the flash side, with the EERAM side in between.\<close>

lemma open_devices:
  obtains h0 d1 h1 d2 where
    "DRV_SST26_Open bus 0 (flash_initialized m) = Inr (h0, d1)" "DRV_SST26_Open bus 1 d1 = Inr (h1, d2)"
    "status d1 = SYS_STATUS_READY" "status d2 = SYS_STATUS_READY"
proof -
  let ?s = "flash_initialized m"
  have st: "status ?s = SYS_STATUS_READY" "dma ?s = None" and c: "chip_select (cs_of 0 ?s)"
    by (simp_all add: flash_initialized_eq sst26_power_on_def cs_of_def chip_select_def)
  from open_index_ok [OF flash_initialized_inv(3) c, of bus] obtain r0 t0 hd where
    o: "open_index bus 0 ?s = Inr (r0, t0)" "handle t0 = (handle ?s)[0 := hd]" and
    c0: "\<exists>fs. calm fs t0" by (auto split: if_splits)
  have "chip_select (cs_of 1 t0)"
    by (simp add: cs_of_def o(2) flash_initialized_eq sst26_power_on_def chip_select_def)
  moreover from c0 obtain fs where fs: "calm fs t0" ..
  ultimately obtain r1 t1 where o1: "open_index bus 1 t0 = Inr (r1, t1)" and c1: "\<exists>fs. calm fs t1"
    using open_index_ok [OF fs, of 1 bus] by (auto split: if_splits)
  have s0: "status t0 = SYS_STATUS_READY" and s1: "status t1 = SYS_STATUS_READY" using c0 c1 by (auto simp: calm_eval)
  show ?thesis
    by (rule that [of r0 t0 r1 t1]) (use o(1) o1 s0 s1 st in \<open>simp_all add: DRV_SST26_Open_def\<close>)
qed

lemma storage_rests:
  "app_state s = APP_STATE_ERROR \<Longrightarrow> \<exists>t. run (storage_task bus) bs s = Inr t \<and> app_state t = APP_STATE_ERROR"
proof (induction bs arbitrary: s)
  case (Cons b bs)
  have "storage_task bus b s = Inr (storage_eeram_task b s)"
    using Cons.prems by (simp add: storage_task_def storage_flash_task_def)
  then show ?case using Cons.IH [of "storage_eeram_task b s"] Cons.prems by simp
qed simp

text \<open>A poll that opens a device; the third device is behind the end of the array.\<close>

lemma storage_opens:
  assumes "app_state s = APP_STATE_OPEN_DRIVER" "DRV_SST26_Open bus (int (mmm s)) (flash s) = Inr (h, d)" "length (app_handle s) = 2"
  shows "if 2 \<le> mmm s then storage_task bus b s = Inl Out_Of_Bounds
    else \<exists>t. storage_task bus b s = Inr t \<and> length (app_handle t) = 2 \<and> flash t = d \<and>
      (if h = DRV_HANDLE_INVALID then app_state t = APP_STATE_ERROR
       else app_state t = APP_STATE_OPEN_DRIVER \<and> mmm t = mmm s + 1)"
  using assms by (simp add: storage_task_def storage_flash_task_def store_handle_def DRV_SST26_MEM_IC_MAX_def)

text \<open>
  C26: The flash side of the storage module never becomes idle, whatever the chips answer. If one of
  the two devices does not open it ends in its error state; if both open, it goes on to a third,
  because it counts up to the number of devices and not up to the last one, and writes the handle
  behind the end of its array. Four polls decide it.
\<close>

theorem storage_never_idle:
  assumes "4 \<le> length bs"
  shows "\<exists>h0 d1 h1 d2. DRV_SST26_Open bus 0 (flash_initialized m) = Inr (h0, d1) \<and> DRV_SST26_Open bus 1 d1 = Inr (h1, d2) \<and>
    (if h0 \<noteq> DRV_HANDLE_INVALID \<and> h1 \<noteq> DRV_HANDLE_INVALID
     then run (storage_task bus) bs (storage_init (storage_power_on m)) = Inl Out_Of_Bounds
     else \<exists>t. run (storage_task bus) bs (storage_init (storage_power_on m)) = Inr t \<and> app_state t = APP_STATE_ERROR)"
proof -
  let ?s = "storage_init (storage_power_on m)"
  obtain h0 d1 h1 d2 where o: "DRV_SST26_Open bus 0 (flash_initialized m) = Inr (h0, d1)" "DRV_SST26_Open bus 1 d1 = Inr (h1, d2)"
    and st: "status d1 = SYS_STATUS_READY" "status d2 = SYS_STATUS_READY" by (rule open_devices)
  from assms obtain b0 b1 b2 b3 bs' where bs: "bs = b0 # b1 # b2 # b3 # bs'"
    by (auto simp: Suc_le_length_iff numeral_eq_Suc)
  have s: "app_state ?s = APP_STATE_INIT" "app_handle ?s = [DRV_HANDLE_INVALID, DRV_HANDLE_INVALID]" "mmm ?s = 0"
    "flash ?s = flash_initialized m"
    by (simp_all add: storage_init_def storage_eeram_init_def storage_flash_init_def storage_power_on_def MEM_NUM_def
        eval_nat_numeral flash_initialized_def Let_def)
  let ?t0 = "(storage_eeram_task b0 ?s)\<lparr>app_state := APP_STATE_OPEN_DRIVER\<rparr>"
  have "status (flash ?s) = SYS_STATUS_READY" by (simp add: s(4) flash_initialized_eq)
  then have p0: "storage_task bus b0 ?s = Inr ?t0"
    using s(1) by (simp add: storage_task_def storage_flash_task_def DRV_SST26_Status_def)
  have t0: "app_state ?t0 = APP_STATE_OPEN_DRIVER" "length (app_handle ?t0) = 2" "mmm ?t0 = 0" "flash ?t0 = flash_initialized m"
    using s by simp_all
  from storage_opens [OF t0(1) _ t0(2), of bus h0 d1 b1] t0(3,4) o(1) obtain t1 where
    t1: "storage_task bus b1 ?t0 = Inr t1" "length (app_handle t1) = 2" "flash t1 = d1"
      "if h0 = DRV_HANDLE_INVALID then app_state t1 = APP_STATE_ERROR else app_state t1 = APP_STATE_OPEN_DRIVER \<and> mmm t1 = 1"
    by auto
  show ?thesis
  proof (cases "h0 = DRV_HANDLE_INVALID")
    case True
    with t1(4) storage_rests [of t1 bus "b2 # b3 # bs'"] obtain t where
      "run (storage_task bus) (b2 # b3 # bs') t1 = Inr t" "app_state t = APP_STATE_ERROR" by auto
    then show ?thesis using True o p0 t1(1) by (simp add: bs)
  next
    case False
    with t1(4) have a1: "app_state t1 = APP_STATE_OPEN_DRIVER" "mmm t1 = 1" by simp_all
    from storage_opens [OF a1(1) _ t1(2), of bus h1 d2 b2] a1(2) t1(3) o(2) obtain t2 where
      t2: "storage_task bus b2 t1 = Inr t2" "length (app_handle t2) = 2" "flash t2 = d2"
        "if h1 = DRV_HANDLE_INVALID then app_state t2 = APP_STATE_ERROR else app_state t2 = APP_STATE_OPEN_DRIVER \<and> mmm t2 = 2"
      by auto
    show ?thesis
    proof (cases "h1 = DRV_HANDLE_INVALID")
      case True
      with t2(4) storage_rests [of t2 bus "b3 # bs'"] obtain t where
        "run (storage_task bus) (b3 # bs') t2 = Inr t" "app_state t = APP_STATE_ERROR" by auto
      then show ?thesis using True o p0 t1(1) t2(1) by (simp add: bs)
    next
      case False2: False
      with t2(4) have a2: "app_state t2 = APP_STATE_OPEN_DRIVER" "mmm t2 = 2" by simp_all
      have "DRV_SST26_Open bus (int (mmm t2)) (flash t2) = Inr (DRV_HANDLE_INVALID, d2)"
        using st(2) by (simp add: a2(2) t2(3) DRV_SST26_Open_def)
      from storage_opens [OF a2(1) this t2(2), of b3] have "storage_task bus b3 t2 = Inl Out_Of_Bounds" using a2(2) by simp
      then show ?thesis using False False2 o p0 t1(1) t2(1) by (simp add: bs)
    qed
  qed
qed

theorem storage_never_idle_witness:
  "\<exists>h0 d1 h1 d2. DRV_SST26_Open (\<lambda>w k. 0) 0 (flash_initialized (\<lambda>x. 0)) = Inr (h0, d1) \<and>
    DRV_SST26_Open (\<lambda>w k. 0) 1 d1 = Inr (h1, d2) \<and>
    (if h0 \<noteq> DRV_HANDLE_INVALID \<and> h1 \<noteq> DRV_HANDLE_INVALID
     then run (storage_task (\<lambda>w k. 0)) [False, False, True, False] (storage_init (storage_power_on (\<lambda>x. 0))) = Inl Out_Of_Bounds
     else \<exists>t. run (storage_task (\<lambda>w k. 0)) [False, False, True, False] (storage_init (storage_power_on (\<lambda>x. 0))) = Inr t \<and>
       app_state t = APP_STATE_ERROR)"
  by (rule storage_never_idle) simp

end
