(* ===== verification/Http_Request.thy ===== *)
theory Http_Request
  imports Dmem Http_Parser
begin

text \<open>
  The HTTP requests the firmware writes (\<open>net/http_request.c\<close>, \<open>net/http_request.h\<close>): a handle and a
  buffer of fixed size in dynamic memory, to which \<open>snprintf\<close> appends one header after another.
\<close>

section \<open>Data\<close>

datatype t_HTTP_METHODS = HTTP_METHOD_POST | HTTP_METHOD_GET

record t_HTTP_REQUEST_HANDLE =
  raw :: "nat option"
  rq_length :: u32

datatype http_block = Request t_HTTP_REQUEST_HANDLE | Raw string

definition REQUEST_FIXED_LENGHT :: nat where "REQUEST_FIXED_LENGHT = 2048"
definition boundary :: string where "boundary = ''---011000010111000001101001''"

definition request_at :: "nat \<Rightarrow> http_block dmem \<Rightarrow> t_HTTP_REQUEST_HANDLE outcome" where
  "request_at a m = (case blocks m a of Some (Request r) \<Rightarrow> Inr r | _ \<Rightarrow> Inl Out_Of_Bounds)"

definition raw_at :: "nat option \<Rightarrow> http_block dmem \<Rightarrow> string outcome" where
  "raw_at p m =
     (case p of
        None \<Rightarrow> Inl Null_Deref
      | Some a \<Rightarrow> (case blocks m a of Some (Raw s) \<Rightarrow> Inr s | _ \<Rightarrow> Inl Out_Of_Bounds))"

section \<open>Operations\<close>

text \<open>\<open>junk\<close> is what the allocated buffer holds before it is written.\<close>

definition create_request_handle ::
  "http_block malloc \<Rightarrow> string \<Rightarrow> nat \<Rightarrow> http_block dmem \<Rightarrow> (nat option \<times> http_block dmem) outcome" where
  "create_request_handle malloc junk len m =
     (case dmem_create malloc 8 (Request \<lparr>raw = None, rq_length = 0\<rparr>) m of
        (None, m) \<Rightarrow> Inr (None, m)
      | (Some h, m) \<Rightarrow>
          (case dmem_create malloc len (Raw junk) m of
             (None, m) \<Rightarrow> seq (dmem_release (Some h) m) (\<lambda>m. Inr (None, m))
           | (Some r, m) \<Rightarrow> Inr (Some h, dmem_write h (Request \<lparr>raw = Some r, rq_length = 0\<rparr>) m)))"

text \<open>
  \<open>snprintf (buf + off, size, ...)\<close> of a text: at most \<open>size - 1\<close> characters and the final NUL are
  written, nothing if \<open>size\<close> is zero; what it returns is the length of the text all the same.
\<close>

definition snprintf :: "string \<Rightarrow> nat \<Rightarrow> u32 \<Rightarrow> string \<Rightarrow> string outcome" where
  "snprintf buf off sz text = (if sz = 0 then Inr buf else poke buf off (take (unat sz - 1) text @ [NUL]))"

text \<open>
  \<open>rh->length -= back; rh->length += snprintf (rh->raw + rh->length, REQUEST_FIXED_LENGHT - rh->length, ...)\<close>.
  The size is an unsigned number, and so wraps when the request is already longer.
\<close>

definition append_text :: "nat \<Rightarrow> u32 \<Rightarrow> string \<Rightarrow> http_block dmem \<Rightarrow> http_block dmem outcome" where
  "append_text rh back text m =
     seq (request_at rh m) (\<lambda>r.
     let n = rq_length r - back in
     seq (raw_at (raw r) m) (\<lambda>buf.
     seq (snprintf buf (unat n) (of_nat REQUEST_FIXED_LENGHT - n) text) (\<lambda>buf.
     Inr (dmem_write rh (Request (r\<lparr>rq_length := n + of_nat (length text)\<rparr>)) (dmem_write (the (raw r)) (Raw buf) m)))))"

definition method_name :: "t_HTTP_METHODS \<Rightarrow> string" where
  "method_name m = (case m of HTTP_METHOD_POST \<Rightarrow> ''POST'' | HTTP_METHOD_GET \<Rightarrow> ''GET'')"

definition write_method :: "t_HTTP_METHODS \<Rightarrow> nat \<Rightarrow> http_block dmem \<Rightarrow> http_block dmem outcome" where
  "write_method meth rh m =
     seq (request_at rh m) (\<lambda>r.
     seq (raw_at (raw r) m) (\<lambda>buf.
     seq (poke buf 0 (method_name meth)) (\<lambda>buf.
     Inr (dmem_write rh (Request (r\<lparr>rq_length := of_nat (length (method_name meth))\<rparr>)) (dmem_write (the (raw r)) (Raw buf) m)))))"

text \<open>The request line and the host; \<open>path\<close> and \<open>host\<close> may be NULL.\<close>

definition first_lines :: "string \<Rightarrow> int \<Rightarrow> string \<Rightarrow> string" where
  "first_lines host prt path =
     '' /'' @ path @ '' HTTP/1.1'' @ CRLF @ ''Host: '' @ host @
     (if prt = 80 then [] else CHR '':'' # fmt_d prt) @ CRLF @ CRLF"

definition http_request_init ::
  "http_block malloc \<Rightarrow> string \<Rightarrow> t_HTTP_METHODS \<Rightarrow> string option \<Rightarrow> int \<Rightarrow> string option \<Rightarrow> http_block dmem \<Rightarrow>
     (nat option \<times> http_block dmem) outcome" where
  "http_request_init malloc junk meth host prt path m =
     seq (create_request_handle malloc junk REQUEST_FIXED_LENGHT m) (\<lambda>(hReq, m).
     (case hReq of
        None \<Rightarrow> Inr (None, m)
      | Some rh \<Rightarrow>
          seq (write_method meth rh m) (\<lambda>m.
          seq (deref path) (\<lambda>path.
          seq (deref host) (\<lambda>host.
          seq (append_text rh 0 (first_lines host prt path) m) (\<lambda>m.
          Inr (Some rh, m)))))))"

definition http_request_add_generic :: "nat \<Rightarrow> string \<Rightarrow> string \<Rightarrow> http_block dmem \<Rightarrow> http_block dmem outcome" where
  "http_request_add_generic rh label content m = append_text rh 2 (label @ '': '' @ content @ CRLF @ CRLF) m"

definition http_request_add_accept :: "nat \<Rightarrow> string \<Rightarrow> http_block dmem \<Rightarrow> http_block dmem outcome" where
  "http_request_add_accept rh accept m = append_text rh 2 (''accept: '' @ accept @ CRLF @ CRLF) m"

definition http_request_add_bearer_token :: "nat \<Rightarrow> string \<Rightarrow> http_block dmem \<Rightarrow> http_block dmem outcome" where
  "http_request_add_bearer_token rh token m =
     append_text rh 2 (''authorization: Bearer '' @ token @ CRLF @ CRLF) m"

definition content_length :: "string \<Rightarrow> string \<Rightarrow> u32" where
  "content_length user pass = of_nat (length boundary) * 3 + of_nat (length user) + of_nat (length pass) + 116"

definition form_head :: "string \<Rightarrow> string \<Rightarrow> string" where
  "form_head user pass =
     ''content-type: multipart/form-data; boundary='' @ boundary @ CRLF @
     ''content-length: '' @ dec (unat (content_length user pass)) @ CRLF @ CRLF"

definition form_body :: "string \<Rightarrow> string \<Rightarrow> string" where
  "form_body user pass =
     ''--'' @ boundary @ CRLF @ ''content-disposition: form-data; name='' @ [DQUOTE] @ ''user'' @ [DQUOTE] @ CRLF @
     CRLF @ user @ CRLF @
     ''--'' @ boundary @ CRLF @ ''content-disposition: form-data; name='' @ [DQUOTE] @ ''password'' @ [DQUOTE] @ CRLF @
     CRLF @ pass @ CRLF @
     ''--'' @ boundary @ ''--'' @ CRLF @ CRLF"

definition http_request_add_content_user_pass :: "nat \<Rightarrow> string \<Rightarrow> string \<Rightarrow> http_block dmem \<Rightarrow> http_block dmem outcome" where
  "http_request_add_content_user_pass rh user pass m =
     append_text rh 2 (form_head user pass @ form_body user pass) m"

text \<open>The handle the caller is left with is NULL.\<close>

definition http_request_delete :: "nat option \<Rightarrow> http_block dmem \<Rightarrow> http_block dmem outcome" where
  "http_request_delete h m =
     (case h of
        None \<Rightarrow> Inr m
      | Some rh \<Rightarrow>
          seq (request_at rh m) (\<lambda>r.
          seq (if raw r \<noteq> None then dmem_release (raw r) m else Inr m) (\<lambda>m.
          dmem_release (Some rh) m)))"

section \<open>A request in memory\<close>

text \<open>What one append does to the buffer.\<close>

lemma append_text_eq:
  assumes rh: "blocks m rh = Some (Request \<lparr>raw = Some a, rq_length = of_nat len\<rparr>)" and a: "blocks m a = Some (Raw buf)"
    and ne: "a \<noteq> rh" and buf: "length buf = REQUEST_FIXED_LENGHT" and len: "k \<le> len" "len < 2 ^ 32"
  shows "append_text rh (of_nat k) text m =
    (if len - k \<le> REQUEST_FIXED_LENGHT
     then Inr (m\<lparr>blocks := (blocks m)
       (a \<mapsto> Raw (if len - k = REQUEST_FIXED_LENGHT then buf
                else take (len - k) buf @ take (2047 - (len - k)) text @ NUL #
                  drop (Suc (len - k + length (take (2047 - (len - k)) text))) buf),
        rh \<mapsto> Request \<lparr>raw = Some a, rq_length = of_nat (len - k + length text)\<rparr>)\<rparr>)
     else Inl Out_Of_Bounds)"
proof -
  let ?n = "of_nat len - of_nat k :: u32"
  have n: "?n = of_nat (len - k)" using len by (simp add: of_nat_diff)
  have un: "unat ?n = len - k"
    unfolding n using len by (subst unsigned_of_nat) (simp add: take_bit_nat_eq_self)
  have big: "unat (of_nat REQUEST_FIXED_LENGHT :: u32) = 2048" by (simp add: REQUEST_FIXED_LENGHT_def)
  let ?s = "of_nat REQUEST_FIXED_LENGHT - ?n"
  have sz: "unat ?s = (if len - k \<le> 2048 then 2048 - (len - k) else 2 ^ 32 + 2048 - (len - k))"
    using unat_sub_if_size [of "of_nat REQUEST_FIXED_LENGHT :: u32" ?n] un big by (simp add: word_size)
  then have z: "?s = 0 \<longleftrightarrow> len - k = 2048" using len by (auto simp: unat_eq_0 [symmetric] split: if_splits)
  have r: "request_at rh m = Inr \<lparr>raw = Some a, rq_length = of_nat len\<rparr>" "raw_at (Some a) m = Inr buf"
    using rh a by (simp_all add: request_at_def raw_at_def)
  have l: "?n + of_nat (length text) = of_nat (len - k + length text)" by (simp add: n)
  have p: "snprintf buf (unat ?n) ?s text =
    (if len - k \<le> 2048
     then Inr (if len - k = 2048 then buf
               else take (len - k) buf @ take (2047 - (len - k)) text @ NUL #
                 drop (Suc (len - k + length (take (2047 - (len - k)) text))) buf)
     else Inl Out_Of_Bounds)"
  proof (cases "len - k < 2048")
    case True
    then have u: "unat ?s - 1 = 2047 - (len - k)" "?s \<noteq> 0" using sz z by simp_all
    have "len - k + length (take (2047 - (len - k)) text @ [NUL]) \<le> length buf"
      using True buf by (simp add: REQUEST_FIXED_LENGHT_def)
    then show ?thesis using True u(2) unfolding snprintf_def un u(1) poke_def by simp
  next
    case False
    then show ?thesis using z un buf by (cases "len - k = 2048") (simp_all add: snprintf_def poke_def REQUEST_FIXED_LENGHT_def)
  qed
  have R: "REQUEST_FIXED_LENGHT = 2048" by (simp add: REQUEST_FIXED_LENGHT_def)
  have e: "append_text rh (of_nat k) text m =
      seq (snprintf buf (unat ?n) ?s text) (\<lambda>buf.
      Inr (dmem_write rh (Request \<lparr>raw = Some a, rq_length = ?n + of_nat (length text)\<rparr>) (dmem_write a (Raw buf) m)))"
    unfolding append_text_def r(1) seq_Inr Let_def by (simp only: t_HTTP_REQUEST_HANDLE.simps r(2) seq_Inr option.sel)
  show ?thesis unfolding e p l by (simp only: R dmem_write_def dmem.simps seq_Inr seq_Inl split: if_split) simp
qed

text \<open>
  The handle holds the text \<open>t\<close>, or as much of it as fits, in a memory that is otherwise \<open>m0\<close>.
\<close>

definition holds :: "http_block dmem \<Rightarrow> http_block dmem \<Rightarrow> nat \<Rightarrow> string \<Rightarrow> bool" where
  "holds m0 m rh t \<longleftrightarrow>
     (\<exists>a buf. a \<noteq> rh \<and> blocks m0 rh = None \<and> blocks m0 a = None \<and> live m = live m0 + 2 \<and>
        blocks m = (blocks m0)(a \<mapsto> Raw buf, rh \<mapsto> Request \<lparr>raw = Some a, rq_length = of_nat (length t)\<rparr>) \<and>
        length buf = REQUEST_FIXED_LENGHT \<and> take (Suc (min 2047 (length t))) buf = take 2047 t @ [NUL])"

lemma append_buffer:
  assumes "length buf = REQUEST_FIXED_LENGHT" "j \<le> length t" "j \<le> 2047" "take j buf = take j t"
  shows "length (take j buf @ take (2047 - j) text @ NUL # drop (Suc (j + length (take (2047 - j) text))) buf) =
      REQUEST_FIXED_LENGHT \<and>
    take (Suc (min 2047 (length (take j t @ text))))
      (take j buf @ take (2047 - j) text @ NUL # drop (Suc (j + length (take (2047 - j) text))) buf) =
      take 2047 (take j t @ text) @ [NUL]"
proof
  let ?w = "take (2047 - j) text"
  have j: "length (take j buf) = j" "length (take j t) = j" using assms(1-3) by (simp_all add: REQUEST_FIXED_LENGHT_def)
  show "length (take j buf @ ?w @ NUL # drop (Suc (j + length ?w)) buf) = REQUEST_FIXED_LENGHT"
    using assms(1,3) j(1) by (auto simp: REQUEST_FIXED_LENGHT_def min_def)
  have n: "min 2047 (length (take j t @ text)) = j + length ?w" using j(2) assms(3) by (auto simp: min_def)
  have "take 2047 (take j t @ text) = take j t @ ?w" using j(2) assms(3) by simp
  moreover have "take (length xs) (xs @ r) = xs" for xs r :: string by simp
  note this [of "take j buf @ ?w @ [NUL]"]
  moreover have "length (take j buf @ ?w @ [NUL]) = Suc (j + length ?w)" using j(1) by simp
  ultimately show "take (Suc (min 2047 (length (take j t @ text)))) (take j buf @ ?w @ NUL # drop (Suc (j + length ?w)) buf) =
      take 2047 (take j t @ text) @ [NUL]"
    unfolding n assms(4) by (simp only: append_assoc append_Cons append_Nil)
qed

lemma append_step:
  assumes a: "a \<noteq> rh" "blocks m0 rh = None" "blocks m0 a = None" "live m = live m0 + 2"
    "blocks m = (blocks m0)(a \<mapsto> Raw buf, rh \<mapsto> Request \<lparr>raw = Some a, rq_length = of_nat (length t)\<rparr>)"
    and buf: "length buf = REQUEST_FIXED_LENGHT"
      "length t - k \<le> 2047 \<Longrightarrow> take (length t - k) buf = take (length t - k) t"
      "length t - k = REQUEST_FIXED_LENGHT \<Longrightarrow> buf = take 2047 t @ [NUL]"
    and k: "k \<le> length t" "length t < 2 ^ 31"
  shows "if length t - k \<le> REQUEST_FIXED_LENGHT
    then \<exists>m'. append_text rh (of_nat k) text m = Inr m' \<and> holds m0 m' rh (take (length t - k) t @ text)
    else append_text rh (of_nat k) text m = Inl Out_Of_Bounds"
proof -
  have b: "blocks m rh = Some (Request \<lparr>raw = Some a, rq_length = of_nat (length t)\<rparr>)" "blocks m a = Some (Raw buf)"
    using a(1,5) by simp_all
  have "length t < 2 ^ 32" using k(2) by simp
  note e = append_text_eq [OF b a(1) buf(1) k(1) this, of "text"]
  let ?j = "length t - k"
  show ?thesis
  proof (cases "?j \<le> REQUEST_FIXED_LENGHT")
    case False
    then show ?thesis using e by simp
  next
    case True
    define b where "b = (if ?j = REQUEST_FIXED_LENGHT then buf
      else take ?j buf @ take (2047 - ?j) text @ NUL # drop (Suc (?j + length (take (2047 - ?j) text))) buf)"
    let ?t = "take ?j t @ text"
    have n: "?j + length text = length ?t" by simp
    have B: "length b = REQUEST_FIXED_LENGHT \<and> take (Suc (min 2047 (length ?t))) b = take 2047 ?t @ [NUL]"
    proof (cases "?j = REQUEST_FIXED_LENGHT")
      case J: True
      then have "2047 < length t" "2047 < length ?t" "take 2047 ?t = take 2047 t" by (auto simp: REQUEST_FIXED_LENGHT_def)
      then show ?thesis
        using J buf by (simp_all add: b_def min_def REQUEST_FIXED_LENGHT_def)
    next
      case False
      with True have j: "?j \<le> 2047" by (simp add: REQUEST_FIXED_LENGHT_def)
      note buf(2) [OF j]
      from append_buffer [OF buf(1) _ j this, of "text"] False
      show ?thesis
        by (simp_all add: b_def)
    qed
    let ?m = "m\<lparr>blocks := (blocks m)(a \<mapsto> Raw b, rh \<mapsto> Request \<lparr>raw = Some a, rq_length = of_nat (length ?t)\<rparr>)\<rparr>"
    have "append_text rh (of_nat k) text m = Inr ?m"
      unfolding e n b_def using True by simp
    moreover have "blocks ?m = (blocks m0)(a \<mapsto> Raw b, rh \<mapsto> Request \<lparr>raw = Some a, rq_length = of_nat (length ?t)\<rparr>)"
      using a(1) by (simp add: a(5) fun_upd_twist)
    then have "holds m0 ?m rh ?t" unfolding holds_def
      by (intro exI [of _ a] exI [of _ b] conjI conjunct1 [OF B] conjunct2 [OF B]) (use a(1-4) in \<open>simp_all add: live_def\<close>)
    ultimately show ?thesis using True by auto
  qed
qed

lemma append_holds:
  assumes h: "holds m0 m rh t" and k: "k \<le> length t" "length t < 2 ^ 31"
  shows "if length t - k \<le> REQUEST_FIXED_LENGHT
    then \<exists>m'. append_text rh (of_nat k) text m = Inr m' \<and> holds m0 m' rh (take (length t - k) t @ text)
    else append_text rh (of_nat k) text m = Inl Out_Of_Bounds"
proof -
  from h obtain a buf where a: "a \<noteq> rh" "blocks m0 rh = None" "blocks m0 a = None" "live m = live m0 + 2"
    "blocks m = (blocks m0)(a \<mapsto> Raw buf, rh \<mapsto> Request \<lparr>raw = Some a, rq_length = of_nat (length t)\<rparr>)"
    and buf: "length buf = REQUEST_FIXED_LENGHT" "take (Suc (min 2047 (length t))) buf = take 2047 t @ [NUL]"
    unfolding holds_def by blast
  show ?thesis
  proof (rule append_step [OF a buf(1) _ _ k])
    assume j: "length t - k \<le> 2047"
    have "take (length t - k) (take (Suc (min 2047 (length t))) buf) = take (length t - k) (take 2047 t @ [NUL])"
      by (simp only: buf(2))
    then show "take (length t - k) buf = take (length t - k) t" using j by (simp add: min_def split: if_splits)
  next
    assume "length t - k = REQUEST_FIXED_LENGHT"
    then have "2047 \<le> length t" by (simp add: REQUEST_FIXED_LENGHT_def)
    then show "buf = take 2047 t @ [NUL]" using buf by (simp add: min_def REQUEST_FIXED_LENGHT_def)
  qed
qed

lemma create_cases:
  assumes "malloc_ok malloc" "length junk = REQUEST_FIXED_LENGHT"
  obtains m' where "create_request_handle malloc junk n m = Inr (None, m')" "blocks m' = blocks m" "live m' = live m"
  | rh a m' where "create_request_handle malloc junk n m = Inr (Some rh, m')" "a \<noteq> rh" "blocks m rh = None" "blocks m a = None"
      "live m' = live m + 2" "blocks m' = (blocks m)(a \<mapsto> Raw junk, rh \<mapsto> Request \<lparr>raw = Some a, rq_length = 0\<rparr>)"
proof -
  let ?r = "Request \<lparr>raw = None, rq_length = 0\<rparr>"
  show ?thesis
  proof (cases rule: dmem_create_cases [OF assms(1), of 8 ?r m])
    case 1
    then show ?thesis by (intro that(1) [of m]) (simp_all add: create_request_handle_def)
  next
    case (2 rh)
    let ?m1 = "m\<lparr>blocks := (blocks m)(rh \<mapsto> ?r), aaa := aaa m + 1\<rparr>"
    note rh = 2
    show ?thesis
    proof (cases rule: dmem_create_cases [OF assms(1), of n "Raw junk" ?m1])
      case 1
      with rh show ?thesis
        by (intro that(1) [of "?m1\<lparr>fff := fff m + 1, blocks := blocks m\<rparr>"])
          (auto simp: create_request_handle_def live_def fun_upd_idem)
    next
      case (2 a)
      then have "a \<noteq> rh" "blocks m a = None" by (auto split: if_splits)
      then show ?thesis using rh 2(1)
        by (intro that(2) [of rh "dmem_write rh (Request \<lparr>raw = Some a, rq_length = 0\<rparr>)
            (?m1\<lparr>blocks := (blocks ?m1)(a \<mapsto> Raw junk), aaa := aaa ?m1 + 1\<rparr>)" a])
          (simp_all add: create_request_handle_def dmem_write_def live_def fun_upd_twist)
    qed
  qed
qed

section \<open>Requests as they are sent\<close>

text \<open>A request with its headers; \<open>request_bytes\<close> is what a callee reads that is given the buffer and the length.\<close>

definition write_request ::
  "http_block malloc \<Rightarrow> string \<Rightarrow> t_HTTP_METHODS \<Rightarrow> string option \<Rightarrow> int \<Rightarrow> string option \<Rightarrow> (string \<times> string) list \<Rightarrow>
     http_block dmem \<Rightarrow> (nat option \<times> http_block dmem) outcome" where
  "write_request malloc junk meth host prt path hs m =
     seq (http_request_init malloc junk meth host prt path m) (\<lambda>(h, m).
     (case h of
        None \<Rightarrow> Inr (None, m)
      | Some rh \<Rightarrow> seq (run (\<lambda>(l, c). http_request_add_generic rh l c) hs m) (\<lambda>m. Inr (Some rh, m))))"

definition request_bytes :: "nat \<Rightarrow> http_block dmem \<Rightarrow> string outcome" where
  "request_bytes rh m =
     seq (request_at rh m) (\<lambda>r.
     seq (raw_at (raw r) m) (\<lambda>buf.
     if unat (rq_length r) \<le> length buf then Inr (take (unat (rq_length r)) buf) else Inl Out_Of_Bounds))"

text \<open>A request that is written, read and deleted.\<close>

definition with_request ::
  "http_block malloc \<Rightarrow> string \<Rightarrow> t_HTTP_METHODS \<Rightarrow> string option \<Rightarrow> int \<Rightarrow> string option \<Rightarrow> (string \<times> string) list \<Rightarrow>
     http_block dmem \<Rightarrow> (string option \<times> http_block dmem) outcome" where
  "with_request malloc junk meth host prt path hs m =
     seq (write_request malloc junk meth host prt path hs m) (\<lambda>(h, m).
     (case h of
        None \<Rightarrow> Inr (None, m)
      | Some rh \<Rightarrow>
          seq (request_bytes rh m) (\<lambda>bs.
          seq (http_request_delete (Some rh) m) (\<lambda>m. Inr (Some bs, m)))))"

definition header_lines :: "(string \<times> string) list \<Rightarrow> string" where
  "header_lines hs = concat (map (\<lambda>(l, c). l @ '': '' @ c @ CRLF) hs)"

definition request_text :: "t_HTTP_METHODS \<Rightarrow> string \<Rightarrow> int \<Rightarrow> string \<Rightarrow> (string \<times> string) list \<Rightarrow> string" where
  "request_text meth host prt path hs =
     method_name meth @ '' /'' @ path @ '' HTTP/1.1'' @ CRLF @ ''Host: '' @ host @
     (if prt = 80 then [] else CHR '':'' # fmt_d prt) @ CRLF @ header_lines hs @ CRLF"

lemma header_lines_simps [simp]: "header_lines [] = []"
    "header_lines ((l, c) # hs) = l @ '': '' @ c @ CRLF @ header_lines hs"
  by (simp_all add: header_lines_def)

lemma init_holds:
  assumes "malloc_ok malloc" "length junk = REQUEST_FIXED_LENGHT"
  obtains m' where "http_request_init malloc junk meth (Some host) prt (Some path) m = Inr (None, m')"
      "blocks m' = blocks m" "live m' = live m"
  | rh m' where "http_request_init malloc junk meth (Some host) prt (Some path) m = Inr (Some rh, m')"
      "holds m m' rh (request_text meth host prt path [])"
proof (cases rule: create_cases [OF assms, of REQUEST_FIXED_LENGHT m])
  case (1 m')
  then show ?thesis by (intro that(1) [of m']) (simp_all add: http_request_init_def)
next
  case (2 rh a m1)
  let ?g = "method_name meth" let ?b = "?g @ drop (length ?g) junk"
  let ?m2 = "dmem_write rh (Request \<lparr>raw = Some a, rq_length = of_nat (length ?g)\<rparr>) (dmem_write a (Raw ?b) m1)"
  have g: "length ?g \<le> 4" by (cases meth) (simp_all add: method_name_def)
  have "write_method meth rh m1 = Inr ?m2"
    using 2(2,6) g assms(2)
    by (simp add: write_method_def request_at_def raw_at_def poke_def REQUEST_FIXED_LENGHT_def)
  moreover have "blocks ?m2 = (blocks m)(a \<mapsto> Raw ?b, rh \<mapsto> Request \<lparr>raw = Some a, rq_length = of_nat (length ?g)\<rparr>)"
    using 2(2,6) by (simp add: dmem_write_def fun_upd_twist)
  then have "if length ?g - 0 \<le> REQUEST_FIXED_LENGHT
    then \<exists>m'. append_text rh (of_nat 0) (first_lines host prt path) ?m2 = Inr m' \<and>
      holds m m' rh (take (length ?g - 0) ?g @ first_lines host prt path)
    else append_text rh (of_nat 0) (first_lines host prt path) ?m2 = Inl Out_Of_Bounds"
    using 2(2-5) g assms(2)
    by (intro append_step [where a = a and buf = ?b]) (simp_all add: REQUEST_FIXED_LENGHT_def live_def dmem_write_def)
  then obtain m' where "append_text rh 0 (first_lines host prt path) ?m2 = Inr m'"
    "holds m m' rh (?g @ first_lines host prt path)" using g by (auto simp: REQUEST_FIXED_LENGHT_def)
  moreover have "?g @ first_lines host prt path = request_text meth host prt path []"
    by (simp add: first_lines_def request_text_def)
  ultimately show ?thesis using 2(1)
    by (intro that(2) [of rh m']) (simp_all add: http_request_init_def)
qed

text \<open>The headers. When one does not fit, nor does the whole.\<close>

lemma add_headers:
  assumes "holds m0 m rh (s @ CRLF)" "length (s @ header_lines hs @ CRLF) < 2 ^ 31"
  shows "(\<exists>m'. run (\<lambda>(l, c). http_request_add_generic rh l c) hs m = Inr m' \<and> holds m0 m' rh (s @ header_lines hs @ CRLF)) \<or>
    run (\<lambda>(l, c). http_request_add_generic rh l c) hs m = Inl Out_Of_Bounds \<and>
      REQUEST_FIXED_LENGHT < length (s @ header_lines hs @ CRLF)"
  using assms
proof (induction hs arbitrary: s m)
  case (Cons h hs)
  obtain l c where h: "h = (l, c)" by (cases h)
  let ?s = "s @ l @ '': '' @ c @ CRLF"
  have "length (s @ CRLF) < 2 ^ 31" using Cons.prems(2) by (simp add: h)
  note a = append_holds [OF Cons.prems(1) _ this, of 2 "l @ '': '' @ c @ CRLF @ CRLF"]
  show ?case
  proof (cases "length s \<le> REQUEST_FIXED_LENGHT")
    case True
    then obtain m' where m': "append_text rh 2 (l @ '': '' @ c @ CRLF @ CRLF) m = Inr m'" "holds m0 m' rh (?s @ CRLF)"
      using a by auto
    have "length (?s @ header_lines hs @ CRLF) < 2 ^ 31" using Cons.prems(2) by (simp add: h)
    from Cons.IH [OF m'(2) this] show ?thesis using m'(1) by (auto simp: h http_request_add_generic_def)
  next
    case False
    then show ?thesis using a by (simp add: h http_request_add_generic_def)
  qed
qed simp

lemma holds_bytes:
  assumes "holds m0 m rh t" "length t < 2 ^ 31"
  shows "request_bytes rh m =
    (if length t < REQUEST_FIXED_LENGHT then Inr t
     else if length t = REQUEST_FIXED_LENGHT then Inr (butlast t @ [NUL]) else Inl Out_Of_Bounds)"
proof -
  from assms(1) obtain a buf where a: "a \<noteq> rh" 
    "blocks m = (blocks m0)(a \<mapsto> Raw buf, rh \<mapsto> Request \<lparr>raw = Some a, rq_length = of_nat (length t)\<rparr>)"
    and buf: "length buf = REQUEST_FIXED_LENGHT" "take (Suc (min 2047 (length t))) buf = take 2047 t @ [NUL]"
    unfolding holds_def by blast
  have "unat (of_nat (length t) :: u32) = length t" using assms(2)
    by (subst unsigned_of_nat) (simp add: take_bit_nat_eq_self)
  then have e: "request_bytes rh m = (if length t \<le> REQUEST_FIXED_LENGHT then Inr (take (length t) buf) else Inl Out_Of_Bounds)"
    using a buf(1) by (simp add: request_bytes_def request_at_def raw_at_def)
  have "take (length t) buf = t" if "length t < 2048"
  proof -
    have "take (length t) (take (Suc (min 2047 (length t))) buf) = take (length t) (take 2047 t @ [NUL])" by (simp only: buf(2))
    then show ?thesis using that by (simp add: min_def split: if_splits)
  qed
  moreover have "take (length t) buf = butlast t @ [NUL]" if "length t = 2048"
    using buf(2) that by (simp add: min_def butlast_conv_take)
  ultimately show ?thesis unfolding e by (simp add: REQUEST_FIXED_LENGHT_def)
qed

lemma holds_delete:
  assumes "holds m0 m rh t"
  shows "\<exists>m'. http_request_delete (Some rh) m = Inr m' \<and> blocks m' = blocks m0 \<and> live m' = live m0"
  using assms by (auto simp: holds_def http_request_delete_def request_at_def live_def fun_upd_idem fun_upd_twist)

lemma request_sent:
  assumes "malloc_ok malloc" "length junk = REQUEST_FIXED_LENGHT" "length (request_text meth host prt path hs) < 2 ^ 31"
  shows "(\<exists>m'. with_request malloc junk meth (Some host) prt (Some path) hs m = Inr (None, m') \<and>
      blocks m' = blocks m \<and> live m' = live m) \<or>
    (let t = request_text meth host prt path hs in
     if length t \<le> REQUEST_FIXED_LENGHT
     then \<exists>m'. with_request malloc junk meth (Some host) prt (Some path) hs m =
         Inr (Some (if length t < REQUEST_FIXED_LENGHT then t else butlast t @ [NUL]), m') \<and>
       blocks m' = blocks m \<and> live m' = live m
     else with_request malloc junk meth (Some host) prt (Some path) hs m = Inl Out_Of_Bounds)"
proof (cases rule: init_holds [OF assms(1,2), of meth host prt path m])
  case (1 m')
  then show ?thesis by (simp add: with_request_def write_request_def)
next
  case (2 rh m1)
  obtain s where t: "request_text meth host prt path hs = s @ header_lines hs @ CRLF" for hs
    by (rule that [of "method_name meth @ '' /'' @ path @ '' HTTP/1.1'' @ CRLF @ ''Host: '' @ host @
        (if prt = 80 then [] else CHR '':'' # fmt_d prt) @ CRLF"]) (simp add: request_text_def)
  have "holds m m1 rh (s @ CRLF)" using 2(2) by (simp add: t)
  moreover have "length (s @ header_lines hs @ CRLF) < 2 ^ 31" using assms(3) by (simp add: t)
  ultimately consider
      m' where "run (\<lambda>(l, c). http_request_add_generic rh l c) hs m1 = Inr m'" "holds m m' rh (request_text meth host prt path hs)"
    | "run (\<lambda>(l, c). http_request_add_generic rh l c) hs m1 = Inl Out_Of_Bounds"
        "REQUEST_FIXED_LENGHT < length (request_text meth host prt path hs)"
    using add_headers [of m m1 rh s hs] unfolding t by blast
  then show ?thesis
  proof cases
    case 1
    from holds_delete [OF 1(2)] obtain m2 where "http_request_delete (Some rh) m' = Inr m2" "blocks m2 = blocks m" "live m2 = live m"
      by blast
    then show ?thesis using 1(1) 2(1) holds_bytes [OF 1(2) assms(3)]
      by (simp add: with_request_def write_request_def Let_def)
  next
    case 2
    then show ?thesis using \<open>http_request_init malloc junk meth (Some host) prt (Some path) m = Inr (Some rh, m1)\<close>
      by (simp add: with_request_def write_request_def Let_def)
  qed
qed

text \<open>
  C9: A request of up to 2047 characters is sent as it should be, for every behaviour of
  \<open>malloc\<close>, and leaves nothing allocated. A request of 2048 characters loses its last one to the
  NUL of \<open>snprintf\<close>. A longer one makes the firmware write or read outside of the buffer:
  \<open>snprintf\<close> returns the length the text would have had, and the size that is left, an unsigned
  number, wraps.
\<close>

theorem request_text_sent:
  assumes "malloc_ok malloc" "length junk = REQUEST_FIXED_LENGHT" "length (request_text meth host prt path hs) < 2 ^ 31"
  shows "(\<exists>m'. with_request malloc junk meth (Some host) prt (Some path) hs m = Inr (None, m') \<and>
      blocks m' = blocks m \<and> live m' = live m) \<or>
    (let t = request_text meth host prt path hs in
     if length t \<le> REQUEST_FIXED_LENGHT
     then \<exists>m'. with_request malloc junk meth (Some host) prt (Some path) hs m =
         Inr (Some (if length t < REQUEST_FIXED_LENGHT then t else butlast t @ [NUL]), m') \<and>
       blocks m' = blocks m \<and> live m' = live m
     else with_request malloc junk meth (Some host) prt (Some path) hs m = Inl Out_Of_Bounds)"
  by (rule request_sent [OF assms])

definition empty_memory :: "http_block dmem" where
  "empty_memory = \<lparr>blocks = Map.empty, aaa = 0, fff = 0\<rparr>"

lemma first_fit_request: "with_request first_fit junk meth host prt path hs empty_memory \<noteq> Inr (None, m')"
proof -
  have "\<exists>m. create_request_handle first_fit junk n empty_memory = Inr (Some 0, m)" for n
    by (simp add: create_request_handle_def dmem_create_def first_fit_def empty_memory_def upt_rec)
  then obtain m where "create_request_handle first_fit junk REQUEST_FIXED_LENGHT empty_memory = Inr (Some 0, m)" by blast
  then show ?thesis
    by (auto simp: with_request_def write_request_def http_request_init_def seq_eq_Inr_iff)
qed

theorem request_text_sent_witness:
  "\<exists>m'. with_request first_fit (zeros 2048) HTTP_METHOD_GET (Some ''h'') 81 (Some ''p'') [(''Upgrade'', ''websocket'')] empty_memory =
    Inr (Some (request_text HTTP_METHOD_GET ''h'' 81 ''p'' [(''Upgrade'', ''websocket'')]), m') \<and>
    blocks m' = Map.empty \<and> live m' = 0"
  using request_text_sent [of first_fit "zeros 2048" HTTP_METHOD_GET "''h''" 81 "''p''" "[(''Upgrade'', ''websocket'')]" empty_memory]
    first_fit_request
  by (auto simp: REQUEST_FIXED_LENGHT_def request_text_def method_name_def fmt_d_def Let_def live_def empty_memory_def)

lemma fmt_d_plain: "c \<in> set (fmt_d i) \<Longrightarrow> \<not> is_ctl c \<and> \<not> is_blank c"
proof -
  have d: "is_digit c \<Longrightarrow> \<not> is_ctl c \<and> \<not> is_blank c" by (auto simp: is_ctl_def is_blank_def is_digit_def)
  have "\<not> is_ctl CHR ''-'' \<and> \<not> is_blank CHR ''-''" by (simp add: is_ctl_def is_blank_def)
  then show "c \<in> set (fmt_d i) \<Longrightarrow> ?thesis" using d dec_digits by (auto simp: fmt_d_def split: if_splits)
qed

lemma plain_host:
  assumes "plain_header \<lparr>hdr_name = Some ''Host'', hdr_value = host\<rparr>" "host \<noteq> []"
  shows "plain_header \<lparr>hdr_name = Some ''Host'', hdr_value = host @ (if prt = 80 then [] else CHR '':'' # fmt_d prt)\<rparr>"
proof (cases "prt = 80")
  case False
  have "last (fmt_d prt) \<in> set (fmt_d prt)" by (rule last_in_set) (simp add: fmt_d_def)
  then have "\<not> is_blank (last (fmt_d prt))" using fmt_d_plain by blast
  moreover have "fmt_d prt \<noteq> []" by (simp add: fmt_d_def)
  moreover have "list_all (\<lambda>c. \<not> is_ctl c) (fmt_d prt)" using fmt_d_plain by (auto simp: list_all_iff)
  moreover have "\<not> is_ctl CHR '':''" by (simp add: is_ctl_def)
  ultimately show ?thesis using assms False by (simp add: plain_header_def header_ok_def value_ok_def)
qed (use assms in simp)

text \<open>
  C8: What is sent is an HTTP request: the parser of the firmware, and so any server that follows the
  same grammar, reads back the method, the path and the headers that were put in, for a path
  without blanks and headers that are tokens with plain values.
\<close>

theorem sent_request_parses:
  assumes "with_request malloc junk meth (Some host) prt (Some path) hs m = Inr (Some t, m')"
    and "malloc_ok malloc" "length junk = REQUEST_FIXED_LENGHT" "length (request_text meth host prt path hs) < REQUEST_FIXED_LENGHT"
    and "list_all path_char path" "plain_header \<lparr>hdr_name = Some ''Host'', hdr_value = host\<rparr>" "host \<noteq> []"
    and "list_all (\<lambda>(l, c). plain_header \<lparr>hdr_name = Some l, hdr_value = c\<rparr>) hs" "length hs < k"
  shows "phr_parse_request t k 0 = Inr (int (length t),
    Some \<lparr>req_method = method_name meth, req_path = CHR ''/'' # path, req_minor_version = 1,
      req_headers = \<lparr>hdr_name = Some ''Host'', hdr_value = host @ (if prt = 80 then [] else CHR '':'' # fmt_d prt)\<rparr> #
        map (\<lambda>(l, c). \<lparr>hdr_name = Some l, hdr_value = c\<rparr>) hs\<rparr>)"
proof -
  let ?h = "\<lparr>hdr_name = Some ''Host'', hdr_value = host @ (if prt = 80 then [] else CHR '':'' # fmt_d prt)\<rparr>"
  let ?hs = "?h # map (\<lambda>(l, c). \<lparr>hdr_name = Some l, hdr_value = c\<rparr>) hs"
  let ?r = "\<lparr>req_method = method_name meth, req_path = CHR ''/'' # path, req_minor_version = 1, req_headers = ?hs\<rparr>"
  have "length (request_text meth host prt path hs) < 2 ^ 31" using assms(4) by (simp add: REQUEST_FIXED_LENGHT_def)
  from request_sent [OF assms(2,3) this, of m] assms(1,4) have t: "t = request_text meth host prt path hs"
    by (auto simp: Let_def)
  have hl: "concat (map (render_header \<circ> (\<lambda>(l, c). \<lparr>hdr_name = Some l, hdr_value = c\<rparr>)) hs) = header_lines hs" for hs
    by (induction hs) (auto simp: render_header_def)
  have "render_request ?r = t"
    by (simp add: t request_text_def render_request_def render_headers_def render_header_def [of ?h] hl)
  have h: "plain_header ?h" using assms(6,7) plain_host by blast
  have hs: "list_all plain_header ?hs" using h assms(8) by (auto simp: list.pred_map comp_def split_def)
  have "list_all token_char (method_name meth)" "method_name meth \<noteq> []"
    by (cases meth; simp add: method_name_def; code_simp)+
  moreover have "path_char CHR ''/''" by (simp add: path_char_def is_ctl_def is_blank_def)
  moreover have "headers_ok ?hs" using hs by (auto simp: headers_ok_def plain_header_def list_all_iff)
  ultimately have "request_ok k ?r" using assms(5,9) by (simp add: request_ok_def token_ok_def)
  with hs \<open>render_request ?r = t\<close> show ?thesis using request_round_trip [of k ?r "[]"] by simp
qed

theorem sent_request_parses_witness:
  "\<exists>t m'. with_request first_fit (zeros 2048) HTTP_METHOD_GET (Some ''h'') 81 (Some ''p'') [(''Upgrade'', ''websocket'')] empty_memory =
      Inr (Some t, m') \<and>
    phr_parse_request t 2 0 = Inr (int (length t),
      Some \<lparr>req_method = ''GET'', req_path = ''/p'', req_minor_version = 1,
        req_headers = [\<lparr>hdr_name = Some ''Host'', hdr_value = ''h:81''\<rparr>, \<lparr>hdr_name = Some ''Upgrade'', hdr_value = ''websocket''\<rparr>]\<rparr>)"
proof -
  let ?hs = "[(''Upgrade'', ''websocket'')]"
  have l: "length (request_text HTTP_METHOD_GET ''h'' 81 ''p'' ?hs) < REQUEST_FIXED_LENGHT" "length (zeros 2048) = REQUEST_FIXED_LENGHT"
    by (simp_all add: REQUEST_FIXED_LENGHT_def request_text_def method_name_def fmt_d_def)
  then obtain t m' where r: "with_request first_fit (zeros 2048) HTTP_METHOD_GET (Some ''h'') 81 (Some ''p'') ?hs empty_memory = Inr (Some t, m')"
    using request_sent [OF malloc_ok_first_fit l(2), of HTTP_METHOD_GET "''h''" 81 "''p''" ?hs empty_memory] first_fit_request
    by (auto simp: Let_def REQUEST_FIXED_LENGHT_def)
  have "list_all path_char ''p''" "plain_header \<lparr>hdr_name = Some ''Host'', hdr_value = ''h''\<rparr>"
    "list_all (\<lambda>(l, c). plain_header \<lparr>hdr_name = Some l, hdr_value = c\<rparr>) ?hs" by code_simp+
  from sent_request_parses [OF r malloc_ok_first_fit l(2,1) this(1,2) _ this(3), of 2] r show ?thesis
    by (simp add: method_name_def fmt_d_def)
qed

section \<open>The length of a form\<close>

text \<open>
  C10: The length announced for a form ends with the line of the closing delimiter; the empty line
  that every header function leaves behind it, so that the next can overwrite it, is sent on top:
  two bytes more than were announced, which the server will take for the beginning of the next request.
\<close>

theorem form_length_is_two_short:
  assumes "length user + length pass < 2 ^ 31"
  shows "form_body user pass = take (unat (content_length user pass)) (form_body user pass) @ CRLF"
proof -
  have n: "length boundary = 27" by (simp add: boundary_def)
  have "content_length user pass = of_nat (197 + length user + length pass)"
    by (simp add: content_length_def n algebra_simps)
  then have "unat (content_length user pass) = 197 + length user + length pass"
    using assms by (simp only:) (subst unsigned_of_nat, simp add: take_bit_nat_eq_self)
  moreover have "length (form_body user pass) = 199 + length user + length pass"
    by (simp add: form_body_def n)
  moreover have "drop (length xs - 2) xs = CRLF" if "xs = ys @ CRLF" for xs ys :: string using that by simp
  from this [of "form_body user pass"] have "drop (length (form_body user pass) - 2) (form_body user pass) = CRLF"
    by (simp add: form_body_def)
  ultimately show ?thesis using append_take_drop_id [of "197 + (length user + length pass)" "form_body user pass"] by (simp add: add.assoc)
qed

theorem form_length_is_two_short_witness:
  "form_body ''u'' ''secret'' = take (unat (content_length ''u'' ''secret'')) (form_body ''u'' ''secret'') @ CRLF"
  by (rule form_length_is_two_short) simp

end
