(* ===== verification/Ws_Client.thy ===== *)
theory Ws_Client
  imports Url_Parser Http_Request Tcp_Client
begin

unbundle bit_operations_syntax

text \<open>
  The WebSocket client (\<open>net/client/ws_client.c\<close>, \<open>ws_client.h\<close>) on top of the TCP client, the URL
  parser, the HTTP requests and the HTTP parser. The table of clients has one element
  (\<open>WS_MAX_CLIENTS\<close>), which the state holds. Frames are in dynamic memory, linked both ways; each
  module's blocks are in a heap of their own. Random numbers, SHA-1, base64 and what \<open>malloc\<close> and
  \<open>realloc\<close> decide are parameters; the callbacks of the application are logged and call nothing,
  the application calls the interface between the polls. Not modelled: the log messages.
\<close>

section \<open>Data\<close>

datatype t_WS_STATES =
    WS_STATE_INIT | WS_STATE_IDLE | WS_STATE_MANAGE_URL | WS_STATE_OPEN_CONNECTION
  | WS_STATE_WAIT_TCP_SOCKET_CONNECTION | WS_STATE_INIT_HANDSHAKE | WS_STATE_WAIT_HANDSHAKE_RESPONSE
  | WS_STATE_WAIT_HANDSHAKE_RESPONSE_PARSE | WS_STATE_CONNECTION_ESTABLISHED | WS_STATE_CLOSE
  | WS_STATE_ERROR | WS_STATE_RETRY | WS_STATE_HALT | WS_STATE_NULL

definition RETRY_TIME_S :: u32 where "RETRY_TIME_S = 30"
definition WS_KEY_LENGTH :: nat where "WS_KEY_LENGTH = 256"
definition WS_RECEIVE_BUFFER :: nat where "WS_RECEIVE_BUFFER = 2048"
definition WS_STR_PING_LENGTH :: nat where "WS_STR_PING_LENGTH = 128"
definition HTTP_MAX_RESPONSE_HEADERS :: nat where "HTTP_MAX_RESPONSE_HEADERS = 10"
definition FRAME_CHUNK_LENGTH :: u32 where "FRAME_CHUNK_LENGTH = 512"
definition WS_INVALID_HANDLER :: int where "WS_INVALID_HANDLER = -1"

definition CLIENT_IS_SSL :: u32 where "CLIENT_IS_SSL = 0x01"
definition CLIENT_CONNECTING :: u32 where "CLIENT_CONNECTING = 0x02"
definition CLIENT_SHOULD_CLOSE :: u32 where "CLIENT_SHOULD_CLOSE = 0x04"
definition CLIENT_SENT_CLOSE_FRAME :: u32 where "CLIENT_SENT_CLOSE_FRAME = 0x08"
definition REQUEST_HAS_CONNECTION :: u32 where "REQUEST_HAS_CONNECTION = 0x10"
definition REQUEST_HAS_UPGRADE :: u32 where "REQUEST_HAS_UPGRADE = 0x20"
definition REQUEST_VALID_STATUS :: u32 where "REQUEST_VALID_STATUS = 0x40"
definition REQUEST_VALID_ACCEPT :: u32 where "REQUEST_VALID_ACCEPT = 0x80"

definition UUID :: string where "UUID = ''258EAFA5-E914-47DA-95CA-C5AB0DC85B11''"

named_theorems ws_flags "the bits of the flags"

lemmas [ws_flags] = CLIENT_IS_SSL_def CLIENT_CONNECTING_def CLIENT_SHOULD_CLOSE_def CLIENT_SENT_CLOSE_FRAME_def
  REQUEST_HAS_CONNECTION_def REQUEST_HAS_UPGRADE_def REQUEST_VALID_STATUS_def REQUEST_VALID_ACCEPT_def

text \<open>\<open>mask_offset\<close> and \<open>mask\<close> of a frame are never used.\<close>

record t_WS_FRAME =
  fin :: u32
  opcode :: u32
  payload_offset :: u32
  rawdata_idx :: u32
  rawdata_sz :: u32
  payload_len :: "64 word"
  rawdata :: "nat option"
  next_frame :: "nat option"
  prev_frame :: "nat option"

record t_WS_MESSAGE =
  msg_opcode :: u32
  msg_payload_len :: "64 word"
  msg_payload :: "nat option"

datatype ws_block = Frame t_WS_FRAME | Rawdata "u8 list" | Message t_WS_MESSAGE

record t_WS_CLIENT_DATA =
  urlData :: "nat option"
  nPort :: u16
  curSocketId :: int
  ws_state :: t_WS_STATES
  flags :: u32
  onOpen :: "nat option"
  onClose :: "nat option"
  onMessage :: "nat option"
  onError :: "nat option"
  current_frame :: "nat option"
  webSocketKey :: string
  recv_buf :: "u8 list"
  ts :: u32
  activityTimeout :: u32
  pingStr :: string

text \<open>The calls of the application's callbacks; a message with the block its payload points to.\<close>

datatype ws_event =
    On_Open nat
  | On_Close nat
  | On_Message nat u32 "64 word" "u8 list"
  | On_Error nat int int

record ws_client =
  wsc :: t_WS_CLIENT_DATA
  frames :: "ws_block dmem"
  urls :: "url_block dmem"
  reqs :: "http_block dmem"
  tcp :: tcp_client
  ws_events :: "ws_event list"

text \<open>
  The environment of a poll. \<open>rand env i\<close> is the \<open>i\<close>-th number after \<open>srand (time (NULL))\<close>; the two
  \<open>junk\<close> fields are what memory holds that the code does not initialise.
\<close>

record ws_env =
  frame_malloc :: "ws_block malloc"
  frame_realloc :: "ws_block realloc"
  url_malloc :: "url_block malloc"
  http_malloc :: "http_block malloc"
  tcp_malloc :: "list_block malloc"
  request_junk :: string
  stack_junk :: string
  rand :: "nat \<Rightarrow> u32"
  sha1 :: "u8 list \<Rightarrow> u8 list"
  base64 :: "u8 list \<Rightarrow> nat \<Rightarrow> string"
  net :: network

definition upd_ws :: "(t_WS_CLIENT_DATA \<Rightarrow> t_WS_CLIENT_DATA) \<Rightarrow> ws_client \<Rightarrow> ws_client" where
  "upd_ws g s = s\<lparr>wsc := g (wsc s)\<rparr>"

definition set_ws_state :: "t_WS_STATES \<Rightarrow> ws_client \<Rightarrow> ws_client" where
  "set_ws_state st = upd_ws (\<lambda>d. d\<lparr>ws_state := st\<rparr>)"

definition set_flag :: "u32 \<Rightarrow> ws_client \<Rightarrow> ws_client" where
  "set_flag b = upd_ws (\<lambda>d. d\<lparr>flags := flags d OR b\<rparr>)"

definition has_flag :: "u32 \<Rightarrow> ws_client \<Rightarrow> bool" where
  "has_flag b s \<longleftrightarrow> flags (wsc s) AND b \<noteq> 0"

definition log_event :: "('a \<Rightarrow> ws_event) \<Rightarrow> 'a option \<Rightarrow> ws_client \<Rightarrow> ws_client" where
  "log_event e f s = (case f of None \<Rightarrow> s | Some f \<Rightarrow> s\<lparr>ws_events := ws_events s @ [e f]\<rparr>)"

definition on_error :: "int \<Rightarrow> int \<Rightarrow> ws_client \<Rightarrow> ws_client" where
  "on_error c x s = log_event (\<lambda>f. On_Error f c x) (onError (wsc s)) s"

text \<open>\<open>wscData[wsh]\<close>, with \<open>WS_MAX_CLIENTS\<close> = 1.\<close>

definition at_handle :: "int \<Rightarrow> 'a outcome \<Rightarrow> 'a outcome" where
  "at_handle wsh r = (if wsh = 0 then r else Inl Out_Of_Bounds)"

definition frame_at :: "nat \<Rightarrow> ws_block dmem \<Rightarrow> t_WS_FRAME outcome" where
  "frame_at a m = (case blocks m a of Some (Frame f) \<Rightarrow> Inr f | _ \<Rightarrow> Inl Out_Of_Bounds)"

definition bytes_at :: "nat option \<Rightarrow> ws_block dmem \<Rightarrow> u8 list outcome" where
  "bytes_at p m =
     (case p of
        None \<Rightarrow> Inl Null_Deref
      | Some a \<Rightarrow> (case blocks m a of Some (Rawdata bs) \<Rightarrow> Inr bs | _ \<Rightarrow> Inl Out_Of_Bounds))"

definition zero_frame :: t_WS_FRAME where
  "zero_frame = \<lparr>fin = 0, opcode = 0, payload_offset = 0, rawdata_idx = 0, rawdata_sz = 0, payload_len = 0,
     rawdata = None, next_frame = None, prev_frame = None\<rparr>"

section \<open>The callback of the TCP client\<close>

definition sock_cb :: "t_TCP_CLIENT_CONTEXT \<Rightarrow> ws_client \<Rightarrow> ws_client" where
  "sock_cb c s =
     (case ev_event c of
        CLIENT_EVENT_CONNECTED \<Rightarrow> set_ws_state WS_STATE_INIT_HANDSHAKE (upd_ws (\<lambda>d. d\<lparr>curSocketId := ev_sid c\<rparr>) s)
      | CLIENT_EVENT_TX \<Rightarrow> s
      | CLIENT_EVENT_RX \<Rightarrow> s
      | CLIENT_EVENT_DISCONNECTED \<Rightarrow> set_ws_state WS_STATE_CLOSE s
      | _ \<Rightarrow> set_ws_state WS_STATE_ERROR s)"

section \<open>Frames that arrive\<close>

text \<open>The loops that copy the bytes of a length into a number, last byte first.\<close>

definition big_endian :: "u8 list \<Rightarrow> 64 word" where
  "big_endian bs = foldl (\<lambda>v b. push_bit 8 v OR ucast b) 0 bs"

definition length_bytes :: "u8 list \<Rightarrow> nat \<Rightarrow> 64 word outcome" where
  "length_bytes bs n = (if 2 + n \<le> length bs then Inr (big_endian (take n (drop 2 bs))) else Inl Out_Of_Bounds)"

text \<open>
  \<open>complete_frame\<close>, given what \<open>rawdata\<close> points to: the value returned, the frame, and whether the
  flag \<open>CLIENT_SHOULD_CLOSE\<close> is set.
\<close>

definition complete_frame :: "u8 list \<Rightarrow> t_WS_FRAME \<Rightarrow> (int \<times> t_WS_FRAME \<times> bool) outcome" where
  "complete_frame bs f =
     (if rawdata_idx f < 2 then Inr (0, f, False)
      else
        seq (rd bs 0) (\<lambda>b0.
        seq (rd bs 1) (\<lambda>b1.
        let f = f\<lparr>fin := if b0 AND 0x80 = 0x80 then 1 else 0, opcode := ucast (b0 AND 0x0F), payload_offset := 2\<rparr>
        in if b1 AND 0x80 \<noteq> 0 then Inr (-1, f, True)
           else let payload_len_short = b1 AND 0x7F in
             seq (if payload_len_short = 126
                  then if rawdata_idx f < 4 then Inr (False, f)
                       else seq (length_bytes bs 2) (\<lambda>n. Inr (True, f\<lparr>payload_offset := payload_offset f + 2, payload_len := n\<rparr>))
                  else if payload_len_short = 127
                  then if rawdata_idx f < 10 then Inr (False, f)
                       else seq (length_bytes bs 8) (\<lambda>n. Inr (True, f\<lparr>payload_offset := payload_offset f + 8, payload_len := n\<rparr>))
                  else Inr (True, f\<lparr>payload_len := ucast payload_len_short\<rparr>)) (\<lambda>(known, f).
             Inr (if \<not> known \<or> ucast (rawdata_idx f) < ucast (payload_offset f) + payload_len f then 0 else 1, f, False)))))"

definition little_endian :: "u32 \<Rightarrow> u8 list" where
  "little_endian w = [ucast w, ucast (drop_bit 8 w), ucast (drop_bit 16 w), ucast (drop_bit 24 w)]"

definition mask_with :: "u8 list \<Rightarrow> u8 list \<Rightarrow> u8 list" where
  "mask_with key bs = map (\<lambda>i. bs ! i XOR key ! (i mod 4)) [0..<length bs]"

text \<open>The bytes of the close frame that is sent back, in place.\<close>

definition close_reply :: "u8 list \<Rightarrow> t_WS_FRAME \<Rightarrow> u8 list \<Rightarrow> u8 list outcome" where
  "close_reply key f bs =
     (let off = unat (payload_offset f); n = unat (payload_len f) in
      if off + n \<le> length bs \<and> 1 < length bs
      then let bs = take off bs @ mask_with key (take n (drop off bs)) @ drop (off + n) bs
           in Inr (bs[1 := bs ! 1 OR 0x80])
      else Inl Out_Of_Bounds)"

definition reply_to_close :: "ws_env \<Rightarrow> t_WS_FRAME \<Rightarrow> ws_client \<Rightarrow> ws_client outcome" where
  "reply_to_close env f s =
     (if \<not> has_flag CLIENT_SENT_CLOSE_FRAME s
      then seq (bytes_at (rawdata f) (frames s)) (\<lambda>bs.
           seq (close_reply (little_endian (rand env 0)) f bs) (\<lambda>bs.
           let s = s\<lparr>frames := dmem_write (the (rawdata f)) (Rawdata bs) (frames s)\<rparr>;
               len = ucast (payload_offset f) + payload_len f
           in if 0 < len
              then seq (tcp_client_send (tcp_malloc env) (curSocketId (wsc s)) (Some bs) (ucast len) (tcp s)) (\<lambda>(_, t).
                   Inr (s\<lparr>tcp := t\<rparr>))
              else Inr s))
      else Inr s)"

definition handle_control_frame :: "ws_env \<Rightarrow> nat \<Rightarrow> ws_client \<Rightarrow> (int \<times> ws_client) outcome" where
  "handle_control_frame env a s =
     seq (frame_at a (frames s)) (\<lambda>f.
     seq (if opcode f = 0x8 then seq (reply_to_close env f s) (\<lambda>s. Inr (set_flag CLIENT_SHOULD_CLOSE s)) else Inr s) (\<lambda>s.
     seq (dmem_release (rawdata f) (frames s)) (\<lambda>m.
     let (p, m) = dmem_create (frame_malloc env) (unat FRAME_CHUNK_LENGTH) (Rawdata (replicate (unat FRAME_CHUNK_LENGTH) 0)) m
     in Inr (if p \<noteq> None then 0 else -1,
          s\<lparr>frames := dmem_write a (Frame (zero_frame\<lparr>prev_frame := prev_frame f, rawdata := p\<rparr>)) m\<rparr>))))"

text \<open>The loop of \<open>cleanup_frames\<close> over the frames.\<close>

definition cleanup_turn :: "(nat option \<times> ws_block dmem) outcome \<Rightarrow> (nat option \<times> ws_block dmem) outcome" where
  "cleanup_turn s =
     seq s (\<lambda>(this, m).
     seq (deref this) (\<lambda>c.
     seq (frame_at c m) (\<lambda>f.
     seq (if rawdata f \<noteq> None then dmem_release (rawdata f) m else Inr m) (\<lambda>m.
     seq (dmem_release this m) (\<lambda>m. Inr (next_frame f, m))))))"

definition cleanup_more :: "(nat option \<times> ws_block dmem) outcome \<Rightarrow> bool" where
  "cleanup_more s = (case s of Inl _ \<Rightarrow> False | Inr (this, _) \<Rightarrow> this \<noteq> None)"

definition cleanup_frames :: "nat option \<Rightarrow> ws_block dmem \<Rightarrow> ws_block dmem outcome" where
  "cleanup_frames first m =
     (case while_option cleanup_more cleanup_turn (Inr (first, m)) of
        None \<Rightarrow> Inl Diverges | Some s \<Rightarrow> seq s (\<lambda>(_, m). Inr m))"

text \<open>
  The loop of \<open>dispatch_message\<close> back to the first frame, which adds up the lengths: the length of
  \<open>current\<close> is added before \<open>current\<close> is set to the frame before it.
\<close>

definition back_turn :: "ws_block dmem \<Rightarrow> (nat \<times> 64 word) outcome \<Rightarrow> (nat \<times> 64 word) outcome" where
  "back_turn m s =
     seq s (\<lambda>(c, n).
     seq (frame_at c m) (\<lambda>f.
     seq (deref (prev_frame f)) (\<lambda>p. Inr (p, n + payload_len f))))"

definition back_more :: "ws_block dmem \<Rightarrow> (nat \<times> 64 word) outcome \<Rightarrow> bool" where
  "back_more m s =
     (case s of Inl _ \<Rightarrow> False
      | Inr (c, _) \<Rightarrow> (case frame_at c m of Inl _ \<Rightarrow> True | Inr f \<Rightarrow> prev_frame f \<noteq> None))"

definition first_frame :: "ws_block dmem \<Rightarrow> nat \<Rightarrow> 64 word \<Rightarrow> (nat \<times> 64 word) outcome" where
  "first_frame m c n =
     (case while_option (back_more m) (back_turn m) (Inr (c, n)) of None \<Rightarrow> Inl Diverges | Some s \<Rightarrow> s)"

text \<open>The loop that copies the payloads; a size or an offset has 32 bits where it is used.\<close>

definition size32 :: "64 word \<Rightarrow> nat" where
  "size32 n = unat (ucast n :: u32)"

definition copy_turn :: "ws_block dmem \<Rightarrow> (nat option \<times> u8 list \<times> 64 word) outcome \<Rightarrow> (nat option \<times> u8 list \<times> 64 word) outcome" where
  "copy_turn m s =
     seq s (\<lambda>(current, buf, message_offset).
     seq (deref current) (\<lambda>c.
     seq (frame_at c m) (\<lambda>f.
     seq (bytes_at (rawdata f) m) (\<lambda>bs.
     let n = size32 (payload_len f); i = unat (payload_offset f); k = size32 message_offset in
     if i + n \<le> length bs \<and> k + n \<le> length buf
     then Inr (next_frame f, take k buf @ take n (drop i bs) @ drop (k + n) buf, message_offset + payload_len f)
     else Inl Out_Of_Bounds))))"

definition copy_more :: "(nat option \<times> u8 list \<times> 64 word) outcome \<Rightarrow> bool" where
  "copy_more s = (case s of Inl _ \<Rightarrow> False | Inr (current, _) \<Rightarrow> current \<noteq> None)"

definition copy_frames :: "ws_block dmem \<Rightarrow> nat \<Rightarrow> u8 list \<Rightarrow> (u8 list \<times> 64 word) outcome" where
  "copy_frames m first buf =
     (case while_option copy_more (copy_turn m) (Inr (Some first, buf, 0)) of
        None \<Rightarrow> Inl Diverges | Some s \<Rightarrow> seq s (\<lambda>(_, buf, n). Inr (buf, n)))"

text \<open>The message is handed to the application and released.\<close>

definition deliver_message :: "ws_env \<Rightarrow> nat \<Rightarrow> u32 \<Rightarrow> 64 word \<Rightarrow> u8 list \<Rightarrow> ws_client \<Rightarrow> ws_client outcome" where
  "deliver_message env p opc n buf s =
     seq (case dmem_create (frame_malloc env) 24 (Message \<lparr>msg_opcode = opc, msg_payload_len = n, msg_payload = Some p\<rparr>) (frames s) of
            (None, m) \<Rightarrow> Inr (s\<lparr>frames := m\<rparr>)
          | (Some q, m) \<Rightarrow>
              let s = log_event (\<lambda>g. On_Message g opc n buf) (onMessage (wsc s)) (s\<lparr>frames := m\<rparr>)
              in seq (dmem_release (Some q) (frames s)) (\<lambda>m. Inr (s\<lparr>frames := m\<rparr>))) (\<lambda>s.
     seq (dmem_release (Some p) (frames s)) (\<lambda>m. Inr (s\<lparr>frames := m\<rparr>)))"

definition dispatch_message :: "ws_env \<Rightarrow> nat option \<Rightarrow> ws_client \<Rightarrow> (int \<times> ws_client) outcome" where
  "dispatch_message env current s =
     (case current of
        None \<Rightarrow> Inr (-1, set_ws_state WS_STATE_ERROR (on_error 0 0 s))
      | Some c \<Rightarrow>
          seq (frame_at c (frames s)) (\<lambda>f.
          seq (first_frame (frames s) c (payload_len f)) (\<lambda>(first, message_payload_len).
          seq (frame_at first (frames s)) (\<lambda>f1.
          let n = size32 (message_payload_len + 1); zeros = replicate n 0 in
          (case dmem_create (frame_malloc env) n (Rawdata zeros) (frames s) of
             (None, m) \<Rightarrow> Inr (-1, s\<lparr>frames := m\<rparr>)
           | (Some p, m) \<Rightarrow>
               seq (copy_frames m first zeros) (\<lambda>(buf, message_offset).
               seq (cleanup_frames (Some first) (dmem_write p (Rawdata buf) m)) (\<lambda>m.
               seq (deliver_message env p (opcode f1) message_offset buf (s\<lparr>frames := m\<rparr>)) (\<lambda>s.
               Inr (0, s)))))))))"

text \<open>The parts of \<open>in_data\<close>; the flag they give is false where the code returns -1.\<close>

definition ensure_frame :: "ws_env \<Rightarrow> ws_client \<Rightarrow> (bool \<times> ws_client) outcome" where
  "ensure_frame env s =
     (if current_frame (wsc s) = None
      then let f = zero_frame\<lparr>payload_len := -1, rawdata_sz := FRAME_CHUNK_LENGTH\<rparr> in
           (case dmem_create (frame_malloc env) 48 (Frame f) (frames s) of
              (None, m) \<Rightarrow> Inr (False, s\<lparr>frames := m\<rparr>)
            | (Some a, m) \<Rightarrow>
                (case dmem_create (frame_malloc env) (unat FRAME_CHUNK_LENGTH) (Rawdata (replicate (unat FRAME_CHUNK_LENGTH) 0)) m of
                   (None, m) \<Rightarrow> seq (dmem_release (Some a) m) (\<lambda>m. Inr (False, s\<lparr>frames := m\<rparr>))
                 | (Some r, m) \<Rightarrow>
                     Inr (True, upd_ws (\<lambda>d. d\<lparr>current_frame := Some a\<rparr>)
                       (s\<lparr>frames := dmem_write a (Frame (f\<lparr>rawdata := Some r\<rparr>)) m\<rparr>))))
      else Inr (True, s))"

definition ensure_room :: "ws_env \<Rightarrow> nat \<Rightarrow> ws_client \<Rightarrow> (bool \<times> ws_client) outcome" where
  "ensure_room env a s =
     seq (frame_at a (frames s)) (\<lambda>f.
     if rawdata_idx f \<ge> rawdata_sz f
     then let f = f\<lparr>rawdata_sz := rawdata_sz f + FRAME_CHUNK_LENGTH\<rparr>; n = unat (rawdata_sz f); k = unat (rawdata_idx f) in
       seq (if rawdata f = None then Inr [] else bytes_at (rawdata f) (frames s)) (\<lambda>bs.
       seq (dmem_extend (frame_realloc env) (rawdata f) n (Rawdata (take k (bs @ replicate n 0) @ replicate (n - k) 0)) (frames s)) (\<lambda>(p, m).
       if p \<noteq> None then Inr (True, s\<lparr>frames := dmem_write a (Frame (f\<lparr>rawdata := p\<rparr>)) m\<rparr>)
       else seq (dmem_release (rawdata f) m) (\<lambda>m.
            seq (dmem_release (Some a) m) (\<lambda>m.
            Inr (False, upd_ws (\<lambda>d. d\<lparr>current_frame := None\<rparr>) (s\<lparr>frames := m\<rparr>))))))
     else Inr (True, s))"

definition next_fragment :: "ws_env \<Rightarrow> nat \<Rightarrow> ws_client \<Rightarrow> (int \<times> ws_client) outcome" where
  "next_fragment env a s =
     (let f = zero_frame\<lparr>payload_len := -1\<rparr> in
      case dmem_create (frame_malloc env) 48 (Frame f) (frames s) of
        (None, m) \<Rightarrow> Inr (-1, s\<lparr>frames := m\<rparr>)
      | (Some b, m) \<Rightarrow>
          (case dmem_create (frame_malloc env) (unat FRAME_CHUNK_LENGTH) (Rawdata (replicate (unat FRAME_CHUNK_LENGTH) 0)) m of
             (None, m) \<Rightarrow> Inr (-1, s\<lparr>frames := m\<rparr>)
           | (Some r, m) \<Rightarrow>
               seq (frame_at a m) (\<lambda>g.
               let m = dmem_write b (Frame (f\<lparr>rawdata := Some r, prev_frame := Some a\<rparr>)) m;
                   m = dmem_write a (Frame (g\<lparr>next_frame := Some b\<rparr>)) m
               in Inr (0, upd_ws (\<lambda>d. d\<lparr>current_frame := Some b\<rparr>) (s\<lparr>frames := m\<rparr>)))))"

definition frame_received :: "ws_env \<Rightarrow> nat \<Rightarrow> ws_client \<Rightarrow> (int \<times> ws_client) outcome" where
  "frame_received env a s =
     seq (frame_at a (frames s)) (\<lambda>f.
     if fin f = 1
     then if opcode f AND 0x08 = 0x08
          then seq (handle_control_frame env a s) (\<lambda>(r, s). Inr (if r \<noteq> 0 then -1 else 0, s))
          else seq (dispatch_message env (Some a) s) (\<lambda>(_, s).
               Inr (0, upd_ws (\<lambda>d. d\<lparr>current_frame := None\<rparr>) s))
     else next_fragment env a s)"

definition store_byte :: "ws_env \<Rightarrow> nat \<Rightarrow> u8 \<Rightarrow> ws_client \<Rightarrow> (int \<times> ws_client) outcome" where
  "store_byte env a b s =
     seq (frame_at a (frames s)) (\<lambda>f.
     if rawdata f = None then Inr (-1, s)
     else
       seq (bytes_at (rawdata f) (frames s)) (\<lambda>bs.
       let k = unat (rawdata_idx f) in
       if length bs \<le> k then Inl Out_Of_Bounds
       else
         let bs = bs[k := b]; m = dmem_write (the (rawdata f)) (Rawdata bs) (frames s);
             f = f\<lparr>rawdata_idx := rawdata_idx f + 1\<rparr>
         in seq (complete_frame bs f) (\<lambda>(r, f, close).
            let s = s\<lparr>frames := dmem_write a (Frame f) m\<rparr>; s = (if close then set_flag CLIENT_SHOULD_CLOSE s else s)
            in if r = 1 then frame_received env a s else Inr (0, s))))"

definition in_data :: "ws_env \<Rightarrow> u8 \<Rightarrow> ws_client \<Rightarrow> (int \<times> ws_client) outcome" where
  "in_data env b s =
     seq (ensure_frame env s) (\<lambda>(ok, s).
     if \<not> ok then Inr (-1, s)
     else
       seq (deref (current_frame (wsc s))) (\<lambda>a.
       seq (ensure_room env a s) (\<lambda>(ok, s).
       if \<not> ok then Inr (-1, s) else store_byte env a b s)))"

section \<open>Sending\<close>

definition bytes_of :: "string \<Rightarrow> u8 list" where
  "bytes_of t = map of_char t"

definition chars_of :: "u8 list \<Rightarrow> string" where
  "chars_of bs = map (\<lambda>b. char_of (unat b)) bs"

text \<open>The bytes of a number, the most significant first.\<close>

definition big_bytes :: "nat \<Rightarrow> 64 word \<Rightarrow> u8 list" where
  "big_bytes n w = map (\<lambda>i. ucast (drop_bit (8 * (n - i - 1)) w)) [0..<n]"

text \<open>
  A frame of text: the two bytes of the header, the extended length, the mask and the masked text. The
  case of a text that is too long for 64 bits cannot happen.
\<close>

definition text_frame :: "u8 list \<Rightarrow> string \<Rightarrow> u8 list" where
  "text_frame key t =
     (let payload_len = of_nat (length t) :: 64 word;
          (payload_len_small, ext) =
            (if payload_len \<le> 125 then (ucast payload_len, [])
             else if payload_len \<le> 0xFFFF then (126, big_bytes 2 payload_len)
             else (127, big_bytes 8 payload_len)) :: u8 \<times> u8 list
      in [0x81, payload_len_small OR 0x80] @ ext @ key @ mask_with key (bytes_of t))"

definition frame_size :: "string \<Rightarrow> u32" where
  "frame_size t =
     (let payload_len = of_nat (length t) :: 64 word in
      ucast (if payload_len \<le> 125 then 6 + payload_len
             else if payload_len \<le> 0xFFFF then 8 + payload_len else 14 + payload_len))"

definition send_error :: "int \<Rightarrow> ws_client \<Rightarrow> int \<times> ws_client" where
  "send_error x s = (-1, set_ws_state WS_STATE_ERROR (on_error 1 x s))"

definition ws_client_send :: "ws_env \<Rightarrow> int \<Rightarrow> string option \<Rightarrow> ws_client \<Rightarrow> (int \<times> ws_client) outcome" where
  "ws_client_send env wsh strdata s = at_handle wsh
     (if has_flag CLIENT_SENT_CLOSE_FRAME s then Inr (send_error 0 s)
      else if has_flag CLIENT_CONNECTING s then Inr (send_error 1 s)
      else
        (case strdata of
           None \<Rightarrow> Inr (send_error 2 s)
         | Some t \<Rightarrow>
             let bs = text_frame (little_endian (rand env 0)) t; n = frame_size t in
             (case dmem_create (frame_malloc env) (unat n) (Rawdata bs) (frames s) of
                (None, m) \<Rightarrow> Inr (send_error 4 (s\<lparr>frames := m\<rparr>))
              | (Some p, m) \<Rightarrow>
                  if unat n < length bs then Inl Out_Of_Bounds
                  else
                    seq (tcp_client_send (tcp_malloc env) (curSocketId (wsc s)) (Some bs) (ucast n) (tcp s)) (\<lambda>(r, t).
                    let (ret, s) = (if r = TCP_CLIENT_OP_SUCCESS then (0, s\<lparr>frames := m, tcp := t\<rparr>)
                          else send_error 4 (s\<lparr>frames := m, tcp := t\<rparr>))
                    in seq (dmem_release (Some p) (frames s)) (\<lambda>m. Inr (ret, s\<lparr>frames := m\<rparr>))))))"

definition ws_client_close :: "int \<Rightarrow> ws_client \<Rightarrow> (int \<times> ws_client) outcome" where
  "ws_client_close wsh s = at_handle wsh
     (seq (tcp_client_close (curSocketId (wsc s)) (tcp s)) (\<lambda>(_, t).
      Inr (0, set_flag CLIENT_SHOULD_CLOSE (s\<lparr>tcp := t\<rparr>))))"

definition ws_client_set_ping :: "int \<Rightarrow> string \<Rightarrow> u32 \<Rightarrow> ws_client \<Rightarrow> (int \<times> ws_client) outcome" where
  "ws_client_set_ping wsh strPing pingInterval s = at_handle wsh
     (Inr (0, upd_ws (\<lambda>d. d\<lparr>activityTimeout := pingInterval, pingStr := take (WS_STR_PING_LENGTH - 1) strPing\<rparr>) s))"

definition ws_client_open ::
  "ws_env \<Rightarrow> string \<Rightarrow> nat option \<Rightarrow> nat option \<Rightarrow> nat option \<Rightarrow> nat option \<Rightarrow> ws_client \<Rightarrow> (int \<times> ws_client) outcome" where
  "ws_client_open env url opn cls msg err s =
     (if ws_state (wsc s) = WS_STATE_IDLE
      then seq (url_parse (url_malloc env) url (urls s)) (\<lambda>(u, m).
           let s = upd_ws (\<lambda>d. d\<lparr>urlData := u\<rparr>) (s\<lparr>urls := m\<rparr>) in
           Inr (if u \<noteq> None
             then (0, set_ws_state WS_STATE_MANAGE_URL
                    (upd_ws (\<lambda>d. d\<lparr>onOpen := opn, onClose := cls, onMessage := msg, onError := err\<rparr>)
                      (set_flag CLIENT_CONNECTING s)))
             else (WS_INVALID_HANDLER, s)))
      else Inr (WS_INVALID_HANDLER, s))"

definition ws_cleared :: t_WS_CLIENT_DATA where
  "ws_cleared = \<lparr>urlData = None, nPort = 0, curSocketId = 0, ws_state = WS_STATE_INIT, flags = 0,
     onOpen = None, onClose = None, onMessage = None, onError = None, current_frame = None,
     webSocketKey = zeros WS_KEY_LENGTH, recv_buf = replicate WS_RECEIVE_BUFFER 0, ts = 0, activityTimeout = 0, pingStr = []\<rparr>"

definition ws_client_init :: "ws_client \<Rightarrow> ws_client" where
  "ws_client_init s = set_ws_state WS_STATE_INIT (upd_ws (\<lambda>_. ws_cleared) s)"

definition ws_client_reset :: "ws_client \<Rightarrow> ws_client" where
  "ws_client_reset s = s"

section \<open>The handshake\<close>

text \<open>Writing bytes to the beginning of an array.\<close>

definition put_at_start :: "'a list \<Rightarrow> 'a list \<Rightarrow> 'a list outcome" where
  "put_at_start xs buf = (if length xs \<le> length buf then Inr (xs @ drop (length xs) buf) else Inl Out_Of_Bounds)"

definition perform_web_socket_key :: "ws_env \<Rightarrow> string \<Rightarrow> string outcome" where
  "perform_web_socket_key env wk =
     (let key_nonce = concat (map (\<lambda>i. little_endian (rand env i)) [0..<4])
      in put_at_start (base64 env key_nonce (length wk)) wk)"

text \<open>The buffer for the expected key is not initialised.\<close>

definition perfom_expected_key :: "ws_env \<Rightarrow> string \<Rightarrow> string outcome" where
  "perfom_expected_key env pek =
     (let preEncode = take (WS_KEY_LENGTH - 1) (pek @ UUID)
      in put_at_start (base64 env (sha1 env (bytes_of preEncode)) (WS_KEY_LENGTH * 2)) (stack_junk env))"

text \<open>\<open>strncmp (a, b, n) == 0\<close>: the strings agree up to a NUL or \<open>n\<close> characters.\<close>

definition strncmp_eq :: "string \<Rightarrow> string \<Rightarrow> nat \<Rightarrow> bool" where
  "strncmp_eq a b n \<longleftrightarrow> take n (cstr a) = take n (cstr b)"

definition header_flags :: "ws_env \<Rightarrow> phr_header \<Rightarrow> ws_client \<Rightarrow> ws_client outcome" where
  "header_flags env h s =
     (let name = (case hdr_name h of None \<Rightarrow> [] | Some n \<Rightarrow> n); val = hdr_value h in
      if strncmp_eq ''Upgrade'' name (length name)
      then Inr (if strncmp_eq ''websocket'' val (length val) then set_flag REQUEST_HAS_UPGRADE s else s)
      else if strncmp_eq ''Connection'' name (length name)
      then Inr (if strncmp_eq ''upgrade'' val (length val) then set_flag REQUEST_HAS_CONNECTION s else s)
      else if strncmp_eq ''Sec-WebSocket-Accept'' name (length name)
      then seq (perfom_expected_key env (cstr (webSocketKey (wsc s)))) (\<lambda>expected.
           Inr (if strncmp_eq expected val (length val) then set_flag REQUEST_VALID_ACCEPT s else s))
      else Inr s)"

definition handshake_response_parse :: "ws_env \<Rightarrow> string \<Rightarrow> ws_client \<Rightarrow> ws_client outcome" where
  "handshake_response_parse env response s =
     seq (phr_parse_response response HTTP_MAX_RESPONSE_HEADERS 0) (\<lambda>(bodyOffset, r).
     if bodyOffset < 0 then Inr s
     else
       (case r of
          None \<Rightarrow> Inr s
        | Some r \<Rightarrow>
            if resp_status r = 101
            then run (header_flags env) (resp_headers r) (set_flag REQUEST_VALID_STATUS s)
            else Inr s))"

section \<open>The task\<close>

definition SOCK_CB :: nat where "SOCK_CB = 1"

definition url_at :: "ws_client \<Rightarrow> t_URL_DATA outcome" where
  "url_at s =
     seq (deref (urlData (wsc s))) (\<lambda>u.
     (case blocks (urls s) u of Some (Url d) \<Rightarrow> Inr d | _ \<Rightarrow> Inl Out_Of_Bounds))"

definition url_string :: "nat option \<Rightarrow> ws_client \<Rightarrow> string outcome" where
  "url_string p s =
     seq (deref p) (\<lambda>a. (case blocks (urls s) a of Some (Str t) \<Rightarrow> Inr (cstr t) | _ \<Rightarrow> Inl Out_Of_Bounds))"

definition url_string_or_null :: "nat option \<Rightarrow> ws_client \<Rightarrow> string option outcome" where
  "url_string_or_null p s = (if p = None then Inr None else seq (url_string p s) (\<lambda>t. Inr (Some t)))"

text \<open>\<open>port ? atoi (port) : dflt\<close>\<close>

definition url_port :: "u16 \<Rightarrow> t_URL_DATA \<Rightarrow> ws_client \<Rightarrow> u16 outcome" where
  "url_port dflt u s =
     (if t_URL_DATA.port u = None then Inr dflt
      else seq (url_string (t_URL_DATA.port u) s) (\<lambda>t. Inr (word_of_int (atoi t))))"

definition ws_elapsed_s :: "ws_env \<Rightarrow> ws_client \<Rightarrow> u32" where
  "ws_elapsed_s env s = (core_timer (net env (calls (tcp s))) - ts (wsc s)) div 100000000"

definition core_timestamp :: "ws_env \<Rightarrow> ws_client \<Rightarrow> ws_client" where
  "core_timestamp env s = upd_ws (\<lambda>d. d\<lparr>ts := core_timer (net env (calls (tcp s)))\<rparr>) s"

definition close_tcp :: "ws_client \<Rightarrow> ws_client outcome" where
  "close_tcp s = seq (tcp_client_close (curSocketId (wsc s)) (tcp s)) (\<lambda>(_, t). Inr (s\<lparr>tcp := t\<rparr>))"

definition case_MANAGE_URL :: "ws_client \<Rightarrow> ws_client outcome" where
  "case_MANAGE_URL s =
     seq (url_at s) (\<lambda>u.
     seq (url_string (t_URL_DATA.scheme u) s) (\<lambda>scheme.
     let s = set_ws_state WS_STATE_OPEN_CONNECTION s in
     if scheme = ''wss''
     then seq (url_port 443 u s) (\<lambda>p. Inr (set_flag CLIENT_IS_SSL (upd_ws (\<lambda>d. d\<lparr>nPort := p\<rparr>) s)))
     else if scheme = ''ws''
     then seq (url_port 80 u s) (\<lambda>p. Inr (upd_ws (\<lambda>d. d\<lparr>nPort := p\<rparr>) s))
     else Inr (set_ws_state WS_STATE_HALT s)))"

definition case_OPEN_CONNECTION :: "ws_client \<Rightarrow> ws_client outcome" where
  "case_OPEN_CONNECTION s =
     seq (url_at s) (\<lambda>u.
     seq (url_string (t_URL_DATA.host u) s) (\<lambda>host.
     seq (tcp_client_open_host host (nPort (wsc s)) (has_flag CLIENT_IS_SSL s) (Some SOCK_CB) 0 (tcp s)) (\<lambda>(r, t).
     Inr (set_ws_state (if r = TCP_CLIENT_OP_SUCCESS then WS_STATE_WAIT_TCP_SOCKET_CONNECTION else WS_STATE_ERROR)
       (s\<lparr>tcp := t\<rparr>)))))"

definition case_INIT_HANDSHAKE :: "ws_env \<Rightarrow> ws_client \<Rightarrow> ws_client outcome" where
  "case_INIT_HANDSHAKE env s =
     seq (perform_web_socket_key env (webSocketKey (wsc s))) (\<lambda>key.
     let s = upd_ws (\<lambda>d. d\<lparr>webSocketKey := key\<rparr>) s in
     seq (url_at s) (\<lambda>u.
     seq (url_string_or_null (t_URL_DATA.host u) s) (\<lambda>host.
     seq (url_string_or_null (t_URL_DATA.path u) s) (\<lambda>path.
     seq (write_request (http_malloc env) (request_junk env) HTTP_METHOD_GET host (uint (nPort (wsc s))) path
            [(''Upgrade'', ''websocket''), (''Connection'', ''Upgrade''), (''Sec-WebSocket-Key'', cstr key),
             (''Sec-WebSocket-Version'', ''13'')] (reqs s)) (\<lambda>(reqHandle, m).
     let s = s\<lparr>reqs := m\<rparr> in
     (case reqHandle of
        None \<Rightarrow> seq (close_tcp s) (\<lambda>s. Inr (set_ws_state WS_STATE_ERROR s))
      | Some rh \<Rightarrow>
          seq (request_at rh (reqs s)) (\<lambda>r.
          seq (raw_at (raw r) (reqs s)) (\<lambda>buf.
          seq (tcp_client_send (tcp_malloc env) (curSocketId (wsc s)) (Some (bytes_of buf)) (ucast (rq_length r)) (tcp s)) (\<lambda>(ok, t).
          let s = s\<lparr>tcp := t\<rparr> in
          seq (if ok = TCP_CLIENT_OP_SUCCESS
               then Inr (set_ws_state WS_STATE_WAIT_HANDSHAKE_RESPONSE
                      (upd_ws (\<lambda>d. d\<lparr>recv_buf := replicate WS_RECEIVE_BUFFER 0\<rparr>) s))
               else seq (close_tcp s) (\<lambda>s. Inr (set_ws_state WS_STATE_ERROR s))) (\<lambda>s.
          seq (http_request_delete (Some rh) (reqs s)) (\<lambda>m. Inr (s\<lparr>reqs := m\<rparr>))))))))))))"

text \<open>\<open>strstr (buf, "\r\n\r\n")\<close>: the offset of the first match.\<close>

definition blank_line :: "string \<Rightarrow> nat option" where
  "blank_line t = find (\<lambda>i. prefix (CRLF @ CRLF) (drop i t)) [0..<length t]"

definition receive_into :: "u8 list \<Rightarrow> ws_client \<Rightarrow> ws_client outcome" where
  "receive_into bs s = seq (put_at_start bs (recv_buf (wsc s))) (\<lambda>buf. Inr (upd_ws (\<lambda>d. d\<lparr>recv_buf := buf\<rparr>) s))"

definition case_WAIT_HANDSHAKE_RESPONSE :: "ws_env \<Rightarrow> ws_client \<Rightarrow> ws_client outcome" where
  "case_WAIT_HANDSHAKE_RESPONSE env s =
     seq (tcp_client_peek_rx (net env) (curSocketId (wsc s)) (of_nat (WS_RECEIVE_BUFFER - 1)) (tcp s)) (\<lambda>bs.
     seq (receive_into bs s) (\<lambda>s.
     if length bs > 4
     then
       (case blank_line (cstr (chars_of (recv_buf (wsc s)))) of
          None \<Rightarrow> Inr s
        | Some t \<Rightarrow>
            seq (tcp_client_get_rx (net env) (curSocketId (wsc s)) (of_nat (t + 4)) (tcp s)) (\<lambda>(bs, c).
            seq (receive_into bs (s\<lparr>tcp := c\<rparr>)) (\<lambda>s.
            Inr (set_ws_state WS_STATE_WAIT_HANDSHAKE_RESPONSE_PARSE s))))
     else Inr s))"

definition case_WAIT_HANDSHAKE_RESPONSE_PARSE :: "ws_env \<Rightarrow> ws_client \<Rightarrow> ws_client outcome" where
  "case_WAIT_HANDSHAKE_RESPONSE_PARSE env s =
     seq (handshake_response_parse env (cstr (chars_of (recv_buf (wsc s)))) s) (\<lambda>s.
     if has_flag REQUEST_HAS_UPGRADE s \<and> has_flag REQUEST_HAS_CONNECTION s \<and> has_flag REQUEST_VALID_ACCEPT s
     then let s = upd_ws (\<lambda>d. d\<lparr>flags := flags d AND NOT CLIENT_CONNECTING\<rparr>) s
          in Inr (set_ws_state WS_STATE_CONNECTION_ESTABLISHED (log_event On_Open (onOpen (wsc s)) s))
     else seq (close_tcp s) (\<lambda>s. Inr (set_ws_state WS_STATE_ERROR s)))"

definition in_data_turn :: "ws_env \<Rightarrow> u8 \<Rightarrow> ws_client \<Rightarrow> ws_client outcome" where
  "in_data_turn env b s = seq (in_data env b s) (\<lambda>(_, s). Inr s)"

definition case_CONNECTION_ESTABLISHED :: "ws_env \<Rightarrow> ws_client \<Rightarrow> ws_client outcome" where
  "case_CONNECTION_ESTABLISHED env s =
     seq (tcp_client_get_rx (net env) (curSocketId (wsc s)) (of_nat (WS_RECEIVE_BUFFER - 1)) (tcp s)) (\<lambda>(bs, c).
     seq (receive_into bs (s\<lparr>tcp := c\<rparr>)) (\<lambda>s.
     if bs \<noteq> [] then run (in_data_turn env) bs (core_timestamp env s)
     else if activityTimeout (wsc s) > 0 \<and> ws_elapsed_s env s > activityTimeout (wsc s)
     then let s = core_timestamp env s in seq (ws_client_send env 0 (Some (pingStr (wsc s))) s) (\<lambda>(_, s). Inr s)
     else Inr s))"

definition case_ERROR :: "ws_client \<Rightarrow> ws_client outcome" where
  "case_ERROR s = seq (close_tcp s) (\<lambda>s. Inr (set_ws_state WS_STATE_CLOSE s))"

definition case_CLOSE :: "ws_env \<Rightarrow> ws_client \<Rightarrow> ws_client outcome" where
  "case_CLOSE env s =
     (let s = core_timestamp env s; s = log_event On_Close (onClose (wsc s)) s in
      if has_flag CLIENT_SHOULD_CLOSE s
      then seq (if urlData (wsc s) \<noteq> None
                then seq (url_parse_free (urlData (wsc s)) (urls s)) (\<lambda>m. Inr (upd_ws (\<lambda>d. d\<lparr>urlData := None\<rparr>) (s\<lparr>urls := m\<rparr>)))
                else Inr s) (\<lambda>s.
           Inr (set_ws_state WS_STATE_INIT s))
      else Inr (set_ws_state WS_STATE_RETRY s))"

definition ws_client_task :: "ws_env \<Rightarrow> ws_client \<Rightarrow> ws_client outcome" where
  "ws_client_task env s =
     (case ws_state (wsc s) of
        WS_STATE_INIT \<Rightarrow> Inr (set_ws_state WS_STATE_IDLE s)
      | WS_STATE_IDLE \<Rightarrow> Inr s
      | WS_STATE_MANAGE_URL \<Rightarrow> case_MANAGE_URL s
      | WS_STATE_OPEN_CONNECTION \<Rightarrow> case_OPEN_CONNECTION s
      | WS_STATE_WAIT_TCP_SOCKET_CONNECTION \<Rightarrow> Inr s
      | WS_STATE_INIT_HANDSHAKE \<Rightarrow> case_INIT_HANDSHAKE env s
      | WS_STATE_WAIT_HANDSHAKE_RESPONSE \<Rightarrow> case_WAIT_HANDSHAKE_RESPONSE env s
      | WS_STATE_WAIT_HANDSHAKE_RESPONSE_PARSE \<Rightarrow> case_WAIT_HANDSHAKE_RESPONSE_PARSE env s
      | WS_STATE_CONNECTION_ESTABLISHED \<Rightarrow> case_CONNECTION_ESTABLISHED env s
      | WS_STATE_ERROR \<Rightarrow> case_ERROR s
      | WS_STATE_CLOSE \<Rightarrow> case_CLOSE env s
      | WS_STATE_RETRY \<Rightarrow> Inr (if ws_elapsed_s env s > RETRY_TIME_S then set_ws_state WS_STATE_MANAGE_URL s else s)
      | WS_STATE_HALT \<Rightarrow> Inr s
      | WS_STATE_NULL \<Rightarrow> Inr (set_ws_state WS_STATE_INIT s))"

end
