(* ===== verification/Ws_Frames.thy ===== *)
theory Ws_Frames
  imports Ws_Client Tcp_Session
begin

unbundle bit_operations_syntax

text \<open>
  The reception of WebSocket messages: frames as servers send them, the linked fragments in dynamic
  memory, and what \<open>in_data\<close> makes of a stream of frames, byte by byte.
\<close>

section \<open>Frames as they are sent\<close>

text \<open>The extended length, most significant byte first (RFC 6455, 5.2).\<close>

definition len_code :: "nat \<Rightarrow> u8 list" where
  "len_code n =
     (if n \<le> 125 then [of_nat n] else if n \<le> 0xFFFF then 126 # big_bytes 2 (of_nat n) else 127 # big_bytes 8 (of_nat n))"

definition frame_head :: "bool \<Rightarrow> u8 \<Rightarrow> nat \<Rightarrow> u8 list" where
  "frame_head f opc n = ((if f then 0x80 else 0) OR opc) # len_code n"

definition server_frame :: "bool \<Rightarrow> u8 \<Rightarrow> u8 list \<Rightarrow> u8 list" where
  "server_frame f opc p = frame_head f opc (length p) @ p"

definition opcode_ok :: "u8 \<Rightarrow> bool" where
  "opcode_ok opc \<longleftrightarrow> opc AND 0x0F = opc"

lemma join_bytes: "push_bit 8 (drop_bit 8 w) OR ucast (ucast w :: u8) = (w :: 64 word)"
  by (rule bit_eqI) (auto simp: bit_simps)

lemma big_endian_bytes:
  assumes "drop_bit (8 * n) w = 0"
  shows "big_endian (big_bytes n w) = w"
proof -
  have "foldl (\<lambda>v b. push_bit 8 v OR ucast b) 0 (map (\<lambda>i. ucast (drop_bit (8 * (n - i - 1)) w) :: u8) [0..<k]) =
      drop_bit (8 * (n - k)) w" if "k \<le> n" for k
    using that
  proof (induction k)
    case 0
    then show ?case by (simp add: assms)
  next
    case (Suc k)
    let ?w = "drop_bit (8 * (n - Suc k)) w"
    have "8 * (n - k) = 8 + 8 * (n - Suc k)" using Suc.prems by simp
    then have "drop_bit (8 * (n - k)) w = drop_bit 8 ?w" by (simp only: drop_bit_drop_bit)
    then show ?case using Suc join_bytes [of ?w] by simp
  qed
  from this [of n] show ?thesis by (simp add: big_endian_def big_bytes_def)
qed

lemma length_big_bytes [simp]: "length (big_bytes n w) = n"
  by (simp add: big_bytes_def)

lemma of_nat_unat64: "n < 2 ^ 64 \<Longrightarrow> unat (of_nat n :: 64 word) = n"
  by (subst unsigned_of_nat) (simp add: take_bit_nat_eq_self)

lemma drop_bit_small:
  assumes "n < 2 ^ k" "n < 2 ^ 64"
  shows "drop_bit k (of_nat n :: 64 word) = 0"
proof -
  have "unat (drop_bit k (of_nat n :: 64 word)) = drop_bit k n" by (simp only: unat_drop_bit_eq of_nat_unat64 [OF assms(2)])
  also have "\<dots> = 0" using assms(1) by (simp add: drop_bit_eq_div)
  finally show ?thesis by (simp only: unat_eq_zero)
qed

lemma short_length: "n \<le> 125 \<Longrightarrow> (of_nat n :: u8) AND 0x80 = 0 \<and> (of_nat n :: u8) AND 0x7F = of_nat n \<and>
    (of_nat n :: u8) \<noteq> 126 \<and> (of_nat n :: u8) \<noteq> 127 \<and> (ucast (of_nat n :: u8) :: 64 word) = of_nat n"
proof -
  have "\<forall>n\<in>set [0..<126]. (of_nat n :: u8) AND 0x80 = 0 \<and> (of_nat n :: u8) AND 0x7F = of_nat n \<and>
    (of_nat n :: u8) \<noteq> 126 \<and> (of_nat n :: u8) \<noteq> 127 \<and> (ucast (of_nat n :: u8) :: 64 word) = of_nat n"
    by code_simp
  then show "n \<le> 125 \<Longrightarrow> ?thesis" by simp
qed

lemma first_byte:
  assumes "opcode_ok opc"
  shows "(((if f then 0x80 else 0) OR opc) AND 0x80 = 0x80) = f" "((if f then 0x80 else 0) OR opc) AND 0x0F = opc"
proof -
  have "opc AND 0x80 = (opc AND 0x0F) AND 0x80" using assms by (simp add: opcode_ok_def)
  also have "\<dots> = 0" by (simp add: and.assoc)
  finally have z: "opc AND 0x80 = 0" .
  show "(((if f then 0x80 else 0) OR opc) AND 0x80 = 0x80) = f"
    using z by (simp add: bit.conj_disj_distrib2)
  show "((if f then 0x80 else 0) OR opc) AND 0x0F = opc"
    using assms by (simp add: bit.conj_disj_distrib2 opcode_ok_def)
qed

text \<open>What of a frame \<open>complete_frame\<close> leaves alone.\<close>

definition same_buffer :: "t_WS_FRAME \<Rightarrow> t_WS_FRAME \<Rightarrow> bool" where
  "same_buffer f g \<longleftrightarrow> rawdata g = rawdata f \<and> rawdata_idx g = rawdata_idx f \<and> rawdata_sz g = rawdata_sz f \<and>
     next_frame g = next_frame f \<and> prev_frame g = prev_frame f"

lemma length_code: "n < 2 ^ 31 \<Longrightarrow> \<exists>c ext. len_code n = c # ext \<and> c AND 0x80 = 0 \<and>
    (c AND 0x7F = 126 \<and> length ext = 2 \<and> big_endian ext = of_nat n \<or>
     c AND 0x7F = 127 \<and> length ext = 8 \<and> big_endian ext = of_nat n \<or>
     c AND 0x7F \<noteq> 126 \<and> c AND 0x7F \<noteq> 127 \<and> ext = [] \<and> ucast (c AND 0x7F) = (of_nat n :: 64 word))"
  by (auto simp: len_code_def short_length big_endian_bytes drop_bit_small)

lemma complete_frame_prefix:
  assumes k: "unat (rawdata_idx fr) = k" "k \<le> length (server_frame f opc p)" "take k bs = take k (server_frame f opc p)"
    and ok: "opcode_ok opc" "length p < 2 ^ 31" "k \<le> length bs"
  shows "\<exists>g. complete_frame bs fr = Inr (if k = length (server_frame f opc p) then 1 else 0, g, False) \<and> same_buffer fr g \<and>
    (k = length (server_frame f opc p) \<longrightarrow> fin g = (if f then 1 else 0) \<and> opcode g = ucast opc \<and>
       unat (payload_offset g) + length p = k \<and> payload_len g = of_nat (length p))"
proof -
  let ?b = "(if f then 0x80 else 0) OR opc :: u8"
  obtain c ext where c: "len_code (length p) = c # ext" "c AND 0x80 = 0"
    and cases: "c AND 0x7F = 126 \<and> length ext = 2 \<and> big_endian ext = of_nat (length p) \<or>
     c AND 0x7F = 127 \<and> length ext = 8 \<and> big_endian ext = of_nat (length p) \<or>
     c AND 0x7F \<noteq> 126 \<and> c AND 0x7F \<noteq> 127 \<and> ext = [] \<and> ucast (c AND 0x7F) = (of_nat (length p) :: 64 word)"
    using length_code [OF ok(2)] by blast
  have sf: "server_frame f opc p = ?b # c # ext @ p" by (simp add: server_frame_def frame_head_def c)
  have lt: "rawdata_idx fr < w \<longleftrightarrow> k < unat w" for w by (simp add: word_less_nat_alt k(1))
  have lt64: "(ucast (rawdata_idx fr) :: 64 word) < of_nat d + of_nat (length p) \<longleftrightarrow> k < d + length p" if "d \<le> 10" for d
  proof -
    have "k < 2 ^ 32" using unsigned_less [of "rawdata_idx fr", where ?'a = nat] k(1) by simp
    then have "unat (ucast (rawdata_idx fr) :: 64 word) = k"
      by (simp add: unsigned_ucast_eq k(1) take_bit_nat_eq_self)
    moreover have "unat (of_nat (d + length p) :: 64 word) = d + length p"
      by (rule of_nat_unat64) (use ok(2) that in simp)
    ultimately show ?thesis by (simp only: word_less_nat_alt flip: of_nat_add)
  qed
  show ?thesis
  proof (cases "k < 2")
    case True
    then show ?thesis by (simp add: complete_frame_def lt same_buffer_def sf)
  next
    case False
    with k(2,3) ok(3) obtain r where r: "bs = ?b # c # r" "take (k - 2) r = take (k - 2) (ext @ p)" "k - 2 \<le> length r"
      by (cases bs; cases "tl bs"; cases k) (auto simp: sf take_Cons' split: if_splits)
    note fb = first_byte [OF ok(1), of f]
    have ext: "take n r = ext" if "length ext = n" "n + 2 \<le> k" for n
    proof -
      have "take n r = take n (take (k - 2) r)" using that by simp
      then show ?thesis using that by (simp add: r(2))
    qed
    have q: "(0x7E :: u8) \<noteq> 0x7F" by simp
    note facts = complete_frame_def lt r(1) fb c(2) same_buffer_def sf length_bytes_def
    show ?thesis
      using cases
    proof (elim disjE conjE)
      assume e: "c AND 0x7F = 126" "length ext = 2" "big_endian ext = of_nat (length p)"
      show ?thesis
      proof (cases "k < 4")
        case True
        then show ?thesis using False by (simp add: facts e)
      next
        case k4: False
        then show ?thesis using False r(3) lt64 [of 4] ext [of 2] k(2) by (auto simp: facts e)
      qed
    next
      assume e: "c AND 0x7F = 127" "length ext = 8" "big_endian ext = of_nat (length p)"
      show ?thesis
      proof (cases "k < 10")
        case True
        then show ?thesis using False by (simp add: facts e)
      next
        case k10: False
        then show ?thesis using False r(3) lt64 [of 10] ext [of 8] k(2) by (auto simp: facts e)
      qed
    next
      assume e: "c AND 0x7F \<noteq> 126" "c AND 0x7F \<noteq> 127" "ext = []" "ucast (c AND 0x7F) = (of_nat (length p) :: 64 word)"
      show ?thesis using False lt64 [of 2] k(2) by (auto simp: facts e)
    qed
  qed
qed

section \<open>The fragments in memory\<close>

text \<open>
  A chain of fragments: address, frame and raw data of each. A heap that holds it is the heap of the
  blocks that are not the client's, \<open>m0\<close>, with the blocks of the chain.
\<close>

type_synonym frame_cell = "nat \<times> t_WS_FRAME \<times> u8 list"

fun heap_of :: "(nat \<rightharpoonup> ws_block) \<Rightarrow> frame_cell list \<Rightarrow> nat \<rightharpoonup> ws_block" where
  "heap_of h [] = h"
| "heap_of h ((a, f, bs) # cs) = heap_of (h(a \<mapsto> Frame f, the (rawdata f) \<mapsto> Rawdata bs)) cs"

definition addrs_of :: "frame_cell list \<Rightarrow> nat list" where
  "addrs_of cs = concat (map (\<lambda>(a, f, bs). [a, the (rawdata f)]) cs)"

fun linked :: "nat option \<Rightarrow> frame_cell list \<Rightarrow> bool" where
  "linked p [] \<longleftrightarrow> True"
| "linked p ((a, f, bs) # cs) \<longleftrightarrow> prev_frame f = p \<and> rawdata f \<noteq> None \<and>
     next_frame f = (if cs = [] then None else Some (fst (List.hd cs))) \<and> linked (Some a) cs"

definition chain :: "ws_block dmem \<Rightarrow> frame_cell list \<Rightarrow> ws_block dmem \<Rightarrow> bool" where
  "chain m0 cs m \<longleftrightarrow> blocks m = heap_of (blocks m0) cs \<and> live m = live m0 + 2 * int (length cs) \<and>
     distinct (addrs_of cs) \<and> set (addrs_of cs) \<inter> dom (blocks m0) = {} \<and> linked None cs"

lemma heap_of_append: "heap_of h (cs @ ds) = heap_of (heap_of h cs) ds"
  by (induction cs arbitrary: h) auto

lemma addrs_of_simps [simp]:
  "addrs_of [] = []" "addrs_of ((a, f, bs) # cs) = a # the (rawdata f) # addrs_of cs"
  "addrs_of (cs @ ds) = addrs_of cs @ addrs_of ds"
  by (simp_all add: addrs_of_def)

lemma heap_of_other: "x \<notin> set (addrs_of cs) \<Longrightarrow> heap_of h cs x = h x"
  by (induction cs arbitrary: h) auto

lemma dom_heap_of: "dom (heap_of h cs) = dom h \<union> set (addrs_of cs)"
proof (induction cs arbitrary: h)
  case (Cons c cs)
  obtain a f bs where "c = (a, f, bs)" by (cases c)
  then show ?case by (simp only: heap_of.simps addrs_of_simps Cons.IH) auto
qed simp

lemma linked_write:
  "linked p (cs @ [(a, f, bs)]) \<Longrightarrow> prev_frame g = prev_frame f \<Longrightarrow> rawdata g \<noteq> None \<Longrightarrow> next_frame g = None \<Longrightarrow>
     linked p (cs @ [(a, g, ds)])"
  by (induction p cs rule: linked.induct) (auto simp: hd_append)

lemma heap_of_cell:
  assumes "distinct (addrs_of (cs @ (a, f, bs) # ds))"
  shows "heap_of h (cs @ (a, f, bs) # ds) a = Some (Frame f)"
    "heap_of h (cs @ (a, f, bs) # ds) (the (rawdata f)) = Some (Rawdata bs)"
  using assms by (auto simp: heap_of_append heap_of_other)

text \<open>What the code reads and writes of the last cell.\<close>

lemma linked_last: "linked p (cs @ [(a, f, bs)]) \<Longrightarrow> rawdata f \<noteq> None \<and> next_frame f = None"
  by (induction p cs rule: linked.induct) auto

lemma chain_last:
  assumes "chain m0 (cs @ [(a, f, bs)]) m"
  shows "frame_at a m = Inr f" "bytes_at (rawdata f) m = Inr bs" "rawdata f \<noteq> None" "next_frame f = None"
    "a \<noteq> the (rawdata f)" "blocks m a = Some (Frame f)" "blocks m (the (rawdata f)) = Some (Rawdata bs)"
proof -
  show raw: "rawdata f \<noteq> None" and "next_frame f = None" using assms linked_last by (auto simp: chain_def)
  show b: "blocks m a = Some (Frame f)" "blocks m (the (rawdata f)) = Some (Rawdata bs)" and "a \<noteq> the (rawdata f)"
    using assms by (auto simp: chain_def heap_of_append)
  show "frame_at a m = Inr f" "bytes_at (rawdata f) m = Inr bs" using b raw by (auto simp: frame_at_def bytes_at_def)
qed

lemma cell_moved: "h q = None \<Longrightarrow> a \<noteq> q \<Longrightarrow> h(a \<mapsto> x, q \<mapsto> y, q := None, a \<mapsto> v, r \<mapsto> w) = h(a \<mapsto> v, r \<mapsto> w)"
  by (auto simp: fun_eq_iff)

text \<open>Writing the last cell, where its raw data may have moved.\<close>

lemma chain_write:
  assumes c: "chain m0 (cs @ [(a, f, bs)]) m"
    and r: "rawdata g = Some r" "blocks m r = None \<or> rawdata f = Some r"
    and links: "prev_frame g = prev_frame f" "next_frame g = None"
    and b: "blocks m' = (blocks m)(the (rawdata f) := None, a \<mapsto> Frame g, r \<mapsto> Rawdata ds)" "live m' = live m"
  shows "chain m0 (cs @ [(a, g, ds)]) m'"
proof -
  note l = chain_last [OF c]
  have dom: "dom (blocks m) = dom (blocks m0) \<union> set (addrs_of (cs @ [(a, f, bs)]))"
    using c by (simp add: chain_def dom_heap_of)
  have fresh: "r \<notin> set (addrs_of cs)" "r \<noteq> a" "r \<notin> dom (blocks m0)"
    using r(2) dom c l(3) by (auto simp: chain_def)
  have h: "blocks m = (heap_of (blocks m0) cs)(a \<mapsto> Frame f, the (rawdata f) \<mapsto> Rawdata bs)"
    using c by (simp add: chain_def heap_of_append)
  have "the (rawdata f) \<notin> dom (heap_of (blocks m0) cs)" using c by (auto simp: chain_def dom_heap_of)
  then have "heap_of (blocks m0) cs (the (rawdata f)) = None" by (simp add: domIff)
  then have "blocks m' = heap_of (blocks m0) (cs @ [(a, g, ds)])"
    by (simp only: b(1) h heap_of_append r(1) heap_of.simps option.sel cell_moved [OF _ l(5)])
  moreover have "linked None (cs @ [(a, g, ds)])"
    by (rule linked_write [of None cs a f bs]) (use c r(1) links in \<open>simp_all add: chain_def\<close>)
  moreover have "distinct (addrs_of (cs @ [(a, g, ds)]))" "set (addrs_of (cs @ [(a, g, ds)])) \<inter> dom (blocks m0) = {}"
    using c fresh by (auto simp: chain_def r(1))
  ultimately show ?thesis using c by (simp add: chain_def b(2))
qed

lemma chain_update:
  assumes c: "chain m0 (cs @ [(a, f, bs)]) m" and "rawdata g = rawdata f" "prev_frame g = prev_frame f" "next_frame g = None"
  shows "chain m0 (cs @ [(a, g, ds)]) (dmem_write a (Frame g) (dmem_write (the (rawdata f)) (Rawdata ds) m))"
proof -
  note l = chain_last [OF c]
  obtain q where q: "rawdata f = Some q" using l(3) by auto
  show ?thesis
    by (rule chain_write [OF c, of g q])
      (use assms(2-) q l(5) in \<open>simp_all add: dmem_write_def live_def fun_upd_twist [of q a]\<close>)
qed

lemma chain_move:
  assumes c: "chain m0 (cs @ [(a, f, bs)]) m"
    and e: "dmem_extend realloc (rawdata f) n (Rawdata ds) m = Inr (Some r, m')" and ok: "realloc_ok realloc"
    and g: "rawdata g = Some r" "prev_frame g = prev_frame f" "next_frame g = None"
  shows "chain m0 (cs @ [(a, g, ds)]) (dmem_write a (Frame g) m')"
proof -
  note l = chain_last [OF c]
  obtain q where q: "rawdata f = Some q" using l(3) by auto
  with e l(7) have "realloc (blocks m) (Some q) n = Some r" and m': "m' = m\<lparr>blocks := (blocks m)(q := None, r \<mapsto> Rawdata ds)\<rparr>"
    by (auto simp: dmem_extend_def split: option.splits)
  with ok have r: "blocks m r = None \<or> q = r" by (auto simp: realloc_ok_def)
  with l(5,6) q have "r \<noteq> a" by auto
  then show ?thesis
    by (intro chain_write [OF c, of g r])
      (use r g q in \<open>simp_all add: m' dmem_write_def live_def fun_upd_twist [of r a]\<close>, blast?)
qed

section \<open>One byte\<close>

text \<open>
  \<open>malloc\<close> gives free addresses, and succeeds as long as fewer than \<open>N\<close> blocks are in use; \<open>realloc\<close>
  succeeds.
\<close>

definition memory_for :: "nat \<Rightarrow> ws_env \<Rightarrow> bool" where
  "memory_for N env \<longleftrightarrow> malloc_ok (frame_malloc env) \<and> realloc_ok (frame_realloc env) \<and>
     (\<forall>h n. finite (dom h) \<and> card (dom h) < N \<longrightarrow> frame_malloc env h n \<noteq> None) \<and>
     (\<forall>h a n. frame_realloc env h (Some a) n \<noteq> None)"

lemma memory_forD:
  assumes "memory_for N env"
  shows "malloc_ok (frame_malloc env)" "realloc_ok (frame_realloc env)"
    "finite (dom h) \<Longrightarrow> card (dom h) < N \<Longrightarrow> \<exists>x. frame_malloc env h n = Some x" "\<exists>x. frame_realloc env h (Some a) n = Some x"
  using assms unfolding memory_for_def by blast+

definition with_frames :: "nat option \<Rightarrow> ws_block dmem \<Rightarrow> ws_client \<Rightarrow> ws_client" where
  "with_frames p m s = upd_ws (\<lambda>d. d\<lparr>current_frame := p\<rparr>) (s\<lparr>frames := m\<rparr>)"

lemma with_frames_simps [simp]:
  "frames (with_frames p m s) = m" "current_frame (wsc (with_frames p m s)) = p"
  "with_frames q n (with_frames p m s) = with_frames q n s"
  "(with_frames p m s)\<lparr>frames := n\<rparr> = with_frames p n s"
  "upd_ws (\<lambda>d. d\<lparr>current_frame := q\<rparr>) (with_frames p m s) = with_frames q m s"
  "onMessage (wsc (with_frames p m s)) = onMessage (wsc s)"
  by (simp_all add: with_frames_def upd_ws_def)

text \<open>The first \<open>k\<close> bytes of a frame have arrived.\<close>

definition partial :: "t_WS_FRAME \<Rightarrow> u8 list \<Rightarrow> nat \<Rightarrow> u8 list \<Rightarrow> bool" where
  "partial f bs k fr \<longleftrightarrow> unat (rawdata_idx f) = k \<and> k \<le> length bs \<and> take k bs = take k fr \<and>
     k \<le> unat (rawdata_sz f) \<and> unat (rawdata_sz f) \<le> k + 512 \<and> unat (rawdata_sz f) \<le> length bs"

lemma ensure_room_ok:
  assumes c: "chain m0 (cs @ [(a, f, bs)]) m" and p: "partial f bs k fr" and k: "k < 2 ^ 31 + 14" and env: "memory_for N env"
  shows "\<exists>g ds m'. ensure_room env a (with_frames (Some a) m s) = Inr (True, with_frames (Some a) m' s) \<and>
    chain m0 (cs @ [(a, g, ds)]) m' \<and> partial g ds k fr \<and> k < unat (rawdata_sz g)"
proof (cases "rawdata_sz f \<le> rawdata_idx f")
  case False
  then have "\<not> rawdata_idx f \<ge> rawdata_sz f" by simp
  then have "k < unat (rawdata_sz f)" using p by (simp add: partial_def word_le_nat_alt)
  moreover have "ensure_room env a (with_frames (Some a) m s) = Inr (True, with_frames (Some a) m s)"
    using False chain_last(1) [OF c] by (simp add: ensure_room_def)
  ultimately show ?thesis using c p by blast
next
  case True
  note l = chain_last [OF c]
  have sz: "unat (rawdata_sz f) = k" using True p by (simp add: partial_def word_le_nat_alt)
  let ?g = "f\<lparr>rawdata_sz := rawdata_sz f + FRAME_CHUNK_LENGTH\<rparr>"
  have sz': "unat (rawdata_sz ?g) = k + 512"
    using k by (simp add: FRAME_CHUNK_LENGTH_def unat_word_ariths sz)
  define ds where "ds = take k (bs @ replicate (k + 512) 0) @ replicate 512 0"
  have "k \<le> length bs" using p by (simp add: partial_def)
  then have ds: "take k ds = take k bs" "length ds = k + 512" by (simp_all add: ds_def)
  obtain q where q: "rawdata f = Some q" using l(3) by auto
  from memory_forD(4) [OF env] obtain r where "frame_realloc env (blocks m) (Some q) (k + 512) = Some r" by blast
  then obtain m' where e: "dmem_extend (frame_realloc env) (rawdata f) (k + 512) (Rawdata ds) m = Inr (Some r, m')"
    using l(7) q by (auto simp: dmem_extend_def)
  have "chain m0 (cs @ [(a, ?g\<lparr>rawdata := Some r\<rparr>, ds)]) (dmem_write a (Frame (?g\<lparr>rawdata := Some r\<rparr>)) m')"
    by (rule chain_move [OF c e]) (use env l(4) in \<open>simp_all add: memory_for_def\<close>)
  moreover have "partial (?g\<lparr>rawdata := Some r\<rparr>) ds k fr"
    using p sz' by (simp add: partial_def ds)
  moreover have "ensure_room env a (with_frames (Some a) m s) =
      Inr (True, with_frames (Some a) (dmem_write a (Frame (?g\<lparr>rawdata := Some r\<rparr>)) m') s)"
    using True l(1,2) e p sz' q by (simp add: ensure_room_def partial_def ds_def)
  ultimately show ?thesis using sz' by fastforce
qed

text \<open>A frame that is complete, with its payload.\<close>

definition received :: "t_WS_FRAME \<Rightarrow> u8 list \<Rightarrow> bool \<Rightarrow> u8 \<Rightarrow> u8 list \<Rightarrow> bool" where
  "received f bs fi opc p \<longleftrightarrow> fin f = (if fi then 1 else 0) \<and> opcode f = ucast opc \<and> payload_len f = of_nat (length p) \<and>
     length p < 2 ^ 31 \<and> unat (payload_offset f) + length p \<le> length bs \<and>
     take (length p) (drop (unat (payload_offset f)) bs) = p"

lemma frame_length: "length (server_frame f opc p) < length p + 14 \<and> length p < length (server_frame f opc p)"
  by (simp add: server_frame_def frame_head_def len_code_def)

lemma store_byte_ok:
  assumes c: "chain m0 (cs @ [(a, f, bs)]) m" and p: "partial f bs k fr" "k < unat (rawdata_sz f)"
    and fr: "fr = server_frame fi opc q" "opcode_ok opc" "length q < 2 ^ 31" "k < length fr"
  shows "\<exists>g ds m'. chain m0 (cs @ [(a, g, ds)]) m' \<and> partial g ds (Suc k) fr \<and>
    (Suc k = length fr \<longrightarrow> received g ds fi opc q) \<and>
    store_byte env a (fr ! k) (with_frames (Some a) m s) =
      (if Suc k = length fr then frame_received env a (with_frames (Some a) m' s) else Inr (0, with_frames (Some a) m' s))"
proof -
  note l = chain_last [OF c]
  obtain r where r: "rawdata f = Some r" using l(3) by auto
  have k: "k < length bs" "unat (rawdata_idx f) = k" "take k bs = take k fr" using p by (auto simp: partial_def)
  define ds where "ds = bs[k := fr ! k]"
  let ?f = "f\<lparr>rawdata_idx := rawdata_idx f + 1\<rparr>"
  have "k < 2 ^ 32 - 1" using fr frame_length [of fi opc q] by simp
  then have idx: "unat (rawdata_idx ?f) = Suc k" using k(2) by (simp add: unat_word_ariths)
  have tk: "take (Suc k) ds = take (Suc k) fr"
    using k(1,3) fr(4) by (simp add: ds_def take_Suc_conv_app_nth)
  obtain g where g: "complete_frame ds ?f = Inr (if Suc k = length fr then 1 else 0, g, False)" "same_buffer ?f g"
      "Suc k = length fr \<longrightarrow> fin g = (if fi then 1 else 0) \<and> opcode g = ucast opc \<and>
       unat (payload_offset g) + length q = Suc k \<and> payload_len g = of_nat (length q)"
    using complete_frame_prefix [of ?f "Suc k" fi opc q ds] idx tk fr k(1) by (auto simp: ds_def)
  let ?m = "dmem_write a (Frame g) (dmem_write r (Rawdata ds) m)"
  have "chain m0 (cs @ [(a, g, ds)]) ?m"
    using chain_update [OF c, of g ds] g(2) r l(4) by (simp add: same_buffer_def)
  moreover have "partial g ds (Suc k) fr" using p g(2) idx tk by (simp add: partial_def same_buffer_def ds_def)
  moreover have "received g ds fi opc q" if "Suc k = length fr"
  proof -
    let ?o = "unat (payload_offset g)"
    have o: "?o + length q = Suc k" using g(3) that by simp
    then have "take (length q) (drop ?o ds) = drop ?o (take (Suc k) ds)" by (simp add: drop_take flip: o)
    also have "\<dots> = drop ?o fr" using tk that by simp
    also have "\<dots> = q"
    proof -
      have "length (frame_head fi opc (length q)) = ?o" using o that by (simp add: fr(1) server_frame_def)
      then show ?thesis by (simp add: fr(1) server_frame_def)
    qed
    finally show ?thesis using g(3) that fr(3) k(1) by (simp add: received_def ds_def)
  qed
  moreover have "store_byte env a (fr ! k) (with_frames (Some a) m s) =
      (if Suc k = length fr then frame_received env a (with_frames (Some a) ?m s) else Inr (0, with_frames (Some a) ?m s))"
    using k l(1,2) g(1) r by (simp add: store_byte_def ds_def Let_def)
  ultimately show ?thesis by blast
qed

lemma in_data_ok:
  assumes c: "chain m0 (cs @ [(a, f, bs)]) m" and p: "partial f bs k fr" and env: "memory_for N env"
    and fr: "fr = server_frame fi opc q" "opcode_ok opc" "length q < 2 ^ 31" "k < length fr"
  shows "\<exists>g ds m'. chain m0 (cs @ [(a, g, ds)]) m' \<and> partial g ds (Suc k) fr \<and>
    (Suc k = length fr \<longrightarrow> received g ds fi opc q) \<and>
    in_data env (fr ! k) (with_frames (Some a) m s) =
      (if Suc k = length fr then frame_received env a (with_frames (Some a) m' s) else Inr (0, with_frames (Some a) m' s))"
proof -
  have "k < 2 ^ 31 + 14" using fr frame_length [of fi opc q] by simp
  from ensure_room_ok [OF c p this env] obtain g ds m'
    where e: "ensure_room env a (with_frames (Some a) m s) = Inr (True, with_frames (Some a) m' s)"
      and c': "chain m0 (cs @ [(a, g, ds)]) m'" "partial g ds k fr" "k < unat (rawdata_sz g)" by blast
  have "in_data env (fr ! k) (with_frames (Some a) m s) = store_byte env a (fr ! k) (with_frames (Some a) m' s)"
    using e by (simp add: in_data_def ensure_frame_def deref_def)
  with store_byte_ok [OF c' fr] show ?thesis by simp
qed

section \<open>A frame\<close>

lemma frame_bytes:
  assumes c: "chain m0 (cs @ [(a, f, bs)]) m" and p: "partial f bs k fr" and env: "memory_for N env"
    and fr: "fr = server_frame fi opc q" "opcode_ok opc" "length q < 2 ^ 31" "k < length fr"
  shows "\<exists>g ds m'. chain m0 (cs @ [(a, g, ds)]) m' \<and> received g ds fi opc q \<and>
    run (in_data_turn env) (drop k fr) (with_frames (Some a) m s) =
      seq (frame_received env a (with_frames (Some a) m' s)) (\<lambda>(_, t). Inr t)"
  using c p fr(4)
proof (induction "length fr - k" arbitrary: k f bs m)
  case (Suc n)
  obtain g ds m' where c': "chain m0 (cs @ [(a, g, ds)]) m'" "partial g ds (Suc k) fr"
      and r: "Suc k = length fr \<longrightarrow> received g ds fi opc q"
      and e: "in_data env (fr ! k) (with_frames (Some a) m s) =
      (if Suc k = length fr then frame_received env a (with_frames (Some a) m' s) else Inr (0, with_frames (Some a) m' s))"
    using in_data_ok [OF Suc.prems(1,2) env fr(1-3) Suc.prems(3)] by blast
  have d: "drop k fr = fr ! k # drop (Suc k) fr" using Suc.prems(3) by (simp add: Cons_nth_drop_Suc)
  show ?case
  proof (cases "Suc k = length fr")
    case True
    have "run (in_data_turn env) (drop k fr) (with_frames (Some a) m s) =
        seq (frame_received env a (with_frames (Some a) m' s)) (\<lambda>(_, t). Inr t)"
      using True e by (cases "frame_received env a (with_frames (Some a) m' s)") (auto simp: d in_data_turn_def)
    with c'(1) r True show ?thesis by blast
  next
    case False
    then have "Suc k < length fr" "n = length fr - Suc k" using Suc.prems(3) Suc.hyps(2) by simp_all
    from Suc.hyps(1) [OF this(2) c' this(1)] show ?thesis using False e by (simp add: d in_data_turn_def)
  qed
qed simp

text \<open>A cell that nothing has been received into.\<close>

definition fresh :: "t_WS_FRAME \<Rightarrow> u8 list \<Rightarrow> bool" where
  "fresh f bs \<longleftrightarrow> rawdata_idx f = 0 \<and> (rawdata_sz f = 0 \<or> rawdata_sz f = FRAME_CHUNK_LENGTH) \<and> length bs = 512"

lemma fresh_partial: "fresh f bs \<Longrightarrow> partial f bs 0 fr"
  by (auto simp: fresh_def partial_def FRAME_CHUNK_LENGTH_def)

lemma chain_card:
  assumes "chain m0 cs m" "finite (dom (blocks m0))"
  shows "finite (dom (blocks m))" "card (dom (blocks m)) = card (dom (blocks m0)) + 2 * length cs"
proof -
  have d: "dom (blocks m) = dom (blocks m0) \<union> set (addrs_of cs)" using assms(1) by (simp add: chain_def dom_heap_of)
  show "finite (dom (blocks m))" using assms(2) by (simp add: d)
  have "length (addrs_of cs) = 2 * length cs" by (induction cs) auto
  moreover have "card (set (addrs_of cs)) = length (addrs_of cs)"
    using assms(1) by (intro distinct_card) (simp add: chain_def)
  moreover have "card (dom (blocks m0) \<union> set (addrs_of cs)) = card (dom (blocks m0)) + card (set (addrs_of cs))"
    using assms by (intro card_Un_disjoint) (auto simp: chain_def)
  ultimately show "card (dom (blocks m)) = card (dom (blocks m0)) + 2 * length cs" by (simp add: d)
qed

text \<open>Room for two more blocks: the frame and its raw data.\<close>

lemma two_blocks:
  assumes env: "memory_for N env" and c: "chain m0 cs m" "finite (dom (blocks m0))" and N: "card (dom (blocks m0)) + 2 * length cs + 1 < N"
  obtains b r m' where
    "dmem_create (frame_malloc env) n x m = (Some b, m\<lparr>blocks := (blocks m)(b \<mapsto> x), aaa := aaa m + 1\<rparr>)"
    "dmem_create (frame_malloc env) n' y (m\<lparr>blocks := (blocks m)(b \<mapsto> x), aaa := aaa m + 1\<rparr>) = (Some r, m')"
    "blocks m b = None" "blocks m r = None" "b \<noteq> r"
    "blocks m' = (blocks m)(b \<mapsto> x, r \<mapsto> y)" "live m' = live m + 2"
proof -
  note card = chain_card [OF c]
  from memory_forD(3) [OF env card(1)] card(2) N obtain b where b: "frame_malloc env (blocks m) n = Some b" by fastforce
  then have nb: "blocks m b = None" using memory_forD(1) [OF env] by (simp add: malloc_ok_def)
  let ?h = "(blocks m)(b \<mapsto> x)"
  have "card (dom ?h) = Suc (card (dom (blocks m)))" using nb card(1) by (simp add: domIff)
  then obtain r where r: "frame_malloc env ?h n' = Some r"
    using memory_forD(3) [OF env, of ?h] card N by fastforce
  then have "?h r = None" using memory_forD(1) [OF env] unfolding malloc_ok_def by blast
  then have nr: "blocks m r = None" "b \<noteq> r" by (auto split: if_splits)
  show ?thesis
    by (rule that [OF _ _ nb nr, of "m\<lparr>blocks := ?h(r \<mapsto> y), aaa := aaa m + 2\<rparr>"])
      (simp_all add: dmem_create_def b r live_def)
qed

lemma begin_frame:
  assumes env: "memory_for N env" and c: "chain m0 [] m" "finite (dom (blocks m0))" and N: "card (dom (blocks m0)) + 1 < N"
  shows "\<exists>a f bs m'. chain m0 [(a, f, bs)] m' \<and> fresh f bs \<and>
    (\<forall>b. in_data env b (with_frames None m s) = in_data env b (with_frames (Some a) m' s))"
proof -
  let ?f = "zero_frame\<lparr>payload_len := -1, rawdata_sz := FRAME_CHUNK_LENGTH\<rparr>"
  let ?bs = "replicate (unat FRAME_CHUNK_LENGTH) 0 :: u8 list"
  have "card (dom (blocks m0)) + 2 * length ([] :: frame_cell list) + 1 < N" using N by simp
  from two_blocks [OF env c this, of 48 "Frame ?f" "unat FRAME_CHUNK_LENGTH" "Rawdata ?bs"]
  obtain a r m' where e: "dmem_create (frame_malloc env) 48 (Frame ?f) m = (Some a, m\<lparr>blocks := (blocks m)(a \<mapsto> Frame ?f), aaa := aaa m + 1\<rparr>)"
    "dmem_create (frame_malloc env) (unat FRAME_CHUNK_LENGTH) (Rawdata ?bs) (m\<lparr>blocks := (blocks m)(a \<mapsto> Frame ?f), aaa := aaa m + 1\<rparr>) = (Some r, m')"
    and new: "blocks m a = None" "blocks m r = None" "a \<noteq> r" "blocks m' = (blocks m)(a \<mapsto> Frame ?f, r \<mapsto> Rawdata ?bs)" "live m' = live m + 2" .
  let ?m = "dmem_write a (Frame (?f\<lparr>rawdata := Some r\<rparr>)) m'"
  have "blocks m = blocks m0" "live m = live m0" using c(1) by (simp_all add: chain_def)
  then have "chain m0 [(a, ?f\<lparr>rawdata := Some r\<rparr>, ?bs)] ?m"
    using new by (auto simp: chain_def dmem_write_def live_def zero_frame_def fun_upd_twist [of r a])
  moreover have "fresh (?f\<lparr>rawdata := Some r\<rparr>) ?bs" by (simp add: fresh_def zero_frame_def FRAME_CHUNK_LENGTH_def)
  moreover have "ensure_frame env (with_frames None m s) = Inr (True, with_frames (Some a) ?m s)"
    using e by (simp add: ensure_frame_def)
  then have "in_data env b (with_frames None m s) = in_data env b (with_frames (Some a) ?m s)" for b
    by (simp add: in_data_def) (simp add: ensure_frame_def)
  ultimately show ?thesis by blast
qed

lemma linked_push:
  "linked p (cs @ [(a, f, bs)]) \<Longrightarrow> linked p (cs @ [(a, f\<lparr>next_frame := Some b\<rparr>, bs), (b, g, ds)])"
  if "prev_frame g = Some a" "rawdata g \<noteq> None" "next_frame g = None"
  using that by (induction p cs rule: linked.induct) (auto simp: hd_append)

lemma next_fragment_ok:
  assumes env: "memory_for N env" and c: "chain m0 (cs @ [(a, f, bs)]) m" "finite (dom (blocks m0))"
    and N: "card (dom (blocks m0)) + 2 * length cs + 3 < N"
  shows "\<exists>b g ds m'. chain m0 (cs @ [(a, f\<lparr>next_frame := Some b\<rparr>, bs), (b, g, ds)]) m' \<and> fresh g ds \<and>
    next_fragment env a (with_frames (Some a) m s) = Inr (0, with_frames (Some b) m' s)"
proof -
  let ?g = "zero_frame\<lparr>payload_len := -1\<rparr>"
  let ?ds = "replicate (unat FRAME_CHUNK_LENGTH) 0 :: u8 list"
  have "card (dom (blocks m0)) + 2 * length (cs @ [(a, f, bs)]) + 1 < N" using N by simp
  from two_blocks [OF env c this, of 48 "Frame ?g" "unat FRAME_CHUNK_LENGTH" "Rawdata ?ds"]
  obtain b r m' where e: "dmem_create (frame_malloc env) 48 (Frame ?g) m = (Some b, m\<lparr>blocks := (blocks m)(b \<mapsto> Frame ?g), aaa := aaa m + 1\<rparr>)"
    "dmem_create (frame_malloc env) (unat FRAME_CHUNK_LENGTH) (Rawdata ?ds) (m\<lparr>blocks := (blocks m)(b \<mapsto> Frame ?g), aaa := aaa m + 1\<rparr>) = (Some r, m')"
    and new: "blocks m b = None" "blocks m r = None" "b \<noteq> r" "blocks m' = (blocks m)(b \<mapsto> Frame ?g, r \<mapsto> Rawdata ?ds)" "live m' = live m + 2" .
  note l = chain_last [OF c(1)]
  define G where "G = ?g\<lparr>rawdata := Some r, prev_frame := Some a\<rparr>"
  define F where "F = f\<lparr>next_frame := Some b\<rparr>"
  define q where "q = the (rawdata f)"
  let ?m = "dmem_write a (Frame F) (dmem_write b (Frame G) m')"
  have G: "rawdata G = Some r" "prev_frame G = Some a" "next_frame G = None" by (simp_all add: G_def zero_frame_def)
  have F: "rawdata F = rawdata f" by (simp add: F_def)
  have h: "blocks m = (heap_of (blocks m0) cs)(a \<mapsto> Frame f, q \<mapsto> Rawdata bs)"
    using c(1) by (simp add: chain_def heap_of_append q_def)
  have ne: "a \<noteq> b" "a \<noteq> r" "q \<noteq> b" "q \<noteq> r" "a \<noteq> q" using l(5,6,7) new(1,2) by (auto simp: q_def)
  have "blocks ?m = heap_of (blocks m0) (cs @ [(a, F, bs), (b, G, ?ds)])"
    using ne new(3) by (auto simp: dmem_write_def new(4) h heap_of_append F G fun_eq_iff simp flip: q_def)
  moreover have "linked None (cs @ [(a, F, bs), (b, G, ?ds)])"
    unfolding F_def by (rule linked_push) (use G c(1) in \<open>simp_all add: chain_def\<close>)
  moreover have "b \<notin> set (addrs_of (cs @ [(a, f, bs)])) \<union> dom (blocks m0)" "r \<notin> set (addrs_of (cs @ [(a, f, bs)])) \<union> dom (blocks m0)"
    using new(1,2) c(1) dom_heap_of [of "blocks m0" "cs @ [(a, f, bs)]"] by (auto simp: chain_def)
  moreover have "live ?m = live m + 2" using new(5) by (simp add: live_def dmem_write_def)
  ultimately have "chain m0 (cs @ [(a, F, bs), (b, G, ?ds)]) ?m"
    using c(1) new(3) by (simp add: chain_def F G)
  moreover have "fresh G ?ds" by (simp add: fresh_def G_def zero_frame_def FRAME_CHUNK_LENGTH_def)
  moreover have "frame_at a m' = Inr f" using l(6) ne new(4) by (simp add: frame_at_def)
  then have "next_fragment env a (with_frames (Some a) m s) = Inr (0, with_frames (Some b) ?m s)"
    using e by (simp add: next_fragment_def F_def G_def)
  ultimately show ?thesis unfolding F_def by blast
qed

text \<open>Control frames other than close: the cell is used again.\<close>

lemma control_frame_ok:
  assumes env: "memory_for N env" and c: "chain m0 (cs @ [(a, f, bs)]) m" "finite (dom (blocks m0))"
    and N: "card (dom (blocks m0)) + 2 * length cs + 1 < N" and op: "opcode f \<noteq> 8"
  shows "\<exists>g ds m'. chain m0 (cs @ [(a, g, ds)]) m' \<and> fresh g ds \<and>
    handle_control_frame env a (with_frames (Some a) m s) = Inr (0, with_frames (Some a) m' s)"
proof -
  note l = chain_last [OF c(1)]
  obtain q where q: "rawdata f = Some q" using l(3) by auto
  let ?ds = "replicate (unat FRAME_CHUNK_LENGTH) 0 :: u8 list"
  let ?m = "m\<lparr>fff := fff m + 1, blocks := (blocks m)(q := None)\<rparr>"
  have q': "blocks m q \<noteq> None" using l(7) q by simp
  have dom: "dom (blocks ?m) = dom (blocks m) - {q}" by auto
  have "card (dom (blocks ?m)) < card (dom (blocks m))"
    using chain_card(1) [OF c] q' unfolding dom by (intro card_Diff1_less) auto
  moreover have "finite (dom (blocks ?m))" using chain_card(1) [OF c] by (simp add: dom)
  ultimately obtain r where r: "frame_malloc env (blocks ?m) 512 = Some r"
    using memory_forD(3) [OF env, of "blocks ?m" 512] chain_card(2) [OF c] N by auto
  define g where "g = zero_frame\<lparr>prev_frame := prev_frame f, rawdata := Some r\<rparr>"
  have "blocks ?m r = None" using memory_forD(1) [OF env] r unfolding malloc_ok_def by blast
  then have free: "blocks m r = None \<or> q = r" "r \<noteq> a" using l(5,6) q by (auto split: if_splits)
  let ?m' = "dmem_write a (Frame g) (?m\<lparr>blocks := (blocks ?m)(r \<mapsto> Rawdata ?ds), aaa := aaa ?m + 1\<rparr>)"
  have "chain m0 (cs @ [(a, g, ?ds)]) ?m'"
    by (rule chain_write [OF c(1), of g r])
      (use free q in \<open>auto simp: g_def zero_frame_def dmem_write_def live_def fun_upd_twist [of r a]\<close>)
  moreover have "fresh g ?ds" by (simp add: fresh_def g_def zero_frame_def FRAME_CHUNK_LENGTH_def)
  moreover have "dmem_create (frame_malloc env) (unat FRAME_CHUNK_LENGTH) (Rawdata ?ds) ?m =
      (Some r, ?m\<lparr>blocks := (blocks ?m)(r \<mapsto> Rawdata ?ds), aaa := aaa ?m + 1\<rparr>)"
    using r by (simp add: dmem_create_def FRAME_CHUNK_LENGTH_def)
  then have "handle_control_frame env a (with_frames (Some a) m s) = Inr (0, with_frames (Some a) ?m' s)"
    using l(1) op q q' by (simp add: handle_control_frame_def g_def)
  ultimately show ?thesis by blast
qed

section \<open>A message\<close>

fun prevs :: "nat option \<Rightarrow> frame_cell list \<Rightarrow> bool" where
  "prevs p [] \<longleftrightarrow> True"
| "prevs p ((a, f, bs) # cs) \<longleftrightarrow> prev_frame f = p \<and> prevs (Some a) cs"

fun nexts :: "frame_cell list \<Rightarrow> bool" where
  "nexts [] \<longleftrightarrow> True"
| "nexts ((a, f, bs) # cs) \<longleftrightarrow> next_frame f = (if cs = [] then None else Some (fst (List.hd cs))) \<and> nexts cs"

lemma linked_prevs_nexts: "linked p cs \<longleftrightarrow> prevs p cs \<and> nexts cs \<and> (\<forall>(a, f, bs)\<in>set cs. rawdata f \<noteq> None)"
  by (induction p cs rule: linked.induct) auto

lemma prevs_append:
  "prevs p (cs @ ds) \<longleftrightarrow> prevs p cs \<and> prevs (if cs = [] then p else Some (fst (List.last cs))) ds"
  by (induction p cs rule: prevs.induct) auto

definition cells_in :: "frame_cell list \<Rightarrow> ws_block dmem \<Rightarrow> bool" where
  "cells_in cs m \<longleftrightarrow> (\<forall>(a, f, bs)\<in>set cs. blocks m a = Some (Frame f) \<and> rawdata f \<noteq> None \<and> blocks m (the (rawdata f)) = Some (Rawdata bs))"

lemma cells_in_simps [simp]:
  "cells_in [] m" "cells_in ((a, f, bs) # cs) m \<longleftrightarrow> blocks m a = Some (Frame f) \<and> rawdata f \<noteq> None \<and>
     blocks m (the (rawdata f)) = Some (Rawdata bs) \<and> cells_in cs m"
  "cells_in (cs @ ds) m \<longleftrightarrow> cells_in cs m \<and> cells_in ds m"
  by (simp_all add: cells_in_def ball_Un)

lemma chain_cells: assumes "chain m0 cs m" shows "cells_in cs m"
  unfolding cells_in_def
proof (clarify, intro conjI)
  fix a f bs assume i: "(a, f, bs) \<in> set cs"
  then obtain us vs where cs: "cs = us @ (a, f, bs) # vs" by (auto simp: in_set_conv_decomp)
  show "blocks m a = Some (Frame f)" "blocks m (the (rawdata f)) = Some (Rawdata bs)"
    using assms heap_of_cell [of us a f bs vs] by (simp_all only: chain_def cs)
  show "rawdata f \<noteq> None" using assms i by (auto simp: chain_def linked_prevs_nexts)
qed

lemma first_frame_step:
  assumes "blocks m c = Some (Frame f)"
  shows "first_frame m c n = (case prev_frame f of None \<Rightarrow> Inr (c, n) | Some p \<Rightarrow> first_frame m p (n + payload_len f))"
  using assms
  by (cases "prev_frame f")
    (simp_all add: first_frame_def while_option_unfold [of "back_more m" _ "Inr (c, n)"] back_more_def back_turn_def frame_at_def deref_def)

text \<open>The loop back adds the lengths of all the frames but the first.\<close>

lemma first_frame_chain:
  "cells_in (c # cs) m \<Longrightarrow> prevs None (c # cs) \<Longrightarrow>
     first_frame m (fst (List.last (c # cs))) n = Inr (fst c, n + sum_list (map (\<lambda>(a, f, bs). payload_len f) cs))"
proof (induction cs arbitrary: n rule: rev_induct)
  case Nil
  then show ?case by (cases c) (simp add: first_frame_step)
next
  case (snoc x cs)
  obtain a f bs where x: "x = (a, f, bs)" by (cases x)
  from snoc.prems have p: "prev_frame f = Some (fst (List.last (c # cs)))" "prevs None (c # cs)"
    using prevs_append [of None "c # cs" "[x]"] by (simp_all add: x)
  have "first_frame m a n = first_frame m (fst (List.last (c # cs))) (n + payload_len f)"
    using snoc.prems(1) p(1) cells_in_simps(3) [of "c # cs" "[x]" m] by (simp add: x first_frame_step)
  also have "\<dots> = Inr (fst c, n + payload_len f + sum_list (map (\<lambda>(a, f, bs). payload_len f) cs))"
    using snoc.IH p(2) snoc.prems(1) cells_in_simps(3) [of "c # cs" "[x]" m] by (simp add: x)
  finally show ?case by (simp add: x algebra_simps)
qed

text \<open>The payload of a complete frame.\<close>

fun holds :: "frame_cell \<Rightarrow> u8 list \<Rightarrow> bool" where
  "holds (a, f, bs) p \<longleftrightarrow> payload_len f = of_nat (length p) \<and> length p < 2 ^ 31 \<and>
     unat (payload_offset f) + length p \<le> length bs \<and> take (length p) (drop (unat (payload_offset f)) bs) = p"

lemma size32_of_nat:
  assumes "n < 2 ^ 32"
  shows "size32 (of_nat n) = n"
proof -
  have "unat (of_nat n :: 64 word) = n" using assms by (intro of_nat_unat64) simp
  then have "size32 (of_nat n) = take_bit 32 n" by (simp add: size32_def unsigned_ucast_eq)
  then show ?thesis using assms by (simp add: take_bit_nat_eq_self)
qed

lemma cleanup_step:
  assumes "blocks m a = Some (Frame f)" "rawdata f = Some r" "blocks m r \<noteq> None" "a \<noteq> r"
  shows "cleanup_frames (Some a) m =
    cleanup_frames (next_frame f) (m\<lparr>fff := 2 + fff m, blocks := (blocks m)(r := None, a := None)\<rparr>)"
  using assms
  by (simp add: cleanup_frames_def while_option_unfold [of cleanup_more _ "Inr (Some a, m)"] cleanup_more_def cleanup_turn_def
      deref_def frame_at_def)

lemma cleanup_chain:
  "cells_in cs m \<Longrightarrow> nexts cs \<Longrightarrow> distinct (addrs_of cs) \<Longrightarrow>
     cleanup_frames (if cs = [] then None else Some (fst (List.hd cs))) m =
       Inr (m\<lparr>fff := fff m + 2 * int (length cs), blocks := blocks m |` (- set (addrs_of cs))\<rparr>)"
proof (induction cs arbitrary: m)
  case Nil
  then show ?case
    by (simp add: cleanup_frames_def while_option_unfold [of cleanup_more _ "Inr (None, m)"] cleanup_more_def)
next
  case (Cons c cs)
  obtain a f bs where c: "c = (a, f, bs)" by (cases c)
  obtain r where r: "rawdata f = Some r" using Cons.prems(1) by (auto simp: c)
  let ?m = "m\<lparr>fff := 2 + fff m, blocks := (blocks m)(r := None, a := None)\<rparr>"
  have in': "cells_in cs ?m"
    using Cons.prems(1,3) r by (force simp: c cells_in_def addrs_of_def)
  have "cleanup_frames (Some a) m = cleanup_frames (if cs = [] then None else Some (fst (List.hd cs))) ?m"
    using Cons.prems r by (subst cleanup_step [of m a f r]) (auto simp: c)
  also have "\<dots> = Inr (?m\<lparr>fff := fff ?m + 2 * int (length cs), blocks := blocks ?m |` (- set (addrs_of cs))\<rparr>)"
    by (rule Cons.IH [OF in']) (use Cons.prems in \<open>auto simp: c\<close>)
  also have "blocks ?m |` (- set (addrs_of cs)) = blocks m |` (- set (addrs_of (c # cs)))"
    using r by (auto simp: c restrict_map_def fun_eq_iff)
  finally show ?case by (simp add: c algebra_simps)
qed

text \<open>The copy of the payloads, which runs out of the buffer when the loop back counted too little.\<close>

lemma copy_chain:
  assumes "cells_in cs m" "nexts cs" "list_all2 holds cs ps" "length buf < 2 ^ 32" "k \<le> length buf"
  shows "while_option copy_more (copy_turn m) (Inr (if cs = [] then None else Some (fst (List.hd cs)), buf, of_nat k)) =
    Some (if k + length (concat ps) \<le> length buf
      then Inr (None, take k buf @ concat ps @ drop (k + length (concat ps)) buf, of_nat (k + length (concat ps)))
      else Inl Out_Of_Bounds)"
  using assms
proof (induction cs arbitrary: ps buf k)
  case Nil
  then show ?case by simp (subst while_option_unfold, simp add: copy_more_def)
next
  case (Cons c cs)
  obtain a f bs where c: "c = (a, f, bs)" by (cases c)
  obtain p qs where ps: "ps = p # qs" "holds c p" "list_all2 holds cs qs" using Cons.prems(3) by (cases ps) auto
  let ?off = "unat (payload_offset f)"
  have p: "size32 (payload_len f) = length p" "?off + length p \<le> length bs" "take (length p) (drop ?off bs) = p"
      "payload_len f = of_nat (length p)"
    using ps(2) by (simp_all add: c size32_of_nat)
  have k: "size32 (of_nat k) = k" using Cons.prems(4,5) by (intro size32_of_nat) simp
  let ?s = "Inr (Some a, buf, of_nat k) :: (nat option \<times> u8 list \<times> 64 word) outcome"
  have u: "while_option copy_more (copy_turn m) ?s = while_option copy_more (copy_turn m) (copy_turn m ?s)"
    by (subst while_option_unfold) (simp add: copy_more_def)
  have t: "copy_turn m ?s =
      (if k + length p \<le> length buf
       then Inr (if cs = [] then None else Some (fst (List.hd cs)), take k buf @ p @ drop (k + length p) buf, of_nat (k + length p))
       else Inl Out_Of_Bounds)"
    using Cons.prems(1,2) p k by (auto simp: copy_turn_def c deref_def frame_at_def bytes_at_def Let_def)
  show ?case
  proof (cases "k + length p \<le> length buf")
    case False
    have "while_option copy_more (copy_turn m) (Inl Out_Of_Bounds) = Some (Inl Out_Of_Bounds)"
      by (subst while_option_unfold) (simp add: copy_more_def)
    with False show ?thesis by (simp add: c u t ps(1))
  next
    case True
    let ?buf = "take k buf @ p @ drop (k + length p) buf"
    have len: "length ?buf = length buf" using True by simp
    have "cells_in cs m" "nexts cs" using Cons.prems(1,2) by (simp_all add: c)
    note ih = Cons.IH [OF this ps(3), of ?buf "k + length p", unfolded len, OF Cons.prems(4) True]
    have tk: "take (k + length p) ?buf = take k buf @ p" using True by simp
    have dr: "drop (k + (length p + n)) ?buf = drop (k + (length p + n)) buf" for n
      using True by (simp add: add.commute add.left_commute)
    show ?thesis using True ih by (simp add: c u t ps(1) tk dr add.assoc del: take_append drop_append)
  qed
qed

text \<open>What the loop back comes to: the last length twice, the first not at all.\<close>

definition counted :: "u8 list list \<Rightarrow> nat" where
  "counted ps = length (concat (tl ps)) + length (List.last ps)"

definition delivered :: "nat \<Rightarrow> u8 \<Rightarrow> u8 list list \<Rightarrow> ws_event" where
  "delivered g opc ps = On_Message g (ucast opc) (of_nat (length (concat ps)))
     (concat ps @ replicate (counted ps + 1 - length (concat ps)) 0)"

definition emit :: "ws_event list \<Rightarrow> ws_client \<Rightarrow> ws_client" where
  "emit es s = s\<lparr>ws_events := ws_events s @ es\<rparr>"

lemma emit_simps [simp]:
  "frames (emit es s) = frames s" "wsc (emit es s) = wsc s" "emit es (with_frames p m s) = with_frames p m (emit es s)"
  "emit [] s = s" "emit ds (emit es s) = emit (es @ ds) s"
  by (simp_all add: emit_def with_frames_def upd_ws_def)

lemma deliver_ok:
  assumes env: "memory_for N env" and N: "finite (dom (blocks m))" "card (dom (blocks m)) < N" and p: "blocks m p \<noteq> None"
    and g: "onMessage (wsc s) = Some g"
  shows "\<exists>m'. deliver_message env p opc n buf (with_frames w m s) = Inr (with_frames w m' (emit [On_Message g opc n buf] s)) \<and>
    blocks m' = (blocks m)(p := None) \<and> live m' = live m - 1"
proof -
  from memory_forD(3) [OF env N] obtain q where q: "frame_malloc env (blocks m) 24 = Some q" by blast
  then have "blocks m q = None" using memory_forD(1) [OF env] by (simp add: malloc_ok_def)
  then have "q \<noteq> p" "(blocks m)(q := None) = blocks m" using p by (auto simp: fun_eq_iff)
  let ?m = "m\<lparr>aaa := aaa m + 1, fff := fff m + 2, blocks := (blocks m)(p := None)\<rparr>"
  have "deliver_message env p opc n buf (with_frames w m s) = Inr (with_frames w ?m (emit [On_Message g opc n buf] s))"
    using q g p \<open>q \<noteq> p\<close> \<open>(blocks m)(q := None) = blocks m\<close>
    by (simp add: deliver_message_def dmem_create_def log_event_def fun_upd_twist [of q p])
       (simp add: with_frames_def upd_ws_def emit_def)
  then show ?thesis by (intro exI [of _ ?m]) (simp add: live_def)
qed

lemma sum_payloads:
  "list_all2 holds cs ps \<Longrightarrow> sum_list (map (\<lambda>(a, f, bs). payload_len f) cs) = of_nat (length (concat ps))"
  by (induction rule: list_all2_induct) auto

lemma length_member: "x \<in> set xs \<Longrightarrow> length x \<le> length (concat xs)"
  by (induction xs) auto

lemma list_all2_last: "list_all2 P xs ys \<Longrightarrow> xs \<noteq> [] \<Longrightarrow> P (List.last xs) (List.last ys)"
  by (induction rule: list_all2_induct) auto

lemma dispatch_chain:
  assumes env: "memory_for N env" and c: "chain m0 (c # cs) m" "finite (dom (blocks m0))"
    and N: "card (dom (blocks m0)) + 2 * length (c # cs) < N"
    and ps: "list_all2 holds (c # cs) ps" "length (concat ps) < 2 ^ 31"
    and f1: "opcode (fst (snd c)) = ucast opc" and g: "onMessage (wsc s) = Some g"
  shows "if length (concat ps) \<le> counted ps + 1
    then \<exists>m'. chain m0 [] m' \<and> dispatch_message env (Some (fst (List.last (c # cs)))) (with_frames w m s) =
      Inr (0, with_frames w m' (emit [delivered g opc ps] s))
    else dispatch_message env (Some (fst (List.last (c # cs)))) (with_frames w m s) = Inl Out_Of_Bounds"
proof -
  define l where "l = List.last (c # cs)"
  obtain a f bs where l: "l = (a, f, bs)" by (cases l)
  obtain a1 f1 bs1 where c1: "c = (a1, f1, bs1)" by (cases c)
  obtain p qs where pq: "ps = p # qs" "list_all2 holds cs qs" using ps(1) by (cases ps) auto
  note cells = chain_cells [OF c(1)]
  have links: "prevs None (c # cs)" "nexts (c # cs)" "distinct (addrs_of (c # cs))"
    using c(1) by (auto simp: chain_def linked_prevs_nexts)
  have "l \<in> set (c # cs)" by (simp add: l_def)
  then have fl: "frame_at a m = Inr f" using cells by (auto simp: cells_in_def l frame_at_def)
  have "holds l (List.last ps)" using list_all2_last [OF ps(1)] by (simp add: l_def)
  then have "payload_len f = of_nat (length (List.last ps))" by (simp add: l)
  then have ff: "first_frame m a (payload_len f) = Inr (a1, of_nat (counted ps))"
    using first_frame_chain [OF cells links(1), of "payload_len f", folded l_def] sum_payloads [OF pq(2)]
    by (simp add: counted_def pq(1) l c1 algebra_simps del: last.simps)
  have "List.last ps \<in> set ps" by (simp add: pq(1))
  then have "length (List.last ps) \<le> length (concat ps)" by (rule length_member)
  moreover have "length (concat (tl ps)) \<le> length (concat ps)" by (simp add: pq(1))
  ultimately have sz: "counted ps + 1 < 2 ^ 32" using ps(2) by (simp add: counted_def)
  have n: "size32 (of_nat (counted ps) + 1) = counted ps + 1"
    using size32_of_nat [OF sz] by (simp add: add.commute)
  define zeros where "zeros = replicate (counted ps + 1) (0 :: u8)"
  obtain p where p: "frame_malloc env (blocks m) (counted ps + 1) = Some p"
    using memory_forD(3) [OF env chain_card(1) [OF c(1,2)]] chain_card(2) [OF c(1,2)] N by auto
  have np: "blocks m p = None" using memory_forD(1) [OF env] p by (simp add: malloc_ok_def)
  let ?m1 = "m\<lparr>blocks := (blocks m)(p \<mapsto> Rawdata zeros), aaa := aaa m + 1\<rparr>"
  have cells1: "cells_in (c # cs) (m\<lparr>blocks := (blocks m)(p \<mapsto> x), aaa := k\<rparr>)" for x k
    using cells np unfolding cells_in_def by fastforce
  have cp: "copy_frames ?m1 a1 zeros = (if length (concat ps) \<le> counted ps + 1
      then Inr (concat ps @ drop (length (concat ps)) zeros, of_nat (length (concat ps))) else Inl Out_Of_Bounds)"
    using copy_chain [OF cells1 [where x = "Rawdata zeros" and k = "aaa m + 1"] links(2) ps(1), of zeros 0] sz
    by (simp add: copy_frames_def c1 zeros_def)
  let ?k = "\<lambda>(buf, off). seq (cleanup_frames (Some a1) (dmem_write p (Rawdata buf) ?m1)) (\<lambda>m.
      seq (deliver_message env p (ucast opc) off buf (with_frames w m s)) (\<lambda>s. Inr (0 :: int, s)))"
  have "frame_at a1 m = Inr f1" using cells by (simp add: c1 frame_at_def)
  then have d: "dispatch_message env (Some a) (with_frames w m s) = seq (copy_frames ?m1 a1 zeros) ?k"
    using f1 p n by (simp add: dispatch_message_def fl ff dmem_create_def c1 zeros_def Let_def)
  have la: "fst (List.last (c # cs)) = a" using l by (simp only: l_def fst_conv)
  show ?thesis
  proof (cases "length (concat ps) \<le> counted ps + 1")
    case False
    then show ?thesis using d cp la by (simp del: last.simps)
  next
    case True
    let ?buf = "concat ps @ drop (length (concat ps)) zeros"
    let ?m2 = "dmem_write p (Rawdata ?buf) ?m1"
    have m2: "?m2 = m\<lparr>blocks := (blocks m)(p \<mapsto> Rawdata ?buf), aaa := aaa m + 1\<rparr>" by (simp add: dmem_write_def)
    let ?m3 = "?m2\<lparr>fff := fff ?m2 + 2 * int (length (c # cs)), blocks := blocks ?m2 |` (- set (addrs_of (c # cs)))\<rparr>"
    have cl: "cleanup_frames (Some a1) ?m2 = Inr ?m3"
      using cleanup_chain [OF cells1 [where x = "Rawdata ?buf" and k = "aaa m + 1", folded m2] links(2,3)] by (simp add: c1)
    have b: "blocks m = heap_of (blocks m0) (c # cs)" "set (addrs_of (c # cs)) \<inter> dom (blocks m0) = {}"
      using c(1) by (simp_all add: chain_def)
    have "p \<notin> dom (blocks m)" using np by (simp add: domIff)
    then have np0: "blocks m0 p = None" "p \<notin> set (addrs_of (c # cs))" by (auto simp: b(1) dom_heap_of domIff)
    have "blocks ?m3 x = ((blocks m0)(p \<mapsto> Rawdata ?buf)) x" for x
    proof (cases "x \<in> set (addrs_of (c # cs))")
      case True
      then have "x \<notin> dom (blocks m0)" using b(2) by blast
      then show ?thesis using True np0(2) by (auto simp: restrict_map_def domIff)
    next
      case False
      then have "heap_of (blocks m0) (c # cs) x = blocks m0 x" by (rule heap_of_other)
      then have "blocks m x = blocks m0 x" by (simp only: b(1))
      then show ?thesis using False by (simp add: restrict_map_def dmem_write_def)
    qed
    then have b3: "blocks ?m3 = (blocks m0)(p \<mapsto> Rawdata ?buf)" by blast
    define m3 where "m3 = ?m3"
    have "live m = live m0 + 2 * int (length (c # cs))" using c(1) by (simp only: chain_def)
    then have live3: "live m3 = live m0 + 1" by (simp add: m3_def dmem_write_def live_def)
    have "finite (dom (blocks m3))" "card (dom (blocks m3)) < N" "blocks m3 p \<noteq> None"
      unfolding m3_def b3 using c(2) N np0(1) by (simp_all add: domIff)
    note dok = deliver_ok [OF env this g, of "ucast opc" "of_nat (length (concat ps))" ?buf w]
    have ev: "On_Message g (ucast opc) (of_nat (length (concat ps))) ?buf = delivered g opc ps"
      by (simp only: delivered_def zeros_def drop_replicate)
    obtain m' where m': "deliver_message env p (ucast opc) (of_nat (length (concat ps))) ?buf (with_frames w m3 s) =
        Inr (with_frames w m' (emit [delivered g opc ps] s))" "blocks m' = (blocks m3)(p := None)" "live m' = live m3 - 1"
      using dok unfolding ev by blast
    have "blocks m' = blocks m0" unfolding m'(2) m3_def b3 using np0(1) by (auto simp: fun_eq_iff)
    then have "chain m0 [] m'" using m'(3) live3 by (simp add: chain_def)
    moreover have "dispatch_message env (Some a) (with_frames w m s) = Inr (0, with_frames w m' (emit [delivered g opc ps] s))"
      using True d cp cl m'(1) by (simp add: m3_def)
    ultimately show ?thesis using True by (simp only: la if_True) blast
  qed
qed

section \<open>Streams of messages\<close>

lemma ucast_u8_inj: "((ucast x :: u32) = ucast y) = (x = y)" for x y :: u8
proof
  assume "(ucast x :: u32) = ucast y"
  then have "(ucast (ucast x :: u32) :: u8) = ucast (ucast y :: u32)" by (rule arg_cong)
  moreover have "(ucast (ucast z :: u32) :: u8) = z" for z by (rule bit_word_eqI) (auto simp: bit_simps)
  ultimately show "x = y" by (simp only:)
qed simp

lemma opcode_bit: "(ucast opc AND 0x08 = (0x08 :: u32)) \<longleftrightarrow> opc AND 0x08 = 0x08" for opc :: u8
  using ucast_u8_inj [of "opc AND 0x08" "0x08"] by (simp add: unsigned_and_eq)

lemma opcode_close: "(ucast opc = (8 :: u32)) \<longleftrightarrow> opc = 8" for opc :: u8
  using ucast_u8_inj [of opc 8] by simp

lemma received_holds: "received f bs fi opc p \<Longrightarrow> holds (a, f, bs) p \<and> opcode f = ucast opc \<and> holds (a, f\<lparr>next_frame := n\<rparr>, bs) p"
  by (simp add: received_def)

definition control_ok :: "u8 \<times> u8 list \<Rightarrow> bool" where
  "control_ok c \<longleftrightarrow> (case c of (opc, p) \<Rightarrow> opcode_ok opc \<and> opc AND 0x08 = 0x08 \<and> opc \<noteq> 8 \<and> length p \<le> 125)"

definition control_frame :: "u8 \<times> u8 list \<Rightarrow> u8 list" where
  "control_frame c = (case c of (opc, p) \<Rightarrow> server_frame True opc p)"

lemma frame_nonempty: "0 < length (server_frame f opc p)"
  by (simp add: server_frame_def frame_head_def)

lemma control_run:
  assumes env: "memory_for N env" and c: "chain m0 (cs @ [(a, f, bs)]) m" "finite (dom (blocks m0))" "fresh f bs"
    and N: "card (dom (blocks m0)) + 2 * length cs + 1 < N" and ok: "control_ok c"
  shows "\<exists>g ds m'. chain m0 (cs @ [(a, g, ds)]) m' \<and> fresh g ds \<and>
    run (in_data_turn env) (control_frame c) (with_frames (Some a) m s) = Inr (with_frames (Some a) m' s)"
proof -
  obtain opc p where cp: "c = (opc, p)" by (cases c)
  with ok have o: "opcode_ok opc" "opc AND 0x08 = 0x08" "opc \<noteq> 8" "length p < 2 ^ 31" by (simp_all add: control_ok_def)
  from frame_bytes [OF c(1) fresh_partial [OF c(3)] env refl o(1,4) frame_nonempty, of True s]
  obtain g ds m' where g: "chain m0 (cs @ [(a, g, ds)]) m'" "received g ds True opc p"
    and r: "run (in_data_turn env) (server_frame True opc p) (with_frames (Some a) m s) =
      seq (frame_received env a (with_frames (Some a) m' s)) (\<lambda>(_, t). Inr t)" by auto
  have "opcode g \<noteq> 8" using g(2) o(3) by (simp add: received_def opcode_close)
  from control_frame_ok [OF env g(1) c(2) N this]
  obtain h es m'' where h: "chain m0 (cs @ [(a, h, es)]) m''" "fresh h es"
    "handle_control_frame env a (with_frames (Some a) m' s) = Inr (0, with_frames (Some a) m'' s)" by blast
  have "frame_received env a (with_frames (Some a) m' s) = Inr (0, with_frames (Some a) m'' s)"
    using chain_last(1) [OF g(1)] g(2) o(2) h(3) by (simp add: frame_received_def received_def opcode_bit)
  then show ?thesis using h(1,2) r by (auto simp: control_frame_def cp)
qed

lemma controls_run:
  assumes env: "memory_for N env" and c: "chain m0 (cs @ [(a, f, bs)]) m" "finite (dom (blocks m0))" "fresh f bs"
    and N: "card (dom (blocks m0)) + 2 * length cs + 1 < N" and ok: "\<forall>c\<in>set ctl. control_ok c"
  shows "\<exists>g ds m'. chain m0 (cs @ [(a, g, ds)]) m' \<and> fresh g ds \<and>
    run (in_data_turn env) (concat (map control_frame ctl)) (with_frames (Some a) m s) = Inr (with_frames (Some a) m' s)"
  using c(1,3) ok
proof (induction ctl arbitrary: f bs m)
  case Nil
  then show ?case by auto
next
  case (Cons x ctl)
  from control_run [OF env Cons.prems(1) c(2) Cons.prems(2) N, of x s] Cons.prems(3)
  obtain g ds m' where g: "chain m0 (cs @ [(a, g, ds)]) m'" "fresh g ds"
    "run (in_data_turn env) (control_frame x) (with_frames (Some a) m s) = Inr (with_frames (Some a) m' s)" by auto
  from Cons.IH [OF g(1,2)] Cons.prems(3) g(3) show ?case by (simp add: run_append)
qed

lemma fragment_run:
  assumes env: "memory_for N env" and c: "chain m0 (cs @ [(a, f, bs)]) m" "finite (dom (blocks m0))" "fresh f bs"
    and N: "card (dom (blocks m0)) + 2 * length cs + 3 < N" and o: "opcode_ok opc" "length p < 2 ^ 31"
  shows "\<exists>g ds b h es m'. chain m0 (cs @ [(a, g, ds), (b, h, es)]) m' \<and> fresh h es \<and> holds (a, g, ds) p \<and> opcode g = ucast opc \<and>
    run (in_data_turn env) (server_frame False opc p) (with_frames (Some a) m s) = Inr (with_frames (Some b) m' s)"
proof -
  from frame_bytes [OF c(1) fresh_partial [OF c(3)] env refl o frame_nonempty, of False s]
  obtain g ds m' where g: "chain m0 (cs @ [(a, g, ds)]) m'" "received g ds False opc p"
    and r: "run (in_data_turn env) (server_frame False opc p) (with_frames (Some a) m s) =
      seq (frame_received env a (with_frames (Some a) m' s)) (\<lambda>(_, t). Inr t)" by auto
  from next_fragment_ok [OF env g(1) c(2) N]
  obtain b h es m'' where h: "chain m0 (cs @ [(a, g\<lparr>next_frame := Some b\<rparr>, ds), (b, h, es)]) m''" "fresh h es"
    "next_fragment env a (with_frames (Some a) m' s) = Inr (0, with_frames (Some b) m'' s)" by blast
  have "frame_received env a (with_frames (Some a) m' s) = Inr (0, with_frames (Some b) m'' s)"
    using chain_last(1) [OF g(1)] g(2) h(3) by (simp add: frame_received_def received_def)
  moreover have "opcode (g\<lparr>next_frame := Some b\<rparr>) = ucast opc" using g(2) by (simp add: received_def)
  ultimately show ?thesis using h(1,2) r received_holds [OF g(2)] by fastforce
qed

text \<open>What decides whether the buffer of a message is large enough.\<close>

definition fits :: "u8 list list \<Rightarrow> bool" where
  "fits ps \<longleftrightarrow> length (List.hd ps) \<le> length (List.last ps) + 1"

lemma fits_iff: "ps \<noteq> [] \<Longrightarrow> fits ps \<longleftrightarrow> length (concat ps) \<le> counted ps + 1"
  by (cases ps) (auto simp: fits_def counted_def)

lemma last_run:
  assumes env: "memory_for N env" and c: "chain m0 (cs @ [(a, f, bs)]) m" "finite (dom (blocks m0))" "fresh f bs"
    and N: "card (dom (blocks m0)) + 2 * length cs + 2 < N" and o: "opcode_ok opc" "opc AND 0x08 \<noteq> 0x08"
    and qs: "list_all2 holds cs qs" "length (concat (qs @ [p])) < 2 ^ 31"
    and op: "if cs = [] then opc = opc0 else opcode (fst (snd (List.hd cs))) = ucast opc0" and g: "onMessage (wsc s) = Some g"
  shows "if fits (qs @ [p])
    then \<exists>m'. chain m0 [] m' \<and> run (in_data_turn env) (server_frame True opc p) (with_frames (Some a) m s) =
      Inr (with_frames None m' (emit [delivered g opc0 (qs @ [p])] s))
    else run (in_data_turn env) (server_frame True opc p) (with_frames (Some a) m s) = Inl Out_Of_Bounds"
proof -
  have "length p < 2 ^ 31" using qs(2) by simp
  from frame_bytes [OF c(1) fresh_partial [OF c(3)] env refl o(1) this frame_nonempty, of True s]
  obtain h ds m' where h: "chain m0 (cs @ [(a, h, ds)]) m'" "received h ds True opc p"
    and r: "run (in_data_turn env) (server_frame True opc p) (with_frames (Some a) m s) =
      seq (frame_received env a (with_frames (Some a) m' s)) (\<lambda>(_, t). Inr t)" by auto
  obtain d es where de: "cs @ [(a, h, ds)] = d # es" by (cases "cs @ [(a, h, ds)]") auto
  have l: "List.last (d # es) = (a, h, ds)" by (metis de last_snoc)
  have "list_all2 holds (d # es) (qs @ [p])"
    unfolding de [symmetric] using qs(1) received_holds [OF h(2)] by (intro list_all2_appendI) auto
  moreover have "opcode (fst (snd d)) = ucast opc0"
    using de op received_holds [OF h(2)] by (cases cs) auto
  moreover have "card (dom (blocks m0)) + 2 * length (d # es) < N" using N unfolding de [symmetric] by simp
  ultimately have "if length (concat (qs @ [p])) \<le> counted (qs @ [p]) + 1
    then \<exists>m''. chain m0 [] m'' \<and> dispatch_message env (Some (fst (List.last (d # es)))) (with_frames (Some a) m' s) =
      Inr (0, with_frames (Some a) m'' (emit [delivered g opc0 (qs @ [p])] s))
    else dispatch_message env (Some (fst (List.last (d # es)))) (with_frames (Some a) m' s) = Inl Out_Of_Bounds"
    using dispatch_chain [OF env h(1) [unfolded de] c(2) _ _ qs(2) _ g] by blast
  moreover have "frame_received env a (with_frames (Some a) m' s) =
      seq (dispatch_message env (Some a) (with_frames (Some a) m' s)) (\<lambda>(_, s). Inr (0, upd_ws (\<lambda>d. d\<lparr>current_frame := None\<rparr>) s))"
    using chain_last(1) [OF h(1)] h(2) o(2) by (simp add: frame_received_def received_def opcode_bit)
  ultimately show ?thesis using r fits_iff [of "qs @ [p]"] l by (fastforce split: if_splits)
qed

text \<open>
  A message as a server sends it: the payloads of its fragments, each with the control frames that
  come before it. The first fragment has the opcode of the message, the others the opcode 0.
\<close>

type_synonym piece = "(u8 \<times> u8 list) list \<times> u8 list"

fun message_bytes :: "u8 \<Rightarrow> piece list \<Rightarrow> u8 list" where
  "message_bytes opc [] = []"
| "message_bytes opc ((ctl, p) # ps) = concat (map control_frame ctl) @ server_frame (ps = []) opc p @ message_bytes 0 ps"

definition message_ok :: "u8 \<times> piece list \<Rightarrow> bool" where
  "message_ok msg \<longleftrightarrow> (case msg of (opc, ps) \<Rightarrow> ps \<noteq> [] \<and> opcode_ok opc \<and> opc AND 0x08 \<noteq> 0x08 \<and>
     (\<forall>(ctl, p)\<in>set ps. \<forall>c\<in>set ctl. control_ok c) \<and> length (concat (map snd ps)) < 2 ^ 31)"

lemma run_seq_Inl: "run step xs s = Inl e \<Longrightarrow> run step (xs @ ys) s = Inl e"
  by (simp add: run_append)

lemma pieces_run:
  assumes env: "memory_for N env" and fin: "finite (dom (blocks m0))" and g: "onMessage (wsc s) = Some g"
  shows "chain m0 (cs @ [(a, f, bs)]) m \<Longrightarrow> fresh f bs \<Longrightarrow> list_all2 holds cs qs \<Longrightarrow>
    card (dom (blocks m0)) + 2 * (length cs + length ps) < N \<Longrightarrow> opcode_ok opc \<Longrightarrow> opc AND 0x08 \<noteq> 0x08 \<Longrightarrow>
    (if cs = [] then opc = opc0 else opcode (fst (snd (List.hd cs))) = ucast opc0) \<Longrightarrow> ps \<noteq> [] \<Longrightarrow>
    \<forall>(ctl, p)\<in>set ps. \<forall>c\<in>set ctl. control_ok c \<Longrightarrow> length (concat (qs @ map snd ps)) < 2 ^ 31 \<Longrightarrow>
    (if fits (qs @ map snd ps)
     then \<exists>m'. chain m0 [] m' \<and> run (in_data_turn env) (message_bytes opc ps) (with_frames (Some a) m s) =
       Inr (with_frames None m' (emit [delivered g opc0 (qs @ map snd ps)] s))
     else run (in_data_turn env) (message_bytes opc ps) (with_frames (Some a) m s) = Inl Out_Of_Bounds)"
proof (induction ps arbitrary: cs a f bs m qs opc)
  case (Cons x ps)
  obtain ctl p where x: "x = (ctl, p)" by (cases x)
  have N: "card (dom (blocks m0)) + 2 * length cs + 1 < N" "\<forall>c\<in>set ctl. control_ok c" using Cons.prems(4,9) by (auto simp: x)
  from controls_run [OF env Cons.prems(1) fin Cons.prems(2) N]
  obtain h ds m' where h: "chain m0 (cs @ [(a, h, ds)]) m'" "fresh h ds"
    "run (in_data_turn env) (concat (map control_frame ctl)) (with_frames (Some a) m s) = Inr (with_frames (Some a) m' s)" by blast
  have p: "length p < 2 ^ 31" using Cons.prems(10) by (simp add: x)
  show ?case
  proof (cases "ps = []")
    case True
    have "card (dom (blocks m0)) + 2 * length cs + 2 < N" "length (concat (qs @ [p])) < 2 ^ 31"
      using Cons.prems(4,10) True by (simp_all add: x)
    from last_run [OF env h(1) fin h(2) this(1) Cons.prems(5,6,3) this(2) Cons.prems(7) g]
    show ?thesis using h(3) True by (simp add: x run_append)
  next
    case False
    then have N': "card (dom (blocks m0)) + 2 * length cs + 3 < N" using Cons.prems(4) by (cases ps) auto
    from fragment_run [OF env h(1) fin h(2) this Cons.prems(5) p]
    obtain k es b i fs m'' where f: "chain m0 (cs @ [(a, k, es), (b, i, fs)]) m''" "fresh i fs" "holds (a, k, es) p"
      "opcode k = ucast opc"
      "run (in_data_turn env) (server_frame False opc p) (with_frames (Some a) m' s) = Inr (with_frames (Some b) m'' s)" by blast
    let ?cs = "cs @ [(a, k, es)]"
    have c': "chain m0 (?cs @ [(b, i, fs)]) m''" using f(1) by simp
    have l: "list_all2 holds ?cs (qs @ [p])" using Cons.prems(3) f(3) by (intro list_all2_appendI) auto
    have n: "card (dom (blocks m0)) + 2 * (length ?cs + length ps) < N" using Cons.prems(4) by simp
    have o: "opcode_ok 0" "(0 :: u8) AND 0x08 \<noteq> 0x08" by (simp_all add: opcode_ok_def)
    have op: "if ?cs = [] then 0 = opc0 else opcode (fst (snd (List.hd ?cs))) = ucast opc0"
      using Cons.prems(7) f(4) by (cases cs) auto
    have c: "\<forall>(ctl, p)\<in>set ps. \<forall>c\<in>set ctl. control_ok c" "length (concat ((qs @ [p]) @ map snd ps)) < 2 ^ 31"
      using Cons.prems(9,10) by (auto simp: x)
    note ih = Cons.IH [OF c' f(2) l n o op False c]
    have r: "run (in_data_turn env) (message_bytes opc (x # ps)) (with_frames (Some a) m s) =
        run (in_data_turn env) (message_bytes 0 ps) (with_frames (Some b) m'' s)"
      using h(3) f(5) False by (simp add: x run_append)
    have "qs @ map snd (x # ps) = (qs @ [p]) @ map snd ps" by (simp add: x)
    then show ?thesis using ih by (simp only: r)
  qed
qed simp

lemma message_run:
  assumes env: "memory_for N env" and c: "chain m0 [] m" "finite (dom (blocks m0))" and g: "onMessage (wsc s) = Some g"
    and N: "card (dom (blocks m0)) + 2 * length ps < N" and ok: "message_ok (opc, ps)"
  shows "if fits (map snd ps)
    then \<exists>m'. chain m0 [] m' \<and> run (in_data_turn env) (message_bytes opc ps) (with_frames None m s) =
       Inr (with_frames None m' (emit [delivered g opc (map snd ps)] s))
    else run (in_data_turn env) (message_bytes opc ps) (with_frames None m s) = Inl Out_Of_Bounds"
proof -
  have ps: "ps \<noteq> []" "opcode_ok opc" "opc AND 0x08 \<noteq> 0x08" "\<forall>(ctl, p)\<in>set ps. \<forall>c\<in>set ctl. control_ok c"
    "length (concat ([] @ map snd ps)) < 2 ^ 31"
    using ok by (simp_all add: message_ok_def)
  have "card (dom (blocks m0)) + 1 < N" using N ps(1) by (cases ps) auto
  from begin_frame [OF env c this] obtain a f bs m' where a: "chain m0 [(a, f, bs)] m'" "fresh f bs"
    and e: "\<forall>b. in_data env b (with_frames None m s) = in_data env b (with_frames (Some a) m' s)" by blast
  obtain b0 bytes where b: "message_bytes opc ps = b0 # bytes"
    using ps(1) by (cases ps; cases "message_bytes opc ps") (auto simp: server_frame_def frame_head_def)
  then have "run (in_data_turn env) (message_bytes opc ps) (with_frames None m s) =
      run (in_data_turn env) (message_bytes opc ps) (with_frames (Some a) m' s)"
    using e by (simp add: in_data_turn_def)
  then show ?thesis
    using pieces_run [OF env c(2) g, of "[]" a f bs m' "[]" ps opc opc] a N ps by (simp split: if_splits)
qed

lemma with_frames_id: "current_frame (wsc s) = None \<Longrightarrow> with_frames None (frames s) s = s"
  by (simp add: with_frames_def upd_ws_def)

lemma messages_run:
  assumes env: "memory_for N env" and fin: "finite (dom (blocks m0))"
  shows "chain m0 [] m \<Longrightarrow> onMessage (wsc s) = Some g \<Longrightarrow>
    \<forall>msg\<in>set ms. message_ok msg \<and> card (dom (blocks m0)) + 2 * length (snd msg) < N \<Longrightarrow>
    (if \<forall>(opc, ps)\<in>set ms. fits (map snd ps)
     then \<exists>m'. chain m0 [] m' \<and> run (in_data_turn env) (concat (map (\<lambda>(opc, ps). message_bytes opc ps) ms)) (with_frames None m s) =
        Inr (with_frames None m' (emit (map (\<lambda>(opc, ps). delivered g opc (map snd ps)) ms) s))
     else run (in_data_turn env) (concat (map (\<lambda>(opc, ps). message_bytes opc ps) ms)) (with_frames None m s) = Inl Out_Of_Bounds)"
proof (induction ms arbitrary: m s)
  case Nil
  then show ?case by auto
next
  case (Cons x ms)
  obtain opc ps where x: "x = (opc, ps)" by (cases x)
  have N: "card (dom (blocks m0)) + 2 * length ps < N" "message_ok (opc, ps)" using Cons.prems(3) by (auto simp: x)
  note mr = message_run [OF env Cons.prems(1) fin Cons.prems(2) N]
  show ?case
  proof (cases "fits (map snd ps)")
    case False
    then show ?thesis using mr by (simp add: x run_append)
  next
    case True
    with mr obtain m' where m': "chain m0 [] m'" "run (in_data_turn env) (message_bytes opc ps) (with_frames None m s) =
       Inr (with_frames None m' (emit [delivered g opc (map snd ps)] s))" by auto
    have g: "onMessage (wsc (emit [delivered g opc (map snd ps)] s)) = Some g" using Cons.prems(2) by simp
    have "\<forall>msg\<in>set ms. message_ok msg \<and> card (dom (blocks m0)) + 2 * length (snd msg) < N" using Cons.prems(3) by simp
    from Cons.IH [OF m'(1) g this] m'(2) True show ?thesis by (simp add: x run_append split: if_splits)
  qed
qed

text \<open>
  C5: \<open>in_data\<close> fed with a stream of messages. Each message is fragmented in any way, with any lengths
  (their sum below \<open>2^31\<close>) and with control frames other than close between its fragments; there is
  room in memory for two blocks per fragment. When no message has a first fragment that is more than
  a byte longer than its last one, the application gets every message, once and in order: its opcode,
  the sum of the lengths and the payloads joined, padded with zeros; and all the memory is given back.
  As soon as one message has a first fragment that is longer than that, \<open>dispatch_message\<close> writes
  past the end of the buffer it has allocated, since the loop that adds up the lengths counts the last
  fragment twice and the first not at all.
\<close>

theorem ws_receives_messages:
  assumes "memory_for N env" "finite (dom (blocks (frames s)))"
    and "current_frame (wsc s) = None" "onMessage (wsc s) = Some g"
    and "\<forall>msg\<in>set ms. message_ok msg \<and> card (dom (blocks (frames s))) + 2 * length (snd msg) < N"
  shows "if \<forall>(opc, ps)\<in>set ms. length (snd (List.hd ps)) \<le> length (snd (List.last ps)) + 1
    then \<exists>m. run (in_data_turn env) (concat (map (\<lambda>(opc, ps). message_bytes opc ps) ms)) s =
        Inr (s\<lparr>frames := m, ws_events := ws_events s @ map (\<lambda>(opc, ps). delivered g opc (map snd ps)) ms\<rparr>) \<and>
      blocks m = blocks (frames s) \<and> live m = live (frames s)
    else run (in_data_turn env) (concat (map (\<lambda>(opc, ps). message_bytes opc ps) ms)) s = Inl Out_Of_Bounds"
proof -
  have "chain (frames s) [] (frames s)" by (simp add: chain_def)
  note mr = messages_run [OF assms(1,2) this assms(4,5), unfolded with_frames_id [OF assms(3)]]
  have f: "fits (map snd ps) \<longleftrightarrow> length (snd (List.hd ps)) \<le> length (snd (List.last ps)) + 1" if "(opc, ps) \<in> set ms" for opc ps
    using assms(5) that by (fastforce simp: message_ok_def fits_def hd_map last_map)
  have w: "with_frames None m (emit es s) = s\<lparr>frames := m, ws_events := ws_events s @ es\<rparr>" for m es
    using assms(3) by (simp add: with_frames_def upd_ws_def emit_def)
  have c: "blocks m = blocks (frames s) \<and> live m = live (frames s)" if "chain (frames s) [] m" for m
    using that by (simp add: chain_def)
  have "(\<forall>(opc, ps)\<in>set ms. fits (map snd ps)) \<longleftrightarrow>
      (\<forall>(opc, ps)\<in>set ms. length (snd (List.hd ps)) \<le> length (snd (List.last ps)) + 1)"
    using f by (intro ball_cong) auto
  then show ?thesis using mr w c by (auto split: if_splits)
qed

text \<open>An environment and a client for the examples.\<close>

definition demo_env :: ws_env where
  "demo_env = \<lparr>frame_malloc = first_fit, frame_realloc = (\<lambda>h p n. p), url_malloc = first_fit, http_malloc = first_fit,
     tcp_malloc = first_fit, request_junk = replicate 2048 (CHR ''x''), stack_junk = replicate 512 (CHR ''x''),
     rand = (\<lambda>i. of_nat i), sha1 = (\<lambda>bs. replicate 20 1), base64 = (\<lambda>bs n. take n ''AAEC''), net = demo_net\<rparr>"

definition connected_ws :: ws_client where
  "connected_ws = \<lparr>wsc = ws_cleared\<lparr>ws_state := WS_STATE_CONNECTION_ESTABLISHED, onMessage := Some 7\<rparr>,
     frames = \<lparr>blocks = Map.empty, aaa = 0, fff = 0\<rparr>, urls = \<lparr>blocks = Map.empty, aaa = 0, fff = 0\<rparr>,
     reqs = \<lparr>blocks = Map.empty, aaa = 0, fff = 0\<rparr>, tcp = power_on, ws_events = []\<rparr>"

lemma memory_for_demo: "memory_for 8 demo_env"
proof -
  have "first_fit h n \<noteq> None" if "finite (dom h)" "card (dom h) < 8" for h :: "nat \<rightharpoonup> ws_block" and n
  proof
    assume "first_fit h n = None"
    then have "{..<8} \<subseteq> dom h" by (auto simp: first_fit_def find_None_iff)
    with that(1) have "card {..<8 :: nat} \<le> card (dom h)" by (rule card_mono)
    then show False using that(2) by simp
  qed
  then show ?thesis by (simp add: memory_for_def demo_env_def realloc_ok_def)
qed

theorem ws_receives_messages_witness:
  "(\<exists>m. run (in_data_turn demo_env)
        (message_bytes 1 [([], [104, 105])] @ message_bytes 1 [([(9, [])], [97]), ([(10, [1])], [98, 99])]) connected_ws =
      Inr (connected_ws\<lparr>frames := m, ws_events := [On_Message 7 1 2 [104, 105, 0], On_Message 7 1 3 [97, 98, 99, 0, 0]]\<rparr>) \<and>
    blocks m = blocks (frames connected_ws) \<and> live m = live (frames connected_ws)) \<and>
   run (in_data_turn demo_env) (message_bytes 1 [([], [1, 2, 3]), ([], [4])]) connected_ws = Inl Out_Of_Bounds"
proof -
  have c: "finite (dom (blocks (frames connected_ws)))" "current_frame (wsc connected_ws) = None" "onMessage (wsc connected_ws) = Some 7"
    by (simp_all add: connected_ws_def ws_cleared_def)
  note served = ws_receives_messages [OF memory_for_demo c]
  have "\<exists>m. run (in_data_turn demo_env)
        (message_bytes 1 [([], [104, 105])] @ message_bytes 1 [([(9, [])], [97]), ([(10, [1])], [98, 99])]) connected_ws =
      Inr (connected_ws\<lparr>frames := m, ws_events := [On_Message 7 1 2 [104, 105, 0], On_Message 7 1 3 [97, 98, 99, 0, 0]]\<rparr>) \<and>
    blocks m = blocks (frames connected_ws) \<and> live m = live (frames connected_ws)"
    using served [of "[(1, [([], [104, 105])]), (1, [([(9, [])], [97]), ([(10, [1])], [98, 99])])]"]
    by (simp add: message_ok_def control_ok_def opcode_ok_def delivered_def counted_def connected_ws_def del: message_bytes.simps)
  moreover have "run (in_data_turn demo_env) (message_bytes 1 [([], [1, 2, 3]), ([], [4])]) connected_ws = Inl Out_Of_Bounds"
    using served [of "[(1, [([], [1, 2, 3]), ([], [4])])]"]
    by (simp add: message_ok_def opcode_ok_def connected_ws_def del: message_bytes.simps)
  ultimately show ?thesis by blast
qed

end
