(* ===== verification/Ws_Session.thy ===== *)
theory Ws_Session
  imports Ws_Frames
begin

unbundle bit_operations_syntax

text \<open>
  What the WebSocket client sends, and the handshake: the frames of \<open>ws_client_send\<close> are decoded by
  RFC 6455 to the text, as far as the 16 bit length of the TCP client lets them through; which
  responses \<open>handshake_response_parse\<close> takes for an accepted handshake.
\<close>

section \<open>Sending\<close>

text \<open>A masked frame, read as RFC 6455 (5.2, 5.3) says: the final bit, the opcode and the payload.\<close>

definition decode_frame :: "u8 list \<Rightarrow> (bool \<times> u8 \<times> u8 list) option" where
  "decode_frame bs =
     (case bs of
        b0 # b1 # r \<Rightarrow>
          let n = b1 AND 0x7F; k = (if n = 126 then 2 else if n = 127 then 8 else 0);
              len = (if k = 0 then unat n else unat (big_endian (take k r)));
              key = take 4 (drop k r); p = drop (k + 4) r
          in if b1 AND 0x80 = 0x80 \<and> length r = k + 4 + len
             then Some (b0 AND 0x80 = 0x80, b0 AND 0x0F, mask_with key p) else None
      | _ \<Rightarrow> None)"

lemma length_mask [simp]: "length (mask_with key bs) = length bs"
  by (simp add: mask_with_def)

lemma mask_twice: "mask_with key (mask_with key bs) = bs"
  by (rule nth_equalityI) (simp_all add: mask_with_def xor.assoc)

lemma length_little_endian [simp]: "length (little_endian w) = 4"
  by (simp add: little_endian_def)

lemma length_bytes_of [simp]: "length (bytes_of t) = length t"
  by (simp add: bytes_of_def)

text \<open>The three forms of a frame, by the length of the text.\<close>

lemma text_frame_cases:
  assumes "length t < 2 ^ 31"
  shows "\<exists>c ext. text_frame key t = [0x81, c OR 0x80] @ ext @ key @ mask_with key (bytes_of t) \<and> len_code (length t) = c # ext"
proof -
  have u: "unat (of_nat (length t) :: 64 word) = length t" using assms by (intro of_nat_unat64) simp
  have "(of_nat (length t) :: 64 word) \<le> 125 \<longleftrightarrow> length t \<le> 125"
    "(of_nat (length t) :: 64 word) \<le> 0xFFFF \<longleftrightarrow> length t \<le> 0xFFFF"
    by (simp_all only: word_le_nat_alt u) simp_all
  moreover have "(ucast (of_nat (length t) :: 64 word) :: u8) = of_nat (length t)"
    using arg_cong [OF u, of "of_nat :: nat \<Rightarrow> u8"] by (simp only: of_nat_unat)
  ultimately show ?thesis by (auto simp: text_frame_def len_code_def Let_def)
qed

lemma decode_text_frame:
  assumes t: "length t < 2 ^ 31" and key: "length key = 4"
  shows "decode_frame (text_frame key t) = Some (True, 1, bytes_of t)"
proof -
  obtain c ext where f: "text_frame key t = [0x81, c OR 0x80] @ ext @ key @ mask_with key (bytes_of t)" and c: "len_code (length t) = c # ext"
    using text_frame_cases [OF t] by blast
  have l: "c AND 0x80 = 0 \<and> (c AND 0x7F = 126 \<and> length ext = 2 \<and> big_endian ext = of_nat (length t) \<or>
     c AND 0x7F = 127 \<and> length ext = 8 \<and> big_endian ext = of_nat (length t) \<or>
     c AND 0x7F \<noteq> 126 \<and> c AND 0x7F \<noteq> 127 \<and> ext = [] \<and> ucast (c AND 0x7F) = (of_nat (length t) :: 64 word))"
    using length_code [OF t] unfolding c by blast
  have u: "unat (of_nat (length t) :: 64 word) = length t" using t by (intro of_nat_unat64) simp
  have b: "(c OR 0x80) AND 0x7F = c AND 0x7F" "(c OR 0x80) AND 0x80 = 0x80"
    by (simp_all add: bit.conj_disj_distrib2)
  have s: "unat (c AND 0x7F) = length t" if "ucast (c AND 0x7F) = (of_nat (length t) :: 64 word)"
  proof -
    have "unat (ucast (c AND 0x7F) :: 64 word) = unat (c AND 0x7F)"
      by (simp only: unsigned_ucast_eq) (rule take_bit_nat_eq_self, use unsigned_less [of "c AND 0x7F", where ?'a = nat] in simp)
    then show ?thesis using that u by simp
  qed
  show ?thesis using l s b u key by (auto simp: decode_frame_def f mask_twice)
qed

lemma length_text_frame:
  assumes t: "length t < 2 ^ 31" and key: "length key = 4"
  shows "unat (frame_size t) = length (text_frame key t)"
proof -
  have u: "unat (of_nat (length t) :: 64 word) = length t" using t by (intro of_nat_unat64) simp
  have le: "(of_nat (length t) :: 64 word) \<le> 125 \<longleftrightarrow> length t \<le> 125"
    "(of_nat (length t) :: 64 word) \<le> 0xFFFF \<longleftrightarrow> length t \<le> 0xFFFF"
    by (simp_all only: word_le_nat_alt u) simp_all
  have s: "unat (ucast (of_nat d + of_nat (length t) :: 64 word) :: u32) = d + length t" if "d \<le> 14" for d
    using size32_of_nat [of "d + length t"] t that by (simp add: size32_def)
  show ?thesis using s [of 6] s [of 8] s [of 14] key by (simp add: frame_size_def text_frame_def le Let_def)
qed

lemma ucast16: "unat (ucast w :: u16) = unat w mod 2 ^ 16" for w :: u32
  by (simp add: unsigned_ucast_eq take_bit_eq_mod)

lemma send_error_simps [simp]:
  "fst (send_error x s) = -1" "frames (snd (send_error x s)) = frames s" "tcp (snd (send_error x s)) = tcp s"
  "ws_state (wsc (snd (send_error x s))) = WS_STATE_ERROR"
  by (simp_all add: send_error_def set_ws_state_def upd_ws_def on_error_def log_event_def split: option.splits)

text \<open>The part of a frame that its 16 bit length lets through.\<close>

definition let_through :: "u8 list \<Rightarrow> u8 list list" where
  "let_through fr = (let n = length fr mod 2 ^ 16 in if n = 0 then [] else [take n fr])"

lemma frame_sent:
  assumes tcp: "good m0 {} c cs" "malloc_ok malloc" "i < TCP_CLIENT_MAX_SOCKETS"
      "state (clientData c ! i) = TCP_CLIENT_STATE_CONNECTION_STABLISHED"
    and n: "unat (n :: u32) = length fr"
  shows "\<exists>r c' cs'. tcp_client_send malloc (int i) (Some fr) (ucast n) c = Inr (r, c') \<and> good m0 {} c' cs' \<and>
    (r = TCP_CLIENT_OP_SUCCESS \<and> messages (cs' ! i) = messages (cs ! i) @ let_through fr \<and> (\<forall>j. j \<noteq> i \<longrightarrow> cs' ! j = cs ! j) \<or>
     r \<noteq> TCP_CLIENT_OP_SUCCESS \<and> cs' = cs)"
proof -
  have u: "unat (ucast n :: u16) = length fr mod 2 ^ 16" using ucast16 [of n] n by simp
  have l: "length (clientData c) = TCP_CLIENT_MAX_SOCKETS" "length cs = TCP_CLIENT_MAX_SOCKETS" using tcp(1) by (simp_all add: good_def)
  show ?thesis
  proof (cases "ucast n = (0 :: u16)")
    case True
    then have "let_through fr = []" using u by (simp add: let_through_def)
    moreover have "tcp_client_send malloc (int i) (Some fr) (ucast n) c = Inr (TCP_CLIENT_OP_SUCCESS, c)"
      using True l tcp(3,4) by (simp add: tcp_client_send_def session_def)
    ultimately show ?thesis using tcp(1) by auto
  next
    case False
    then have pos: "0 < (ucast n :: u16)" "unat (ucast n :: u16) \<le> length fr" using u by (simp_all add: word_neq_0_conv)
    have lt: "let_through fr = [take (unat (ucast n :: u16)) fr]"
    proof -
      have "length fr mod 2 ^ 16 \<noteq> 0" using False by (simp only: unat_eq_zero flip: u) simp
      then show ?thesis by (simp add: let_through_def u Let_def)
    qed
    show ?thesis
    proof (cases rule: send_good [OF tcp(1,2,3,4) pos])
      case (1 t)
      then show ?thesis by (auto simp: TCP_CLIENT_OP_SUCCESS_def TCP_CLIENT_OP_ERROR_def)
    next
      case (2 t p n' d)
      then show ?thesis using l tcp(3) by (intro exI conjI) (auto simp: messages_def lt)
    qed
  qed
qed

text \<open>
  C6: \<open>ws_client_send\<close> on an established connection, for any text below \<open>2^31\<close> characters and whatever
  \<open>malloc\<close> decides. Either it fails, with -1 and the error state, and nothing is queued; or it gives 0
  and queues one frame on the session of the TCP client, behind what was waiting there and without
  touching the other sessions. The frame is masked with the random key and a reader of RFC 6455 gets
  the text back from it. But of a frame of 65536 bytes or more only the length modulo 65536 is
  queued, and nothing at all when that is 0, with the same result 0. The buffer is given back.
\<close>

theorem ws_send_queues_text:
  assumes "malloc_ok (frame_malloc env)" "malloc_ok (tcp_malloc env)" "length t < 2 ^ 31"
    and "\<not> has_flag CLIENT_SENT_CLOSE_FRAME s" "\<not> has_flag CLIENT_CONNECTING s"
    and "good m0 {} (tcp s) cs" "curSocketId (wsc s) = int i" "i < TCP_CLIENT_MAX_SOCKETS"
    and "state (clientData (tcp s) ! i) = TCP_CLIENT_STATE_CONNECTION_STABLISHED"
  shows "\<exists>r s' cs'. ws_client_send env 0 (Some t) s = Inr (r, s') \<and>
    blocks (frames s') = blocks (frames s) \<and> live (frames s') = live (frames s) \<and> good m0 {} (tcp s') cs' \<and>
    (r = 0 \<and> wsc s' = wsc s \<and> ws_events s' = ws_events s \<and> (\<forall>j. j \<noteq> i \<longrightarrow> cs' ! j = cs ! j) \<and>
       (\<exists>fr. decode_frame fr = Some (True, 1, bytes_of t) \<and> messages (cs' ! i) = messages (cs ! i) @ let_through fr) \<or>
     r = -1 \<and> cs' = cs \<and> ws_state (wsc s') = WS_STATE_ERROR)"
proof -
  define fr where "fr = text_frame (little_endian (rand env 0)) t"
  have dec: "decode_frame fr = Some (True, 1, bytes_of t)" and len: "unat (frame_size t) = length fr"
    using decode_text_frame [OF assms(3)] length_text_frame [OF assms(3)] by (simp_all add: fr_def)
  note go = ws_client_send_def at_handle_def assms(4,5) Let_def dmem_create_def
  show ?thesis
  proof (cases "frame_malloc env (blocks (frames s)) (length fr)")
    case None
    then have "ws_client_send env 0 (Some t) s = Inr (send_error 4 (s\<lparr>frames := frames s\<rparr>))"
      using len by (simp add: go flip: fr_def)
    then show ?thesis using assms(6) by (intro exI [of _ "-1"] exI [of _ "snd (send_error 4 s)"] exI [of _ cs]) (simp add: prod_eq_iff)
  next
    case (Some p)
    then have free: "blocks (frames s) p = None" using assms(1) by (simp add: malloc_ok_def)
    let ?m = "(frames s)\<lparr>blocks := (blocks (frames s))(p \<mapsto> Rawdata fr), aaa := aaa (frames s) + 1\<rparr>"
    let ?m' = "(frames s)\<lparr>aaa := aaa (frames s) + 1, fff := fff (frames s) + 1\<rparr>"
    from frame_sent [OF assms(6,2,8,9) len] obtain r c' cs' where
      c: "tcp_client_send (tcp_malloc env) (int i) (Some fr) (ucast (frame_size t)) (tcp s) = Inr (r, c')" "good m0 {} c' cs'"
      and r: "r = TCP_CLIENT_OP_SUCCESS \<and> messages (cs' ! i) = messages (cs ! i) @ let_through fr \<and> (\<forall>j. j \<noteq> i \<longrightarrow> cs' ! j = cs ! j) \<or>
       r \<noteq> TCP_CLIENT_OP_SUCCESS \<and> cs' = cs" by blast
    have rel: "dmem_release (Some p) ?m = Inr ?m'" using free by (simp add: dmem_release_def fun_upd_idem)
    have sent: "ws_client_send env 0 (Some t) s =
        (let (ret, s) = (if r = TCP_CLIENT_OP_SUCCESS then (0, s\<lparr>frames := ?m, tcp := c'\<rparr>) else send_error 4 (s\<lparr>frames := ?m, tcp := c'\<rparr>))
         in seq (dmem_release (Some p) (frames s)) (\<lambda>m. Inr (ret, s\<lparr>frames := m\<rparr>)))"
      using Some len c(1) assms(7) by (simp add: go flip: fr_def)
    have lv: "blocks ?m' = blocks (frames s)" "live ?m' = live (frames s)" by (simp_all add: live_def)
    from r show ?thesis
    proof (elim disjE conjE)
      assume ok: "r = TCP_CLIENT_OP_SUCCESS" and q: "messages (cs' ! i) = messages (cs ! i) @ let_through fr" "\<forall>j. j \<noteq> i \<longrightarrow> cs' ! j = cs ! j"
      have "ws_client_send env 0 (Some t) s = Inr (0, s\<lparr>frames := ?m', tcp := c'\<rparr>)" using sent ok rel by simp
      then show ?thesis using c(2) q dec lv by fastforce
    next
      assume bad: "r \<noteq> TCP_CLIENT_OP_SUCCESS" and "cs' = cs"
      let ?s = "s\<lparr>frames := ?m, tcp := c'\<rparr>"
      obtain s1 where s1: "send_error 4 ?s = (-1, s1)" by (simp add: send_error_def)
      then have f: "frames s1 = ?m" "tcp s1 = c'" "ws_state (wsc s1) = WS_STATE_ERROR"
        using send_error_simps(2-4) [of 4 ?s] by simp_all
      have "ws_client_send env 0 (Some t) s = Inr (-1, s1\<lparr>frames := ?m'\<rparr>)" using sent bad rel s1 f(1) by simp
      then show ?thesis using c(2) \<open>cs' = cs\<close> lv f(2,3) by fastforce
    qed
  qed
qed

text \<open>A client on a connected session.\<close>

definition sending_ws :: ws_client where
  "sending_ws = connected_ws\<lparr>tcp := one_connected\<rparr>"

lemma one_connected_good: "good (mem power_on) {} one_connected (replicate TCP_CLIENT_MAX_SOCKETS [])"
  using stored_empty [of "mem power_on" 3]
  by (auto simp: good_def one_connected_def connected_session_def session_cleared_def power_on_def TCP_CLIENT_MAX_SOCKETS_def
      session_ok_def unconnected_def connected_def INVALID_SOCKET_def less_Suc_eq numeral_3_eq_3)

theorem ws_send_queues_text_witness:
  "\<exists>r s' cs'. ws_client_send demo_env 0 (Some ''hi'') sending_ws = Inr (r, s') \<and>
    blocks (frames s') = blocks (frames sending_ws) \<and> live (frames s') = live (frames sending_ws) \<and> good (mem power_on) {} (tcp s') cs' \<and>
    (r = 0 \<and> wsc s' = wsc sending_ws \<and> ws_events s' = ws_events sending_ws \<and>
       (\<forall>j. j \<noteq> 0 \<longrightarrow> cs' ! j = replicate TCP_CLIENT_MAX_SOCKETS [] ! j) \<and>
       (\<exists>fr. decode_frame fr = Some (True, 1, bytes_of ''hi'') \<and>
          messages (cs' ! 0) = messages (replicate TCP_CLIENT_MAX_SOCKETS [] ! 0) @ let_through fr) \<or>
     r = -1 \<and> cs' = replicate TCP_CLIENT_MAX_SOCKETS [] \<and> ws_state (wsc s') = WS_STATE_ERROR)"
proof (rule ws_send_queues_text)
  show "good (mem power_on) {} (tcp sending_ws) (replicate TCP_CLIENT_MAX_SOCKETS [])"
    by (simp add: sending_ws_def one_connected_good)
qed (simp_all add: sending_ws_def connected_ws_def ws_cleared_def demo_env_def one_connected_def connected_session_def
    has_flag_def ws_flags TCP_CLIENT_MAX_SOCKETS_def)

section \<open>The handshake\<close>

lemma set_flag_simps [simp]:
  "set_flag y (set_flag x s) = set_flag (x OR y) s" "set_flag 0 s = s" "webSocketKey (wsc (set_flag x s)) = webSocketKey (wsc s)"
  "has_flag b (set_flag x s) \<longleftrightarrow> has_flag b s \<or> x AND b \<noteq> 0"
  "ws_events (set_flag x s) = ws_events s" "tcp (set_flag x s) = tcp s" "curSocketId (wsc (set_flag x s)) = curSocketId (wsc s)"
  "onOpen (wsc (set_flag x s)) = onOpen (wsc s)"
proof -
  show "has_flag b (set_flag x s) \<longleftrightarrow> has_flag b s \<or> x AND b \<noteq> 0"
    by (simp add: has_flag_def set_flag_def upd_ws_def bit.conj_disj_distrib2)
      (metis or_eq_0_iff)
qed (simp_all add: set_flag_def upd_ws_def or.assoc)

text \<open>The key the client computes, and the string it compares the one of the server with, up to a NUL.\<close>

definition accept_code :: "ws_env \<Rightarrow> string \<Rightarrow> string" where
  "accept_code env key = base64 env (sha1 env (bytes_of (take (WS_KEY_LENGTH - 1) (key @ UUID)))) (WS_KEY_LENGTH * 2)"

definition expected_key :: "ws_env \<Rightarrow> string \<Rightarrow> string" where
  "expected_key env key = cstr (accept_code env key @ drop (length (accept_code env key)) (stack_junk env))"

definition header_bits :: "ws_env \<Rightarrow> string \<Rightarrow> phr_header \<Rightarrow> u32" where
  "header_bits env key h =
     (if prefix (the (hdr_name h)) ''Upgrade'' \<and> prefix (hdr_value h) ''websocket'' then REQUEST_HAS_UPGRADE
      else if prefix (the (hdr_name h)) ''Connection'' \<and> prefix (hdr_value h) ''upgrade'' then REQUEST_HAS_CONNECTION
      else if prefix (the (hdr_name h)) ''Sec-WebSocket-Accept'' \<and> prefix (hdr_value h) (expected_key env key) then REQUEST_VALID_ACCEPT
      else 0)"

lemma no_nul: "token_ok t \<Longrightarrow> cstr t = t" "value_ok v \<Longrightarrow> cstr v = v"
proof -
  have "\<not> token_char NUL" "is_ctl NUL" by code_simp+
  then show "token_ok t \<Longrightarrow> cstr t = t" "value_ok v \<Longrightarrow> cstr v = v"
    by (auto simp: token_ok_def value_ok_def list_all_iff intro!: cstr_id)
qed

lemma strncmp_prefix:
  assumes "cstr n = n"
  shows "strncmp_eq x n (length n) \<longleftrightarrow> prefix n (cstr x)"
proof -
  have "take (length n) (cstr x) = n \<longleftrightarrow> prefix n (cstr x)" by (auto simp: prefix_def) (metis append_take_drop_id)
  then show ?thesis using assms by (simp add: strncmp_eq_def)
qed

lemma header_flags_bits:
  assumes "plain_header h" "length (accept_code env (cstr (webSocketKey (wsc s)))) \<le> length (stack_junk env)"
  shows "header_flags env h s = Inr (set_flag (header_bits env (cstr (webSocketKey (wsc s))) h) s)"
proof -
  obtain n where n: "hdr_name h = Some n" "token_ok n" "value_ok (hdr_value h)"
    using assms(1) by (auto simp: plain_header_def header_ok_def)
  obtain c cs where cc: "n = c # cs" using n(2) by (cases n) (auto simp: token_ok_def)
  have e: "perfom_expected_key env (cstr (webSocketKey (wsc s))) =
      Inr (accept_code env (cstr (webSocketKey (wsc s))) @ drop (length (accept_code env (cstr (webSocketKey (wsc s))))) (stack_junk env))"
    using assms(2) by (simp add: perfom_expected_key_def put_at_start_def accept_code_def Let_def)
  have lit: "cstr ''Upgrade'' = ''Upgrade''" "cstr ''websocket'' = ''websocket''" "cstr ''Connection'' = ''Connection''"
    "cstr ''upgrade'' = ''upgrade''" "cstr ''Sec-WebSocket-Accept'' = ''Sec-WebSocket-Accept''" by code_simp+
  note name = strncmp_prefix [OF no_nul(1) [OF n(2)]]
  note val = strncmp_prefix [OF no_nul(2) [OF n(3)]]
  have ex: "\<not> (prefix n ''Upgrade'' \<and> prefix n ''Connection'')" "\<not> (prefix n ''Upgrade'' \<and> prefix n ''Sec-WebSocket-Accept'')"
    "\<not> (prefix n ''Connection'' \<and> prefix n ''Sec-WebSocket-Accept'')"
    by (simp_all add: cc)
  show ?thesis
    using ex unfolding header_flags_def n(1) option.case Let_def name val lit e seq_Inr header_bits_def option.sel expected_key_def
    by auto
qed

lemma run_header_flags:
  assumes "list_all plain_header hs" "length (accept_code env (cstr (webSocketKey (wsc s)))) \<le> length (stack_junk env)"
  shows "\<exists>x. run (header_flags env) hs s = Inr (set_flag x s) \<and>
    (\<forall>b. x AND b \<noteq> 0 \<longleftrightarrow> (\<exists>h\<in>set hs. header_bits env (cstr (webSocketKey (wsc s))) h AND b \<noteq> 0))"
  using assms
proof (induction hs arbitrary: s)
  case Nil
  show ?case by (intro exI [of _ 0]) simp
next
  case (Cons h hs)
  let ?x = "header_bits env (cstr (webSocketKey (wsc s))) h"
  have "header_flags env h s = Inr (set_flag ?x s)" using Cons.prems by (intro header_flags_bits) simp_all
  moreover obtain y where y: "run (header_flags env) hs (set_flag ?x s) = Inr (set_flag y (set_flag ?x s))"
    "\<forall>b. y AND b \<noteq> 0 \<longleftrightarrow> (\<exists>h\<in>set hs. header_bits env (cstr (webSocketKey (wsc s))) h AND b \<noteq> 0)"
    using Cons.IH [of "set_flag ?x s"] Cons.prems by auto
  ultimately have "run (header_flags env) (h # hs) s = Inr (set_flag (?x OR y) s)" by simp
  moreover have "(?x OR y) AND b \<noteq> 0 \<longleftrightarrow> ?x AND b \<noteq> 0 \<or> y AND b \<noteq> 0" for b
    by (simp add: bit.conj_disj_distrib2) (metis or_eq_0_iff)
  ultimately show ?case using y(2) by (intro exI [of _ "?x OR y"]) simp
qed

text \<open>A header whose name and value begin the strings that are looked for.\<close>

definition says :: "string \<Rightarrow> string \<Rightarrow> phr_header list \<Rightarrow> bool" where
  "says n v hs \<longleftrightarrow> (\<exists>h\<in>set hs. prefix (the (hdr_name h)) n \<and> prefix (hdr_value h) v)"

lemma says_bits:
  assumes "list_all plain_header hs"
  shows "(\<exists>h\<in>set hs. header_bits env key h AND REQUEST_HAS_UPGRADE \<noteq> 0) = says ''Upgrade'' ''websocket'' hs"
    "(\<exists>h\<in>set hs. header_bits env key h AND REQUEST_HAS_CONNECTION \<noteq> 0) = says ''Connection'' ''upgrade'' hs"
    "(\<exists>h\<in>set hs. header_bits env key h AND REQUEST_VALID_ACCEPT \<noteq> 0) = says ''Sec-WebSocket-Accept'' (expected_key env key) hs"
proof -
  have ex: "\<not> (prefix n ''Upgrade'' \<and> prefix n ''Connection'')" "\<not> (prefix n ''Upgrade'' \<and> prefix n ''Sec-WebSocket-Accept'')"
    "\<not> (prefix n ''Connection'' \<and> prefix n ''Sec-WebSocket-Accept'')" if "h \<in> set hs" "n = the (hdr_name h)" for h n
    using assms that by (cases n; force simp: list_all_iff plain_header_def header_ok_def token_ok_def)+
  have bits: "header_bits env key h AND REQUEST_HAS_UPGRADE \<noteq> 0 \<longleftrightarrow> prefix (the (hdr_name h)) ''Upgrade'' \<and> prefix (hdr_value h) ''websocket''"
    "header_bits env key h AND REQUEST_HAS_CONNECTION \<noteq> 0 \<longleftrightarrow> prefix (the (hdr_name h)) ''Connection'' \<and> prefix (hdr_value h) ''upgrade''"
    "header_bits env key h AND REQUEST_VALID_ACCEPT \<noteq> 0 \<longleftrightarrow>
       prefix (the (hdr_name h)) ''Sec-WebSocket-Accept'' \<and> prefix (hdr_value h) (expected_key env key)" if "h \<in> set hs" for h
    using ex [OF that refl] unfolding header_bits_def by (auto simp: ws_flags)
  show "(\<exists>h\<in>set hs. header_bits env key h AND REQUEST_HAS_UPGRADE \<noteq> 0) = says ''Upgrade'' ''websocket'' hs"
    unfolding says_def by (rule bex_cong [OF refl], erule bits(1))
  show "(\<exists>h\<in>set hs. header_bits env key h AND REQUEST_HAS_CONNECTION \<noteq> 0) = says ''Connection'' ''upgrade'' hs"
    unfolding says_def by (rule bex_cong [OF refl], erule bits(2))
  show "(\<exists>h\<in>set hs. header_bits env key h AND REQUEST_VALID_ACCEPT \<noteq> 0) = says ''Sec-WebSocket-Accept'' (expected_key env key) hs"
    unfolding says_def by (rule bex_cong [OF refl], erule bits(3))
qed

text \<open>
  C7: the verdict on the response to the handshake, for any response that is written as HTTP prescribes
  and has at most ten headers. The client takes the connection for established, calls \<open>onOpen\<close> and
  lets data be sent exactly when each of the three flags is set, and a flag is set when the status is
  101 and some header has a name and a value that begin the strings that are looked for, or when it
  has been set since the client was initialised. Otherwise it closes the TCP session and stops with
  an error. So a server that leaves the three values empty, which shows nothing of the key, is
  accepted; so is any response, of any status, after one handshake that succeeded; and a server that
  answers \<open>Connection: Upgrade\<close> as in the example of RFC 6455 is refused.
\<close>

theorem handshake_accepted_iff:
  assumes "cstr (chars_of (recv_buf (wsc s))) = render_response r"
    and "response_ok HTTP_MAX_RESPONSE_HEADERS r" "list_all plain_header (resp_headers r)"
    and "length (accept_code env (cstr (webSocketKey (wsc s)))) \<le> length (stack_junk env)"
    and "curSocketId (wsc s) = int i" "i < length (clientData (tcp s))"
  shows "\<exists>t. case_WAIT_HANDSHAKE_RESPONSE_PARSE env s = Inr t \<and>
    (if (has_flag REQUEST_HAS_UPGRADE s \<or> resp_status r = 101 \<and> says ''Upgrade'' ''websocket'' (resp_headers r)) \<and>
        (has_flag REQUEST_HAS_CONNECTION s \<or> resp_status r = 101 \<and> says ''Connection'' ''upgrade'' (resp_headers r)) \<and>
        (has_flag REQUEST_VALID_ACCEPT s \<or> resp_status r = 101 \<and>
           says ''Sec-WebSocket-Accept'' (expected_key env (cstr (webSocketKey (wsc s)))) (resp_headers r))
     then ws_state (wsc t) = WS_STATE_CONNECTION_ESTABLISHED \<and> \<not> has_flag CLIENT_CONNECTING t \<and> tcp t = tcp s \<and>
       ws_events t = ws_events s @ (case onOpen (wsc s) of None \<Rightarrow> [] | Some f \<Rightarrow> [On_Open f])
     else ws_state (wsc t) = WS_STATE_ERROR \<and> ws_events t = ws_events s)"
proof -
  let ?key = "cstr (webSocketKey (wsc s))"
  define y where "y = (if resp_status r = 101 then REQUEST_VALID_STATUS else 0)"
  have "\<exists>x. handshake_response_parse env (render_response r) s = Inr (set_flag x s) \<and>
    (\<forall>b. b AND REQUEST_VALID_STATUS = 0 \<longrightarrow>
       (x AND b \<noteq> 0 \<longleftrightarrow> resp_status r = 101 \<and> (\<exists>h\<in>set (resp_headers r). header_bits env ?key h AND b \<noteq> 0)))"
  proof (cases "resp_status r = 101")
    case False
    then show ?thesis using response_round_trip [OF assms(2,3), of "[]"]
      by (intro exI [of _ 0]) (simp add: handshake_response_parse_def)
  next
    case True
    let ?s = "set_flag REQUEST_VALID_STATUS s"
    obtain x where x: "run (header_flags env) (resp_headers r) ?s = Inr (set_flag x ?s)"
      "\<forall>b. x AND b \<noteq> 0 \<longleftrightarrow> (\<exists>h\<in>set (resp_headers r). header_bits env ?key h AND b \<noteq> 0)"
      using run_header_flags [OF assms(3), of env ?s] assms(4) by auto
    have "handshake_response_parse env (render_response r) s = Inr (set_flag (REQUEST_VALID_STATUS OR x) s)"
      using response_round_trip [OF assms(2,3), of "[]"] True x(1) by (simp add: handshake_response_parse_def)
    moreover have "(REQUEST_VALID_STATUS OR x) AND b = x AND b" if "b AND REQUEST_VALID_STATUS = 0" for b
    proof -
      have "REQUEST_VALID_STATUS AND b = 0" using that by (simp only: and.commute)
      then show ?thesis by (simp add: bit.conj_disj_distrib2)
    qed
    ultimately show ?thesis using True x(2) by (intro exI [of _ "REQUEST_VALID_STATUS OR x"]) simp
  qed
  then obtain x where p: "handshake_response_parse env (render_response r) s = Inr (set_flag x s)"
    and x: "\<And>b. b AND REQUEST_VALID_STATUS = 0 \<Longrightarrow>
       (x AND b \<noteq> 0) = (resp_status r = 101 \<and> (\<exists>h\<in>set (resp_headers r). header_bits env ?key h AND b \<noteq> 0))" by blast
  have fl: "has_flag REQUEST_HAS_UPGRADE (set_flag x s) \<longleftrightarrow> has_flag REQUEST_HAS_UPGRADE s \<or>
      resp_status r = 101 \<and> says ''Upgrade'' ''websocket'' (resp_headers r)"
    "has_flag REQUEST_HAS_CONNECTION (set_flag x s) \<longleftrightarrow> has_flag REQUEST_HAS_CONNECTION s \<or>
      resp_status r = 101 \<and> says ''Connection'' ''upgrade'' (resp_headers r)"
    "has_flag REQUEST_VALID_ACCEPT (set_flag x s) \<longleftrightarrow> has_flag REQUEST_VALID_ACCEPT s \<or>
      resp_status r = 101 \<and> says ''Sec-WebSocket-Accept'' (expected_key env ?key) (resp_headers r)"
    using x [of REQUEST_HAS_UPGRADE] x [of REQUEST_HAS_CONNECTION] x [of REQUEST_VALID_ACCEPT] says_bits [OF assms(3), of env ?key]
    by (simp_all add: ws_flags)
  have "\<exists>u. close_tcp (set_flag x s) = Inr u \<and> ws_events u = ws_events s"
    using assms(5,6) by (auto simp: close_tcp_def tcp_client_close_def session_def)
  then obtain u where u: "close_tcp (set_flag x s) = Inr u" "ws_events u = ws_events s" by blast
  let ?acc = "has_flag REQUEST_HAS_UPGRADE (set_flag x s) \<and> has_flag REQUEST_HAS_CONNECTION (set_flag x s) \<and>
      has_flag REQUEST_VALID_ACCEPT (set_flag x s)"
  have "\<exists>t. case_WAIT_HANDSHAKE_RESPONSE_PARSE env s = Inr t \<and>
    (if ?acc then ws_state (wsc t) = WS_STATE_CONNECTION_ESTABLISHED \<and> \<not> has_flag CLIENT_CONNECTING t \<and> tcp t = tcp s \<and>
       ws_events t = ws_events s @ (case onOpen (wsc s) of None \<Rightarrow> [] | Some f \<Rightarrow> [On_Open f])
     else ws_state (wsc t) = WS_STATE_ERROR \<and> ws_events t = ws_events s)"
  proof (cases ?acc)
    case True
    let ?u = "upd_ws (\<lambda>d. d\<lparr>flags := flags d AND NOT CLIENT_CONNECTING\<rparr>) (set_flag x s)"
    have "case_WAIT_HANDSHAKE_RESPONSE_PARSE env s =
        Inr (set_ws_state WS_STATE_CONNECTION_ESTABLISHED (log_event On_Open (onOpen (wsc ?u)) ?u))"
      using True p by (simp only: case_WAIT_HANDSHAKE_RESPONSE_PARSE_def assms(1) seq_Inr if_True Let_def simp_thms)
    moreover have "\<not> has_flag CLIENT_CONNECTING (set_ws_state WS_STATE_CONNECTION_ESTABLISHED (log_event On_Open (onOpen (wsc ?u)) ?u))"
      by (simp add: has_flag_def set_ws_state_def upd_ws_def log_event_def and.assoc split: option.split)
    moreover have "onOpen (wsc ?u) = onOpen (wsc s)" "tcp ?u = tcp s" "ws_events ?u = ws_events s"
      by (simp_all add: upd_ws_def set_flag_def)
    ultimately show ?thesis using True by (simp add: set_ws_state_def upd_ws_def log_event_def split: option.split)
  next
    case False
    have "case_WAIT_HANDSHAKE_RESPONSE_PARSE env s = Inr (set_ws_state WS_STATE_ERROR u)"
      using False p u(1) by (simp only: case_WAIT_HANDSHAKE_RESPONSE_PARSE_def assms(1) seq_Inr if_False simp_thms)
    then show ?thesis using False u(2) by (simp only: if_False) (simp add: set_ws_state_def upd_ws_def)
  qed
  then show ?thesis unfolding fl .
qed

lemma chars_of_bytes: "chars_of (bytes_of t @ [0]) = t @ [NUL]"
proof -
  have "char_of (unat (of_char c :: u8)) = c" for c
  proof -
    have "unat (of_nat (of_char c) :: u8) = of_char c" by (subst unsigned_of_nat) (simp add: take_bit_nat_eq_self)
    then show ?thesis by (simp only: of_nat_of_char char_of_char)
  qed
  moreover have "char_of (0 :: nat) = NUL" by code_simp
  ultimately show ?thesis by (simp add: chars_of_def bytes_of_def comp_def)
qed

text \<open>A client that has received the answer \<open>r\<close>, and two answers.\<close>

definition awaiting_ws :: "phr_response \<Rightarrow> ws_client" where
  "awaiting_ws r = sending_ws\<lparr>wsc := (wsc sending_ws)\<lparr>ws_state := WS_STATE_WAIT_HANDSHAKE_RESPONSE_PARSE,
     flags := CLIENT_CONNECTING, onOpen := Some 3, recv_buf := bytes_of (render_response r) @ [0]\<rparr>\<rparr>"

definition answer :: "string \<Rightarrow> string \<Rightarrow> string \<Rightarrow> phr_response" where
  "answer u c k = \<lparr>resp_minor_version = 1, resp_status = 101, resp_msg = ''Switching Protocols'',
     resp_headers = [\<lparr>hdr_name = Some ''Upgrade'', hdr_value = u\<rparr>, \<lparr>hdr_name = Some ''Connection'', hdr_value = c\<rparr>,
       \<lparr>hdr_name = Some ''Sec-WebSocket-Accept'', hdr_value = k\<rparr>]\<rparr>"

theorem handshake_accepted_iff_witness:
  "(\<exists>t. case_WAIT_HANDSHAKE_RESPONSE_PARSE demo_env (awaiting_ws (answer [] [] [])) = Inr t \<and>
      ws_state (wsc t) = WS_STATE_CONNECTION_ESTABLISHED \<and> ws_events t = [On_Open 3]) \<and>
   (\<exists>t. case_WAIT_HANDSHAKE_RESPONSE_PARSE demo_env (awaiting_ws (answer ''websocket'' ''Upgrade'' ''AAEC'')) = Inr t \<and>
      ws_state (wsc t) = WS_STATE_ERROR \<and> ws_events t = [])"
proof -
  let ?a = "answer [] [] []" and ?b = "answer ''websocket'' ''Upgrade'' ''AAEC''"
  have s: "curSocketId (wsc (awaiting_ws r)) = int 0" "0 < length (clientData (tcp (awaiting_ws r)))"
    "webSocketKey (wsc (awaiting_ws r)) = zeros WS_KEY_LENGTH" "flags (wsc (awaiting_ws r)) = CLIENT_CONNECTING"
    "ws_events (awaiting_ws r) = []" "onOpen (wsc (awaiting_ws r)) = Some 3"
    "recv_buf (wsc (awaiting_ws r)) = bytes_of (render_response r) @ [0]" for r
    by (simp_all add: awaiting_ws_def sending_ws_def connected_ws_def ws_cleared_def one_connected_def)
  have k: "length (accept_code demo_env (cstr (webSocketKey (wsc (awaiting_ws r))))) \<le> length (stack_junk demo_env)" for r
    by (simp add: accept_code_def demo_env_def)
  have f: "\<not> has_flag REQUEST_HAS_UPGRADE (awaiting_ws r)" "\<not> has_flag REQUEST_HAS_CONNECTION (awaiting_ws r)"
    "\<not> has_flag REQUEST_VALID_ACCEPT (awaiting_ws r)" for r
    by (simp_all add: has_flag_def s ws_flags)
  have c: "cstr (chars_of (recv_buf (wsc (awaiting_ws ?a)))) = render_response ?a"
    "cstr (chars_of (recv_buf (wsc (awaiting_ws ?b)))) = render_response ?b"
    unfolding s chars_of_bytes by (rule cstr_append_NUL, code_simp)+
  have ok: "response_ok HTTP_MAX_RESPONSE_HEADERS ?a" "list_all plain_header (resp_headers ?a)"
    "response_ok HTTP_MAX_RESPONSE_HEADERS ?b" "list_all plain_header (resp_headers ?b)"
    by code_simp+
  have h: "says ''Upgrade'' ''websocket'' (resp_headers ?a)" "says ''Connection'' ''upgrade'' (resp_headers ?a)"
    "says ''Sec-WebSocket-Accept'' x (resp_headers ?a)" "\<not> says ''Connection'' ''upgrade'' (resp_headers ?b)" "resp_status ?a = 101" for x
    by (simp_all add: says_def answer_def)
  show ?thesis
    using handshake_accepted_iff [OF c(1) ok(1,2) k s(1,2)] handshake_accepted_iff [OF c(2) ok(3,4) k s(1,2)] h f
    by (simp add: s) blast
qed

end
